(* ===== verification/Contracts.thy ===== *)
theory Contracts
  imports Prelude
begin

text \<open>
  The shared vocabulary of the platform, from \<open>packages/contracts/src\<close>: the step ids of the
  delivery flow with their kinds, the risk tiers and their gate sets, the work modes and flow
  types, the analysis document, the gate decision and the signals a running ticket receives.
  The Zod schemas become datatypes and records; the refinements Zod checks (\<open>NonEmpty\<close>, \<open>min(1)\<close>,
  "a rejection needs a reason") become bool-valued predicates.
\<close>

subsection \<open>common.ts\<close>

datatype data_class = Acik | Dahili | Gizli

datatype risk_tier = Dusuk | Orta | Kritik

datatype work_mode = FullAuto | AiAssist | HumanLead | HumanOnly

datatype flow_type = Analiz | Duzeltme | Gelistirme

datatype locale_id = Tr | En

text \<open>\<open>z.string().trim().min(1)\<close>: something is left after trimming.\<close>

definition non_empty :: "string \<Rightarrow> bool" where
  "non_empty s \<longleftrightarrow> trim s \<noteq> []"

text \<open>\<open>/^[A-Z][A-Z0-9]+-\d+$/\<close>\<close>

definition is_project_char :: "char \<Rightarrow> bool" where
  "is_project_char c \<longleftrightarrow> is_upper c \<or> is_digit c"

definition project_key_ok :: "string \<Rightarrow> bool" where
  "project_key_ok p \<longleftrightarrow>
     (case p of [] \<Rightarrow> False | c # cs \<Rightarrow> is_upper c \<and> cs \<noteq> [] \<and> list_all is_project_char cs)"

definition ticket_key_ok :: "string \<Rightarrow> bool" where
  "ticket_key_ok k \<longleftrightarrow>
     (let p = takeWhile is_project_char k; r = dropWhile is_project_char k
      in project_key_ok p \<and>
         (case r of [] \<Rightarrow> False | d # ds \<Rightarrow> d = CHR ''-'' \<and> ds \<noteq> [] \<and> list_all is_digit ds))"

text \<open>\<open>/^[a-z][a-z0-9-]{1,63}$/\<close>\<close>

definition app_id_ok :: "string \<Rightarrow> bool" where
  "app_id_ok a \<longleftrightarrow>
     (case a of [] \<Rightarrow> False
      | c # cs \<Rightarrow> is_lower c \<and> 1 \<le> length cs \<and> length cs \<le> 63 \<and>
          list_all (\<lambda>x. is_lower x \<or> is_digit x \<or> x = CHR ''-'') cs)"

text \<open>\<open>/^[A-Za-z0-9][A-Za-z0-9._-]{7,}$/\<close>\<close>

definition run_id_ok :: "string \<Rightarrow> bool" where
  "run_id_ok r \<longleftrightarrow>
     (case r of [] \<Rightarrow> False
      | c # cs \<Rightarrow> (is_upper c \<or> is_lower c \<or> is_digit c) \<and> 7 \<le> length cs \<and>
          list_all (\<lambda>x. is_upper x \<or> is_lower x \<or> is_digit x \<or> x \<in> set ''._-'') cs)"

subsection \<open>workflow.ts: steps and gates\<close>

datatype step_id =
    S0 | S2 | S2b | S3o | S3 | S4 | S5 | S6a | S6b | S6c | S7 | S8 | S9 | S10 | S10b
  | S11 | S12 | S12b | S13

definition STEP_IDS :: "step_id list" where
  "STEP_IDS = [S0, S2, S2b, S3o, S3, S4, S5, S6a, S6b, S6c, S7, S8, S9, S10, S10b,
               S11, S12, S12b, S13]"

text \<open>The id as the source spells it.\<close>

fun step_str :: "step_id \<Rightarrow> string" where
  "step_str S0 = ''0''" | "step_str S2 = ''2''" | "step_str S2b = ''2b''"
| "step_str S3o = ''3o''" | "step_str S3 = ''3''" | "step_str S4 = ''4''"
| "step_str S5 = ''5''" | "step_str S6a = ''6a''" | "step_str S6b = ''6b''"
| "step_str S6c = ''6c''" | "step_str S7 = ''7''" | "step_str S8 = ''8''"
| "step_str S9 = ''9''" | "step_str S10 = ''10''" | "step_str S10b = ''10b''"
| "step_str S11 = ''11''" | "step_str S12 = ''12''" | "step_str S12b = ''12b''"
| "step_str S13 = ''13''"

text \<open>The position in \<open>STEP_IDS\<close>; steps are ordered by it, which is the order of the flow.\<close>

fun step_rank :: "step_id \<Rightarrow> nat" where
  "step_rank S0 = 0" | "step_rank S2 = 1" | "step_rank S2b = 2" | "step_rank S3o = 3"
| "step_rank S3 = 4" | "step_rank S4 = 5" | "step_rank S5 = 6" | "step_rank S6a = 7"
| "step_rank S6b = 8" | "step_rank S6c = 9" | "step_rank S7 = 10" | "step_rank S8 = 11"
| "step_rank S9 = 12" | "step_rank S10 = 13" | "step_rank S10b = 14" | "step_rank S11 = 15"
| "step_rank S12 = 16" | "step_rank S12b = 17" | "step_rank S13 = 18"

lemma step_rank_inj: "step_rank a = step_rank b \<Longrightarrow> a = b"
  by (cases a; cases b) simp_all

instantiation step_id :: linorder
begin

definition less_eq_step_id :: "step_id \<Rightarrow> step_id \<Rightarrow> bool" where
  "less_eq_step_id a b \<longleftrightarrow> step_rank a \<le> step_rank b"

definition less_step_id :: "step_id \<Rightarrow> step_id \<Rightarrow> bool" where
  "less_step_id a b \<longleftrightarrow> step_rank a < step_rank b"

instance
  by standard (auto simp: less_eq_step_id_def less_step_id_def dest: step_rank_inj)

end

lemma sorted_STEP_IDS: "sorted STEP_IDS \<and> distinct STEP_IDS"
  by (simp add: STEP_IDS_def less_eq_step_id_def)

lemma set_STEP_IDS: "set STEP_IDS = UNIV"
proof -
  have "s \<in> set STEP_IDS" for s by (cases s) (simp_all add: STEP_IDS_def)
  then show ?thesis by blast
qed

lemma step_str_inj: "step_str a = step_str b \<Longrightarrow> a = b"
  by (cases a; cases b) simp_all

datatype step_kind = KSystem | KAi | KHumanGate | KHumanWait | KAutoGate

fun STEP_META :: "step_id \<Rightarrow> step_kind" where
  "STEP_META S0 = KSystem" | "STEP_META S2 = KAi" | "STEP_META S2b = KHumanWait"
| "STEP_META S3o = KAi" | "STEP_META S3 = KAi" | "STEP_META S4 = KHumanGate"
| "STEP_META S5 = KHumanGate" | "STEP_META S6a = KAi" | "STEP_META S6b = KSystem"
| "STEP_META S6c = KAi" | "STEP_META S7 = KAi" | "STEP_META S8 = KAi"
| "STEP_META S9 = KHumanGate" | "STEP_META S10 = KAi" | "STEP_META S10b = KAutoGate"
| "STEP_META S11 = KHumanGate" | "STEP_META S12 = KHumanGate" | "STEP_META S12b = KSystem"
| "STEP_META S13 = KSystem"

definition APPROVAL_GATE_STEPS :: "step_id list" where
  "APPROVAL_GATE_STEPS = [S4, S5, S9, S11, S12]"

lemma approval_gates_are_human_gates: "s \<in> set APPROVAL_GATE_STEPS \<longleftrightarrow> STEP_META s = KHumanGate"
  by (cases s) (simp_all add: APPROVAL_GATE_STEPS_def)

fun GATES_BY_RISK :: "risk_tier \<Rightarrow> step_id list" where
  "GATES_BY_RISK Dusuk = [S5, S12]"
| "GATES_BY_RISK Orta = [S4, S5, S11, S12]"
| "GATES_BY_RISK Kritik = [S4, S5, S9, S11, S12]"

datatype decision = Approve | Reject

datatype source = SrcJira | SrcStudio

record gate_decision =
  gd_step :: step_id
  gd_decision :: decision
  gd_actorUserId :: string
  gd_actorGroup :: string
  gd_sodVerified :: bool
  gd_signatureSeq :: nat
  gd_source :: source
  gd_at :: string
  gd_reason :: "string option"

text \<open>What Zod enforces before a decision reaches the workflow (\<open>superRefine\<close> included).\<close>

definition gate_decision_ok :: "gate_decision \<Rightarrow> bool" where
  "gate_decision_ok d \<longleftrightarrow>
     non_empty (gd_actorUserId d) \<and> non_empty (gd_actorGroup d) \<and> 0 < gd_signatureSeq d \<and>
     (case gd_reason d of None \<Rightarrow> gd_decision d \<noteq> Reject | Some r \<Rightarrow> non_empty r)"

datatype ci_status = Succeeded | Failed

record ci_result =
  ci_ticketKey :: string
  ci_adoProject :: "string option"
  ci_adoRepo :: "string option"
  ci_prId :: nat
  ci_buildId :: nat
  ci_status :: ci_status
  ci_detailsUrl :: "string option"
  ci_finishedAt :: string

record clarification_answer =
  ca_ticketKey :: string
  ca_answeredBy :: string
  ca_text :: string
  ca_at :: string

datatype kill_level = IntakeOnly | KillAll

record kill_signal =
  ks_level :: kill_level
  ks_actor :: string
  ks_reason :: string
  ks_at :: string

datatype run_status = Running | AtGate | Queued | Fail | Handover | Done | Cancelled

record run_view =
  rv_runId :: string
  rv_ticketKey :: string
  rv_step :: step_id
  rv_status :: run_status
  rv_risk :: risk_tier
  rv_startedAt :: string
  rv_updatedAt :: string

subsection \<open>analysis.ts, scan.ts\<close>

datatype impact_source = PrimaryRepoDiscovery | RepoCard

record impact_cell =
  ic_appId :: string
  ic_impacted :: bool
  ic_summary :: string
  ic_source :: impact_source

definition impact_cell_ok :: "impact_cell \<Rightarrow> bool" where
  "impact_cell_ok c \<longleftrightarrow>
     app_id_ok (ic_appId c) \<and> non_empty (ic_summary c) \<and> length (trim (ic_summary c)) \<le> 500"

record analysis_doc =
  ad_templateVersion :: string
  ad_language :: locale_id
  ad_purpose :: string
  ad_included :: "string list"
  ad_excluded :: "string list"
  ad_impactMatrix :: "impact_cell list"
  ad_acceptanceCriteria :: "string list"
  ad_uiApiChanges :: string
  ad_testApproach :: string
  ad_risk :: string
  ad_mitigation :: string
  ad_rollback :: string
  ad_riskTier :: risk_tier
  ad_riskReason :: string
  ad_clarificationsUsed :: "string list"

definition analysis_doc_ok :: "analysis_doc \<Rightarrow> bool" where
  "analysis_doc_ok d \<longleftrightarrow>
     list_all non_empty [ad_templateVersion d, ad_purpose d, ad_uiApiChanges d, ad_testApproach d,
       ad_risk d, ad_mitigation d, ad_rollback d, ad_riskReason d] \<and>
     ad_included d \<noteq> [] \<and> list_all non_empty (ad_included d) \<and>
     list_all non_empty (ad_excluded d) \<and>
     ad_impactMatrix d \<noteq> [] \<and> list_all impact_cell_ok (ad_impactMatrix d) \<and>
     ad_acceptanceCriteria d \<noteq> [] \<and> list_all non_empty (ad_acceptanceCriteria d) \<and>
     list_all non_empty (ad_clarificationsUsed d)"

datatype scan_tool = Gitleaks | Semgrep | Trivy | Sonarqube | Fortify | Xray

datatype scan_severity = Info | Low | Medium | High | Critical

record scan_finding =
  sf_tool :: scan_tool
  sf_severity :: scan_severity
  sf_ruleId :: string
  sf_file :: "string option"
  sf_line :: "nat option"
  sf_message :: string

datatype scan_outcome = ScanPass | ScanFail | ScanError

record scan_result =
  sr_tool :: scan_tool
  sr_imageDigest :: string
  sr_startedAt :: string
  sr_finishedAt :: string
  sr_findings :: "scan_finding list"
  sr_outcome :: scan_outcome

definition isScanBlocking :: "scan_outcome \<Rightarrow> bool" where
  "isScanBlocking oc \<longleftrightarrow> oc \<noteq> ScanPass"

subsection \<open>journal.ts\<close>

datatype journal_actor = JAi | JHuman | JSystem

datatype journal_kind =
    JIntake | JClarification | JDiscovery | JAnalysis | JGate | JEngineering | JScan | JReview
  | JTestDesign | JTestReview | JTestRun | JCi | JPr | JHandover | JPii | JQuota | JClosure
  | JOther

end
