(* ===== verification/Gates.thy ===== *)
theory Gates
  imports Contracts
begin

text \<open>
  The gate policy of the delivery workflow, \<open>packages/workflows/src/gates.ts\<close>: which gates a
  run must pass (\<open>gatesFor\<close>), which phases a flow type runs (\<open>planFor\<close>), who owns a gate
  (\<open>GATE_OWNER\<close>) and whether a decision may close it (\<open>canCloseGate\<close>).
\<close>

subsection \<open>Who owns a gate\<close>

text \<open>\<open>GATE_OWNER[step]\<close>: \<open>undefined\<close> (here \<open>None\<close>) on a step that is no approval gate.\<close>

fun GATE_OWNER :: "step_id \<Rightarrow> string option" where
  "GATE_OWNER S4 = Some ''product-owners''"
| "GATE_OWNER S5 = Some ''tech-leads''"
| "GATE_OWNER S9 = Some ''qa''"
| "GATE_OWNER S11 = Some ''qa''"
| "GATE_OWNER S12 = Some ''tech-leads''"
| "GATE_OWNER _ = None"

definition isApprovalGate :: "step_id \<Rightarrow> bool" where
  "isApprovalGate s \<longleftrightarrow> s \<in> set APPROVAL_GATE_STEPS"

lemma gate_owner_iff: "GATE_OWNER s \<noteq> None \<longleftrightarrow> isApprovalGate s"
  by (cases s) (simp_all add: isApprovalGate_def APPROVAL_GATE_STEPS_def)

definition gatesFor :: "risk_tier \<Rightarrow> step_id list" where
  "gatesFor r = GATES_BY_RISK r"

lemma gatesFor_cases: "g \<in> set (gatesFor r) \<Longrightarrow> g \<in> {S4, S5, S9, S11, S12}"
  by (cases r) (auto simp: gatesFor_def)

lemma gatesFor_approval: "g \<in> set (gatesFor r) \<Longrightarrow> isApprovalGate g"
  by (auto simp: isApprovalGate_def APPROVAL_GATE_STEPS_def dest: gatesFor_cases)

lemma gatesFor_always [simp]: "S5 \<in> set (gatesFor r)" "S12 \<in> set (gatesFor r)"
  by (cases r, simp_all add: gatesFor_def)+

lemma sorted_gatesFor: "sorted (gatesFor r) \<and> distinct (gatesFor r)"
  by (cases r) (simp_all add: gatesFor_def less_eq_step_id_def)

subsection \<open>What a flow type runs\<close>

record flow_plan =
  analysisGate :: bool
  engineering :: bool

definition planFor :: "flow_type option \<Rightarrow> flow_plan" where
  "planFor flow = (case flow of
     Some Analiz \<Rightarrow> \<lparr>analysisGate = True, engineering = False\<rparr>
   | Some Duzeltme \<Rightarrow> \<lparr>analysisGate = False, engineering = True\<rparr>
   | _ \<Rightarrow> \<lparr>analysisGate = True, engineering = True\<rparr>)"

lemma planFor_simps [simp]:
  "planFor None = \<lparr>analysisGate = True, engineering = True\<rparr>"
  "planFor (Some Gelistirme) = \<lparr>analysisGate = True, engineering = True\<rparr>"
  "planFor (Some Analiz) = \<lparr>analysisGate = True, engineering = False\<rparr>"
  "planFor (Some Duzeltme) = \<lparr>analysisGate = False, engineering = True\<rparr>"
  by (simp_all add: planFor_def)

lemma planFor_some_phase: "analysisGate (planFor f) \<or> engineering (planFor f)"
  by (cases f) (auto simp: planFor_def split: flow_type.splits)

subsection \<open>May this decision close this gate?\<close>

datatype gate_reason = WrongStep | WrongGroup | SodViolation | NotVerified

text \<open>\<open>GateRejection\<close>: \<open>{ok: true}\<close> is \<open>None\<close>, \<open>{ok: false, reason}\<close> is \<open>Some reason\<close>.\<close>

type_synonym approvers = "step_id \<Rightarrow> string option"

definition canCloseGate ::
  "gate_decision \<Rightarrow> step_id \<Rightarrow> approvers \<Rightarrow> bool \<Rightarrow> string option \<Rightarrow> gate_reason option" where
  "canCloseGate d atStep previousApprovers selfApproveAllowed openedAgainst =
    (if gd_step d \<noteq> atStep then Some WrongStep
     else if gd_decision d = Reject then None
     else
       let role = GATE_OWNER atStep;
           owner = (case openedAgainst of Some g \<Rightarrow> Some g | None \<Rightarrow> role)
       in if owner \<noteq> None \<and> Some (gd_actorGroup d) \<noteq> owner then Some WrongGroup
          else if \<not> gd_sodVerified d then Some NotVerified
          else if \<not> selfApproveAllowed \<and> atStep = S5 \<and>
                  previousApprovers S4 = Some (gd_actorUserId d) then Some SodViolation
          else if \<not> selfApproveAllowed \<and> atStep = S11 \<and>
                  previousApprovers S9 = Some (gd_actorUserId d) then Some SodViolation
          else None)"

lemma canCloseGate_step: "canCloseGate d at ap sa og = None \<Longrightarrow> gd_step d = at"
  by (auto simp: canCloseGate_def split: if_splits)

lemma canCloseGate_reject [simp]:
  "gd_decision d = Reject \<Longrightarrow>
     canCloseGate d at ap sa og = (if gd_step d = at then None else Some WrongStep)"
  by (simp add: canCloseGate_def)

text \<open>An approval closes a gate exactly when every check passes; nothing else lets it through.\<close>

lemma canCloseGate_approve_iff:
  assumes "gd_decision d = Approve"
  shows "canCloseGate d at ap sa og = None \<longleftrightarrow>
    gd_step d = at \<and> gd_sodVerified d \<and>
    (case og of Some g \<Rightarrow> gd_actorGroup d = g
     | None \<Rightarrow> GATE_OWNER at \<in> {None, Some (gd_actorGroup d)}) \<and>
    (sa \<or> \<not> (at = S5 \<and> ap S4 = Some (gd_actorUserId d)) \<and>
          \<not> (at = S11 \<and> ap S9 = Some (gd_actorUserId d)))"
  using assms by (auto simp: canCloseGate_def Let_def split: option.splits)

text \<open>Waiving four-eyes changes one verdict only: \<open>SodViolation\<close> becomes acceptance.\<close>

lemma canCloseGate_waiver:
  "canCloseGate d at ap True og =
    (if canCloseGate d at ap False og = Some SodViolation then None
     else canCloseGate d at ap False og)"
  by (simp add: canCloseGate_def Let_def split: option.split)

lemma canCloseGate_sod_only_5_11:
  "canCloseGate d at ap sa og = Some SodViolation \<Longrightarrow>
     \<not> sa \<and> (at = S5 \<and> ap S4 = Some (gd_actorUserId d) \<or> at = S11 \<and> ap S9 = Some (gd_actorUserId d))"
  by (auto simp: canCloseGate_def Let_def split: if_splits)

end
