(* ===== verification/Runtime.thy ===== *)
theory Runtime
  imports Gates
begin

text \<open>
  The state of one run (\<open>packages/workflows/src/run-state.ts\<close>), the signals and activities it
  exchanges with the world (\<open>signals.ts\<close>, \<open>activities.ts\<close>) and the monad the workflow code
  is written in.

  Temporal is not part of the repository. What the workflow relies on is made a parameter: an
  \<open>environment\<close> is a strategy that, from the whole history of the run so far, chooses
  the answer of the activity just called, whether the call fails for good (its retry budget is
  spent), and which signals arrive while the workflow is suspended. Every interleaving of
  signals and activity completions is the behaviour of some environment, because the history
  grows with every event. Signal handlers run only while the workflow is suspended, as in
  Temporal, where handlers and the main function share one thread.
\<close>

subsection \<open>activities.ts: requests and answers\<close>

record intake_result =
  in_complete :: bool
  in_question :: "string option"

record engineering_result =
  er_ok :: bool
  er_resumeToken :: string
  er_changedFiles :: nat
  er_diffSummary :: string
  er_handoverReason :: "string option"

record review_result =
  rr_approved :: bool
  rr_findings :: "string list"

record test_run_result =
  tr_passed :: bool
  tr_total :: nat
  tr_failed :: nat
  tr_coveragePct :: nat

datatype gate_verdict = Accepted | NotAccepted string

datatype move_point = MStart | MNeedInfo | MReview | MRejected | MDone

record move_request =
  mr_at :: move_point
  mr_status :: "string option"
  mr_toReporter :: bool

record pr_ref =
  pr_adoProject :: string
  pr_adoRepo :: string
  pr_prId :: nat

text \<open>
  The journal lines of the workflow. The source writes a kind, a title and a detail built from a
  template; here each template is a constructor that carries the interpolated values.
\<close>

datatype goto_note =
    GWorkMode work_mode data_class | GIntake | GAskedReporter | GDiscovery | GAnalysis
  | GAwaitHuman | GRejectedRewrite string | GAnalysisDelivered | GDevRound nat | GScan
  | GDiffReview | GScenarios | GScenarioReview | GQaScenario | GTestsRun | GPrValidation nat
  | GPrLoop | GEvidence

datatype jnote =
    NStep step_id goto_note
  | NHumanOnly
  | NDiscoverySkipped
  | NFanOut nat
  | NDecisionRefused string gate_reason
  | NDirectoryRefused string
  | NKillAll
  | NKillIntakeStopped
  | NKillIntakeContinues
  | NModeRefused string work_mode work_mode
  | NAnalysisClosure
  | NEvidenceFiles nat
  | NScanBlocked
  | NTestsRed nat nat
  | NForeignCi "string option"
  | NCiRed

fun note_kind :: "jnote \<Rightarrow> journal_kind" where
  "note_kind NDiscoverySkipped = JDiscovery"
| "note_kind (NFanOut _) = JAnalysis"
| "note_kind (NDecisionRefused _ _) = JGate"
| "note_kind (NDirectoryRefused _) = JGate"
| "note_kind NAnalysisClosure = JClosure"
| "note_kind (NEvidenceFiles _) = JClosure"
| "note_kind NScanBlocked = JScan"
| "note_kind (NTestsRed _ _) = JTestRun"
| "note_kind (NForeignCi _) = JCi"
| "note_kind NCiRed = JCi"
| "note_kind _ = JOther"

datatype handover_reason =
    HHumanOnly
  | HStrikes step_id nat
  | HNoApplication
  | HNoProgress
  | HAgent string
  | HCiUnfixed nat

datatype eng_task = TaskCriteria | TaskFindings string | TaskCiFix

text \<open>One constructor per activity the delivery workflow calls, with its arguments.\<close>

datatype act =
    RunIntake string
  | AskClarification string string
  | DiscoverRepo string string
  | WriteAnalysis string "string option"
  | PublishAnalysis string analysis_doc
  | FanOutChildren string analysis_doc
  | OpenGate string step_id string
  | RecordGateDecision string gate_decision
  | IsMasterApprover string
  | EscalateGate string step_id nat
  | RunEngineering string "string option" eng_task nat
  | RunScans string nat
  | ReviewDiff string nat
  | DesignTests string nat
  | ReviewTests string nat
  | RunTests string nat
  | OpenPullRequest string
  | ActivatePullRequest string pr_ref
  | VerifyCiOrigin string ci_result
  | MergePullRequest string pr_ref
  | BuildEvidencePackage string
  | DeliverAnalysis string "analysis_doc option"
  | CloseTicket string
  | MoveTicketStatus string move_request
  | Journal string jnote
  | HandOverToHuman string handover_reason

datatype answer =
    AVoid
  | AIntake intake_result
  | AAnalysis analysis_doc risk_tier
  | AKeys "string list"
  | AGroup string
  | AVerdict gate_verdict
  | ABool bool
  | AEng engineering_result
  | AScans "scan_result list"
  | AReview review_result
  | ATests test_run_result
  | APr pr_ref
  | AFiles nat

subsection \<open>signals.ts\<close>

datatype signal =
    SigGateDecision gate_decision
  | SigClarificationAnswered clarification_answer
  | SigCiResult ci_result
  | SigPrChangesRequested nat string string
  | SigModeChange work_mode string
  | SigKillSwitch kill_signal

text \<open>The history of a run, newest event first.\<close>

datatype event =
    Issued act
  | Answered act answer
  | Rejected act
  | Delivered signal
  | TimerFired step_id

type_synonym history = "event list"

subsection \<open>run-state.ts\<close>

record inbox =
  decisions :: "gate_decision list"
  clarified :: bool
  ciResults :: "ci_result list"
  changesRequested :: "string option"
  modeRequests :: "(work_mode \<times> string) list"

definition emptyInbox :: inbox where
  "emptyInbox = \<lparr>decisions = [], clarified = False, ciResults = [], changesRequested = None,
     modeRequests = []\<rparr>"

record run_state =
  step :: step_id
  status :: run_status
  mode :: work_mode
  risk :: risk_tier
  analysis :: "analysis_doc option"
  resumeToken :: "string option"
  startedAt :: string
  updatedAt :: string
  killed :: "kill_level option"
  intakeOnlyNoted :: bool
  approvers :: "step_id \<Rightarrow> string option"
  rejections :: "step_id \<Rightarrow> nat option"

definition initialRunState ::
  "string \<Rightarrow> work_mode \<Rightarrow> risk_tier \<Rightarrow> string option \<Rightarrow> (step_id \<Rightarrow> nat option) option \<Rightarrow> run_state"
where
  "initialRunState started m r token counts =
    \<lparr>step = S0, status = Running, mode = m, risk = r, analysis = None, resumeToken = token,
     startedAt = started, updatedAt = started, killed = None, intakeOnlyNoted = False,
     approvers = Map.empty,
     rejections = (case counts of None \<Rightarrow> Map.empty | Some c \<Rightarrow> c)\<rparr>"

definition MAX_GATE_REJECTIONS :: nat where
  "MAX_GATE_REJECTIONS = 3"

text \<open>\<open>countRejection\<close>: the new state, the count and whether the limit is spent.\<close>

definition countRejection :: "run_state \<Rightarrow> step_id \<Rightarrow> run_state \<times> nat \<times> bool" where
  "countRejection s at =
    (let count = (case rejections s at of None \<Rightarrow> 0 | Some n \<Rightarrow> n) + 1
     in (s\<lparr>rejections := (rejections s)(at \<mapsto> count)\<rparr>, count, count \<ge> MAX_GATE_REJECTIONS))"

definition rejectionCounts :: "run_state \<Rightarrow> step_id \<Rightarrow> nat option" where
  "rejectionCounts s = rejections s"

text \<open>The counters survive a continuation: what is carried is what the next run starts with.\<close>

lemma rejectionCounts_roundtrip:
  "rejections (initialRunState st m r t (Some (rejectionCounts s))) = rejections s"
  by (simp add: initialRunState_def rejectionCounts_def)

subsection \<open>Input, outcome, world\<close>

record status_map =
  onStart :: "string option"
  onNeedInfo :: "string option"
  onReview :: "string option"
  onRejected :: "string option"
  onDone :: "string option"
  reassignOnNeedInfo :: bool

record workflow_input =
  wi_ticket :: string
  wi_appId :: "string option"
  wi_mode :: work_mode
  wi_dataClass :: data_class
  wi_rejectionCounts :: "(step_id \<Rightarrow> nat option) option"
  wi_resumeToken :: "string option"
  wi_risk :: "risk_tier option"
  wi_flow :: "flow_type option"
  wi_statusMap :: "status_map option"

datatype failure = KillSwitch kill_level | ActivityFailed act

text \<open>
  How a piece of workflow code ends: with a value, with an exception, by \<open>continueAsNew\<close>
  (which never returns), or not at all within the observed number of waits (\<open>Parked\<close>: it is
  still suspended in a \<open>condition\<close>).
\<close>

datatype 'a outcome = Returned 'a | Threw failure | Continued workflow_input | Parked

record world =
  rs :: run_state
  ib :: inbox
  hist :: history

record environment =
  deliver :: "history \<Rightarrow> signal list"
  rejects :: "history \<Rightarrow> bool"
  clock :: "history \<Rightarrow> string"
  an_intake :: "history \<Rightarrow> intake_result"
  an_analysis :: "history \<Rightarrow> analysis_doc \<times> risk_tier"
  an_children :: "history \<Rightarrow> string list"
  an_group :: "history \<Rightarrow> string"
  an_verdict :: "history \<Rightarrow> gate_verdict"
  an_bool :: "history \<Rightarrow> bool"
  an_eng :: "history \<Rightarrow> engineering_result"
  an_scans :: "history \<Rightarrow> scan_result list"
  an_review :: "history \<Rightarrow> review_result"
  an_tests :: "history \<Rightarrow> test_run_result"
  an_pr :: "history \<Rightarrow> pr_ref"
  an_files :: "history \<Rightarrow> nat"
  patience :: nat

type_synonym 'a wf = "world \<Rightarrow> 'a outcome \<times> world"

subsection \<open>The monad\<close>

definition ret :: "'a \<Rightarrow> 'a wf" where
  "ret x w = (Returned x, w)"

definition throw :: "failure \<Rightarrow> 'a wf" where
  "throw e w = (Threw e, w)"

definition bnd :: "'a wf \<Rightarrow> ('a \<Rightarrow> 'b wf) \<Rightarrow> 'b wf" where
  "bnd m f w = (case m w of
     (Returned x, w') \<Rightarrow> f x w'
   | (Threw e, w') \<Rightarrow> (Threw e, w')
   | (Continued i, w') \<Rightarrow> (Continued i, w')
   | (Parked, w') \<Rightarrow> (Parked, w'))"

definition thn :: "'a wf \<Rightarrow> 'b wf \<Rightarrow> 'b wf" where
  "thn m n = bnd m (\<lambda>_. n)"

definition parked :: "'a wf" where
  "parked w = (Parked, w)"

definition whenw :: "bool \<Rightarrow> unit wf \<Rightarrow> unit wf" where
  "whenw c m = (if c then m else ret ())"

text \<open>Read the world; update the run state or the inbox.\<close>

definition look :: "(world \<Rightarrow> 'a wf) \<Rightarrow> 'a wf" where
  "look f w = f w w"

definition upd_rs :: "(run_state \<Rightarrow> run_state) \<Rightarrow> unit wf" where
  "upd_rs f w = (Returned (), w\<lparr>rs := f (rs w)\<rparr>)"

definition upd_ib :: "(inbox \<Rightarrow> inbox) \<Rightarrow> unit wf" where
  "upd_ib f w = (Returned (), w\<lparr>ib := f (ib w)\<rparr>)"

definition log :: "event \<Rightarrow> world \<Rightarrow> world" where
  "log e w = w\<lparr>hist := e # hist w\<rparr>"

subsection \<open>Signal handlers\<close>

text \<open>The handlers \<open>ticketWorkflow\<close> installs: they only push.\<close>

fun handle_signal :: "signal \<Rightarrow> world \<Rightarrow> world" where
  "handle_signal (SigGateDecision d) w = w\<lparr>ib := (ib w)\<lparr>decisions := decisions (ib w) @ [d]\<rparr>\<rparr>"
| "handle_signal (SigClarificationAnswered a) w = w\<lparr>ib := (ib w)\<lparr>clarified := True\<rparr>\<rparr>"
| "handle_signal (SigCiResult c) w = w\<lparr>ib := (ib w)\<lparr>ciResults := ciResults (ib w) @ [c]\<rparr>\<rparr>"
| "handle_signal (SigPrChangesRequested t txt at) w =
     w\<lparr>ib := (ib w)\<lparr>changesRequested := Some txt\<rparr>\<rparr>"
| "handle_signal (SigModeChange m a) w =
     w\<lparr>ib := (ib w)\<lparr>modeRequests := modeRequests (ib w) @ [(m, a)]\<rparr>\<rparr>"
| "handle_signal (SigKillSwitch k) w = w\<lparr>rs := (rs w)\<lparr>killed := Some (ks_level k)\<rparr>\<rparr>"

definition receive :: "signal \<Rightarrow> world \<Rightarrow> world" where
  "receive sg w = handle_signal sg (log (Delivered sg) w)"

definition suspend :: "environment \<Rightarrow> world \<Rightarrow> world" where
  "suspend env w = fold receive (deliver env (hist w)) w"

subsection \<open>Calling an activity\<close>

definition call :: "environment \<Rightarrow> act \<Rightarrow> (history \<Rightarrow> 'r) \<Rightarrow> ('r \<Rightarrow> answer) \<Rightarrow> 'r wf" where
  "call env a resp wrap w =
    (let w' = suspend env (log (Issued a) w)
     in if rejects env (hist w') then (Threw (ActivityFailed a), log (Rejected a) w')
        else let r = resp (hist w') in (Returned r, log (Answered a (wrap r)) w'))"

definition call_void :: "environment \<Rightarrow> act \<Rightarrow> unit wf" where
  "call_void env a = call env a (\<lambda>_. ()) (\<lambda>_. AVoid)"

definition journal :: "environment \<Rightarrow> string \<Rightarrow> jnote \<Rightarrow> unit wf" where
  "journal env ticket n = call_void env (Journal ticket n)"

subsection \<open>Waiting for a condition\<close>

text \<open>
  \<open>condition(p)\<close>: returns at once when \<open>p\<close> holds, otherwise after the first batch of signals
  that makes it true. \<open>n\<close> bounds the batches observed.
\<close>

fun await_cond :: "nat \<Rightarrow> environment \<Rightarrow> (world \<Rightarrow> bool) \<Rightarrow> unit wf" where
  "await_cond n env p w =
    (if p w then (Returned (), w)
     else case n of 0 \<Rightarrow> (Parked, w) | Suc m \<Rightarrow> await_cond m env p (suspend env w))"

declare await_cond.simps [simp del]

text \<open>
  \<open>condition(p, timeout)\<close>: as above, but when the batch does not make \<open>p\<close> true the timer fires
  (the caller ignores which of the two happened).
\<close>

definition await_timed :: "environment \<Rightarrow> step_id \<Rightarrow> (world \<Rightarrow> bool) \<Rightarrow> unit wf" where
  "await_timed env at p w =
    (if p w then (Returned (), w)
     else let w' = suspend env w
          in if p w' then (Returned (), w') else (Returned (), log (TimerFired at) w'))"

end
