(* ===== verification/Workflow.thy ===== *)
theory Workflow
  imports Runtime
begin

text \<open>
  The delivery workflow itself: \<open>gate-loop.ts\<close>, \<open>engineering-loop.ts\<close> and
  \<open>ticket-workflow.ts\<close> of \<open>packages/workflows/src\<close>, statement by statement, in the monad of
  \<open>Runtime\<close>. The long body of \<open>ticketWorkflow\<close> is cut at the source's own section
  comments; \<open>ticketWorkflow\<close> puts the phases together.
\<close>

subsection \<open>gate-loop.ts\<close>

text \<open>The verdict of \<open>canCloseGate\<close>, with the master-approver waiver asked for on demand.\<close>

definition decision_verdict ::
  "environment \<Rightarrow> gate_decision \<Rightarrow> step_id \<Rightarrow> string \<Rightarrow> gate_reason option wf" where
  "decision_verdict env closed at og =
    look (\<lambda>w.
      let verdict = canCloseGate closed at (approvers (rs w)) False (Some og)
      in if verdict = Some SodViolation then
           bnd (call env (IsMasterApprover (gd_actorUserId closed)) (an_bool env) ABool)
             (\<lambda>master. if master
                then look (\<lambda>w'. ret (canCloseGate closed at (approvers (rs w')) True (Some og)))
                else ret verdict)
         else ret verdict)"

definition close_gate :: "step_id \<Rightarrow> gate_decision \<Rightarrow> run_state \<Rightarrow> run_state" where
  "close_gate at closed s =
    (if gd_decision closed = Approve
     then s\<lparr>approvers := (approvers s)(at \<mapsto> gd_actorUserId closed), status := Running\<rparr>
     else s\<lparr>status := Running\<rparr>)"

text \<open>The inner loop: everything queued is answered before waiting again.\<close>

primrec drain_decisions ::
  "nat \<Rightarrow> environment \<Rightarrow> string \<Rightarrow> step_id \<Rightarrow> string \<Rightarrow> gate_decision option wf" where
  "drain_decisions 0 env ticket at og = parked"
| "drain_decisions (Suc n) env ticket at og =
    look (\<lambda>w. case decisions (ib w) of
        [] \<Rightarrow> ret None
      | closed # rest \<Rightarrow>
          thn (upd_ib (\<lambda>b. b\<lparr>decisions := rest\<rparr>))
            (bnd (decision_verdict env closed at og) (\<lambda>verdict.
              case verdict of
                Some reason \<Rightarrow>
                  thn (journal env ticket (NDecisionRefused (gd_actorUserId closed) reason))
                    (drain_decisions n env ticket at og)
              | None \<Rightarrow>
                  bnd (call env (RecordGateDecision ticket closed) (an_verdict env) AVerdict)
                    (\<lambda>recorded. case recorded of
                      NotAccepted reason \<Rightarrow>
                        thn (journal env ticket (NDirectoryRefused reason))
                          (drain_decisions n env ticket at og)
                    | Accepted \<Rightarrow>
                        thn (upd_rs (close_gate at closed)) (ret (Some closed))))))"

primrec gate_wait ::
  "nat \<Rightarrow> environment \<Rightarrow> string \<Rightarrow> step_id \<Rightarrow> string \<Rightarrow> nat \<Rightarrow> gate_decision wf" where
  "gate_wait 0 env ticket at og waited = parked"
| "gate_wait (Suc n) env ticket at og waited =
    thn (await_timed env at (\<lambda>w. decisions (ib w) \<noteq> []))
      (bnd (drain_decisions (patience env) env ticket at og) (\<lambda>r.
        case r of
          Some closed \<Rightarrow> ret closed
        | None \<Rightarrow>
            thn (call_void env (EscalateGate ticket at (waited + 1)))
              (gate_wait n env ticket at og (waited + 1))))"

definition awaitGate :: "environment \<Rightarrow> string \<Rightarrow> step_id \<Rightarrow> gate_decision wf" where
  "awaitGate env ticket at =
    (let owner = (case GATE_OWNER at of Some g \<Rightarrow> g | None \<Rightarrow> ''tech-leads'')
     in thn (upd_rs (\<lambda>s. s\<lparr>status := AtGate\<rparr>))
          (bnd (call env (OpenGate ticket at owner) (an_group env) AGroup) (\<lambda>og.
            gate_wait (patience env) env ticket at og 0)))"

definition assertNotKilled :: "environment \<Rightarrow> string \<Rightarrow> unit wf" where
  "assertNotKilled env ticket =
    look (\<lambda>w.
      if killed (rs w) = Some KillAll then
        thn (upd_rs (\<lambda>s. s\<lparr>status := Cancelled\<rparr>))
          (thn (journal env ticket NKillAll) (throw (KillSwitch KillAll)))
      else if killed (rs w) \<noteq> Some IntakeOnly \<or> intakeOnlyNoted (rs w) then ret ()
      else
        thn (upd_rs (\<lambda>s. s\<lparr>intakeOnlyNoted := True\<rparr>))
          (if step (rs w) = S0 then
             thn (upd_rs (\<lambda>s. s\<lparr>status := Cancelled\<rparr>))
               (thn (journal env ticket NKillIntakeStopped) (throw (KillSwitch IntakeOnly)))
           else journal env ticket NKillIntakeContinues))"

primrec answerModeRequests :: "nat \<Rightarrow> environment \<Rightarrow> string \<Rightarrow> unit wf" where
  "answerModeRequests 0 env ticket = parked"
| "answerModeRequests (Suc n) env ticket =
    look (\<lambda>w. case modeRequests (ib w) of
        [] \<Rightarrow> ret ()
      | (m, actor) # rest \<Rightarrow>
          thn (upd_ib (\<lambda>b. b\<lparr>modeRequests := rest\<rparr>))
            (thn (whenw (m \<noteq> mode (rs w))
                   (journal env ticket (NModeRefused actor m (mode (rs w)))))
              (answerModeRequests n env ticket)))"

subsection \<open>ticket-workflow.ts: the local functions\<close>

definition goto :: "environment \<Rightarrow> string \<Rightarrow> step_id \<Rightarrow> goto_note \<Rightarrow> unit wf" where
  "goto env ticket next n =
    thn (assertNotKilled env ticket)
      (thn (answerModeRequests (patience env) env ticket)
        (thn (look (\<lambda>w. upd_rs (\<lambda>s. s\<lparr>step := next, updatedAt := clock env (hist w)\<rparr>)))
          (journal env ticket (NStep next n))))"

definition handOver :: "environment \<Rightarrow> string \<Rightarrow> handover_reason \<Rightarrow> run_status wf" where
  "handOver env ticket reason =
    thn (upd_rs (\<lambda>s. s\<lparr>status := Handover\<rparr>))
      (thn (call_void env (HandOverToHuman ticket reason))
        (look (\<lambda>w. ret (status (rs w)))))"

definition continueRun :: "workflow_input \<Rightarrow> 'a wf" where
  "continueRun inp w =
    (Continued (inp\<lparr>wi_risk := Some (risk (rs w)), wi_resumeToken := resumeToken (rs w),
       wi_rejectionCounts := Some (rejectionCounts (rs w))\<rparr>), w)"

definition mapped :: "workflow_input \<Rightarrow> (status_map \<Rightarrow> string option) \<Rightarrow> string option" where
  "mapped inp f = (case wi_statusMap inp of None \<Rightarrow> None | Some m \<Rightarrow> f m)"

definition moveStatus ::
  "environment \<Rightarrow> workflow_input \<Rightarrow> move_point \<Rightarrow> string option \<Rightarrow> unit wf" where
  "moveStatus env inp at target =
    (let alsoReporter = (at = MNeedInfo \<and>
           (case wi_statusMap inp of None \<Rightarrow> False | Some m \<Rightarrow> reassignOnNeedInfo m))
     in whenw (\<not> (target = None \<and> \<not> alsoReporter))
          (call_void env (MoveTicketStatus (wi_ticket inp)
             \<lparr>mr_at = at, mr_status = target, mr_toReporter = alsoReporter\<rparr>)))"

definition strike :: "step_id \<Rightarrow> (nat \<times> bool) wf" where
  "strike at w =
    (let (s, count, exhausted) = countRejection (rs w) at
     in (Returned (count, exhausted), w\<lparr>rs := s\<rparr>))"

definition or_empty :: "string option \<Rightarrow> string" where
  "or_empty r = (case r of None \<Rightarrow> '''' | Some s \<Rightarrow> s)"

subsection \<open>engineering-loop.ts\<close>

datatype eng_outcome = Ready nat | HandoverBecause handover_reason

fun join_lines :: "string list \<Rightarrow> string" where
  "join_lines [] = ''''"
| "join_lines [s] = s"
| "join_lines (s # ss) = s @ CHR 0x0A # join_lines ss"

definition run_engineering ::
  "environment \<Rightarrow> string \<Rightarrow> eng_task \<Rightarrow> nat \<Rightarrow> engineering_result wf" where
  "run_engineering env ticket task attempt =
    look (\<lambda>w. bnd (call env (RunEngineering ticket (resumeToken (rs w)) task attempt) (an_eng env) AEng)
      (\<lambda>eng. thn (upd_rs (\<lambda>s. s\<lparr>resumeToken := Some (er_resumeToken eng)\<rparr>)) (ret eng)))"

definition next_task :: "eng_task wf" where
  "next_task =
    look (\<lambda>w. thn (upd_ib (\<lambda>b. b\<lparr>changesRequested := None\<rparr>))
      (ret (case changesRequested (ib w) of None \<Rightarrow> TaskCriteria | Some t \<Rightarrow> TaskFindings t)))"

definition request_changes :: "string \<Rightarrow> unit wf" where
  "request_changes t = upd_ib (\<lambda>b. b\<lparr>changesRequested := Some t\<rparr>)"

text \<open>
  One lap of the loop. \<open>continue\<close> is \<open>LapAgain\<close>, the \<open>return\<close>s are the other two. The
  body is cut at the source's step comments.
\<close>

datatype lap = LapReady | LapAgain | LapStop handover_reason

definition lap_tests :: "environment \<Rightarrow> string \<Rightarrow> step_id list \<Rightarrow> nat \<Rightarrow> lap wf" where
  "lap_tests env ticket required attempt =
    bnd (if S9 \<in> set required
         then thn (goto env ticket S9 GQaScenario)
                (bnd (awaitGate env ticket S9) (\<lambda>qa.
                   if gd_decision qa = Reject
                   then thn (request_changes (or_empty (gd_reason qa))) (ret False)
                   else ret True))
         else ret True)
    (\<lambda>proceed.
     if \<not> proceed then ret LapAgain
     else
       thn (goto env ticket S10 GTestsRun)
       (bnd (call env (RunTests ticket attempt) (an_tests env) ATests) (\<lambda>run.
        if \<not> tr_passed run then
          thn (journal env ticket (NTestsRed (tr_failed run) (tr_total run))) (ret LapAgain)
        else ret LapReady)))"

definition lap_reviews :: "environment \<Rightarrow> string \<Rightarrow> step_id list \<Rightarrow> nat \<Rightarrow> lap wf" where
  "lap_reviews env ticket required attempt =
    thn (goto env ticket S6c GDiffReview)
    (bnd (call env (ReviewDiff ticket attempt) (an_review env) AReview) (\<lambda>review.
     if \<not> rr_approved review then
       thn (request_changes (join_lines (rr_findings review))) (ret LapAgain)
     else
       thn (goto env ticket S7 GScenarios)
       (thn (call_void env (DesignTests ticket attempt))
       (thn (goto env ticket S8 GScenarioReview)
       (bnd (call env (ReviewTests ticket attempt) (an_review env) AReview) (\<lambda>testReview.
        if \<not> rr_approved testReview then
          thn (request_changes (join_lines (rr_findings testReview))) (ret LapAgain)
        else lap_tests env ticket required attempt))))))"

definition eng_lap :: "environment \<Rightarrow> string \<Rightarrow> step_id list \<Rightarrow> nat \<Rightarrow> lap wf" where
  "eng_lap env ticket required attempt =
    thn (goto env ticket S6a (GDevRound attempt))
    (bnd next_task (\<lambda>task.
     bnd (run_engineering env ticket task attempt) (\<lambda>eng.
     if \<not> er_ok eng then
       ret (case er_handoverReason eng of Some r \<Rightarrow> LapStop (HAgent r) | None \<Rightarrow> LapAgain)
     else
       thn (goto env ticket S6b GScan)
       (bnd (call env (RunScans ticket attempt) (an_scans env) AScans) (\<lambda>scans.
        if list_ex (\<lambda>s. sr_outcome s \<noteq> ScanPass) scans then
          thn (journal env ticket NScanBlocked) (ret LapAgain)
        else lap_reviews env ticket required attempt)))))"

function runEngineeringLoop ::
  "environment \<Rightarrow> string \<Rightarrow> step_id list \<Rightarrow> nat \<Rightarrow> eng_outcome wf" where
  "runEngineeringLoop env ticket required attempt0 =
    (let attempt = attempt0 + 1 in
     if attempt > MAX_GATE_REJECTIONS then ret (HandoverBecause HNoProgress) else
     bnd (eng_lap env ticket required attempt) (\<lambda>l. case l of
       LapReady \<Rightarrow> ret (Ready attempt)
     | LapStop r \<Rightarrow> ret (HandoverBecause r)
     | LapAgain \<Rightarrow> runEngineeringLoop env ticket required attempt))"
  by pat_completeness auto
termination
  by (relation "measure (\<lambda>(env, ticket, required, attempt0). MAX_GATE_REJECTIONS - attempt0)") auto

declare runEngineeringLoop.simps [simp del]

primrec awaitGreenBuild ::
  "nat \<Rightarrow> environment \<Rightarrow> string \<Rightarrow> nat \<Rightarrow> nat \<Rightarrow> eng_outcome wf" where
  "awaitGreenBuild 0 env ticket afterAttempt fixes = parked"
| "awaitGreenBuild (Suc n) env ticket afterAttempt fixes =
    thn (await_cond (patience env) env (\<lambda>w. ciResults (ib w) \<noteq> []))
     (look (\<lambda>w. case ciResults (ib w) of
        [] \<Rightarrow> awaitGreenBuild n env ticket afterAttempt fixes
      | sg # rest \<Rightarrow>
          thn (upd_ib (\<lambda>b. b\<lparr>ciResults := rest\<rparr>))
           (bnd (call env (VerifyCiOrigin ticket sg) (an_bool env) ABool) (\<lambda>origin.
            if \<not> origin then
              thn (journal env ticket (NForeignCi (ci_adoRepo sg)))
                (awaitGreenBuild n env ticket afterAttempt fixes)
            else if ci_status sg = Succeeded then ret (Ready (afterAttempt + fixes))
            else if fixes + 1 > MAX_GATE_REJECTIONS then
              ret (HandoverBecause (HCiUnfixed (fixes + 1 - 1)))
            else
              thn (journal env ticket NCiRed)
               (bnd (run_engineering env ticket TaskCiFix (afterAttempt + (fixes + 1))) (\<lambda>fx.
                if \<not> er_ok fx \<and> er_handoverReason fx \<noteq> None
                then ret (HandoverBecause (HAgent (or_empty (er_handoverReason fx))))
                else awaitGreenBuild n env ticket afterAttempt (fixes + 1)))))))"

subsection \<open>ticket-workflow.ts: the phases\<close>

text \<open>2 intake and 2b clarification.\<close>

definition intake_phase :: "environment \<Rightarrow> workflow_input \<Rightarrow> unit wf" where
  "intake_phase env inp =
    (let ticket = wi_ticket inp in
     thn (goto env ticket S2 GIntake)
      (bnd (call env (RunIntake ticket) (an_intake env) AIntake) (\<lambda>intake.
       whenw (\<not> in_complete intake)
        (thn (goto env ticket S2b GAskedReporter)
        (thn (upd_rs (\<lambda>s. s\<lparr>status := AtGate\<rparr>))
        (thn (moveStatus env inp MNeedInfo (mapped inp onNeedInfo))
        (thn (call_void env (AskClarification ticket (or_empty (in_question intake))))
        (thn (await_cond (patience env) env (\<lambda>w. clarified (ib w)))
          (upd_rs (\<lambda>s. s\<lparr>status := Running\<rparr>))))))))))"

definition discovery_phase :: "environment \<Rightarrow> workflow_input \<Rightarrow> unit wf" where
  "discovery_phase env inp =
    (let ticket = wi_ticket inp in
     thn (goto env ticket S3o GDiscovery)
      (thn (moveStatus env inp MStart (mapped inp onStart))
        (case wi_appId inp of
           None \<Rightarrow> journal env ticket NDiscoverySkipped
         | Some app \<Rightarrow> call_void env (DiscoverRepo ticket app))))"

text \<open>\<open>writeAnalysis\<close> with the assignments that follow it, and the publication.\<close>

definition write_analysis :: "environment \<Rightarrow> workflow_input \<Rightarrow> analysis_doc wf" where
  "write_analysis env inp =
    bnd (call env (WriteAnalysis (wi_ticket inp) (wi_appId inp)) (an_analysis env)
          (\<lambda>(doc, r). AAnalysis doc r))
      (\<lambda>(doc, r).
        thn (upd_rs (\<lambda>s. s\<lparr>analysis := Some doc, risk := r\<rparr>))
         (thn (call_void env (PublishAnalysis (wi_ticket inp) doc)) (ret doc)))"

definition analysis_phase :: "environment \<Rightarrow> workflow_input \<Rightarrow> unit wf" where
  "analysis_phase env inp =
    (let ticket = wi_ticket inp in
     thn (goto env ticket S3 GAnalysis)
      (bnd (write_analysis env inp) (\<lambda>doc.
       bnd (call env (FanOutChildren ticket doc) (an_children env) AKeys) (\<lambda>children.
       whenw (children \<noteq> []) (journal env ticket (NFanOut (length children)))))))"

text \<open>4-5: \<open>Some status\<close> is an early return of the workflow.\<close>

primrec analysis_gates ::
  "step_id list \<Rightarrow> environment \<Rightarrow> workflow_input \<Rightarrow> run_status option wf" where
  "analysis_gates [] env inp = ret None"
| "analysis_gates (at # rest) env inp =
    (let ticket = wi_ticket inp in
     thn (goto env ticket at GAwaitHuman)
      (bnd (awaitGate env ticket at) (\<lambda>verdict.
       if gd_decision verdict = Reject then
         bnd (strike at) (\<lambda>(count, exhausted).
          if exhausted then bnd (handOver env ticket (HStrikes at count)) (\<lambda>st. ret (Some st))
          else
            thn (moveStatus env inp MRejected (mapped inp onRejected))
            (thn (goto env ticket S3 (GRejectedRewrite (or_empty (gd_reason verdict))))
            (thn (write_analysis env inp) (continueRun inp))))
       else analysis_gates rest env inp)))"

text \<open>The end of the \<open>analiz\<close> flow.\<close>

definition close_analysis :: "environment \<Rightarrow> workflow_input \<Rightarrow> run_status wf" where
  "close_analysis env inp =
    (let ticket = wi_ticket inp in
     thn (goto env ticket S13 GAnalysisDelivered)
     (thn (look (\<lambda>w. call_void env (DeliverAnalysis ticket (analysis (rs w)))))
     (thn (journal env ticket NAnalysisClosure)
     (thn (moveStatus env inp MDone (mapped inp onDone))
     (thn (call_void env (CloseTicket ticket))
     (thn (upd_rs (\<lambda>s. s\<lparr>status := Done\<rparr>))
       (look (\<lambda>w. ret (status (rs w))))))))))"

text \<open>11-12 with the PR comment loop 12b.\<close>

primrec pr_gates ::
  "step_id list \<Rightarrow> environment \<Rightarrow> workflow_input \<Rightarrow> nat \<Rightarrow> run_status option wf" where
  "pr_gates [] env inp attempts = ret None"
| "pr_gates (at # rest) env inp attempts =
    (let ticket = wi_ticket inp in
     thn (goto env ticket at GAwaitHuman)
      (bnd (awaitGate env ticket at) (\<lambda>verdict.
       if gd_decision verdict = Reject then
         bnd (strike at) (\<lambda>(count, exhausted).
          if exhausted then bnd (handOver env ticket (HStrikes at count)) (\<lambda>st. ret (Some st))
          else
            thn (request_changes (or_empty (gd_reason verdict)))
            (thn (goto env ticket S12b GPrLoop)
            (look (\<lambda>w. bnd (run_engineering env ticket
                 (TaskFindings (or_empty (changesRequested (ib w)))) (attempts + count)) (\<lambda>fx.
              if \<not> er_ok fx \<and> er_handoverReason fx \<noteq> None
              then bnd (handOver env ticket (HAgent (or_empty (er_handoverReason fx))))
                     (\<lambda>st. ret (Some st))
              else continueRun inp)))))
       else pr_gates rest env inp attempts)))"

definition close_delivery :: "environment \<Rightarrow> workflow_input \<Rightarrow> pr_ref \<Rightarrow> run_status wf" where
  "close_delivery env inp pr =
    (let ticket = wi_ticket inp in
     thn (assertNotKilled env ticket)
     (thn (call_void env (MergePullRequest ticket pr))
     (thn (goto env ticket S13 GEvidence)
     (bnd (call env (BuildEvidencePackage ticket) (an_files env) AFiles) (\<lambda>files.
      thn (journal env ticket (NEvidenceFiles files))
      (thn (moveStatus env inp MDone (mapped inp onDone))
      (thn (call_void env (CloseTicket ticket))
      (thn (upd_rs (\<lambda>s. s\<lparr>status := Done\<rparr>))
        (look (\<lambda>w. ret (status (rs w))))))))))))"

text \<open>11 to 13, once the CI gate has given its outcome.\<close>

definition after_ci ::
  "environment \<Rightarrow> workflow_input \<Rightarrow> step_id list \<Rightarrow> pr_ref \<Rightarrow> eng_outcome \<Rightarrow> run_status wf" where
  "after_ci env inp required pr green = (case green of
     HandoverBecause r \<Rightarrow> handOver env (wi_ticket inp) r
   | Ready attempts \<Rightarrow>
       bnd (pr_gates (filter (\<lambda>g. g = S11 \<or> g = S12) required) env inp attempts)
         (\<lambda>early. case early of
            Some st \<Rightarrow> ret st
          | None \<Rightarrow> close_delivery env inp pr))"

text \<open>10b: the pull request and the CI gate.\<close>

definition pr_phase ::
  "environment \<Rightarrow> workflow_input \<Rightarrow> step_id list \<Rightarrow> nat \<Rightarrow> run_status wf" where
  "pr_phase env inp required attempt =
    (let ticket = wi_ticket inp in
     thn (assertNotKilled env ticket)
     (bnd (call env (OpenPullRequest ticket) (an_pr env) APr) (\<lambda>pr.
      thn (call_void env (ActivatePullRequest ticket pr))
      (thn (goto env ticket S10b (GPrValidation (pr_prId pr)))
      (bnd (awaitGreenBuild (patience env) env ticket attempt 0)
        (after_ci env inp required pr))))))"

text \<open>6a to 13: engineering, pull request, CI gate, human gates, merge.\<close>

definition delivery_phase ::
  "environment \<Rightarrow> workflow_input \<Rightarrow> step_id list \<Rightarrow> run_status wf" where
  "delivery_phase env inp required =
    (case wi_appId inp of
       None \<Rightarrow> handOver env (wi_ticket inp) HNoApplication
     | Some _ \<Rightarrow>
        bnd (runEngineeringLoop env (wi_ticket inp) required 0) (\<lambda>built.
         case built of
           HandoverBecause r \<Rightarrow> handOver env (wi_ticket inp) r
         | Ready attempt \<Rightarrow> pr_phase env inp required attempt))"

definition gates_phase :: "environment \<Rightarrow> workflow_input \<Rightarrow> run_status wf" where
  "gates_phase env inp =
    look (\<lambda>w.
     let required = gatesFor (risk (rs w));
         plan = planFor (wi_flow inp);
         analysisGates = (if analysisGate plan then filter (\<lambda>g. g = S4 \<or> g = S5) required else [])
     in thn (whenw (analysisGates \<noteq> []) (moveStatus env inp MReview (mapped inp onReview)))
         (bnd (analysis_gates analysisGates env inp) (\<lambda>early. case early of
            Some st \<Rightarrow> ret st
          | None \<Rightarrow>
              if \<not> engineering plan then close_analysis env inp
              else delivery_phase env inp required)))"

definition ticket_body :: "environment \<Rightarrow> workflow_input \<Rightarrow> run_status wf" where
  "ticket_body env inp =
    (let ticket = wi_ticket inp in
     thn (look (\<lambda>w. goto env ticket S0 (GWorkMode (mode (rs w)) (wi_dataClass inp))))
      (look (\<lambda>w.
        if mode (rs w) = HumanOnly then
          thn (journal env ticket NHumanOnly) (handOver env ticket HHumanOnly)
        else
          thn (intake_phase env inp)
          (thn (discovery_phase env inp)
          (thn (analysis_phase env inp) (gates_phase env inp))))))"

definition start_world :: "environment \<Rightarrow> workflow_input \<Rightarrow> world" where
  "start_world env inp =
    \<lparr>rs = initialRunState (clock env []) (wi_mode inp)
            (case wi_risk inp of None \<Rightarrow> Orta | Some r \<Rightarrow> r) (wi_resumeToken inp)
            (wi_rejectionCounts inp),
     ib = emptyInbox, hist = []\<rparr>"

text \<open>
  One execution. Signals that were sent before the handlers were installed
  (\<open>signalWithStart\<close>) are delivered first.
\<close>

definition ticketWorkflow :: "environment \<Rightarrow> workflow_input \<Rightarrow> run_status outcome \<times> world" where
  "ticketWorkflow env inp = ticket_body env inp (suspend env (start_world env inp))"

text \<open>
  \<open>continueAsNew\<close> starts the workflow again on the carried input; \<open>envs k\<close> is the
  environment of the \<open>k\<close>-th execution. The list of the executions' results, at most \<open>n\<close> of them.
\<close>

primrec run_chain ::
  "nat \<Rightarrow> (nat \<Rightarrow> environment) \<Rightarrow> workflow_input \<Rightarrow> (run_status outcome \<times> world) list" where
  "run_chain 0 envs inp = []"
| "run_chain (Suc n) envs inp =
    (let r = ticketWorkflow (envs 0) inp
     in r # (case fst r of Continued inp' \<Rightarrow> run_chain n (\<lambda>k. envs (Suc k)) inp' | _ \<Rightarrow> []))"

text \<open>What the query handler answers.\<close>

definition runStateQuery :: "string \<Rightarrow> workflow_input \<Rightarrow> world \<Rightarrow> run_view" where
  "runStateQuery runId inp w =
    \<lparr>rv_runId = runId, rv_ticketKey = wi_ticket inp, rv_step = step (rs w),
     rv_status = status (rs w), rv_risk = risk (rs w), rv_startedAt = startedAt (rs w),
     rv_updatedAt = updatedAt (rs w)\<rparr>"

end
