(* ===== verification/Workflow_Logic.thy ===== *)
theory Workflow_Logic
  imports Workflow
begin

text \<open>
  A small program logic for the workflow monad, and the facts about its building blocks that
  the properties of the delivery workflow rest on.

  \<^item> \<open>emits K m\<close>: every run of \<open>m\<close>, however it ends, only appends to the history, and the
    activities it calls are of a kind in \<open>K\<close>.
  \<^item> \<open>hoare P m Q X\<close>: from a world in \<open>P\<close>, a run that returns ends in \<open>Q\<close> (of the result) and
    a run that ends in any other way (exception, continuation, still waiting) ends in \<open>X\<close>.
\<close>

subsection \<open>Kinds of activities\<close>

datatype act_kind =
    KIntake | KAnalysis | KGate | KEngineering | KPr | KMerge | KEvidence | KDeliver | KClose
  | KMove | KJournal | KHandOver

fun kind_of :: "act \<Rightarrow> act_kind" where
  "kind_of (RunIntake _) = KIntake"
| "kind_of (AskClarification _ _) = KIntake"
| "kind_of (DiscoverRepo _ _) = KAnalysis"
| "kind_of (WriteAnalysis _ _) = KAnalysis"
| "kind_of (PublishAnalysis _ _) = KAnalysis"
| "kind_of (FanOutChildren _ _) = KAnalysis"
| "kind_of (OpenGate _ _ _) = KGate"
| "kind_of (RecordGateDecision _ _) = KGate"
| "kind_of (IsMasterApprover _) = KGate"
| "kind_of (EscalateGate _ _ _) = KGate"
| "kind_of (RunEngineering _ _ _ _) = KEngineering"
| "kind_of (RunScans _ _) = KEngineering"
| "kind_of (ReviewDiff _ _) = KEngineering"
| "kind_of (DesignTests _ _) = KEngineering"
| "kind_of (ReviewTests _ _) = KEngineering"
| "kind_of (RunTests _ _) = KEngineering"
| "kind_of (OpenPullRequest _) = KPr"
| "kind_of (ActivatePullRequest _ _) = KPr"
| "kind_of (VerifyCiOrigin _ _) = KPr"
| "kind_of (MergePullRequest _ _) = KMerge"
| "kind_of (BuildEvidencePackage _) = KEvidence"
| "kind_of (DeliverAnalysis _ _) = KDeliver"
| "kind_of (CloseTicket _) = KClose"
| "kind_of (MoveTicketStatus _ _) = KMove"
| "kind_of (Journal _ _) = KJournal"
| "kind_of (HandOverToHuman _ _) = KHandOver"

fun ev_in :: "act_kind set \<Rightarrow> event \<Rightarrow> bool" where
  "ev_in K (Issued a) \<longleftrightarrow> kind_of a \<in> K"
| "ev_in K (Answered a _) \<longleftrightarrow> kind_of a \<in> K"
| "ev_in K (Rejected a) \<longleftrightarrow> kind_of a \<in> K"
| "ev_in K (Delivered _) \<longleftrightarrow> True"
| "ev_in K (TimerFired _) \<longleftrightarrow> True"

lemma ev_in_mono: "K \<subseteq> L \<Longrightarrow> ev_in K e \<Longrightarrow> ev_in L e"
  by (cases e) auto

subsection \<open>What the primitives do to a world\<close>

lemma hist_handle [simp]: "hist (handle_signal sg w) = hist w"
  by (cases sg) simp_all

lemma hist_receive [simp]: "hist (receive sg w) = Delivered sg # hist w"
  by (simp add: receive_def log_def)

lemma hist_fold_receive: "hist (fold receive sgs w) = map Delivered (rev sgs) @ hist w"
  by (induction sgs arbitrary: w) auto

lemma hist_suspend: "hist (suspend env w) = map Delivered (rev (deliver env (hist w))) @ hist w"
  by (simp add: suspend_def hist_fold_receive)

lemma fold_receive_invariant:
  "I w \<Longrightarrow> (\<And>sg w. I w \<Longrightarrow> I (receive sg w)) \<Longrightarrow> I (fold receive sgs w)"
  by (induction sgs arbitrary: w) auto

lemma suspend_invariant:
  "I w \<Longrightarrow> (\<And>sg w. I w \<Longrightarrow> I (receive sg w)) \<Longrightarrow> I (suspend env w)"
  by (simp add: suspend_def fold_receive_invariant)

lemma log_sel [simp]: "hist (log e w) = e # hist w" "rs (log e w) = rs w" "ib (log e w) = ib w"
  by (simp_all add: log_def)

lemma rs_receive_simps [simp]:
  "risk (rs (receive sg w)) = risk (rs w)"
  "mode (rs (receive sg w)) = mode (rs w)"
  "status (rs (receive sg w)) = status (rs w)"
  "step (rs (receive sg w)) = step (rs w)"
  "approvers (rs (receive sg w)) = approvers (rs w)"
  "rejections (rs (receive sg w)) = rejections (rs w)"
  "resumeToken (rs (receive sg w)) = resumeToken (rs w)"
  "analysis (rs (receive sg w)) = analysis (rs w)"
  by (cases sg, simp_all add: receive_def)+

lemma rs_suspend_simps [simp]:
  "risk (rs (suspend env w)) = risk (rs w)"
  "mode (rs (suspend env w)) = mode (rs w)"
  "status (rs (suspend env w)) = status (rs w)"
  "step (rs (suspend env w)) = step (rs w)"
  "approvers (rs (suspend env w)) = approvers (rs w)"
  "rejections (rs (suspend env w)) = rejections (rs w)"
  "resumeToken (rs (suspend env w)) = resumeToken (rs w)"
  "analysis (rs (suspend env w)) = analysis (rs w)"
  by (rule suspend_invariant, simp, simp)+

subsection \<open>Emitted activities\<close>

definition emits :: "act_kind set \<Rightarrow> 'a wf \<Rightarrow> bool" where
  "emits K m \<longleftrightarrow> (\<forall>w. \<exists>es. hist (snd (m w)) = es @ hist w \<and> list_all (ev_in K) es)"

lemma emitsD:
  assumes "emits K m"
  obtains es where "hist (snd (m w)) = es @ hist w" "list_all (ev_in K) es"
  using assms unfolding emits_def by blast

lemma emits_mono: "emits K m \<Longrightarrow> K \<subseteq> L \<Longrightarrow> emits L m"
  unfolding emits_def by (meson ev_in_mono list.pred_mono_strong)

lemma emits_ret [wf_emits, intro, simp]: "emits K (ret x)"
  by (simp add: emits_def ret_def)

lemma emits_throw [wf_emits, intro, simp]: "emits K (throw e)"
  by (simp add: emits_def throw_def)

lemma emits_parked [wf_emits, intro, simp]: "emits K parked"
  by (simp add: emits_def parked_def)

lemma emits_upd_rs [wf_emits, intro, simp]: "emits K (upd_rs f)"
  by (simp add: emits_def upd_rs_def)

lemma emits_upd_ib [wf_emits, intro, simp]: "emits K (upd_ib f)"
  by (simp add: emits_def upd_ib_def)

lemma emits_strike [wf_emits, intro, simp]: "emits K (strike at)"
  by (simp add: emits_def strike_def countRejection_def Let_def)

lemma emits_continueRun [wf_emits, intro, simp]: "emits K (continueRun inp)"
  by (simp add: emits_def continueRun_def)

lemma bnd_cases:
  "bnd m f w = (case m w of (Returned x, w') \<Rightarrow> f x w' | (Threw e, w') \<Rightarrow> (Threw e, w')
     | (Continued i, w') \<Rightarrow> (Continued i, w') | (Parked, w') \<Rightarrow> (Parked, w'))"
  by (simp add: bnd_def)

lemma emits_bnd [wf_emits]:
  assumes "emits K m" "\<And>x. emits K (f x)"
  shows "emits K (bnd m f)"
  unfolding emits_def
proof
  fix w
  obtain es where es: "hist (snd (m w)) = es @ hist w" "list_all (ev_in K) es"
    using assms(1) by (rule emitsD)
  show "\<exists>es. hist (snd (bnd m f w)) = es @ hist w \<and> list_all (ev_in K) es"
  proof (cases "m w")
    case (Pair r w')
    show ?thesis
    proof (cases r)
      case (Returned x)
      obtain fs where "hist (snd (f x w')) = fs @ hist w'" "list_all (ev_in K) fs"
        using assms(2) by (rule emitsD)
      with es Pair Returned show ?thesis by (simp add: bnd_def)
    qed (use es Pair in \<open>simp_all add: bnd_def\<close>)
  qed
qed

lemma emits_thn [wf_emits]: "emits K m \<Longrightarrow> emits K n \<Longrightarrow> emits K (thn m n)"
  by (simp add: thn_def emits_bnd)

lemma emits_whenw [wf_emits]: "(c \<Longrightarrow> emits K m) \<Longrightarrow> emits K (whenw c m)"
  by (simp add: whenw_def)

lemma emits_look [wf_emits]: "(\<And>w. emits K (f w)) \<Longrightarrow> emits K (look f)"
  by (simp add: emits_def look_def)

lemma list_all_delivered [simp]: "list_all (ev_in K) (map Delivered sgs)"
  by (simp add: list.pred_map comp_def list.pred_True)

lemma emits_call [wf_emits]: "kind_of a \<in> K \<Longrightarrow> emits K (call env a resp wrap)"
  by (simp add: emits_def call_def Let_def hist_suspend flip: rev_map)

lemma emits_call_void [wf_emits]: "kind_of a \<in> K \<Longrightarrow> emits K (call_void env a)"
  by (simp add: call_void_def emits_call)

lemma emits_journal [wf_emits]: "KJournal \<in> K \<Longrightarrow> emits K (journal env t n)"
  by (simp add: journal_def emits_call_void)

lemma emits_await_cond [wf_emits, intro, simp]: "emits K (await_cond n env p)"
  unfolding emits_def
proof
  fix w
  show "\<exists>es. hist (snd (await_cond n env p w)) = es @ hist w \<and> list_all (ev_in K) es"
  proof (induction n arbitrary: w)
    case 0
    then show ?case by (simp add: await_cond.simps)
  next
    case (Suc n)
    obtain es where es: "hist (snd (await_cond n env p (suspend env w))) = es @ hist (suspend env w)"
      "list_all (ev_in K) es"
      using Suc by blast
    show ?case
    proof (cases "p w")
      case True
      then show ?thesis by (simp add: await_cond.simps)
    next
      case False
      with es show ?thesis by (simp add: await_cond.simps [of "Suc n"] hist_suspend flip: rev_map)
    qed
  qed
qed

lemma emits_await_timed [wf_emits, intro, simp]: "emits K (await_timed env at p)"
proof -
  have "hist (snd (await_timed env at p w)) = hist w \<or>
    hist (snd (await_timed env at p w)) = map Delivered (rev (deliver env (hist w))) @ hist w \<or>
    hist (snd (await_timed env at p w)) =
      TimerFired at # map Delivered (rev (deliver env (hist w))) @ hist w" for w
    by (simp add: await_timed_def Let_def hist_suspend)
  then show ?thesis
    unfolding emits_def
    by (metis append_Cons append_Nil ev_in.simps(5) list_all_delivered list.pred_inject)
qed

text \<open>The parts of the workflow.\<close>

lemma emits_decision_verdict [wf_emits]: "KGate \<in> K \<Longrightarrow> emits K (decision_verdict env d at og)"
  unfolding decision_verdict_def Let_def by (intro wf_emits | simp | intro allI impI conjI)+

lemma emits_drain [wf_emits]:
  "KGate \<in> K \<Longrightarrow> KJournal \<in> K \<Longrightarrow> emits K (drain_decisions n env t at og)"
  by (induction n)
    (simp_all, (intro wf_emits | simp split: list.split option.split gate_verdict.split
       | intro allI impI conjI)+)

lemma emits_gate_wait [wf_emits]:
  "KGate \<in> K \<Longrightarrow> KJournal \<in> K \<Longrightarrow> emits K (gate_wait n env t at og k)"
  by (induction n arbitrary: k)
    (simp_all, (intro wf_emits | simp split: option.split | intro allI impI conjI)+)

lemma emits_awaitGate [wf_emits]:
  "KGate \<in> K \<Longrightarrow> KJournal \<in> K \<Longrightarrow> emits K (awaitGate env t at)"
  unfolding awaitGate_def Let_def by (intro wf_emits | simp)+

lemma emits_assertNotKilled [wf_emits]: "KJournal \<in> K \<Longrightarrow> emits K (assertNotKilled env t)"
  unfolding assertNotKilled_def by (intro wf_emits | simp | intro allI impI conjI)+

lemma emits_answerModeRequests [wf_emits]:
  "KJournal \<in> K \<Longrightarrow> emits K (answerModeRequests n env t)"
  by (induction n) (simp_all, (intro wf_emits | simp split: list.split | intro allI impI conjI)+)

lemma emits_goto [wf_emits]: "KJournal \<in> K \<Longrightarrow> emits K (goto env t s n)"
  unfolding goto_def by (intro wf_emits | simp)+

lemma emits_handOver [wf_emits]: "KHandOver \<in> K \<Longrightarrow> emits K (handOver env t r)"
  unfolding handOver_def by (intro wf_emits | simp)+

lemma emits_moveStatus [wf_emits]: "KMove \<in> K \<Longrightarrow> emits K (moveStatus env inp at s)"
  unfolding moveStatus_def Let_def by (intro wf_emits | simp)+

lemma emits_run_engineering [wf_emits]:
  "KEngineering \<in> K \<Longrightarrow> emits K (run_engineering env t task n)"
  unfolding run_engineering_def by (intro wf_emits | simp)+

lemma emits_next_task [wf_emits, simp]: "emits K next_task"
  unfolding next_task_def by (intro wf_emits | simp)+

lemma emits_request_changes [wf_emits, simp]: "emits K (request_changes s)"
  unfolding request_changes_def by (intro wf_emits | simp)+

lemma emits_write_analysis [wf_emits]: "KAnalysis \<in> K \<Longrightarrow> emits K (write_analysis env inp)"
  unfolding write_analysis_def by (intro wf_emits | simp split: prod.split | intro allI impI)+

text \<open>Induction over the laps of the engineering loop: from the next lap to this one.\<close>

lemma engineering_loop_induct [case_names lap]:
  assumes "\<And>k. (k < MAX_GATE_REJECTIONS \<Longrightarrow> P (Suc k)) \<Longrightarrow> P k"
  shows "P (k :: nat)"
proof (induction "MAX_GATE_REJECTIONS - k" arbitrary: k rule: less_induct)
  case less
  show ?case
    by (rule assms) (rule less, simp)
qed

lemma emits_eng_lap [wf_emits]:
  "{KEngineering, KGate, KJournal} \<subseteq> K \<Longrightarrow> emits K (eng_lap env t req k)"
  unfolding eng_lap_def lap_reviews_def lap_tests_def
  by (intro wf_emits | simp | intro allI impI conjI)+

lemma emits_engineering_loop [wf_emits]:
  assumes "{KEngineering, KGate, KJournal} \<subseteq> K"
  shows "emits K (runEngineeringLoop env t req k)"
proof (induction k rule: engineering_loop_induct)
  case (lap k)
  then show ?case
    using assms
    by (simp add: runEngineeringLoop.simps [of env t req k] Let_def)
      (intro wf_emits impI | simp split: lap.split | intro allI impI conjI)+
qed

lemma emits_awaitGreenBuild [wf_emits]:
  "{KEngineering, KPr, KJournal} \<subseteq> K \<Longrightarrow> emits K (awaitGreenBuild n env t a k)"
  by (induction n arbitrary: k)
    (simp_all, (intro wf_emits | simp split: list.split | intro allI impI conjI)+)

lemma emits_intake_phase [wf_emits]:
  "{KIntake, KJournal, KMove} \<subseteq> K \<Longrightarrow> emits K (intake_phase env inp)"
  unfolding intake_phase_def Let_def by (intro wf_emits | simp)+

lemma emits_discovery_phase [wf_emits]:
  "{KAnalysis, KJournal, KMove} \<subseteq> K \<Longrightarrow> emits K (discovery_phase env inp)"
  unfolding discovery_phase_def Let_def
  by (intro wf_emits | simp split: option.split | intro allI impI conjI)+

lemma emits_analysis_phase [wf_emits]:
  "{KAnalysis, KJournal} \<subseteq> K \<Longrightarrow> emits K (analysis_phase env inp)"
  unfolding analysis_phase_def Let_def by (intro wf_emits | simp)+

lemma emits_analysis_gates [wf_emits]:
  "{KAnalysis, KGate, KHandOver, KMove, KJournal} \<subseteq> K \<Longrightarrow> emits K (analysis_gates gs env inp)"
  by (induction gs)
    (simp_all add: Let_def,
      (intro wf_emits | simp split: prod.split | intro allI impI conjI)+)

lemma emits_pr_gates [wf_emits]:
  "{KEngineering, KGate, KHandOver, KJournal} \<subseteq> K \<Longrightarrow> emits K (pr_gates gs env inp k)"
  by (induction gs)
    (simp_all add: Let_def,
      (intro wf_emits | simp split: prod.split | intro allI impI conjI)+)

lemma emits_close_analysis [wf_emits]:
  "{KDeliver, KClose, KMove, KJournal} \<subseteq> K \<Longrightarrow> emits K (close_analysis env inp)"
  unfolding close_analysis_def Let_def by (intro wf_emits | simp)+

lemma emits_close_delivery [wf_emits]:
  "{KMerge, KEvidence, KClose, KMove, KJournal} \<subseteq> K \<Longrightarrow> emits K (close_delivery env inp pr)"
  unfolding close_delivery_def Let_def by (intro wf_emits | simp)+

end
