(* ===== verification/Workflow_Safety.thy ===== *)
theory Workflow_Safety
  imports Workflow_Logic
begin

text \<open>
  What a run of the delivery workflow can never do, in any environment: merge (or open a pull
  request) without everything the flow requires having happened before in the same execution,
  and let one person sign both sides of a four-eyes pair. The invariant relates the state the
  workflow keeps (the inbox, the kill flag, the approvers) to the history of the run.
\<close>

subsection \<open>Hoare triples with an exit condition\<close>

definition hoare :: "(world \<Rightarrow> bool) \<Rightarrow> 'a wf \<Rightarrow> ('a \<Rightarrow> world \<Rightarrow> bool) \<Rightarrow> (world \<Rightarrow> bool) \<Rightarrow> bool" where
  "hoare P m Q X \<longleftrightarrow>
     (\<forall>w. P w \<longrightarrow> (case m w of (Returned x, w') \<Rightarrow> Q x w' | (_, w') \<Rightarrow> X w'))"

lemma hoareI:
  assumes "\<And>w x w'. P w \<Longrightarrow> m w = (Returned x, w') \<Longrightarrow> Q x w'"
    and "\<And>w r w'. P w \<Longrightarrow> m w = (r, w') \<Longrightarrow> (\<forall>x. r \<noteq> Returned x) \<Longrightarrow> X w'"
  shows "hoare P m Q X"
  unfolding hoare_def
proof (intro allI impI)
  fix w
  assume "P w"
  with assms show "case m w of (Returned x, w') \<Rightarrow> Q x w' | (_, w') \<Rightarrow> X w'"
    by (cases "m w") (auto split: outcome.split)
qed

lemma hoare_end:
  "hoare P m (\<lambda>_. X) X \<Longrightarrow> P w \<Longrightarrow> X (snd (m w))"
  unfolding hoare_def by (cases "m w"; cases "fst (m w)") force+

lemma hoare_returned:
  "hoare P m Q X \<Longrightarrow> P w \<Longrightarrow> m w = (Returned x, w') \<Longrightarrow> Q x w'"
  unfolding hoare_def by force

lemma hoare_conseq:
  "hoare P m Q X \<Longrightarrow> (\<And>w. P' w \<Longrightarrow> P w) \<Longrightarrow> (\<And>x w. Q x w \<Longrightarrow> Q' x w) \<Longrightarrow>
   (\<And>w. X w \<Longrightarrow> X' w) \<Longrightarrow> hoare P' m Q' X'"
  unfolding hoare_def by (fastforce split: outcome.splits prod.splits)

lemma hoare_bnd:
  assumes "hoare P m R X" "\<And>x. hoare (R x) (f x) Q X"
  shows "hoare P (bnd m f) Q X"
  unfolding hoare_def
proof (intro allI impI)
  fix w
  assume P: "P w"
  show "case bnd m f w of (Returned x, w') \<Rightarrow> Q x w' | (_, w') \<Rightarrow> X w'"
  proof (cases "m w")
    case (Pair r w')
    show ?thesis
    proof (cases r)
      case (Returned x)
      with assms(1) P Pair have "R x w'" by (auto simp: hoare_def)
      with assms(2)[of x] Pair Returned show ?thesis by (simp add: bnd_def hoare_def)
    qed (use assms(1) P Pair in \<open>auto simp: bnd_def hoare_def\<close>)
  qed
qed

lemma hoare_thn: "hoare P m (\<lambda>_. R) X \<Longrightarrow> hoare R n Q X \<Longrightarrow> hoare P (thn m n) Q X"
  unfolding thn_def by (rule hoare_bnd)

lemma hoare_ret: "(\<And>w. P w \<Longrightarrow> Q x w) \<Longrightarrow> hoare P (ret x) Q X"
  by (simp add: hoare_def ret_def)

lemma hoare_throw: "(\<And>w. P w \<Longrightarrow> X w) \<Longrightarrow> hoare P (throw e) Q X"
  by (simp add: hoare_def throw_def)

lemma hoare_parked: "(\<And>w. P w \<Longrightarrow> X w) \<Longrightarrow> hoare P parked Q X"
  by (simp add: hoare_def parked_def)

lemma hoare_continueRun: "(\<And>w. P w \<Longrightarrow> X w) \<Longrightarrow> hoare P (continueRun inp) Q X"
  by (simp add: hoare_def continueRun_def)

lemma hoare_upd_rs: "(\<And>w. P w \<Longrightarrow> Q () (w\<lparr>rs := f (rs w)\<rparr>)) \<Longrightarrow> hoare P (upd_rs f) Q X"
  by (simp add: hoare_def upd_rs_def)

lemma hoare_upd_ib: "(\<And>w. P w \<Longrightarrow> Q () (w\<lparr>ib := f (ib w)\<rparr>)) \<Longrightarrow> hoare P (upd_ib f) Q X"
  by (simp add: hoare_def upd_ib_def)

lemma hoare_look: "(\<And>v. hoare (\<lambda>w. P w \<and> w = v) (f v) Q X) \<Longrightarrow> hoare P (look f) Q X"
  by (simp add: hoare_def look_def)

lemma hoare_look_any: "(\<And>v. hoare P (f v) Q X) \<Longrightarrow> hoare P (look f) Q X"
  by (rule hoare_look) (auto intro: hoare_conseq)

lemma hoare_whenw:
  "(c \<Longrightarrow> hoare P m Q X) \<Longrightarrow> (\<And>w. P w \<Longrightarrow> \<not> c \<Longrightarrow> Q () w) \<Longrightarrow> hoare P (whenw c m) Q X"
  by (auto simp: whenw_def intro: hoare_ret)

lemma hoare_pre_False: "(\<And>w. \<not> P w) \<Longrightarrow> hoare P m Q X"
  by (simp add: hoare_def)

text \<open>Facts about the history that stay true as it grows.\<close>

definition persists :: "(history \<Rightarrow> bool) \<Rightarrow> bool" where
  "persists F \<longleftrightarrow> (\<forall>es h. F h \<longrightarrow> F (es @ h))"

lemma persistsD: "persists F \<Longrightarrow> F h \<Longrightarrow> F (es @ h)"
  by (simp add: persists_def)

lemma hoare_frame:
  assumes "hoare P m Q X" "emits K m" "persists F"
  shows "hoare (\<lambda>w. P w \<and> F (hist w)) m (\<lambda>x w. Q x w \<and> F (hist w)) X"
proof (rule hoareI)
  fix w x w'
  assume P: "P w \<and> F (hist w)" and m: "m w = (Returned x, w')"
  obtain es where "hist (snd (m w)) = es @ hist w" using assms(2) by (rule emitsD)
  with m have "hist w' = es @ hist w" by simp
  with P assms(3) have "F (hist w')" by (simp add: persists_def)
  moreover have "Q x w'" using assms(1) P m by (auto simp: hoare_def)
  ultimately show "Q x w' \<and> F (hist w')" by simp
next
  fix w r w'
  assume "P w \<and> F (hist w)" "m w = (r, w')" "\<forall>x. r \<noteq> Returned x"
  with assms(1) show "X w'" by (cases r) (auto simp: hoare_def)
qed

subsection \<open>What the history must say\<close>

fun last_kill :: "history \<Rightarrow> kill_level option" where
  "last_kill [] = None"
| "last_kill (Delivered (SigKillSwitch k) # h) = Some (ks_level k)"
| "last_kill (_ # h) = last_kill h"

text \<open>
  The kill switch was off when it was last looked at. The one way a stop can arrive unseen
  between the check and the next call: while the check itself writes the journal line about a
  level-1 stop.
\<close>

definition kill_checked :: "string \<Rightarrow> history \<Rightarrow> bool" where
  "kill_checked t h \<longleftrightarrow> last_kill h \<noteq> Some KillAll \<or>
     (\<exists>sgs h0. h = Answered (Journal t NKillIntakeContinues) AVoid # map Delivered sgs @
                   Issued (Journal t NKillIntakeContinues) # h0 \<and>
               last_kill h0 = Some IntakeOnly)"

text \<open>A person's decision arrived as a signal and the directory confirmed it.\<close>

definition recorded :: "string \<Rightarrow> gate_decision \<Rightarrow> history \<Rightarrow> bool" where
  "recorded t d h \<longleftrightarrow> Delivered (SigGateDecision d) \<in> set h \<and>
     Answered (RecordGateDecision t d) (AVerdict Accepted) \<in> set h"

definition approved_by :: "string \<Rightarrow> step_id \<Rightarrow> string \<Rightarrow> history \<Rightarrow> bool" where
  "approved_by t g u h \<longleftrightarrow> (\<exists>d. recorded t d h \<and> gd_step d = g \<and> gd_decision d = Approve \<and>
     gd_sodVerified d \<and> gd_actorUserId d = u)"

definition passed :: "string \<Rightarrow> step_id \<Rightarrow> history \<Rightarrow> bool" where
  "passed t g h \<longleftrightarrow> (\<exists>u. approved_by t g u h)"

definition master_confirmed :: "string \<Rightarrow> history \<Rightarrow> bool" where
  "master_confirmed u h \<longleftrightarrow> Answered (IsMasterApprover u) (ABool True) \<in> set h"

text \<open>One lap of the engineering loop that ended green: scans, both reviews and tests.\<close>

definition green_lap :: "string \<Rightarrow> nat \<Rightarrow> history \<Rightarrow> bool" where
  "green_lap t n h \<longleftrightarrow>
     (\<exists>ss. Answered (RunScans t n) (AScans ss) \<in> set h \<and> list_all (\<lambda>s. sr_outcome s = ScanPass) ss) \<and>
     (\<exists>r. Answered (ReviewDiff t n) (AReview r) \<in> set h \<and> rr_approved r) \<and>
     (\<exists>r. Answered (ReviewTests t n) (AReview r) \<in> set h \<and> rr_approved r) \<and>
     (\<exists>r. Answered (RunTests t n) (ATests r) \<in> set h \<and> tr_passed r)"

definition green_build :: "string \<Rightarrow> history \<Rightarrow> bool" where
  "green_build t h \<longleftrightarrow> (\<exists>c. Delivered (SigCiResult c) \<in> set h \<and> ci_status c = Succeeded \<and>
     Answered (VerifyCiOrigin t c) (ABool True) \<in> set h)"

text \<open>The analysis the run rests on, and the gates of its risk tier.\<close>

definition analysed :: "workflow_input \<Rightarrow> risk_tier \<Rightarrow> history \<Rightarrow> bool" where
  "analysed inp r h \<longleftrightarrow>
     (\<exists>doc. Answered (WriteAnalysis (wi_ticket inp) (wi_appId inp)) (AAnalysis doc r) \<in> set h)"

definition gate_done :: "workflow_input \<Rightarrow> step_id \<Rightarrow> history \<Rightarrow> bool" where
  "gate_done inp g h \<longleftrightarrow> passed (wi_ticket inp) g h \<or>
     (g \<in> {S4, S5} \<and> \<not> analysisGate (planFor (wi_flow inp)))"

definition pr_ready :: "workflow_input \<Rightarrow> history \<Rightarrow> bool" where
  "pr_ready inp h \<longleftrightarrow>
     kill_checked (wi_ticket inp) h \<and> engineering (planFor (wi_flow inp)) \<and> wi_appId inp \<noteq> None \<and>
     (\<exists>r. analysed inp r h \<and> (\<forall>g \<in> set (gatesFor r) \<inter> {S4, S5, S9}. gate_done inp g h)) \<and>
     (\<exists>n. green_lap (wi_ticket inp) n h)"

definition merge_ready :: "workflow_input \<Rightarrow> pr_ref \<Rightarrow> history \<Rightarrow> bool" where
  "merge_ready inp pr h \<longleftrightarrow>
     kill_checked (wi_ticket inp) h \<and> engineering (planFor (wi_flow inp)) \<and>
     (\<exists>r. analysed inp r h \<and> (\<forall>g \<in> set (gatesFor r). gate_done inp g h)) \<and>
     (\<exists>n. green_lap (wi_ticket inp) n h) \<and> green_build (wi_ticket inp) h \<and>
     Answered (OpenPullRequest (wi_ticket inp)) (APr pr) \<in> set h"

text \<open>Every pull request opened and every merge asked for was ready when it was.\<close>

fun lawful :: "workflow_input \<Rightarrow> history \<Rightarrow> bool" where
  "lawful inp [] \<longleftrightarrow> True"
| "lawful inp (Issued (MergePullRequest t pr) # h) \<longleftrightarrow>
     t = wi_ticket inp \<and> merge_ready inp pr h \<and> lawful inp h"
| "lawful inp (Issued (OpenPullRequest t) # h) \<longleftrightarrow>
     t = wi_ticket inp \<and> pr_ready inp h \<and> lawful inp h"
| "lawful inp (_ # h) \<longleftrightarrow> lawful inp h"

fun critical :: "act \<Rightarrow> bool" where
  "critical (MergePullRequest _ _) \<longleftrightarrow> True"
| "critical (OpenPullRequest _) \<longleftrightarrow> True"
| "critical _ \<longleftrightarrow> False"

lemma lawful_uncritical [simp]: "\<not> critical a \<Longrightarrow> lawful inp (Issued a # h) = lawful inp h"
  by (cases a) simp_all

lemma lawful_split: "lawful inp (es @ h) \<Longrightarrow> lawful inp h"
proof (induction es)
  case (Cons e es)
  then show ?case by (cases "(inp, e # es @ h)" rule: lawful.cases) auto
qed simp

lemma persists_mem [simp]: "persists (\<lambda>h. e \<in> set h)"
  by (simp add: persists_def)

lemma persists_conj [intro]: "persists F \<Longrightarrow> persists G \<Longrightarrow> persists (\<lambda>h. F h \<and> G h)"
  by (simp add: persists_def)

lemma persists_const [simp]: "persists (\<lambda>h. c)"
  by (simp add: persists_def)

lemma persists_facts [simp]:
  "persists (passed t g)" "persists (green_lap t n)" "persists (green_build t)" "persists (analysed inp r)"
  "persists (gate_done inp g)" "persists (approved_by t g u)" "persists (master_confirmed u)"
  "persists (recorded t d)"
  by (auto simp: persists_def passed_def approved_by_def recorded_def green_lap_def green_build_def
      analysed_def gate_done_def master_confirmed_def)

lemma persists_ball [intro]: "(\<And>g. g \<in> A \<Longrightarrow> persists (F g)) \<Longrightarrow> persists (\<lambda>h. \<forall>g \<in> A. F g h)"
  by (auto simp: persists_def)

lemma persists_Cons: "persists F \<Longrightarrow> F h \<Longrightarrow> F (e # h)"
  using persistsD [of F h "[e]"] by simp

subsection \<open>The invariant\<close>

definition four_eyes :: "approvers \<Rightarrow> history \<Rightarrow> bool" where
  "four_eyes ap h \<longleftrightarrow>
     (\<forall>u. ap S4 = Some u \<and> ap S5 = Some u \<longrightarrow> master_confirmed u h) \<and>
     (\<forall>u. ap S9 = Some u \<and> ap S11 = Some u \<longrightarrow> master_confirmed u h)"

definition wf_inv :: "workflow_input \<Rightarrow> step_id set \<Rightarrow> world \<Rightarrow> bool" where
  "wf_inv inp D w \<longleftrightarrow>
     killed (rs w) = last_kill (hist w) \<and>
     (\<forall>d \<in> set (decisions (ib w)). Delivered (SigGateDecision d) \<in> set (hist w)) \<and>
     (\<forall>c \<in> set (ciResults (ib w)). Delivered (SigCiResult c) \<in> set (hist w)) \<and>
     dom (approvers (rs w)) \<subseteq> D \<and>
     (\<forall>g u. approvers (rs w) g = Some u \<longrightarrow> approved_by (wi_ticket inp) g u (hist w)) \<and>
     four_eyes (approvers (rs w)) (hist w) \<and>
     lawful inp (hist w)"

lemma inv_mono: "wf_inv inp D w \<Longrightarrow> D \<subseteq> E \<Longrightarrow> wf_inv inp E w"
  by (auto simp: wf_inv_def)

lemma inv_top: "wf_inv inp D w \<Longrightarrow> wf_inv inp UNIV w"
  by (erule inv_mono) simp

lemma approved_by_Cons: "approved_by t g u h \<Longrightarrow> approved_by t g u (e # h)"
  by (rule persists_Cons) simp

lemma four_eyes_Cons: "four_eyes ap h \<Longrightarrow> four_eyes ap (e # h)"
  by (auto simp: four_eyes_def master_confirmed_def)

lemma last_kill_uninteresting [simp]:
  "last_kill (Issued a # h) = last_kill h" "last_kill (Answered a x # h) = last_kill h"
  "last_kill (Rejected a # h) = last_kill h" "last_kill (TimerFired s # h) = last_kill h"
  by simp_all

lemma inv_log:
  assumes "wf_inv inp D w" "last_kill (e # hist w) = last_kill (hist w)" "lawful inp (e # hist w)"
  shows "wf_inv inp D (log e w)"
  using assms unfolding wf_inv_def
  by (auto simp: approved_by_Cons four_eyes_Cons)

lemma inv_log_result:
  assumes "wf_inv inp D w"
  shows "wf_inv inp D (log (Answered a x) w)" "wf_inv inp D (log (Rejected a) w)"
    "wf_inv inp D (log (TimerFired st) w)"
  by (rule inv_log [OF assms]; use assms in \<open>simp add: wf_inv_def\<close>)+

lemma inv_receive: "wf_inv inp D w \<Longrightarrow> wf_inv inp D (receive sg w)"
  unfolding wf_inv_def
  by (cases sg) (auto simp: receive_def approved_by_Cons four_eyes_Cons)

lemma inv_suspend: "wf_inv inp D w \<Longrightarrow> wf_inv inp D (suspend env w)"
  by (rule suspend_invariant) (auto intro: inv_receive)

text \<open>A call keeps the invariant when issuing it is lawful, and its answer is on the record.\<close>

lemma hoare_call:
  assumes "\<And>w. P w \<Longrightarrow> wf_inv inp D w \<and> lawful inp (Issued a # hist w)"
  shows "hoare P (call env a resp wrap)
     (\<lambda>x w. wf_inv inp D w \<and> Answered a (wrap x) \<in> set (hist w)) (wf_inv inp D)"
proof (rule hoareI)
  have I: "wf_inv inp D (suspend env (log (Issued a) w))" if "P w" for w
    using assms [OF that] by (intro inv_suspend inv_log) auto
  fix w x w'
  assume P: "P w" and c: "call env a resp wrap w = (Returned x, w')"
  then have w': "w' = log (Answered a (wrap x)) (suspend env (log (Issued a) w))"
    by (auto simp: call_def Let_def split: if_splits)
  with I [OF P] show "wf_inv inp D w' \<and> Answered a (wrap x) \<in> set (hist w')"
    by (auto intro: inv_log_result)
next
  have I: "wf_inv inp D (suspend env (log (Issued a) w))" if "P w" for w
    using assms [OF that] by (intro inv_suspend inv_log) auto
  fix w r w'
  assume P: "P w" and "call env a resp wrap w = (r, w')" "\<forall>x. r \<noteq> Returned x"
  then have w': "w' = log (Rejected a) (suspend env (log (Issued a) w))"
    by (auto simp: call_def Let_def split: if_splits)
  with I [OF P] show "wf_inv inp D w'"
    by (auto intro: inv_log_result)
qed

subsection \<open>Programs that keep the invariant\<close>

definition keeps :: "workflow_input \<Rightarrow> step_id set \<Rightarrow> 'a wf \<Rightarrow> bool" where
  "keeps inp D m \<longleftrightarrow> hoare (wf_inv inp D) m (\<lambda>_. wf_inv inp D) (wf_inv inp D)"

lemma keeps_call [wf_hoare]: "\<not> critical a \<Longrightarrow> keeps inp D (call env a resp wrap)"
  unfolding keeps_def
  by (rule hoare_conseq [OF hoare_call [where P = "wf_inv inp D"]]) (auto simp: wf_inv_def)

lemma keeps_call_void [wf_hoare]: "\<not> critical a \<Longrightarrow> keeps inp D (call_void env a)"
  by (simp add: call_void_def keeps_call)

lemma keeps_journal [wf_hoare]: "keeps inp D (journal env t n)"
  by (simp add: journal_def keeps_call_void)

lemma keeps_ret [wf_hoare]: "keeps inp D (ret x)"
  by (simp add: keeps_def hoare_ret)

lemma keeps_throw [wf_hoare]: "keeps inp D (throw e)"
  by (simp add: keeps_def hoare_throw)

lemma keeps_parked [wf_hoare]: "keeps inp D parked"
  by (simp add: keeps_def hoare_parked)

lemma keeps_continueRun [wf_hoare]: "keeps inp D (continueRun inp')"
  by (simp add: keeps_def hoare_continueRun)

lemma keeps_bnd [wf_hoare]: "keeps inp D m \<Longrightarrow> (\<And>x. keeps inp D (f x)) \<Longrightarrow> keeps inp D (bnd m f)"
  unfolding keeps_def by (rule hoare_bnd)

lemma keeps_thn [wf_hoare]: "keeps inp D m \<Longrightarrow> keeps inp D n \<Longrightarrow> keeps inp D (thn m n)"
  unfolding keeps_def by (rule hoare_thn)

lemma keeps_whenw [wf_hoare]: "(c \<Longrightarrow> keeps inp D m) \<Longrightarrow> keeps inp D (whenw c m)"
  unfolding keeps_def by (rule hoare_whenw) auto

lemma keeps_look [wf_hoare]: "(\<And>w. keeps inp D (f w)) \<Longrightarrow> keeps inp D (look f)"
  unfolding keeps_def by (rule hoare_look_any)

lemma keeps_upd_rs [wf_hoare]:
  "(\<And>s. killed (f s) = killed s \<and> approvers (f s) = approvers s) \<Longrightarrow> keeps inp D (upd_rs f)"
  unfolding keeps_def by (rule hoare_upd_rs) (simp add: wf_inv_def)

lemma keeps_upd_ib [wf_hoare]:
  "(\<And>b. set (decisions (f b)) \<subseteq> set (decisions b) \<and> set (ciResults (f b)) \<subseteq> set (ciResults b))
     \<Longrightarrow> keeps inp D (upd_ib f)"
  unfolding keeps_def by (rule hoare_upd_ib) (auto simp: wf_inv_def subset_iff)

lemma keeps_strike [wf_hoare]: "keeps inp D (strike at)"
  by (auto simp: keeps_def hoare_def strike_def countRejection_def Let_def wf_inv_def)

lemma keeps_await_cond [wf_hoare]: "keeps inp D (await_cond n env p)"
  unfolding keeps_def hoare_def
proof (intro allI impI)
  fix w
  assume "wf_inv inp D w"
  then show "case await_cond n env p w of (Returned x, w') \<Rightarrow> wf_inv inp D w' | (_, w') \<Rightarrow> wf_inv inp D w'"
  proof (induction n arbitrary: w)
    case 0
    then show ?case by (simp add: await_cond.simps)
  next
    case (Suc n)
    then show ?case
      by (simp add: await_cond.simps [of "Suc n"] inv_suspend)
  qed
qed

lemma keeps_await_timed [wf_hoare]: "keeps inp D (await_timed env at p)"
  unfolding keeps_def hoare_def
  by (auto simp: await_timed_def Let_def intro!: inv_log_result inv_suspend)

lemma keeps_assertNotKilled [wf_hoare]: "keeps inp D (assertNotKilled env t)"
  unfolding assertNotKilled_def by (intro wf_hoare | simp | intro allI impI conjI)+

lemma keeps_answerModeRequests [wf_hoare]: "keeps inp D (answerModeRequests n env t)"
  by (induction n)
    (simp_all, (intro wf_hoare | simp split: list.split | intro allI impI conjI)+)

lemma keeps_goto [wf_hoare]: "keeps inp D (goto env t s n)"
  unfolding goto_def by (intro wf_hoare | simp)+

lemma keeps_handOver [wf_hoare]: "keeps inp D (handOver env t r)"
  unfolding handOver_def by (intro wf_hoare | simp)+

lemma keeps_moveStatus [wf_hoare]: "keeps inp D (moveStatus env inp' at s)"
  unfolding moveStatus_def Let_def by (intro wf_hoare | simp)+

lemma keeps_run_engineering [wf_hoare]: "keeps inp D (run_engineering env t task n)"
  unfolding run_engineering_def by (intro wf_hoare | simp)+

lemma keeps_next_task [wf_hoare]: "keeps inp D next_task"
  unfolding next_task_def by (intro wf_hoare | simp)+

lemma keeps_request_changes [wf_hoare]: "keeps inp D (request_changes s)"
  unfolding request_changes_def by (intro wf_hoare | simp)+

lemma keeps_intake_phase [wf_hoare]: "keeps inp D (intake_phase env inp')"
  unfolding intake_phase_def Let_def by (intro wf_hoare | simp)+

lemma keeps_discovery_phase [wf_hoare]: "keeps inp D (discovery_phase env inp')"
  unfolding discovery_phase_def Let_def
  by (intro wf_hoare | simp split: option.split | intro allI impI conjI)+

lemma keeps_write_analysis [wf_hoare]: "keeps inp D (write_analysis env inp')"
  unfolding write_analysis_def by (intro wf_hoare | simp split: prod.split | intro allI impI)+

lemma keeps_close_analysis [wf_hoare]: "keeps inp D (close_analysis env inp')"
  unfolding close_analysis_def Let_def by (intro wf_hoare | simp)+

end
