(* ===== verification/Workflow_Merge.thy ===== *)
theory Workflow_Merge
  imports Workflow_Safety
begin

text \<open>
  From the invariant to the whole run: what a closed gate, a finished engineering loop and a
  green build leave in the history, phase by phase, up to the theorem that every pull request
  and every merge of a run was lawful when it was asked for.
\<close>

named_theorems fr \<open>programs that keep the invariant and every established fact\<close>

subsection \<open>Accumulating facts\<close>

text \<open>
  The invariant together with a set of persistent facts about the history. Rules about single
  statements extend the set; the set is read off at the end.
\<close>

definition holds ::
  "workflow_input \<Rightarrow> step_id set \<Rightarrow> (history \<Rightarrow> bool) set \<Rightarrow> world \<Rightarrow> bool" where
  "holds inp D Fs w \<longleftrightarrow> wf_inv inp D w \<and> (\<forall>F \<in> Fs. persists F \<and> F (hist w))"

abbreviation answered :: "act \<Rightarrow> answer \<Rightarrow> history \<Rightarrow> bool" where
  "answered a x \<equiv> (\<lambda>h. Answered a x \<in> set h)"

lemma holds_inv: "holds inp D Fs w \<Longrightarrow> wf_inv inp D w"
  by (simp add: holds_def)

lemma holds_fact: "holds inp D Fs w \<Longrightarrow> F \<in> Fs \<Longrightarrow> F (hist w)"
  by (auto simp: holds_def)

lemma holds_top: "holds inp D Fs w \<Longrightarrow> wf_inv inp UNIV w"
  by (auto simp: holds_def intro: inv_top)

lemma holds_insert [simp]:
  "holds inp D (insert F Fs) w \<longleftrightarrow> holds inp D Fs w \<and> persists F \<and> F (hist w)"
  by (auto simp: holds_def)

lemma holds_mono: "holds inp D Fs w \<Longrightarrow> D \<subseteq> E \<Longrightarrow> Gs \<subseteq> Fs \<Longrightarrow> holds inp E Gs w"
  by (auto simp: holds_def intro: inv_mono)

lemma hoare_keeps:
  assumes "keeps inp D m" "emits UNIV m"
  shows "hoare (holds inp D Fs) m (\<lambda>_. holds inp D Fs) (wf_inv inp UNIV)"
proof (rule hoareI)
  fix w x w'
  assume P: "holds inp D Fs w" and m: "m w = (Returned x, w')"
  then have "wf_inv inp D w'"
    using assms(1) unfolding keeps_def by (auto dest: hoare_returned holds_inv)
  moreover obtain es where "hist (snd (m w)) = es @ hist w" using assms(2) by (rule emitsD)
  ultimately show "holds inp D Fs w'"
    using P m by (auto simp: holds_def persistsD)
next
  fix w r w'
  assume "holds inp D Fs w" "m w = (r, w')" "\<forall>x. r \<noteq> Returned x"
  then have "wf_inv inp D w'"
    using assms(1) unfolding keeps_def hoare_def by (cases r) (auto dest: holds_inv)
  then show "wf_inv inp UNIV w'" by (rule inv_top)
qed

lemma hoare_call_fact:
  assumes "\<And>w. P w \<Longrightarrow> holds inp D Fs w \<and> lawful inp (Issued a # hist w)"
  shows "hoare P (call env a resp wrap)
    (\<lambda>x. holds inp D (insert (answered a (wrap x)) Fs)) (wf_inv inp UNIV)"
proof -
  have em: "emits UNIV (call env a resp wrap)" by (simp add: emits_call)
  have "hoare (\<lambda>w. P w \<and> (\<forall>F \<in> Fs. persists F \<and> F (hist w)))
     (call env a resp wrap)
     (\<lambda>x w. (wf_inv inp D w \<and> Answered a (wrap x) \<in> set (hist w)) \<and> (\<forall>F \<in> Fs. persists F \<and> F (hist w)))
     (wf_inv inp D)"
    by (rule hoare_frame [OF hoare_call em])
      (use assms in \<open>auto simp: persists_def holds_def\<close>)
  then show ?thesis
    by (rule hoare_conseq) (use assms in \<open>auto simp: holds_def intro: inv_top\<close>)
qed

lemma fr_call [fr]:
  "\<not> critical a \<Longrightarrow> hoare (holds inp D Fs) (call env a resp wrap)
    (\<lambda>x. holds inp D (insert (answered a (wrap x)) Fs)) (wf_inv inp UNIV)"
  by (rule hoare_call_fact) (auto simp: holds_def wf_inv_def)

lemma hoare_top: "hoare (holds inp D Fs) m Q (wf_inv inp UNIV) \<Longrightarrow>
   (\<And>w. P w \<Longrightarrow> holds inp D Fs w) \<Longrightarrow> hoare P m Q (wf_inv inp UNIV)"
  by (erule hoare_conseq) auto

lemma hoare_end_top:
  assumes "keeps inp D m" "\<And>w. P w \<Longrightarrow> wf_inv inp D w"
  shows "hoare P m (\<lambda>_. wf_inv inp UNIV) (wf_inv inp UNIV)"
  using assms unfolding keeps_def by (rule hoare_conseq) (auto intro: inv_top)

lemma fr_goto [fr]:
  "hoare (holds inp D Fs) (goto env t s n) (\<lambda>_. holds inp D Fs) (wf_inv inp UNIV)"
  by (intro hoare_keeps wf_hoare wf_emits) simp

lemma fr_journal [fr]:
  "hoare (holds inp D Fs) (journal env t n) (\<lambda>_. holds inp D Fs) (wf_inv inp UNIV)"
  by (intro hoare_keeps wf_hoare wf_emits) simp

lemma fr_call_void [fr]:
  "\<not> critical a \<Longrightarrow>
    hoare (holds inp D Fs) (call_void env a) (\<lambda>_. holds inp D Fs) (wf_inv inp UNIV)"
  by (intro hoare_keeps wf_hoare wf_emits) simp_all

lemma fr_moveStatus [fr]:
  "hoare (holds inp D Fs) (moveStatus env inp' at s) (\<lambda>_. holds inp D Fs) (wf_inv inp UNIV)"
  by (intro hoare_keeps wf_hoare wf_emits) simp

lemma fr_next_task [fr]:
  "hoare (holds inp D Fs) next_task (\<lambda>_. holds inp D Fs) (wf_inv inp UNIV)"
  by (intro hoare_keeps wf_hoare wf_emits)

lemma fr_request_changes [fr]:
  "hoare (holds inp D Fs) (request_changes s) (\<lambda>_. holds inp D Fs) (wf_inv inp UNIV)"
  by (intro hoare_keeps wf_hoare wf_emits)

lemma fr_run_engineering [fr]:
  "hoare (holds inp D Fs) (run_engineering env t task n) (\<lambda>_. holds inp D Fs) (wf_inv inp UNIV)"
  by (intro hoare_keeps wf_hoare wf_emits) simp

lemma fr_strike [fr]:
  "hoare (holds inp D Fs) (strike at) (\<lambda>_. holds inp D Fs) (wf_inv inp UNIV)"
  by (intro hoare_keeps wf_hoare wf_emits)

lemma fr_await_cond [fr]:
  "hoare (holds inp D Fs) (await_cond n env p) (\<lambda>_. holds inp D Fs) (wf_inv inp UNIV)"
  by (intro hoare_keeps wf_hoare wf_emits)

lemma fr_await_timed [fr]:
  "hoare (holds inp D Fs) (await_timed env at p) (\<lambda>_. holds inp D Fs) (wf_inv inp UNIV)"
  by (intro hoare_keeps wf_hoare wf_emits)

lemma fr_intake_phase [fr]:
  "hoare (holds inp D Fs) (intake_phase env inp') (\<lambda>_. holds inp D Fs) (wf_inv inp UNIV)"
  by (intro hoare_keeps wf_hoare wf_emits) simp

lemma fr_discovery_phase [fr]:
  "hoare (holds inp D Fs) (discovery_phase env inp') (\<lambda>_. holds inp D Fs) (wf_inv inp UNIV)"
  by (intro hoare_keeps wf_hoare wf_emits) simp

lemma fr_write_analysis [fr]:
  "hoare (holds inp D Fs) (write_analysis env inp') (\<lambda>_. holds inp D Fs) (wf_inv inp UNIV)"
  by (intro hoare_keeps wf_hoare wf_emits) simp

lemma end_handOver: "P = holds inp D Fs \<Longrightarrow>
    hoare P (handOver env t r) (\<lambda>_. wf_inv inp UNIV) (wf_inv inp UNIV)"
  by (rule hoare_end_top [OF keeps_handOver]) (auto dest: holds_inv)

subsection \<open>Human gates\<close>

text \<open>What closing a gate rests on, against the approvers known at that moment.\<close>

definition may_close :: "step_id \<Rightarrow> gate_decision \<Rightarrow> approvers \<Rightarrow> history \<Rightarrow> bool" where
  "may_close at d ap h \<longleftrightarrow> gd_step d = at \<and>
     (gd_decision d = Approve \<longrightarrow> gd_sodVerified d \<and>
       (at = S5 \<and> ap S4 = Some (gd_actorUserId d) \<longrightarrow> master_confirmed (gd_actorUserId d) h) \<and>
       (at = S11 \<and> ap S9 = Some (gd_actorUserId d) \<longrightarrow> master_confirmed (gd_actorUserId d) h))"

lemma persists_may_close [simp]: "persists (may_close at d ap)"
  by (auto simp: persists_def may_close_def master_confirmed_def)

lemma canCloseGate_may_close:
  "canCloseGate d at ap sa og = None \<Longrightarrow> (sa \<Longrightarrow> master_confirmed (gd_actorUserId d) h) \<Longrightarrow>
     may_close at d ap h"
  by (auto simp: canCloseGate_def may_close_def Let_def split: if_splits)

lemma approvers_call [simp]:
  "approvers (rs (snd (call env a resp wrap w))) = approvers (rs w)"
  by (simp add: call_def Let_def)

lemma inv_close_gate:
  assumes "wf_inv inp D w" "recorded (wi_ticket inp) d (hist w)"
    and "may_close at d (approvers (rs w)) (hist w)"
    and "at = S4 \<Longrightarrow> S5 \<notin> D" "at = S9 \<Longrightarrow> S11 \<notin> D"
  shows "wf_inv inp (insert at D) (w\<lparr>rs := close_gate at d (rs w)\<rparr>)"
proof (cases "gd_decision d = Approve")
  case False
  with assms show ?thesis by (auto simp: wf_inv_def close_gate_def)
next
  case True
  have later: "at = S4 \<Longrightarrow> approvers (rs w) S5 = None" "at = S9 \<Longrightarrow> approvers (rs w) S11 = None"
    using assms by (auto simp: wf_inv_def)
  have "approved_by (wi_ticket inp) at (gd_actorUserId d) (hist w)"
    using assms(2,3) True by (auto simp: approved_by_def may_close_def)
  moreover have "four_eyes ((approvers (rs w))(at \<mapsto> gd_actorUserId d)) (hist w)"
    using assms(1,3) True later
    unfolding four_eyes_def wf_inv_def may_close_def by (cases at) auto
  ultimately show ?thesis
    using assms(1) True by (auto simp: wf_inv_def close_gate_def)
qed

text \<open>The approvers do not change while a decision is being judged.\<close>

lemma hoare_same:
  assumes "hoare P m Q X" "\<And>w. f (snd (m w)) = f w"
  shows "hoare (\<lambda>w. P w \<and> f w = c) m (\<lambda>x w. Q x w \<and> f w = c) X"
proof (rule hoareI)
  fix w x w'
  assume "P w \<and> f w = c" "m w = (Returned x, w')"
  with assms(1) assms(2)[of w] show "Q x w' \<and> f w' = c"
    by (auto dest: hoare_returned)
next
  fix w r w'
  assume "P w \<and> f w = c" "m w = (r, w')" "\<forall>x. r \<noteq> Returned x"
  with assms(1) show "X w'" unfolding hoare_def by (cases r) auto
qed

definition judging ::
  "workflow_input \<Rightarrow> step_id set \<Rightarrow> (history \<Rightarrow> bool) set \<Rightarrow> approvers \<Rightarrow> world \<Rightarrow> bool" where
  "judging inp D Fs ap w \<longleftrightarrow> holds inp D Fs w \<and> approvers (rs w) = ap"

lemma judging_call:
  "\<not> critical a \<Longrightarrow> hoare (judging inp D Fs ap) (call env a resp wrap)
    (\<lambda>x. judging inp D (insert (answered a (wrap x)) Fs) ap) (wf_inv inp UNIV)"
  unfolding judging_def
  by (rule hoare_same [where f = "\<lambda>w. approvers (rs w)", OF fr_call]) simp_all

lemma judging_call_void:
  "\<not> critical a \<Longrightarrow> hoare (judging inp D Fs ap) (call_void env a)
    (\<lambda>x. judging inp D Fs ap) (wf_inv inp UNIV)"
  unfolding call_void_def
  by (rule hoare_conseq [OF judging_call]) (auto simp: judging_def)

lemma judging_journal:
  "hoare (judging inp D Fs ap) (journal env t n) (\<lambda>x. judging inp D Fs ap) (wf_inv inp UNIV)"
  unfolding journal_def by (rule judging_call_void) simp

lemma judging_verdict:
  "hoare (judging inp D Fs ap) (decision_verdict env d at og)
     (\<lambda>v. judging inp D (if v = None then insert (may_close at d ap) Fs else Fs) ap)
     (wf_inv inp UNIV)"
  unfolding decision_verdict_def Let_def
proof (rule hoare_look)
  fix v
  show "hoare (\<lambda>w. judging inp D Fs ap w \<and> w = v)
     (if canCloseGate d at (approvers (rs v)) False (Some og) = Some SodViolation
      then bnd (call env (IsMasterApprover (gd_actorUserId d)) (an_bool env) ABool)
        (\<lambda>master. if master
           then look (\<lambda>w'. ret (canCloseGate d at (approvers (rs w')) True (Some og)))
           else ret (canCloseGate d at (approvers (rs v)) False (Some og)))
      else ret (canCloseGate d at (approvers (rs v)) False (Some og)))
     (\<lambda>v. judging inp D (if v = None then insert (may_close at d ap) Fs else Fs) ap)
     (wf_inv inp UNIV)" (is "hoare ?P (if ?sod then ?ask else ?plain) ?Q ?X")
  proof (cases ?sod)
    case False
    have "hoare ?P ?plain ?Q ?X"
      by (rule hoare_ret) (auto simp: judging_def intro: canCloseGate_may_close)
    with False show ?thesis by simp
  next
    case True
    have "hoare ?P ?ask ?Q ?X"
    proof (rule hoare_bnd)
      show "hoare ?P (call env (IsMasterApprover (gd_actorUserId d)) (an_bool env) ABool)
        (\<lambda>x. judging inp D (insert (answered (IsMasterApprover (gd_actorUserId d)) (ABool x)) Fs) ap) ?X"
        by (rule hoare_conseq [OF judging_call]) auto
      fix master
      show "hoare (judging inp D
          (insert (answered (IsMasterApprover (gd_actorUserId d)) (ABool master)) Fs) ap)
        (if master then look (\<lambda>w'. ret (canCloseGate d at (approvers (rs w')) True (Some og)))
         else ret (canCloseGate d at (approvers (rs v)) False (Some og))) ?Q ?X"
        using True
        by (auto intro!: hoare_look hoare_ret canCloseGate_may_close
            simp: judging_def master_confirmed_def)
    qed
    with True show ?thesis by simp
  qed
qed

text \<open>What a gate that returned a decision has established.\<close>

definition gate_closed ::
  "workflow_input \<Rightarrow> step_id set \<Rightarrow> (history \<Rightarrow> bool) set \<Rightarrow> step_id \<Rightarrow> gate_decision \<Rightarrow> world \<Rightarrow> bool"
where
  "gate_closed inp D Fs at d w \<longleftrightarrow> holds inp (insert at D) Fs w \<and> gd_step d = at \<and>
     recorded (wi_ticket inp) d (hist w) \<and>
     (gd_decision d = Approve \<longrightarrow> passed (wi_ticket inp) at (hist w))"

lemma close_gate_closed:
  assumes "judging inp D (insert (answered (RecordGateDecision (wi_ticket inp) d) (AVerdict Accepted))
             (insert (may_close at d ap) (insert (\<lambda>h. Delivered (SigGateDecision d) \<in> set h) Fs))) ap w"
    and "at = S4 \<Longrightarrow> S5 \<notin> D" "at = S9 \<Longrightarrow> S11 \<notin> D"
  shows "gate_closed inp D Fs at d (w\<lparr>rs := close_gate at d (rs w)\<rparr>)"
proof -
  have r: "recorded (wi_ticket inp) d (hist w)" and m: "may_close at d (approvers (rs w)) (hist w)"
    and h: "holds inp D Fs w"
    using assms(1) by (auto simp: judging_def recorded_def)
  have "wf_inv inp (insert at D) (w\<lparr>rs := close_gate at d (rs w)\<rparr>)"
    using holds_inv [OF h] r m assms(2,3) by (rule inv_close_gate)
  then show ?thesis
    using h r m by (auto simp: gate_closed_def holds_def may_close_def passed_def approved_by_def)
qed

lemma hoare_drain:
  assumes "at = S4 \<Longrightarrow> S5 \<notin> D" "at = S9 \<Longrightarrow> S11 \<notin> D"
  shows "hoare (judging inp D Fs ap) (drain_decisions n env (wi_ticket inp) at og)
     (\<lambda>r. case r of None \<Rightarrow> judging inp D Fs ap | Some d \<Rightarrow> gate_closed inp D Fs at d)
     (wf_inv inp UNIV)" (is "hoare ?P (?drain n) ?Q ?X")
proof (induction n)
  case 0
  show ?case by (auto intro!: hoare_parked simp: judging_def dest: holds_top)
next
  case (Suc n)
  have one: "hoare (judging inp D (insert (\<lambda>h. Delivered (SigGateDecision d) \<in> set h) Fs) ap)
     (bnd (decision_verdict env d at og) (\<lambda>verdict. case verdict of
         Some reason \<Rightarrow> thn (journal env (wi_ticket inp) (NDecisionRefused (gd_actorUserId d) reason)) (?drain n)
       | None \<Rightarrow> bnd (call env (RecordGateDecision (wi_ticket inp) d) (an_verdict env) AVerdict)
           (\<lambda>recorded. case recorded of
              NotAccepted reason \<Rightarrow>
                thn (journal env (wi_ticket inp) (NDirectoryRefused reason)) (?drain n)
            | Accepted \<Rightarrow> thn (upd_rs (close_gate at d)) (ret (Some d))))) ?Q ?X" for d
  proof (rule hoare_bnd [OF judging_verdict])
    let ?Fs = "insert (\<lambda>h. Delivered (SigGateDecision d) \<in> set h) Fs"
    fix v
    have again: "hoare (judging inp D Gs ap) (thn (journal env (wi_ticket inp) x) (?drain n)) ?Q ?X"
      if "Fs \<subseteq> Gs" for x Gs
      by (rule hoare_thn [OF judging_journal], rule hoare_conseq [OF Suc])
        (use that in \<open>auto simp: judging_def dest: holds_mono [where Gs = Fs and E = D]\<close>)
    have rec: "hoare (judging inp D (insert (may_close at d ap) ?Fs) ap)
      (bnd (call env (RecordGateDecision (wi_ticket inp) d) (an_verdict env) AVerdict)
           (\<lambda>recorded. case recorded of
              NotAccepted reason \<Rightarrow>
                thn (journal env (wi_ticket inp) (NDirectoryRefused reason)) (?drain n)
            | Accepted \<Rightarrow> thn (upd_rs (close_gate at d)) (ret (Some d)))) ?Q ?X"
    proof (rule hoare_bnd [OF judging_call])
      fix x
      show "hoare (judging inp D (insert (answered (RecordGateDecision (wi_ticket inp) d) (AVerdict x))
           (insert (may_close at d ap) ?Fs)) ap)
         (case x of NotAccepted reason \<Rightarrow>
             thn (journal env (wi_ticket inp) (NDirectoryRefused reason)) (?drain n)
           | Accepted \<Rightarrow> thn (upd_rs (close_gate at d)) (ret (Some d))) ?Q ?X"
      proof (cases x)
        case (NotAccepted reason)
        then show ?thesis by (auto intro!: again)
      next
        case Accepted
        have "hoare (judging inp D (insert (answered (RecordGateDecision (wi_ticket inp) d) (AVerdict Accepted))
             (insert (may_close at d ap) ?Fs)) ap)
           (thn (upd_rs (close_gate at d)) (ret (Some d))) ?Q ?X"
          by (rule hoare_thn [where R = "gate_closed inp D Fs at d"], rule hoare_upd_rs)
            (auto intro!: hoare_ret close_gate_closed assms)
        with Accepted show ?thesis by simp
      qed
    qed simp
    show "hoare (judging inp D (if v = None then insert (may_close at d ap) ?Fs else ?Fs) ap)
       (case v of
         Some reason \<Rightarrow> thn (journal env (wi_ticket inp) (NDecisionRefused (gd_actorUserId d) reason)) (?drain n)
       | None \<Rightarrow> bnd (call env (RecordGateDecision (wi_ticket inp) d) (an_verdict env) AVerdict)
           (\<lambda>recorded. case recorded of
              NotAccepted reason \<Rightarrow>
                thn (journal env (wi_ticket inp) (NDirectoryRefused reason)) (?drain n)
            | Accepted \<Rightarrow> thn (upd_rs (close_gate at d)) (ret (Some d)))) ?Q ?X"
      by (cases v) (use rec again [of ?Fs] in auto)
  qed
  show ?case
    unfolding drain_decisions.simps
  proof (rule hoare_look)
    fix v
    show "hoare (\<lambda>w. ?P w \<and> w = v) (case decisions (ib v) of
        [] \<Rightarrow> ret None
      | d # rest \<Rightarrow> thn (upd_ib (\<lambda>b. b\<lparr>decisions := rest\<rparr>))
          (bnd (decision_verdict env d at og) (\<lambda>verdict. case verdict of
              Some reason \<Rightarrow> thn (journal env (wi_ticket inp) (NDecisionRefused (gd_actorUserId d) reason)) (?drain n)
            | None \<Rightarrow> bnd (call env (RecordGateDecision (wi_ticket inp) d) (an_verdict env) AVerdict)
                (\<lambda>recorded. case recorded of
                   NotAccepted reason \<Rightarrow>
                     thn (journal env (wi_ticket inp) (NDirectoryRefused reason)) (?drain n)
                 | Accepted \<Rightarrow> thn (upd_rs (close_gate at d)) (ret (Some d)))))) ?Q ?X"
    proof (cases "decisions (ib v)")
      case Nil
      then show ?thesis by (auto intro!: hoare_ret)
    next
      case (Cons d rest)
      show ?thesis
        unfolding Cons list.case
        by (rule hoare_thn [OF hoare_upd_ib one])
          (use Cons in \<open>auto simp: judging_def holds_def wf_inv_def\<close>)
    qed
  qed
qed

lemma hoare_gate_wait:
  assumes "at = S4 \<Longrightarrow> S5 \<notin> D" "at = S9 \<Longrightarrow> S11 \<notin> D"
  shows "hoare (holds inp D Fs) (gate_wait n env (wi_ticket inp) at og k)
     (gate_closed inp D Fs at) (wf_inv inp UNIV)"
proof (induction n arbitrary: k)
  case 0
  show ?case by (auto intro!: hoare_parked dest: holds_top)
next
  case (Suc n)
  have d: "hoare (holds inp D Fs) (drain_decisions m env (wi_ticket inp) at og)
     (\<lambda>r. case r of None \<Rightarrow> holds inp D Fs | Some d \<Rightarrow> gate_closed inp D Fs at d)
     (wf_inv inp UNIV)" for m
    unfolding hoare_def
  proof (intro allI impI)
    fix w
    assume "holds inp D Fs w"
    then have "judging inp D Fs (approvers (rs w)) w" by (simp add: judging_def)
    with hoare_drain [OF assms, where n = m and ap = "approvers (rs w)" and Fs = Fs and inp = inp
        and env = env and og = og]
    show "case drain_decisions m env (wi_ticket inp) at og w of
        (Returned x, w') \<Rightarrow> (case x of None \<Rightarrow> holds inp D Fs | Some d \<Rightarrow> gate_closed inp D Fs at d) w'
      | (_, w') \<Rightarrow> wf_inv inp UNIV w'"
      unfolding hoare_def by (fastforce simp: judging_def split: prod.splits outcome.splits option.splits)
  qed
  show ?case
    unfolding gate_wait.simps
  proof (rule hoare_thn [OF fr_await_timed], rule hoare_bnd [OF d])
    fix r
    show "hoare ((case r of None \<Rightarrow> holds inp D Fs | Some d \<Rightarrow> gate_closed inp D Fs at d))
       (case r of None \<Rightarrow> thn (call_void env (EscalateGate (wi_ticket inp) at (k + 1)))
                            (gate_wait n env (wi_ticket inp) at og (k + 1))
        | Some closed \<Rightarrow> ret closed) (gate_closed inp D Fs at) (wf_inv inp UNIV)"
      by (cases r) (auto intro!: hoare_ret hoare_thn [OF fr_call_void Suc])
  qed
qed

lemma hoare_awaitGate:
  assumes "at = S4 \<Longrightarrow> S5 \<notin> D" "at = S9 \<Longrightarrow> S11 \<notin> D"
  shows "hoare (holds inp D Fs) (awaitGate env (wi_ticket inp) at)
     (gate_closed inp D Fs at) (wf_inv inp UNIV)"
  unfolding awaitGate_def Let_def
proof (rule hoare_thn [OF _ hoare_bnd])
  show "hoare (holds inp D Fs) (upd_rs (\<lambda>s. s\<lparr>status := AtGate\<rparr>)) (\<lambda>_. holds inp D Fs) (wf_inv inp UNIV)"
    by (rule hoare_upd_rs) (auto simp: holds_def wf_inv_def)
  show "hoare (holds inp D Fs) (call env (OpenGate (wi_ticket inp) at g) (an_group env) AGroup)
     (\<lambda>_. holds inp D Fs) (wf_inv inp UNIV)" for g
    by (rule hoare_conseq [OF fr_call]) auto
qed (rule hoare_gate_wait [OF assms])

end
