(* ===== verification/Workflow_Delivery.thy ===== *)
theory Workflow_Delivery
  imports Workflow_Merge
begin

text \<open>
  The phases of the delivery workflow, each with what it establishes, composed into the
  theorems about whole executions: lawful merges, four eyes, and the analysis-only flow.
\<close>

subsection \<open>The kill switch\<close>

lemma hoare_assertNotKilled:
  "hoare (holds inp D Fs) (assertNotKilled env t)
     (\<lambda>_ w. holds inp D Fs w \<and> kill_checked t (hist w)) (wf_inv inp UNIV)"
proof (rule hoareI)
  fix w x w'
  assume P: "holds inp D Fs w" and m: "assertNotKilled env t w = (Returned x, w')"
  have "holds inp D Fs w'"
    using hoare_returned [OF hoare_keeps [OF keeps_assertNotKilled emits_assertNotKilled] P m] by simp
  moreover have "kill_checked t (hist w')"
  proof -
    have k: "killed (rs w) = last_kill (hist w)" using P by (simp add: holds_def wf_inv_def)
    from m have notall: "killed (rs w) \<noteq> Some KillAll"
      by (auto simp: assertNotKilled_def look_def thn_def bnd_def upd_rs_def throw_def
          split: outcome.splits prod.splits)
    show ?thesis
    proof (cases "killed (rs w) = Some IntakeOnly \<and> \<not> intakeOnlyNoted (rs w)")
      case False
      with m notall have "w' = w"
        by (auto simp: assertNotKilled_def look_def ret_def)
      with notall k show ?thesis by (simp add: kill_checked_def)
    next
      case True
      let ?w0 = "w\<lparr>rs := (rs w)\<lparr>intakeOnlyNoted := True\<rparr>\<rparr>"
      from m True have "journal env t NKillIntakeContinues ?w0 = (Returned x, w')"
        by (auto simp: assertNotKilled_def look_def thn_def bnd_def upd_rs_def throw_def
            split: outcome.splits prod.splits if_splits)
      then have "hist w' = Answered (Journal t NKillIntakeContinues) AVoid #
          map Delivered (rev (deliver env (Issued (Journal t NKillIntakeContinues) # hist w))) @
          Issued (Journal t NKillIntakeContinues) # hist w"
        by (auto simp: journal_def call_void_def call_def Let_def hist_suspend split: if_splits)
      with k True show ?thesis
        unfolding kill_checked_def by (intro disjI2 exI conjI) auto
    qed
  qed
  ultimately show "holds inp D Fs w' \<and> kill_checked t (hist w')" by simp
next
  fix w r w'
  assume "holds inp D Fs w" "assertNotKilled env t w = (r, w')" "\<forall>x. r \<noteq> Returned x"
  then show "wf_inv inp UNIV w'"
    using hoare_keeps [OF keeps_assertNotKilled [of inp D env t] emits_assertNotKilled, of Fs]
    unfolding hoare_def by (cases r) auto
qed

subsection \<open>The engineering loop\<close>

definition built ::
  "workflow_input \<Rightarrow> step_id set \<Rightarrow> (history \<Rightarrow> bool) set \<Rightarrow> step_id list \<Rightarrow> eng_outcome \<Rightarrow> world \<Rightarrow> bool"
where
  "built inp D Fs required r w \<longleftrightarrow> holds inp (insert S9 D) Fs w \<and>
     (case r of HandoverBecause _ \<Rightarrow> True
      | Ready n \<Rightarrow> green_lap (wi_ticket inp) n (hist w) \<and>
          (S9 \<in> set required \<longrightarrow> passed (wi_ticket inp) S9 (hist w)))"

definition lap_done ::
  "workflow_input \<Rightarrow> step_id set \<Rightarrow> (history \<Rightarrow> bool) set \<Rightarrow> step_id list \<Rightarrow> nat \<Rightarrow> lap \<Rightarrow> world \<Rightarrow> bool"
where
  "lap_done inp D Fs required n l w \<longleftrightarrow> holds inp (insert S9 D) Fs w \<and>
     (l = LapReady \<longrightarrow> green_lap (wi_ticket inp) n (hist w) \<and>
          (S9 \<in> set required \<longrightarrow> passed (wi_ticket inp) S9 (hist w)))"

lemmas fr_thn = hoare_thn [OF fr_goto] hoare_thn [OF fr_journal] hoare_thn [OF fr_request_changes]
  hoare_thn [OF fr_call_void] hoare_thn [OF fr_moveStatus] hoare_thn [OF fr_write_analysis]

lemmas fr_bnd = hoare_bnd [OF fr_next_task] hoare_bnd [OF fr_run_engineering] hoare_bnd [OF fr_call]
  hoare_bnd [OF fr_strike]

text \<open>The facts a lap collects before its tests run.\<close>

definition lap_facts :: "string \<Rightarrow> nat \<Rightarrow> history \<Rightarrow> bool" where
  "lap_facts t n h \<longleftrightarrow>
     (\<exists>ss. Answered (RunScans t n) (AScans ss) \<in> set h \<and> list_all (\<lambda>s. sr_outcome s = ScanPass) ss) \<and>
     (\<exists>r. Answered (ReviewDiff t n) (AReview r) \<in> set h \<and> rr_approved r) \<and>
     (\<exists>r. Answered (ReviewTests t n) (AReview r) \<in> set h \<and> rr_approved r)"

lemma persists_lap_facts [simp]: "persists (lap_facts t n)"
  by (auto simp: persists_def lap_facts_def)

lemma holds_weaken: "Fs \<subseteq> Gs \<Longrightarrow> holds inp D Gs w \<Longrightarrow> holds inp D Fs w"
  by (erule holds_mono) auto

lemma lap_again:
  "hoare (holds inp (insert S9 D) Gs) m (\<lambda>_. holds inp (insert S9 D) Gs) (wf_inv inp UNIV) \<Longrightarrow>
   (\<And>w. holds inp (insert S9 D) Gs w \<Longrightarrow> holds inp (insert S9 D) Fs w) \<Longrightarrow>
   hoare (holds inp (insert S9 D) Gs) (thn m (ret LapAgain)) (lap_done inp D Fs required n) (wf_inv inp UNIV)"
  by (rule hoare_thn, assumption) (auto simp: lap_done_def intro!: hoare_ret)

lemma hoare_lap_tests:
  assumes "S11 \<notin> D"
  shows "hoare (holds inp (insert S9 D) (insert (lap_facts (wi_ticket inp) n) Fs))
     (lap_tests env (wi_ticket inp) required n) (lap_done inp D Fs required n) (wf_inv inp UNIV)"
    (is "hoare (holds inp ?D ?Gs) _ ?Q ?X")
proof -
  let ?t = "wi_ticket inp"
  let ?F = "\<lambda>h. S9 \<in> set required \<longrightarrow> passed ?t S9 h"
  have p: "persists ?F" by (auto simp: persists_def intro: persistsD [OF persists_facts(1), unfolded persists_def])
  have qa: "hoare (holds inp ?D ?Gs)
     (if S9 \<in> set required
      then thn (goto env ?t S9 GQaScenario)
             (bnd (awaitGate env ?t S9) (\<lambda>qa.
                if gd_decision qa = Reject
                then thn (request_changes (or_empty (gd_reason qa))) (ret False)
                else ret True))
      else ret True)
     (\<lambda>proceed. holds inp ?D (if proceed then insert ?F ?Gs else ?Gs)) ?X"
  proof (cases "S9 \<in> set required")
    case False
    then show ?thesis by (auto intro!: hoare_ret simp: p)
  next
    case True
    have "hoare (gate_closed inp ?D ?Gs S9 qa)
       (if gd_decision qa = Reject
        then thn (request_changes (or_empty (gd_reason qa))) (ret False) else ret True)
       (\<lambda>proceed. holds inp ?D (if proceed then insert ?F ?Gs else ?Gs)) ?X" for qa
    proof (cases "gd_decision qa")
      case Approve
      with True show ?thesis by (auto intro!: hoare_ret simp: gate_closed_def p)
    next
      case Reject
      have "hoare (gate_closed inp ?D ?Gs S9 qa) (request_changes s) (\<lambda>_. holds inp ?D ?Gs) ?X" for s
        by (rule hoare_top [OF fr_request_changes]) (auto simp: gate_closed_def)
      with Reject show ?thesis
        by (auto intro!: hoare_thn [where R = "holds inp ?D ?Gs"] hoare_ret)
    qed
    with True assms show ?thesis
      by (auto intro!: hoare_thn [OF fr_goto] hoare_bnd [OF hoare_awaitGate])
  qed
  have tests: "hoare (holds inp ?D (insert ?F ?Gs))
     (thn (goto env ?t S10 GTestsRun)
       (bnd (call env (RunTests ?t n) (an_tests env) ATests) (\<lambda>run.
        if \<not> tr_passed run then
          thn (journal env ?t (NTestsRed (tr_failed run) (tr_total run))) (ret LapAgain)
        else ret LapReady))) ?Q ?X"
    by (rule fr_thn fr_bnd | simp)+
      (auto intro!: lap_again fr_journal hoare_ret simp: lap_done_def green_lap_def lap_facts_def)
  show ?thesis
    unfolding lap_tests_def
  proof (rule hoare_bnd [OF qa])
    fix proceed
    have "hoare (holds inp ?D ?Gs) (ret LapAgain) ?Q ?X"
      by (auto intro!: hoare_ret simp: lap_done_def)
    with tests show "hoare (holds inp ?D (if proceed then insert ?F ?Gs else ?Gs))
      (if \<not> proceed then ret LapAgain
       else thn (goto env ?t S10 GTestsRun)
         (bnd (call env (RunTests ?t n) (an_tests env) ATests) (\<lambda>run.
          if \<not> tr_passed run then
            thn (journal env ?t (NTestsRed (tr_failed run) (tr_total run))) (ret LapAgain)
          else ret LapReady))) ?Q ?X"
      by (cases proceed) simp_all
  qed
qed

lemma hoare_eng_lap:
  assumes "S11 \<notin> D"
  shows "hoare (holds inp (insert S9 D) Fs) (eng_lap env (wi_ticket inp) required n)
     (lap_done inp D Fs required n) (wf_inv inp UNIV)"
    (is "hoare (holds inp ?D Fs) _ ?Q ?X")
proof -
  let ?t = "wi_ticket inp"
  let ?scanned = "\<lambda>h. \<exists>ss. Answered (RunScans ?t n) (AScans ss) \<in> set h \<and>
     list_all (\<lambda>s. sr_outcome s = ScanPass) ss"
  have p: "persists ?scanned" by (auto simp: persists_def)
  have tests: "hoare (holds inp ?D (insert (answered (ReviewTests ?t n) (AReview r2))
       (insert (answered (ReviewDiff ?t n) (AReview r1)) (insert ?scanned Fs))))
     (lap_tests env ?t required n) ?Q ?X" if "rr_approved r1" "rr_approved r2" for r1 r2
    by (rule hoare_top [OF hoare_lap_tests [OF assms]]) (use that in \<open>auto simp: lap_facts_def\<close>)
  have rev: "hoare (holds inp ?D (insert ?scanned Fs)) (lap_reviews env ?t required n) ?Q ?X"
    unfolding lap_reviews_def
    by (rule fr_thn fr_bnd tests lap_again fr_request_changes | simp | intro impI conjI)+
  have go: "hoare (holds inp ?D (insert (answered (RunScans ?t n) (AScans ss)) Fs))
     (lap_reviews env ?t required n) ?Q ?X"
    if "\<not> list_ex (\<lambda>s. sr_outcome s \<noteq> ScanPass) ss" for ss
    by (rule hoare_top [OF rev])
      (use that p in \<open>auto simp: list_all_iff list_ex_iff\<close>)
  have stop: "hoare (holds inp ?D Fs)
      (ret (case h of Some r \<Rightarrow> LapStop (HAgent r) | None \<Rightarrow> LapAgain)) ?Q ?X" for h
    by (rule hoare_ret) (auto simp: lap_done_def split: option.splits)
  show ?thesis
    unfolding eng_lap_def
    by (rule fr_thn fr_bnd go stop lap_again fr_journal | simp | intro impI conjI)+
qed

lemma hoare_engineering_loop:
  assumes "S11 \<notin> D"
  shows "hoare (holds inp (insert S9 D) Fs) (runEngineeringLoop env (wi_ticket inp) required k)
     (built inp D Fs required) (wf_inv inp UNIV)"
proof (induction k rule: engineering_loop_induct)
  case (lap k)
  show ?case
  proof (cases "k < MAX_GATE_REJECTIONS")
    case False
    then show ?thesis
      by (auto simp: runEngineeringLoop.simps [of env "wi_ticket inp" required k] built_def
          intro!: hoare_ret)
  next
    case True
    have again: "hoare (lap_done inp D Fs required (Suc k) l)
       (case l of LapReady \<Rightarrow> ret (Ready (Suc k)) | LapStop r \<Rightarrow> ret (HandoverBecause r)
          | LapAgain \<Rightarrow> runEngineeringLoop env (wi_ticket inp) required (Suc k))
       (built inp D Fs required) (wf_inv inp UNIV)" for l
      by (cases l) (auto intro!: hoare_ret hoare_conseq [OF lap [OF True]]
          simp: built_def lap_done_def)
    with True show ?thesis
      by (auto simp: runEngineeringLoop.simps [of env "wi_ticket inp" required k]
          intro!: hoare_bnd [OF hoare_eng_lap [OF assms]])
  qed
qed

subsection \<open>The CI gate\<close>

definition ci_done ::
  "workflow_input \<Rightarrow> step_id set \<Rightarrow> (history \<Rightarrow> bool) set \<Rightarrow> eng_outcome \<Rightarrow> world \<Rightarrow> bool" where
  "ci_done inp D Fs r w \<longleftrightarrow> holds inp D Fs w \<and>
     (case r of HandoverBecause _ \<Rightarrow> True | Ready _ \<Rightarrow> green_build (wi_ticket inp) (hist w))"

lemma hoare_awaitGreenBuild:
  "hoare (holds inp D Fs) (awaitGreenBuild n env (wi_ticket inp) a k)
     (ci_done inp D Fs) (wf_inv inp UNIV)"
proof (induction n arbitrary: k)
  case 0
  show ?case by (auto intro!: hoare_parked dest: holds_top)
next
  case (Suc n)
  let ?t = "wi_ticket inp"
  have IH: "hoare (holds inp D (insert F Fs)) (awaitGreenBuild n env ?t a k)
     (ci_done inp D Fs) (wf_inv inp UNIV)" for F k
    by (rule hoare_conseq [OF Suc]) auto
  have IH2: "hoare (holds inp D (insert F (insert G Fs))) (awaitGreenBuild n env ?t a k)
     (ci_done inp D Fs) (wf_inv inp UNIV)" for F G k
    by (rule hoare_conseq [OF Suc]) auto
  have stop: "hoare (holds inp D (insert F (insert G Fs))) (ret (HandoverBecause r))
     (ci_done inp D Fs) (wf_inv inp UNIV)" for F G r
    by (rule hoare_ret) (simp add: ci_done_def)
  have ready: "hoare (holds inp D (insert (answered (VerifyCiOrigin ?t sg) (ABool True))
       (insert (\<lambda>h. Delivered (SigCiResult sg) \<in> set h) Fs))) (ret (Ready m))
     (ci_done inp D Fs) (wf_inv inp UNIV)" if "ci_status sg = Succeeded" for sg m
    by (rule hoare_ret) (use that in \<open>auto simp: ci_done_def green_build_def\<close>)
  have one: "hoare (holds inp D (insert (\<lambda>h. Delivered (SigCiResult sg) \<in> set h) Fs))
    (bnd (call env (VerifyCiOrigin ?t sg) (an_bool env) ABool) (\<lambda>origin.
            if \<not> origin then
              thn (journal env ?t (NForeignCi (ci_adoRepo sg)))
                (awaitGreenBuild n env ?t a k)
            else if ci_status sg = Succeeded then ret (Ready (a + k))
            else if k + 1 > MAX_GATE_REJECTIONS then
              ret (HandoverBecause (HCiUnfixed (k + 1 - 1)))
            else
              thn (journal env ?t NCiRed)
               (bnd (run_engineering env ?t TaskCiFix (a + (k + 1))) (\<lambda>fx.
                if \<not> er_ok fx \<and> er_handoverReason fx \<noteq> None
                then ret (HandoverBecause (HAgent (or_empty (er_handoverReason fx))))
                else awaitGreenBuild n env ?t a (k + 1))))) (ci_done inp D Fs) (wf_inv inp UNIV)" for sg
    by (rule fr_thn fr_bnd IH2 stop ready | simp | intro impI conjI)+
  show ?case
    unfolding awaitGreenBuild.simps
  proof (rule hoare_thn [OF fr_await_cond], rule hoare_look)
    fix v
    show "hoare (\<lambda>w. holds inp D Fs w \<and> w = v) (case ciResults (ib v) of
        [] \<Rightarrow> awaitGreenBuild n env ?t a k
      | sg # rest \<Rightarrow>
          thn (upd_ib (\<lambda>b. b\<lparr>ciResults := rest\<rparr>))
           (bnd (call env (VerifyCiOrigin ?t sg) (an_bool env) ABool) (\<lambda>origin.
            if \<not> origin then
              thn (journal env ?t (NForeignCi (ci_adoRepo sg)))
                (awaitGreenBuild n env ?t a k)
            else if ci_status sg = Succeeded then ret (Ready (a + k))
            else if k + 1 > MAX_GATE_REJECTIONS then
              ret (HandoverBecause (HCiUnfixed (k + 1 - 1)))
            else
              thn (journal env ?t NCiRed)
               (bnd (run_engineering env ?t TaskCiFix (a + (k + 1))) (\<lambda>fx.
                if \<not> er_ok fx \<and> er_handoverReason fx \<noteq> None
                then ret (HandoverBecause (HAgent (or_empty (er_handoverReason fx))))
                else awaitGreenBuild n env ?t a (k + 1))))))
       (ci_done inp D Fs) (wf_inv inp UNIV)"
    proof (cases "ciResults (ib v)")
      case Nil
      then show ?thesis by (auto intro: hoare_conseq [OF Suc])
    next
      case (Cons sg rest)
      show ?thesis
        unfolding Cons list.case
        by (rule hoare_thn [OF hoare_upd_ib one])
          (use Cons in \<open>auto simp: holds_def wf_inv_def\<close>)
    qed
  qed
qed

subsection \<open>The gate sequences\<close>

definition gates_passed ::
  "workflow_input \<Rightarrow> step_id set \<Rightarrow> (history \<Rightarrow> bool) set \<Rightarrow> step_id list \<Rightarrow> run_status option \<Rightarrow> world \<Rightarrow> bool"
where
  "gates_passed inp D Fs gs r w \<longleftrightarrow>
     (case r of Some _ \<Rightarrow> wf_inv inp UNIV w
      | None \<Rightarrow> holds inp (D \<union> set gs) Fs w \<and> (\<forall>g \<in> set gs. passed (wi_ticket inp) g (hist w)))"

lemma end_early:
  "hoare (holds inp D Fs) m (\<lambda>_. wf_inv inp UNIV) (wf_inv inp UNIV) \<Longrightarrow>
   hoare (holds inp D Fs) (bnd m (\<lambda>st. ret (Some st))) (gates_passed inp E Gs gs) (wf_inv inp UNIV)"
  by (rule hoare_bnd, assumption) (auto intro!: hoare_ret simp: gates_passed_def)

lemma end_continue:
  "hoare (holds inp D Fs) (continueRun inp') Q (wf_inv inp UNIV)"
  by (rule hoare_continueRun) (rule holds_top)

lemma gate_order:
  assumes "\<forall>d \<in> D. \<forall>g \<in> set (at # rest). d < (g :: step_id)" "sorted_wrt (<) (at # rest)"
  shows "at = S4 \<Longrightarrow> S5 \<notin> D" "at = S9 \<Longrightarrow> S11 \<notin> D"
    "\<forall>d \<in> insert at D. \<forall>g \<in> set rest. d < g" "sorted_wrt (<) rest"
  using assms by (auto simp: less_step_id_def)

lemma gates_passed_step:
  assumes "hoare (holds inp (insert at D) (insert (passed (wi_ticket inp) at) Fs)) m
      (gates_passed inp (insert at D) (insert (passed (wi_ticket inp) at) Fs) rest) X"
    and "gd_decision d \<noteq> Reject"
  shows "hoare (gate_closed inp D Fs at d) m (gates_passed inp D Fs (at # rest)) X"
proof (rule hoare_conseq [OF assms(1)])
  have "gd_decision d = Approve" using assms(2) by (cases "gd_decision d") simp_all
  then show "holds inp (insert at D) (insert (passed (wi_ticket inp) at) Fs) w"
    if "gate_closed inp D Fs at d w" for w
    using that by (simp add: gate_closed_def)
  show "gates_passed inp D Fs (at # rest) x w"
    if "gates_passed inp (insert at D) (insert (passed (wi_ticket inp) at) Fs) rest x w" for x w
    using that by (cases x) (auto simp: gates_passed_def)
qed

lemma hoare_analysis_gates:
  assumes "\<forall>d \<in> D. \<forall>g \<in> set gs. d < g" "sorted_wrt (<) gs"
  shows "hoare (holds inp D Fs) (analysis_gates gs env inp) (gates_passed inp D Fs gs) (wf_inv inp UNIV)"
  using assms
proof (induction gs arbitrary: D Fs)
  case Nil
  then show ?case by (auto intro!: hoare_ret simp: gates_passed_def)
next
  case (Cons at rest)
  note ord = gate_order [OF Cons.prems]
  have rej: "hoare (gate_closed inp D Fs at d)
      (bnd (strike at) (\<lambda>(count, exhausted).
          if exhausted then bnd (handOver env (wi_ticket inp) (HStrikes at count)) (\<lambda>st. ret (Some st))
          else
            thn (moveStatus env inp MRejected (mapped inp onRejected))
            (thn (goto env (wi_ticket inp) S3 (GRejectedRewrite (or_empty (gd_reason d))))
            (thn (write_analysis env inp) (continueRun inp)))))
      (gates_passed inp D Fs (at # rest)) (wf_inv inp UNIV)" for d
    by (rule hoare_top [where D = "insert at D" and Fs = Fs])
      ((rule fr_thn fr_bnd end_early end_handOver end_continue | simp split: prod.split
        | intro allI impI conjI)+, simp add: gate_closed_def)
  show ?case
    unfolding analysis_gates.simps Let_def
    by (rule hoare_thn [OF fr_goto], rule hoare_bnd [OF hoare_awaitGate [OF ord(1,2)]])
      (auto intro!: rej gates_passed_step Cons.IH ord(3,4))
qed

lemma hoare_pr_gates:
  assumes "\<forall>d \<in> D. \<forall>g \<in> set gs. d < g" "sorted_wrt (<) gs"
  shows "hoare (holds inp D Fs) (pr_gates gs env inp k) (gates_passed inp D Fs gs) (wf_inv inp UNIV)"
  using assms
proof (induction gs arbitrary: D Fs)
  case Nil
  then show ?case by (auto intro!: hoare_ret simp: gates_passed_def)
next
  case (Cons at rest)
  note ord = gate_order [OF Cons.prems]
  have rej: "hoare (gate_closed inp D Fs at d)
      (bnd (strike at) (\<lambda>(count, exhausted).
          if exhausted then bnd (handOver env (wi_ticket inp) (HStrikes at count)) (\<lambda>st. ret (Some st))
          else
            thn (request_changes (or_empty (gd_reason d)))
            (thn (goto env (wi_ticket inp) S12b GPrLoop)
            (look (\<lambda>w. bnd (run_engineering env (wi_ticket inp)
                 (TaskFindings (or_empty (changesRequested (ib w)))) (k + count)) (\<lambda>fx.
              if \<not> er_ok fx \<and> er_handoverReason fx \<noteq> None
              then bnd (handOver env (wi_ticket inp) (HAgent (or_empty (er_handoverReason fx))))
                     (\<lambda>st. ret (Some st))
              else continueRun inp))))))
      (gates_passed inp D Fs (at # rest)) (wf_inv inp UNIV)" for d
    by (rule hoare_top [where D = "insert at D" and Fs = Fs])
      ((rule fr_thn fr_bnd hoare_look_any end_early end_handOver end_continue | simp split: prod.split
        | intro allI impI conjI)+, simp add: gate_closed_def)
  show ?case
    unfolding pr_gates.simps Let_def
    by (rule hoare_thn [OF fr_goto], rule hoare_bnd [OF hoare_awaitGate [OF ord(1,2)]])
      (auto intro!: rej gates_passed_step Cons.IH ord(3,4))
qed

subsection \<open>From the pull request to the merge\<close>

lemma end_keeps: "keeps inp E m \<Longrightarrow> D \<subseteq> E \<Longrightarrow>
   hoare (holds inp D Fs) m (\<lambda>_. wf_inv inp UNIV) (wf_inv inp UNIV)"
  by (rule hoare_end_top) (auto dest: holds_inv intro: inv_mono)

lemma keeps_close_tail:
  "keeps inp D (thn (goto env t S13 GEvidence)
     (bnd (call env (BuildEvidencePackage t) (an_files env) AFiles) (\<lambda>files.
      thn (journal env t (NEvidenceFiles files))
      (thn (moveStatus env inp' MDone s)
      (thn (call_void env (CloseTicket t))
      (thn (upd_rs (\<lambda>s. s\<lparr>status := Done\<rparr>))
        (look (\<lambda>w. ret (status (rs w)))))))))) "
  by (intro wf_hoare | simp)+

lemma hoare_close_delivery:
  assumes ready: "\<And>w. holds inp D Fs w \<Longrightarrow> kill_checked (wi_ticket inp) (hist w) \<Longrightarrow>
      merge_ready inp pr (hist w)"
  shows "hoare (holds inp D Fs) (close_delivery env inp pr) (\<lambda>_. wf_inv inp UNIV) (wf_inv inp UNIV)"
proof -
  let ?P = "\<lambda>w. holds inp D Fs w \<and> kill_checked (wi_ticket inp) (hist w)"
  have lawful: "lawful inp (Issued (MergePullRequest (wi_ticket inp) pr) # hist w)" if "?P w" for w
  proof -
    have "lawful inp (hist w)" using that by (simp add: holds_def wf_inv_def)
    with that ready show ?thesis by simp
  qed
  have "hoare ?P (call env (MergePullRequest (wi_ticket inp) pr) (\<lambda>_. ()) (\<lambda>_. AVoid))
     (\<lambda>_. holds inp D (insert (answered (MergePullRequest (wi_ticket inp) pr) AVoid) Fs)) (wf_inv inp UNIV)"
    by (rule hoare_call_fact) (use lawful in blast)
  then have merge: "hoare ?P (call_void env (MergePullRequest (wi_ticket inp) pr))
     (\<lambda>_. holds inp D Fs) (wf_inv inp UNIV)"
    unfolding call_void_def by (rule hoare_conseq) simp_all
  show ?thesis
    unfolding close_delivery_def Let_def
    by (rule hoare_thn [OF hoare_assertNotKilled
          hoare_thn [OF merge end_keeps [OF keeps_close_tail order_refl]]])
qed

lemma filter_gates_early:
  "sorted_wrt (<) (filter (\<lambda>g. g = S4 \<or> g = S5) (gatesFor r))"
  by (cases r) (simp_all add: gatesFor_def less_step_id_def)

lemma filter_gates_late:
  "sorted_wrt (<) (filter (\<lambda>g. g = S11 \<or> g = S12) (gatesFor r))"
  by (cases r) (simp_all add: gatesFor_def less_step_id_def)

text \<open>
  What is known before the engineering loop starts, and when it has ended green. Both are
  facts about the history, so they persist.
\<close>

definition early_done :: "workflow_input \<Rightarrow> risk_tier \<Rightarrow> history \<Rightarrow> bool" where
  "early_done inp r h \<longleftrightarrow> analysed inp r h \<and> (\<forall>g \<in> set (gatesFor r) \<inter> {S4, S5}. gate_done inp g h)"

definition loop_done :: "workflow_input \<Rightarrow> risk_tier \<Rightarrow> history \<Rightarrow> bool" where
  "loop_done inp r h \<longleftrightarrow> (\<exists>n. green_lap (wi_ticket inp) n h) \<and>
     (S9 \<in> set (gatesFor r) \<longrightarrow> passed (wi_ticket inp) S9 h)"

lemma persists_early_done [simp]: "persists (early_done inp r)"
  unfolding early_done_def using persists_facts(4,5) by (auto simp: persists_def)

lemma persists_loop_done [simp]: "persists (loop_done inp r)"
proof -
  have "green_lap t n (es @ h)" if "green_lap t n h" for t n es h
    using that by (rule persistsD [OF persists_facts(2)])
  moreover have "passed t g (es @ h)" if "passed t g h" for t g es h
    using that by (rule persistsD [OF persists_facts(1)])
  ultimately show ?thesis unfolding loop_done_def persists_def by metis
qed

text \<open>The facts a run holds when the pull request is open and its build is green.\<close>

definition pr_facts :: "workflow_input \<Rightarrow> risk_tier \<Rightarrow> pr_ref \<Rightarrow> (history \<Rightarrow> bool) set" where
  "pr_facts inp r pr =
     {answered (OpenPullRequest (wi_ticket inp)) (APr pr), loop_done inp r, early_done inp r}"

lemma hoare_merge:
  assumes "engineering (planFor (wi_flow inp))"
  shows "hoare (gates_passed inp D (insert (green_build (wi_ticket inp)) (pr_facts inp r pr))
        (filter (\<lambda>g. g = S11 \<or> g = S12) (gatesFor r)) None)
      (close_delivery env inp pr) (\<lambda>_. wf_inv inp UNIV) (wf_inv inp UNIV)"
    (is "hoare (gates_passed inp D ?Gs ?gs None) _ _ _")
proof -
  let ?late = "\<lambda>h. \<forall>g \<in> set ?gs. passed (wi_ticket inp) g h"
  have late: "persists ?late" by (intro persists_ball) simp
  have "hoare (holds inp (D \<union> set ?gs) (insert ?late ?Gs))
      (close_delivery env inp pr) (\<lambda>_. wf_inv inp UNIV) (wf_inv inp UNIV)"
  proof (rule hoare_close_delivery)
    fix w
    assume h: "holds inp (D \<union> set ?gs) (insert ?late ?Gs) w"
      and k: "kill_checked (wi_ticket inp) (hist w)"
    from h have f: "early_done inp r (hist w)" "loop_done inp r (hist w)" "?late (hist w)"
      "green_build (wi_ticket inp) (hist w)"
      "Answered (OpenPullRequest (wi_ticket inp)) (APr pr) \<in> set (hist w)"
      unfolding pr_facts_def holds_insert by blast+
    have "gate_done inp g (hist w)" if g: "g \<in> set (gatesFor r)" for g
      using gatesFor_cases [OF g] g f(1,2,3) unfolding early_done_def loop_done_def gate_done_def
      by fastforce
    with k f assms show "merge_ready inp pr (hist w)"
      unfolding merge_ready_def early_done_def loop_done_def by blast
  qed
  then show ?thesis
    by (rule hoare_conseq) (use late in \<open>simp_all add: gates_passed_def\<close>)
qed

lemma hoare_after_ci:
  assumes "D \<subseteq> {S4, S5, S9}" and "engineering (planFor (wi_flow inp))"
  shows "hoare (ci_done inp D (pr_facts inp r pr) green) (after_ci env inp (gatesFor r) pr green)
     (\<lambda>_. wf_inv inp UNIV) (wf_inv inp UNIV)"
proof (cases green)
  case (HandoverBecause r)
  show ?thesis
    unfolding HandoverBecause after_ci_def eng_outcome.case
    by (rule hoare_end_top [OF keeps_handOver]) (auto simp: ci_done_def dest: holds_inv)
next
  case (Ready m)
  let ?Gs = "insert (green_build (wi_ticket inp)) (pr_facts inp r pr)"
  let ?gs = "filter (\<lambda>g. g = S11 \<or> g = S12) (gatesFor r)"
  have ord: "\<forall>d \<in> D. \<forall>g \<in> set ?gs. d < g"
    using assms(1) by (auto simp: less_step_id_def)
  have step: "hoare (gates_passed inp D ?Gs ?gs e)
     (case e of Some st \<Rightarrow> ret st | None \<Rightarrow> close_delivery env inp pr)
     (\<lambda>_. wf_inv inp UNIV) (wf_inv inp UNIV)" for e
  proof (cases e)
    case None
    with hoare_merge [OF assms(2)] show ?thesis by simp
  next
    case (Some st)
    then show ?thesis by (auto intro!: hoare_ret simp: gates_passed_def)
  qed
  show ?thesis
    unfolding Ready after_ci_def eng_outcome.case
    by (rule hoare_bnd [OF hoare_top [OF hoare_pr_gates [OF ord filter_gates_late]] step])
      (simp add: ci_done_def)
qed

lemma hoare_pr_phase:
  assumes "D \<subseteq> {S4, S5, S9}" "engineering (planFor (wi_flow inp))" "wi_appId inp \<noteq> None"
  shows "hoare (holds inp D {loop_done inp r, early_done inp r}) (pr_phase env inp (gatesFor r) n)
     (\<lambda>_. wf_inv inp UNIV) (wf_inv inp UNIV)"
proof -
  let ?t = "wi_ticket inp"
  let ?Fs = "{loop_done inp r, early_done inp r}"
  have lawful: "lawful inp (Issued (OpenPullRequest ?t) # hist w)"
    if h: "holds inp D ?Fs w" and k: "kill_checked ?t (hist w)" for w
  proof -
    from h have f: "lawful inp (hist w)" "early_done inp r (hist w)" "loop_done inp r (hist w)"
      by (simp_all add: holds_def wf_inv_def)
    have "gate_done inp g (hist w)" if "g \<in> set (gatesFor r) \<inter> {S4, S5, S9}" for g
      using that f(2,3) unfolding early_done_def loop_done_def gate_done_def by fastforce
    with f k assms show ?thesis
      unfolding lawful.simps pr_ready_def early_done_def loop_done_def by blast
  qed
  have open_pr: "hoare (\<lambda>w. holds inp D ?Fs w \<and> kill_checked ?t (hist w))
     (call env (OpenPullRequest ?t) (an_pr env) APr)
     (\<lambda>pr. holds inp D (pr_facts inp r pr)) (wf_inv inp UNIV)"
    unfolding pr_facts_def by (rule hoare_call_fact) (use lawful in blast)
  show ?thesis
    unfolding pr_phase_def Let_def
    by (rule hoare_thn [OF hoare_assertNotKilled], rule hoare_bnd [OF open_pr])
      (intro fr_thn hoare_bnd [OF hoare_awaitGreenBuild hoare_after_ci] assms | simp)+
qed

lemma hoare_delivery_phase:
  assumes "D \<subseteq> {S4, S5}" "engineering (planFor (wi_flow inp))"
  shows "hoare (holds inp D {early_done inp r}) (delivery_phase env inp (gatesFor r))
     (\<lambda>_. wf_inv inp UNIV) (wf_inv inp UNIV)"
proof (cases "wi_appId inp")
  case None
  then show ?thesis by (simp add: delivery_phase_def end_handOver)
next
  case (Some app)
  have loop: "hoare (holds inp D {early_done inp r}) (runEngineeringLoop env (wi_ticket inp) (gatesFor r) 0)
     (built inp D {early_done inp r} (gatesFor r)) (wf_inv inp UNIV)"
    by (rule hoare_top [OF hoare_engineering_loop]) (use assms in \<open>auto intro: holds_mono\<close>)
  have rest: "hoare (built inp D {early_done inp r} (gatesFor r) b)
     (case b of HandoverBecause r \<Rightarrow> handOver env (wi_ticket inp) r
      | Ready attempt \<Rightarrow> pr_phase env inp (gatesFor r) attempt)
     (\<lambda>_. wf_inv inp UNIV) (wf_inv inp UNIV)" for b
  proof (cases b)
    case (HandoverBecause x)
    show ?thesis
      unfolding HandoverBecause eng_outcome.case
      by (rule hoare_end_top [OF keeps_handOver]) (auto simp: built_def dest: holds_inv)
  next
    case (Ready n)
    have "holds inp (insert S9 D) {loop_done inp r, early_done inp r} w"
      if "built inp D {early_done inp r} (gatesFor r) (Ready n) w" for w
      using that by (auto simp: built_def loop_done_def)
    then show ?thesis
      unfolding Ready eng_outcome.case
      by (intro hoare_top [OF hoare_pr_phase [where D = "insert S9 D"]])
        (use assms Some in auto)
  qed
  show ?thesis
    unfolding delivery_phase_def Some option.case by (rule hoare_bnd [OF loop rest])
qed

subsection \<open>The whole execution\<close>

lemma hoare_gates_phase:
  "hoare (\<lambda>w. wf_inv inp {} w \<and> analysed inp (risk (rs w)) (hist w)) (gates_phase env inp)
     (\<lambda>_. wf_inv inp UNIV) (wf_inv inp UNIV)"
  unfolding gates_phase_def Let_def
proof (rule hoare_look)
  fix v :: world
  let ?r = "risk (rs v)"
  let ?gs = "if analysisGate (planFor (wi_flow inp)) then filter (\<lambda>g. g = S4 \<or> g = S5) (gatesFor ?r) else []"
  have ord: "\<forall>d \<in> {}. \<forall>g \<in> set ?gs. d < g" "sorted_wrt (<) ?gs"
    using filter_gates_early by simp_all
  have sub: "{} \<union> set ?gs \<subseteq> {S4, S5}" by auto
  have step: "hoare (gates_passed inp {} {analysed inp ?r} ?gs e)
     (case e of Some st \<Rightarrow> ret st
      | None \<Rightarrow> if \<not> engineering (planFor (wi_flow inp)) then close_analysis env inp
                else delivery_phase env inp (gatesFor ?r))
     (\<lambda>_. wf_inv inp UNIV) (wf_inv inp UNIV)" for e
  proof (cases e)
    case (Some st)
    then show ?thesis by (auto intro!: hoare_ret simp: gates_passed_def)
  next
    case None
    have inv: "wf_inv inp ({} \<union> set ?gs) w" if "gates_passed inp {} {analysed inp ?r} ?gs None w" for w
      using that by (auto simp: gates_passed_def dest: holds_inv)
    have early: "holds inp ({} \<union> set ?gs) {early_done inp ?r} w"
      if "gates_passed inp {} {analysed inp ?r} ?gs None w" for w
      using that by (auto simp: gates_passed_def early_done_def gate_done_def intro: holds_mono)
    show ?thesis
    proof (cases "engineering (planFor (wi_flow inp))")
      case True
      have "hoare (gates_passed inp {} {analysed inp ?r} ?gs None) (delivery_phase env inp (gatesFor ?r))
         (\<lambda>_. wf_inv inp UNIV) (wf_inv inp UNIV)"
        by (rule hoare_top [OF hoare_delivery_phase [OF sub True] early])
      with True None show ?thesis by simp
    next
      case False
      have "hoare (gates_passed inp {} {analysed inp ?r} ?gs None) (close_analysis env inp)
         (\<lambda>_. wf_inv inp UNIV) (wf_inv inp UNIV)"
        by (rule hoare_end_top [OF keeps_close_analysis inv])
      with False None show ?thesis by simp
    qed
  qed
  have "hoare (holds inp {} {analysed inp ?r})
     (thn (whenw (?gs \<noteq> []) (moveStatus env inp MReview (mapped inp onReview)))
       (bnd (analysis_gates ?gs env inp) (\<lambda>e. case e of Some st \<Rightarrow> ret st
          | None \<Rightarrow> if \<not> engineering (planFor (wi_flow inp)) then close_analysis env inp
                    else delivery_phase env inp (gatesFor ?r))))
     (\<lambda>_. wf_inv inp UNIV) (wf_inv inp UNIV)"
    by (rule hoare_thn [OF hoare_whenw [OF fr_moveStatus]], assumption)
      (rule hoare_bnd [OF hoare_analysis_gates [OF ord] step])
  then show "hoare (\<lambda>w. (wf_inv inp {} w \<and> analysed inp (risk (rs w)) (hist w)) \<and> w = v)
     (thn (whenw (?gs \<noteq> []) (moveStatus env inp MReview (mapped inp onReview)))
       (bnd (analysis_gates ?gs env inp) (\<lambda>e. case e of Some st \<Rightarrow> ret st
          | None \<Rightarrow> if \<not> engineering (planFor (wi_flow inp)) then close_analysis env inp
                    else delivery_phase env inp (gatesFor ?r))))
     (\<lambda>_. wf_inv inp UNIV) (wf_inv inp UNIV)"
    by (rule hoare_top) (auto simp: holds_def)
qed

lemma risk_call [simp]: "risk (rs (snd (call env a resp wrap w))) = risk (rs w)"
  by (simp add: call_def Let_def)

lemma hoare_ex:
  assumes "\<And>r. hoare (P r) m Q X"
  shows "hoare (\<lambda>w. \<exists>r. P r w) m Q X"
  unfolding hoare_def
proof (intro allI impI, elim exE)
  fix w r
  assume "P r w"
  with assms [of r] show "case m w of (Returned x, w') \<Rightarrow> Q x w' | (_, w') \<Rightarrow> X w'"
    unfolding hoare_def by simp
qed

definition at_risk ::
  "workflow_input \<Rightarrow> risk_tier \<Rightarrow> world \<Rightarrow> bool" where
  "at_risk inp r w \<longleftrightarrow> holds inp {} {analysed inp r} w \<and> risk (rs w) = r"

lemma at_risk_call:
  "\<not> critical a \<Longrightarrow> hoare (at_risk inp r) (call env a resp wrap) (\<lambda>_. at_risk inp r) (wf_inv inp UNIV)"
  unfolding at_risk_def
  by (rule hoare_conseq [OF hoare_same [where f = "\<lambda>w. risk (rs w)" and c = r,
          OF fr_call [where Fs = "{analysed inp r}"]]]) auto

lemma hoare_analysis_phase:
  "hoare (holds inp {} {}) (analysis_phase env inp)
     (\<lambda>_ w. wf_inv inp {} w \<and> analysed inp (risk (rs w)) (hist w)) (wf_inv inp UNIV)"
    (is "hoare _ _ ?Q ?X")
proof -
  let ?t = "wi_ticket inp"
  have pub: "hoare (at_risk inp r) (thn (call_void env (PublishAnalysis ?t doc)) (ret doc))
     (\<lambda>_ w. \<exists>r. at_risk inp r w) ?X" for r doc
    unfolding call_void_def
    by (rule hoare_thn [OF at_risk_call]) (auto intro!: hoare_ret)
  have wr: "hoare (holds inp {} {}) (write_analysis env inp) (\<lambda>_ w. \<exists>r. at_risk inp r w) ?X"
    unfolding write_analysis_def
  proof (rule hoare_bnd [OF fr_call])
    fix x :: "analysis_doc \<times> risk_tier"
    obtain doc r where x: "x = (doc, r)" by (cases x)
    have "hoare (holds inp {} {answered (WriteAnalysis ?t (wi_appId inp)) (AAnalysis doc r)})
      (upd_rs (\<lambda>s. s\<lparr>analysis := Some doc, risk := r\<rparr>)) (\<lambda>_. at_risk inp r) ?X"
      by (rule hoare_upd_rs) (auto simp: at_risk_def holds_def wf_inv_def analysed_def)
    then show "hoare (holds inp {} (insert (answered (WriteAnalysis ?t (wi_appId inp))
         ((\<lambda>(doc, r). AAnalysis doc r) x)) {}))
      (case x of (doc, r) \<Rightarrow> thn (upd_rs (\<lambda>s. s\<lparr>analysis := Some doc, risk := r\<rparr>))
         (thn (call_void env (PublishAnalysis ?t doc)) (ret doc)))
      (\<lambda>_ w. \<exists>r. at_risk inp r w) ?X"
      unfolding x prod.case by (rule hoare_thn) (rule pub)
  qed simp
  have tail: "hoare (at_risk inp r) (bnd (call env (FanOutChildren ?t doc) (an_children env) AKeys)
      (\<lambda>children. whenw (children \<noteq> []) (journal env ?t (NFanOut (length children))))) ?Q ?X" for r doc
    unfolding journal_def call_void_def
    by (rule hoare_bnd [OF at_risk_call], simp, rule hoare_whenw,
        rule hoare_conseq [OF at_risk_call [where r = r]]) (auto simp: at_risk_def holds_def)
  have tail': "hoare (\<lambda>w. \<exists>r. at_risk inp r w) (bnd (call env (FanOutChildren ?t doc) (an_children env) AKeys)
      (\<lambda>children. whenw (children \<noteq> []) (journal env ?t (NFanOut (length children))))) ?Q ?X" for doc
    by (rule hoare_ex) (rule tail)
  show ?thesis
    unfolding analysis_phase_def Let_def
    by (rule hoare_thn [OF fr_goto hoare_bnd [OF wr tail']])
qed

lemma hoare_ticket_body:
  "hoare (wf_inv inp {}) (ticket_body env inp) (\<lambda>_. wf_inv inp UNIV) (wf_inv inp UNIV)"
proof -
  have rest: "hoare (holds inp {} {})
     (thn (intake_phase env inp) (thn (discovery_phase env inp)
        (thn (analysis_phase env inp) (gates_phase env inp))))
     (\<lambda>_. wf_inv inp UNIV) (wf_inv inp UNIV)"
    by (intro hoare_thn [OF fr_intake_phase] hoare_thn [OF fr_discovery_phase]
        hoare_thn [OF hoare_analysis_phase] hoare_gates_phase)
  have human: "hoare (holds inp {} {})
     (thn (journal env (wi_ticket inp) NHumanOnly) (handOver env (wi_ticket inp) HHumanOnly))
     (\<lambda>_. wf_inv inp UNIV) (wf_inv inp UNIV)"
    by (rule hoare_thn [OF fr_journal end_handOver [OF refl]])
  have "hoare (holds inp {} {}) (ticket_body env inp) (\<lambda>_. wf_inv inp UNIV) (wf_inv inp UNIV)"
    unfolding ticket_body_def Let_def
    by (rule hoare_thn [OF hoare_look_any [OF fr_goto]], rule hoare_look_any)
      (use rest human in simp)
  then show ?thesis by (rule hoare_conseq) (simp_all add: holds_def)
qed

lemma inv_start: "wf_inv inp {} (suspend env (start_world env inp))"
  by (rule inv_suspend)
    (simp add: wf_inv_def start_world_def initialRunState_def emptyInbox_def four_eyes_def)

lemma ticketWorkflow_inv: "wf_inv inp UNIV (snd (ticketWorkflow env inp))"
  unfolding ticketWorkflow_def by (rule hoare_end [OF hoare_ticket_body inv_start])

end
