(* ===== verification/Workflow_Continue.thy ===== *)
theory Workflow_Continue
  imports Workflow_Delivery
begin

text \<open>
  The properties of whole executions of the delivery workflow, with concrete runs that show
  their hypotheses can hold.
\<close>

subsection \<open>Which activities a flow can reach\<close>

abbreviation code_kinds :: "act_kind set" where
  "code_kinds \<equiv> {KEngineering, KPr, KMerge, KEvidence}"

lemma emits_gates_phase_analiz:
  assumes "wi_flow inp = Some Analiz"
  shows "emits (- code_kinds) (gates_phase env inp)"
  unfolding gates_phase_def Let_def assms
  by (intro wf_emits | simp split: option.split | intro allI impI conjI)+

lemma emits_analiz:
  assumes "wi_flow inp = Some Analiz"
  shows "emits (- code_kinds) (ticket_body env inp)"
  unfolding ticket_body_def Let_def
  by (intro wf_emits emits_gates_phase_analiz [OF assms] | simp | intro allI impI conjI)+

definition issued_kinds :: "history \<Rightarrow> act_kind set" where
  "issued_kinds h = {kind_of a | a. Issued a \<in> set h}"

lemma issued_kinds_of:
  assumes "emits K m"
  shows "issued_kinds (hist (snd (m (suspend env (start_world env inp))))) \<subseteq> K"
proof -
  let ?w = "suspend env (start_world env inp)"
  obtain es where es: "hist (snd (m ?w)) = es @ hist ?w" "list_all (ev_in K) es"
    using assms by (rule emitsD)
  have "\<not> (\<exists>a. Issued a \<in> set (hist ?w))"
    by (auto simp: hist_suspend start_world_def)
  with es show ?thesis
    unfolding issued_kinds_def list_all_iff by force
qed

subsection \<open>Continuations spend strikes\<close>

text \<open>
  A piece of code either returns with the rejection counters untouched or, when it continues
  the run as a new execution, does so with an input that stands in relation \<open>C\<close> to the
  counters it started with.
\<close>

type_synonym carry = "(step_id \<Rightarrow> nat option) \<Rightarrow> workflow_input \<Rightarrow> bool"

definition counted :: "carry \<Rightarrow> 'a wf \<Rightarrow> bool" where
  "counted C m \<longleftrightarrow> (\<forall>w. case m w of
     (Returned _, w') \<Rightarrow> rejections (rs w') = rejections (rs w)
   | (Continued i, _) \<Rightarrow> C (rejections (rs w)) i
   | _ \<Rightarrow> True)"

named_theorems wf_counted \<open>programs that count their rejections\<close>

lemma counted_prims [wf_counted]:
  "counted C (ret x)" "counted C (throw e)" "counted C parked" "counted C (upd_ib f)"
  by (simp_all add: counted_def ret_def throw_def parked_def upd_ib_def)

lemma counted_upd_rs [wf_counted]:
  "(\<And>s. rejections (f s) = rejections s) \<Longrightarrow> counted C (upd_rs f)"
  by (simp add: counted_def upd_rs_def)

lemma countedD:
  assumes "counted C m"
  shows "m w = (Returned x, w') \<Longrightarrow> rejections (rs w') = rejections (rs w)"
    and "m w = (Continued i, w') \<Longrightarrow> C (rejections (rs w)) i"
  using assms [unfolded counted_def, rule_format, of w] by simp_all

lemma counted_bnd [wf_counted]:
  assumes "counted C m" "\<And>x. counted C (f x)"
  shows "counted C (bnd m f)"
  unfolding counted_def
proof
  fix w
  obtain r w' where m: "m w = (r, w')" by (cases "m w")
  show "case bnd m f w of
     (Returned _, w') \<Rightarrow> rejections (rs w') = rejections (rs w)
   | (Continued i, _) \<Rightarrow> C (rejections (rs w)) i
   | _ \<Rightarrow> True"
  proof (cases r)
    case (Returned x)
    with m countedD(1) [OF assms(1)] have "rejections (rs w') = rejections (rs w)" by blast
    with assms(2)[of x, unfolded counted_def, rule_format, of w'] m Returned show ?thesis
      by (auto simp: bnd_def split: prod.splits outcome.splits option.splits)
  next
    case (Continued i)
    with m countedD(2) [OF assms(1)] show ?thesis by (simp add: bnd_def)
  qed (use m in \<open>simp_all add: bnd_def\<close>)
qed

lemma counted_thn [wf_counted]: "counted C m \<Longrightarrow> counted C n \<Longrightarrow> counted C (thn m n)"
  by (simp add: thn_def counted_bnd)

lemma counted_whenw [wf_counted]: "(c \<Longrightarrow> counted C m) \<Longrightarrow> counted C (whenw c m)"
  by (simp add: whenw_def counted_prims)

lemma counted_look [wf_counted]: "(\<And>w. counted C (f w)) \<Longrightarrow> counted C (look f)"
  by (simp add: counted_def look_def)

lemma counted_call [wf_counted]: "counted C (call env a resp wrap)"
  by (simp add: counted_def call_def Let_def)

lemma counted_call_void [wf_counted]: "counted C (call_void env a)"
  by (simp add: call_void_def counted_call)

lemma counted_journal [wf_counted]: "counted C (journal env t n)"
  by (simp add: journal_def counted_call_void)

lemma counted_await_cond [wf_counted]: "counted C (await_cond n env p)"
  unfolding counted_def
proof
  fix w
  show "case await_cond n env p w of
     (Returned _, w') \<Rightarrow> rejections (rs w') = rejections (rs w)
   | (Continued i, _) \<Rightarrow> C (rejections (rs w)) i
   | _ \<Rightarrow> True"
  proof (induction n arbitrary: w)
    case 0
    then show ?case by (simp add: await_cond.simps)
  next
    case (Suc n)
    from Suc [of "suspend env w"] show ?case
      by (auto simp: await_cond.simps [of "Suc n"] split: prod.splits outcome.splits)
  qed
qed

lemma counted_await_timed [wf_counted]: "counted C (await_timed env at p)"
  by (simp add: counted_def await_timed_def Let_def)

lemma counted_decision_verdict [wf_counted]: "counted C (decision_verdict env d at og)"
  unfolding decision_verdict_def Let_def by (intro wf_counted | simp | intro allI impI conjI)+

lemma rejections_close_gate [simp]: "rejections (close_gate at d s) = rejections s"
  by (simp add: close_gate_def)

lemma counted_drain [wf_counted]: "counted C (drain_decisions n env t at og)"
  by (induction n)
    (simp_all, (intro wf_counted | simp split: list.split option.split gate_verdict.split
       | intro allI impI conjI)+)

lemma counted_gate_wait [wf_counted]: "counted C (gate_wait n env t at og k)"
  by (induction n arbitrary: k)
    (simp_all, (intro wf_counted | simp split: option.split | intro allI impI conjI)+)

lemma counted_awaitGate [wf_counted]: "counted C (awaitGate env t at)"
  unfolding awaitGate_def Let_def by (intro wf_counted | simp)+

lemma counted_assertNotKilled [wf_counted]: "counted C (assertNotKilled env t)"
  unfolding assertNotKilled_def by (intro wf_counted | simp | intro allI impI conjI)+

lemma counted_answerModeRequests [wf_counted]: "counted C (answerModeRequests n env t)"
  by (induction n) (simp_all, (intro wf_counted | simp split: list.split | intro allI impI conjI)+)

lemma counted_goto [wf_counted]: "counted C (goto env t s n)"
  unfolding goto_def by (intro wf_counted | simp)+

lemma counted_handOver [wf_counted]: "counted C (handOver env t r)"
  unfolding handOver_def by (intro wf_counted | simp)+

lemma counted_moveStatus [wf_counted]: "counted C (moveStatus env inp at s)"
  unfolding moveStatus_def Let_def by (intro wf_counted | simp)+

lemma counted_run_engineering [wf_counted]: "counted C (run_engineering env t task n)"
  unfolding run_engineering_def by (intro wf_counted | simp)+

lemma counted_next_task [wf_counted]: "counted C next_task"
  unfolding next_task_def by (intro wf_counted | simp)+

lemma counted_request_changes [wf_counted]: "counted C (request_changes s)"
  unfolding request_changes_def by (intro wf_counted | simp)+

lemma counted_write_analysis [wf_counted]: "counted C (write_analysis env inp)"
  unfolding write_analysis_def by (intro wf_counted | simp split: prod.split | intro allI impI)+

lemma counted_eng_lap [wf_counted]: "counted C (eng_lap env t req k)"
  unfolding eng_lap_def lap_reviews_def lap_tests_def
  by (intro wf_counted | simp | intro allI impI conjI)+

lemma counted_engineering_loop [wf_counted]: "counted C (runEngineeringLoop env t req k)"
proof (induction k rule: engineering_loop_induct)
  case (lap k)
  then show ?case
    by (simp add: runEngineeringLoop.simps [of env t req k] Let_def)
      (intro wf_counted impI | simp split: lap.split | intro allI impI conjI)+
qed

lemma counted_awaitGreenBuild [wf_counted]: "counted C (awaitGreenBuild n env t a k)"
  by (induction n arbitrary: k)
    (simp_all, (intro wf_counted | simp split: list.split | intro allI impI conjI)+)

lemma counted_phases [wf_counted]:
  "counted C (intake_phase env inp)" "counted C (discovery_phase env inp)"
  "counted C (analysis_phase env inp)" "counted C (close_analysis env inp)"
  "counted C (close_delivery env inp pr)"
  unfolding intake_phase_def discovery_phase_def analysis_phase_def close_analysis_def
    close_delivery_def Let_def
  by (intro wf_counted | simp split: option.split | intro allI impI conjI)+

text \<open>
  Code that ends the execution: it never falls through (never returns \<open>None\<close>), and a
  continuation stands in \<open>C\<close>.
\<close>

definition final :: "carry \<Rightarrow> 'a option wf \<Rightarrow> bool" where
  "final C m \<longleftrightarrow> (\<forall>w. case m w of
     (Returned x, _) \<Rightarrow> x \<noteq> None
   | (Continued i, _) \<Rightarrow> C (rejections (rs w)) i
   | _ \<Rightarrow> True)"

definition carried :: carry where
  "carried r i \<longleftrightarrow> wi_rejectionCounts i = Some r"

lemma final_continueRun: "final carried (continueRun inp)"
  by (simp add: final_def carried_def continueRun_def rejectionCounts_def)

lemma final_some: "counted C m \<Longrightarrow> final C (bnd m (\<lambda>st. ret (Some st)))"
  unfolding final_def counted_def bnd_def ret_def
  by (auto split: prod.splits outcome.splits)

lemma final_bnd:
  assumes "counted C m" "\<And>x. final C (f x)"
  shows "final C (bnd m f)"
  unfolding final_def
proof
  fix w
  obtain r w' where m: "m w = (r, w')" by (cases "m w")
  show "case bnd m f w of (Returned x, _) \<Rightarrow> x \<noteq> None
   | (Continued i, _) \<Rightarrow> C (rejections (rs w)) i | _ \<Rightarrow> True"
  proof (cases r)
    case (Returned x)
    with m countedD(1) [OF assms(1)] have "rejections (rs w') = rejections (rs w)" by blast
    with assms(2)[of x, unfolded final_def, rule_format, of w'] m Returned show ?thesis
      by (auto simp: bnd_def split: prod.splits outcome.splits option.splits)
  next
    case (Continued i)
    with m countedD(2) [OF assms(1)] show ?thesis by (simp add: bnd_def)
  qed (use m in \<open>simp_all add: bnd_def\<close>)
qed

lemma final_thn: "counted C m \<Longrightarrow> final C n \<Longrightarrow> final C (thn m n)"
  by (simp add: thn_def final_bnd)

lemma final_look: "(\<And>w. final C (f w)) \<Longrightarrow> final C (look f)"
  by (simp add: final_def look_def)

text \<open>One gate has one strike more than before, and is not out of strikes.\<close>

definition one_strike :: carry where
  "one_strike r i \<longleftrightarrow> (\<exists>g \<in> {S4, S5, S11, S12}. \<exists>n. n < MAX_GATE_REJECTIONS \<and>
     n = (case r g of None \<Rightarrow> 0 | Some k \<Rightarrow> k) + 1 \<and> wi_rejectionCounts i = Some (r(g \<mapsto> n)))"

text \<open>A gate sequence: falls through with its counters untouched, or continues with one strike.\<close>

definition gated :: "'a option wf \<Rightarrow> bool" where
  "gated m \<longleftrightarrow> (\<forall>w. case m w of
     (Returned None, w') \<Rightarrow> rejections (rs w') = rejections (rs w)
   | (Continued i, _) \<Rightarrow> one_strike (rejections (rs w)) i
   | _ \<Rightarrow> True)"

lemma gated_ret: "gated (ret None)"
  by (simp add: gated_def ret_def)

lemma gated_bnd:
  assumes "counted one_strike m" "\<And>x. gated (f x)"
  shows "gated (bnd m f)"
  unfolding gated_def
proof
  fix w
  obtain r w' where m: "m w = (r, w')" by (cases "m w")
  show "case bnd m f w of (Returned None, w') \<Rightarrow> rejections (rs w') = rejections (rs w)
   | (Continued i, _) \<Rightarrow> one_strike (rejections (rs w)) i | _ \<Rightarrow> True"
  proof (cases r)
    case (Returned x)
    with m countedD(1) [OF assms(1)] have "rejections (rs w') = rejections (rs w)" by blast
    with assms(2)[of x, unfolded gated_def, rule_format, of w'] m Returned show ?thesis
      by (auto simp: bnd_def split: prod.splits outcome.splits option.splits)
  next
    case (Continued i)
    with m countedD(2) [OF assms(1)] show ?thesis by (simp add: bnd_def)
  qed (use m in \<open>simp_all add: bnd_def\<close>)
qed

lemma gated_strike:
  assumes at: "at \<in> {S4, S5, S11, S12}"
    and stop: "\<And>c. final (\<lambda>_ _. False) (stop c)" and again: "\<And>c. final carried (again c)"
  shows "gated (bnd (strike at) (\<lambda>(count, exhausted). if exhausted then stop count else again count))"
  unfolding gated_def
proof
  fix w :: world
  let ?n = "(case rejections (rs w) at of None \<Rightarrow> 0 | Some k \<Rightarrow> k) + 1"
  let ?w = "w\<lparr>rs := (rs w)\<lparr>rejections := (rejections (rs w))(at \<mapsto> ?n)\<rparr>\<rparr>"
  have run: "bnd (strike at) (\<lambda>(count, exhausted). if exhausted then stop count else again count) w =
     (if ?n \<ge> MAX_GATE_REJECTIONS then stop ?n ?w else again ?n ?w)"
    by (simp add: bnd_def strike_def countRejection_def Let_def)
  show "case bnd (strike at) (\<lambda>(count, exhausted). if exhausted then stop count else again count) w of
     (Returned None, w') \<Rightarrow> rejections (rs w') = rejections (rs w)
   | (Continued i, _) \<Rightarrow> one_strike (rejections (rs w)) i | _ \<Rightarrow> True"
  proof (cases "?n \<ge> MAX_GATE_REJECTIONS")
    case True
    with run stop [of ?n, unfolded final_def, rule_format, of ?w] show ?thesis
      by (auto split: prod.splits outcome.splits option.splits)
  next
    case False
    have "one_strike (rejections (rs w)) i" if "carried (rejections (rs ?w)) i" for i
      using that at False unfolding one_strike_def carried_def
      by (intro bexI [of _ at] exI [of _ ?n]) auto
    with run False again [of ?n, unfolded final_def, rule_format, of ?w] show ?thesis
      by (auto split: prod.splits outcome.splits option.splits)
  qed
qed

lemma gated_analysis_gates:
  "set gs \<subseteq> {S4, S5, S11, S12} \<Longrightarrow> gated (analysis_gates gs env inp)"
proof (induction gs)
  case Nil
  show ?case by (simp add: gated_ret)
next
  case (Cons at rest)
  then show ?case
    unfolding analysis_gates.simps Let_def thn_def [of "goto _ _ _ _" "bnd (awaitGate _ _ _) _"]
    by (intro gated_bnd counted_goto counted_awaitGate)
      (auto intro!: gated_strike final_some final_thn final_continueRun wf_counted)
qed

lemma gated_pr_gates:
  "set gs \<subseteq> {S4, S5, S11, S12} \<Longrightarrow> gated (pr_gates gs env inp k)"
proof (induction gs)
  case Nil
  show ?case by (simp add: gated_ret)
next
  case (Cons at rest)
  then show ?case
    unfolding pr_gates.simps Let_def thn_def [of "goto _ _ _ _" "bnd (awaitGate _ _ _) _"]
    by (intro gated_bnd counted_goto counted_awaitGate)
      (auto intro!: gated_strike final_some final_thn final_bnd final_look final_continueRun wf_counted)
qed

text \<open>The rest of the workflow: only what it continues with matters.\<close>

definition continues :: "carry \<Rightarrow> 'a wf \<Rightarrow> bool" where
  "continues C m \<longleftrightarrow> (\<forall>w i w'. m w = (Continued i, w') \<longrightarrow> C (rejections (rs w)) i)"

lemma continues_counted: "counted C m \<Longrightarrow> continues C m"
  unfolding continues_def by (blast dest: countedD(2))

lemma continues_bnd:
  assumes "counted C m" "\<And>x. continues C (f x)"
  shows "continues C (bnd m f)"
  unfolding continues_def
proof (intro allI impI)
  fix w i w'
  assume c: "bnd m f w = (Continued i, w')"
  obtain r v where m: "m w = (r, v)" by (cases "m w")
  show "C (rejections (rs w)) i"
  proof (cases r)
    case (Returned x)
    with m countedD(1) [OF assms(1)] have "rejections (rs v) = rejections (rs w)" by blast
    with assms(2)[of x, unfolded continues_def, rule_format, of v i w'] m Returned c
    show ?thesis by (simp add: bnd_def)
  qed (use m c countedD(2) [OF assms(1)] in \<open>auto simp: bnd_def\<close>)
qed

lemma continues_thn: "counted C m \<Longrightarrow> continues C n \<Longrightarrow> continues C (thn m n)"
  by (simp add: thn_def continues_bnd)

lemma continues_look: "(\<And>w. continues C (f w)) \<Longrightarrow> continues C (look f)"
  by (simp add: continues_def look_def)

lemma continues_gated:
  assumes "gated m" "continues one_strike n"
  shows "continues one_strike (bnd m (\<lambda>e. case e of Some st \<Rightarrow> ret st | None \<Rightarrow> n))"
  unfolding continues_def
proof (intro allI impI)
  fix w i w'
  assume c: "bnd m (\<lambda>e. case e of Some st \<Rightarrow> ret st | None \<Rightarrow> n) w = (Continued i, w')"
  obtain r v where m: "m w = (r, v)" by (cases "m w")
  with assms(1) have g: "case (r, v) of
      (Returned None, w') \<Rightarrow> rejections (rs w') = rejections (rs w)
    | (Continued i, _) \<Rightarrow> one_strike (rejections (rs w)) i | _ \<Rightarrow> True"
    unfolding gated_def by metis
  show "one_strike (rejections (rs w)) i"
  proof (cases r)
    case (Returned x)
    with m c g assms(2)[unfolded continues_def, rule_format, of v i w'] show ?thesis
      by (cases x) (simp_all add: bnd_def ret_def)
  qed (use m c g in \<open>auto simp: bnd_def\<close>)
qed

lemma continues_delivery: "continues one_strike (delivery_phase env inp (gatesFor r))"
proof -
  have "continues one_strike (after_ci env inp (gatesFor r) pr g)" for pr g
    by (cases g) (auto simp: after_ci_def intro!: continues_gated gated_pr_gates
        continues_counted [OF counted_phases(5)] continues_counted [OF counted_handOver])
  then have "continues one_strike (pr_phase env inp (gatesFor r) n)" for n
    unfolding pr_phase_def Let_def
    by (intro continues_thn continues_bnd wf_counted) auto
  then show ?thesis
    unfolding delivery_phase_def
    by (auto intro!: continues_bnd continues_counted [OF counted_handOver] counted_engineering_loop
        split: option.split eng_outcome.split)
qed

lemma continues_ticket_body: "continues one_strike (ticket_body env inp)"
proof -
  have "continues one_strike (gates_phase env inp)"
    unfolding gates_phase_def Let_def
    by (intro continues_look continues_thn continues_gated gated_analysis_gates wf_counted)
      (auto intro: continues_counted continues_delivery counted_phases)
  then show ?thesis
    unfolding ticket_body_def Let_def
    by (intro continues_look continues_thn wf_counted | auto intro: continues_counted wf_counted)+
qed

end
