(* ===== verification/Workflow_Live.thy ===== *)
theory Workflow_Live
  imports Workflow_Continue
begin

text \<open>
  The workflow does reach its end: in an environment that cooperates (activities succeed,
  reviews and scans pass, each gate is approved by its own approver, CI is green) every
  execution returns \<open>Done\<close>. The proof is a total-correctness calculus: \<open>runs P m Q\<close> says that
  \<open>m\<close>, started in \<open>P\<close>, returns (it neither throws, parks nor continues) and ends in \<open>Q\<close>.
\<close>

subsection \<open>Total correctness\<close>

definition runs :: "(world \<Rightarrow> bool) \<Rightarrow> 'a wf \<Rightarrow> ('a \<Rightarrow> world \<Rightarrow> bool) \<Rightarrow> bool" where
  "runs P m Q \<longleftrightarrow> (\<forall>w. P w \<longrightarrow> (\<exists>x w'. m w = (Returned x, w') \<and> Q x w'))"

lemma runsI: "(\<And>w. P w \<Longrightarrow> m w = (Returned (f w), g w) \<and> Q (f w) (g w)) \<Longrightarrow> runs P m Q"
  unfolding runs_def by blast

lemma runsD: "runs P m Q \<Longrightarrow> P w \<Longrightarrow> \<exists>x w'. m w = (Returned x, w') \<and> Q x w'"
  by (simp add: runs_def)

lemma runs_bnd: "runs P m R \<Longrightarrow> (\<And>x. runs (R x) (f x) Q) \<Longrightarrow> runs P (bnd m f) Q"
  unfolding runs_def bnd_def by fastforce

lemma runs_thn: "runs P m (\<lambda>_. R) \<Longrightarrow> runs R n Q \<Longrightarrow> runs P (thn m n) Q"
  unfolding thn_def by (rule runs_bnd)

lemma runs_ret: "(\<And>w. P w \<Longrightarrow> Q x w) \<Longrightarrow> runs P (ret x) Q"
  by (simp add: runs_def ret_def)

lemma runs_look: "(\<And>v. P v \<Longrightarrow> runs (\<lambda>w. P w \<and> w = v) (f v) Q) \<Longrightarrow> runs P (look f) Q"
  by (simp add: runs_def look_def)

lemma runs_upd_rs: "(\<And>w. P w \<Longrightarrow> Q () (w\<lparr>rs := f (rs w)\<rparr>)) \<Longrightarrow> runs P (upd_rs f) Q"
  by (simp add: runs_def upd_rs_def)

lemma runs_upd_ib: "(\<And>w. P w \<Longrightarrow> Q () (w\<lparr>ib := f (ib w)\<rparr>)) \<Longrightarrow> runs P (upd_ib f) Q"
  by (simp add: runs_def upd_ib_def)

lemma runs_whenw:
  "(c \<Longrightarrow> runs P m Q) \<Longrightarrow> (\<And>w. P w \<Longrightarrow> \<not> c \<Longrightarrow> Q () w) \<Longrightarrow> runs P (whenw c m) Q"
  by (auto simp: whenw_def intro: runs_ret)

lemma runs_pre: "runs P m Q \<Longrightarrow> (\<And>w. P' w \<Longrightarrow> P w) \<Longrightarrow> runs P' m Q"
  by (simp add: runs_def)

lemma runs_post: "runs P m Q \<Longrightarrow> (\<And>x w. Q x w \<Longrightarrow> Q' x w) \<Longrightarrow> runs P m Q'"
  unfolding runs_def by blast

subsection \<open>An environment that cooperates\<close>

text \<open>Calls during which signals arrive: opening a gate, and the journal line of the CI wait.\<close>

fun noisy :: "act \<Rightarrow> bool" where
  "noisy (OpenGate _ _ _) \<longleftrightarrow> True"
| "noisy (Journal _ (NStep S10b _)) \<longleftrightarrow> True"
| "noisy _ \<longleftrightarrow> False"

definition good_decision :: "environment \<Rightarrow> (step_id \<Rightarrow> string) \<Rightarrow> history \<Rightarrow> step_id \<Rightarrow> gate_decision \<Rightarrow> bool"
where
  "good_decision env user h g d \<longleftrightarrow> gd_step d = g \<and> gd_decision d = Approve \<and> gd_sodVerified d \<and>
     gd_actorUserId d = user g \<and> gd_actorGroup d = an_group env (Delivered (SigGateDecision d) # h)"

definition cooperative :: "(step_id \<Rightarrow> string) \<Rightarrow> environment \<Rightarrow> bool" where
  "cooperative user env \<longleftrightarrow>
     0 < patience env \<and> user S4 \<noteq> user S5 \<and> user S9 \<noteq> user S11 \<and>
     (\<forall>h. \<not> rejects env h) \<and> (\<forall>h. in_complete (an_intake env h)) \<and> (\<forall>h. an_verdict env h = Accepted) \<and>
     (\<forall>h. an_bool env h) \<and> (\<forall>h. er_ok (an_eng env h)) \<and>
     (\<forall>h. list_all (\<lambda>s. sr_outcome s = ScanPass) (an_scans env h)) \<and>
     (\<forall>h. rr_approved (an_review env h)) \<and> (\<forall>h. tr_passed (an_tests env h)) \<and>
     deliver env [] = [] \<and> (\<forall>a h. \<not> noisy a \<longrightarrow> deliver env (Issued a # h) = []) \<and>
     (\<forall>t g og h. \<exists>d. deliver env (Issued (OpenGate t g og) # h) = [SigGateDecision d] \<and>
        good_decision env user (Issued (OpenGate t g og) # h) g d) \<and>
     (\<forall>t n h. \<exists>c. deliver env (Issued (Journal t (NStep S10b n)) # h) = [SigCiResult c] \<and>
        ci_status c = Succeeded)"

text \<open>Between two steps of such a run: nothing is queued and nothing is stopped.\<close>

definition calm :: "(step_id \<Rightarrow> string) \<Rightarrow> work_mode \<Rightarrow> act set \<Rightarrow> world \<Rightarrow> bool" where
  "calm user m A w \<longleftrightarrow> killed (rs w) = None \<and> decisions (ib w) = [] \<and> modeRequests (ib w) = [] \<and>
     ciResults (ib w) = [] \<and> mode (rs w) = m \<and>
     (\<forall>g u. approvers (rs w) g = Some u \<longrightarrow> u = user g) \<and> (\<forall>a \<in> A. Issued a \<in> set (hist w))"

lemma calm_log [simp]: "calm user m A w \<Longrightarrow> calm user m A (log e w)"
  by (auto simp: calm_def log_def)

lemma calm_issued: "calm user m A w \<Longrightarrow> calm user m (insert a A) (log (Issued a) w)"
  by (auto simp: calm_def log_def)

lemma calm_upd [simp]:
  "calm user m A (w\<lparr>rs := (rs w)\<lparr>status := st\<rparr>\<rparr>) = calm user m A w"
  "calm user m A (w\<lparr>rs := (rs w)\<lparr>step := s, updatedAt := c\<rparr>\<rparr>) = calm user m A w"
  "calm user m A (w\<lparr>rs := (rs w)\<lparr>resumeToken := tok\<rparr>\<rparr>) = calm user m A w"
  "calm user m A (w\<lparr>rs := (rs w)\<lparr>analysis := doc, risk := r\<rparr>\<rparr>) = calm user m A w"
  "calm user m A (w\<lparr>ib := (ib w)\<lparr>changesRequested := q\<rparr>\<rparr>) = calm user m A w"
  by (simp_all add: calm_def)

lemma coopD:
  assumes "cooperative user env"
  shows "0 < patience env" "user S4 \<noteq> user S5" "user S9 \<noteq> user S11" "\<not> rejects env h"
    "in_complete (an_intake env h)" "an_verdict env h = Accepted" "an_bool env h"
    "er_ok (an_eng env h)" "list_all (\<lambda>s. sr_outcome s = ScanPass) (an_scans env h)"
    "rr_approved (an_review env h)" "tr_passed (an_tests env h)" "deliver env [] = []"
    "\<not> noisy a \<Longrightarrow> deliver env (Issued a # h) = []"
  using assms by (simp_all add: cooperative_def)

lemma runs_value:
  "runs P m (\<lambda>x w. P w \<and> V x) \<Longrightarrow> (\<And>x. V x \<Longrightarrow> runs P (f x) Q) \<Longrightarrow> runs P (bnd m f) Q"
  by (rule runs_bnd) (auto simp: runs_def)

subsection \<open>The calls\<close>

lemma suspend_none: "deliver env (hist w) = [] \<Longrightarrow> suspend env w = w"
  by (simp add: suspend_def)

lemma runs_call:
  assumes "cooperative user env" "\<not> noisy a"
  shows "runs (calm user m A) (call env a resp wrap)
    (\<lambda>x w. calm user m (insert a A) w \<and> (\<exists>h. x = resp h))"
proof (rule runsI)
  fix w
  assume "calm user m A w"
  moreover have "suspend env (log (Issued a) w) = log (Issued a) w"
    by (rule suspend_none) (simp add: log_def coopD(13) [OF assms])
  ultimately show "call env a resp wrap w =
      (Returned (resp (Issued a # hist w)),
       log (Answered a (wrap (resp (Issued a # hist w)))) (log (Issued a) w)) \<and>
      calm user m (insert a A) (log (Answered a (wrap (resp (Issued a # hist w)))) (log (Issued a) w)) \<and>
      (\<exists>h. resp (Issued a # hist w) = resp h)"
    by (auto simp: call_def Let_def coopD(4) [OF assms(1)] calm_issued)
qed

lemma calm_mono: "calm user m A w \<Longrightarrow> B \<subseteq> A \<Longrightarrow> calm user m B w"
  by (auto simp: calm_def)

lemma runs_call_same:
  assumes "cooperative user env" "\<not> noisy a"
  shows "runs (calm user m A) (call env a resp wrap) (\<lambda>x w. calm user m A w \<and> (\<exists>h. x = resp h))"
  using runs_call [OF assms] by (rule runs_post) (auto intro: calm_mono)

lemma runs_call_void:
  "cooperative user env \<Longrightarrow> \<not> noisy a \<Longrightarrow> runs (calm user m A) (call_void env a) (\<lambda>_. calm user m A)"
  unfolding call_void_def by (rule runs_post [OF runs_call_same]) auto

lemma runs_call_void_new:
  "cooperative user env \<Longrightarrow> \<not> noisy a \<Longrightarrow>
     runs (calm user m A) (call_void env a) (\<lambda>_. calm user m (insert a A))"
  unfolding call_void_def by (rule runs_post [OF runs_call]) auto

lemma runs_journal:
  "cooperative user env \<Longrightarrow> \<not> noisy (Journal t n) \<Longrightarrow>
     runs (calm user m A) (journal env t n) (\<lambda>_. calm user m A)"
  unfolding journal_def by (rule runs_call_void)

lemma assertNotKilled_calm: "calm user m A w \<Longrightarrow> assertNotKilled env t w = (Returned (), w)"
  by (simp add: assertNotKilled_def look_def calm_def ret_def)

lemma answerModeRequests_calm:
  "calm user m A w \<Longrightarrow> answerModeRequests (Suc n) env t w = (Returned (), w)"
  by (simp add: look_def calm_def ret_def)

lemma runs_assertNotKilled: "runs (calm user m A) (assertNotKilled env t) (\<lambda>_. calm user m A)"
  by (rule runsI [where g = "\<lambda>w. w" and f = "\<lambda>_. ()"]) (simp add: assertNotKilled_calm)

lemma goto_calm:
  assumes "cooperative user env" "calm user m A w"
  shows "goto env t s n w = journal env t (NStep s n)
    (w\<lparr>rs := (rs w)\<lparr>step := s, updatedAt := clock env (hist w)\<rparr>\<rparr>)"
proof -
  obtain k where "patience env = Suc k" using coopD(1) [OF assms(1)] by (cases "patience env") auto
  then show ?thesis
    using assms(2) unfolding goto_def thn_def bnd_def
    by (simp add: assertNotKilled_calm [OF assms(2)] answerModeRequests_calm [OF assms(2)]
        upd_rs_def look_def del: answerModeRequests.simps)
qed

lemma runs_goto:
  assumes "cooperative user env" "s \<noteq> S10b"
  shows "runs (calm user m A) (goto env t s n) (\<lambda>_. calm user m A)"
  unfolding runs_def
proof (intro allI impI)
  fix w
  assume w: "calm user m A w"
  have "\<not> noisy (Journal t (NStep s n))" using assms(2) by (cases s) simp_all
  from runsD [OF runs_journal [OF assms(1) this],
      of m A "w\<lparr>rs := (rs w)\<lparr>step := s, updatedAt := clock env (hist w)\<rparr>\<rparr>"] w
  show "\<exists>x w'. goto env t s n w = (Returned x, w') \<and> calm user m A w'"
    by (simp add: goto_calm [OF assms(1) w])
qed

subsection \<open>The gates\<close>

lemma good_verdict:
  assumes "cooperative user env" "calm user m A w" "good_decision env user h g d"
  shows "canCloseGate d g (approvers (rs w)) False
     (Some (an_group env (Delivered (SigGateDecision d) # h))) = None"
proof -
  have "gd_decision d = Approve" using assms(3) by (simp add: good_decision_def)
  moreover have "approvers (rs w) S4 \<noteq> Some (user S5)" "approvers (rs w) S9 \<noteq> Some (user S11)"
    using assms(2) coopD(2,3) [OF assms(1)] unfolding calm_def by metis+
  ultimately show ?thesis
    using assms(3) by (auto simp: canCloseGate_approve_iff good_decision_def)
qed

lemma drain_good:
  assumes coop: "cooperative user env" and d: "good_decision env user h g d"
    and og: "og = an_group env (Delivered (SigGateDecision d) # h)"
    and ds: "decisions (ib w) = [d]" and c: "calm user m A (w\<lparr>ib := (ib w)\<lparr>decisions := []\<rparr>\<rparr>)"
  shows "\<exists>w'. drain_decisions (Suc n) env t g og w = (Returned (Some d), w') \<and> calm user m A w'"
proof -
  let ?w = "w\<lparr>ib := (ib w)\<lparr>decisions := []\<rparr>\<rparr>"
  have verdict: "decision_verdict env d g og ?w = (Returned None, ?w)"
    using good_verdict [OF coop c d] by (simp add: decision_verdict_def look_def ret_def og)
  have "\<not> noisy (RecordGateDecision t d)" by simp
  from runsD [OF runs_call_same [OF coop this] c]
  obtain w2 where rec: "call env (RecordGateDecision t d) (an_verdict env) AVerdict ?w = (Returned Accepted, w2)"
    and c2: "calm user m A w2"
    using coopD(6) [OF coop] by (metis (no_types, lifting))
  have "calm user m A (w2\<lparr>rs := close_gate g d (rs w2)\<rparr>)"
    using c2 d by (auto simp: calm_def close_gate_def good_decision_def)
  with ds show ?thesis
    by (simp add: look_def thn_def bnd_def upd_ib_def upd_rs_def verdict rec ret_def)
qed

lemma runs_awaitGate:
  assumes coop: "cooperative user env"
  shows "runs (calm user m A) (awaitGate env t g) (\<lambda>d w. calm user m A w \<and> gd_decision d = Approve)"
  unfolding runs_def
proof (intro allI impI)
  fix w
  assume w: "calm user m A w"
  obtain k where k: "patience env = Suc k" using coopD(1) [OF coop] by (cases "patience env") auto
  let ?owner = "case GATE_OWNER g of Some g \<Rightarrow> g | None \<Rightarrow> ''tech-leads''"
  let ?h = "Issued (OpenGate t g ?owner) # hist w"
  obtain d where del: "deliver env ?h = [SigGateDecision d]" and d: "good_decision env user ?h g d"
    using coop unfolding cooperative_def by blast
  let ?og = "an_group env (Delivered (SigGateDecision d) # ?h)"
  let ?w1 = "suspend env (log (Issued (OpenGate t g ?owner)) (w\<lparr>rs := (rs w)\<lparr>status := AtGate\<rparr>\<rparr>))"
  let ?w2 = "log (Answered (OpenGate t g ?owner) (AGroup ?og)) ?w1"
  have h1: "hist ?w1 = Delivered (SigGateDecision d) # ?h"
    by (simp add: hist_suspend log_def del)
  have open_gate: "call env (OpenGate t g ?owner) (an_group env) AGroup (w\<lparr>rs := (rs w)\<lparr>status := AtGate\<rparr>\<rparr>)
      = (Returned ?og, ?w2)"
    unfolding call_def Let_def by (simp add: coopD(4) [OF coop] h1)
  have ds: "decisions (ib ?w2) = [d]"
    using w by (simp add: suspend_def log_def del receive_def calm_def)
  have "calm user m A (?w2\<lparr>ib := (ib ?w2)\<lparr>decisions := []\<rparr>\<rparr>)"
    using w by (auto simp: suspend_def log_def del receive_def calm_def)
  from drain_good [OF coop d refl ds this] obtain w3
    where "drain_decisions (Suc k) env t g ?og ?w2 = (Returned (Some d), w3)" "calm user m A w3"
    by blast
  then have "awaitGate env t g w = (Returned d, w3)" "calm user m A w3"
    using ds by (simp_all add: awaitGate_def Let_def thn_def bnd_def upd_rs_def open_gate k
        await_timed_def ret_def del: drain_decisions.simps)
  with d show "\<exists>d w'. awaitGate env t g w = (Returned d, w') \<and> calm user m A w' \<and> gd_decision d = Approve"
    by (auto simp: good_decision_def)
qed

subsection \<open>Symbolic execution\<close>

text \<open>Each rule runs the first statement of a sequence and leaves the rest.\<close>

named_theorems wf_step \<open>one statement of a cooperative run\<close>

lemma step_goto [wf_step]:
  "cooperative user env \<Longrightarrow> s \<noteq> S10b \<Longrightarrow> runs (calm user m A) n Q \<Longrightarrow>
     runs (calm user m A) (thn (goto env t s k) n) Q"
  by (rule runs_thn [OF runs_goto])

lemma step_kill [wf_step]:
  "runs (calm user m A) n Q \<Longrightarrow> runs (calm user m A) (thn (assertNotKilled env t) n) Q"
  by (rule runs_thn [OF runs_assertNotKilled])

lemma step_journal [wf_step]:
  "cooperative user env \<Longrightarrow> \<not> noisy (Journal t k) \<Longrightarrow> runs (calm user m A) n Q \<Longrightarrow>
     runs (calm user m A) (thn (journal env t k) n) Q"
  by (rule runs_thn [OF runs_journal])

lemma step_call [wf_step]:
  "cooperative user env \<Longrightarrow> \<not> noisy a \<Longrightarrow> (\<And>h. runs (calm user m A) (f (resp h)) Q) \<Longrightarrow>
     runs (calm user m A) (bnd (call env a resp wrap) f) Q"
  by (rule runs_value [OF runs_call_same]) auto

lemma step_call_new:
  "cooperative user env \<Longrightarrow> \<not> noisy a \<Longrightarrow> (\<And>h. runs (calm user m (insert a A)) (f (resp h)) Q) \<Longrightarrow>
     runs (calm user m A) (bnd (call env a resp wrap) f) Q"
  by (rule runs_bnd [OF runs_call]) (auto simp: runs_def)

lemma step_void [wf_step]:
  "cooperative user env \<Longrightarrow> \<not> noisy a \<Longrightarrow> runs (calm user m A) n Q \<Longrightarrow>
     runs (calm user m A) (thn (call_void env a) n) Q"
  by (rule runs_thn [OF runs_call_void])

lemma step_void_new:
  "cooperative user env \<Longrightarrow> \<not> noisy a \<Longrightarrow> runs (calm user m (insert a A)) n Q \<Longrightarrow>
     runs (calm user m A) (thn (call_void env a) n) Q"
  by (rule runs_thn [OF runs_call_void_new])

lemma step_gate [wf_step]:
  "cooperative user env \<Longrightarrow> (\<And>d. gd_decision d = Approve \<Longrightarrow> runs (calm user m A) (f d) Q) \<Longrightarrow>
     runs (calm user m A) (bnd (awaitGate env t g) f) Q"
  by (rule runs_value [OF runs_awaitGate])

lemma step_upd_rs [wf_step]:
  "(\<And>w. calm user m A w \<Longrightarrow> calm user m A (w\<lparr>rs := f (rs w)\<rparr>)) \<Longrightarrow> runs (calm user m A) n Q \<Longrightarrow>
     runs (calm user m A) (thn (upd_rs f) n) Q"
  by (rule runs_thn [OF runs_upd_rs])

lemma step_look [wf_step]:
  "(\<And>v. mode (rs v) = m \<Longrightarrow> runs (calm user m A) (f v) Q) \<Longrightarrow> runs (calm user m A) (look f) Q"
proof (rule runs_look)
  fix v
  assume f: "\<And>v. mode (rs v) = m \<Longrightarrow> runs (calm user m A) (f v) Q" and v: "calm user m A v"
  then have "runs (calm user m A) (f v) Q" by (simp add: calm_def)
  then show "runs (\<lambda>w. calm user m A w \<and> w = v) (f v) Q" by (rule runs_pre) simp
qed

lemma step_ret [wf_step]: "V x \<Longrightarrow> runs (calm user m A) (ret x) (\<lambda>x w. calm user m A w \<and> V x)"
  by (rule runs_ret) simp

lemma calm_run_engineering:
  "cooperative user env \<Longrightarrow>
     runs (calm user m A) (run_engineering env t task n) (\<lambda>x w. calm user m A w \<and> er_ok x)"
  unfolding run_engineering_def by (intro wf_step) (auto simp: coopD)

lemma calm_next_task: "runs (calm user m A) next_task (\<lambda>x w. calm user m A w \<and> True)"
  unfolding next_task_def
proof (rule step_look)
  fix v
  show "runs (calm user m A) (thn (upd_ib (\<lambda>b. b\<lparr>changesRequested := None\<rparr>))
      (ret (case changesRequested (ib v) of None \<Rightarrow> TaskCriteria | Some t \<Rightarrow> TaskFindings t)))
      (\<lambda>x w. calm user m A w \<and> True)"
    by (rule runs_thn [OF runs_upd_ib [where Q = "\<lambda>_. calm user m A"]]) (auto intro: runs_ret)
qed

lemma calm_lap_tests:
  assumes "cooperative user env"
  shows "runs (calm user m A) (lap_tests env t gs k) (\<lambda>x w. calm user m A w \<and> x = LapReady)"
  unfolding lap_tests_def
proof (rule runs_value [where V = "\<lambda>b. b"])
  show "runs (calm user m A) (if S9 \<in> set gs
         then thn (goto env t S9 GQaScenario)
                (bnd (awaitGate env t S9) (\<lambda>qa.
                   if gd_decision qa = Reject
                   then thn (request_changes (or_empty (gd_reason qa))) (ret False)
                   else ret True))
         else ret True) (\<lambda>b w. calm user m A w \<and> b)"
    by (auto intro!: step_goto step_gate step_ret assms)
next
  fix b :: bool
  assume b
  then show "runs (calm user m A) (if \<not> b then ret LapAgain
     else
       thn (goto env t S10 GTestsRun)
       (bnd (call env (RunTests t k) (an_tests env) ATests) (\<lambda>run.
        if \<not> tr_passed run then
          thn (journal env t (NTestsRed (tr_failed run) (tr_total run))) (ret LapAgain)
        else ret LapReady))) (\<lambda>x w. calm user m A w \<and> x = LapReady)"
    by (auto intro!: step_goto step_call step_ret assms simp: coopD [OF assms])
qed

lemma calm_lap_reviews:
  assumes "cooperative user env"
  shows "runs (calm user m A) (lap_reviews env t gs k) (\<lambda>x w. calm user m A w \<and> x = LapReady)"
  unfolding lap_reviews_def
  by (auto intro!: step_goto step_call step_void calm_lap_tests assms simp: coopD [OF assms])

lemma calm_lap:
  assumes "cooperative user env"
  shows "runs (calm user m A) (eng_lap env t gs k) (\<lambda>x w. calm user m A w \<and> x = LapReady)"
proof -
  have "\<not> list_ex (\<lambda>s. sr_outcome s \<noteq> ScanPass) (an_scans env h)" for h
    using coopD(9) [OF assms, of h] by (simp add: list_ex_iff list_all_iff)
  then show ?thesis
    unfolding eng_lap_def
    by (auto intro!: step_goto step_call calm_lap_reviews assms runs_value [OF calm_next_task]
        runs_value [OF calm_run_engineering])
qed

lemma calm_engineering_loop:
  assumes "cooperative user env"
  shows "runs (calm user m A) (runEngineeringLoop env t gs 0) (\<lambda>x w. calm user m A w \<and> x = Ready 1)"
  unfolding runEngineeringLoop.simps [of env t gs 0] Let_def
  by (auto simp: MAX_GATE_REJECTIONS_def intro!: runs_value [OF calm_lap] step_ret assms)

lemma runs_green_build:
  assumes "cooperative user env" "ci_status c = Succeeded"
  shows "runs (\<lambda>w. ciResults (ib w) = [c] \<and> calm user m A (w\<lparr>ib := (ib w)\<lparr>ciResults := []\<rparr>\<rparr>))
    (awaitGreenBuild (Suc n) env t k 0) (\<lambda>x w. calm user m A w \<and> x = Ready k)"
    (is "runs ?P _ ?Q")
proof -
  have verify: "runs (calm user m A) (bnd (call env (VerifyCiOrigin t c) (an_bool env) ABool) (\<lambda>origin.
      if \<not> origin then thn (journal env t (NForeignCi (ci_adoRepo c))) (awaitGreenBuild n env t k 0)
      else if ci_status c = Succeeded then ret (Ready (k + 0)) else f)) ?Q" for f
    by (auto intro!: step_call step_ret assms simp: assms(2) coopD [OF assms(1)])
  have skip: "runs ?P (await_cond (patience env) env (\<lambda>w. ciResults (ib w) \<noteq> [])) (\<lambda>_. ?P)"
    by (rule runsI [where f = "\<lambda>_. ()" and g = "\<lambda>w. w"]) (simp add: await_cond.simps)
  show ?thesis
    unfolding awaitGreenBuild.simps
  proof (rule runs_thn [OF skip], rule runs_look, goal_cases)
    case (1 v)
    then have v: "ciResults (ib v) = [c]" ..
    show ?case
      unfolding v list.case
      by (rule runs_thn [where R = "calm user m A"], rule runs_upd_ib, simp, rule verify)
  qed
qed

subsection \<open>The phases\<close>

lemma calm_moveStatus:
  "cooperative user env \<Longrightarrow> runs (calm user m A) n Q \<Longrightarrow>
     runs (calm user m A) (thn (moveStatus env inp at s) n) Q"
  unfolding moveStatus_def Let_def
  by (rule runs_thn, rule runs_whenw, rule runs_call_void) simp_all

lemma calm_intake:
  "cooperative user env \<Longrightarrow> runs (calm user m A) (intake_phase env inp) (\<lambda>_. calm user m A)"
  unfolding intake_phase_def Let_def
  by (intro step_goto step_call) (auto simp: coopD whenw_def intro: runs_ret)

lemma calm_discovery:
  "cooperative user env \<Longrightarrow> runs (calm user m A) (discovery_phase env inp) (\<lambda>_. calm user m A)"
  unfolding discovery_phase_def Let_def
  by (intro step_goto calm_moveStatus)
    (auto intro: runs_journal runs_call_void split: option.split)

lemma calm_write_analysis:
  "cooperative user env \<Longrightarrow>
     runs (calm user m A) (write_analysis env inp) (\<lambda>x w. calm user m A w \<and> True)"
  unfolding write_analysis_def
  by (auto intro!: step_call step_upd_rs step_void runs_ret split: prod.split)

lemma calm_analysis:
  "cooperative user env \<Longrightarrow> runs (calm user m A) (analysis_phase env inp) (\<lambda>_. calm user m A)"
  unfolding analysis_phase_def Let_def
  by (intro step_goto runs_value [OF calm_write_analysis] step_call runs_whenw runs_journal) auto

lemma calm_analysis_gates:
  "cooperative user env \<Longrightarrow> S10b \<notin> set gs \<Longrightarrow>
     runs (calm user m A) (analysis_gates gs env inp) (\<lambda>x w. calm user m A w \<and> x = None)"
  by (induction gs) (auto simp: Let_def intro!: step_goto step_gate step_ret)

lemma calm_pr_gates:
  "cooperative user env \<Longrightarrow> S10b \<notin> set gs \<Longrightarrow>
     runs (calm user m A) (pr_gates gs env inp k) (\<lambda>x w. calm user m A w \<and> x = None)"
  by (induction gs) (auto simp: Let_def intro!: step_goto step_gate step_ret)

text \<open>What a finished run has asked for.\<close>

definition finished :: "act set \<Rightarrow> run_status \<Rightarrow> world \<Rightarrow> bool" where
  "finished A st w \<longleftrightarrow> st = Done \<and> (\<forall>a \<in> A. Issued a \<in> set (hist w))"

lemma runs_done:
  "B \<subseteq> A \<Longrightarrow> runs (calm user m A) (thn (upd_rs (\<lambda>s. s\<lparr>status := Done\<rparr>)) (look (\<lambda>w. ret (status (rs w)))))
     (finished B)"
  unfolding runs_def finished_def calm_def
  by (auto simp: thn_def bnd_def upd_rs_def look_def ret_def)

lemma calm_close_delivery:
  "cooperative user env \<Longrightarrow> runs (calm user m A) (close_delivery env inp pr)
     (finished ({MergePullRequest (wi_ticket inp) pr, CloseTicket (wi_ticket inp)} \<union> A))"
  unfolding close_delivery_def Let_def
  by (intro step_kill step_void_new step_goto step_call step_journal calm_moveStatus runs_done) auto

lemma calm_close_analysis:
  assumes "cooperative user env"
  shows "runs (calm user m {}) (close_analysis env inp) (finished {CloseTicket (wi_ticket inp)})"
proof -
  have deliver: "runs (calm user m {}) (look (\<lambda>w. call_void env (DeliverAnalysis (wi_ticket inp) (analysis (rs w)))))
      (\<lambda>_. calm user m {})"
    by (intro step_look runs_call_void assms) simp
  show ?thesis
    unfolding close_analysis_def Let_def
    by (intro step_goto runs_thn [OF deliver] step_journal calm_moveStatus step_void_new runs_done assms) auto
qed

lemma journal_ci:
  assumes coop: "cooperative user env" and w: "calm user m A w"
  shows "\<exists>c w'. ci_status c = Succeeded \<and> journal env t (NStep S10b k) w = (Returned (), w') \<and>
     ciResults (ib w') = [c] \<and> calm user m A (w'\<lparr>ib := (ib w')\<lparr>ciResults := []\<rparr>\<rparr>)"
proof -
  let ?a = "Journal t (NStep S10b k)"
  obtain c where c: "deliver env (Issued ?a # hist w) = [SigCiResult c]" "ci_status c = Succeeded"
    using coop unfolding cooperative_def by blast
  let ?w1 = "suspend env (log (Issued ?a) w)"
  have "journal env t (NStep S10b k) w = (Returned (), log (Answered ?a AVoid) ?w1)"
    by (simp add: journal_def call_void_def call_def Let_def coopD(4) [OF coop])
  moreover have "ciResults (ib ?w1) = [c]"
    using w c by (simp add: suspend_def log_def receive_def calm_def)
  moreover have "calm user m A (?w1\<lparr>ib := (ib ?w1)\<lparr>ciResults := []\<rparr>\<rparr>)"
    using w c by (auto simp: suspend_def log_def receive_def calm_def)
  ultimately show ?thesis
    using c(2) by (intro exI [of _ c] exI [of _ "log (Answered ?a AVoid) ?w1"])
      (auto simp: log_def calm_def)
qed

lemma calm_ci:
  assumes coop: "cooperative user env"
  shows "runs (calm user m A)
     (thn (goto env t S10b k) (awaitGreenBuild (patience env) env t n 0))
     (\<lambda>x w. calm user m A w \<and> x = Ready n)"
  unfolding runs_def
proof (intro allI impI)
  fix w
  assume w: "calm user m A w"
  let ?v = "w\<lparr>rs := (rs w)\<lparr>step := S10b, updatedAt := clock env (hist w)\<rparr>\<rparr>"
  from w have "calm user m A ?v" by simp
  from journal_ci [OF coop this] obtain c w' where c: "ci_status c = Succeeded"
    and j: "journal env t (NStep S10b k) ?v = (Returned (), w')"
    and w': "ciResults (ib w') = [c] \<and> calm user m A (w'\<lparr>ib := (ib w')\<lparr>ciResults := []\<rparr>\<rparr>)"
    by blast
  obtain p where p: "patience env = Suc p" using coopD(1) [OF coop] by (cases "patience env") auto
  from runsD [OF runs_green_build [OF coop c] w', of p t n]
  show "\<exists>x w'. thn (goto env t S10b k) (awaitGreenBuild (patience env) env t n 0) w = (Returned x, w') \<and>
      calm user m A w' \<and> x = Ready n"
    by (simp add: thn_def bnd_def goto_calm [OF coop w] j p)
qed

lemma thn_bnd: "thn m (bnd k f) = bnd (thn m k) f"
  unfolding thn_def bnd_def [abs_def] by (rule ext) (simp split: prod.split outcome.split)

definition delivered :: "workflow_input \<Rightarrow> run_status \<Rightarrow> world \<Rightarrow> bool" where
  "delivered inp st w \<longleftrightarrow>
     (\<exists>pr. finished ({MergePullRequest (wi_ticket inp) pr, CloseTicket (wi_ticket inp)} \<union>
        {OpenPullRequest (wi_ticket inp)}) st w)"

lemma calm_after_ci:
  assumes "cooperative user env" "S10b \<notin> set gs"
  shows "runs (calm user m {OpenPullRequest (wi_ticket inp)}) (after_ci env inp gs pr (Ready n))
     (delivered inp)"
proof -
  have "runs (calm user m {OpenPullRequest (wi_ticket inp)}) (close_delivery env inp pr) (delivered inp)"
    unfolding delivered_def by (rule runs_post [OF calm_close_delivery [OF assms(1)]]) blast
  then show ?thesis
    unfolding after_ci_def eng_outcome.case
    by (auto intro!: runs_value [OF calm_pr_gates] assms)
qed

lemma calm_delivery:
  assumes "cooperative user env" "S10b \<notin> set gs" "wi_appId inp \<noteq> None"
  shows "runs (calm user m {}) (delivery_phase env inp gs) (delivered inp)"
proof -
  have "runs (calm user m {}) (pr_phase env inp gs 1) (delivered inp)"
    unfolding pr_phase_def Let_def thn_bnd [of "goto _ _ _ _"]
    by (intro step_kill step_call_new step_void runs_value [OF calm_ci])
      (use calm_after_ci [OF assms(1,2)] assms(1) in auto)
  with assms show ?thesis
    unfolding delivery_phase_def
    by (auto intro!: runs_value [OF calm_engineering_loop])
qed

lemma gatesFor_no_ci [simp]: "S10b \<notin> set (gatesFor r)"
  using gatesFor_cases by blast

definition closed_ticket :: "workflow_input \<Rightarrow> run_status \<Rightarrow> world \<Rightarrow> bool" where
  "closed_ticket inp st w \<longleftrightarrow>
     (if engineering (planFor (wi_flow inp)) then delivered inp st w
      else finished {CloseTicket (wi_ticket inp)} st w)"

lemma calm_gates_phase:
  assumes "cooperative user env" "wi_appId inp \<noteq> None"
  shows "runs (calm user m {}) (gates_phase env inp) (closed_ticket inp)"
  unfolding gates_phase_def Let_def
proof (rule step_look, rule runs_thn)
  fix v :: world
  show "runs (calm user m {}) (whenw ((if analysisGate (planFor (wi_flow inp))
        then filter (\<lambda>g. g = S4 \<or> g = S5) (gatesFor (risk (rs v))) else []) \<noteq> [])
       (moveStatus env inp MReview (mapped inp onReview))) (\<lambda>_. calm user m {})"
    unfolding moveStatus_def Let_def by (intro runs_whenw runs_call_void assms) auto
next
  fix v :: world
  show "runs (calm user m {}) (bnd (analysis_gates (if analysisGate (planFor (wi_flow inp))
        then filter (\<lambda>g. g = S4 \<or> g = S5) (gatesFor (risk (rs v))) else []) env inp)
       (\<lambda>early. case early of Some st \<Rightarrow> ret st
          | None \<Rightarrow> if \<not> engineering (planFor (wi_flow inp)) then close_analysis env inp
              else delivery_phase env inp (gatesFor (risk (rs v))))) (closed_ticket inp)"
    by (rule runs_value [OF calm_analysis_gates])
      (use calm_delivery [OF assms(1) gatesFor_no_ci assms(2)] calm_close_analysis [OF assms(1)] assms(1)
       in \<open>auto simp: closed_ticket_def [abs_def]\<close>)
qed

lemma cooperative_run:
  assumes coop: "cooperative user env" and "wi_mode inp \<noteq> HumanOnly" "wi_appId inp \<noteq> None"
  shows "\<exists>st w. ticketWorkflow env inp = (Returned st, w) \<and> closed_ticket inp st w"
proof -
  have "runs (calm user (wi_mode inp) {}) (ticket_body env inp) (closed_ticket inp)"
    unfolding ticket_body_def Let_def
  proof (rule runs_thn [where R = "calm user (wi_mode inp) {}"])
    show "runs (calm user (wi_mode inp) {})
       (look (\<lambda>w. goto env (wi_ticket inp) S0 (GWorkMode (mode (rs w)) (wi_dataClass inp))))
       (\<lambda>_. calm user (wi_mode inp) {})"
      by (intro step_look runs_goto coop) simp
  next
    have "runs (calm user (wi_mode inp) {}) (thn (intake_phase env inp) (thn (discovery_phase env inp)
        (thn (analysis_phase env inp) (gates_phase env inp)))) (closed_ticket inp)"
      by (intro runs_thn [OF calm_intake] runs_thn [OF calm_discovery] runs_thn [OF calm_analysis]
          calm_gates_phase assms)
    with assms show "runs (calm user (wi_mode inp) {}) (look (\<lambda>w. if mode (rs w) = HumanOnly
        then thn (journal env (wi_ticket inp) NHumanOnly) (handOver env (wi_ticket inp) HHumanOnly)
        else thn (intake_phase env inp) (thn (discovery_phase env inp)
          (thn (analysis_phase env inp) (gates_phase env inp))))) (closed_ticket inp)"
      by (intro step_look) simp
  qed
  moreover have "calm user (wi_mode inp) {} (suspend env (start_world env inp))"
    using coopD(12) [OF coop]
    by (simp add: suspend_def start_world_def calm_def emptyInbox_def initialRunState_def)
  ultimately show ?thesis
    unfolding ticketWorkflow_def by (rule runsD)
qed

end
