(* ===== verification/Workflow_Cost.thy ===== *)
theory Workflow_Cost
  imports Workflow_Live
begin

text \<open>
  How often an execution can ask for engineering work (\<open>runEngineering\<close>, the expensive agent
  call): \<open>costs k m\<close> bounds the number of such calls in any run of \<open>m\<close>, and the length of a
  chain of continued executions is bounded by the strikes the gates have left.
\<close>

subsection \<open>Engineering calls\<close>

fun is_engineering :: "event \<Rightarrow> bool" where
  "is_engineering (Issued (RunEngineering _ _ _ _)) \<longleftrightarrow> True"
| "is_engineering _ \<longleftrightarrow> False"

definition eng_calls :: "history \<Rightarrow> nat" where
  "eng_calls h = length (filter is_engineering h)"

lemma eng_calls_simps [simp]:
  "eng_calls [] = 0" "eng_calls (es @ h) = eng_calls es + eng_calls h"
  "eng_calls (e # h) = (if is_engineering e then 1 else 0) + eng_calls h"
  by (simp_all add: eng_calls_def)

lemma eng_calls_delivered [simp]: "eng_calls (map Delivered sgs) = 0"
  by (induction sgs) simp_all

lemma eng_calls_rev [simp]: "eng_calls (rev h) = eng_calls h"
  by (simp add: eng_calls_def flip: rev_filter)

definition costs :: "nat \<Rightarrow> 'a wf \<Rightarrow> bool" where
  "costs k m \<longleftrightarrow> (\<forall>w. \<exists>es. hist (snd (m w)) = es @ hist w \<and> eng_calls es \<le> k)"

named_theorems wf_costs \<open>bounds on the engineering calls\<close>

lemma costs_mono: "costs k m \<Longrightarrow> k \<le> n \<Longrightarrow> costs n m"
  unfolding costs_def by (meson le_trans)

lemma costs_emits:
  assumes "emits K m" "KEngineering \<notin> K"
  shows "costs k m"
  unfolding costs_def
proof
  fix w
  obtain es where es: "hist (snd (m w)) = es @ hist w" "list_all (ev_in K) es"
    using assms(1) by (rule emitsD)
  have "\<not> is_engineering e" if "ev_in K e" for e
    using that assms(2) by (cases e rule: is_engineering.cases) auto
  with es(2) have "filter is_engineering es = []"
    by (auto simp: filter_empty_conv list_all_iff)
  then have "eng_calls es = 0" by (simp add: eng_calls_def)
  with es(1) show "\<exists>es. hist (snd (m w)) = es @ hist w \<and> eng_calls es \<le> k" by simp
qed

lemma costs_bnd:
  assumes "costs j m" "\<And>x. costs k (f x)"
  shows "costs (j + k) (bnd m f)"
  unfolding costs_def
proof
  fix w
  obtain r w' where m: "m w = (r, w')" by (cases "m w")
  obtain es where es: "hist w' = es @ hist w" "eng_calls es \<le> j"
    using assms(1) m unfolding costs_def by (metis snd_conv)
  show "\<exists>es. hist (snd (bnd m f w)) = es @ hist w \<and> eng_calls es \<le> j + k"
  proof (cases r)
    case (Returned x)
    obtain fs where "hist (snd (f x w')) = fs @ hist w'" "eng_calls fs \<le> k"
      using assms(2) unfolding costs_def by metis
    with es m Returned show ?thesis by (intro exI [of _ "fs @ es"]) (simp add: bnd_def)
  qed (use m es in \<open>auto simp: bnd_def\<close>)
qed

text \<open>The same, with the cost of the first part already known to be nothing.\<close>

lemma costs_bnd0: "costs 0 m \<Longrightarrow> (\<And>x. costs k (f x)) \<Longrightarrow> costs k (bnd m f)"
  using costs_bnd [of 0 m k f] by simp

lemma costs_thn0: "costs 0 m \<Longrightarrow> costs k n \<Longrightarrow> costs k (thn m n)"
  by (simp add: thn_def costs_bnd0)

lemma costs_look: "(\<And>w. costs k (f w)) \<Longrightarrow> costs k (look f)"
  by (simp add: costs_def look_def)

lemma costs_prims [wf_costs]: "costs k (ret x)" "costs k parked" "costs k (upd_rs f)"
  "costs k (upd_ib g)" "costs k (strike at)" "costs k (continueRun inp)"
  by (simp_all add: costs_def ret_def parked_def upd_rs_def upd_ib_def strike_def countRejection_def
      Let_def continueRun_def)

lemma costs_call [wf_costs]:
  assumes "\<not> is_engineering (Issued a) \<or> 1 \<le> k"
  shows "costs k (call env a resp wrap)"
  using assms by (auto simp: costs_def call_def Let_def log_def hist_suspend rev_map)

lemma costs_free [wf_costs]:
  "costs k (goto env t s n)" "costs k (journal env t j)" "costs k (awaitGate env t g)"
  "costs k (handOver env t r)" "costs k (moveStatus env inp at st)" "costs k (assertNotKilled env t)"
  "costs k next_task" "costs k (request_changes txt)" "costs k (await_cond p env c)"
  "costs k (intake_phase env inp)" "costs k (discovery_phase env inp)"
  "costs k (analysis_phase env inp)" "costs k (analysis_gates gs env inp)"
  "costs k (close_analysis env inp)" "costs k (close_delivery env inp pr)"
  by (rule costs_emits [where K = "- {KEngineering}"], (intro wf_emits | simp)+)+

lemma costs_call_void [wf_costs]: "\<not> is_engineering (Issued a) \<Longrightarrow> costs k (call_void env a)"
  unfolding call_void_def by (simp add: costs_call)

text \<open>\<open>step\<close> rules: a free first statement, then the rest.\<close>

lemmas costs_seq = costs_thn0 costs_look costs_bnd0 [OF costs_call] costs_bnd0 [OF costs_free(3)]
  costs_bnd0 [OF costs_free(4)] costs_bnd0 [OF costs_free(7)] costs_bnd0 [OF costs_free(13)]
  costs_bnd0 [OF costs_prims(5)]

lemma costs_run_engineering [wf_costs]: "costs (Suc k) (run_engineering env t task n)"
  unfolding run_engineering_def
  by (intro costs_look costs_mono [OF costs_bnd [where j = 1 and k = 0]] costs_seq wf_costs) auto

lemma costs_bnd1: "costs 1 m \<Longrightarrow> (\<And>x. costs k (f x)) \<Longrightarrow> costs (Suc k) (bnd m f)"
  using costs_bnd [of 1 m k f] by simp

lemma costs_lap_tests: "costs k (lap_tests env t gs n)"
  unfolding lap_tests_def
  by (rule costs_bnd0) (intro costs_seq wf_costs | simp | intro conjI impI allI)+

lemma costs_lap_reviews: "costs k (lap_reviews env t gs n)"
  unfolding lap_reviews_def
  by (intro costs_seq costs_lap_tests wf_costs | simp | intro conjI impI allI)+

lemma costs_eng_lap: "costs 1 (eng_lap env t gs n)"
  unfolding eng_lap_def One_nat_def
  by (rule costs_thn0, rule costs_free, rule costs_bnd0, rule costs_free, rule costs_bnd1,
      simp add: costs_run_engineering [of 0, simplified])
    (intro costs_seq costs_lap_reviews wf_costs | simp | intro conjI impI allI)+

lemma costs_engineering_loop: "costs (3 - k) (runEngineeringLoop env t gs k)"
proof (induction k rule: engineering_loop_induct)
  case (lap k)
  show ?case
  proof (cases "k + 1 > MAX_GATE_REJECTIONS")
    case True
    then show ?thesis by (simp add: runEngineeringLoop.simps [of env t gs k] wf_costs)
  next
    case False
    then have k: "3 - k = Suc (3 - (k + 1))" by (simp add: MAX_GATE_REJECTIONS_def)
    show ?thesis
      unfolding k runEngineeringLoop.simps [of env t gs k] Let_def
      using lap False by (auto intro!: costs_bnd1 costs_eng_lap wf_costs split: lap.split)
  qed
qed

lemma costs_green_build: "costs (3 - k) (awaitGreenBuild n env t a k)"
proof (induction n arbitrary: k)
  case 0
  show ?case by (simp add: wf_costs)
next
  case (Suc n)
  have again: "costs (3 - k) (bnd (run_engineering env t TaskCiFix m) (\<lambda>fx.
      if \<not> er_ok fx \<and> er_handoverReason fx \<noteq> None then ret (f fx)
      else awaitGreenBuild n env t a (k + 1)))" if "\<not> k + 1 > MAX_GATE_REJECTIONS" for m f
  proof -
    have k: "3 - k = Suc (3 - (k + 1))" using that by (simp add: MAX_GATE_REJECTIONS_def)
    show ?thesis
      unfolding k
      by (rule costs_bnd1) (use Suc [of "k + 1"] costs_run_engineering [of 0] in \<open>auto intro: wf_costs\<close>)
  qed
  show ?case
    unfolding awaitGreenBuild.simps
    by (auto intro!: costs_seq wf_costs Suc again [unfolded not_None_eq] split: list.split)
qed

lemma costs_pr_gates: "costs 1 (pr_gates gs env inp k)"
proof (induction gs)
  case Nil
  show ?case by (simp add: wf_costs)
next
  case (Cons g gs)
  have "costs 1 (bnd (run_engineering env t task n) (\<lambda>fx.
      if \<not> er_ok fx \<and> er_handoverReason fx \<noteq> None
      then bnd (handOver env t (r fx)) (\<lambda>st. ret (Some st)) else continueRun inp))" for t task n r
    unfolding One_nat_def by (rule costs_bnd1) (auto intro!: costs_seq wf_costs)
  with Cons show ?case
    by (auto simp: Let_def intro!: costs_seq wf_costs)
qed

lemma costs_after_ci: "costs 1 (after_ci env inp gs pr green)"
proof -
  have "costs (1 + 0) (bnd (pr_gates gs' env inp n)
      (\<lambda>early. case early of Some st \<Rightarrow> ret st | None \<Rightarrow> close_delivery env inp pr))" for gs' n
    by (rule costs_bnd [OF costs_pr_gates]) (simp add: wf_costs split: option.split)
  then show ?thesis unfolding after_ci_def by (simp add: wf_costs split: eng_outcome.split)
qed

lemma costs_delivery: "costs 7 (delivery_phase env inp gs)"
proof -
  have ci: "costs (3 + 1) (bnd (awaitGreenBuild n env t a 0) (after_ci env inp gs pr))" for n t a pr
    using costs_green_build [of 0] by (intro costs_bnd costs_after_ci) simp
  have pr: "costs 4 (pr_phase env inp gs n)" for n
    unfolding pr_phase_def Let_def using ci by (intro costs_seq wf_costs) auto
  have "costs (3 + 4) (bnd (runEngineeringLoop env t gs 0)
      (\<lambda>built. case built of HandoverBecause r \<Rightarrow> handOver env t r | Ready n \<Rightarrow> pr_phase env inp gs n))" for t
    using costs_engineering_loop [of 0]
    by (intro costs_bnd) (auto intro: pr wf_costs split: eng_outcome.split)
  then show ?thesis
    unfolding delivery_phase_def by (auto intro: wf_costs split: option.split)
qed

lemma costs_ticket_body: "costs 7 (ticket_body env inp)"
proof -
  have "costs 7 (gates_phase env inp)"
    unfolding gates_phase_def Let_def whenw_def
    by (auto intro!: costs_seq wf_costs costs_delivery split: option.split)
  then show ?thesis
    unfolding ticket_body_def Let_def by (auto intro!: costs_seq wf_costs)
qed

lemma eng_calls_ticketWorkflow: "eng_calls (hist (snd (ticketWorkflow env inp))) \<le> 7"
proof -
  let ?w = "suspend env (start_world env inp)"
  have "eng_calls (hist ?w) = 0" by (simp add: hist_suspend start_world_def rev_map)
  moreover obtain es where "hist (snd (ticket_body env inp ?w)) = es @ hist ?w" "eng_calls es \<le> 7"
    using costs_ticket_body unfolding costs_def by blast
  ultimately show ?thesis by (simp add: ticketWorkflow_def)
qed

subsection \<open>Chains of executions\<close>

text \<open>The strikes the gates that can be struck have left.\<close>

definition budget :: "(step_id \<Rightarrow> nat option) \<Rightarrow> nat" where
  "budget r = (\<Sum>g \<in> {S4, S5, S11, S12}. 2 - (case r g of None \<Rightarrow> 0 | Some n \<Rightarrow> n))"

lemma budget_strike:
  assumes "one_strike r i" "wi_rejectionCounts i = Some r'"
  shows "budget r' < budget r"
proof -
  from assms obtain g n where g: "g \<in> {S4, S5, S11, S12}" and n: "n < 3"
    "n = (case r g of None \<Rightarrow> 0 | Some k \<Rightarrow> k) + 1" and r': "r' = r(g \<mapsto> n)"
    unfolding one_strike_def MAX_GATE_REJECTIONS_def by auto
  show ?thesis
    unfolding budget_def r' by (rule sum_strict_mono_ex1) (use g n in auto)
qed

definition start_counts :: "workflow_input \<Rightarrow> step_id \<Rightarrow> nat option" where
  "start_counts inp = (case wi_rejectionCounts inp of None \<Rightarrow> Map.empty | Some c \<Rightarrow> c)"

lemma rejections_start [simp]: "rejections (rs (start_world env inp)) = start_counts inp"
  by (simp add: start_world_def initialRunState_def start_counts_def)

lemma continued_strike:
  assumes "fst (ticketWorkflow env inp) = Continued i"
  shows "one_strike (start_counts inp) i"
proof -
  from assms obtain w where "ticket_body env inp (suspend env (start_world env inp)) = (Continued i, w)"
    unfolding ticketWorkflow_def by (metis prod.collapse)
  with continues_ticket_body [of env inp] show ?thesis unfolding continues_def by force
qed

lemma length_run_chain: "length (run_chain n envs inp) \<le> Suc (budget (start_counts inp))"
proof (induction n arbitrary: envs inp)
  case 0
  show ?case by simp
next
  case (Suc n)
  show ?case
  proof (cases "fst (ticketWorkflow (envs 0) inp)")
    case (Continued i)
    then have "one_strike (start_counts inp) i" by (rule continued_strike)
    moreover from this have "wi_rejectionCounts i = Some (start_counts i)"
      unfolding one_strike_def start_counts_def by auto
    ultimately have "budget (start_counts i) < budget (start_counts inp)" by (rule budget_strike)
    with Suc [of "\<lambda>k. envs (Suc k)" i] Continued show ?thesis by simp
  qed simp_all
qed

lemma budget_le: "budget r \<le> 8"
  by (auto simp: budget_def intro!: order_trans [OF sum_bounded_above [where K = 2]])

end
