(* ===== verification/Workflow_Mode.thy ===== *)
theory Workflow_Mode
  imports Workflow_Cost
begin

text \<open>
  The work mode is decided at intake and never changes during a run: \<open>fixed_mode m\<close> says that
  \<open>m\<close> leaves it alone whatever signals arrive. From it: a \<open>human_only\<close> ticket is handed over
  without any agent having been called. And what a level-2 kill switch does to the next step.
\<close>

definition fixed_mode :: "'a wf \<Rightarrow> bool" where
  "fixed_mode m \<longleftrightarrow> (\<forall>w. mode (rs (snd (m w))) = mode (rs w))"

named_theorems wf_mode \<open>programs that leave the work mode alone\<close>

lemma fixed_mode_prims [wf_mode]:
  "fixed_mode (ret x)" "fixed_mode (throw e)" "fixed_mode parked" "fixed_mode (upd_ib f)"
  "fixed_mode (strike at)" "fixed_mode (continueRun inp)"
  by (simp_all add: fixed_mode_def ret_def throw_def parked_def upd_ib_def strike_def
      countRejection_def Let_def continueRun_def)

lemma fixed_mode_upd_rs [wf_mode]: "(\<And>s. mode (f s) = mode s) \<Longrightarrow> fixed_mode (upd_rs f)"
  by (simp add: fixed_mode_def upd_rs_def)

lemma fixed_mode_bnd [wf_mode]:
  assumes "fixed_mode m" "\<And>x. fixed_mode (f x)"
  shows "fixed_mode (bnd m f)"
  unfolding fixed_mode_def
proof
  fix w
  obtain r w' where m: "m w = (r, w')" by (cases "m w")
  with assms(1) have "mode (rs w') = mode (rs w)" unfolding fixed_mode_def by (metis snd_conv)
  with m assms(2) show "mode (rs (snd (bnd m f w))) = mode (rs w)"
    by (cases r) (simp_all add: bnd_def fixed_mode_def)
qed

lemma fixed_mode_thn [wf_mode]: "fixed_mode m \<Longrightarrow> fixed_mode n \<Longrightarrow> fixed_mode (thn m n)"
  by (simp add: thn_def fixed_mode_bnd)

lemma fixed_mode_whenw [wf_mode]: "fixed_mode m \<Longrightarrow> fixed_mode (whenw c m)"
  by (simp add: whenw_def fixed_mode_prims)

lemma fixed_mode_look [wf_mode]: "(\<And>w. fixed_mode (f w)) \<Longrightarrow> fixed_mode (look f)"
  by (simp add: fixed_mode_def look_def)

lemma mode_log [simp]: "mode (rs (log e w)) = mode (rs w)"
  by (simp add: log_def)

lemma fixed_mode_call [wf_mode]: "fixed_mode (call env a resp wrap)"
  by (simp add: fixed_mode_def call_def Let_def)

lemma fixed_mode_call_void [wf_mode]: "fixed_mode (call_void env a)"
  by (simp add: call_void_def fixed_mode_call)

lemma fixed_mode_journal [wf_mode]: "fixed_mode (journal env t n)"
  by (simp add: journal_def fixed_mode_call_void)

lemma fixed_mode_await_cond [wf_mode]: "fixed_mode (await_cond n env p)"
  unfolding fixed_mode_def
proof
  fix w
  show "mode (rs (snd (await_cond n env p w))) = mode (rs w)"
    by (induction n arbitrary: w) (simp_all add: await_cond.simps)
qed

lemma fixed_mode_await_timed [wf_mode]: "fixed_mode (await_timed env at p)"
  by (simp add: fixed_mode_def await_timed_def Let_def)

lemma mode_close_gate [simp]: "mode (close_gate at d s) = mode s"
  by (simp add: close_gate_def)

lemma fixed_mode_drain [wf_mode]: "fixed_mode (drain_decisions n env t at og)"
  by (induction n) (simp_all add: wf_mode,
    (intro wf_mode | simp add: decision_verdict_def Let_def
       split: list.split option.split gate_verdict.split | intro allI impI conjI)+)

lemma fixed_mode_gate_wait [wf_mode]: "fixed_mode (gate_wait n env t at og k)"
  by (induction n arbitrary: k)
    (simp_all add: wf_mode, (intro wf_mode | simp split: option.split | intro allI impI conjI)+)

lemma fixed_mode_awaitGate [wf_mode]: "fixed_mode (awaitGate env t at)"
  unfolding awaitGate_def Let_def by (intro wf_mode | simp)+

lemma fixed_mode_assertNotKilled [wf_mode]: "fixed_mode (assertNotKilled env t)"
  unfolding assertNotKilled_def by (intro wf_mode | simp | intro allI impI conjI)+

lemma fixed_mode_answerModeRequests [wf_mode]: "fixed_mode (answerModeRequests n env t)"
  by (induction n)
    (simp_all add: wf_mode, (intro wf_mode | simp split: list.split | intro allI impI conjI)+)

lemma fixed_mode_goto [wf_mode]: "fixed_mode (goto env t s n)"
  unfolding goto_def by (intro wf_mode | simp)+

lemma fixed_mode_small [wf_mode]:
  "fixed_mode (handOver env t r)" "fixed_mode (moveStatus env inp at st)"
  "fixed_mode (run_engineering env t task n)" "fixed_mode next_task" "fixed_mode (request_changes txt)"
  unfolding handOver_def moveStatus_def run_engineering_def next_task_def request_changes_def Let_def
  by (intro wf_mode | simp)+

lemma fixed_mode_write_analysis [wf_mode]: "fixed_mode (write_analysis env inp)"
  unfolding write_analysis_def by (intro wf_mode | simp split: prod.split | intro allI impI)+

lemma fixed_mode_eng_lap [wf_mode]: "fixed_mode (eng_lap env t gs k)"
  unfolding eng_lap_def lap_reviews_def lap_tests_def
  by (intro wf_mode | simp | intro allI impI conjI)+

lemma fixed_mode_engineering_loop [wf_mode]: "fixed_mode (runEngineeringLoop env t gs k)"
proof (induction k rule: engineering_loop_induct)
  case (lap k)
  then show ?case
    by (simp add: runEngineeringLoop.simps [of env t gs k] Let_def wf_mode)
      (intro wf_mode impI | simp split: lap.split | intro allI impI conjI)+
qed

lemma fixed_mode_awaitGreenBuild [wf_mode]: "fixed_mode (awaitGreenBuild n env t a k)"
  by (induction n arbitrary: k)
    (simp_all add: wf_mode, (intro wf_mode | simp split: list.split | intro allI impI conjI)+)

lemma fixed_mode_analysis_gates [wf_mode]: "fixed_mode (analysis_gates gs env inp)"
  by (induction gs) (simp_all add: Let_def wf_mode,
    (intro wf_mode | simp split: prod.split | intro allI impI conjI)+)

lemma fixed_mode_pr_gates [wf_mode]: "fixed_mode (pr_gates gs env inp k)"
  by (induction gs) (simp_all add: Let_def wf_mode,
    (intro wf_mode | simp split: prod.split | intro allI impI conjI)+)

lemma fixed_mode_phases [wf_mode]:
  "fixed_mode (intake_phase env inp)" "fixed_mode (discovery_phase env inp)"
  "fixed_mode (analysis_phase env inp)" "fixed_mode (close_analysis env inp)"
  "fixed_mode (close_delivery env inp pr)"
  unfolding intake_phase_def discovery_phase_def analysis_phase_def close_analysis_def
    close_delivery_def Let_def
  by (intro wf_mode | simp split: option.split | intro allI impI conjI)+

lemma fixed_mode_ticket_body: "fixed_mode (ticket_body env inp)"
  unfolding ticket_body_def gates_phase_def delivery_phase_def pr_phase_def after_ci_def Let_def
  by (intro wf_mode | simp split: option.split eng_outcome.split | intro allI impI conjI)+

lemma mode_start [simp]: "mode (rs (start_world env inp)) = wi_mode inp"
  by (simp add: start_world_def initialRunState_def)

lemma mode_ticketWorkflow: "mode (rs (snd (ticketWorkflow env inp))) = wi_mode inp"
  using fixed_mode_ticket_body unfolding fixed_mode_def ticketWorkflow_def by simp

subsection \<open>human_only\<close>

lemma human_only_kinds:
  assumes "wi_mode inp = HumanOnly"
  shows "issued_kinds (hist (snd (ticketWorkflow env inp))) \<subseteq> {KJournal, KHandOver}"
proof -
  let ?start = "look (\<lambda>w. goto env (wi_ticket inp) S0 (GWorkMode (mode (rs w)) (wi_dataClass inp)))"
  let ?human = "thn (journal env (wi_ticket inp) NHumanOnly) (handOver env (wi_ticket inp) HHumanOnly)"
  let ?w = "suspend env (start_world env inp)"
  have "mode (rs w') = HumanOnly" if "?start ?w = (r, w')" for r w'
    using fixed_mode_goto [unfolded fixed_mode_def, rule_format, of env "wi_ticket inp" S0
        "GWorkMode (wi_mode inp) (wi_dataClass inp)" ?w] that assms
    by (simp add: look_def)
  then have "ticketWorkflow env inp = thn ?start ?human ?w"
    unfolding ticketWorkflow_def ticket_body_def Let_def thn_def bnd_def
    by (auto simp: look_def split: prod.split outcome.split)
  moreover have "emits {KJournal, KHandOver} (thn ?start ?human)"
    by (intro wf_emits) simp_all
  ultimately show ?thesis by (simp add: issued_kinds_of)
qed

subsection \<open>The level-2 kill switch\<close>

text \<open>
  The next step is not entered: the run is cancelled, one journal line is asked for, and the
  exception (the kill switch, or the failure of that journal call) ends the execution.
\<close>

lemma goto_killed:
  assumes "killed (rs w) = Some KillAll"
  shows "\<exists>e w'. goto env t s n w = (Threw e, w') \<and> status (rs w') = Cancelled \<and>
     step (rs w') = step (rs w) \<and>
     (\<exists>sgs x. hist w' = x # map Delivered sgs @ Issued (Journal t NKillAll) # hist w \<and>
        x \<in> {Answered (Journal t NKillAll) AVoid, Rejected (Journal t NKillAll)})"
  using assms
  by (simp add: goto_def assertNotKilled_def look_def thn_def bnd_def upd_rs_def journal_def
      call_void_def call_def Let_def throw_def log_def hist_suspend rev_map)
    (metis rev_map)

subsection \<open>Draining the decisions of a gate\<close>

text \<open>
  The inner loop of \<open>awaitGate\<close> against its specification: the first queued decision that may
  close the gate closes it, everything before it is refused and taken off the queue. Stated for
  an environment in which nothing arrives meanwhile and the directory agrees.
\<close>

definition quiet :: "bool \<Rightarrow> environment \<Rightarrow> bool" where
  "quiet master env \<longleftrightarrow> deliver env = (\<lambda>_. []) \<and> rejects env = (\<lambda>_. False) \<and>
     an_bool env = (\<lambda>_. master) \<and> an_verdict env = (\<lambda>_. Accepted)"

lemma call_quiet:
  assumes "quiet m env"
  shows "call env a resp wrap w = (Returned (resp (Issued a # hist w)),
     w\<lparr>hist := Answered a (wrap (resp (Issued a # hist w))) # Issued a # hist w\<rparr>)"
  using assms by (simp add: call_def Let_def quiet_def suspend_def log_def)

text \<open>The verdict is \<open>canCloseGate\<close> with the waiver a master approver has.\<close>

lemma verdict_quiet:
  assumes "quiet m env"
  shows "\<exists>h. decision_verdict env d at og w =
     (Returned (canCloseGate d at (approvers (rs w)) m (Some og)), w\<lparr>hist := h\<rparr>)"
proof (cases "canCloseGate d at (approvers (rs w)) False (Some og) = Some SodViolation")
  case True
  with assms show ?thesis
    by (simp add: decision_verdict_def look_def bnd_def call_quiet [OF assms] ret_def quiet_def
        canCloseGate_waiver) blast
next
  case False
  then have "canCloseGate d at (approvers (rs w)) m (Some og) =
      canCloseGate d at (approvers (rs w)) False (Some og)"
    by (cases m) (simp_all add: canCloseGate_waiver)
  with False show ?thesis
    by (intro exI [of _ "hist w"]) (simp add: decision_verdict_def look_def ret_def)
qed

definition closing :: "step_id \<Rightarrow> approvers \<Rightarrow> bool \<Rightarrow> string \<Rightarrow> gate_decision \<Rightarrow> bool" where
  "closing at ap m og d \<longleftrightarrow> canCloseGate d at ap m (Some og) = None"

lemma drain_quiet:
  assumes "quiet m env" "length (decisions (ib w)) < n"
  shows "let ok = closing at (approvers (rs w)) m og in
     \<exists>w'. drain_decisions n env t at og w = (Returned (List.find ok (decisions (ib w))), w') \<and>
     decisions (ib w') = tl (dropWhile (\<lambda>d. \<not> ok d) (decisions (ib w))) \<and>
     rs w' = (case List.find ok (decisions (ib w)) of None \<Rightarrow> rs w | Some d \<Rightarrow> close_gate at d (rs w))"
  using assms(2) unfolding Let_def
proof (induction n arbitrary: w)
  case 0
  then show ?case by simp
next
  case (Suc n)
  show ?case
  proof (cases "decisions (ib w)")
    case Nil
    then show ?thesis by (simp add: look_def ret_def)
  next
    case (Cons d ds)
    let ?w = "w\<lparr>ib := (ib w)\<lparr>decisions := ds\<rparr>\<rparr>"
    obtain h where v: "decision_verdict env d at og ?w =
        (Returned (canCloseGate d at (approvers (rs w)) m (Some og)), ?w\<lparr>hist := h\<rparr>)"
      using verdict_quiet [OF assms(1), of d at og ?w] by auto
    show ?thesis
    proof (cases "canCloseGate d at (approvers (rs w)) m (Some og)")
      case None
      with Cons v assms(1) show ?thesis
        by (simp add: look_def thn_def bnd_def upd_ib_def upd_rs_def ret_def call_quiet [OF assms(1)]
            quiet_def closing_def)
    next
      case (Some r)
      obtain h' where j: "journal env t (NDecisionRefused (gd_actorUserId d) r) (?w\<lparr>hist := h\<rparr>) =
          (Returned (), ?w\<lparr>hist := h'\<rparr>)"
        by (simp add: journal_def call_void_def call_quiet [OF assms(1)])
      from Suc.IH [of "?w\<lparr>hist := h'\<rparr>"] Suc.prems Cons Some v j show ?thesis
        by (simp add: look_def thn_def bnd_def upd_ib_def closing_def cong: option.case_cong)
    qed
  qed
qed

end
