(* ===== verification/Workflow_Props.thy ===== *)
theory Workflow_Props
  imports Workflow_Mode
begin

text \<open>
  The properties of whole executions of the delivery workflow, with concrete runs that show
  their hypotheses can hold.
\<close>

subsection \<open>A run that goes through\<close>

definition sample_decision :: "decision \<Rightarrow> step_id \<Rightarrow> string \<Rightarrow> gate_decision" where
  "sample_decision d g og =
    \<lparr>gd_step = g, gd_decision = d, gd_actorUserId = ''user-'' @ step_str g, gd_actorGroup = og,
     gd_sodVerified = True, gd_signatureSeq = 1, gd_source = SrcStudio, gd_at = ''t'',
     gd_reason = Some ''ok''\<rparr>"

definition sample_ci :: "ci_status \<Rightarrow> ci_result" where
  "sample_ci st = \<lparr>ci_ticketKey = ''AB-1'', ci_adoProject = None, ci_adoRepo = None, ci_prId = 7,
     ci_buildId = 1, ci_status = st, ci_detailsUrl = None, ci_finishedAt = ''t''\<rparr>"

definition sample_pr :: pr_ref where
  "sample_pr = \<lparr>pr_adoProject = ''P'', pr_adoRepo = ''R'', pr_prId = 7\<rparr>"

definition sample_doc :: analysis_doc where
  "sample_doc = \<lparr>ad_templateVersion = ''1'', ad_language = Tr, ad_purpose = ''p'',
     ad_included = [''i''], ad_excluded = [], ad_impactMatrix = [], ad_acceptanceCriteria = [''a''],
     ad_uiApiChanges = ''u'', ad_testApproach = ''t'', ad_risk = ''r'', ad_mitigation = ''m'',
     ad_rollback = ''b'', ad_riskTier = Kritik, ad_riskReason = ''rr'', ad_clarificationsUsed = []\<rparr>"

text \<open>Every gate is decided as \<open>verdicts\<close> says while it is being opened; CI answers \<open>green\<close>.\<close>

fun sample_deliver :: "(step_id \<Rightarrow> decision) \<Rightarrow> history \<Rightarrow> signal list" where
  "sample_deliver verdicts (Issued (OpenGate t g og) # _) =
     [SigGateDecision (sample_decision (verdicts g) g og)]"
| "sample_deliver verdicts (Issued (Journal t (NStep S10b n)) # _) = [SigCiResult (sample_ci Succeeded)]"
| "sample_deliver verdicts _ = []"

fun sample_group :: "history \<Rightarrow> string" where
  "sample_group (Delivered _ # h) = sample_group h"
| "sample_group (Issued (OpenGate t g og) # _) = og"
| "sample_group _ = ''tech-leads''"

definition sample_env :: "(step_id \<Rightarrow> decision) \<Rightarrow> risk_tier \<Rightarrow> environment" where
  "sample_env verdicts r =
    \<lparr>deliver = sample_deliver verdicts, rejects = (\<lambda>_. False), clock = (\<lambda>_. ''t''),
     an_intake = (\<lambda>_. \<lparr>in_complete = True, in_question = None\<rparr>),
     an_analysis = (\<lambda>_. (sample_doc, r)), an_children = (\<lambda>_. []), an_group = sample_group,
     an_verdict = (\<lambda>_. Accepted), an_bool = (\<lambda>_. True),
     an_eng = (\<lambda>_. \<lparr>er_ok = True, er_resumeToken = ''tok'', er_changedFiles = 1,
        er_diffSummary = ''d'', er_handoverReason = None\<rparr>),
     an_scans = (\<lambda>_. [\<lparr>sr_tool = Gitleaks, sr_imageDigest = ''d'', sr_startedAt = ''t'',
        sr_finishedAt = ''t'', sr_findings = [], sr_outcome = ScanPass\<rparr>]),
     an_review = (\<lambda>_. \<lparr>rr_approved = True, rr_findings = []\<rparr>),
     an_tests = (\<lambda>_. \<lparr>tr_passed = True, tr_total = 3, tr_failed = 0, tr_coveragePct = 90\<rparr>),
     an_pr = (\<lambda>_. sample_pr), an_files = (\<lambda>_. 4), patience = 1\<rparr>"

definition sample_input :: "flow_type option \<Rightarrow> workflow_input" where
  "sample_input flow = \<lparr>wi_ticket = ''AB-1'', wi_appId = Some ''app'', wi_mode = AiAssist,
     wi_dataClass = Dahili, wi_rejectionCounts = None, wi_resumeToken = None, wi_risk = None,
     wi_flow = flow, wi_statusMap = None\<rparr>"

text \<open>
  Symbolic evaluation of a concrete run: the equations of the workflow, applied only where a
  world is given, so that the simplifier follows the order of execution.
\<close>

lemmas lazy_run =
  goto_def [THEN fun_cong] awaitGate_def [THEN fun_cong] assertNotKilled_def [THEN fun_cong]
  ticket_body_def [THEN fun_cong] intake_phase_def [THEN fun_cong] discovery_phase_def [THEN fun_cong]
  analysis_phase_def [THEN fun_cong] gates_phase_def [THEN fun_cong] write_analysis_def [THEN fun_cong]
  moveStatus_def [THEN fun_cong] whenw_def [THEN fun_cong] decision_verdict_def [THEN fun_cong]
  thn_def [THEN fun_cong] journal_def [THEN fun_cong] call_void_def [THEN fun_cong]
  drain_decisions.simps [THEN fun_cong] gate_wait.simps [THEN fun_cong]
  answerModeRequests.simps [THEN fun_cong] analysis_gates.simps [THEN fun_cong]
  bnd_def ret_def look_def upd_rs_def upd_ib_def call_def suspend_def log_def receive_def
  await_timed_def continueRun_def strike_def

abbreviation run_hist :: "environment \<Rightarrow> workflow_input \<Rightarrow> history" where
  "run_hist env inp \<equiv> hist (snd (ticketWorkflow env inp))"

definition approving :: environment where
  "approving = sample_env (\<lambda>_. Approve) Kritik"

lemma sample_deliver_quiet:
  "\<not> noisy a \<Longrightarrow> sample_deliver v (Issued a # h) = []"
proof (cases a)
  case (Journal t n)
  assume "\<not> noisy a"
  with Journal show ?thesis
    by (cases n) (simp_all, rename_tac s k, case_tac s, simp_all)
qed simp_all

lemma approving_cooperative: "cooperative (\<lambda>g. ''user-'' @ step_str g) approving"
  by (simp add: cooperative_def approving_def sample_env_def sample_deliver_quiet sample_ci_def
      good_decision_def sample_decision_def)

lemma sample_input_simps [simp]:
  "wi_mode (sample_input f) = AiAssist" "wi_appId (sample_input f) = Some ''app''"
  "wi_flow (sample_input f) = f" "wi_ticket (sample_input f) = ''AB-1''"
  "wi_risk (sample_input f) = None" "wi_rejectionCounts (sample_input f) = None"
  by (simp_all add: sample_input_def)

lemma approving_requests:
  "\<exists>pr. Issued (MergePullRequest ''AB-1'' pr) \<in> set (run_hist approving (sample_input None))"
  "Issued (OpenPullRequest ''AB-1'') \<in> set (run_hist approving (sample_input None))"
  using cooperative_run [OF approving_cooperative, of "sample_input None"]
  by (auto simp: closed_ticket_def delivered_def finished_def)

subsection \<open>Merging and opening a pull request\<close>

text \<open>The gates of a tier a flow does not stop at: the correction flow skips the analysis and scenario gates.\<close>

definition waived :: "workflow_input \<Rightarrow> step_id set" where
  "waived inp = (if wi_flow inp = Some Duzeltme then {S4, S5} else {})"

lemma gate_done_passed:
  "gate_done inp g h \<Longrightarrow> engineering (planFor (wi_flow inp)) \<Longrightarrow> g \<notin> waived inp \<Longrightarrow> passed (wi_ticket inp) g h"
  by (cases "wi_flow inp") (auto simp: gate_done_def waived_def planFor_def split: flow_type.splits if_splits)

lemma ready_passed:
  "merge_ready inp pr h \<Longrightarrow> \<exists>r. analysed inp r h \<and> (\<forall>g \<in> set (gatesFor r) - waived inp. passed (wi_ticket inp) g h)"
  "pr_ready inp h \<Longrightarrow>
     \<exists>r. analysed inp r h \<and> (\<forall>g \<in> set (gatesFor r) \<inter> {S4, S5, S9} - waived inp. passed (wi_ticket inp) g h)"
  using gate_done_passed by (auto simp: merge_ready_def pr_ready_def)

text \<open>
  C1: Whatever the environment does, a merge is asked for only after, in the same execution, the
  kill switch was checked, the flow is one that engineers, an analysis fixed the risk tier, every
  human gate of that tier was approved by a verified decision that arrived as a signal and that
  the directory accepted (in the correction flow, and only there, gates 4 and 5 do not apply), one
  lap of scans, both reviews and tests was green, a green build of verified origin arrived, and
  the pull request merged is the one this execution opened.
\<close>

theorem merge_lawful:
  assumes "run_hist env inp = later @ Issued (MergePullRequest t pr) # before"
  shows "t = wi_ticket inp \<and> merge_ready inp pr before \<and>
    (\<exists>r. analysed inp r before \<and> (\<forall>g \<in> set (gatesFor r) - waived inp. passed (wi_ticket inp) g before))"
proof -
  have "lawful inp (run_hist env inp)"
    using ticketWorkflow_inv [of inp env] by (simp add: wf_inv_def)
  with assms have "t = wi_ticket inp \<and> merge_ready inp pr before" by (auto dest: lawful_split)
  with ready_passed(1) show ?thesis by blast
qed

theorem merge_lawful_witness:
  "\<exists>later pr before. run_hist approving (sample_input None) =
     later @ Issued (MergePullRequest ''AB-1'' pr) # before \<and> merge_ready (sample_input None) pr before"
proof -
  obtain pr where "Issued (MergePullRequest ''AB-1'' pr) \<in> set (run_hist approving (sample_input None))"
    using approving_requests(1) by blast
  then obtain later before where
    h: "run_hist approving (sample_input None) = later @ Issued (MergePullRequest ''AB-1'' pr) # before"
    by (metis split_list)
  from merge_lawful [OF h] h show ?thesis by blast
qed

text \<open>
  C2: Likewise a pull request is opened only with the kill switch checked, an application, a green
  engineering lap behind it and, of the gates of its tier, 4, 5 and 9 each approved by a verified
  decision; the correction flow, and only that one, does not stop at gates 4 and 5.
\<close>

theorem pull_request_lawful:
  assumes "run_hist env inp = later @ Issued (OpenPullRequest t) # before"
  shows "t = wi_ticket inp \<and> pr_ready inp before \<and>
    (\<exists>r. analysed inp r before \<and>
       (\<forall>g \<in> set (gatesFor r) \<inter> {S4, S5, S9} - waived inp. passed (wi_ticket inp) g before))"
proof -
  have "lawful inp (run_hist env inp)"
    using ticketWorkflow_inv [of inp env] by (simp add: wf_inv_def)
  with assms have "t = wi_ticket inp \<and> pr_ready inp before" by (auto dest: lawful_split)
  with ready_passed(2) show ?thesis by blast
qed

theorem pull_request_lawful_witness:
  "\<exists>later before. run_hist approving (sample_input None) =
     later @ Issued (OpenPullRequest ''AB-1'') # before \<and> pr_ready (sample_input None) before"
proof -
  obtain later before where
    h: "run_hist approving (sample_input None) = later @ Issued (OpenPullRequest ''AB-1'') # before"
    using approving_requests by (meson split_list)
  from pull_request_lawful [OF h] h show ?thesis by blast
qed

subsection \<open>The workflow reaches its end\<close>

text \<open>
  C3: In an environment that cooperates (no activity fails, the analysis is complete, scans,
  reviews and tests pass, each gate is approved by its own approver with the group the gate was
  opened against, CI is green) an execution returns Done for every ticket, risk tier and flow
  that has an application and may use agents: the engineering flows with the pull request opened,
  merged and the ticket closed, the analysis flow with the ticket closed.
\<close>

theorem delivery_completes:
  assumes "cooperative user env" "wi_mode inp \<noteq> HumanOnly" "wi_appId inp \<noteq> None"
  shows "\<exists>st w. ticketWorkflow env inp = (Returned st, w) \<and> closed_ticket inp st w"
  using assms by (rule cooperative_run)

theorem delivery_completes_witness:
  "\<exists>st w. ticketWorkflow approving (sample_input (Some Duzeltme)) = (Returned st, w) \<and>
     closed_ticket (sample_input (Some Duzeltme)) st w"
  using delivery_completes [OF approving_cooperative, of "sample_input (Some Duzeltme)"] by simp

subsection \<open>Four eyes\<close>

definition approvals_recorded :: "string \<Rightarrow> world \<Rightarrow> bool" where
  "approvals_recorded t w \<longleftrightarrow>
     (\<forall>g u. approvers (rs w) g = Some u \<longrightarrow> approved_by t g u (hist w))"

text \<open>
  C4: At the end of any execution, one person stands as approver of both gates of a four-eyes
  pair (4 and 5, 9 and 11) only if the directory confirmed them as master approver, and every
  approver the state holds gave a verified approval that was delivered as a signal and accepted
  by the directory.
\<close>

theorem four_eyes_kept:
  "four_eyes (approvers (rs (snd (ticketWorkflow env inp)))) (run_hist env inp) \<and>
   approvals_recorded (wi_ticket inp) (snd (ticketWorkflow env inp))"
  using ticketWorkflow_inv [of inp env] by (simp add: wf_inv_def approvals_recorded_def)

subsection \<open>Flows and modes\<close>

text \<open>
  C5: The analysis flow never runs engineering, opens or merges a pull request or builds an
  evidence package, whatever the environment does.
\<close>

theorem analysis_flow_never_codes:
  "issued_kinds (run_hist env (inp\<lparr>wi_flow := Some Analiz\<rparr>)) \<inter> code_kinds = {}"
  using issued_kinds_of [OF emits_analiz, of "inp\<lparr>wi_flow := Some Analiz\<rparr>" env]
  unfolding ticketWorkflow_def by auto

text \<open>
  The work mode an execution ends with is the one it was started with, whatever mode-change
  signals arrive, and a human_only execution calls nothing but the journal and the handover.
\<close>

theorem mode_fixed_at_intake:
  "mode (rs (snd (ticketWorkflow env inp))) = wi_mode inp \<and>
   issued_kinds (run_hist env (inp\<lparr>wi_mode := HumanOnly\<rparr>)) \<subseteq> {KJournal, KHandOver}"
  using mode_ticketWorkflow [of env inp] human_only_kinds [of "inp\<lparr>wi_mode := HumanOnly\<rparr>" env]
  by simp

subsection \<open>Bounds\<close>

text \<open>
  C6: continueAsNew cannot go on for ever: a chain of executions, each in its own environment,
  is never longer than nine, because every continuation costs a gate one of the two rejections
  it may take before the ticket is handed over, and the counters survive the continuation.
\<close>

theorem run_chain_bounded: "length (run_chain n envs inp) \<le> 9"
  using length_run_chain [of n envs inp] budget_le [of "start_counts inp"] by simp

text \<open>
  C7: One execution asks for at most seven engineering rounds: three laps, three CI repairs and
  one answer to a rejected pull request.
\<close>

theorem engineering_bounded: "eng_calls (run_hist env inp) \<le> 7"
  by (rule eng_calls_ticketWorkflow)

text \<open>
  What a continued execution is started with: the rejection counters of exactly one of the
  four gates went up by one and stay below the limit; nothing else of them changed.
\<close>

theorem continuation_counts_one_rejection:
  assumes "fst (ticketWorkflow env inp) = Continued next"
  shows "one_strike (start_counts inp) next"
  using assms by (rule continued_strike)

definition rejecting :: environment where
  "rejecting = sample_env (\<lambda>_. Reject) Dusuk"

lemma rejecting_simps [simp]:
  "deliver rejecting = sample_deliver (\<lambda>_. Reject)" "rejects rejecting h = False"
  "clock rejecting h = ''t''" "an_intake rejecting h = \<lparr>in_complete = True, in_question = None\<rparr>"
  "an_analysis rejecting h = (sample_doc, Dusuk)" "an_children rejecting h = []"
  "an_group rejecting = sample_group" "an_verdict rejecting h = Accepted" "patience rejecting = Suc 0"
  by (simp_all add: rejecting_def sample_env_def)

lemma rejecting_continues:
  "\<exists>i w. ticketWorkflow rejecting (sample_input None) = (Continued i, w)"
  by (simp add: ticketWorkflow_def start_world_def initialRunState_def Let_def lazy_run
      sample_input_def mapped_def emptyInbox_def countRejection_def canCloseGate_def
      sample_decision_def close_gate_def gatesFor_def MAX_GATE_REJECTIONS_def or_empty_def
      del: await_cond.simps drain_decisions.simps gate_wait.simps answerModeRequests.simps
        analysis_gates.simps pr_gates.simps awaitGreenBuild.simps)

theorem continuation_counts_one_rejection_witness:
  "\<exists>i. fst (ticketWorkflow rejecting (sample_input None)) = Continued i \<and>
     one_strike (start_counts (sample_input None)) i"
proof -
  obtain i w where "ticketWorkflow rejecting (sample_input None) = (Continued i, w)"
    using rejecting_continues by blast
  then have c: "fst (ticketWorkflow rejecting (sample_input None)) = Continued i" by simp
  from continuation_counts_one_rejection [OF c] c show ?thesis by blast
qed

text \<open>
  C8: With the level-2 kill switch on, entering a step does not enter it: the run is cancelled,
  the step unchanged, one journal line is all that was asked for, and an exception ends it.
\<close>

theorem kill_switch_stops:
  assumes "killed (rs w) = Some KillAll"
  shows "\<exists>e w'. goto env t s n w = (Threw e, w') \<and> status (rs w') = Cancelled \<and>
     step (rs w') = step (rs w) \<and>
     (\<exists>sgs x. hist w' = x # map Delivered sgs @ Issued (Journal t NKillAll) # hist w \<and>
        x \<in> {Answered (Journal t NKillAll) AVoid, Rejected (Journal t NKillAll)})"
  using assms by (rule goto_killed)

definition killed_world :: world where
  "killed_world = receive (SigKillSwitch \<lparr>ks_level = KillAll, ks_actor = ''a'', ks_reason = ''r'',
     ks_at = ''t''\<rparr>) (start_world approving (sample_input None))"

theorem kill_switch_stops_witness:
  "\<exists>e w'. goto approving ''AB-1'' S6a (GDevRound 1) killed_world = (Threw e, w') \<and>
     status (rs w') = Cancelled"
  using kill_switch_stops [of killed_world approving "''AB-1''" S6a "GDevRound 1"]
  by (auto simp: killed_world_def receive_def)

subsection \<open>Gates\<close>

text \<open>
  Draining the decisions queued at a gate gives the first decision that canCloseGate accepts
  (with the waiver a master approver has), leaves in the queue exactly what came after it, and
  changes the run state only by closing the gate with it; when none is acceptable the whole
  queue is answered and the gate stays open.
\<close>

theorem drain_closes_with_first_acceptable:
  assumes "quiet m env" "length (decisions (ib w)) < n"
  shows "let ok = closing at (approvers (rs w)) m og in
     \<exists>w'. drain_decisions n env t at og w = (Returned (List.find ok (decisions (ib w))), w') \<and>
     decisions (ib w') = tl (dropWhile (\<lambda>d. \<not> ok d) (decisions (ib w))) \<and>
     rs w' = (case List.find ok (decisions (ib w)) of None \<Rightarrow> rs w | Some d \<Rightarrow> close_gate at d (rs w))"
  using assms by (rule drain_quiet)

definition queue_world :: world where
  "queue_world = (let w = start_world approving (sample_input None) in
     w\<lparr>ib := (ib w)\<lparr>decisions := [sample_decision Approve S4 ''tech-leads'',
        sample_decision Approve S5 ''qa'', sample_decision Approve S5 ''tech-leads'',
        sample_decision Reject S5 ''qa'']\<rparr>\<rparr>)"

theorem drain_closes_with_first_acceptable_witness:
  "\<exists>w'. drain_decisions 5 (approving\<lparr>deliver := (\<lambda>_. []), an_bool := (\<lambda>_. False)\<rparr>) ''AB-1'' S5
      ''tech-leads'' queue_world = (Returned (Some (sample_decision Approve S5 ''tech-leads'')), w') \<and>
     decisions (ib w') = [sample_decision Reject S5 ''qa'']"
proof -
  have "quiet False (approving\<lparr>deliver := (\<lambda>_. []), an_bool := (\<lambda>_. False)\<rparr>)"
    by (simp add: quiet_def approving_def sample_env_def)
  moreover have "length (decisions (ib queue_world)) < 5"
    by (simp add: queue_world_def Let_def)
  ultimately show ?thesis
    using drain_closes_with_first_acceptable [where m = False and n = 5 and w = queue_world
        and at = S5 and og = "''tech-leads''" and t = "''AB-1''"]
    by (fastforce simp: queue_world_def Let_def closing_def canCloseGate_def sample_decision_def
        start_world_def initialRunState_def)
qed

end
