(* ===== verification/Canonical.thy ===== *)
theory Canonical
  imports Prelude "HOL-Library.Word" "HOL-Library.List_Lexorder"
begin

text \<open>
  The canonical writer of the audit trail, \<open>packages/audit/src/canonical.ts\<close>: JSON with sorted
  keys, no white space and the field separator escaped. Strings are the UTF-16 code units the
  source works on. A finite number is the pair its ECMAScript \<open>Number::toString\<close> is defined from:
  the shortest decimal digits and the position of the decimal point (both zeros print alike and
  are one value here). Cyclic values have no counterpart: a value is a finite tree.
\<close>

type_synonym unit16 = "16 word"
type_synonym units = "unit16 list"

subsection \<open>ASCII text as code units\<close>

definition u16 :: "char \<Rightarrow> unit16" where
  "u16 c = word_of_nat (of_char c)"

definition asc :: "string \<Rightarrow> units" where
  "asc s = map u16 s"

lemma unat_u16 [simp]: "unat (u16 c) = of_char c"
proof -
  have "of_char c < (65536 :: nat)"
    using nat_of_char_less_256 [of c] by linarith
  then show ?thesis by (simp add: u16_def unat_of_nat)
qed

lemma u16_inj [simp]: "u16 c = u16 d \<longleftrightarrow> c = d"
  by (metis unat_u16 of_char_eq_iff)

lemma asc_simps [simp]:
  "asc [] = []" "asc (c # s) = u16 c # asc s" "asc (s @ t) = asc s @ asc t" "length (asc s) = length s"
  by (simp_all add: asc_def)

lemma asc_inj [simp]: "asc s = asc t \<longleftrightarrow> s = t"
  unfolding asc_def by (metis list.inj_map_strong u16_inj)

lemma set_asc: "set (asc s) = u16 ` set s"
  by (simp add: asc_def)

subsection \<open>JSON.stringify on a string\<close>

definition hex_digit :: "nat \<Rightarrow> unit16" where
  "hex_digit d = (if d < 10 then word_of_nat (48 + d) else word_of_nat (87 + d))"

text \<open>\<open>\uXXXX\<close>, lower case.\<close>

definition unicode_escape :: "unit16 \<Rightarrow> units" where
  "unicode_escape u = (let n = unat u in
     [0x5C, 0x75, hex_digit (n div 4096), hex_digit (n div 256 mod 16), hex_digit (n div 16 mod 16),
      hex_digit (n mod 16)])"

definition high_surrogate :: "unit16 \<Rightarrow> bool" where
  "high_surrogate u \<longleftrightarrow> 0xD800 \<le> u \<and> u \<le> 0xDBFF"

definition low_surrogate :: "unit16 \<Rightarrow> bool" where
  "low_surrogate u \<longleftrightarrow> 0xDC00 \<le> u \<and> u \<le> 0xDFFF"

definition quote_unit :: "unit16 \<Rightarrow> units" where
  "quote_unit u =
    (if u = 0x08 then [0x5C, 0x62] else if u = 0x09 then [0x5C, 0x74]
     else if u = 0x0A then [0x5C, 0x6E] else if u = 0x0C then [0x5C, 0x66]
     else if u = 0x0D then [0x5C, 0x72] else if u = 0x22 then [0x5C, 0x22]
     else if u = 0x5C then [0x5C, 0x5C]
     else if u < 0x20 \<or> high_surrogate u \<or> low_surrogate u then unicode_escape u
     else [u])"

text \<open>A surrogate pair is one code point and stays; a lone surrogate is escaped.\<close>

fun quote_units :: "units \<Rightarrow> units" where
  "quote_units [] = []"
| "quote_units [u] = quote_unit u"
| "quote_units (u # v # r) =
    (if high_surrogate u \<and> low_surrogate v then u # v # quote_units r
     else quote_unit u @ quote_units (v # r))"

definition json_string :: "units \<Rightarrow> units" where
  "json_string s = 0x22 # quote_units s @ [0x22]"

text \<open>\<open>.replace(/\|/g, "\\u007c")\<close>\<close>

definition replace_pipe :: "units \<Rightarrow> units" where
  "replace_pipe s = concat (map (\<lambda>u. if u = 0x7C then [0x5C, 0x75, 0x30, 0x30, 0x37, 0x63] else [u]) s)"

definition escapeString :: "units \<Rightarrow> units" where
  "escapeString s = replace_pipe (json_string s)"

definition canonicalString :: "units \<Rightarrow> units" where
  "canonicalString s = escapeString s"

subsection \<open>Reading an escaped string back\<close>

text \<open>The specification side: what a JSON reader makes of the escaped form.\<close>

definition unhex :: "unit16 \<Rightarrow> nat" where
  "unhex u = (if unat u < 58 then unat u - 48 else unat u - 87)"

definition short_escape :: "unit16 \<Rightarrow> unit16" where
  "short_escape c =
    (if c = 0x62 then 0x08 else if c = 0x74 then 0x09 else if c = 0x6E then 0x0A
     else if c = 0x66 then 0x0C else if c = 0x72 then 0x0D else c)"

text \<open>Up to the closing quote: the string and what follows.\<close>

definition code_unit :: "nat \<Rightarrow> unit16" where
  "code_unit n = word_of_nat n"

fun read_string :: "units \<Rightarrow> (units \<times> units) option" where
  "read_string [] = None"
| "read_string (c # r) =
    (if c = 0x22 then Some ([], r)
     else if c = 0x5C then
       (case r of
          [] \<Rightarrow> None
        | e # r1 \<Rightarrow>
            (if e = 0x75 then
               (case r1 of
                  a # b # c # d # r2 \<Rightarrow>
                    map_option (map_prod ((#) (code_unit (unhex a * 4096 + unhex b * 256 + unhex c * 16 + unhex d))) id)
                      (read_string r2)
                | _ \<Rightarrow> None)
             else map_option (map_prod ((#) (short_escape e)) id) (read_string r1)))
     else map_option (map_prod ((#) c) id) (read_string r))"

lemma hex_digit_props:
  assumes "d < 16"
  shows "unhex (hex_digit d) = d" "hex_digit d \<noteq> 0x7C" "hex_digit d \<noteq> 0x22" "hex_digit d \<noteq> 0x5C"
proof -
  have "list_all (\<lambda>d. unhex (hex_digit d) = d \<and> hex_digit d \<noteq> 0x7C \<and> hex_digit d \<noteq> 0x22 \<and>
      hex_digit d \<noteq> 0x5C) [0..<16]"
    by code_simp
  with assms show "unhex (hex_digit d) = d" "hex_digit d \<noteq> 0x7C" "hex_digit d \<noteq> 0x22"
    "hex_digit d \<noteq> 0x5C"
    by (simp_all add: list_all_iff)
qed

lemma horner4:
  "a * 16 + x = n \<Longrightarrow> b * 16 + y = a \<Longrightarrow> c * 16 + z = b \<Longrightarrow>
     c * 4096 + z * 256 + y * 16 + x = (n :: nat)"
  by simp

lemma hex4: "n div 4096 * 4096 + n div 256 mod 16 * 256 + n div 16 mod 16 * 16 + n mod 16 = (n :: nat)"
proof -
  have "n div 256 = n div 16 div 16" "n div 4096 = n div 16 div 16 div 16"
    by (simp_all add: div_mult2_eq [symmetric])
  then show ?thesis
    using horner4 [OF div_mult_mod_eq [of n 16] div_mult_mod_eq div_mult_mod_eq] by presburger
qed

lemma unat_unit16 [simp]: "unat (u :: unit16) < 65536"
  using unsigned_less [of u] by simp

lemma code_unit_unat [simp]: "code_unit (unat u) = u"
  by (simp add: code_unit_def)

lemma unat_div_4096: "unat (u :: unit16) div 4096 < 16"
  by (rule less_mult_imp_div_less) simp

lemma read_unicode_escape:
  "read_string (unicode_escape u @ r) = map_option (map_prod ((#) u) id) (read_string r)"
  by (simp add: unicode_escape_def Let_def hex_digit_props unat_div_4096 hex4 code_unit_unat)

text \<open>Both escaping stages at once.\<close>

definition esc_unit :: "unit16 \<Rightarrow> units" where
  "esc_unit u = (if u = 0x7C then [0x5C, 0x75, 0x30, 0x30, 0x37, 0x63] else quote_unit u)"

lemma replace_pipe_simps [simp]:
  "replace_pipe [] = []" "replace_pipe (xs @ ys) = replace_pipe xs @ replace_pipe ys"
  "u \<noteq> 0x7C \<Longrightarrow> replace_pipe (u # xs) = u # replace_pipe xs"
  "replace_pipe (0x7C # xs) = [0x5C, 0x75, 0x30, 0x30, 0x37, 0x63] @ replace_pipe xs"
  by (simp_all add: replace_pipe_def)

lemma replace_pipe_quote_unit: "replace_pipe (quote_unit u) = esc_unit u"
proof -
  have "replace_pipe (unicode_escape u) = unicode_escape u"
    by (simp add: unicode_escape_def Let_def hex_digit_props unat_div_4096)
  then show ?thesis by (simp add: quote_unit_def esc_unit_def high_surrogate_def low_surrogate_def)
qed

lemma read_esc_unit:
  "read_string (esc_unit u @ r) = map_option (map_prod ((#) u) id) (read_string r)"
  by (simp add: esc_unit_def quote_unit_def read_unicode_escape short_escape_def unhex_def code_unit_def)

lemma esc_unit_surrogates: "high_surrogate u \<or> low_surrogate u \<Longrightarrow> u \<notin> {0x7C, 0x22, 0x5C}"
  by (auto simp: high_surrogate_def low_surrogate_def)

lemma read_quote_units: "read_string (replace_pipe (quote_units s) @ 0x22 # r) = Some (s, r)"
proof (induction s rule: quote_units.induct)
  case (3 u v s)
  then show ?case
    using esc_unit_surrogates [of u] esc_unit_surrogates [of v]
    by (auto simp: replace_pipe_quote_unit read_esc_unit)
qed (simp_all add: replace_pipe_quote_unit read_esc_unit)

lemma escapeString_eq: "escapeString s = 0x22 # replace_pipe (quote_units s) @ [0x22]"
  by (simp add: escapeString_def json_string_def)

text \<open>An escaped string is self-delimiting, so it can be read off the front of any text.\<close>

lemma escapeString_prefix:
  assumes "escapeString s @ r = escapeString s' @ r'"
  shows "s = s' \<and> r = r'"
proof -
  have "replace_pipe (quote_units s) @ 0x22 # r = replace_pipe (quote_units s') @ 0x22 # r'"
    using assms unfolding escapeString_eq by simp
  then have "Some (s, r) = Some (s', r')"
    using read_quote_units by metis
  then show ?thesis by simp
qed

lemma escapeString_inj [simp]: "escapeString s = escapeString s' \<longleftrightarrow> s = s'"
  using escapeString_prefix [of s "[]" s' "[]"] by auto

lemma no_pipe_replace: "0x7C \<notin> set (replace_pipe s)"
  by (auto simp: replace_pipe_def)

lemma escapeString_no_pipe: "0x7C \<notin> set (escapeString s)"
  by (simp add: escapeString_def no_pipe_replace)

text \<open>No line break survives: one escaped string is one line.\<close>

lemma quote_unit_no_control: "u' \<in> set (quote_unit u) \<Longrightarrow> 0x20 \<le> u'"
proof -
  have hex: "0x20 \<le> hex_digit d" if "d < 16" for d
  proof -
    have "list_all (\<lambda>d. 0x20 \<le> hex_digit d) [0..<16]" by code_simp
    with that show ?thesis by (simp add: list_all_iff)
  qed
  assume "u' \<in> set (quote_unit u)"
  then show ?thesis
    by (auto simp: quote_unit_def unicode_escape_def Let_def hex unat_div_4096 not_less split: if_splits)
qed

subsection \<open>Numbers\<close>

text \<open>
  A finite number: zero, or sign, decimal digits without leading and trailing zeros, and the
  position \<open>n\<close> of the decimal point, the value being \<open>0.d\<^sub>1d\<^sub>2\<dots> * 10 ^ n\<close>. \<open>number_units\<close> is
  ECMAScript's \<open>Number::toString\<close>.
\<close>

datatype js_number = Zero | Decimal bool "nat list" int

definition digit_units :: "nat list \<Rightarrow> units" where
  "digit_units ds = map (\<lambda>d. word_of_nat (48 + d)) ds"

definition exponent_units :: "int \<Rightarrow> units" where
  "exponent_units e = asc ''e'' @ (if e < 0 then asc ''-'' else asc ''+'') @ asc (dec (nat \<bar>e\<bar>))"

definition magnitude_units :: "nat list \<Rightarrow> int \<Rightarrow> units" where
  "magnitude_units ds n =
    (let k = int (length ds) in
     if k \<le> n \<and> n \<le> 21 then digit_units (ds @ replicate (nat (n - k)) 0)
     else if 0 < n \<and> n \<le> 21 then digit_units (take (nat n) ds) @ asc ''.'' @ digit_units (drop (nat n) ds)
     else if -6 < n \<and> n \<le> 0 then asc ''0.'' @ digit_units (replicate (nat (- n)) 0 @ ds)
     else if k = 1 then digit_units ds @ exponent_units (n - 1)
     else digit_units (take 1 ds) @ asc ''.'' @ digit_units (drop 1 ds) @ exponent_units (n - 1))"

fun number_units :: "js_number \<Rightarrow> units" where
  "number_units Zero = asc ''0''"
| "number_units (Decimal neg ds n) = (if neg then asc ''-'' else []) @ magnitude_units ds n"

fun number_ok :: "js_number \<Rightarrow> bool" where
  "number_ok Zero \<longleftrightarrow> True"
| "number_ok (Decimal neg ds n) \<longleftrightarrow>
     ds \<noteq> [] \<and> list_all (\<lambda>d. d < 10) ds \<and> hd ds \<noteq> 0 \<and> last ds \<noteq> 0"

text \<open>Number text is read back in three parts: integer digits, fraction digits, exponent.\<close>

definition is_digit16 :: "unit16 \<Rightarrow> bool" where
  "is_digit16 u \<longleftrightarrow> 0x30 \<le> u \<and> u \<le> 0x39"

definition digit16 :: "nat \<Rightarrow> unit16" where
  "digit16 d = word_of_nat (48 + d)"

lemma digit_units_eq: "digit_units ds = map digit16 ds"
  by (simp add: digit_units_def digit16_def [abs_def])

lemma digit16_props:
  assumes "d < 10"
  shows "is_digit16 (digit16 d)" "unat (digit16 d) = 48 + d"
proof -
  have "list_all (\<lambda>d. is_digit16 (digit16 d) \<and> unat (digit16 d) = 48 + d) [0..<10]" by code_simp
  with assms show "is_digit16 (digit16 d)" "unat (digit16 d) = 48 + d"
    by (simp_all add: list_all_iff)
qed

lemma digit_units_digits: "list_all (\<lambda>d. d < 10) ds \<Longrightarrow> u \<in> set (digit_units ds) \<Longrightarrow> is_digit16 u"
  by (auto simp: digit_units_eq list_all_iff digit16_props)

lemma digit_units_inj:
  assumes "digit_units ds = digit_units ds'" "list_all (\<lambda>d. d < 10) ds" "list_all (\<lambda>d. d < 10) ds'"
  shows "ds = ds'"
proof -
  have "map unat (digit_units xs) = map (\<lambda>d. 48 + d) xs" if "list_all (\<lambda>d. d < 10) xs" for xs
    using that by (induction xs) (auto simp: digit_units_eq digit16_props)
  with assms have "map (\<lambda>d. 48 + d) ds = map (\<lambda>d. 48 + d) ds'" by metis
  then show ?thesis by (simp add: inj_map_eq_map inj_def)
qed

definition number_text :: "nat list \<Rightarrow> nat list \<Rightarrow> int option \<Rightarrow> units" where
  "number_text ip fp e = digit_units ip @ (if fp = [] then [] else u16 CHR ''.'' # digit_units fp) @
     (case e of None \<Rightarrow> [] | Some x \<Rightarrow> exponent_units x)"

lemma not_digit16 [simp]:
  "\<not> is_digit16 (u16 CHR ''.'')" "\<not> is_digit16 (u16 CHR ''e'')" "\<not> is_digit16 (u16 CHR ''-'')"
  by (simp_all add: is_digit16_def u16_def)

lemma exponent_units_inj: "exponent_units e = exponent_units e' \<Longrightarrow> e = e'"
  by (auto simp: exponent_units_def split: if_splits)

lemma exponent_units_nonempty [simp]: "exponent_units e \<noteq> []" "[] \<noteq> exponent_units e"
  by (simp_all add: exponent_units_def)

lemma digits_split:
  assumes "digit_units ds @ r = digit_units ds' @ r'" "list_all (\<lambda>d. d < 10) ds" "list_all (\<lambda>d. d < 10) ds'"
    and "r = [] \<or> \<not> is_digit16 (hd r)" "r' = [] \<or> \<not> is_digit16 (hd r')"
  shows "ds = ds' \<and> r = r'"
proof -
  have "digit_units ds = takeWhile is_digit16 (digit_units ds @ r)"
    using assms digit_units_digits by (metis takeWhile_append_stop)
  also have "\<dots> = digit_units ds'"
    unfolding assms(1) using assms digit_units_digits by (metis takeWhile_append_stop)
  finally have "digit_units ds = digit_units ds'" .
  with assms digit_units_inj show ?thesis by auto
qed

lemma number_text_inj:
  assumes eq: "number_text ip fp e = number_text ip' fp' e'"
    and ok: "list_all (\<lambda>d. d < 10) (ip @ fp)" "list_all (\<lambda>d. d < 10) (ip' @ fp')"
  shows "ip = ip' \<and> fp = fp' \<and> e = e'"
proof -
  let ?tail = "\<lambda>e. case e of None \<Rightarrow> [] | Some x \<Rightarrow> exponent_units x"
  let ?rest = "\<lambda>fp e. (if fp = [] then [] else u16 CHR ''.'' # digit_units fp) @ ?tail e"
  have tail: "?tail e = [] \<or> \<not> is_digit16 (hd (?tail e))" for e
    by (auto simp: exponent_units_def split: option.split)
  have tail_dot: "?tail e \<noteq> u16 CHR ''.'' # xs" for e xs
    by (auto simp: exponent_units_def split: option.split)
  have "ip = ip' \<and> ?rest fp e = ?rest fp' e'"
    by (rule digits_split) (use eq ok tail in \<open>auto simp: number_text_def\<close>)
  moreover have "fp = fp' \<and> ?tail e = ?tail e'" if "?rest fp e = ?rest fp' e'"
  proof (cases "fp = [] \<or> fp' = []")
    case True
    with that show ?thesis using tail_dot by (auto split: if_splits) metis+
  next
    case False
    with that have "digit_units fp @ ?tail e = digit_units fp' @ ?tail e'" by simp
    then show ?thesis by (rule digits_split) (use ok tail in auto)
  qed
  moreover have "e = e'" if "?tail e = ?tail e'"
    using that by (cases e; cases e') (auto dest: exponent_units_inj)
  ultimately show ?thesis by blast
qed

text \<open>The digits and the point position are recovered from the parts.\<close>

definition strip_zeros :: "nat list \<Rightarrow> nat list" where
  "strip_zeros ds = rev (dropWhile (\<lambda>d. d = 0) (rev (dropWhile (\<lambda>d. d = 0) ds)))"

definition leading_zeros :: "nat list \<Rightarrow> nat" where
  "leading_zeros ds = length (takeWhile (\<lambda>d. d = 0) ds)"

lemma strip_padded:
  assumes "ds \<noteq> []" "hd ds \<noteq> 0" "last ds \<noteq> 0"
  shows "strip_zeros (replicate a 0 @ ds @ replicate b 0) = ds"
    "leading_zeros (replicate a 0 @ ds @ replicate b 0) = a"
proof -
  have "dropWhile (\<lambda>d. d = 0) (replicate a 0 @ ds @ replicate b 0) = ds @ replicate b 0"
    using assms by (cases ds) (simp_all add: dropWhile_append)
  moreover have "dropWhile (\<lambda>d. d = 0) (replicate b 0 @ rev ds) = rev ds"
    using assms by (cases ds rule: rev_cases) (simp_all add: dropWhile_append)
  ultimately show "strip_zeros (replicate a 0 @ ds @ replicate b 0) = ds"
    by (simp add: strip_zeros_def)
  show "leading_zeros (replicate a 0 @ ds @ replicate b 0) = a"
    using assms by (cases ds) (simp_all add: leading_zeros_def takeWhile_append)
qed

lemma magnitude_parts:
  assumes ok: "ds \<noteq> []" "list_all (\<lambda>d. d < 10) ds" "hd ds \<noteq> 0" "last ds \<noteq> 0"
  shows "\<exists>ip fp e. magnitude_units ds n = number_text ip fp e \<and> ip \<noteq> [] \<and> list_all (\<lambda>d. d < 10) (ip @ fp) \<and>
     strip_zeros (ip @ fp) = ds \<and>
     n = int (length ip) + (case e of None \<Rightarrow> 0 | Some x \<Rightarrow> x) - int (leading_zeros (ip @ fp))"
    (is "\<exists>ip fp e. ?parts ip fp e")
proof -
  let ?k = "int (length ds)"
  have k: "\<not> ?k \<le> n" if "n \<le> 0" using that ok(1) by (cases ds) auto
  note pad = strip_padded [OF ok(1,3,4)]
  have plain: "strip_zeros ds = ds" "leading_zeros ds = 0"
    using pad [of 0 0] by simp_all
  consider (int) "?k \<le> n" "n \<le> 21" | (mid) "0 < n" "n < ?k" "n \<le> 21" | (small) "-6 < n" "n \<le> 0"
    | (e1) "\<not> (?k \<le> n \<and> n \<le> 21)" "\<not> (0 < n \<and> n \<le> 21)" "\<not> (-6 < n \<and> n \<le> 0)" "?k = 1"
    | (e) "\<not> (?k \<le> n \<and> n \<le> 21)" "\<not> (0 < n \<and> n \<le> 21)" "\<not> (-6 < n \<and> n \<le> 0)" "?k \<noteq> 1"
    by linarith
  then show ?thesis
  proof cases
    case int
    with ok pad [of 0 "nat (n - ?k)"] have "?parts (ds @ replicate (nat (n - ?k)) 0) ([]) (None)"
      by (auto simp: magnitude_units_def number_text_def Let_def list_all_iff)
    then show ?thesis by blast
  next
    case mid
    with ok plain have "?parts (take (nat n) ds) (drop (nat n) ds) (None)"
      by (auto simp: magnitude_units_def number_text_def Let_def)
    then show ?thesis by blast
  next
    case small
    with ok k pad [of "Suc (nat (- n))" 0] have "?parts ([0]) (replicate (nat (- n)) 0 @ ds) (None)"
      by (auto simp: magnitude_units_def number_text_def Let_def list_all_iff digit_units_def u16_def)
    then show ?thesis by blast
  next
    case e1
    then have "ds = [hd ds]" by (cases ds) auto
    with e1 ok plain show ?thesis
      by (intro exI [of _ ds] exI [of _ "[]"] exI [of _ "Some (n - 1)"])
        (auto simp: magnitude_units_def number_text_def Let_def)
  next
    case e
    then have "drop 1 ds \<noteq> []" "length (take 1 ds) = 1" using ok by (cases ds; auto)+
    with e ok plain have "?parts (take 1 ds) (drop 1 ds) (Some (n - 1))"
      by (auto simp: magnitude_units_def number_text_def Let_def)
    then show ?thesis by blast
  qed
qed

lemma magnitude_inj:
  assumes "magnitude_units ds n = magnitude_units ds' n'"
    and "number_ok (Decimal b ds n)" "number_ok (Decimal b' ds' n')"
  shows "ds = ds' \<and> n = n'"
proof -
  from assms(2) have "ds \<noteq> []" "list_all (\<lambda>d. d < 10) ds" "hd ds \<noteq> 0" "last ds \<noteq> 0" by simp_all
  from magnitude_parts [OF this, of n] obtain ip fp e where 1: "magnitude_units ds n = number_text ip fp e"
    "list_all (\<lambda>d. d < 10) (ip @ fp)" "strip_zeros (ip @ fp) = ds"
    "n = int (length ip) + (case e of None \<Rightarrow> 0 | Some x \<Rightarrow> x) - int (leading_zeros (ip @ fp))"
    by blast
  from assms(3) have "ds' \<noteq> []" "list_all (\<lambda>d. d < 10) ds'" "hd ds' \<noteq> 0" "last ds' \<noteq> 0" by simp_all
  from magnitude_parts [OF this, of n'] obtain ip' fp' e' where 2: "magnitude_units ds' n' = number_text ip' fp' e'"
    "list_all (\<lambda>d. d < 10) (ip' @ fp')" "strip_zeros (ip' @ fp') = ds'"
    "n' = int (length ip') + (case e' of None \<Rightarrow> 0 | Some x \<Rightarrow> x) - int (leading_zeros (ip' @ fp'))"
    by blast
  from assms(1) 1 2 number_text_inj [of ip fp e ip' fp' e'] show ?thesis by auto
qed

lemma number_text_head:
  assumes "ip \<noteq> []" "list_all (\<lambda>d. d < 10) ip"
  shows "number_text ip fp e \<noteq> []" "is_digit16 (hd (number_text ip fp e))"
  using assms by (cases ip; simp add: number_text_def digit_units_eq digit16_props)+

lemma zero_text: "asc ''0'' = number_text [0] [] None"
  by (simp add: number_text_def digit_units_def u16_def)

lemma magnitude_head:
  assumes "number_ok (Decimal b ds n)"
  shows "magnitude_units ds n \<noteq> []" "is_digit16 (hd (magnitude_units ds n))"
    "magnitude_units ds n \<noteq> asc ''0''"
proof -
  from assms have ok: "ds \<noteq> []" "list_all (\<lambda>d. d < 10) ds" "hd ds \<noteq> 0" "last ds \<noteq> 0" by simp_all
  from magnitude_parts [OF this, of n] obtain ip fp e where 1: "magnitude_units ds n = number_text ip fp e" "ip \<noteq> []"
    "list_all (\<lambda>d. d < 10) (ip @ fp)" "strip_zeros (ip @ fp) = ds" by blast
  then show "magnitude_units ds n \<noteq> []" "is_digit16 (hd (magnitude_units ds n))"
    using number_text_head [of ip fp e] by simp_all
  show "magnitude_units ds n \<noteq> asc ''0''"
    unfolding zero_text 1(1)
  proof
    assume "number_text ip fp e = number_text [0] [] None"
    with 1(3) number_text_inj [of ip fp e "[0]" "[]" None] have "ip = [0]" "fp = []" by auto
    with 1(4) ok(1) show False by (auto simp: strip_zeros_def)
  qed
qed

lemma number_units_inj:
  assumes "number_units a = number_units b" "number_ok a" "number_ok b"
  shows "a = b"
proof -
  have sign: "asc ''-'' @ xs \<noteq> ys" if "is_digit16 (hd ys)" for xs ys
    using that by (cases ys) auto
  have zero: "is_digit16 (hd (asc ''0''))" by (simp add: is_digit16_def u16_def)
  from assms show ?thesis
    using magnitude_head sign zero
    by (cases a; cases b) (auto split: if_splits dest: magnitude_inj simp: eq_commute [of "asc _"] | metis)+
qed

end
