(* ===== verification/Canonical_Writer.thy ===== *)
theory Canonical_Writer
  imports Canonical
begin

text \<open>
  \<open>canonicalize\<close> of \<open>packages/audit/src/canonical.ts\<close>: the writer itself, over the values a
  caller can pass it, and what makes its output fit for hashing: two values have the same
  canonical text exactly when they mean the same.
\<close>

subsection \<open>Values\<close>

text \<open>
  \<open>JObj\<close> is a plain object (prototype \<open>Object.prototype\<close> or null) with its own enumerable keys in
  insertion order, \<open>JInstance\<close> any other object, \<open>JDate\<close> a \<open>Date\<close> with its ISO string (\<open>None\<close>
  when it is invalid). \<open>JHole\<close> is an index an array does not have: it stands only in arrays. What
  the source never looks at is no part of a value: symbol keys, and keys of an array that are no index.
\<close>

datatype js =
    JNull | JBool bool | JStr units | JNum js_number | JNonFinite units | JBigInt | JUndefined
  | JFunction | JSymbol | JDate "units option" | JArr "js list" | JObj "(units \<times> js) list"
  | JInstance units | JHole

text \<open>The error of the source: a path and a reason.\<close>

datatype canon_reason = NonFiniteNumber units | BigIntAmbiguous | UndefinedValue | NotData
  | InvalidDate | NotPlain units

type_synonym 'a canon = "(units \<times> canon_reason) + 'a"

definition index_path :: "units \<Rightarrow> nat \<Rightarrow> units" where
  "index_path p i = p @ asc ''['' @ asc (dec i) @ asc '']''"

definition key_path :: "units \<Rightarrow> units \<Rightarrow> units" where
  "key_path p k = p @ asc ''.'' @ k"

definition entry :: "units \<Rightarrow> units canon \<Rightarrow> units canon" where
  "entry k r = (case r of Inl e \<Rightarrow> Inl e | Inr s \<Rightarrow> Inr (escapeString k @ asc '':'' @ s))"

lemma enumerate_size [termination_simp]:
  "(i, v) \<in> set (enumerate n vs) \<Longrightarrow> size v < Suc (size_list size vs)"
proof -
  assume "(i, v) \<in> set (enumerate n vs)"
  then have "v \<in> snd ` set (enumerate n vs)" by (metis image_eqI snd_conv)
  then have "v \<in> set vs" unfolding set_map [symmetric] by simp
  then show ?thesis by (simp add: le_imp_less_Suc size_list_estimation')
qed

text \<open>
  \<open>write\<close> and \<open>writeObject\<close>. The source sorts the keys and then writes the values; writing has
  no effect but its result, so the results are sorted here, which is structural recursion. \<open>map\<close>
  does not visit a hole, and \<open>join\<close> writes nothing for it.
\<close>

fun write_js :: "js \<Rightarrow> units \<Rightarrow> units canon" where
  "write_js JNull p = Inr (asc ''null'')"
| "write_js (JBool b) p = Inr (if b then asc ''true'' else asc ''false'')"
| "write_js (JStr s) p = Inr (escapeString s)"
| "write_js (JNum n) p = Inr (number_units n)"
| "write_js (JNonFinite t) p = Inl (p, NonFiniteNumber t)"
| "write_js JBigInt p = Inl (p, BigIntAmbiguous)"
| "write_js JUndefined p = Inl (p, UndefinedValue)"
| "write_js JFunction p = Inl (p, NotData)"
| "write_js JSymbol p = Inl (p, NotData)"
| "write_js (JDate None) p = Inl (p, InvalidDate)"
| "write_js (JDate (Some inst)) p = Inr (escapeString inst)"
| "write_js (JArr vs) p =
    (case all_results (map (\<lambda>(i, v). write_js v (index_path p i)) (enumerate 0 vs)) of
       Inl e \<Rightarrow> Inl e
     | Inr items \<Rightarrow> Inr (asc ''['' @ join (asc '','') items @ asc '']''))"
| "write_js (JObj kvs) p =
    (case all_results (map (\<lambda>(k, r). entry k r)
             (sort_key fst (map (\<lambda>(k, v). (k, write_js v (key_path p k))) kvs))) of
       Inl e \<Rightarrow> Inl e
     | Inr items \<Rightarrow> Inr (asc ''{'' @ join (asc '','') items @ asc ''}''))"
| "write_js (JInstance c) p = Inl (p, NotPlain c)"
| "write_js JHole p = Inr []"

definition canonicalize :: "js \<Rightarrow> units canon" where
  "canonicalize v = write_js v (asc ''$'')"

subsection \<open>Meaning\<close>

text \<open>
  What a value means to the writer: objects without their key order, dates as the instant they name.
  Numbers are already values. An array of one hole is written as the empty array is; no other array is
  confused with another.
\<close>

fun norm :: "js \<Rightarrow> js" where
  "norm (JDate (Some inst)) = JStr inst"
| "norm (JArr vs) = JArr (if vs = [JHole] then [] else map norm vs)"
| "norm (JObj kvs) = JObj (sort_key fst (map (\<lambda>(k, v). (k, norm v)) kvs))"
| "norm v = v"

text \<open>Numbers inside a value are well formed, and holes are elements of arrays.\<close>

fun js_ok :: "js \<Rightarrow> bool" where
  "js_ok (JNum n) = number_ok n"
| "js_ok (JArr vs) = list_all (\<lambda>v. v = JHole \<or> js_ok v) vs"
| "js_ok (JObj kvs) = list_all (\<lambda>(k, v). js_ok v) kvs"
| "js_ok JHole = False"
| "js_ok _ = True"

lemma insort_key_map:
  "insort_key fst (k, f k v) (map (\<lambda>(k, v). (k, f k v)) kvs) =
   map (\<lambda>(k, v). (k, f k v)) (insort_key fst (k, v) kvs)"
  by (induction kvs) auto

lemma sort_key_map: "sort_key fst (map (\<lambda>(k, v). (k, f k v)) kvs) =
   map (\<lambda>(k, v). (k, f k v)) (sort_key (fst :: 'a :: linorder \<times> 'b \<Rightarrow> 'a) kvs)"
  by (induction kvs) (auto simp: insort_key_map)

lemma sort_key_sort_key [simp]:
  "sort_key (fst :: 'a :: linorder \<times> 'b \<Rightarrow> 'a) (sort_key fst kvs) = sort_key fst kvs"
  by (rule sort_key_id_if_sorted) simp

lemma enumerate_map: "enumerate n (map f xs) = map (\<lambda>(i, x). (i, f x)) (enumerate n xs)"
  by (induction xs arbitrary: n) simp_all

text \<open>Objects, with the sorting done first.\<close>

definition entries :: "units \<Rightarrow> (units \<times> js) list \<Rightarrow> units canon list" where
  "entries p kvs = map (\<lambda>(k, v). entry k (write_js v (key_path p k))) kvs"

lemma write_obj: "write_js (JObj kvs) p =
    (case all_results (entries p (sort_key fst kvs)) of
       Inl e \<Rightarrow> Inl e
     | Inr items \<Rightarrow> Inr (asc ''{'' @ join (asc '','') items @ asc ''}''))"
proof -
  have "map (\<lambda>(k, r). entry k r) (sort_key fst (map (\<lambda>(k, v). (k, write_js v (key_path p k))) kvs)) =
      entries p (sort_key fst kvs)"
    unfolding sort_key_map entries_def by (simp add: case_prod_unfold)
  then show ?thesis by simp
qed

lemma norm_obj: "norm (JObj kvs) = JObj (map (\<lambda>(k, v). (k, norm v)) (sort_key fst kvs))"
  unfolding norm.simps sort_key_map ..

lemma sort_norm_obj:
  "sort_key fst (map (\<lambda>(k, v). (k, norm v)) (sort_key fst kvs)) = map (\<lambda>(k, v). (k, norm v)) (sort_key fst kvs)"
  unfolding sort_key_map by simp

text \<open>The meaning of a value is all the writer looks at.\<close>

lemma write_norm: "write_js (norm v) p = write_js v p"
proof (induction v p rule: write_js.induct)
  case (12 vs p)
  have "map (\<lambda>(i, v). write_js v (index_path p i)) (enumerate 0 (map norm vs)) =
      map (\<lambda>(i, v). write_js v (index_path p i)) (enumerate 0 vs)"
    unfolding enumerate_map map_map by (rule map_cong) (use 12 in auto)
  then show ?case by auto
next
  case (13 kvs p)
  have "entries p (map (\<lambda>(k, v). (k, norm v)) (sort_key fst kvs)) = entries p (sort_key fst kvs)"
    unfolding entries_def map_map by (rule map_cong) (use 13 in auto)
  then show ?case unfolding norm_obj write_obj sort_norm_obj by simp
qed simp_all

text \<open>An element of an array or object as the writer joins them.\<close>

definition delimited :: "units \<Rightarrow> bool" where
  "delimited r \<longleftrightarrow> r = [] \<or> hd r \<in> set (asc '',]}'')"

definition number_char :: "unit16 \<Rightarrow> bool" where
  "number_char u \<longleftrightarrow> is_digit16 u \<or> u \<in> set (asc ''-+.e'')"

lemma number_units_chars:
  assumes "number_ok n" "u \<in> set (number_units n)"
  shows "number_char u"
proof -
  have dec_char: "is_digit16 (u16 c)" if "c \<in> set (dec k)" for c k
    using dec_digits [OF that] by (simp add: is_digit_def is_digit16_def word_le_nat_alt)
  then have exp: "number_char u" if "u \<in> set (exponent_units e)" for u e
    using that by (auto simp: exponent_units_def number_char_def set_asc split: if_splits)
  have chars: "number_char u" if "u \<in> set (number_text ip fp e)" "list_all (\<lambda>d. d < 10) (ip @ fp)" for u ip fp e
    using that exp digit_units_digits
    by (auto simp: number_text_def number_char_def split: if_splits option.splits)
  show ?thesis
  proof (cases n)
    case Zero
    with assms show ?thesis by (auto simp: number_char_def is_digit16_def u16_def)
  next
    case (Decimal b ds k)
    with assms(1) have "ds \<noteq> []" "list_all (\<lambda>d. d < 10) ds" "hd ds \<noteq> 0" "last ds \<noteq> 0" by simp_all
    from magnitude_parts [OF this, of k] chars have "number_char u" if "u \<in> set (magnitude_units ds k)" for u
      using that by metis
    with Decimal assms(2) show ?thesis by (auto simp: number_char_def split: if_splits)
  qed
qed

lemma number_units_head: "number_ok n \<Longrightarrow> number_units n \<noteq> [] \<and> (is_digit16 (hd (number_units n)) \<or> hd (number_units n) = u16 CHR ''-'')"
  using magnitude_head by (cases n) (auto simp: is_digit16_def u16_def)

lemma number_prefix:
  assumes "number_units a @ r = number_units b @ r'" "number_ok a" "number_ok b" "delimited r" "delimited r'"
  shows "a = b \<and> r = r'"
proof -
  have stop: "r = [] \<or> \<not> number_char (hd r)" if "delimited r" for r
    using that by (auto simp: delimited_def number_char_def is_digit16_def u16_def)
  have "number_units a = takeWhile number_char (number_units a @ r)"
    using number_units_chars [OF assms(2)] stop [OF assms(4)] by (metis takeWhile_append_stop)
  also have "\<dots> = number_units b"
    unfolding assms(1) using number_units_chars [OF assms(3)] stop [OF assms(5)] by (metis takeWhile_append_stop)
  finally have eq: "number_units a = number_units b" .
  with number_units_inj [OF eq assms(2,3)] assms(1) show ?thesis by simp
qed

text \<open>
  Reading elements off a joined list: if each element determines its own end, so does the list.
\<close>

definition prefix_code :: "('a \<Rightarrow> units) \<Rightarrow> 'a set \<Rightarrow> 'a set \<Rightarrow> ('a \<Rightarrow> 'b) \<Rightarrow> bool" where
  "prefix_code out A B val \<longleftrightarrow>
     (\<forall>x \<in> A. \<forall>y \<in> B. \<forall>r r'. out x @ r = out y @ r' \<longrightarrow> delimited r \<longrightarrow> delimited r' \<longrightarrow>
        val x = val y \<and> r = r')"

lemma join_Cons: "join sep (x # xs) = x @ (if xs = [] then [] else sep @ join sep xs)"
  by (cases xs) simp_all

lemma join_some_code:
  assumes code: "prefix_code out A B val" and close: "close \<in> {u16 CHR '']'', u16 CHR ''}''}"
    and A: "set xs \<subseteq> A" "set ys \<subseteq> B" "xs \<noteq> []" "ys \<noteq> []"
    and eq: "join (asc '','') (map out xs) @ close # r = join (asc '','') (map out ys) @ close # r'"
  shows "map val xs = map val ys \<and> r = r'"
  using A eq
proof (induction xs arbitrary: ys)
  case (Cons x xs)
  then obtain y ys' where ys: "ys = y # ys'" by (cases ys) auto
  let ?rest = "\<lambda>zs r. if zs = [] then close # r else u16 CHR '','' # join (asc '','') (map out zs) @ close # r"
  have "out x @ ?rest xs r = out y @ ?rest ys' r'"
    using Cons.prems unfolding ys by (auto simp: join_Cons split: if_splits)
  moreover have "delimited (?rest zs r)" for zs r using close by (auto simp: delimited_def)
  moreover have "x \<in> A" "y \<in> B" using Cons.prems ys by auto
  ultimately have "val x = val y \<and> ?rest xs r = ?rest ys' r'"
    using code [unfolded prefix_code_def, rule_format, of x y "?rest xs r" "?rest ys' r'"] by blast
  then have xy: "val x = val y" "?rest xs r = ?rest ys' r'" by blast+
  have sep: "close \<noteq> u16 CHR '',''" using close by auto
  show ?case
  proof (cases "xs = [] \<or> ys' = []")
    case True
    with xy sep ys show ?thesis by (auto split: if_splits)
  next
    case False
    with xy have "join (asc '','') (map out xs) @ close # r = join (asc '','') (map out ys') @ close # r'"
      by simp
    with Cons.IH [of ys'] Cons.prems ys xy False show ?thesis by auto
  qed
qed simp

text \<open>An element may be empty, but not when it is the only one.\<close>

definition not_closing :: "unit16 \<Rightarrow> units list \<Rightarrow> bool" where
  "not_closing close ts \<longleftrightarrow> (\<forall>t \<in> set ts. t = [] \<or> hd t \<noteq> close) \<and> ts \<noteq> [[]]"

lemma join_not_closing:
  assumes "not_closing close ts" "ts \<noteq> []" "close \<noteq> u16 CHR '',''"
  shows "join (asc '','') ts @ q \<noteq> close # r"
proof -
  obtain t ts' where "ts = t # ts'" using assms(2) by (cases ts) auto
  then show ?thesis using assms(1,3) by (cases t) (auto simp: not_closing_def join_Cons)
qed

lemma join_code:
  assumes "prefix_code out A B val" and close: "close \<in> {u16 CHR '']'', u16 CHR ''}''}"
    and start: "not_closing close (map out xs)" "not_closing close (map out ys)"
    and "set xs \<subseteq> A" "set ys \<subseteq> B"
    and eq: "join (asc '','') (map out xs) @ close # r = join (asc '','') (map out ys) @ close # r'"
  shows "map val xs = map val ys \<and> r = r'"
proof (cases "xs = [] \<or> ys = []")
  case True
  have sep: "close \<noteq> u16 CHR '',''" using close by auto
  have "xs = [] \<and> ys = []"
    using True join_not_closing [OF start(1) _ sep, of "close # r" r'] join_not_closing [OF start(2) _ sep, of "close # r'" r] eq
    by (cases "xs = []") auto
  then show ?thesis using eq by simp
next
  case False
  then show ?thesis using join_some_code assms by blast
qed

text \<open>What the writer's text starts with.\<close>

lemma write_head:
  assumes "write_js v p = Inr s" "js_ok v"
  shows "s \<noteq> [] \<and> hd s \<notin> set (asc '']},:'')"
proof (cases v)
  case (JNum n)
  with assms number_units_head [of n] show ?thesis by (auto simp: is_digit16_def u16_def)
next
  case (JDate d)
  with assms show ?thesis by (cases d) (auto simp: escapeString_eq u16_def)
qed (use assms in \<open>auto simp: escapeString_eq u16_def split: sum.splits if_splits\<close>)

text \<open>An array or object text as the list of its elements' texts.\<close>

lemma write_arr_items:
  assumes "write_js (JArr vs) p = Inr s"
  shows "\<exists>xs. map snd xs = vs \<and> s = asc ''['' @ join (asc '','') (map fst xs) @ asc '']'' \<and>
     (\<forall>(t, v) \<in> set xs. \<exists>q. write_js v q = Inr t)"
proof -
  let ?rs = "map (\<lambda>(i, v). write_js v (index_path p i)) (enumerate 0 vs)"
  obtain items where items: "all_results ?rs = Inr items" "s = asc ''['' @ join (asc '','') items @ asc '']''"
    using assms by (auto split: sum.splits)
  then have rs: "?rs = map Inr items" by (simp add: all_results_Inr)
  have len: "length items = length vs" using arg_cong [OF rs, of length] by simp
  have "\<forall>(t, v) \<in> set (zip items vs). \<exists>q. write_js v q = Inr t"
  proof clarify
    fix t v
    assume tv: "(t, v) \<in> set (zip items vs)"
    obtain i where i: "i < length vs" "items ! i = t" "vs ! i = v"
      using tv len by (auto simp: set_zip)
    have "?rs ! i = write_js v (index_path p i)" using i by (simp add: nth_enumerate_eq)
    moreover have "map Inr items ! i = Inr t" using i len by simp
    ultimately show "\<exists>q. write_js v q = Inr t" using rs by metis
  qed
  with items(2) len show ?thesis by (intro exI [of _ "zip items vs"]) simp
qed

lemma write_obj_items:
  assumes "write_js (JObj kvs) p = Inr s"
  shows "\<exists>xs. map snd xs = sort_key fst kvs \<and> s = asc ''{'' @ join (asc '','') (map fst xs) @ asc ''}'' \<and>
     (\<forall>(t, k, v) \<in> set xs. \<exists>q u. write_js v q = Inr u \<and> t = escapeString k @ asc '':'' @ u)"
proof -
  let ?ks = "sort_key fst kvs"
  obtain items where items: "all_results (entries p ?ks) = Inr items"
    "s = asc ''{'' @ join (asc '','') items @ asc ''}''"
    using assms unfolding write_obj by (auto split: sum.splits)
  then have rs: "entries p ?ks = map Inr items" by (simp add: all_results_Inr)
  have len: "length items = length ?ks" using arg_cong [OF rs, of length] by (simp add: entries_def)
  have "\<forall>(t, k, v) \<in> set (zip items ?ks).
      \<exists>q u. write_js v q = Inr u \<and> t = escapeString k @ asc '':'' @ u"
  proof clarify
    fix t k v
    assume tv: "(t, k, v) \<in> set (zip items ?ks)"
    obtain i where i: "i < length ?ks" "items ! i = t" "?ks ! i = (k, v)"
      using tv len by (auto simp: set_zip)
    have "entries p ?ks ! i = entry k (write_js v (key_path p k))" using i by (simp add: entries_def)
    moreover have "map Inr items ! i = Inr t" using i len by simp
    ultimately have "entry k (write_js v (key_path p k)) = Inr t" using rs by metis
    then show "\<exists>q u. write_js v q = Inr u \<and> t = escapeString k @ asc '':'' @ u"
      by (auto simp: entry_def split: sum.splits)
  qed
  with items(2) len show ?thesis by (intro exI [of _ "zip items ?ks"]) simp
qed

definition self_delimiting :: "js \<Rightarrow> bool" where
  "self_delimiting v \<longleftrightarrow> (\<forall>v' p p' s s' r r'. js_ok v' \<longrightarrow> write_js v p = Inr s \<longrightarrow> write_js v' p' = Inr s' \<longrightarrow>
     s @ r = s' @ r' \<longrightarrow> delimited r \<longrightarrow> delimited r' \<longrightarrow> norm v = norm v' \<and> r = r')"

text \<open>The elements that are written: none for an array of one hole.\<close>

definition written :: "js list \<Rightarrow> js list" where
  "written vs = (if vs = [JHole] then [] else vs)"

lemma written_norm: "norm (JArr vs) = JArr (map norm (written vs))"
  by (simp add: written_def)

lemma written_arr_items:
  assumes "write_js (JArr vs) p = Inr s" "list_all (\<lambda>v. v = JHole \<or> js_ok v) vs"
  shows "\<exists>xs. map snd xs = written vs \<and> s = asc ''['' @ join (asc '','') (map fst xs) @ asc '']'' \<and>
     (\<forall>(t, v) \<in> set xs. v \<in> set vs \<and> (\<exists>q. write_js v q = Inr t)) \<and> not_closing (u16 CHR '']'') (map fst xs)"
proof (cases "vs = [JHole]")
  case True
  with assms(1) show ?thesis by (auto simp: written_def not_closing_def)
next
  case False
  obtain xs where xs: "map snd xs = vs" "s = asc ''['' @ join (asc '','') (map fst xs) @ asc '']''"
    "\<forall>(t, v) \<in> set xs. \<exists>q. write_js v q = Inr t"
    using write_arr_items [OF assms(1)] by blast
  have mem: "v \<in> set vs" if "(t, v) \<in> set xs" for t v using that xs(1) by force
  have head: "t = [] \<and> v = JHole \<or> t \<noteq> [] \<and> hd t \<noteq> u16 CHR '']''" if "(t, v) \<in> set xs" for t v
  proof -
    obtain q where "write_js v q = Inr t" using xs(3) \<open>(t, v) \<in> set xs\<close> by blast
    with mem [OF that] assms(2) write_head [of v q t] show ?thesis by (auto simp: list_all_iff)
  qed
  have "map fst xs \<noteq> [[]]"
  proof
    assume "map fst xs = [[]]"
    then obtain v where "xs = [([], v)]" by (cases xs) auto
    with head [of "[]" v] xs(1) False show False by simp
  qed
  moreover have "t = [] \<or> hd t \<noteq> u16 CHR '']''" if "t \<in> set (map fst xs)" for t
    using that head by fastforce
  ultimately have "not_closing (u16 CHR '']'') (map fst xs)" by (simp add: not_closing_def)
  then show ?thesis using xs mem False by (intro exI [of _ xs]) (auto simp: written_def)
qed

lemma arr_self_delimiting:
  assumes ih: "\<And>v. v \<in> set vs \<Longrightarrow> v = JHole \<or> js_ok v \<and> self_delimiting v"
    and ok: "list_all (\<lambda>v. v = JHole \<or> js_ok v) vs'"
    and w: "write_js (JArr vs) p = Inr s" "write_js (JArr vs') p' = Inr s'" and eq: "s @ r = s' @ r'"
  shows "norm (JArr vs) = norm (JArr vs') \<and> r = r'"
proof -
  have ok1: "list_all (\<lambda>v. v = JHole \<or> js_ok v) vs" using ih by (auto simp: list_all_iff)
  obtain xs where xs: "map snd xs = written vs" "s = asc ''['' @ join (asc '','') (map fst xs) @ asc '']''"
    "\<forall>(t, v) \<in> set xs. v \<in> set vs \<and> (\<exists>q. write_js v q = Inr t)" "not_closing (u16 CHR '']'') (map fst xs)"
    using written_arr_items [OF w(1) ok1] by blast
  obtain ys where ys: "map snd ys = written vs'" "s' = asc ''['' @ join (asc '','') (map fst ys) @ asc '']''"
    "\<forall>(t, v) \<in> set ys. v \<in> set vs' \<and> (\<exists>q. write_js v q = Inr t)" "not_closing (u16 CHR '']'') (map fst ys)"
    using written_arr_items [OF w(2) ok] by blast
  have "prefix_code fst (set xs) (set ys) (norm \<circ> snd)"
    unfolding prefix_code_def
  proof clarsimp
    fix t v t' v' r r'
    assume x: "(t, v) \<in> set xs" and y: "(t', v') \<in> set ys"
      and e: "t @ r = t' @ r'" and d: "delimited r" "delimited r'"
    from xs(3) x ys(3) y obtain q q' where q: "v \<in> set vs" "write_js v q = Inr t" "v' \<in> set vs'" "write_js v' q' = Inr t'"
      by blast
    have v: "v = JHole \<or> js_ok v" "v' = JHole \<or> js_ok v'" using ih [OF q(1)] q(3) ok by (auto simp: list_all_iff)
    show "norm v = norm v' \<and> r = r'"
    proof (cases "v = JHole \<or> v' = JHole")
      case True
      have "v = JHole \<and> v' = JHole"
        using True v q(2,4) e d write_head [of v q t] write_head [of v' q' t']
        by (auto simp: delimited_def)
      with q(2,4) e show ?thesis by simp
    next
      case False
      with ih [OF q(1)] v(2) q(2,4) e d show ?thesis unfolding self_delimiting_def by blast
    qed
  qed
  moreover have "join (asc '','') (map fst xs) @ u16 CHR '']'' # r = join (asc '','') (map fst ys) @ u16 CHR '']'' # r'"
    using eq xs(2) ys(2) by simp
  ultimately have "map (norm \<circ> snd) xs = map (norm \<circ> snd) ys \<and> r = r'"
    using xs(4) ys(4) by (intro join_code) auto
  with xs(1) ys(1) show ?thesis unfolding written_norm by (metis map_map)
qed

lemma obj_self_delimiting:
  assumes ih: "\<And>k v. (k, v) \<in> set kvs \<Longrightarrow> self_delimiting v"
    and ok: "list_all (\<lambda>(k, v). js_ok v) kvs" "list_all (\<lambda>(k, v). js_ok v) kvs'"
    and w: "write_js (JObj kvs) p = Inr s" "write_js (JObj kvs') p' = Inr s'" and eq: "s @ r = s' @ r'"
  shows "norm (JObj kvs) = norm (JObj kvs') \<and> r = r'"
proof -
  obtain xs where xs: "map snd xs = sort_key fst kvs"
    "s = asc ''{'' @ join (asc '','') (map fst xs) @ asc ''}''"
    "\<forall>(t, k, v) \<in> set xs. \<exists>q u. write_js v q = Inr u \<and> t = escapeString k @ asc '':'' @ u"
    using write_obj_items [OF w(1)] by blast
  obtain ys where ys: "map snd ys = sort_key fst kvs'"
    "s' = asc ''{'' @ join (asc '','') (map fst ys) @ asc ''}''"
    "\<forall>(t, k, v) \<in> set ys. \<exists>q u. write_js v q = Inr u \<and> t = escapeString k @ asc '':'' @ u"
    using write_obj_items [OF w(2)] by blast
  have mem: "(k, v) \<in> set kvs" if "(t, k, v) \<in> set xs" for t k v
    using that xs(1) by (metis image_eqI set_map set_sort snd_conv)
  have mem': "js_ok v" if "(t, k, v) \<in> set ys" for t k v
  proof -
    have "(k, v) \<in> set kvs'" using that ys(1) by (metis image_eqI set_map set_sort snd_conv)
    then show ?thesis using ok(2) by (auto simp: list_all_iff)
  qed
  let ?val = "\<lambda>(t, k, v). (k, norm v)"
  have "prefix_code fst (set xs) (set ys) ?val"
    unfolding prefix_code_def
  proof clarsimp
    fix t k v t' k' v' r r'
    assume x: "(t, k, v) \<in> set xs" and y: "(t', k', v') \<in> set ys"
      and e: "t @ r = t' @ r'" and d: "delimited r" "delimited r'"
    obtain q u where u: "write_js v q = Inr u" "t = escapeString k @ asc '':'' @ u" using xs(3) x by blast
    obtain q' u' where u': "write_js v' q' = Inr u'" "t' = escapeString k' @ asc '':'' @ u'" using ys(3) y by blast
    have "k = k' \<and> (asc '':'' @ u) @ r = (asc '':'' @ u') @ r'"
      by (rule escapeString_prefix) (use e u u' in simp)
    with ih [OF mem [OF x]] mem' [OF y] u(1) u'(1) d show "k = k' \<and> norm v = norm v' \<and> r = r'"
      unfolding self_delimiting_def by auto
  qed
  moreover have start: "t \<noteq> [] \<and> hd t \<noteq> u16 CHR ''}''" if "(t, w) \<in> set xs \<union> set ys" for t w
    using that xs(3) ys(3) by (cases w) (auto simp: escapeString_eq u16_def)
  have "not_closing (u16 CHR ''}'') (map fst xs)" "not_closing (u16 CHR ''}'') (map fst ys)"
    unfolding not_closing_def using start by (fastforce simp: map_eq_Cons_conv)+
  moreover have "join (asc '','') (map fst xs) @ u16 CHR ''}'' # r = join (asc '','') (map fst ys) @ u16 CHR ''}'' # r'"
    using eq xs(2) ys(2) by simp
  ultimately have "map ?val xs = map ?val ys \<and> r = r'"
    by (intro join_code) auto
  moreover have "map ?val zs = map (\<lambda>(k, v). (k, norm v)) (map snd zs)" for zs :: "(units \<times> units \<times> js) list"
    by (induction zs) auto
  ultimately show ?thesis unfolding norm_obj xs(1) [symmetric] ys(1) [symmetric] by simp
qed

text \<open>The first code unit tells what kind of value follows.\<close>

fun shape :: "js \<Rightarrow> nat" where
  "shape JNull = 0"
| "shape (JBool _) = 1"
| "shape (JStr _) = 2"
| "shape (JDate _) = 2"
| "shape (JArr _) = 3"
| "shape (JObj _) = 4"
| "shape JHole = 6"
| "shape _ = 5"

definition head_shape :: "unit16 \<Rightarrow> nat" where
  "head_shape u =
    (if u = u16 CHR ''n'' then 0 else if u \<in> {u16 CHR ''t'', u16 CHR ''f''} then 1
     else if u = 0x22 then 2 else if u = u16 CHR ''['' then 3 else if u = u16 CHR ''{'' then 4 else 5)"

lemma shape_head:
  assumes "write_js v p = Inr s" "js_ok v"
  shows "shape v = head_shape (hd s)"
proof (cases v)
  case (JNum n)
  have "head_shape u = 5" if "is_digit16 u \<or> u = u16 CHR ''-''" for u
    using that by (auto simp: head_shape_def is_digit16_def u16_def)
  with JNum assms number_units_head [of n] show ?thesis by auto
next
  case (JDate d)
  with assms show ?thesis by (cases d) (auto simp: escapeString_eq head_shape_def u16_def)
qed (use assms in \<open>auto simp: escapeString_eq head_shape_def u16_def split: sum.splits if_splits\<close>)

lemma same_shape:
  assumes "write_js v p = Inr s" "write_js v' p' = Inr s'" "js_ok v" "js_ok v'" "s @ r = s' @ r'"
  shows "shape v = shape v'"
proof -
  have "hd s = hd s'"
    using assms(5) write_head [OF assms(1,3)] write_head [OF assms(2,4)] by (metis hd_append2)
  then show ?thesis using shape_head [OF assms(1,3)] shape_head [OF assms(2,4)] by simp
qed

lemma string_self_delimiting:
  assumes "shape v = 2" "shape v' = 2" "write_js v p = Inr s" "write_js v' p' = Inr s'" "s @ r = s' @ r'"
  shows "norm v = norm v' \<and> r = r'"
proof -
  have str: "\<exists>t. norm v = JStr t \<and> s = escapeString t" if "shape v = 2" "write_js v p = Inr s" for v p s
    using that by (cases v rule: norm.cases) auto
  from str [OF assms(1,3)] str [OF assms(2,4)] assms(5) escapeString_prefix show ?thesis by metis
qed

lemma write_self_delimiting: "js_ok v \<Longrightarrow> self_delimiting v"
proof (induction v)
  case (JArr vs)
  have ih: "v = JHole \<or> js_ok v \<and> self_delimiting v" if "v \<in> set vs" for v
    using JArr that by (auto simp: list_all_iff)
  show ?case
    unfolding self_delimiting_def
  proof (intro allI impI)
    fix v' p p' s s' r r'
    assume *: "js_ok v'" "write_js (JArr vs) p = Inr s" "write_js v' p' = Inr s'" "s @ r = s' @ r'"
    have "shape v' = 3" using same_shape [OF *(2,3) JArr.prems *(1,4)] by simp
    then obtain vs' where v': "v' = JArr vs'" by (cases v') auto
    with JArr.prems * arr_self_delimiting [OF ih _ *(2) _ *(4), where vs' = vs' and p' = p']
    show "norm (JArr vs) = norm v' \<and> r = r'" by (auto simp del: norm.simps)
  qed
next
  case (JObj kvs)
  have ih: "self_delimiting v" if "(k, v) \<in> set kvs" for k v
    using JObj that by (fastforce simp: list_all_iff)
  show ?case
    unfolding self_delimiting_def
  proof (intro allI impI)
    fix v' p p' s s' r r'
    assume *: "js_ok v'" "write_js (JObj kvs) p = Inr s" "write_js v' p' = Inr s'" "s @ r = s' @ r'"
    have "shape v' = 4" using same_shape [OF *(2,3) JObj.prems *(1,4)] by simp
    then obtain kvs' where v': "v' = JObj kvs'" by (cases v') auto
    with JObj.prems * obj_self_delimiting [OF ih _ _ *(2) _ *(4), where kvs' = kvs' and p' = p']
    show "norm (JObj kvs) = norm v' \<and> r = r'" by (auto simp del: norm.simps)
  qed
next
  case (JNum n)
  show ?case
    unfolding self_delimiting_def
  proof (intro allI impI)
    fix v' p p' s s' r r'
    assume *: "js_ok v'" "write_js (JNum n) p = Inr s" "write_js v' p' = Inr s'" "s @ r = s' @ r'"
      "delimited r" "delimited r'"
    have "shape v' = 5" using same_shape [OF *(2,3) JNum.prems *(1,4)] by simp
    with *(3) obtain n' where "v' = JNum n'" by (cases v') auto
    with * JNum.prems number_prefix [of n r n' r'] show "norm (JNum n) = norm v' \<and> r = r'" by auto
  qed
next
  case JNull
  show ?case
    unfolding self_delimiting_def
  proof (intro allI impI)
    fix v' p p' s s' r r'
    assume *: "js_ok v'" "write_js JNull p = Inr s" "write_js v' p' = Inr s'" "s @ r = s' @ r'"
    have "shape v' = 0" using same_shape [OF *(2,3) JNull.prems *(1,4)] by simp
    then have "v' = JNull" by (cases v') auto
    with * show "norm JNull = norm v' \<and> r = r'" by auto
  qed
next
  case (JBool b)
  show ?case
    unfolding self_delimiting_def
  proof (intro allI impI)
    fix v' p p' s s' r r'
    assume *: "js_ok v'" "write_js (JBool b) p = Inr s" "write_js v' p' = Inr s'" "s @ r = s' @ r'"
    have "shape v' = 1" using same_shape [OF *(2,3) JBool.prems *(1,4)] by simp
    then obtain b' where "v' = JBool b'" by (cases v') auto
    with * show "norm (JBool b) = norm v' \<and> r = r'" by (auto split: if_splits)
  qed
next
  case (JStr t)
  show ?case
    unfolding self_delimiting_def
    using same_shape [OF _ _ JStr.prems] string_self_delimiting [of "JStr t"] by (metis shape.simps(3))
next
  case (JDate d)
  show ?case
    unfolding self_delimiting_def
    using same_shape [OF _ _ JDate.prems] string_self_delimiting [of "JDate d"] by (metis shape.simps(4))
qed (simp_all add: self_delimiting_def)

text \<open>The canonical text of a value determines its meaning, and is determined by it.\<close>

lemma canonicalize_inj:
  assumes "canonicalize v = Inr s" "canonicalize v' = Inr s" "js_ok v" "js_ok v'"
  shows "norm v = norm v'"
  using write_self_delimiting [OF assms(3)] assms
  unfolding self_delimiting_def canonicalize_def delimited_def by blast

lemma canonicalize_norm: "norm v = norm v' \<Longrightarrow> canonicalize v = canonicalize v'"
  unfolding canonicalize_def by (metis write_norm)

end
