(* ===== verification/Audit_Event.thy ===== *)
theory Audit_Event
  imports Canonical_Writer
begin

text \<open>
  The records of the audit trail: actors (\<open>packages/audit/src/actor.ts\<close>), actions
  (\<open>actions.ts\<close>, \<open>packages/contracts/src/audit.ts\<close>), the fields a caller supplies verbatim
  (\<open>fields.ts\<close>) and the hashed form of a record (\<open>hash.ts\<close>).

  SHA-256 and Unicode normalisation are parameters: \<open>H\<close> is the hex digest of a text (the chain
  input is well-formed UTF-16, so its UTF-8 encoding loses nothing), \<open>nfc\<close> is
  \<open>String.prototype.normalize("NFC")\<close>. Nothing is assumed of either.
\<close>

subsection \<open>Text\<close>

text \<open>What \<open>String.prototype.trim\<close> removes.\<close>

definition js_space :: "unit16 \<Rightarrow> bool" where
  "js_space u \<longleftrightarrow> (0x09 \<le> u \<and> u \<le> 0x0D) \<or> (0x2000 \<le> u \<and> u \<le> 0x200A) \<or>
     u \<in> {0x20, 0xA0, 0x1680, 0x2028, 0x2029, 0x202F, 0x205F, 0x3000, 0xFEFF}"

definition js_trim :: "units \<Rightarrow> units" where
  "js_trim s = rev (dropWhile js_space (rev (dropWhile js_space s)))"

lemma dropWhile_cond_hd: "dropWhile P xs = [] \<or> \<not> P (hd (dropWhile P xs))"
  by (induction xs) auto

lemma dropWhile_id: "xs = [] \<or> \<not> P (hd xs) \<Longrightarrow> dropWhile P xs = xs"
  by (cases xs) auto

lemma js_trim_idem [simp]: "js_trim (js_trim s) = js_trim s"
proof -
  let ?d = "dropWhile js_space s" and ?t = "js_trim s"
  have last: "?t = [] \<or> \<not> js_space (last ?t)"
    using dropWhile_cond_hd [of js_space "rev ?d"] by (auto simp: js_trim_def last_rev)
  have hd: "?t = [] \<or> \<not> js_space (hd ?t)"
  proof -
    obtain w where w: "rev ?d = w @ dropWhile js_space (rev ?d)"
      by (metis takeWhile_dropWhile_id)
    then have "?d = rev (dropWhile js_space (rev ?d)) @ rev w" by (metis rev_append rev_rev_ident)
    then have "?d = ?t @ rev w" by (simp add: js_trim_def)
    with dropWhile_cond_hd [of js_space s] show ?thesis by (metis append_is_Nil_conv hd_append2)
  qed
  have "dropWhile js_space ?t = ?t" using hd by (rule dropWhile_id)
  moreover have "dropWhile js_space (rev ?t) = rev ?t"
    using last by (intro dropWhile_id) (auto simp: hd_rev)
  ultimately show ?thesis unfolding js_trim_def [of ?t] by simp
qed

definition alnum16 :: "unit16 \<Rightarrow> bool" where
  "alnum16 u \<longleftrightarrow> is_digit16 u \<or> (0x41 \<le> u \<and> u \<le> 0x5A) \<or> (0x61 \<le> u \<and> u \<le> 0x7A)"

subsection \<open>actor.ts\<close>

definition WORKER :: units where "WORKER = asc ''maestro-worker''"
definition RUNNER :: units where "RUNNER = asc ''maestro-runner''"
definition AI_VIA_PREFIX :: units where "AI_VIA_PREFIX = asc ''ai-via:''"

text \<open>\<open>[A-Za-z0-9](?:[class]*[A-Za-z0-9])?\<close>\<close>

definition label_ok :: "string \<Rightarrow> units \<Rightarrow> bool" where
  "label_ok extra s \<longleftrightarrow> s \<noteq> [] \<and> alnum16 (hd s) \<and> alnum16 (last s) \<and>
     list_all (\<lambda>u. alnum16 u \<or> u \<in> set (asc extra)) s"

definition human_actor_ok :: "units \<Rightarrow> bool" where
  "human_actor_ok s \<longleftrightarrow>
     (let local = takeWhile (\<lambda>u. u \<noteq> u16 CHR ''@'') s; rest = dropWhile (\<lambda>u. u \<noteq> u16 CHR ''@'') s
      in rest \<noteq> [] \<and> label_ok ''._+-'' local \<and> label_ok ''.-'' (tl rest))"

datatype actor_identity = Human units | System units | AiDelegated units

definition starts_with :: "'a list \<Rightarrow> 'a list \<Rightarrow> bool" where
  "starts_with p s \<longleftrightarrow> take (length p) s = p"

definition parseActor :: "units \<Rightarrow> actor_identity option" where
  "parseActor actor =
    (if actor \<noteq> js_trim actor \<or> actor = [] then None
     else if actor = WORKER then Some (System WORKER)
     else if actor = RUNNER then Some (System RUNNER)
     else if starts_with AI_VIA_PREFIX actor then
       (let user = drop (length AI_VIA_PREFIX) actor
        in if human_actor_ok user then Some (AiDelegated user) else None)
     else if human_actor_ok actor then Some (Human actor) else None)"

definition isHumanActor :: "units \<Rightarrow> bool" where
  "isHumanActor actor \<longleftrightarrow> (case parseActor actor of Some (Human _) \<Rightarrow> True | _ \<Rightarrow> False)"

text \<open>The kinds of actors cannot be confused: the classification determines the text.\<close>

fun actor_text :: "actor_identity \<Rightarrow> units" where
  "actor_text (Human u) = u"
| "actor_text (System s) = s"
| "actor_text (AiDelegated u) = AI_VIA_PREFIX @ u"

lemma starts_with_append: "starts_with p s \<Longrightarrow> p @ drop (length p) s = s"
  unfolding starts_with_def by (metis append_take_drop_id)

lemma parseActor_text: "parseActor a = Some i \<Longrightarrow> actor_text i = a"
  by (auto simp: parseActor_def Let_def starts_with_append split: if_splits)

subsection \<open>actions.ts\<close>

datatype audit_action =
    RUN_STARTED | GATE_OPEN | GATE_APPROVE | GATE_REJECT | CLARIFICATION_ASKED
  | CLARIFICATION_ANSWERED | PII_MASKED | SECURITY_SCAN_PASS | SECURITY_SCAN_FAIL | SANDBOX_CREATE
  | SANDBOX_DESTROY | TEST_RUN_COMPLETE | CI_RESULT | PR_OPENED | PR_MERGED | MODE_CHANGED
  | HANDOVER | ASSIGN_APP | PARAM_CHANGED | BINDING_CHANGED | KILL_SWITCH | MCP_TOOL_CALL
  | QUOTA_WARN | RETENTION_ARCHIVE | RESTORE_DRILL | RUN_CLOSED

fun action_str :: "audit_action \<Rightarrow> string" where
  "action_str RUN_STARTED = ''RUN_STARTED''" | "action_str GATE_OPEN = ''GATE_OPEN''"
| "action_str GATE_APPROVE = ''GATE_APPROVE''" | "action_str GATE_REJECT = ''GATE_REJECT''"
| "action_str CLARIFICATION_ASKED = ''CLARIFICATION_ASKED''"
| "action_str CLARIFICATION_ANSWERED = ''CLARIFICATION_ANSWERED''"
| "action_str PII_MASKED = ''PII_MASKED''" | "action_str SECURITY_SCAN_PASS = ''SECURITY_SCAN_PASS''"
| "action_str SECURITY_SCAN_FAIL = ''SECURITY_SCAN_FAIL''"
| "action_str SANDBOX_CREATE = ''SANDBOX_CREATE''" | "action_str SANDBOX_DESTROY = ''SANDBOX_DESTROY''"
| "action_str TEST_RUN_COMPLETE = ''TEST_RUN_COMPLETE''" | "action_str CI_RESULT = ''CI_RESULT''"
| "action_str PR_OPENED = ''PR_OPENED''" | "action_str PR_MERGED = ''PR_MERGED''"
| "action_str MODE_CHANGED = ''MODE_CHANGED''" | "action_str HANDOVER = ''HANDOVER''"
| "action_str ASSIGN_APP = ''ASSIGN_APP''" | "action_str PARAM_CHANGED = ''PARAM_CHANGED''"
| "action_str BINDING_CHANGED = ''BINDING_CHANGED''" | "action_str KILL_SWITCH = ''KILL_SWITCH''"
| "action_str MCP_TOOL_CALL = ''MCP_TOOL_CALL''" | "action_str QUOTA_WARN = ''QUOTA_WARN''"
| "action_str RETENTION_ARCHIVE = ''RETENTION_ARCHIVE''"
| "action_str RESTORE_DRILL = ''RESTORE_DRILL''" | "action_str RUN_CLOSED = ''RUN_CLOSED''"

datatype action_category = CatRun | CatGate | CatSecurity | CatSandbox | CatDelivery
  | CatGovernance | CatRetention

fun category_str :: "action_category \<Rightarrow> string" where
  "category_str CatRun = ''run''" | "category_str CatGate = ''gate''"
| "category_str CatSecurity = ''security''" | "category_str CatSandbox = ''sandbox''"
| "category_str CatDelivery = ''delivery''" | "category_str CatGovernance = ''governance''"
| "category_str CatRetention = ''retention''"

text \<open>Severity, event name, category, whether the action states success or failure.\<close>

fun actionInfo :: "audit_action \<Rightarrow> nat \<times> string \<times> action_category \<times> bool option" where
  "actionInfo RUN_STARTED = (3, ''Workflow run started'', CatRun, None)"
| "actionInfo GATE_OPEN = (4, ''Approval gate opened'', CatGate, None)"
| "actionInfo GATE_APPROVE = (5, ''Approval gate approved'', CatGate, Some True)"
| "actionInfo GATE_REJECT = (6, ''Approval gate rejected'', CatGate, Some False)"
| "actionInfo CLARIFICATION_ASKED = (3, ''Clarification requested'', CatRun, None)"
| "actionInfo CLARIFICATION_ANSWERED = (3, ''Clarification answered'', CatRun, None)"
| "actionInfo PII_MASKED = (4, ''Personal data masked before egress'', CatSecurity, None)"
| "actionInfo SECURITY_SCAN_PASS = (3, ''Security scan passed'', CatSecurity, Some True)"
| "actionInfo SECURITY_SCAN_FAIL = (8, ''Security scan failed'', CatSecurity, Some False)"
| "actionInfo SANDBOX_CREATE = (3, ''Sandbox created'', CatSandbox, None)"
| "actionInfo SANDBOX_DESTROY = (3, ''Sandbox destroyed'', CatSandbox, None)"
| "actionInfo TEST_RUN_COMPLETE = (3, ''Test run completed'', CatDelivery, None)"
| "actionInfo CI_RESULT = (4, ''CI pipeline result recorded'', CatDelivery, None)"
| "actionInfo PR_OPENED = (4, ''Pull request opened'', CatDelivery, None)"
| "actionInfo PR_MERGED = (6, ''Pull request merged'', CatDelivery, None)"
| "actionInfo MODE_CHANGED = (6, ''Work mode changed'', CatGovernance, None)"
| "actionInfo HANDOVER = (5, ''Work handed over'', CatGovernance, None)"
| "actionInfo ASSIGN_APP = (4, ''Ticket assigned to application'', CatGovernance, None)"
| "actionInfo PARAM_CHANGED = (7, ''Operational parameter changed'', CatGovernance, None)"
| "actionInfo BINDING_CHANGED = (7, ''Project binding changed'', CatGovernance, None)"
| "actionInfo KILL_SWITCH = (10, ''Kill switch operated'', CatGovernance, None)"
| "actionInfo MCP_TOOL_CALL = (4, ''MCP tool invoked on a user'' @ CHR 0x27 # ''s behalf'', CatGovernance, None)"
| "actionInfo QUOTA_WARN = (5, ''LLM quota threshold reached'', CatGovernance, None)"
| "actionInfo RETENTION_ARCHIVE = (3, ''Records archived for retention'', CatRetention, None)"
| "actionInfo RESTORE_DRILL = (4, ''Restore drill executed'', CatRetention, None)"
| "actionInfo RUN_CLOSED = (3, ''Workflow run closed'', CatRun, None)"

definition humanOnly :: "audit_action \<Rightarrow> bool" where
  "humanOnly a \<longleftrightarrow> a = GATE_APPROVE \<or> a = GATE_REJECT"

definition AUDIT_ACTIONS :: "audit_action list" where
  "AUDIT_ACTIONS = [RUN_STARTED, GATE_OPEN, GATE_APPROVE, GATE_REJECT, CLARIFICATION_ASKED,
     CLARIFICATION_ANSWERED, PII_MASKED, SECURITY_SCAN_PASS, SECURITY_SCAN_FAIL, SANDBOX_CREATE,
     SANDBOX_DESTROY, TEST_RUN_COMPLETE, CI_RESULT, PR_OPENED, PR_MERGED, MODE_CHANGED, HANDOVER,
     ASSIGN_APP, PARAM_CHANGED, BINDING_CHANGED, KILL_SWITCH, MCP_TOOL_CALL, QUOTA_WARN,
     RETENTION_ARCHIVE, RESTORE_DRILL, RUN_CLOSED]"

lemma in_AUDIT_ACTIONS: "a \<in> set AUDIT_ACTIONS"
  by (cases a) (simp_all add: AUDIT_ACTIONS_def)

lemma action_str_inj [simp]: "action_str a = action_str b \<longleftrightarrow> a = b"
proof -
  have "distinct (map action_str AUDIT_ACTIONS)" by code_simp
  then have "inj_on action_str (set AUDIT_ACTIONS)" by (simp add: distinct_map)
  then show ?thesis by (simp add: inj_on_eq_iff in_AUDIT_ACTIONS)
qed

lemma action_str_chars: "c \<in> set (action_str a) \<Longrightarrow> is_upper c \<or> c = CHR ''_''"
proof -
  have "list_all (\<lambda>a. list_all (\<lambda>c. is_upper c \<or> c = CHR ''_'') (action_str a)) AUDIT_ACTIONS" by code_simp
  then show "c \<in> set (action_str a) \<Longrightarrow> is_upper c \<or> c = CHR ''_''"
    using in_AUDIT_ACTIONS [of a] by (auto simp: list_all_iff)
qed

subsection \<open>fields.ts\<close>

definition SUBJECT_MAX_LENGTH :: nat where
  "SUBJECT_MAX_LENGTH = 128"

datatype field_rejection = FEmpty | FUntrimmed | FTooLong | FNotNfc | FControlCharacter | FNotUtcInstant

definition hasControlCharacter :: "units \<Rightarrow> bool" where
  "hasControlCharacter s \<longleftrightarrow> list_ex (\<lambda>u. u < 0x20 \<or> u = 0x7F) s"

definition subjectRejection :: "(units \<Rightarrow> units) \<Rightarrow> units \<Rightarrow> field_rejection option" where
  "subjectRejection nfc subject =
    (if subject = [] then Some FEmpty
     else if subject \<noteq> js_trim subject then Some FUntrimmed
     else if length subject > SUBJECT_MAX_LENGTH then Some FTooLong
     else if hasControlCharacter subject then Some FControlCharacter
     else if nfc subject \<noteq> subject then Some FNotNfc
     else None)"

text \<open>Calendar: the value of a run of digits, and whether a date exists.\<close>

definition digits_value :: "units \<Rightarrow> nat" where
  "digits_value s = foldl (\<lambda>n u. 10 * n + (unat u - 48)) 0 s"

definition leap_year :: "nat \<Rightarrow> bool" where
  "leap_year y \<longleftrightarrow> (4 dvd y \<and> \<not> 100 dvd y) \<or> 400 dvd y"

definition days_in_month :: "nat \<Rightarrow> nat \<Rightarrow> nat" where
  "days_in_month y m = (if m = 2 then (if leap_year y then 29 else 28)
     else if m \<in> {4, 6, 9, 11} then 30 else 31)"

definition date_ok :: "units \<Rightarrow> bool" where
  "date_ok s \<longleftrightarrow> length s = 10 \<and> s ! 4 = u16 CHR ''-'' \<and> s ! 7 = u16 CHR ''-'' \<and>
     list_all is_digit16 (take 4 s) \<and> list_all is_digit16 (take 2 (drop 5 s)) \<and>
     list_all is_digit16 (drop 8 s) \<and>
     (let y = digits_value (take 4 s); m = digits_value (take 2 (drop 5 s)); d = digits_value (drop 8 s)
      in 1 \<le> m \<and> m \<le> 12 \<and> 1 \<le> d \<and> d \<le> days_in_month y m)"

definition two_digits_upto :: "nat \<Rightarrow> units \<Rightarrow> bool" where
  "two_digits_upto n s \<longleftrightarrow> length s = 2 \<and> list_all is_digit16 s \<and> digits_value s \<le> n"

text \<open>\<open>HH:MM\<close>\<close>

definition clock_ok :: "units \<Rightarrow> bool" where
  "clock_ok s \<longleftrightarrow> length s = 5 \<and> two_digits_upto 23 (take 2 s) \<and> s ! 2 = u16 CHR '':'' \<and>
     two_digits_upto 59 (drop 3 s)"

text \<open>
  The one form \<open>toISOString\<close> prints: \<open>YYYY-MM-DDTHH:MM:SS.sssZ\<close> of an existing instant. (Years
  beyond 9999 have an extended form, which the contract's \<open>IsoDateTime\<close> refuses right after.)
\<close>

definition utc_instant :: "units \<Rightarrow> bool" where
  "utc_instant s \<longleftrightarrow> length s = 24 \<and> date_ok (take 10 s) \<and> s ! 10 = u16 CHR ''T'' \<and>
     clock_ok (take 5 (drop 11 s)) \<and> s ! 16 = u16 CHR '':'' \<and> two_digits_upto 59 (take 2 (drop 17 s)) \<and>
     s ! 19 = u16 CHR ''.'' \<and> list_all is_digit16 (take 3 (drop 20 s)) \<and> s ! 23 = u16 CHR ''Z''"

text \<open>
  \<open>z.iso.datetime({ offset: true })\<close>: date, \<open>T\<close>, \<open>HH:MM\<close>, optionally seconds and a fraction,
  then \<open>Z\<close> or an offset.
\<close>

definition zone_ok :: "units \<Rightarrow> bool" where
  "zone_ok s \<longleftrightarrow> s = asc ''Z'' \<or>
     (s \<noteq> [] \<and> hd s \<in> set (asc ''+-'') \<and> clock_ok (tl s))"

definition fraction_zone_ok :: "units \<Rightarrow> bool" where
  "fraction_zone_ok s \<longleftrightarrow>
     (if s \<noteq> [] \<and> hd s = u16 CHR ''.''
      then takeWhile is_digit16 (tl s) \<noteq> [] \<and> zone_ok (dropWhile is_digit16 (tl s))
      else zone_ok s)"

definition seconds_zone_ok :: "units \<Rightarrow> bool" where
  "seconds_zone_ok s \<longleftrightarrow>
     (if s \<noteq> [] \<and> hd s = u16 CHR '':''
      then two_digits_upto 59 (take 2 (tl s)) \<and> fraction_zone_ok (drop 3 s)
      else zone_ok s)"

definition iso_datetime_ok :: "units \<Rightarrow> bool" where
  "iso_datetime_ok s \<longleftrightarrow> length s \<ge> 16 \<and> date_ok (take 10 s) \<and> s ! 10 = u16 CHR ''T'' \<and>
     clock_ok (take 5 (drop 11 s)) \<and> seconds_zone_ok (drop 16 s)"

definition sha256_hex_ok :: "units \<Rightarrow> bool" where
  "sha256_hex_ok s \<longleftrightarrow> length s = 64 \<and>
     list_all (\<lambda>u. is_digit16 u \<or> (0x61 \<le> u \<and> u \<le> 0x66)) s"

definition GENESIS :: units where
  "GENESIS = asc ''genesis''"

end
