(* ===== verification/Audit_Chain.thy ===== *)
theory Audit_Chain
  imports Audit_Event
begin

text \<open>
  The hash chain of the audit trail: the hashed text of a record (\<open>packages/audit/src/hash.ts\<close>),
  the store (\<open>store.ts\<close>), the single append path (\<open>chain.ts\<close>) and the verifier
  (\<open>verify.ts\<close>). The store is an interface in the source and a locale here, interpreted on the
  in-memory store of \<open>store.ts\<close>.
\<close>

subsection \<open>hash.ts\<close>

record audit_core =
  c_seq :: nat
  c_at :: units
  c_actor :: units
  c_action :: audit_action
  c_subject :: units
  c_prevHash :: units
  c_meta :: js

record audit_event = audit_core +
  e_hash :: units

definition core_of :: "audit_event \<Rightarrow> audit_core" where
  "core_of e = audit_core.truncate e"

definition sealed :: "audit_core \<Rightarrow> units \<Rightarrow> audit_event" where
  "sealed c h = audit_core.extend c (audit_event.fields h)"

definition chainInput :: "audit_core \<Rightarrow> units canon" where
  "chainInput c = (case canonicalize (c_meta c) of
     Inl e \<Rightarrow> Inl e
   | Inr meta \<Rightarrow> Inr (join (asc ''|'')
       [asc (dec (c_seq c)), c_at c, canonicalString (c_actor c), asc (action_str (c_action c)),
        canonicalString (c_subject c), c_prevHash c, meta]))"

definition computeEventHash :: "(units \<Rightarrow> units) \<Rightarrow> audit_core \<Rightarrow> units canon" where
  "computeEventHash H c = map_sum id H (chainInput c)"

definition rehash :: "(units \<Rightarrow> units) \<Rightarrow> audit_event \<Rightarrow> units canon" where
  "rehash H e = computeEventHash H (core_of e)"

datatype audit_error =
    ActorRefused units | FieldRefused field_rejection | CanonRefused "units \<times> canon_reason"
  | SchemaRefused | NotSelfHashing | ActorNotHuman | NotAnEvent | UnanchoredSlice
  | SequenceConflict | HashConflict | PrevHashConflict

text \<open>\<open>humanBehind\<close> of \<open>actor.ts\<close>: the person an actor stands for, none for the system.\<close>

definition humanBehind :: "units \<Rightarrow> audit_error + units option" where
  "humanBehind actor = (case parseActor actor of
     None \<Rightarrow> Inl (ActorRefused actor)
   | Some (Human u) \<Rightarrow> Inr (Some u)
   | Some (System _) \<Rightarrow> Inr None
   | Some (AiDelegated u) \<Rightarrow> Inr (Some u))"

fun is_obj :: "js \<Rightarrow> bool" where
  "is_obj (JObj _) \<longleftrightarrow> True"
| "is_obj _ \<longleftrightarrow> False"

text \<open>
  \<open>AuditEvent\<close> without its hash, for values of the right types. \<open>z.number().int()\<close> bounds the
  sequence number by \<open>Number.MAX_SAFE_INTEGER\<close>.
\<close>

definition MAX_SAFE_INTEGER :: int where
  "MAX_SAFE_INTEGER = 9007199254740991"

definition prev_hash_ok :: "units \<Rightarrow> bool" where
  "prev_hash_ok s \<longleftrightarrow> sha256_hex_ok s \<or> s = GENESIS"

definition parse_core :: "audit_core \<Rightarrow> audit_core option" where
  "parse_core c =
    (if 0 < c_seq c \<and> int (c_seq c) \<le> MAX_SAFE_INTEGER \<and> iso_datetime_ok (c_at c) \<and> js_trim (c_actor c) \<noteq> [] \<and>
        js_trim (c_subject c) \<noteq> [] \<and> prev_hash_ok (c_prevHash c) \<and> is_obj (c_meta c)
     then Some (c\<lparr>c_actor := js_trim (c_actor c), c_subject := js_trim (c_subject c)\<rparr>) else None)"

definition sealEvent :: "(units \<Rightarrow> units) \<Rightarrow> (units \<Rightarrow> units) \<Rightarrow> audit_core \<Rightarrow> audit_error + audit_event" where
  "sealEvent H nfc c =
    (if parseActor (c_actor c) = None then Inl (ActorRefused (c_actor c))
     else case subjectRejection nfc (c_subject c) of
       Some r \<Rightarrow> Inl (FieldRefused r)
     | None \<Rightarrow>
       if \<not> utc_instant (c_at c) then Inl (FieldRefused FNotUtcInstant)
       else case parse_core c of
         None \<Rightarrow> Inl SchemaRefused
       | Some hashable \<Rightarrow>
         (case computeEventHash H hashable of
            Inl e \<Rightarrow> Inl (CanonRefused e)
          | Inr h \<Rightarrow>
            if \<not> sha256_hex_ok h then Inl SchemaRefused
            else let event = sealed hashable h
                 in if rehash H event \<noteq> Inr (e_hash event) then Inl NotSelfHashing else Inr event))"

subsection \<open>store.ts\<close>

record mem_store =
  ms_events :: "audit_event list"
  ms_hashes :: "units set"
  ms_prevHashes :: "units set"

definition mem_empty :: mem_store where
  "mem_empty = \<lparr>ms_events = [], ms_hashes = {}, ms_prevHashes = {}\<rparr>"

definition mem_head :: "mem_store \<Rightarrow> audit_event option" where
  "mem_head s = (if ms_events s = [] then None else Some (last (ms_events s)))"

definition mem_append :: "audit_event \<Rightarrow> mem_store \<Rightarrow> audit_error + mem_store" where
  "mem_append e s =
    (if (case mem_head s of None \<Rightarrow> False | Some p \<Rightarrow> c_seq e \<le> c_seq p) then Inl SequenceConflict
     else if e_hash e \<in> ms_hashes s then Inl HashConflict
     else if c_prevHash e \<in> ms_prevHashes s then Inl PrevHashConflict
     else Inr (s\<lparr>ms_events := ms_events s @ [e], ms_hashes := insert (e_hash e) (ms_hashes s),
        ms_prevHashes := insert (c_prevHash e) (ms_prevHashes s)\<rparr>))"

definition mem_read :: "int option \<Rightarrow> int option \<Rightarrow> mem_store \<Rightarrow> audit_event list" where
  "mem_read from_seq to_seq s =
    filter (\<lambda>e. (case from_seq of None \<Rightarrow> True | Some f \<Rightarrow> f \<le> int (c_seq e)) \<and>
                (case to_seq of None \<Rightarrow> True | Some t \<Rightarrow> int (c_seq e) \<le> t)) (ms_events s)"

subsection \<open>chain.ts\<close>

text \<open>An input's instant: the clock's, or the given one (\<open>None\<close> is an invalid date).\<close>

datatype input_at = AtClock | AtGiven "units option"

record append_input =
  in_actor :: units
  in_action :: audit_action
  in_subject :: units
  in_meta :: "js option"
  in_at :: input_at

definition input_instant :: "units \<Rightarrow> append_input \<Rightarrow> units option" where
  "input_instant clock i = (case in_at i of AtClock \<Rightarrow> Some clock | AtGiven t \<Rightarrow> t)"

definition next_core :: "audit_event option \<Rightarrow> append_input \<Rightarrow> units \<Rightarrow> audit_core" where
  "next_core head i at =
    \<lparr>c_seq = (case head of None \<Rightarrow> 0 | Some h \<Rightarrow> c_seq h) + 1, c_at = at, c_actor = in_actor i,
     c_action = in_action i, c_subject = in_subject i,
     c_prevHash = (case head of None \<Rightarrow> GENESIS | Some h \<Rightarrow> e_hash h),
     c_meta = (case in_meta i of None \<Rightarrow> JObj [] | Some m \<Rightarrow> m)\<rparr>"

text \<open>One turn of the loop: the record to store, or the refusal.\<close>

definition seal_next ::
  "(units \<Rightarrow> units) \<Rightarrow> (units \<Rightarrow> units) \<Rightarrow> units \<Rightarrow> audit_event option \<Rightarrow> append_input \<Rightarrow> audit_error + audit_event"
where
  "seal_next H nfc clock head i =
    (case parseActor (in_actor i) of
       None \<Rightarrow> Inl (ActorRefused (in_actor i))
     | Some identity \<Rightarrow>
         if humanOnly (in_action i) \<and> (case identity of Human _ \<Rightarrow> False | _ \<Rightarrow> True) then Inl ActorNotHuman
         else case input_instant clock i of
           None \<Rightarrow> Inl NotAnEvent
         | Some at \<Rightarrow> sealEvent H nfc (next_core head i at))"

text \<open>
  \<open>sealAll\<close> over a store given by its operations; \<open>clock k\<close> is what the clock answers for the
  \<open>k\<close>-th input. When an input is refused the earlier ones stay written, so the store is part of
  both outcomes.
\<close>

fun seal_from ::
  "(units \<Rightarrow> units) \<Rightarrow> (units \<Rightarrow> units) \<Rightarrow> (audit_event \<Rightarrow> 's \<Rightarrow> audit_error + 's) \<Rightarrow>
   (nat \<Rightarrow> units) \<Rightarrow> append_input list \<Rightarrow> audit_event option \<Rightarrow> 's \<Rightarrow> (audit_error + audit_event list) \<times> 's"
where
  "seal_from H nfc ap clock [] head s = (Inr [], s)"
| "seal_from H nfc ap clock (i # rest) head s =
    (case seal_next H nfc (clock 0) head i of
       Inl e \<Rightarrow> (Inl e, s)
     | Inr event \<Rightarrow>
       (case ap event s of
          Inl e \<Rightarrow> (Inl e, s)
        | Inr s' \<Rightarrow>
          (case seal_from H nfc ap (\<lambda>k. clock (Suc k)) rest (Some event) s' of
             (Inl e, s'') \<Rightarrow> (Inl e, s'')
           | (Inr es, s'') \<Rightarrow> (Inr (event # es), s''))))"

definition sealAll ::
  "(units \<Rightarrow> units) \<Rightarrow> (units \<Rightarrow> units) \<Rightarrow> ('s \<Rightarrow> audit_event option) \<Rightarrow>
   (audit_event \<Rightarrow> 's \<Rightarrow> audit_error + 's) \<Rightarrow> (nat \<Rightarrow> units) \<Rightarrow> append_input list \<Rightarrow> 's \<Rightarrow>
   (audit_error + audit_event list) \<times> 's"
where
  "sealAll H nfc head_op ap clock inputs s = seal_from H nfc ap clock inputs (head_op s) s"

subsection \<open>verify.ts\<close>

text \<open>
  A stored row: fields of the right types, or something else, of which at best a sequence number
  and a hash can be salvaged.
\<close>

record raw_event =
  r_seq :: int
  r_at :: units
  r_actor :: units
  r_action :: units
  r_subject :: units
  r_prevHash :: units
  r_hash :: units
  r_meta :: "js option"

datatype candidate = Row raw_event | Unreadable "int option" "units option"

definition action_of :: "units \<Rightarrow> audit_action option" where
  "action_of t = List.find (\<lambda>a. asc (action_str a) = t) AUDIT_ACTIONS"

text \<open>\<open>AuditEvent.safeParse\<close>: the output is what the schema's trims leave.\<close>

fun parse_event :: "candidate \<Rightarrow> audit_event option" where
  "parse_event (Unreadable _ _) = None"
| "parse_event (Row r) =
    (case action_of (r_action r) of
       None \<Rightarrow> None
     | Some a \<Rightarrow>
        (if 0 < r_seq r \<and> sha256_hex_ok (r_hash r) then
           map_option (\<lambda>c. sealed c (r_hash r))
             (parse_core \<lparr>c_seq = nat (r_seq r), c_at = r_at r, c_actor = r_actor r, c_action = a,
                c_subject = r_subject r, c_prevHash = r_prevHash r,
                c_meta = (case r_meta r of None \<Rightarrow> JObj [] | Some m \<Rightarrow> m)\<rparr>)
         else None))"

fun readSeq :: "candidate \<Rightarrow> int option" where
  "readSeq (Unreadable sq _) = sq"
| "readSeq (Row r) = Some (r_seq r)"

fun readHash :: "candidate \<Rightarrow> units option" where
  "readHash (Unreadable _ h) = (case h of None \<Rightarrow> None | Some x \<Rightarrow> if sha256_hex_ok x then Some x else None)"
| "readHash (Row r) = (if sha256_hex_ok (r_hash r) then Some (r_hash r) else None)"

datatype issue_kind = SchemaInvalid | HashMismatch | PrevHashMismatch | SequenceGap | OutOfOrder
  | BadStart | EmptyChain

record chain_issue =
  is_kind :: issue_kind
  is_seq :: "int option"
  is_index :: nat

record link =
  l_seq :: int
  l_hash :: "units option"

definition issue :: "issue_kind \<Rightarrow> int option \<Rightarrow> nat \<Rightarrow> chain_issue" where
  "issue k sq i = \<lparr>is_kind = k, is_seq = sq, is_index = i\<rparr>"

text \<open>The findings about one readable record, against what came before it.\<close>

definition link_issues :: "int \<Rightarrow> units \<Rightarrow> link option \<Rightarrow> nat \<Rightarrow> audit_event \<Rightarrow> chain_issue list" where
  "link_issues first prev0 previous index e =
    (let sq = int (c_seq e) in
     case previous of
       None \<Rightarrow>
         (if index = 0 then
            (if sq \<noteq> first then [issue BadStart (Some sq) index] else []) @
            (if c_prevHash e \<noteq> prev0 then [issue BadStart (Some sq) index] else [])
          else [])
     | Some p \<Rightarrow>
         (if sq \<le> l_seq p then [issue OutOfOrder (Some sq) index]
          else if sq \<noteq> l_seq p + 1 then [issue SequenceGap (Some (l_seq p + 1)) index] else []) @
         (case l_hash p of
            None \<Rightarrow> []
          | Some h \<Rightarrow> if c_prevHash e \<noteq> h then [issue PrevHashMismatch (Some sq) index] else []))"

fun verify_rows ::
  "(units \<Rightarrow> units) \<Rightarrow> int \<Rightarrow> units \<Rightarrow> link option \<Rightarrow> units option \<Rightarrow> nat \<Rightarrow> candidate list \<Rightarrow>
   (chain_issue list \<times> units option) canon"
where
  "verify_rows H first prev0 previous headHash index [] = Inr ([], headHash)"
| "verify_rows H first prev0 previous headHash index (cand # rest) =
    (case parse_event cand of
       None \<Rightarrow>
         (let sq = readSeq cand;
              link = \<lparr>l_seq = (case sq of Some n \<Rightarrow> n | None \<Rightarrow>
                        (case previous of Some p \<Rightarrow> l_seq p + 1 | None \<Rightarrow> first)), l_hash = readHash cand\<rparr>
          in map_sum id (\<lambda>(is, h). (issue SchemaInvalid sq index # is, h))
               (verify_rows H first prev0 (Some link) headHash (index + 1) rest))
     | Some e \<Rightarrow>
         (case rehash H e of
            Inl err \<Rightarrow> Inl err
          | Inr expected \<Rightarrow>
             map_sum id
               (\<lambda>(is, h). (link_issues first prev0 previous index e @
                  (if expected \<noteq> e_hash e then [issue HashMismatch (Some (int (c_seq e))) index] else []) @ is, h))
               (verify_rows H first prev0 (Some \<lparr>l_seq = int (c_seq e), l_hash = Some (e_hash e)\<rparr>)
                  (Some (e_hash e)) (index + 1) rest)))"

record verification =
  v_ok :: bool
  v_checked :: nat
  v_firstBadSeq :: "int option"
  v_headHash :: "units option"
  v_issues :: "chain_issue list"

definition verifyChain ::
  "(units \<Rightarrow> units) \<Rightarrow> int \<Rightarrow> units \<Rightarrow> candidate list \<Rightarrow> verification canon" where
  "verifyChain H first prev0 rows =
    map_sum id
      (\<lambda>(found, headHash).
        let issues = found @ (if rows = [] then [issue EmptyChain None 0] else []);
            seqs = List.map_filter is_seq issues
        in \<lparr>v_ok = (issues = []), v_checked = length rows,
            v_firstBadSeq = (if seqs = [] then None else Some (Min (set seqs))),
            v_headHash = (if issues = [] then headHash else None), v_issues = issues\<rparr>)
      (verify_rows H first prev0 None None 0 rows)"

text \<open>
  \<open>AuditChain.verify\<close>: the expected start never comes from the records. A slice needs the hash it
  continues from.
\<close>

definition chain_verify ::
  "(units \<Rightarrow> units) \<Rightarrow> (int option \<Rightarrow> int option \<Rightarrow> 's \<Rightarrow> candidate list) \<Rightarrow> int option \<Rightarrow> int option \<Rightarrow>
   units option \<Rightarrow> 's \<Rightarrow> audit_error + verification"
where
  "chain_verify H read_op from_seq to_seq expect s =
    (let check = (\<lambda>first prev. map_sum CanonRefused id (verifyChain H first prev (read_op from_seq to_seq s)))
     in if (case from_seq of None \<Rightarrow> True | Some f \<Rightarrow> f \<le> 1) then
          (if expect \<noteq> None \<and> expect \<noteq> Some GENESIS then Inl UnanchoredSlice else check 1 GENESIS)
        else (case expect of
                None \<Rightarrow> Inl UnanchoredSlice
              | Some h \<Rightarrow> check (the from_seq) h))"

subsection \<open>What a sound chain is\<close>

fun chained :: "(units \<Rightarrow> units) \<Rightarrow> nat \<Rightarrow> units \<Rightarrow> audit_event list \<Rightarrow> bool" where
  "chained H n prev [] \<longleftrightarrow> True"
| "chained H n prev (e # es) \<longleftrightarrow> c_seq e = n \<and> c_prevHash e = prev \<and>
     rehash H e = Inr (e_hash e) \<and> chained H (n + 1) (e_hash e) es"

text \<open>The hash the next record continues from.\<close>

definition tip :: "units \<Rightarrow> audit_event list \<Rightarrow> units" where
  "tip prev es = (if es = [] then prev else e_hash (last es))"

lemma tip_simps [simp]: "tip prev [] = prev" "tip prev (e # es) = tip (e_hash e) es"
  by (simp_all add: tip_def)

lemma tip_snoc [simp]: "tip prev (es @ [e]) = e_hash e"
  by (simp add: tip_def)

lemma chained_append:
  "chained H n prev (es @ fs) \<longleftrightarrow> chained H n prev es \<and> chained H (n + length es) (tip prev es) fs"
  by (induction es arbitrary: n prev) auto

lemma chained_last: "chained H n prev es \<Longrightarrow> es \<noteq> [] \<Longrightarrow> c_seq (last es) = n + length es - 1"
  by (induction es arbitrary: n prev) auto

end
