(* ===== verification/Audit_Verify.thy ===== *)
theory Audit_Verify
  imports Audit_Chain
begin

text \<open>
  What the audit chain promises: the hashed text identifies the record, every append keeps the
  stored records a sound chain, the verifier accepts exactly the sound chains, and two sound
  chains with the same start and the same head are equal unless SHA-256 collided.
\<close>

subsection \<open>Records and their cores\<close>

lemma core_of_sealed [simp]: "core_of (sealed c h) = c"
  by (cases c) (simp add: core_of_def sealed_def audit_core.defs audit_event.defs)

lemma e_hash_sealed [simp]: "e_hash (sealed c h) = h"
  by (cases c) (simp add: sealed_def audit_core.defs audit_event.defs)

lemma core_of_sel [simp]:
  "c_seq (core_of e) = c_seq e" "c_at (core_of e) = c_at e" "c_actor (core_of e) = c_actor e"
  "c_action (core_of e) = c_action e" "c_subject (core_of e) = c_subject e"
  "c_prevHash (core_of e) = c_prevHash e" "c_meta (core_of e) = c_meta e"
  by (simp_all add: core_of_def audit_core.defs)

lemma sealed_sel [simp]:
  "c_seq (sealed c h) = c_seq c" "c_at (sealed c h) = c_at c" "c_actor (sealed c h) = c_actor c"
  "c_action (sealed c h) = c_action c" "c_subject (sealed c h) = c_subject c"
  "c_prevHash (sealed c h) = c_prevHash c" "c_meta (sealed c h) = c_meta c"
  by (simp_all add: sealed_def audit_core.defs)

lemma event_eqI:
  assumes "core_of e = core_of e'" "e_hash e = e_hash e'"
  shows "e = (e' :: audit_event)"
  using assms by (cases e; cases e') (simp add: core_of_def audit_core.defs)

subsection \<open>The hashed text identifies the record\<close>

text \<open>No part but the last contains the separator.\<close>

lemma in_take_or_drop: "u \<in> set s \<Longrightarrow> u \<in> set (take n s) \<or> u \<in> set (drop n s)"
  by (metis Un_iff append_take_drop_id set_append)

lemma in_nth_or_drop: "u \<in> set (drop n s) \<Longrightarrow> n < length s \<Longrightarrow> u = s ! n \<or> u \<in> set (drop (Suc n) s)"
  by (simp add: Cons_nth_drop_Suc [symmetric])

lemma date_units:
  assumes "date_ok s" "u \<in> set s"
  shows "is_digit16 u \<or> u = u16 CHR ''-''"
proof -
  have len: "length s = 10" using assms(1) by (simp add: date_ok_def)
  have "u \<in> set (take 4 s) \<or> u = s ! 4 \<or> u \<in> set (drop 5 s)"
    using in_take_or_drop [OF assms(2), of 4] in_nth_or_drop [of u 4 s] len by auto
  moreover have "u \<in> set (take 2 (drop 5 s)) \<or> u = s ! 7 \<or> u \<in> set (drop 8 s)" if "u \<in> set (drop 5 s)"
    using in_take_or_drop [OF that, of 2] in_nth_or_drop [of u 7 s] len by auto
  ultimately show ?thesis
    using assms(1) unfolding date_ok_def list_all_iff by blast
qed

lemma clock_units:
  assumes "clock_ok s" "u \<in> set s"
  shows "is_digit16 u \<or> u = u16 CHR '':''"
proof -
  have "u \<in> set (take 2 s) \<or> u = s ! 2 \<or> u \<in> set (drop 3 s)"
    using in_take_or_drop [OF assms(2), of 2] in_nth_or_drop [of u 2 s] assms(1)
    by (auto simp: clock_ok_def)
  then show ?thesis
    using assms(1) unfolding clock_ok_def two_digits_upto_def list_all_iff by blast
qed

definition instant_unit :: "unit16 \<Rightarrow> bool" where
  "instant_unit u \<longleftrightarrow> is_digit16 u \<or> u \<in> set (asc ''-:.+TZ'')"

lemma zone_units: "zone_ok s \<Longrightarrow> u \<in> set s \<Longrightarrow> instant_unit u"
  by (cases s) (auto simp: zone_ok_def instant_unit_def dest: clock_units)

lemma fraction_zone_units:
  assumes "fraction_zone_ok s" "u \<in> set s"
  shows "instant_unit u"
proof (cases "s \<noteq> [] \<and> hd s = u16 CHR ''.''")
  case True
  then have "s = u16 CHR ''.'' # takeWhile is_digit16 (tl s) @ dropWhile is_digit16 (tl s)"
    by (cases s) simp_all
  then have "u = u16 CHR ''.'' \<or> u \<in> set (takeWhile is_digit16 (tl s)) \<or> u \<in> set (dropWhile is_digit16 (tl s))"
    using assms(2) by (metis Un_iff set_ConsD set_append)
  with assms(1) True zone_units set_takeWhileD show ?thesis
    by (fastforce simp: fraction_zone_ok_def instant_unit_def)
next
  case False
  with assms zone_units show ?thesis by (auto simp: fraction_zone_ok_def)
qed

lemma seconds_zone_units:
  assumes "seconds_zone_ok s" "u \<in> set s"
  shows "instant_unit u"
proof (cases "s \<noteq> [] \<and> hd s = u16 CHR '':''")
  case True
  then have "s = u16 CHR '':'' # take 2 (tl s) @ drop 3 s" by (cases s) simp_all
  then have "u = u16 CHR '':'' \<or> u \<in> set (take 2 (tl s)) \<or> u \<in> set (drop 3 s)"
    using assms(2) by (metis Un_iff set_ConsD set_append)
  with assms(1) True fraction_zone_units show ?thesis
    by (auto simp: seconds_zone_ok_def instant_unit_def two_digits_upto_def list_all_iff)
next
  case False
  with assms zone_units show ?thesis by (auto simp: seconds_zone_ok_def)
qed

lemma iso_units:
  assumes "iso_datetime_ok s" "u \<in> set s"
  shows "instant_unit u"
proof -
  have len: "16 \<le> length s" using assms(1) by (simp add: iso_datetime_ok_def)
  have "u \<in> set (take 10 s) \<or> u = s ! 10 \<or> u \<in> set (drop 11 s)"
    using in_take_or_drop [OF assms(2), of 10] in_nth_or_drop [of u 10 s] len by auto
  moreover have "u \<in> set (take 5 (drop 11 s)) \<or> u \<in> set (drop 16 s)" if "u \<in> set (drop 11 s)"
    using in_take_or_drop [OF that, of 5] by simp
  moreover have "instant_unit u" if "u \<in> set (take 10 s)"
    using that assms(1) date_units [of "take 10 s"] by (auto simp: iso_datetime_ok_def instant_unit_def)
  moreover have "instant_unit u" if "u \<in> set (take 5 (drop 11 s))"
    using that assms(1) clock_units [of "take 5 (drop 11 s)"] by (auto simp: iso_datetime_ok_def instant_unit_def)
  moreover have "instant_unit u" if "u \<in> set (drop 16 s)"
    using that assms(1) seconds_zone_units by (auto simp: iso_datetime_ok_def)
  moreover have "instant_unit (s ! 10)"
    using assms(1) by (simp add: iso_datetime_ok_def instant_unit_def)
  ultimately show ?thesis by blast
qed

lemma pipe_not_instant: "\<not> instant_unit 0x7C"
  by (simp add: instant_unit_def is_digit16_def u16_def)

lemma iso_no_pipe: "iso_datetime_ok s \<Longrightarrow> 0x7C \<notin> set s"
  using iso_units pipe_not_instant by blast

lemma u16_pipe: "u16 CHR ''|'' = 0x7C"
  by (simp add: u16_def)

lemma asc_no_pipe: "CHR ''|'' \<notin> set s \<Longrightarrow> 0x7C \<notin> set (asc s)"
  unfolding u16_pipe [symmetric] set_asc by auto

lemma dec_no_pipe: "0x7C \<notin> set (asc (dec n))"
  by (rule asc_no_pipe) (auto simp: is_digit_def dest: dec_digits)

lemma action_no_pipe: "0x7C \<notin> set (asc (action_str a))"
  by (rule asc_no_pipe) (auto simp: is_upper_def dest: action_str_chars)

lemma prev_hash_no_pipe: "prev_hash_ok s \<Longrightarrow> 0x7C \<notin> set s"
proof
  assume ok: "prev_hash_ok s" and mem: "0x7C \<in> set s"
  have "0x7C \<notin> set GENESIS" by (simp add: GENESIS_def u16_def)
  with ok mem have "sha256_hex_ok s" by (auto simp: prev_hash_ok_def)
  with mem show False by (auto simp: sha256_hex_ok_def list_all_iff is_digit16_def)
qed

text \<open>What the contract guarantees of the fields that are not escaped.\<close>

definition core_plain :: "audit_core \<Rightarrow> bool" where
  "core_plain c \<longleftrightarrow> iso_datetime_ok (c_at c) \<and> prev_hash_ok (c_prevHash c) \<and> js_ok (c_meta c)"

text \<open>The same record, object keys in whatever order.\<close>

definition same_core :: "audit_core \<Rightarrow> audit_core \<Rightarrow> bool" where
  "same_core c d \<longleftrightarrow> c_seq c = c_seq d \<and> c_at c = c_at d \<and> c_actor c = c_actor d \<and>
     c_action c = c_action d \<and> c_subject c = c_subject d \<and> c_prevHash c = c_prevHash d \<and>
     norm (c_meta c) = norm (c_meta d)"

definition chain_fields :: "audit_core \<Rightarrow> units \<Rightarrow> units list" where
  "chain_fields c meta = [asc (dec (c_seq c)), c_at c, canonicalString (c_actor c),
     asc (action_str (c_action c)), canonicalString (c_subject c), c_prevHash c, meta]"

lemma chain_fields_no_pipe:
  "core_plain c \<Longrightarrow> \<forall>x \<in> set (butlast (chain_fields c meta)). 0x7C \<notin> set x"
  by (simp add: chain_fields_def core_plain_def canonicalString_def dec_no_pipe iso_no_pipe
      action_no_pipe prev_hash_no_pipe escapeString_no_pipe)

lemma chainInput_eq: "chainInput c = Inr s \<longleftrightarrow>
    (\<exists>meta. canonicalize (c_meta c) = Inr meta \<and> s = join [0x7C] (chain_fields c meta))"
  by (auto simp del: join.simps simp: chainInput_def chain_fields_def u16_pipe split: sum.splits)

lemma chainInput_inj:
  assumes "chainInput c = Inr s" "chainInput d = Inr s" "core_plain c" "core_plain d"
  shows "same_core c d"
proof -
  obtain m m' where m: "canonicalize (c_meta c) = Inr m" "s = join [0x7C] (chain_fields c m)"
    and m': "canonicalize (c_meta d) = Inr m'" "s = join [0x7C] (chain_fields d m')"
    using assms(1,2) unfolding chainInput_eq by blast
  have "chain_fields c m = chain_fields d m'"
  proof (rule join_separated_inj)
    show "length (chain_fields c m) = length (chain_fields d m')" by (simp add: chain_fields_def)
    show "join [0x7C] (chain_fields c m) = join [0x7C] (chain_fields d m')" using m(2) m'(2) by (rule subst)
  qed (use assms chain_fields_no_pipe in blast)+
  then have fields: "same_core (c\<lparr>c_meta := JNull\<rparr>) (d\<lparr>c_meta := JNull\<rparr>)" "m = m'"
    by (simp_all add: chain_fields_def same_core_def canonicalString_def)
  have "norm (c_meta c) = norm (c_meta d)"
    using canonicalize_inj m m' fields(2) assms(3,4) unfolding core_plain_def by blast
  with fields show ?thesis by (simp add: same_core_def)
qed

lemma chainInput_same: "same_core c d \<Longrightarrow> chainInput c = chainInput d"
  using canonicalize_norm [of "c_meta c" "c_meta d"] by (auto simp: same_core_def chainInput_def split: sum.split)

subsection \<open>Sealing\<close>

text \<open>A record the contract accepts as it is, with a hash of the right shape.\<close>

definition sound_event :: "audit_event \<Rightarrow> bool" where
  "sound_event e \<longleftrightarrow> parse_core (core_of e) = Some (core_of e) \<and> sha256_hex_ok (e_hash e)"

lemma parse_core_trimmed:
  assumes "parse_core c = Some d" "js_trim (c_actor c) = c_actor c" "js_trim (c_subject c) = c_subject c"
  shows "d = c"
  using assms by (auto simp: parse_core_def split: if_splits)

lemma rehash_sealed [simp]: "rehash H (sealed c h) = computeEventHash H c"
  by (simp add: rehash_def)

lemma parseActor_trimmed: "parseActor a \<noteq> None \<Longrightarrow> js_trim a = a"
  by (auto simp: parseActor_def split: if_splits)

lemma subjectRejection_trimmed: "subjectRejection nfc t = None \<Longrightarrow> js_trim t = t"
  by (auto simp: subjectRejection_def split: if_splits)

lemma sealEvent_cases:
  assumes "sealEvent H nfc c = r"
  obtains (refused) err where "r = Inl err" "err \<noteq> NotSelfHashing"
  | (sealed) h where "r = Inr (sealed c h)" "computeEventHash H c = Inr h" "sound_event (sealed c h)"
      "parseActor (c_actor c) \<noteq> None" "subjectRejection nfc (c_subject c) = None" "utc_instant (c_at c)"
proof (cases "parseActor (c_actor c) = None \<or> subjectRejection nfc (c_subject c) \<noteq> None \<or>
    \<not> utc_instant (c_at c) \<or> parse_core c = None")
  case True
  with assms refused show thesis by (auto simp: sealEvent_def split: option.splits if_splits)
next
  case False
  then have ok: "parseActor (c_actor c) \<noteq> None" "subjectRejection nfc (c_subject c) = None"
    "utc_instant (c_at c)" and core: "parse_core c = Some c"
    using parse_core_trimmed parseActor_trimmed subjectRejection_trimmed by auto
  show thesis
  proof (cases "\<exists>h. computeEventHash H c = Inr h \<and> sha256_hex_ok h")
    case True
    then obtain h where h: "computeEventHash H c = Inr h" "sha256_hex_ok h" by blast
    have "r = Inr (sealed c h)"
      using assms ok core h by (auto simp: sealEvent_def)
    with h ok core show thesis by (intro sealed) (simp_all add: sound_event_def)
  next
    case False
    with assms ok core refused show thesis
      by (auto simp: sealEvent_def split: sum.splits)
  qed
qed

lemma seal_next_cases:
  assumes "seal_next H nfc clock head i = Inr e"
  obtains at where "input_instant clock i = Some at" "core_of e = next_core head i at" "sound_event e"
    "rehash H e = Inr (e_hash e)" "parseActor (in_actor i) \<noteq> None"
    "humanOnly (in_action i) \<longrightarrow> isHumanActor (in_actor i)"
proof -
  obtain ident at where a: "parseActor (in_actor i) = Some ident" "input_instant clock i = Some at"
      "sealEvent H nfc (next_core head i at) = Inr e"
      "humanOnly (in_action i) \<longrightarrow> (case ident of Human _ \<Rightarrow> True | _ \<Rightarrow> False)"
    using assms
    by (auto simp: seal_next_def split: option.splits if_splits actor_identity.splits)
  show thesis
    by (rule sealEvent_cases [OF a(3)]; rule that [of at]) (use a in \<open>auto simp: isHumanActor_def\<close>)
qed

text \<open>The record \<open>e\<close> is the one the input asked for.\<close>

definition recorded_for :: "units \<Rightarrow> audit_event \<Rightarrow> append_input \<Rightarrow> bool" where
  "recorded_for now e i \<longleftrightarrow> c_actor e = in_actor i \<and> c_action e = in_action i \<and> c_subject e = in_subject i \<and>
     Some (c_at e) = input_instant now i \<and> c_meta e = (case in_meta i of None \<Rightarrow> JObj [] | Some m \<Rightarrow> m) \<and>
     (humanOnly (c_action e) \<longrightarrow> isHumanActor (c_actor e))"

subsection \<open>The store contract\<close>

text \<open>
  What the append path relies on: the store remembers the records in order, and its head is the
  last of them. A store may refuse a record.
\<close>

locale audit_store =
  fixes head_op :: "'s \<Rightarrow> audit_event option"
    and append_op :: "audit_event \<Rightarrow> 's \<Rightarrow> audit_error + 's"
    and contents :: "'s \<Rightarrow> audit_event list"
    and inv :: "'s \<Rightarrow> bool"
  assumes head_law: "inv s \<Longrightarrow> head_op s = (if contents s = [] then None else Some (last (contents s)))"
    and append_law: "inv s \<Longrightarrow> append_op e s = Inr s' \<Longrightarrow> contents s' = contents s @ [e] \<and> inv s'"
begin

text \<open>What every append run keeps.\<close>

definition good :: "(units \<Rightarrow> units) \<Rightarrow> 's \<Rightarrow> bool" where
  "good H s \<longleftrightarrow> inv s \<and> chained H 1 GENESIS (contents s) \<and> list_all sound_event (contents s)"

lemma next_link:
  assumes "good H s" "head = head_op s" "core_of e = next_core head i at" "rehash H e = Inr (e_hash e)"
    "sound_event e" "append_op e s = Inr s'"
  shows "good H s' \<and> contents s' = contents s @ [e] \<and> head_op s' = Some e"
proof -
  have c: "contents s' = contents s @ [e]" "inv s'"
    using append_law assms unfolding good_def by blast+
  have "c_seq e = (case head of None \<Rightarrow> 0 | Some h \<Rightarrow> c_seq h) + 1"
    "c_prevHash e = (case head of None \<Rightarrow> GENESIS | Some h \<Rightarrow> e_hash h)"
    using arg_cong [OF assms(3), of c_seq] arg_cong [OF assms(3), of c_prevHash] by (simp_all add: next_core_def)
  moreover have "c_seq (last (contents s)) = length (contents s)" if "contents s \<noteq> []"
    using chained_last [of H 1 GENESIS "contents s"] that assms(1) by (simp add: good_def)
  ultimately have "c_seq e = 1 + length (contents s)" "c_prevHash e = tip GENESIS (contents s)"
    using head_law [of s] assms(1,2) by (auto simp: good_def tip_def)
  then show ?thesis
    using c assms head_law [of s'] by (simp add: good_def chained_append)
qed

lemma seal_from_good:
  assumes "good H s" "head = head_op s" "seal_from H nfc append_op clock inputs head s = (r, s')"
  shows "good H s' \<and> (\<exists>es. contents s' = contents s @ es \<and> length es \<le> length inputs \<and>
     (\<forall>k < length es. recorded_for (clock k) (es ! k) (inputs ! k)) \<and>
     (\<forall>es'. r = Inr es' \<longrightarrow> es' = es \<and> length es = length inputs))"
  using assms
proof (induction inputs arbitrary: clock head s r)
  case Nil
  then show ?case by (intro conjI exI [of _ "[]"]) auto
next
  case (Cons i rest)
  show ?case
  proof (cases "seal_next H nfc (clock 0) head i")
    case (Inl e)
    with Cons.prems show ?thesis by (intro conjI exI [of _ "[]"]) auto
  next
    case (Inr e)
    show ?thesis
    proof (cases "append_op e s")
      case (Inl err)
      with Inr Cons.prems show ?thesis by (intro conjI exI [of _ "[]"]) auto
    next
      case app: (Inr s1)
      obtain at where at: "input_instant (clock 0) i = Some at" "core_of e = next_core head i at" "sound_event e"
        "rehash H e = Inr (e_hash e)" "humanOnly (in_action i) \<longrightarrow> isHumanActor (in_actor i)"
        using Inr by (rule seal_next_cases)
      have s1: "good H s1" "contents s1 = contents s @ [e]" "head_op s1 = Some e"
        using next_link [OF Cons.prems(1,2) at(2,4,3) app] by auto
      obtain r1 where r1: "seal_from H nfc append_op (\<lambda>k. clock (Suc k)) rest (Some e) s1 = (r1, s')"
        "r = map_sum id ((#) e) r1"
        using Cons.prems(3) Inr app by (auto split: prod.splits sum.splits)
      have e: "c_actor e = in_actor i" "c_action e = in_action i" "c_subject e = in_subject i" "c_at e = at"
        "c_meta e = (case in_meta i of None \<Rightarrow> JObj [] | Some m \<Rightarrow> m)"
        using arg_cong [OF at(2), of c_actor] arg_cong [OF at(2), of c_action]
          arg_cong [OF at(2), of c_subject] arg_cong [OF at(2), of c_at]
          arg_cong [OF at(2), of c_meta] by (simp_all add: next_core_def)
      obtain es where es: "good H s'" "contents s' = contents s1 @ es" "length es \<le> length rest"
        "\<forall>k < length es. recorded_for (clock (Suc k)) (es ! k) (rest ! k)"
        "\<forall>es'. r1 = Inr es' \<longrightarrow> es' = es \<and> length es = length rest"
        using Cons.IH [OF s1(1) s1(3) [symmetric] r1(1)] by blast
      show ?thesis
        by (intro conjI exI [of _ "e # es"]) 
          (use es s1 e at r1(2) in \<open>auto simp: map_sum_def recorded_for_def All_less_Suc2 split: sum.splits\<close>)
    qed
  qed
qed

lemmas sealAll_good = seal_from_good [where head = "head_op s" for s, OF _ refl, folded sealAll_def]

end

text \<open>The in-memory store keeps the contract.\<close>

definition mem_inv :: "mem_store \<Rightarrow> bool" where
  "mem_inv s \<longleftrightarrow> ms_hashes s = e_hash ` set (ms_events s) \<and> ms_prevHashes s = c_prevHash ` set (ms_events s)"

interpretation mem: audit_store mem_head mem_append ms_events mem_inv
  by unfold_locales (auto simp: mem_head_def mem_append_def mem_inv_def split: if_splits)

lemma mem_good_empty: "mem.good H mem_empty"
  by (simp add: mem.good_def mem_inv_def mem_empty_def)

subsection \<open>Verification\<close>

text \<open>A stored record as a row.\<close>

definition raw_of :: "audit_event \<Rightarrow> raw_event" where
  "raw_of e = \<lparr>r_seq = int (c_seq e), r_at = c_at e, r_actor = c_actor e,
     r_action = asc (action_str (c_action e)), r_subject = c_subject e, r_prevHash = c_prevHash e,
     r_hash = e_hash e, r_meta = Some (c_meta e)\<rparr>"

definition row_of :: "audit_event \<Rightarrow> candidate" where
  "row_of e = Row (raw_of e)"

lemma find_unique: "x \<in> set xs \<Longrightarrow> (\<And>y. y \<in> set xs \<Longrightarrow> P y \<longleftrightarrow> y = x) \<Longrightarrow> List.find P xs = Some x"
  by (induction xs) auto

lemma action_of_str [simp]: "action_of (asc (action_str a)) = Some a"
  unfolding action_of_def by (rule find_unique) (auto simp: in_AUDIT_ACTIONS)

lemma core_of_eq: "core_of e = \<lparr>c_seq = c_seq e, c_at = c_at e, c_actor = c_actor e, c_action = c_action e,
    c_subject = c_subject e, c_prevHash = c_prevHash e, c_meta = c_meta e\<rparr>"
  by (simp add: core_of_def audit_core.defs)

lemma sealed_core_of [simp]: "sealed (core_of e) (e_hash e) = e"
  by (rule event_eqI) simp_all

lemma parse_row_of: "sound_event e \<Longrightarrow> parse_event (row_of e) = Some e"
proof -
  assume s: "sound_event e"
  then have "0 < c_seq e" by (auto simp: sound_event_def parse_core_def split: if_splits)
  with s show ?thesis
    unfolding row_of_def raw_of_def by (simp add: sound_event_def core_of_eq [symmetric])
qed

lemma verify_rows_Cons:
  "verify_rows H first prev0 previous hh index (row # rows) = Inr ([], hh') \<longleftrightarrow>
   (\<exists>e. parse_event row = Some e \<and> link_issues first prev0 previous index e = [] \<and>
     rehash H e = Inr (e_hash e) \<and>
     verify_rows H first prev0 (Some \<lparr>l_seq = int (c_seq e), l_hash = Some (e_hash e)\<rparr>) (Some (e_hash e))
       (index + 1) rows = Inr ([], hh'))"
proof (cases "parse_event row")
  case None
  have "map_sum id (\<lambda>(is, h). (i # is, h)) r \<noteq> Inr ([], hh')" for i and r :: "(chain_issue list \<times> units option) canon"
    by (cases r) auto
  with None show ?thesis by (simp add: Let_def)
next
  case (Some e)
  have "map_sum id (\<lambda>(is, h). (a @ b @ is, h)) r = Inr ([], hh') \<longleftrightarrow> a = [] \<and> b = [] \<and> r = Inr ([], hh')"
    for a b and r :: "(chain_issue list \<times> units option) canon"
    by (cases r) auto
  with Some show ?thesis by (cases "rehash H e") simp_all
qed

lemma link_issues_linked: "link_issues first prev0 (Some \<lparr>l_seq = int n, l_hash = Some h\<rparr>) index e = [] \<longleftrightarrow>
    c_seq e = n + 1 \<and> c_prevHash e = h"
  by (auto simp: link_issues_def Let_def)

lemma link_issues_start: "link_issues (int n) prev0 None 0 e = [] \<longleftrightarrow> c_seq e = n \<and> c_prevHash e = prev0"
  by (auto simp: link_issues_def Let_def)

text \<open>After a readable record: nothing is found exactly when the rest continues it.\<close>

lemma verify_rows_linked:
  "verify_rows H first prev0 (Some \<lparr>l_seq = int n, l_hash = Some h\<rparr>) hh index rows = Inr ([], hh') \<longleftrightarrow>
   (\<exists>es. map parse_event rows = map Some es \<and> chained H (n + 1) h es \<and>
     hh' = (if es = [] then hh else Some (tip h es)))"
proof (induction rows arbitrary: n h hh index)
  case (Cons row rows)
  show ?case (is "?l \<longleftrightarrow> ?r")
  proof
    assume ?l
    then obtain e es where "parse_event row = Some e" "c_seq e = n + 1" "c_prevHash e = h"
        "rehash H e = Inr (e_hash e)" "map parse_event rows = map Some es"
        "chained H (c_seq e + 1) (e_hash e) es" "hh' = (if es = [] then Some (e_hash e) else Some (tip (e_hash e) es))"
      unfolding verify_rows_Cons link_issues_linked Cons.IH by blast
    then show ?r by (intro exI [of _ "e # es"]) auto
  next
    assume ?r
    then obtain e es where "parse_event row = Some e" "c_seq e = n + 1" "c_prevHash e = h"
        "rehash H e = Inr (e_hash e)" "map parse_event rows = map Some es"
        "chained H (c_seq e + 1) (e_hash e) es" "hh' = Some (tip (e_hash e) es)"
      by (auto simp: Cons_eq_map_conv)
    then show ?l unfolding verify_rows_Cons link_issues_linked Cons.IH
      by (intro exI [of _ e] conjI exI [of _ es]) auto
  qed
qed auto

lemma verify_rows_start:
  "verify_rows H (int n) prev0 None None 0 rows = Inr ([], hh') \<longleftrightarrow>
   (\<exists>es. map parse_event rows = map Some es \<and> chained H n prev0 es \<and>
     hh' = (if es = [] then None else Some (tip prev0 es)))" (is "?l \<longleftrightarrow> ?r")
proof (cases rows)
  case (Cons row rest)
  show ?thesis
  proof
    assume ?l
    then obtain e es where "parse_event row = Some e" "c_seq e = n" "c_prevHash e = prev0"
        "rehash H e = Inr (e_hash e)" "map parse_event rest = map Some es"
        "chained H (c_seq e + 1) (e_hash e) es" "hh' = (if es = [] then Some (e_hash e) else Some (tip (e_hash e) es))"
      unfolding Cons verify_rows_Cons link_issues_start verify_rows_linked by blast
    then show ?r using Cons by (intro exI [of _ "e # es"]) auto
  next
    assume ?r
    with Cons obtain e es where "parse_event row = Some e" "c_seq e = n" "c_prevHash e = prev0"
        "rehash H e = Inr (e_hash e)" "map parse_event rest = map Some es"
        "chained H (c_seq e + 1) (e_hash e) es" "hh' = Some (tip (e_hash e) es)"
      by (auto simp: Cons_eq_map_conv)
    then show ?l unfolding Cons verify_rows_Cons link_issues_start verify_rows_linked
      by (intro exI [of _ e] conjI exI [of _ es]) auto
  qed
qed auto

lemma verifyChain_eq:
  "(\<exists>v. verifyChain H first prev0 rows = Inr v \<and> v_ok v \<and> v_headHash v = h) \<longleftrightarrow>
   rows \<noteq> [] \<and> verify_rows H first prev0 None None 0 rows = Inr ([], h)"
  by (cases "verify_rows H first prev0 None None 0 rows") (auto simp: verifyChain_def Let_def)

subsection \<open>Tampering\<close>

definition same_record :: "audit_event \<Rightarrow> audit_event \<Rightarrow> bool" where
  "same_record e f \<longleftrightarrow> same_core (core_of e) (core_of f) \<and> e_hash e = e_hash f"

text \<open>Two different hashed texts with one hash, among the records at hand.\<close>

definition collision :: "(units \<Rightarrow> units) \<Rightarrow> audit_event list \<Rightarrow> audit_event list \<Rightarrow> bool" where
  "collision H es fs \<longleftrightarrow> (\<exists>e \<in> set es. \<exists>f \<in> set fs. \<exists>s t. chainInput (core_of e) = Inr s \<and>
     chainInput (core_of f) = Inr t \<and> s \<noteq> t \<and> H s = H t)"

lemma same_hash:
  assumes "rehash H e = Inr (e_hash e)" "rehash H f = Inr (e_hash f)" "e_hash e = e_hash f"
    "core_plain (core_of e)" "core_plain (core_of f)"
  shows "same_record e f \<or> collision H [e] [f]"
proof -
  obtain s t where st: "chainInput (core_of e) = Inr s" "e_hash e = H s" "chainInput (core_of f) = Inr t" "e_hash f = H t"
    using assms(1,2) by (auto simp: rehash_def computeEventHash_def map_sum_def split: sum.splits)
  show ?thesis
  proof (cases "s = t")
    case True
    with st assms chainInput_inj show ?thesis by (auto simp: same_record_def)
  next
    case False
    with st assms(3) show ?thesis by (auto simp: collision_def)
  qed
qed

lemma collision_mono: "collision H es fs \<Longrightarrow> set es \<subseteq> set es' \<Longrightarrow> set fs \<subseteq> set fs' \<Longrightarrow> collision H es' fs'"
  unfolding collision_def by blast

lemma chained_snoc: "chained H n prev (es @ [e]) \<longleftrightarrow> chained H n prev es \<and>
    c_seq e = n + length es \<and> c_prevHash e = tip prev es \<and> rehash H e = Inr (e_hash e)"
  by (auto simp: chained_append)

lemma same_tip:
  assumes "chained H n prev es" "chained H n prev fs" "tip prev es = tip prev fs" "length es = length fs"
    "\<forall>e \<in> set es \<union> set fs. core_plain (core_of e)" "\<not> collision H es fs"
  shows "list_all2 same_record es fs"
  using assms
proof (induction es arbitrary: fs rule: rev_induct)
  case (snoc e es)
  then obtain f fs' where fs: "fs = fs' @ [f]" by (cases fs rule: rev_cases) auto
  have "\<not> collision H [e] [f]" "\<not> collision H es fs'"
    using snoc.prems(6) fs collision_mono [of H "[e]" "[f]" "es @ [e]" fs]
      collision_mono [of H es fs' "es @ [e]" fs] by auto
  moreover from this(1) have "same_record e f"
    using same_hash [of H e f] snoc.prems fs by (auto simp: chained_snoc)
  ultimately show ?case
    using snoc fs by (auto simp: chained_snoc same_record_def same_core_def list_all2_append)
qed simp

text \<open>The last records fix the lengths.\<close>

lemma same_tip_length:
  assumes "chained H n prev es" "chained H n prev fs" "tip prev es = tip prev fs" "es \<noteq> []" "fs \<noteq> []"
    "\<forall>e \<in> set es \<union> set fs. core_plain (core_of e)" "\<not> collision H es fs"
  shows "length es = length fs"
proof -
  obtain es' e where es: "es = es' @ [e]" using assms(4) by (cases es rule: rev_cases) auto
  obtain fs' f where fs: "fs = fs' @ [f]" using assms(5) by (cases fs rule: rev_cases) auto
  have "\<not> collision H [e] [f]" using assms(7) es fs collision_mono by fastforce
  then have "same_record e f"
    using same_hash [of H e f] assms es fs by (auto simp: chained_snoc)
  then show ?thesis using assms(1,2) es fs by (auto simp: chained_snoc same_record_def same_core_def)
qed

subsection \<open>Slices\<close>

lemma chained_slice:
  "chained H n prev es \<Longrightarrow>
   filter (\<lambda>e. m \<le> c_seq e \<and> c_seq e \<le> t) es = drop (m - n) (take (Suc t - n) es)"
proof (induction es arbitrary: n prev)
  case (Cons e es)
  then have IH: "filter (\<lambda>e. m \<le> c_seq e \<and> c_seq e \<le> t) es = drop (m - Suc n) (take (t - n) es)" and "c_seq e = n"
    by auto
  then show ?case by (cases "n \<le> t"; cases "n < m") (auto simp: Suc_diff_le drop_Cons' take_Cons')
qed simp

subsection \<open>Padding\<close>

text \<open>The same row but for white space around the actor and the subject.\<close>

definition padded :: "raw_event \<Rightarrow> raw_event \<Rightarrow> bool" where
  "padded r r' \<longleftrightarrow> r_seq r' = r_seq r \<and> r_at r' = r_at r \<and> r_action r' = r_action r \<and>
     r_prevHash r' = r_prevHash r \<and> r_hash r' = r_hash r \<and> r_meta r' = r_meta r \<and>
     js_trim (r_actor r') = js_trim (r_actor r) \<and> js_trim (r_subject r') = js_trim (r_subject r)"

lemma parse_event_padded: "padded r r' \<Longrightarrow> parse_event (Row r') = parse_event (Row r)"
  by (auto simp: padded_def parse_core_def split: option.split)

lemma verify_rows_padded:
  "list_all2 padded rs rs' \<Longrightarrow>
   verify_rows H first prev0 previous hh index (map Row rs') = verify_rows H first prev0 previous hh index (map Row rs)"
proof (induction rs rs' arbitrary: previous hh index rule: list_all2_induct)
  case (Cons r rs r' rs')
  have "readSeq (Row r') = readSeq (Row r)" "readHash (Row r') = readHash (Row r)"
    using Cons(1) by (simp_all add: padded_def)
  with Cons parse_event_padded [OF Cons(1)] show ?case
    by (simp only: list.map verify_rows.simps)
qed simp

end
