(* ===== verification/Audit_Sample.thy ===== *)
theory Audit_Sample
  imports Audit_Verify
begin

text \<open>
  Concrete inputs for the audit chain, for the witnesses of its properties: a digest that
  prints the length of the text in 64 digits stands for SHA-256, the identity for NFC.
\<close>

subsection \<open>Sample data\<close>

definition hex64 :: "nat \<Rightarrow> units" where
  "hex64 n = replicate 61 0x30 @ asc (dec n)"

definition sample_digest :: "units \<Rightarrow> units" where
  "sample_digest s = hex64 (100 + length s mod 900)"

definition sample_clock :: units where
  "sample_clock = asc ''2026-01-02T03:04:05.678Z''"

definition sample_inputs :: "append_input list" where
  "sample_inputs =
    [\<lparr>in_actor = WORKER, in_action = GATE_OPEN, in_subject = asc ''A-1'',
      in_meta = Some (JObj [(asc ''b'', JNull), (asc ''a'', JStr (asc ''|''))]), in_at = AtClock\<rparr>,
     \<lparr>in_actor = asc ''a@b'', in_action = GATE_APPROVE, in_subject = asc ''A-1'', in_meta = None,
      in_at = AtClock\<rparr>]"

definition sample_first :: audit_event where
  "sample_first = sealed (next_core None (sample_inputs ! 0) sample_clock) (hex64 191)"

definition sample_second :: audit_event where
  "sample_second = sealed (next_core (Some sample_first) (sample_inputs ! 1) sample_clock) (hex64 219)"

lemma sample_seal:
  "seal_next sample_digest id sample_clock None (sample_inputs ! 0) = Inr sample_first"
  "seal_next sample_digest id sample_clock (Some sample_first) (sample_inputs ! 1) = Inr sample_second"
  by code_simp+

text \<open>What the sample run stores.\<close>

definition sample_store :: mem_store where
  "sample_store = \<lparr>ms_events = [sample_first, sample_second], ms_hashes = {hex64 219, hex64 191},
     ms_prevHashes = {hex64 191, GENESIS}\<rparr>"

lemma sample_fields:
  "c_seq sample_first = 1" "c_seq sample_second = 2" "e_hash sample_first = hex64 191"
  "e_hash sample_second = hex64 219" "c_prevHash sample_first = GENESIS" "c_prevHash sample_second = hex64 191"
  by (simp_all add: sample_first_def sample_second_def next_core_def)

lemma sample_hashes: "hex64 191 \<noteq> hex64 219" "GENESIS \<noteq> hex64 191"
  by code_simp+

lemma sample_stored:
  "sealAll sample_digest id mem_head mem_append (\<lambda>_. sample_clock) sample_inputs mem_empty =
     (Inr [sample_first, sample_second], sample_store)"
proof -
  have inputs: "sample_inputs = [sample_inputs ! 0, sample_inputs ! 1]" by (simp add: sample_inputs_def)
  let ?s1 = "\<lparr>ms_events = [sample_first], ms_hashes = {hex64 191}, ms_prevHashes = {GENESIS}\<rparr>"
  have 1: "mem_append sample_first mem_empty = Inr ?s1"
    by (simp add: mem_append_def mem_head_def mem_empty_def sample_fields)
  have 2: "mem_append sample_second ?s1 = Inr sample_store"
    using sample_hashes by (auto simp: mem_append_def mem_head_def sample_fields sample_store_def)
  have 3: "mem_head mem_empty = None" by (simp add: mem_head_def mem_empty_def)
  show ?thesis
    unfolding sealAll_def by (subst inputs) (simp add: 1 2 3 sample_seal del: One_nat_def)
qed

text \<open>A record altered so that the (weak) sample digest does not notice.\<close>

definition sample_altered :: audit_event where
  "sample_altered = sealed ((next_core None (sample_inputs ! 0) sample_clock)\<lparr>c_subject := asc ''A-2''\<rparr>) (hex64 191)"

end
