(* ===== verification/Audit_Props.thy ===== *)
theory Audit_Props
  imports Audit_Sample
begin

text \<open>The properties of the audit chain.\<close>

subsection \<open>Canonical text\<close>

text \<open>
  C11: the canonical text of a value determines what the value means, and nothing else does: two
  values have the same text exactly when they are equal up to the order of object keys, a date written
  as the instant it names, and one coercion: an array of a single hole is written as the empty array.
\<close>

theorem canonical_text_is_meaning:
  assumes "canonicalize v = Inr s" "js_ok v" "js_ok v'"
  shows "canonicalize v' = Inr s \<longleftrightarrow> norm v = norm v'"
  using assms canonicalize_inj canonicalize_norm by metis

theorem canonical_text_is_meaning_witness:
  "canonicalize (JObj [(asc ''a'', JBool False), (asc ''b'', JNull)]) =
     Inr (asc ''{\"a\":false,\"b\":null}'') \<and>
   canonicalize (JObj [(asc ''a'', JStr (asc ''false'')), (asc ''b'', JNull)]) \<noteq>
     Inr (asc ''{\"a\":false,\"b\":null}'')"
proof -
  let ?v = "JObj [(asc ''b'', JNull), (asc ''a'', JBool False)]" and ?s = "asc ''{\"a\":false,\"b\":null}''"
  have v: "canonicalize ?v = Inr ?s" "js_ok ?v" by code_simp+
  have "norm ?v = norm (JObj [(asc ''a'', JBool False), (asc ''b'', JNull)])"
    "norm ?v \<noteq> norm (JObj [(asc ''a'', JStr (asc ''false'')), (asc ''b'', JNull)])" by code_simp+
  with canonical_text_is_meaning [OF v] show ?thesis by (simp add: list_all_iff)
qed

text \<open>
  C12: an escaped string is read back whole, whatever follows it, and it contains neither the
  separator of the chain input nor a line break.
\<close>

theorem escaped_string_roundtrip:
  "read_string (tl (escapeString s) @ rest) = Some (s, rest) \<and> hd (escapeString s) = u16 CHR 0x22 \<and>
   u16 CHR ''|'' \<notin> set (escapeString s)"
  using read_quote_units [of s rest] escapeString_no_pipe [of s]
  by (simp add: escapeString_eq u16_pipe) (simp add: u16_def)

subsection \<open>The chain\<close>

text \<open>
  C13: the hashed text identifies the record: two records the contract accepts have the same chain
  input exactly when they agree in every field, their metadata up to key order.
\<close>

theorem chain_text_identifies_record:
  assumes "chainInput c = Inr s" "core_plain c" "core_plain d"
  shows "chainInput d = Inr s \<longleftrightarrow> same_core c d"
  using assms chainInput_inj chainInput_same by metis

theorem chain_text_identifies_record_witness:
  "chainInput ((core_of sample_first)\<lparr>c_actor := RUNNER\<rparr>) \<noteq> chainInput (core_of sample_first)"
proof -
  let ?c = "core_of sample_first" and ?d = "(core_of sample_first)\<lparr>c_actor := RUNNER\<rparr>"
  have c: "\<not> isl (chainInput ?c)" "core_plain ?c" "core_plain ?d" by code_simp+
  obtain s where s: "chainInput ?c = Inr s" using c(1) by (cases "chainInput ?c") auto
  have "c_actor ?c \<noteq> c_actor ?d" by code_simp
  then have "\<not> same_core ?c ?d" by (simp add: same_core_def)
  with chain_text_identifies_record [OF s c(2,3)] s show ?thesis by simp
qed

text \<open>
  C14: every run of appends, complete or refused part-way, only adds to the store and leaves a sound
  chain from genesis: the new records are sealed for the first inputs in order, each carries the
  input's actor, action, subject and instant, an approval or rejection is a human's, and when the
  run is not refused every input has its record.
\<close>

theorem appends_keep_the_chain:
  assumes "mem_inv s" "chained H 1 GENESIS (ms_events s)" "list_all sound_event (ms_events s)"
    "sealAll H nfc mem_head mem_append clock inputs s = (r, s')"
  shows "mem_inv s' \<and> chained H 1 GENESIS (ms_events s') \<and> list_all sound_event (ms_events s') \<and>
    (\<exists>es. ms_events s' = ms_events s @ es \<and> length es \<le> length inputs \<and>
     (\<forall>k < length es. recorded_for (clock k) (es ! k) (inputs ! k)) \<and>
     (\<forall>es'. r = Inr es' \<longrightarrow> es' = es \<and> length es = length inputs))"
  using mem.sealAll_good [of H s nfc clock inputs r s'] assms unfolding mem.good_def by blast

theorem appends_keep_the_chain_witness:
  "chained sample_digest 1 GENESIS (ms_events sample_store) \<and> isHumanActor (c_actor sample_second)"
proof -
  have start: "mem_inv mem_empty" "chained sample_digest 1 GENESIS (ms_events mem_empty)"
    "list_all sound_event (ms_events mem_empty)"
    by (simp_all add: mem_inv_def mem_empty_def)
  have "humanOnly (c_action sample_second)"
    by (simp add: sample_second_def next_core_def sample_inputs_def humanOnly_def)
  with appends_keep_the_chain [OF start sample_stored] show ?thesis
    by (auto simp: mem_empty_def sample_store_def sample_inputs_def recorded_for_def All_less_Suc2)
qed

text \<open>
  C15: the verifier is exact: it reports success with a head hash precisely when there are rows, every
  row parses, and the parsed records form a sound chain from the expected start to that head.
\<close>

theorem verifier_exact:
  "(\<exists>v. verifyChain H (int first) prev rows = Inr v \<and> v_ok v \<and> v_headHash v = h) \<longleftrightarrow>
   (\<exists>es. es \<noteq> [] \<and> map parse_event rows = map Some es \<and> chained H first prev es \<and> h = Some (tip prev es))"
  unfolding verifyChain_eq verify_rows_start by auto

text \<open>
  C16: what the append path stores from an empty store verifies: whatever the outcome of the run, if
  a record was stored the stored rows pass verification and the reported head is the last record's.
\<close>

theorem appended_chain_verifies:
  assumes "sealAll H nfc mem_head mem_append clock inputs mem_empty = (r, s)" "ms_events s \<noteq> []"
  shows "\<exists>v. verifyChain H 1 GENESIS (map row_of (ms_events s)) = Inr v \<and> v_ok v \<and>
    v_headHash v = Some (e_hash (last (ms_events s)))"
proof -
  have "mem.good H s" using mem.sealAll_good [OF mem_good_empty assms(1)] by blast
  then have "chained H 1 GENESIS (ms_events s)" "map (parse_event \<circ> row_of) (ms_events s) = map Some (ms_events s)"
    by (auto simp: mem.good_def list_all_iff parse_row_of)
  with assms(2) have "\<exists>es. map parse_event (map row_of (ms_events s)) = map Some es \<and> chained H 1 GENESIS es \<and>
      Some (e_hash (last (ms_events s))) = (if es = [] then None else Some (tip GENESIS es))"
    by (intro exI [of _ "ms_events s"]) (simp add: tip_def)
  with verify_rows_start [of H 1] verifyChain_eq assms(2) show ?thesis by fastforce
qed

theorem appended_chain_verifies_witness:
  "\<exists>v. verifyChain sample_digest 1 GENESIS [row_of sample_first, row_of sample_second] = Inr v \<and> v_ok v \<and>
    v_headHash v = Some (hex64 219)"
  using appended_chain_verifies [OF sample_stored] by (simp add: sample_store_def sample_fields)

text \<open>
  A slice of a sound store, from any record after the first, verifies against the hash of the
  record before it and reports its own last record as the head.
\<close>

theorem anchored_slice_verifies:
  assumes "chained H 1 GENESIS (ms_events s)" "list_all sound_event (ms_events s)"
    "1 < m" "m \<le> t" "m \<le> length (ms_events s)"
  shows "\<exists>v. chain_verify H (\<lambda>f t s. map row_of (mem_read f t s)) (Some (int m)) (Some (int t))
      (Some (tip GENESIS (take (m - 1) (ms_events s)))) s = Inr v \<and> v_ok v \<and>
    v_headHash v = Some (e_hash (ms_events s ! (min t (length (ms_events s)) - 1)))"
proof -
  let ?es = "ms_events s" and ?prev = "tip GENESIS (take (m - 1) (ms_events s))"
  let ?slice = "drop (m - 1) (take t ?es)"
  have read: "mem_read (Some (int m)) (Some (int t)) s = ?slice"
    using chained_slice [OF assms(1), of m t] by (simp add: mem_read_def)
  have split: "take t ?es = take (m - 1) ?es @ ?slice"
    using append_take_drop_id [of "m - 1" "take t ?es"] assms(4) by (simp add: min.absorb1)
  have "chained H 1 GENESIS (take t ?es)"
    using assms(1) chained_append [of H 1 GENESIS "take t ?es" "drop t ?es"] by simp
  then have "chained H 1 GENESIS (take (m - 1) ?es @ ?slice)"
    by (rule subst [OF split])
  then have "chained H (1 + length (take (m - 1) ?es)) ?prev ?slice"
    unfolding chained_append by blast
  then have chain: "chained H m ?prev ?slice"
    using assms(3,5) by simp
  have "list_all sound_event ?slice"
    using assms(2) by (auto simp: list_all_iff dest: in_set_dropD in_set_takeD)
  then have rows: "map parse_event (map row_of ?slice) = map Some ?slice"
    by (simp add: list_all_iff parse_row_of)
  have ne: "?slice \<noteq> []" using assms by auto
  have "last ?slice = ?es ! (min t (length ?es) - 1)"
    using ne assms by (simp add: last_conv_nth min_def)
  with chain rows ne have "verify_rows H (int m) ?prev None None 0 (map row_of ?slice) =
      Inr ([], Some (e_hash (?es ! (min t (length ?es) - 1))))"
    unfolding verify_rows_start by (intro exI [of _ ?slice]) (simp add: tip_def)
  then have "\<exists>v. verifyChain H (int m) ?prev (map row_of ?slice) = Inr v \<and> v_ok v \<and>
      v_headHash v = Some (e_hash (?es ! (min t (length ?es) - 1)))"
    unfolding verifyChain_eq using ne by simp
  then show ?thesis using assms(3) by (auto simp: chain_verify_def read)
qed

theorem anchored_slice_verifies_witness:
  "\<exists>v. chain_verify sample_digest (\<lambda>f t s. map row_of (mem_read f t s)) (Some 2) (Some 2) (Some (hex64 191))
     sample_store = Inr v \<and> v_ok v"
proof -
  have "chained sample_digest 1 GENESIS (ms_events sample_store)" "list_all sound_event (ms_events sample_store)"
    using mem.sealAll_good [OF mem_good_empty sample_stored] by (simp_all only: mem.good_def)
  from anchored_slice_verifies [OF this, of 2 2] show ?thesis
    by (auto simp: sample_store_def sample_fields)
qed

text \<open>
  C17: tampering shows: two sound, non-empty chains from the same start with the same head hash hold
  the same records, or the records at hand contain an explicit collision of the hash function.
\<close>

theorem same_head_same_history:
  assumes "chained H n prev es" "chained H n prev fs" "es \<noteq> []" "fs \<noteq> []" "tip prev es = tip prev fs"
    "\<forall>e \<in> set es \<union> set fs. core_plain (core_of e)"
  shows "list_all2 same_record es fs \<or> collision H es fs"
  using same_tip same_tip_length assms by blast

theorem same_head_same_history_witness:
  "collision sample_digest [sample_first] [sample_altered]"
proof -
  have chains: "chained sample_digest 1 GENESIS [sample_first]" "chained sample_digest 1 GENESIS [sample_altered]"
    by code_simp+
  have plain: "core_plain (core_of sample_first)" "core_plain (core_of sample_altered)" by code_simp+
  have "e_hash sample_first = e_hash sample_altered" by (simp add: sample_first_def sample_altered_def)
  then have "list_all2 same_record [sample_first] [sample_altered] \<or>
      collision sample_digest [sample_first] [sample_altered]"
    by (intro same_head_same_history [OF chains]) (use plain in auto)
  moreover have "c_subject sample_first \<noteq> c_subject sample_altered" by code_simp
  ultimately show ?thesis by (auto simp: same_record_def same_core_def)
qed

text \<open>
  C18: verification is blind to padding: white space added to or removed from the ends of a stored
  row's actor or subject never changes the verdict, because the rows are trimmed by the schema
  before they are hashed.
\<close>

theorem verification_ignores_padding:
  assumes "list_all2 padded rs rs'"
  shows "verifyChain H first prev (map Row rs') = verifyChain H first prev (map Row rs)"
  using assms verify_rows_padded [OF assms] by (auto simp: verifyChain_def list_all2_lengthD)

theorem verification_ignores_padding_witness:
  "\<exists>v. verifyChain sample_digest 1 GENESIS
     [Row (raw_of sample_first\<lparr>r_actor := asc '' maestro-worker '', r_subject := asc ''A-1  ''\<rparr>)] = Inr v \<and> v_ok v"
proof -
  let ?r = "raw_of sample_first" and ?r' = "raw_of sample_first\<lparr>r_actor := asc '' maestro-worker '', r_subject := asc ''A-1  ''\<rparr>"
  have "padded ?r ?r'" by code_simp
  then have "list_all2 padded [?r] [?r']" by simp
  from verification_ignores_padding [OF this, of sample_digest 1 GENESIS]
  have "verifyChain sample_digest 1 GENESIS [Row ?r'] = verifyChain sample_digest 1 GENESIS [row_of sample_first]"
    by (simp add: row_of_def)
  moreover have "\<exists>v. verifyChain sample_digest 1 GENESIS [row_of sample_first] = Inr v \<and> v_ok v"
  proof -
    have "sound_event sample_first" "chained sample_digest 1 GENESIS [sample_first]" by code_simp+
    then have "verify_rows sample_digest (int 1) GENESIS None None 0 [row_of sample_first] =
        Inr ([], Some (tip GENESIS [sample_first]))"
      unfolding verify_rows_start by (intro exI [of _ "[sample_first]"]) (simp add: parse_row_of)
    then show ?thesis using verifyChain_eq [of sample_digest 1 GENESIS "[row_of sample_first]"] by auto
  qed
  ultimately show ?thesis by simp
qed

end
