(* ===== verification/Cache_Store.thy ===== *)
theory Cache_Store
  imports Prelude "HOL-Library.AList"
begin

text \<open>
  The data verbs of the cache package, in memory: \<open>packages/cache/src/memory-store.ts\<close>.

  A \<open>Map\<close> of JavaScript keeps its keys in insertion order and a repeated \<open>set\<close> keeps the place of
  the key: it is an association list with \<open>AList.update\<close> and \<open>AList.delete\<close>. Arguments arrive as text
  in the source; here a verb carries its parsed arguments. Numbers (scores, times in milliseconds)
  are integers, as every caller in the package passes.
\<close>

subsection \<open>Values and verbs\<close>

datatype stored =
    SString string
  | SHash "(string \<times> string) list"
  | SZset "(string \<times> int) list"

record store_entry =
  en_value :: stored
  en_expires :: "int option"

record mem =
  m_store :: "(string \<times> store_entry) list"
  m_now :: int

datatype reply = RNull | RInt int | RText string | RArr "reply list"

datatype cache_error = WrongType | NoScript | UnknownCommand | ClientClosed | Injected | ConfigRefused
  | PermitNotHeld

text \<open>\<open>boundary\<close>: \<open>Unreadable\<close> text falls back to the side's infinity.\<close>

datatype bound = NegInf | PosInf | At int | Unreadable

record set_flags =
  sf_nx :: bool
  sf_xx :: bool
  sf_px :: "int option"
  sf_ex :: "int option"

datatype verb =
    Get string
  | Set string string set_flags
  | Del "string list"
  | Exists string
  | Echo string
  | Expire string int
  | Pexpire string int
  | Ttl string
  | Pttl string
  | Hset string "(string \<times> string) list"
  | Hget string string
  | Hmget string "string list"
  | Zadd string bool bool "(int \<times> string) list"
  | Zscore string string
  | Zcard string
  | Zrem string "string list"
  | Zcount string bound bound
  | Zremrangebyscore string bound bound

text \<open>\<open>String(n)\<close> on an integer.\<close>

definition int_text :: "int \<Rightarrow> string" where
  "int_text n = (if n < 0 then CHR ''-'' # dec (nat (- n)) else dec (nat n))"

subsection \<open>The store\<close>

text \<open>A verb's outcome: a reply or an error, and the store it leaves.\<close>

type_synonym 'a effect = "mem \<Rightarrow> (cache_error + 'a) \<times> mem"

definition put :: "string \<Rightarrow> store_entry \<Rightarrow> mem \<Rightarrow> mem" where
  "put k e m = m\<lparr>m_store := AList.update k e (m_store m)\<rparr>"

definition drop_key :: "string \<Rightarrow> mem \<Rightarrow> mem" where
  "drop_key k m = m\<lparr>m_store := AList.delete k (m_store m)\<rparr>"

definition lookup :: "string \<Rightarrow> mem \<Rightarrow> store_entry option" where
  "lookup k m = map_of (m_store m) k"

definition expired :: "int \<Rightarrow> store_entry \<Rightarrow> bool" where
  "expired t e \<longleftrightarrow> (case en_expires e of None \<Rightarrow> False | Some x \<Rightarrow> x \<le> t)"

definition expire :: "mem \<Rightarrow> mem" where
  "expire m = m\<lparr>m_store := filter (\<lambda>(k, e). \<not> expired (m_now m) e) (m_store m)\<rparr>"

text \<open>\<open>#hash\<close> and \<open>#zset\<close>; with \<open>create\<close> a missing key becomes an empty collection.\<close>

definition hash_of :: "string \<Rightarrow> mem \<Rightarrow> cache_error + (string \<times> string) list option" where
  "hash_of k m = (case lookup k m of
     None \<Rightarrow> Inr None
   | Some e \<Rightarrow> (case en_value e of SHash fs \<Rightarrow> Inr (Some fs) | _ \<Rightarrow> Inl WrongType))"

definition zset_of :: "string \<Rightarrow> mem \<Rightarrow> cache_error + (string \<times> int) list option" where
  "zset_of k m = (case lookup k m of
     None \<Rightarrow> Inr None
   | Some e \<Rightarrow> (case en_value e of SZset ms \<Rightarrow> Inr (Some ms) | _ \<Rightarrow> Inl WrongType))"

definition with_value :: "string \<Rightarrow> stored \<Rightarrow> mem \<Rightarrow> mem" where
  "with_value k v m = put k (case lookup k m of
     None \<Rightarrow> \<lparr>en_value = v, en_expires = None\<rparr> | Some e \<Rightarrow> e\<lparr>en_value := v\<rparr>) m"

text \<open>A sorted set that became empty is no key any more.\<close>

definition with_zset :: "string \<Rightarrow> (string \<times> int) list \<Rightarrow> mem \<Rightarrow> mem" where
  "with_zset k ms m = (if ms = [] then drop_key k m else with_value k (SZset ms) m)"

fun bool_int :: "bool \<Rightarrow> int" where
  "bool_int True = 1"
| "bool_int False = 0"

definition do_set :: "string \<Rightarrow> string \<Rightarrow> set_flags \<Rightarrow> reply effect" where
  "do_set k v fl m =
    (let existing = lookup k m in
     if sf_nx fl \<and> existing \<noteq> None then (Inr RNull, m)
     else if sf_xx fl \<and> existing = None then (Inr RNull, m)
     else (Inr (RText ''OK''),
       put k \<lparr>en_value = SString v, en_expires =
           (case sf_px fl of Some ms \<Rightarrow> Some (m_now m + ms)
            | None \<Rightarrow> (case sf_ex fl of Some s \<Rightarrow> Some (m_now m + s * 1000) | None \<Rightarrow> None))\<rparr> m))"

fun hset_fields :: "(string \<times> string) list \<Rightarrow> (string \<times> string) list \<Rightarrow> int \<times> (string \<times> string) list" where
  "hset_fields [] fs = (0, fs)"
| "hset_fields ((f, v) # rest) fs =
    (case hset_fields rest (AList.update f v fs) of
       (n, fs') \<Rightarrow> (n + bool_int (map_of fs f = None), fs'))"

fun zadd_members :: "bool \<Rightarrow> bool \<Rightarrow> (int \<times> string) list \<Rightarrow> (string \<times> int) list \<Rightarrow> int \<times> (string \<times> int) list" where
  "zadd_members nx xx [] ms = (0, ms)"
| "zadd_members nx xx ((score, t) # rest) ms =
    (if nx \<and> map_of ms t \<noteq> None \<or> xx \<and> map_of ms t = None then zadd_members nx xx rest ms
     else case zadd_members nx xx rest (AList.update t score ms) of
       (n, ms') \<Rightarrow> (n + bool_int (map_of ms t = None), ms'))"

fun zrem_members :: "string list \<Rightarrow> (string \<times> int) list \<Rightarrow> int \<times> (string \<times> int) list" where
  "zrem_members [] ms = (0, ms)"
| "zrem_members (t # rest) ms =
    (case zrem_members rest (AList.delete t ms) of (n, ms') \<Rightarrow> (n + bool_int (map_of ms t \<noteq> None), ms'))"

fun del_keys :: "string list \<Rightarrow> mem \<Rightarrow> int \<times> mem" where
  "del_keys [] m = (0, m)"
| "del_keys (k # ks) m =
    (case del_keys ks (drop_key k m) of (n, m') \<Rightarrow> (n + bool_int (lookup k m \<noteq> None), m'))"

fun above :: "bound \<Rightarrow> int \<Rightarrow> bool" where
  "above (At b) s \<longleftrightarrow> b \<le> s"
| "above PosInf s \<longleftrightarrow> False"
| "above _ s \<longleftrightarrow> True"

fun below :: "bound \<Rightarrow> int \<Rightarrow> bool" where
  "below (At b) s \<longleftrightarrow> s \<le> b"
| "below NegInf s \<longleftrightarrow> False"
| "below _ s \<longleftrightarrow> True"

definition set_expiry :: "string \<Rightarrow> int \<Rightarrow> reply effect" where
  "set_expiry k ms m = (case lookup k m of
     None \<Rightarrow> (Inr (RInt 0), m)
   | Some e \<Rightarrow> (Inr (RInt 1), put k (e\<lparr>en_expires := Some (m_now m + ms)\<rparr>) m))"

definition pttl_of :: "string \<Rightarrow> mem \<Rightarrow> int" where
  "pttl_of k m = (case lookup k m of
     None \<Rightarrow> - 2
   | Some e \<Rightarrow> (case en_expires e of None \<Rightarrow> - 1 | Some x \<Rightarrow> max 0 (x - m_now m)))"

text \<open>\<open>Math.ceil(ms / 1000)\<close> for \<open>ms\<close> at least 0.\<close>

definition ceil_seconds :: "int \<Rightarrow> int" where
  "ceil_seconds ms = (ms + 999) div 1000"

fun on_zset :: "string \<Rightarrow> mem \<Rightarrow> ((string \<times> int) list option \<Rightarrow> reply \<times> mem) \<Rightarrow> (cache_error + reply) \<times> mem" where
  "on_zset k m f = (case zset_of k m of Inl e \<Rightarrow> (Inl e, m) | Inr zs \<Rightarrow> (case f zs of (r, m') \<Rightarrow> (Inr r, m')))"

fun on_hash :: "string \<Rightarrow> mem \<Rightarrow> ((string \<times> string) list option \<Rightarrow> reply \<times> mem) \<Rightarrow> (cache_error + reply) \<times> mem" where
  "on_hash k m f = (case hash_of k m of Inl e \<Rightarrow> (Inl e, m) | Inr fs \<Rightarrow> (case f fs of (r, m') \<Rightarrow> (Inr r, m')))"

definition field :: "(string \<times> string) list option \<Rightarrow> string \<Rightarrow> reply" where
  "field fs f = (case fs of None \<Rightarrow> RNull
     | Some l \<Rightarrow> (case map_of l f of None \<Rightarrow> RNull | Some v \<Rightarrow> RText v))"

fun run_verb :: "verb \<Rightarrow> reply effect" where
  "run_verb (Get k) m = (Inr (case lookup k m of
      Some e \<Rightarrow> (case en_value e of SString v \<Rightarrow> RText v | _ \<Rightarrow> RNull) | None \<Rightarrow> RNull), m)"
| "run_verb (Set k v fl) m = do_set k v fl m"
| "run_verb (Del ks) m = (case del_keys ks m of (n, m') \<Rightarrow> (Inr (RInt n), m'))"
| "run_verb (Exists k) m = (Inr (RInt (bool_int (lookup k m \<noteq> None))), m)"
| "run_verb (Echo t) m = (Inr (RText t), m)"
| "run_verb (Expire k s) m = set_expiry k (s * 1000) m"
| "run_verb (Pexpire k ms) m = set_expiry k ms m"
| "run_verb (Ttl k) m = (Inr (RInt (let ms = pttl_of k m in if ms < 0 then ms else ceil_seconds ms)), m)"
| "run_verb (Pttl k) m = (Inr (RInt (pttl_of k m)), m)"
| "run_verb (Hset k fvs) m = on_hash k m (\<lambda>fs.
     (case hset_fields fvs (case fs of None \<Rightarrow> [] | Some l \<Rightarrow> l) of
        (n, fs') \<Rightarrow> (RInt n, with_value k (SHash fs') m)))"
| "run_verb (Hget k f) m = on_hash k m (\<lambda>fs. (field fs f, m))"
| "run_verb (Hmget k fs') m = on_hash k m (\<lambda>fs. (RArr (map (field fs) fs'), m))"
| "run_verb (Zadd k nx xx sms) m = on_zset k m (\<lambda>zs.
     (case zadd_members nx xx sms (case zs of None \<Rightarrow> [] | Some ms \<Rightarrow> ms) of
        (n, ms') \<Rightarrow> (RInt n, with_zset k ms' m)))"
| "run_verb (Zscore k t) m = on_zset k m (\<lambda>zs.
     ((case zs of None \<Rightarrow> RNull
       | Some ms \<Rightarrow> (case map_of ms t of None \<Rightarrow> RNull | Some s \<Rightarrow> RText (int_text s))), m))"
| "run_verb (Zcard k) m = on_zset k m (\<lambda>zs. (RInt (case zs of None \<Rightarrow> 0 | Some ms \<Rightarrow> int (length ms)), m))"
| "run_verb (Zrem k ts) m = on_zset k m (\<lambda>zs.
     (case zs of None \<Rightarrow> (RInt 0, m)
      | Some ms \<Rightarrow> (case zrem_members ts ms of (n, ms') \<Rightarrow> (RInt n, with_zset k ms' m))))"
| "run_verb (Zcount k lo hi) m = on_zset k m (\<lambda>zs.
     (RInt (case zs of None \<Rightarrow> 0 | Some ms \<Rightarrow> int (length (filter (\<lambda>(t, s). above lo s \<and> below hi s) ms))), m))"
| "run_verb (Zremrangebyscore k lo hi) m = on_zset k m (\<lambda>zs.
     (case zs of None \<Rightarrow> (RInt 0, m)
      | Some ms \<Rightarrow> (let keep = filter (\<lambda>(t, s). \<not> (above lo s \<and> below hi s)) ms
                   in (RInt (int (length ms) - int (length keep)), with_zset k keep m))))"

text \<open>\<open>MemoryStore.command\<close>: expiry is lazy, before every verb.\<close>

definition command :: "verb \<Rightarrow> reply effect" where
  "command v m = run_verb v (expire m)"

subsection \<open>Laws\<close>

text \<open>Keys are unique, no sorted set is empty.\<close>

fun stored_ok :: "stored \<Rightarrow> bool" where
  "stored_ok (SString v) \<longleftrightarrow> True"
| "stored_ok (SHash fs) \<longleftrightarrow> distinct (map fst fs)"
| "stored_ok (SZset ms) \<longleftrightarrow> ms \<noteq> [] \<and> distinct (map fst ms)"

definition mem_ok :: "mem \<Rightarrow> bool" where
  "mem_ok m \<longleftrightarrow> distinct (map fst (m_store m)) \<and> (\<forall>e \<in> snd ` set (m_store m). stored_ok (en_value e))"

lemma lookup_put [simp]: "lookup k (put k' e m) = (if k = k' then Some e else lookup k m)"
  by (simp add: lookup_def put_def update_conv')

lemma lookup_drop [simp]: "lookup k (drop_key k' m) = (if k = k' then None else lookup k m)"
  by (simp add: lookup_def drop_key_def delete_conv')

lemma now_put [simp]: "m_now (put k e m) = m_now m" "m_now (drop_key k m) = m_now m" "m_now (expire m) = m_now m"
  by (simp_all add: put_def drop_key_def expire_def)

lemma lookup_SomeD: "lookup k m = Some e \<Longrightarrow> (k, e) \<in> set (m_store m)"
  unfolding lookup_def by (rule map_of_SomeD)

lemma snd_update: "snd ` set (AList.update k v xs) \<subseteq> insert v (snd ` set xs)"
  by (induction xs) auto

lemma ok_put: "mem_ok m \<Longrightarrow> stored_ok (en_value e) \<Longrightarrow> mem_ok (put k e m)"
proof -
  assume m: "mem_ok m" and e: "stored_ok (en_value e)"
  have "stored_ok (en_value x)" if "x \<in> snd ` set (AList.update k e (m_store m))" for x
  proof -
    have "x = e \<or> x \<in> snd ` set (m_store m)" using that snd_update [of k e "m_store m"] by blast
    with m e show ?thesis unfolding mem_ok_def by blast
  qed
  with m show "mem_ok (put k e m)" unfolding mem_ok_def put_def by (simp add: distinct_update)
qed

lemma ok_drop: "mem_ok m \<Longrightarrow> mem_ok (drop_key k m)"
  unfolding mem_ok_def drop_key_def by (auto simp: AList.delete_eq distinct_map_filter)

lemma ok_expire: "mem_ok m \<Longrightarrow> mem_ok (expire m)"
  unfolding mem_ok_def expire_def by (auto simp: distinct_map_filter)

lemma ok_lookup: "mem_ok m \<Longrightarrow> lookup k m = Some e \<Longrightarrow> stored_ok (en_value e)"
  by (drule lookup_SomeD) (force simp: mem_ok_def)

lemma ok_with_value: "mem_ok m \<Longrightarrow> stored_ok v \<Longrightarrow> mem_ok (with_value k v m)"
  by (auto simp: with_value_def intro!: ok_put split: option.split)

lemma ok_with_zset: "mem_ok m \<Longrightarrow> distinct (map fst ms) \<Longrightarrow> mem_ok (with_zset k ms m)"
  by (simp add: with_zset_def ok_drop ok_with_value)

lemma lookup_expire:
  assumes "mem_ok m"
  shows "lookup k (expire m) = (case lookup k m of None \<Rightarrow> None
     | Some e \<Rightarrow> if expired (m_now m) e then None else Some e)"
proof -
  have "distinct (map fst xs) \<Longrightarrow> map_of (filter (\<lambda>(k, e). \<not> P e) xs) k =
      (case map_of xs k of None \<Rightarrow> None | Some e \<Rightarrow> if P e then None else Some e)" for P and xs :: "(string \<times> store_entry) list"
    by (induction xs) (auto split: option.splits simp: map_of_eq_None_iff [symmetric] rev_image_eqI dest: map_of_SomeD)
  with assms show ?thesis unfolding mem_ok_def lookup_def expire_def by simp
qed

lemma lookup_with_value [simp]: "lookup k (with_value k' v m) =
    (if k = k' then Some (case lookup k m of None \<Rightarrow> \<lparr>en_value = v, en_expires = None\<rparr> | Some e \<Rightarrow> e\<lparr>en_value := v\<rparr>)
     else lookup k m)"
  by (simp add: with_value_def)

lemma lookup_with_zset [simp]: "lookup k (with_zset k' ms m) =
    (if k = k' then (if ms = [] then None else
       Some (case lookup k m of None \<Rightarrow> \<lparr>en_value = SZset ms, en_expires = None\<rparr> | Some e \<Rightarrow> e\<lparr>en_value := SZset ms\<rparr>))
     else lookup k m)"
  by (simp add: with_zset_def)

lemma now_with [simp]: "m_now (with_value k v m) = m_now m" "m_now (with_zset k ms m) = m_now m"
  by (simp_all add: with_value_def with_zset_def)

lemma distinct_hset: "distinct (map fst fs) \<Longrightarrow> hset_fields fvs fs = (n, fs') \<Longrightarrow> distinct (map fst fs')"
  by (induction fvs fs arbitrary: n rule: hset_fields.induct) (auto simp: distinct_update split: prod.splits)

lemma distinct_zadd: "distinct (map fst ms) \<Longrightarrow> zadd_members nx xx sms ms = (n, ms') \<Longrightarrow> distinct (map fst ms')"
  by (induction nx xx sms ms arbitrary: n rule: zadd_members.induct)
    (auto simp: distinct_update split: prod.splits if_splits)

lemma distinct_zrem: "distinct (map fst ms) \<Longrightarrow> zrem_members ts ms = (n, ms') \<Longrightarrow> distinct (map fst ms')"
  by (induction ts ms arbitrary: n rule: zrem_members.induct) (auto simp: distinct_delete split: prod.splits)

lemma del_keys_ok: "mem_ok m \<Longrightarrow> mem_ok (snd (del_keys ks m)) \<and> m_now (snd (del_keys ks m)) = m_now m"
proof (induction ks arbitrary: m)
  case (Cons k ks)
  then show ?case using Cons.IH [OF ok_drop [OF Cons.prems, of k]] 
    by (cases "del_keys ks (drop_key k m)") simp
qed simp

lemma zset_distinct: "mem_ok m \<Longrightarrow> zset_of k m = Inr (Some ms) \<Longrightarrow> ms \<noteq> [] \<and> distinct (map fst ms)"
  by (auto simp: zset_of_def split: option.splits stored.splits dest: ok_lookup)

lemma hash_distinct: "mem_ok m \<Longrightarrow> hash_of k m = Inr (Some fs) \<Longrightarrow> distinct (map fst fs)"
  by (auto simp: hash_of_def split: option.splits stored.splits dest: ok_lookup)

lemma ok_filter: "distinct (map fst ms) \<Longrightarrow> distinct (map fst (filter P ms))"
  by (simp add: distinct_map_filter)

lemma ok_set_expiry: "mem_ok m \<Longrightarrow> mem_ok (snd (set_expiry k ms m)) \<and> m_now (snd (set_expiry k ms m)) = m_now m"
  by (auto simp: set_expiry_def dest: ok_lookup intro!: ok_put split: option.split)

lemma run_verb_ok: "mem_ok m \<Longrightarrow> mem_ok (snd (run_verb v m)) \<and> m_now (snd (run_verb v m)) = m_now m"
proof (cases v)
  case (Set k t fl)
  then show "mem_ok m \<Longrightarrow> ?thesis" by (auto simp: do_set_def Let_def intro: ok_put)
next
  case (Del ks)
  then show "mem_ok m \<Longrightarrow> ?thesis" using del_keys_ok [of m ks] by (auto split: prod.splits)
next
  case (Hset k fvs)
  then show "mem_ok m \<Longrightarrow> ?thesis"
    by (auto split: sum.splits prod.splits option.splits intro!: ok_with_value)
      (auto dest: hash_distinct distinct_hset [rotated])
next
  case (Zadd k nx xx sms)
  then show "mem_ok m \<Longrightarrow> ?thesis"
    by (auto split: sum.splits prod.splits option.splits dest: zset_distinct intro!: ok_with_zset intro: distinct_zadd [rotated])
next
  case (Zrem k ts)
  then show "mem_ok m \<Longrightarrow> ?thesis"
    by (auto split: sum.splits prod.splits option.splits dest: zset_distinct intro!: ok_with_zset intro: distinct_zrem [rotated])
next
  case (Zremrangebyscore k lo hi)
  then show "mem_ok m \<Longrightarrow> ?thesis"
    by (auto simp: Let_def split: sum.splits option.splits dest: zset_distinct intro!: ok_with_zset ok_filter)
qed (auto simp: ok_set_expiry split: sum.splits)

lemma command_ok: "mem_ok m \<Longrightarrow> mem_ok (snd (command v m)) \<and> m_now (snd (command v m)) = m_now m"
  unfolding command_def using run_verb_ok [OF ok_expire] by simp

lemma expired_gone: "mem_ok m \<Longrightarrow> lookup k (expire m) = Some e \<Longrightarrow> \<not> expired (m_now m) e"
  by (auto simp: lookup_expire split: option.splits if_splits)

end
