(* ===== verification/Cache_Scripts.thy ===== *)
theory Cache_Scripts
  imports Cache_Store
begin

text \<open>
  The Lua scripts of the semaphore and the lock (\<open>packages/cache/src/scripts.ts\<close>, in the form of
  their line-by-line mirrors in \<open>lua-sim.ts\<close>), the in-memory client that runs them
  (\<open>fake-client.ts\<close>) and the runner that sends a script by digest (\<open>script-runner.ts\<close>). A script
  runs as one step: no other client's verb falls between its lines.
\<close>

subsection \<open>Sequencing\<close>

definition answer_with :: "'a \<Rightarrow> 'a effect" where
  "answer_with x m = (Inr x, m)"

definition and_then :: "'a effect \<Rightarrow> ('a \<Rightarrow> 'b effect) \<Rightarrow> 'b effect" where
  "and_then f g m = (case f m of (Inl e, m') \<Rightarrow> (Inl e, m') | (Inr x, m') \<Rightarrow> g x m')"

lemma and_then_simps [simp]:
  "f m = (Inr x, m') \<Longrightarrow> and_then f g m = g x m'"
  "f m = (Inl e, m') \<Longrightarrow> and_then f g m = (Inl e, m')"
  by (simp_all add: and_then_def)

subsection \<open>Scripts\<close>

text \<open>A script body.\<close>

datatype script = SEM_ACQUIRE | SEM_RELEASE | SEM_RENEW | LOCK_RELEASE | LOCK_RENEW

text \<open>A body with its key and arguments.\<close>

datatype script_call =
    SemAcquire string int int string int
  | SemRelease string string
  | SemRenew string int string int
  | LockRelease string string
  | LockRenew string string int

fun body_of :: "script_call \<Rightarrow> script" where
  "body_of (SemAcquire _ _ _ _ _) = SEM_ACQUIRE"
| "body_of (SemRelease _ _) = SEM_RELEASE"
| "body_of (SemRenew _ _ _ _) = SEM_RENEW"
| "body_of (LockRelease _ _) = LOCK_RELEASE"
| "body_of (LockRenew _ _ _) = LOCK_RENEW"

definition int_of :: "reply \<Rightarrow> int" where
  "int_of r = (case r of RInt n \<Rightarrow> n | _ \<Rightarrow> 0)"

fun semaphoreAcquire :: "string \<Rightarrow> int \<Rightarrow> int \<Rightarrow> string \<Rightarrow> int \<Rightarrow> reply effect" where
  "semaphoreAcquire key now capacity token lease =
    and_then (command (Zremrangebyscore key NegInf (At now))) (\<lambda>_.
    and_then (command (Zscore key token)) (\<lambda>held.
      if held \<noteq> RNull then
        and_then (command (Zadd key False False [(now + lease, token)])) (\<lambda>_.
        and_then (command (Pexpire key lease)) (\<lambda>_.
        and_then (command (Zcard key)) (\<lambda>n. answer_with (RArr [RInt 1, n, RInt (now + lease)]))))
      else
        and_then (command (Zcard key)) (\<lambda>count.
          if int_of count \<ge> capacity then answer_with (RArr [RInt 0, count, RInt 0])
          else
            and_then (command (Zadd key False False [(now + lease, token)])) (\<lambda>_.
            and_then (command (Pexpire key lease)) (\<lambda>_.
              answer_with (RArr [RInt 1, RInt (int_of count + 1), RInt (now + lease)]))))))"

fun semaphoreRelease :: "string \<Rightarrow> string \<Rightarrow> reply effect" where
  "semaphoreRelease key token =
    and_then (command (Zrem key [token])) (\<lambda>removed.
    and_then (command (Zcard key)) (\<lambda>n. answer_with (RArr [removed, n])))"

fun semaphoreRenew :: "string \<Rightarrow> int \<Rightarrow> string \<Rightarrow> int \<Rightarrow> reply effect" where
  "semaphoreRenew key now token lease =
    and_then (command (Zremrangebyscore key NegInf (At now))) (\<lambda>_.
    and_then (command (Zscore key token)) (\<lambda>held.
      if held = RNull then answer_with (RArr [RInt 0, RInt 0])
      else
        and_then (command (Zadd key False False [(now + lease, token)])) (\<lambda>_.
        and_then (command (Pexpire key lease)) (\<lambda>_.
          answer_with (RArr [RInt 1, RInt (now + lease)])))))"

fun lockRelease :: "string \<Rightarrow> string \<Rightarrow> reply effect" where
  "lockRelease key token =
    and_then (command (Get key)) (\<lambda>owner.
      if owner = RText token then command (Del [key]) else answer_with (RInt 0))"

fun lockRenew :: "string \<Rightarrow> string \<Rightarrow> int \<Rightarrow> reply effect" where
  "lockRenew key token ttl =
    and_then (command (Get key)) (\<lambda>owner.
      if owner = RText token then command (Pexpire key ttl) else answer_with (RInt 0))"

fun evalLua :: "script_call \<Rightarrow> reply effect" where
  "evalLua (SemAcquire key now capacity token lease) = semaphoreAcquire key now capacity token lease"
| "evalLua (SemRelease key token) = semaphoreRelease key token"
| "evalLua (SemRenew key now token lease) = semaphoreRenew key now token lease"
| "evalLua (LockRelease key token) = lockRelease key token"
| "evalLua (LockRenew key token ttl) = lockRenew key token ttl"

subsection \<open>The client\<close>

text \<open>
  What a client sends. A script sent by digest names its body: SHA-1 tells the five bodies apart.
\<close>

datatype request = Ping | Eval script_call | Evalsha script_call | ScriptLoad script | ScriptFlush | Data verb

record client =
  cl_data :: mem
  cl_scripts :: "script set"
  cl_closed :: bool
  cl_failNext :: nat

fun execute :: "request \<Rightarrow> client \<Rightarrow> (cache_error + reply) \<times> client" where
  "execute Ping c = (Inr (RText ''PONG''), c)"
| "execute (Eval call) c =
    (case evalLua call (cl_data c) of
       (r, m) \<Rightarrow> (r, c\<lparr>cl_data := m, cl_scripts := insert (body_of call) (cl_scripts c)\<rparr>))"
| "execute (Evalsha call) c =
    (if body_of call \<notin> cl_scripts c then (Inl NoScript, c)
     else case evalLua call (cl_data c) of (r, m) \<Rightarrow> (r, c\<lparr>cl_data := m\<rparr>))"
| "execute (ScriptLoad b) c = (Inr RNull, c\<lparr>cl_scripts := insert b (cl_scripts c)\<rparr>)"
| "execute ScriptFlush c = (Inr (RText ''OK''), c\<lparr>cl_scripts := {}\<rparr>)"
| "execute (Data v) c = (case command v (cl_data c) of (r, m) \<Rightarrow> (r, c\<lparr>cl_data := m\<rparr>))"

definition send :: "request \<Rightarrow> client \<Rightarrow> (cache_error + reply) \<times> client" where
  "send rq c =
    (if cl_closed c then (Inl ClientClosed, c)
     else if cl_failNext c > 0 then (Inl Injected, c\<lparr>cl_failNext := cl_failNext c - 1\<rparr>)
     else execute rq c)"

text \<open>\<open>ScriptRunner.run\<close>: by digest, and by body when the server does not know the digest.\<close>

definition run_script :: "script_call \<Rightarrow> client \<Rightarrow> (cache_error + reply) \<times> client" where
  "run_script call c =
    (case send (Evalsha call) c of
       (Inl NoScript, c') \<Rightarrow> send (Eval call) c'
     | r \<Rightarrow> r)"

text \<open>A verb fails only on a value of the wrong kind, so a script does too.\<close>

definition only_wrong_type :: "'a effect \<Rightarrow> bool" where
  "only_wrong_type f \<longleftrightarrow> (\<forall>m e. fst (f m) = Inl e \<longrightarrow> e = WrongType)"

lemma only_wrong_type_command: "only_wrong_type (command v)"
proof -
  have "fst (run_verb v m) = Inl e \<Longrightarrow> e = WrongType" for m e
    by (cases v) (auto simp: do_set_def set_expiry_def Let_def hash_of_def zset_of_def
        split: if_splits option.splits prod.splits sum.splits stored.splits)
  then show ?thesis by (simp add: only_wrong_type_def command_def)
qed

lemma only_wrong_type_answer: "only_wrong_type (answer_with x)"
  by (simp add: only_wrong_type_def answer_with_def)

lemma only_wrong_type_then:
  "only_wrong_type f \<Longrightarrow> (\<And>x. only_wrong_type (g x)) \<Longrightarrow> only_wrong_type (and_then f g)"
  by (auto simp: only_wrong_type_def and_then_def split: prod.splits sum.splits) (metis fst_conv)

lemma only_wrong_type_if: "only_wrong_type f \<Longrightarrow> only_wrong_type g \<Longrightarrow> only_wrong_type (if b then f else g)"
  by simp

lemmas only_wrong_type_rules = only_wrong_type_command only_wrong_type_answer only_wrong_type_then only_wrong_type_if

lemma only_wrong_type_evalLua: "only_wrong_type (evalLua call)"
  by (cases call) (simp_all only: evalLua.simps semaphoreAcquire.simps semaphoreRelease.simps
      semaphoreRenew.simps lockRelease.simps lockRenew.simps, (intro only_wrong_type_rules)+)

text \<open>A client that answers.\<close>

definition up :: "client \<Rightarrow> bool" where
  "up c \<longleftrightarrow> \<not> cl_closed c \<and> cl_failNext c = 0"

lemma run_script_eq:
  assumes "up c" "evalLua call (cl_data c) = (r, m)"
  shows "run_script call c = (r, c\<lparr>cl_data := m, cl_scripts := insert (body_of call) (cl_scripts c)\<rparr>)"
proof (cases "body_of call \<in> cl_scripts c")
  case True
  have "r \<noteq> Inl NoScript"
    using only_wrong_type_evalLua [of call] assms(2) by (auto simp: only_wrong_type_def) (metis fst_conv cache_error.distinct(1))
  moreover have "insert (body_of call) (cl_scripts c) = cl_scripts c" using True by blast
  ultimately show ?thesis
    using True assms unfolding up_def by (cases r) (auto simp: run_script_def send_def split: cache_error.splits)
next
  case False
  with assms show ?thesis by (simp add: run_script_def send_def up_def)
qed

text \<open>A refused request changes nothing the verbs can see.\<close>

lemma send_refused: "cl_closed c \<or> cl_failNext c > 0 \<Longrightarrow>
    \<exists>e c'. send rq c = (Inl e, c') \<and> cl_data c' = cl_data c \<and> e \<noteq> NoScript"
  by (auto simp: send_def)

lemma run_script_cases:
  obtains (refused) e c' where "run_script call c = (Inl e, c')" "cl_data c' = cl_data c"
  | (ran) r m c' where "evalLua call (cl_data c) = (r, m)" "run_script call c = (r, c')" "cl_data c' = m"
proof (cases "cl_closed c \<or> cl_failNext c > 0")
  case True
  then obtain e c' where "send (Evalsha call) c = (Inl e, c')" "cl_data c' = cl_data c" "e \<noteq> NoScript"
    using send_refused by blast
  then have "run_script call c = (Inl e, c')" by (simp add: run_script_def split: cache_error.split)
  from this \<open>cl_data c' = cl_data c\<close> show thesis by (rule refused)
next
  case False
  obtain r m where rm: "evalLua call (cl_data c) = (r, m)" by fastforce
  with False run_script_eq [of c call r m] show thesis by (intro ran [OF rm]) (auto simp: up_def)
qed

lemma data_cases:
  obtains (refused) e c' where "send (Data v) c = (Inl e, c')" "cl_data c' = cl_data c"
  | (ran) r m c' where "command v (cl_data c) = (r, m)" "send (Data v) c = (r, c')" "cl_data c' = m"
proof (cases "cl_closed c \<or> cl_failNext c > 0")
  case True
  then show thesis using send_refused refused by blast
next
  case False
  obtain r m where rm: "command v (cl_data c) = (r, m)" by fastforce
  with False show thesis by (intro ran [OF rm]) (auto simp: send_def)
qed

subsection \<open>Keys a request touches\<close>

text \<open>What is under a key now.\<close>

definition live :: "string \<Rightarrow> mem \<Rightarrow> store_entry option" where
  "live k m = lookup k (expire m)"

fun verb_keys :: "verb \<Rightarrow> string list" where
  "verb_keys (Get k) = [k]" | "verb_keys (Set k _ _) = [k]" | "verb_keys (Del ks) = ks"
| "verb_keys (Exists k) = [k]" | "verb_keys (Echo _) = []" | "verb_keys (Expire k _) = [k]"
| "verb_keys (Pexpire k _) = [k]" | "verb_keys (Ttl k) = [k]" | "verb_keys (Pttl k) = [k]"
| "verb_keys (Hset k _) = [k]" | "verb_keys (Hget k _) = [k]" | "verb_keys (Hmget k _) = [k]"
| "verb_keys (Zadd k _ _ _) = [k]" | "verb_keys (Zscore k _) = [k]" | "verb_keys (Zcard k) = [k]"
| "verb_keys (Zrem k _) = [k]" | "verb_keys (Zcount k _ _) = [k]" | "verb_keys (Zremrangebyscore k _ _) = [k]"

fun call_key :: "script_call \<Rightarrow> string" where
  "call_key (SemAcquire k _ _ _ _) = k" | "call_key (SemRelease k _) = k"
| "call_key (SemRenew k _ _ _) = k" | "call_key (LockRelease k _) = k" | "call_key (LockRenew k _ _) = k"

fun request_keys :: "request \<Rightarrow> string list" where
  "request_keys (Eval call) = [call_key call]"
| "request_keys (Evalsha call) = [call_key call]"
| "request_keys (Data v) = verb_keys v"
| "request_keys _ = []"

text \<open>An effect that leaves a sound store, the clock and one key alone.\<close>

definition spares :: "string \<Rightarrow> 'a effect \<Rightarrow> bool" where
  "spares k f \<longleftrightarrow> (\<forall>m. mem_ok m \<longrightarrow> mem_ok (snd (f m)) \<and> m_now (snd (f m)) = m_now m \<and> live k (snd (f m)) = live k m)"

lemma live_not_expired: "mem_ok m \<Longrightarrow> live k m = Some e \<Longrightarrow> \<not> expired (m_now m) e"
  unfolding live_def by (rule expired_gone)

lemma expire_expire [simp]: "expire (expire m) = expire m"
  by (simp add: expire_def)

lemma del_keys_lookup: "k \<notin> set ks \<Longrightarrow> lookup k (snd (del_keys ks m)) = lookup k m"
proof (induction ks arbitrary: m)
  case (Cons k' ks)
  then show ?case using Cons.IH [of "drop_key k' m"] by (cases "del_keys ks (drop_key k' m)") simp
qed simp

lemma run_verb_lookup: "k \<notin> set (verb_keys v) \<Longrightarrow> lookup k (snd (run_verb v m)) = lookup k m"
proof (cases v)
  case (Del ks)
  then show "k \<notin> set (verb_keys v) \<Longrightarrow> ?thesis"
    using del_keys_lookup [of k ks m] by (cases "del_keys ks m") simp
qed (auto simp: do_set_def set_expiry_def Let_def split: if_splits option.splits prod.splits sum.splits)

lemma live_eqI:
  assumes "mem_ok m" "mem_ok m'" "m_now m' = m_now m" "lookup k m' = lookup k (expire m)"
  shows "live k m' = live k m"
  using assms by (auto simp: live_def lookup_expire split: option.splits)

lemma spares_command: "k \<notin> set (verb_keys v) \<Longrightarrow> spares k (command v)"
  unfolding spares_def using command_ok [of _ v] run_verb_lookup [of k v]
  by (simp add: command_def live_eqI)

lemma spares_answer: "spares k (answer_with x)"
  by (simp add: spares_def answer_with_def)

lemma spares_then: "spares k f \<Longrightarrow> (\<And>x. spares k (g x)) \<Longrightarrow> spares k (and_then f g)"
  by (auto simp: spares_def and_then_def split: prod.splits sum.splits)

lemma spares_if: "spares k f \<Longrightarrow> spares k g \<Longrightarrow> spares k (if b then f else g)"
  by simp

lemma spares_evalLua:
  assumes "k \<noteq> call_key call"
  shows "spares k (evalLua call)"
  using assms
  by (cases call) (simp_all only: evalLua.simps semaphoreAcquire.simps semaphoreRelease.simps
      semaphoreRenew.simps lockRelease.simps lockRenew.simps call_key.simps;
    (intro spares_then spares_answer spares_if spares_command; simp))+

lemma spares_send:
  assumes "mem_ok (cl_data c)" "k \<notin> set (request_keys rq)"
  shows "mem_ok (cl_data (snd (send rq c))) \<and> m_now (cl_data (snd (send rq c))) = m_now (cl_data c) \<and>
    live k (cl_data (snd (send rq c))) = live k (cl_data c)"
proof -
  have call: "spares k (evalLua call)" if "rq = Eval call \<or> rq = Evalsha call" for call
    using that assms(2) by (auto intro: spares_evalLua)
  have data: "spares k (command v)" if "rq = Data v" for v
    using that assms(2) by (auto intro: spares_command)
  show ?thesis
    using assms(1) call data
    by (cases rq) (auto simp: send_def spares_def split: prod.splits dest!: spec [of _ "cl_data c"])
qed

text \<open>Time passing on the server.\<close>

definition elapse :: "int \<Rightarrow> client \<Rightarrow> client" where
  "elapse d c = c\<lparr>cl_data := (cl_data c)\<lparr>m_now := m_now (cl_data c) + d\<rparr>\<rparr>"

lemma live_pass:
  assumes "mem_ok m" "0 \<le> d"
  shows "live k (m\<lparr>m_now := m_now m + d\<rparr>) = (case live k m of None \<Rightarrow> None
     | Some e \<Rightarrow> if expired (m_now m + d) e then None else Some e)"
proof -
  have "mem_ok (m\<lparr>m_now := t\<rparr>)" for t using assms(1) by (simp add: mem_ok_def)
  moreover have "lookup k (m\<lparr>m_now := t\<rparr>) = lookup k m" for t by (simp add: lookup_def)
  moreover have "expired (m_now m) e \<Longrightarrow> expired (m_now m + d) e" for e
    using assms(2) by (auto simp: expired_def split: option.splits)
  ultimately show ?thesis using assms(1) by (auto simp: live_def lookup_expire split: option.splits)
qed

end
