(* ===== verification/Cache_Lock.thy ===== *)
theory Cache_Lock
  imports Cache_Scripts
begin

text \<open>
  The distributed lock (\<open>packages/cache/src/lock.ts\<close>). What a lock needs from its server is a
  locale: who holds a key, that taking a held key is refused, that release and renewal compare the
  token, and that a lease ends when its time is over. Mutual exclusion is proved there once, and the
  in-memory client keeps the contract.
\<close>

subsection \<open>lock.ts\<close>

record lock_config =
  lk_prefix :: string
  lk_ttl :: int

text \<open>The constructor.\<close>

definition newLock :: "int option \<Rightarrow> string option \<Rightarrow> cache_error + lock_config" where
  "newLock ttl prefix =
    (let t = (case ttl of None \<Rightarrow> 10000 | Some x \<Rightarrow> x)
     in if t < 100 then Inl ConfigRefused
        else Inr \<lparr>lk_prefix = (case prefix of None \<Rightarrow> ''maestro:lock'' | Some p \<Rightarrow> p), lk_ttl = t\<rparr>)"

definition lock_key :: "lock_config \<Rightarrow> string \<Rightarrow> string" where
  "lock_key cfg key = lk_prefix cfg @ '':'' @ key"

definition tryAcquire :: "lock_config \<Rightarrow> string \<Rightarrow> string \<Rightarrow> client \<Rightarrow> (cache_error + bool) \<times> client" where
  "tryAcquire cfg key token c =
    (case send (Data (Set (lock_key cfg key) token
        \<lparr>sf_nx = True, sf_xx = False, sf_px = Some (lk_ttl cfg), sf_ex = None\<rparr>)) c of
       (Inl e, c') \<Rightarrow> (Inl e, c')
     | (Inr r, c') \<Rightarrow> (Inr (r \<noteq> RNull), c'))"

text \<open>\<open>expectInteger\<close> on the reply of a script that answers integers.\<close>

definition as_flag :: "(cache_error + reply) \<times> client \<Rightarrow> (cache_error + bool) \<times> client" where
  "as_flag p = (case p of (Inl e, c) \<Rightarrow> (Inl e, c) | (Inr r, c) \<Rightarrow> (Inr (r = RInt 1), c))"

definition lock_release :: "lock_config \<Rightarrow> string \<Rightarrow> string \<Rightarrow> client \<Rightarrow> (cache_error + bool) \<times> client" where
  "lock_release cfg key token c = as_flag (run_script (LockRelease (lock_key cfg key) token) c)"

definition lock_renew :: "lock_config \<Rightarrow> string \<Rightarrow> string \<Rightarrow> client \<Rightarrow> (cache_error + bool) \<times> client" where
  "lock_renew cfg key token c = as_flag (run_script (LockRenew (lock_key cfg key) token (lk_ttl cfg)) c)"

text \<open>
  \<open>acquire\<close> polls until the deadline. \<open>tokens\<close> is what \<open>newToken\<close> answers, \<open>clock\<close> what the process
  clock answers at its successive readings, \<open>sleeping k\<close> what happens to the server during the
  \<open>k\<close>-th sleep. Out of fuel is \<open>None\<close>.
\<close>

fun poll ::
  "lock_config \<Rightarrow> string \<Rightarrow> (nat \<Rightarrow> string) \<Rightarrow> (nat \<Rightarrow> int) \<Rightarrow> (nat \<Rightarrow> client \<Rightarrow> client) \<Rightarrow> int \<Rightarrow>
   nat \<Rightarrow> nat \<Rightarrow> client \<Rightarrow> ((cache_error + string option) \<times> client) option"
where
  "poll cfg key tokens clock sleeping deadline 0 k c = None"
| "poll cfg key tokens clock sleeping deadline (Suc fuel) k c =
    (case tryAcquire cfg key (tokens k) c of
       (Inl e, c') \<Rightarrow> Some (Inl e, c')
     | (Inr True, c') \<Rightarrow> Some (Inr (Some (tokens k)), c')
     | (Inr False, c') \<Rightarrow>
         if deadline \<le> clock (Suc k) then Some (Inr None, c')
         else poll cfg key tokens clock sleeping deadline fuel (Suc k) (sleeping k c'))"

definition acquire ::
  "lock_config \<Rightarrow> string \<Rightarrow> int option \<Rightarrow> (nat \<Rightarrow> string) \<Rightarrow> (nat \<Rightarrow> int) \<Rightarrow> (nat \<Rightarrow> client \<Rightarrow> client) \<Rightarrow>
   nat \<Rightarrow> client \<Rightarrow> ((cache_error + string option) \<times> client) option"
where
  "acquire cfg key wait tokens clock sleeping fuel c =
    poll cfg key tokens clock sleeping (clock 0 + (case wait of None \<Rightarrow> 5000 | Some w \<Rightarrow> w)) fuel 0 c"

text \<open>
  \<open>withLock\<close>: \<open>None\<close> in the result is \<open>{ ran: false }\<close>. The release in \<open>finally\<close> is best effort: its
  failure is dropped.
\<close>

definition withLock ::
  "lock_config \<Rightarrow> string \<Rightarrow> int option \<Rightarrow> (nat \<Rightarrow> string) \<Rightarrow> (nat \<Rightarrow> int) \<Rightarrow> (nat \<Rightarrow> client \<Rightarrow> client) \<Rightarrow>
   nat \<Rightarrow> (client \<Rightarrow> (cache_error + 'a) \<times> client) \<Rightarrow> client \<Rightarrow> ((cache_error + 'a option) \<times> client) option"
where
  "withLock cfg key wait tokens clock sleeping fuel body c =
    (case acquire cfg key wait tokens clock sleeping fuel c of
       None \<Rightarrow> None
     | Some (Inl e, c') \<Rightarrow> Some (Inl e, c')
     | Some (Inr None, c') \<Rightarrow> Some (Inr None, c')
     | Some (Inr (Some token), c') \<Rightarrow>
         (case body c' of (r, c'') \<Rightarrow>
            Some (map_sum id Some r, snd (lock_release cfg key token c''))))"

subsection \<open>The server's contract\<close>

text \<open>
  \<open>holder s\<close> is the token that owns the key and when its lease ends; \<open>pass d\<close> is time passing. An
  operation may fail, and then it has done nothing.
\<close>

locale lock_server =
  fixes try_op :: "string \<Rightarrow> 's \<Rightarrow> (cache_error + bool) \<times> 's"
    and release_op :: "string \<Rightarrow> 's \<Rightarrow> (cache_error + bool) \<times> 's"
    and renew_op :: "string \<Rightarrow> 's \<Rightarrow> (cache_error + bool) \<times> 's"
    and pass :: "int \<Rightarrow> 's \<Rightarrow> 's"
    and holder :: "'s \<Rightarrow> (string \<times> int) option"
    and time :: "'s \<Rightarrow> int"
    and lease :: int
    and ok :: "'s \<Rightarrow> bool"
  assumes live: "ok s \<Longrightarrow> holder s = Some (t, x) \<Longrightarrow> time s < x"
    and try_ok: "ok s \<Longrightarrow> ok (snd (try_op t s)) \<and> time (snd (try_op t s)) = time s"
    and release_ok: "ok s \<Longrightarrow> ok (snd (release_op t s)) \<and> time (snd (release_op t s)) = time s"
    and renew_ok: "ok s \<Longrightarrow> ok (snd (renew_op t s)) \<and> time (snd (renew_op t s)) = time s"
    and pass_ok: "ok s \<Longrightarrow> 0 \<le> d \<Longrightarrow> ok (pass d s) \<and> time (pass d s) = time s + d"
    and try_law: "ok s \<Longrightarrow> try_op t s = (r, s') \<Longrightarrow>
      (if r = Inr True then holder s = None \<and> holder s' = Some (t, time s + lease) else holder s' = holder s)"
    and release_law: "ok s \<Longrightarrow> release_op t s = (r, s') \<Longrightarrow>
      (if r = Inr True then (\<exists>x. holder s = Some (t, x)) \<and> holder s' = None else holder s' = holder s)"
    and renew_law: "ok s \<Longrightarrow> renew_op t s = (r, s') \<Longrightarrow>
      (if r = Inr True then (\<exists>x. holder s = Some (t, x)) \<and> holder s' = Some (t, time s + lease)
       else holder s' = holder s)"
    and pass_law: "ok s \<Longrightarrow> 0 \<le> d \<Longrightarrow>
      holder (pass d s) = (case holder s of None \<Rightarrow> None | Some (t, x) \<Rightarrow> if x \<le> time s + d then None else Some (t, x))"
begin

text \<open>
  \<open>claims t = Some x\<close>: the process with token \<open>t\<close> believes it holds the lock until \<open>x\<close>. The beliefs
  are sound when every belief still in time is the server's.
\<close>

definition sound :: "(string \<Rightarrow> int option) \<Rightarrow> 's \<Rightarrow> bool" where
  "sound claims s \<longleftrightarrow> ok s \<and> (\<forall>t x. claims t = Some x \<longrightarrow> time s < x \<longrightarrow> holder s = Some (t, x))"

lemma sound_exclusive:
  "sound claims s \<Longrightarrow> claims t = Some x \<Longrightarrow> claims u = Some y \<Longrightarrow> time s < x \<Longrightarrow> time s < y \<Longrightarrow> t = u"
  unfolding sound_def by (metis option.inject prod.inject)

lemma sound_try:
  "sound claims s \<Longrightarrow> try_op t s = (r, s') \<Longrightarrow>
   sound (if r = Inr True then claims(t \<mapsto> time s + lease) else claims) s'"
  using try_law [of s t r s'] try_ok [of s t] unfolding sound_def by (fastforce split: if_splits)

lemma sound_release:
  "sound claims s \<Longrightarrow> release_op t s = (r, s') \<Longrightarrow> sound (claims(t := None)) s'"
  using release_law [of s t r s'] release_ok [of s t] unfolding sound_def by (fastforce split: if_splits)

lemma sound_renew:
  "sound claims s \<Longrightarrow> renew_op t s = (r, s') \<Longrightarrow>
   sound (if r = Inr True then claims(t \<mapsto> time s + lease)
          else if r = Inr False then claims(t := None) else claims) s'"
  using renew_law [of s t r s'] renew_ok [of s t] unfolding sound_def by (fastforce split: if_splits)

lemma sound_pass: "sound claims s \<Longrightarrow> 0 \<le> d \<Longrightarrow> sound claims (pass d s)"
  using pass_law [of s d] pass_ok [of s d] unfolding sound_def by (fastforce split: option.splits if_splits)

text \<open>Taking a lock that is free always succeeds unless the server fails.\<close>

lemma held_refused: "ok s \<Longrightarrow> holder s = Some (u, x) \<Longrightarrow> fst (try_op t s) \<noteq> Inr True"
  using try_law [of s t] by (metis option.distinct(1) prod.collapse)

end

subsection \<open>The in-memory client keeps the contract\<close>

definition owner :: "string \<Rightarrow> mem \<Rightarrow> (string \<times> int) option" where
  "owner k m = (case live k m of
     Some e \<Rightarrow> (case en_value e of SString t \<Rightarrow> map_option (Pair t) (en_expires e) | _ \<Rightarrow> None)
   | None \<Rightarrow> None)"

definition lock_holder :: "lock_config \<Rightarrow> string \<Rightarrow> client \<Rightarrow> (string \<times> int) option" where
  "lock_holder cfg key c = owner (lock_key cfg key) (cl_data c)"

text \<open>The key holds a lock or nothing.\<close>

definition lock_entry :: "store_entry \<Rightarrow> bool" where
  "lock_entry e \<longleftrightarrow> (\<exists>t x. e = \<lparr>en_value = SString t, en_expires = Some x\<rparr>)"

definition lock_state :: "string \<Rightarrow> mem \<Rightarrow> bool" where
  "lock_state k m \<longleftrightarrow> mem_ok m \<and> (\<forall>e. live k m = Some e \<longrightarrow> lock_entry e)"

definition lock_ok :: "lock_config \<Rightarrow> string \<Rightarrow> client \<Rightarrow> bool" where
  "lock_ok cfg key c \<longleftrightarrow> 0 < lk_ttl cfg \<and> lock_state (lock_key cfg key) (cl_data c)"

lemma owner_entry: "lock_state k m \<Longrightarrow> owner k m = Some (t, x) \<longleftrightarrow>
    live k m = Some \<lparr>en_value = SString t, en_expires = Some x\<rparr>"
  by (force simp: lock_state_def owner_def lock_entry_def split: option.split)

lemma owner_None: "lock_state k m \<Longrightarrow> owner k m = None \<longleftrightarrow> live k m = None"
  by (force simp: lock_state_def owner_def lock_entry_def split: option.split)

lemma owner_live: "lock_state k m \<Longrightarrow> owner k m = Some (t, x) \<Longrightarrow> m_now m < x"
  using owner_entry [of k m t x] live_not_expired [of m k] by (fastforce simp: lock_state_def expired_def)

lemma elapse_ok: "lock_ok cfg key c \<Longrightarrow> 0 \<le> d \<Longrightarrow>
    lock_ok cfg key (elapse d c) \<and> m_now (cl_data (elapse d c)) = m_now (cl_data c) + d"
proof -
  assume c: "lock_ok cfg key c" "0 \<le> d"
  have "mem_ok ((cl_data c)\<lparr>m_now := m_now (cl_data c) + d\<rparr>)" using c(1) by (simp add: lock_ok_def lock_state_def mem_ok_def)
  with c show ?thesis
    using live_pass [of "cl_data c" d "lock_key cfg key"]
    by (auto simp: lock_ok_def lock_state_def elapse_def split: option.splits if_splits)
qed

lemma holder_pass:
  assumes "lock_ok cfg key c" "0 \<le> d"
  shows "lock_holder cfg key (elapse d c) = (case lock_holder cfg key c of None \<Rightarrow> None
     | Some (t, x) \<Rightarrow> if x \<le> m_now (cl_data c) + d then None else Some (t, x))"
  using assms live_pass [of "cl_data c" d "lock_key cfg key"]
  by (auto simp: lock_holder_def owner_def elapse_def lock_ok_def lock_state_def expired_def lock_entry_def
      split: option.splits if_splits stored.splits)

text \<open>What the three operations do to the entry under the key.\<close>

lemma live_command: "mem_ok m \<Longrightarrow> live k (snd (command v m)) = lookup k (expire (snd (run_verb v (expire m))))"
  by (simp add: live_def command_def)

lemma live_after_put:
  assumes "mem_ok m" "stored_ok (en_value e)" "\<not> expired (m_now m) e"
  shows "live k (put k e m) = Some e" "mem_ok (put k e m)"
  using assms ok_put [of m e k] by (simp_all add: live_def lookup_expire)

lemma live_after_drop: "mem_ok m \<Longrightarrow> live k (drop_key k m) = None \<and> mem_ok (drop_key k m)"
  using ok_drop [of m k] by (simp add: live_def lookup_expire)

lemma live_expire [simp]: "live k (expire m) = live k m"
  by (simp add: live_def)

lemma set_nx:
  assumes "mem_ok m" "0 < ttl"
  defines "fl \<equiv> \<lparr>sf_nx = True, sf_xx = False, sf_px = Some ttl, sf_ex = None\<rparr>"
  shows "command (Set k t fl) m =
    (if live k m = None
     then (Inr (RText ''OK''), put k \<lparr>en_value = SString t, en_expires = Some (m_now m + ttl)\<rparr> (expire m))
     else (Inr RNull, expire m))"
  by (simp add: command_def do_set_def fl_def live_def)

lemma get_owner:
  assumes "lock_state k m"
  shows "command (Get k) m = (Inr (case owner k m of None \<Rightarrow> RNull | Some (t, x) \<Rightarrow> RText t), expire m)"
  using assms
  by (auto simp: command_def live_def [symmetric] owner_def lock_state_def lock_entry_def split: option.split)

lemma state_expire [simp]: "lock_state k m \<Longrightarrow> lock_state k (expire m)" "owner k (expire m) = owner k m"
  by (simp_all add: lock_state_def ok_expire owner_def)

lemma state_put:
  assumes "mem_ok m" "m_now m < x"
  shows "lock_state k (put k \<lparr>en_value = SString t, en_expires = Some x\<rparr> m)"
    "owner k (put k \<lparr>en_value = SString t, en_expires = Some x\<rparr> m) = Some (t, x)"
  using live_after_put [of m "\<lparr>en_value = SString t, en_expires = Some x\<rparr>" k] assms
  by (simp_all add: lock_state_def lock_entry_def owner_def expired_def)

lemma state_drop: "mem_ok m \<Longrightarrow> lock_state k (drop_key k m) \<and> owner k (drop_key k m) = None"
  using live_after_drop [of m k] by (simp add: lock_state_def owner_def)

text \<open>One operation: the flag, and the owner afterwards.\<close>

lemma try_effect:
  assumes "lock_state k m" "0 < ttl"
    "command (Set k t \<lparr>sf_nx = True, sf_xx = False, sf_px = Some ttl, sf_ex = None\<rparr>) m = (r, m')"
  shows "lock_state k m' \<and> m_now m' = m_now m \<and>
    (if owner k m = None then r = Inr (RText ''OK'') \<and> owner k m' = Some (t, m_now m + ttl)
     else r = Inr RNull \<and> owner k m' = owner k m)"
  using assms set_nx [of m ttl k t] owner_None [of k m] state_put [of "expire m" "m_now m + ttl" k t]
  by (auto simp: lock_state_def ok_expire split: if_splits)

lemma key_release_effect:
  assumes "lock_state k m" "evalLua (LockRelease k t) m = (r, m')"
  shows "lock_state k m' \<and> m_now m' = m_now m \<and>
    (if \<exists>x. owner k m = Some (t, x) then r = Inr (RInt 1) \<and> owner k m' = None
     else r = Inr (RInt 0) \<and> owner k m' = owner k m)"
proof (cases "\<exists>x. owner k m = Some (t, x)")
  case True
  then obtain x where x: "owner k m = Some (t, x)" by blast
  then have "lookup k (expire m) \<noteq> None"
    using owner_None [of k m] assms(1) by (auto simp: live_def)
  moreover have "command (Del [k]) (expire m) = (r, m')" using assms x by (simp add: get_owner)
  ultimately have "r = Inr (RInt 1)" "m' = drop_key k (expire m)" by (auto simp: command_def)
  with x assms(1) state_drop [of "expire m" k] show ?thesis by (simp add: lock_state_def ok_expire)
next
  case False
  with assms show ?thesis
    by (auto simp: get_owner answer_with_def split: option.splits if_splits)
qed

lemma key_renew_effect:
  assumes "lock_state k m" "0 < ttl" "evalLua (LockRenew k t ttl) m = (r, m')"
  shows "lock_state k m' \<and> m_now m' = m_now m \<and>
    (if \<exists>x. owner k m = Some (t, x) then r = Inr (RInt 1) \<and> owner k m' = Some (t, m_now m + ttl)
     else r = Inr (RInt 0) \<and> owner k m' = owner k m)"
proof (cases "\<exists>x. owner k m = Some (t, x)")
  case True
  then obtain x where x: "owner k m = Some (t, x)" by blast
  then have "lookup k (expire m) = Some \<lparr>en_value = SString t, en_expires = Some x\<rparr>"
    using owner_entry [of k m t x] assms(1) by (simp add: live_def)
  moreover have "command (Pexpire k ttl) (expire m) = (r, m')" using assms(1,3) x by (simp add: get_owner)
  ultimately have "r = Inr (RInt 1)"
    "m' = put k \<lparr>en_value = SString t, en_expires = Some (m_now m + ttl)\<rparr> (expire m)"
    by (auto simp: command_def set_expiry_def)
  with x assms(1,2) state_put [of "expire m" "m_now m + ttl" k t] show ?thesis
    by (simp add: lock_state_def ok_expire)
next
  case False
  with assms show ?thesis
    by (auto simp: get_owner answer_with_def split: option.splits if_splits)
qed

text \<open>The same through the client, which may refuse.\<close>

lemma tryAcquire_effect:
  assumes "lock_ok cfg key c" "tryAcquire cfg key t c = (r, c')"
  shows "lock_ok cfg key c' \<and> m_now (cl_data c') = m_now (cl_data c) \<and>
    (if r = Inr True then lock_holder cfg key c = None \<and> lock_holder cfg key c' = Some (t, m_now (cl_data c) + lk_ttl cfg)
     else lock_holder cfg key c' = lock_holder cfg key c)"
proof (rule data_cases [of "Set (lock_key cfg key) t \<lparr>sf_nx = True, sf_xx = False, sf_px = Some (lk_ttl cfg), sf_ex = None\<rparr>" c])
  fix e c''
  assume "send (Data (Set (lock_key cfg key) t \<lparr>sf_nx = True, sf_xx = False, sf_px = Some (lk_ttl cfg), sf_ex = None\<rparr>)) c = (Inl e, c'')"
    "cl_data c'' = cl_data c"
  with assms show ?thesis by (auto simp: tryAcquire_def lock_ok_def lock_holder_def)
next
  fix q m c''
  assume *: "command (Set (lock_key cfg key) t \<lparr>sf_nx = True, sf_xx = False, sf_px = Some (lk_ttl cfg), sf_ex = None\<rparr>) (cl_data c) = (q, m)"
    "send (Data (Set (lock_key cfg key) t \<lparr>sf_nx = True, sf_xx = False, sf_px = Some (lk_ttl cfg), sf_ex = None\<rparr>)) c = (q, c'')"
    "cl_data c'' = m"
  from try_effect [OF _ _ *(1)] assms * show ?thesis
    by (auto simp: tryAcquire_def lock_ok_def lock_holder_def split: if_splits)
qed

lemma lock_release_effect:
  assumes "lock_ok cfg key c" "lock_release cfg key t c = (r, c')"
  shows "lock_ok cfg key c' \<and> m_now (cl_data c') = m_now (cl_data c) \<and>
    (if r = Inr True then (\<exists>x. lock_holder cfg key c = Some (t, x)) \<and> lock_holder cfg key c' = None
     else lock_holder cfg key c' = lock_holder cfg key c)"
proof (rule run_script_cases [of "LockRelease (lock_key cfg key) t" c])
  fix e c''
  assume "run_script (LockRelease (lock_key cfg key) t) c = (Inl e, c'')" "cl_data c'' = cl_data c"
  with assms show ?thesis by (auto simp: lock_release_def as_flag_def lock_ok_def lock_holder_def)
next
  fix q m c''
  assume *: "evalLua (LockRelease (lock_key cfg key) t) (cl_data c) = (q, m)"
    "run_script (LockRelease (lock_key cfg key) t) c = (q, c'')" "cl_data c'' = m"
  from key_release_effect [OF _ *(1)] assms * show ?thesis
    by (auto simp: lock_release_def as_flag_def lock_ok_def lock_holder_def simp del: evalLua.simps split: if_splits)
qed

lemma lock_renew_effect:
  assumes "lock_ok cfg key c" "lock_renew cfg key t c = (r, c')"
  shows "lock_ok cfg key c' \<and> m_now (cl_data c') = m_now (cl_data c) \<and>
    (if r = Inr True then (\<exists>x. lock_holder cfg key c = Some (t, x)) \<and> lock_holder cfg key c' = Some (t, m_now (cl_data c) + lk_ttl cfg)
     else lock_holder cfg key c' = lock_holder cfg key c)"
proof (rule run_script_cases [of "LockRenew (lock_key cfg key) t (lk_ttl cfg)" c])
  fix e c''
  assume "run_script (LockRenew (lock_key cfg key) t (lk_ttl cfg)) c = (Inl e, c'')" "cl_data c'' = cl_data c"
  with assms show ?thesis by (auto simp: lock_renew_def as_flag_def lock_ok_def lock_holder_def)
next
  fix q m c''
  assume *: "evalLua (LockRenew (lock_key cfg key) t (lk_ttl cfg)) (cl_data c) = (q, m)"
    "run_script (LockRenew (lock_key cfg key) t (lk_ttl cfg)) c = (q, c'')" "cl_data c'' = m"
  from key_renew_effect [OF _ _ *(1)] assms * show ?thesis
    by (auto simp: lock_renew_def as_flag_def lock_ok_def lock_holder_def simp del: evalLua.simps split: if_splits)
qed

interpretation lk: lock_server "tryAcquire cfg key" "lock_release cfg key" "lock_renew cfg key" elapse
    "lock_holder cfg key" "\<lambda>c. m_now (cl_data c)" "lk_ttl cfg" "lock_ok cfg key" for cfg key
proof (unfold_locales, goal_cases)
  case (1 s t x)
  then show ?case by (auto simp: lock_ok_def lock_holder_def intro: owner_live)
next
  case (2 s t)
  then show ?case using tryAcquire_effect [OF 2 surjective_pairing] by blast
next
  case (3 s t)
  then show ?case using lock_release_effect [OF 3 surjective_pairing] by blast
next
  case (4 s t)
  then show ?case using lock_renew_effect [OF 4 surjective_pairing] by blast
next
  case (5 s d)
  then show ?case by (rule elapse_ok)
next
  case (6 s t r s')
  then show ?case using tryAcquire_effect [OF 6] by blast
next
  case (7 s t r s')
  then show ?case using lock_release_effect [OF 7] by blast
next
  case (8 s t r s')
  then show ?case using lock_renew_effect [OF 8] by blast
next
  case (9 s d)
  then show ?case by (rule holder_pass)
qed

subsection \<open>Processes\<close>

text \<open>
  Several processes use one key of one server: each step is an operation of one of them, time
  passing, the server failing or recovering, or a request of somebody else on other keys. A world
  is the server and what the processes believe.
\<close>

record lock_world =
  lw_client :: client
  lw_claims :: "string \<Rightarrow> int option"

inductive lock_step :: "lock_config \<Rightarrow> string \<Rightarrow> lock_world \<Rightarrow> lock_world \<Rightarrow> bool" for cfg key where
  Take: "tryAcquire cfg key t c = (r, c') \<Longrightarrow>
    lock_step cfg key \<lparr>lw_client = c, lw_claims = C\<rparr>
      \<lparr>lw_client = c', lw_claims = (if r = Inr True then C(t \<mapsto> m_now (cl_data c) + lk_ttl cfg) else C)\<rparr>"
| Renew: "lock_renew cfg key t c = (r, c') \<Longrightarrow>
    lock_step cfg key \<lparr>lw_client = c, lw_claims = C\<rparr>
      \<lparr>lw_client = c', lw_claims = (if r = Inr True then C(t \<mapsto> m_now (cl_data c) + lk_ttl cfg)
          else if r = Inr False then C(t := None) else C)\<rparr>"
| Release: "lock_release cfg key t c = (r, c') \<Longrightarrow>
    lock_step cfg key \<lparr>lw_client = c, lw_claims = C\<rparr> \<lparr>lw_client = c', lw_claims = C(t := None)\<rparr>"
| Elapse: "0 \<le> d \<Longrightarrow>
    lock_step cfg key \<lparr>lw_client = c, lw_claims = C\<rparr> \<lparr>lw_client = elapse d c, lw_claims = C\<rparr>"
| Fault: "cl_data c' = cl_data c \<Longrightarrow>
    lock_step cfg key \<lparr>lw_client = c, lw_claims = C\<rparr> \<lparr>lw_client = c', lw_claims = C\<rparr>"
| Foreign: "lock_key cfg key \<notin> set (request_keys rq) \<Longrightarrow> send rq c = (r, c') \<Longrightarrow>
    lock_step cfg key \<lparr>lw_client = c, lw_claims = C\<rparr> \<lparr>lw_client = c', lw_claims = C\<rparr>"

inductive_cases lock_stepE: "lock_step cfg key w w'"

lemma sound_same_data:
  assumes "lk.sound cfg key C c" "mem_ok (cl_data c')" "m_now (cl_data c') = m_now (cl_data c)"
    "live (lock_key cfg key) (cl_data c') = live (lock_key cfg key) (cl_data c)"
  shows "lk.sound cfg key C c'"
  using assms unfolding lk.sound_def by (simp add: lock_ok_def lock_state_def lock_holder_def owner_def)

lemma lock_step_sound:
  assumes "lock_step cfg key w w'" "lk.sound cfg key (lw_claims w) (lw_client w)"
  shows "lk.sound cfg key (lw_claims w') (lw_client w')"
  using assms
proof (cases rule: lock_step.cases)
  case (Take t c r c' C)
  with assms(2) lk.sound_try [of cfg key C c t r c'] show ?thesis by simp
next
  case (Renew t c r c' C)
  with assms(2) lk.sound_renew [of cfg key C c t r c'] show ?thesis by simp
next
  case (Release t c r c' C)
  with assms(2) lk.sound_release [of cfg key C c t r c'] show ?thesis by simp
next
  case (Elapse d c C)
  with assms(2) lk.sound_pass [of cfg key C c d] show ?thesis by simp
next
  case (Fault c' c C)
  with assms(2) show ?thesis
    using sound_same_data [of cfg key C c c'] by (simp add: lk.sound_def lock_ok_def lock_state_def)
next
  case (Foreign rq c r c' C)
  then have "mem_ok (cl_data c)" using assms(2) by (simp add: lk.sound_def lock_ok_def lock_state_def)
  from spares_send [OF this Foreign(3)] Foreign assms(2) show ?thesis
    by (auto intro: sound_same_data)
qed

end
