(* ===== verification/Cache_Semaphore.thy ===== *)
theory Cache_Semaphore
  imports Cache_Scripts
begin

text \<open>
  The leased semaphore (\<open>packages/cache/src/semaphore.ts\<close>): its operations over the scripts, what
  the scripts do to the sorted set under the key, and the processes that share it.
\<close>

subsection \<open>semaphore.ts\<close>

record sem_config =
  sm_prefix :: string
  sm_capacity :: int
  sm_lease :: int

text \<open>The constructor; a capacity that is not an integer is \<open>None\<close>.\<close>

definition newSemaphore :: "int option \<Rightarrow> int option \<Rightarrow> string option \<Rightarrow> cache_error + sem_config" where
  "newSemaphore capacity lease prefix =
    (case capacity of
       None \<Rightarrow> Inl ConfigRefused
     | Some n \<Rightarrow>
       if n < 1 then Inl ConfigRefused
       else let l = (case lease of None \<Rightarrow> 30000 | Some x \<Rightarrow> x)
            in if l < 1000 then Inl ConfigRefused
               else Inr \<lparr>sm_prefix = (case prefix of None \<Rightarrow> ''maestro:sem'' | Some p \<Rightarrow> p),
                         sm_capacity = n, sm_lease = l\<rparr>)"

definition sem_key :: "sem_config \<Rightarrow> string \<Rightarrow> string" where
  "sem_key cfg key = sm_prefix cfg @ '':'' @ key"

text \<open>A granted permit: its token, when it expires, the holders after it.\<close>

datatype acquire_result = Granted string int int | Full int

text \<open>The \<open>k\<close>-th element of an integer array, 0 when it is missing.\<close>

definition nth_int :: "reply \<Rightarrow> nat \<Rightarrow> int" where
  "nth_int r k = (case r of RArr rs \<Rightarrow> (if k < length rs then int_of (rs ! k) else 0) | _ \<Rightarrow> 0)"

definition sem_acquire :: "sem_config \<Rightarrow> string \<Rightarrow> string \<Rightarrow> int \<Rightarrow> client \<Rightarrow> (cache_error + acquire_result) \<times> client" where
  "sem_acquire cfg key token now c =
    (case run_script (SemAcquire (sem_key cfg key) now (sm_capacity cfg) token (sm_lease cfg)) c of
       (Inl e, c') \<Rightarrow> (Inl e, c')
     | (Inr r, c') \<Rightarrow>
        (Inr (if nth_int r 0 \<noteq> 1 then Full (nth_int r 1) else Granted token (nth_int r 2) (nth_int r 1)), c'))"

definition first_is_one :: "(cache_error + reply) \<times> client \<Rightarrow> (cache_error + bool) \<times> client" where
  "first_is_one p = (case p of (Inl e, c) \<Rightarrow> (Inl e, c) | (Inr r, c) \<Rightarrow> (Inr (nth_int r 0 = 1), c))"

definition sem_release :: "sem_config \<Rightarrow> string \<Rightarrow> string \<Rightarrow> client \<Rightarrow> (cache_error + bool) \<times> client" where
  "sem_release cfg key token c = first_is_one (run_script (SemRelease (sem_key cfg key) token) c)"

definition sem_renew :: "sem_config \<Rightarrow> string \<Rightarrow> string \<Rightarrow> int \<Rightarrow> client \<Rightarrow> (cache_error + bool) \<times> client" where
  "sem_renew cfg key token now c =
    first_is_one (run_script (SemRenew (sem_key cfg key) now token (sm_lease cfg)) c)"

definition sem_holders :: "sem_config \<Rightarrow> string \<Rightarrow> int \<Rightarrow> client \<Rightarrow> (cache_error + int) \<times> client" where
  "sem_holders cfg key now c =
    (case send (Data (Zcount (sem_key cfg key) (At now) PosInf)) c of
       (Inl e, c') \<Rightarrow> (Inl e, c')
     | (Inr r, c') \<Rightarrow> (Inr (int_of r), c'))"

text \<open>
  \<open>hold\<close>: while the body runs, each heartbeat finds the server at some later state (what the world
  did meanwhile) and at some time, and renews; a renewal that fails or is refused is remembered.
\<close>

fun heartbeats ::
  "sem_config \<Rightarrow> string \<Rightarrow> string \<Rightarrow> ((client \<Rightarrow> client) \<times> int) list \<Rightarrow> client \<Rightarrow> bool \<times> client"
where
  "heartbeats cfg key token [] c = (False, c)"
| "heartbeats cfg key token ((meanwhile, now) # beats) c =
    (case sem_renew cfg key token now (meanwhile c) of
       (r, c') \<Rightarrow> (case heartbeats cfg key token beats c' of
          (lost, c'') \<Rightarrow> (r \<noteq> Inr True \<or> lost, c'')))"

definition hold ::
  "sem_config \<Rightarrow> string \<Rightarrow> string \<Rightarrow> int \<Rightarrow> ((client \<Rightarrow> client) \<times> int) list \<Rightarrow>
   (client \<Rightarrow> (cache_error + 'a) \<times> client) \<Rightarrow> client \<Rightarrow> (cache_error + 'a) \<times> client"
where
  "hold cfg key token now beats body c =
    (case sem_acquire cfg key token now c of
       (Inl e, c') \<Rightarrow> (Inl e, c')
     | (Inr (Full n), c') \<Rightarrow> (Inl PermitNotHeld, c')
     | (Inr (Granted t x n), c') \<Rightarrow>
        (case heartbeats cfg key token beats c' of
           (lost, c1) \<Rightarrow>
             (case body c1 of
                (r, c2) \<Rightarrow>
                  (case r of
                     Inl e \<Rightarrow> (Inl e, snd (sem_release cfg key token c2))
                   | Inr v \<Rightarrow> ((if lost then Inl PermitNotHeld else Inr v), snd (sem_release cfg key token c2))))))"

subsection \<open>The sorted set under the key\<close>

text \<open>The members with their expiries, and when the key itself expires.\<close>

definition zview :: "string \<Rightarrow> mem \<Rightarrow> ((string \<times> int) list \<times> int option) option" where
  "zview k m = (case live k m of
     None \<Rightarrow> None
   | Some e \<Rightarrow> (case en_value e of SZset ms \<Rightarrow> Some (ms, en_expires e) | _ \<Rightarrow> None))"

definition zkey :: "string \<Rightarrow> mem \<Rightarrow> bool" where
  "zkey k m \<longleftrightarrow> mem_ok m \<and> (\<forall>e. live k m = Some e \<longrightarrow> (\<exists>ms. en_value e = SZset ms))"

definition sweep :: "int \<Rightarrow> (string \<times> int) list \<Rightarrow> (string \<times> int) list" where
  "sweep now ms = filter (\<lambda>(t, s). now < s) ms"

definition members :: "string \<Rightarrow> mem \<Rightarrow> (string \<times> int) list" where
  "members k m = (case zview k m of None \<Rightarrow> [] | Some (ms, x) \<Rightarrow> ms)"

lemma zkey_zset_of: "zkey k m \<Longrightarrow> zset_of k (expire m) = Inr (map_option fst (zview k m))"
  by (auto simp: zkey_def zset_of_def zview_def live_def split: option.splits stored.splits)

lemma zkey_expire [simp]: "zkey k m \<Longrightarrow> zkey k (expire m)" "zview k (expire m) = zview k m"
  by (simp_all add: zkey_def ok_expire zview_def live_def)

lemma zview_distinct: "zkey k m \<Longrightarrow> zview k m = Some (ms, x) \<Longrightarrow>
    ms \<noteq> [] \<and> distinct (map fst ms) \<and> (case x of None \<Rightarrow> True | Some y \<Rightarrow> m_now m < y)"
proof -
  assume z: "zkey k m" "zview k m = Some (ms, x)"
  then obtain e where e: "live k m = Some e" "en_value e = SZset ms" "en_expires e = x"
    by (auto simp: zview_def split: option.splits stored.splits)
  with z(1) ok_lookup [OF ok_expire, of m k e] live_not_expired [of m k e] show ?thesis
    by (auto simp: zkey_def live_def expired_def split: option.splits)
qed

lemma zview_with_zset:
  assumes "zkey k m" "distinct (map fst ms)"
  shows "zkey k (with_zset k ms (expire m)) \<and> m_now (with_zset k ms (expire m)) = m_now m \<and>
    zview k (with_zset k ms (expire m)) =
      (if ms = [] then None else Some (ms, case zview k m of None \<Rightarrow> None | Some (_, x) \<Rightarrow> x))"
proof -
  have ok: "mem_ok (with_zset k ms (expire m))" using assms by (simp add: zkey_def ok_expire ok_with_zset)
  have look: "lookup k (with_zset k ms (expire m)) = (if ms = [] then None else
       Some (case live k m of None \<Rightarrow> \<lparr>en_value = SZset ms, en_expires = None\<rparr> | Some e \<Rightarrow> e\<lparr>en_value := SZset ms\<rparr>))"
    by (simp add: live_def)
  have fresh: "\<not> expired (m_now m) (e\<lparr>en_value := v\<rparr>)" if "live k m = Some e" for e v
    using live_not_expired [of m k e] that assms(1) by (simp add: zkey_def expired_def)
  have "live k (with_zset k ms (expire m)) = lookup k (with_zset k ms (expire m))"
    using ok look fresh by (auto simp: live_def [of k "with_zset k ms (expire m)"] lookup_expire expired_def split: option.splits)
  then show ?thesis
    using ok look assms(1) by (auto simp: zkey_def zview_def split: option.split)
qed

text \<open>The verbs the scripts use.\<close>

lemma z_sweep:
  assumes "zkey k m"
  shows "\<exists>n m'. command (Zremrangebyscore k NegInf (At now)) m = (Inr n, m') \<and> zkey k m' \<and> m_now m' = m_now m \<and>
    zview k m' = (case zview k m of None \<Rightarrow> None
      | Some (ms, x) \<Rightarrow> if sweep now ms = [] then None else Some (sweep now ms, x))"
proof (cases "zview k m")
  case None
  with assms show ?thesis by (simp add: command_def zkey_zset_of)
next
  case (Some p)
  then obtain ms x where p: "zview k m = Some (ms, x)" by (cases p) auto
  have eq: "filter (\<lambda>(t, s). \<not> (above NegInf s \<and> below (At now) s)) ms = sweep now ms"
    unfolding sweep_def by (rule filter_cong) auto
  have "distinct (map fst (sweep now ms))"
    using zview_distinct [OF assms p] by (simp add: sweep_def distinct_map_filter)
  from zview_with_zset [OF assms this] show ?thesis
    using assms p eq by (simp add: command_def zkey_zset_of Let_def)
qed

lemma z_score:
  assumes "zkey k m"
  shows "command (Zscore k t) m = (Inr (case map_of (members k m) t of None \<Rightarrow> RNull | Some s \<Rightarrow> RText (int_text s)), expire m)"
  using assms by (auto simp: command_def zkey_zset_of members_def split: option.split)

lemma z_card:
  assumes "zkey k m"
  shows "command (Zcard k) m = (Inr (RInt (int (length (members k m)))), expire m)"
  using assms by (auto simp: command_def zkey_zset_of members_def split: option.split)

lemma distinct_members: "zkey k m \<Longrightarrow> distinct (map fst (members k m))"
  by (auto simp: members_def dest: zview_distinct split: option.split)

lemma z_add:
  assumes "zkey k m"
  shows "\<exists>n m'. command (Zadd k False False [(s, t)]) m = (Inr n, m') \<and> zkey k m' \<and> m_now m' = m_now m \<and>
    zview k m' = Some (AList.update t s (members k m), case zview k m of None \<Rightarrow> None | Some (_, x) \<Rightarrow> x)"
proof -
  let ?ms = "AList.update t s (members k m)"
  have d: "distinct (map fst ?ms)" using distinct_members [OF assms] by (rule distinct_update)
  have ne: "?ms \<noteq> []" by (cases "members k m") auto
  have "\<exists>n. command (Zadd k False False [(s, t)]) m = (Inr n, with_zset k ?ms (expire m))"
    using assms by (auto simp: command_def zkey_zset_of members_def split: option.splits)
  with zview_with_zset [OF assms d] ne show ?thesis by auto
qed

lemma z_pexpire:
  assumes "zkey k m" "zview k m = Some (ms, x)" "0 < l"
  shows "\<exists>n m'. command (Pexpire k l) m = (Inr n, m') \<and> zkey k m' \<and> m_now m' = m_now m \<and>
    zview k m' = Some (ms, Some (m_now m + l))"
proof -
  obtain e where e: "live k m = Some e" "en_value e = SZset ms" "en_expires e = x"
    using assms(2) by (auto simp: zview_def split: option.splits stored.splits)
  let ?e = "e\<lparr>en_expires := Some (m_now m + l)\<rparr>"
  have run: "command (Pexpire k l) m = (Inr (RInt 1), put k ?e (expire m))"
    using e(1) by (simp add: command_def set_expiry_def live_def)
  have ok: "mem_ok (put k ?e (expire m))"
    using assms(1) zview_distinct [OF assms(1,2)] e by (intro ok_put) (auto simp: zkey_def ok_expire)
  have "live k (put k ?e (expire m)) = Some ?e"
    using ok assms(3) by (simp add: live_def lookup_expire expired_def)
  with run ok e show ?thesis by (simp add: zkey_def zview_def)
qed

lemma z_rem:
  assumes "zkey k m"
  shows "\<exists>m'. command (Zrem k [t]) m = (Inr (RInt (bool_int (map_of (members k m) t \<noteq> None))), m') \<and> zkey k m' \<and>
    m_now m' = m_now m \<and>
    zview k m' = (case zview k m of None \<Rightarrow> None
      | Some (ms, x) \<Rightarrow> if AList.delete t ms = [] then None else Some (AList.delete t ms, x))"
proof (cases "zview k m")
  case None
  with assms show ?thesis by (simp add: command_def zkey_zset_of members_def)
next
  case (Some p)
  then obtain ms x where p: "zview k m = Some (ms, x)" by (cases p) auto
  have "distinct (map fst (AList.delete t ms))"
    using zview_distinct [OF assms p] by (simp add: distinct_delete)
  from zview_with_zset [OF assms this] show ?thesis
    using assms p by (simp add: command_def zkey_zset_of members_def)
qed

subsection \<open>What the scripts do\<close>

text \<open>
  The scripts take the time from the caller, the key expires on the server's clock. The states the
  operations with lease \<open>l\<close> keep when no caller's clock is more than \<open>e\<close> ahead: no member outlives
  the key by more than \<open>e\<close>, none expires later than a lease and \<open>e\<close> from now, and the key not later
  than a lease from now.
\<close>

definition sem_state :: "int \<Rightarrow> int \<Rightarrow> string \<Rightarrow> mem \<Rightarrow> bool" where
  "sem_state l e k m \<longleftrightarrow> zkey k m \<and> (\<forall>ms x. zview k m = Some (ms, x) \<longrightarrow>
     (\<forall>p \<in> set ms. snd p \<le> m_now m + l + e) \<and>
     (\<exists>y. x = Some y \<and> y \<le> m_now m + l \<and> (\<forall>p \<in> set ms. snd p \<le> y + e)))"

text \<open>The semaphore as a set of leases, without keys and verbs.\<close>

definition lease_acquire :: "int \<Rightarrow> int \<Rightarrow> int \<Rightarrow> string \<Rightarrow> (string \<times> int) list \<Rightarrow> (bool \<times> nat) \<times> (string \<times> int) list" where
  "lease_acquire capacity l now t ms =
    (let alive = sweep now ms; granted = AList.update t (now + l) alive
     in if map_of alive t \<noteq> None \<or> int (length alive) < capacity then ((True, length granted), granted)
        else ((False, length alive), alive))"

definition lease_renew :: "int \<Rightarrow> int \<Rightarrow> string \<Rightarrow> (string \<times> int) list \<Rightarrow> bool \<times> (string \<times> int) list" where
  "lease_renew l now t ms =
    (let alive = sweep now ms
     in if map_of alive t \<noteq> None then (True, AList.update t (now + l) alive) else (False, alive))"

definition lease_release :: "string \<Rightarrow> (string \<times> int) list \<Rightarrow> bool \<times> (string \<times> int) list" where
  "lease_release t ms = (map_of ms t \<noteq> None, AList.delete t ms)"

lemma set_sweep: "p \<in> set (sweep now ms) \<longleftrightarrow> p \<in> set ms \<and> now < snd p"
  by (auto simp: sweep_def)

lemma length_update: "length (AList.update t v ms) = (if map_of ms t = None then Suc (length ms) else length ms)"
  by (induction ms) auto

lemma set_update_subset: "set (AList.update t v ms) \<subseteq> insert (t, v) (set ms)"
  by (induction ms) auto

lemma sem_state_cases:
  assumes "zkey k m" "zview k m = None \<or> (\<exists>ms y. zview k m = Some (ms, Some y) \<and>
      y \<le> m_now m + l \<and>
      (\<forall>p \<in> set ms. snd p \<le> m_now m + l + e \<and> snd p \<le> y + e))"
  shows "sem_state l e k m"
  using assms by (fastforce simp: sem_state_def)

text \<open>The first line of acquire and renew.\<close>

lemma sweep_step:
  assumes "sem_state l e k m"
  obtains n m' where "command (Zremrangebyscore k NegInf (At now)) m = (Inr n, m')" "sem_state l e k m'"
    "m_now m' = m_now m" "members k m' = sweep now (members k m)"
proof -
  have z: "zkey k m" using assms by (simp add: sem_state_def)
  obtain n m' where m': "command (Zremrangebyscore k NegInf (At now)) m = (Inr n, m')" "zkey k m'" "m_now m' = m_now m"
    "zview k m' = (case zview k m of None \<Rightarrow> None
      | Some (ms, x) \<Rightarrow> if sweep now ms = [] then None else Some (sweep now ms, x))"
    using z_sweep [OF z, of now] by blast
  have "sem_state l e k m'"
    using m' assms by (intro sem_state_cases) (fastforce simp: sem_state_def set_sweep split: option.splits)+
  moreover have "members k m' = sweep now (members k m)"
    using m'(4) by (auto simp: members_def sweep_def split: option.splits)
  ultimately show thesis using m'(1,3) that by blast
qed

text \<open>The two lines that write a lease.\<close>

lemma grant_step:
  assumes "sem_state l e k m" "0 < l" "now \<le> m_now m + e"
  obtains n m1 n' m2 where "command (Zadd k False False [(now + l, t)]) m = (Inr n, m1)"
    "command (Pexpire k l) m1 = (Inr n', m2)" "sem_state l e k m2" "m_now m2 = m_now m"
    "members k m2 = AList.update t (now + l) (members k m)"
proof -
  have z: "zkey k m" using assms(1) by (simp add: sem_state_def)
  obtain n m1 x where m1: "command (Zadd k False False [(now + l, t)]) m = (Inr n, m1)" "zkey k m1" "m_now m1 = m_now m"
    "zview k m1 = Some (AList.update t (now + l) (members k m), x)"
    using z_add [OF z, of "now + l" t] by blast
  obtain n' m2 where m2: "command (Pexpire k l) m1 = (Inr n', m2)" "zkey k m2" "m_now m2 = m_now m1"
    "zview k m2 = Some (AList.update t (now + l) (members k m), Some (m_now m1 + l))"
    using z_pexpire [OF m1(2,4) assms(2)] by blast
  have "\<forall>p \<in> set (members k m). snd p \<le> m_now m + l + e"
    using assms(1) by (cases "zview k m") (fastforce simp: sem_state_def members_def)+
  then have "sem_state l e k m2"
    using m1(3) m2 set_update_subset [of t "now + l" "members k m"] assms(3)
    by (intro sem_state_cases) auto
  moreover have "members k m2 = AList.update t (now + l) (members k m)"
    using m2(4) by (simp add: members_def)
  ultimately show thesis using m1 m2 that by auto
qed

lemma same_after_expire:
  "sem_state l e k m \<Longrightarrow> sem_state l e k (expire m)" "members k (expire m) = members k m"
  by (auto simp: sem_state_def members_def)

lemma acquire_effect:
  assumes "sem_state l e k m" "0 < l" "now \<le> m_now m + e" "evalLua (SemAcquire k now cap t l) m = (r, m')"
    "lease_acquire cap l now t (members k m) = ((b, n), ms)"
  shows "sem_state l e k m' \<and> m_now m' = m_now m \<and> members k m' = ms \<and>
    r = Inr (RArr [RInt (bool_int b), RInt (int n), RInt (if b then now + l else 0)])"
proof -
  obtain n1 m1 where m1: "command (Zremrangebyscore k NegInf (At now)) m = (Inr n1, m1)" "sem_state l e k m1"
    "m_now m1 = m_now m" "members k m1 = sweep now (members k m)"
    using sweep_step [OF assms(1)] by blast
  let ?m = "expire m1" and ?mm = "expire (expire m1)" and ?alive = "sweep now (members k m)"
  have z: "zkey k m1" "zkey k ?m" using m1(2) by (simp_all add: sem_state_def)
  have score: "command (Zscore k t) m1 = (Inr (case map_of ?alive t of None \<Rightarrow> RNull | Some s \<Rightarrow> RText (int_text s)), ?m)"
    using z_score [OF z(1)] m1(4) by simp
  have card: "command (Zcard k) ?m = (Inr (RInt (int (length ?alive))), ?m)"
    using z_card [OF z(2)] m1(4) by (simp add: same_after_expire)
  have now: "m_now ?m = m_now m" "now \<le> m_now ?m + e" using m1(3) assms(3) by simp_all
  obtain n2 m2 n3 m3 where m3: "command (Zadd k False False [(now + l, t)]) ?m = (Inr n2, m2)"
    "command (Pexpire k l) m2 = (Inr n3, m3)" "sem_state l e k m3" "m_now m3 = m_now ?m"
    "members k m3 = AList.update t (now + l) (members k ?m)"
    using grant_step [OF same_after_expire(1) [OF m1(2)] assms(2) now(2), of t] by blast
  have card3: "command (Zcard k) m3 = (Inr (RInt (int (length (members k m3)))), expire m3)"
    using z_card m3(3) by (simp add: sem_state_def)
  note run = m1(1) score card m3(1,2) card3
  show ?thesis
  proof (cases "map_of ?alive t")
    case None
    show ?thesis
    proof (cases "cap \<le> int (length ?alive)")
      case True
      have "(r, m') = (Inr (RArr [RInt 0, RInt (int (length ?alive)), RInt 0]), ?m)"
        using assms(4) None True run by (simp add: answer_with_def int_of_def now)
      with True None assms(5) m1 show ?thesis
        by (auto simp: lease_acquire_def Let_def same_after_expire)
    next
      case False
      have "(r, m') = (Inr (RArr [RInt 1, RInt (int (length ?alive) + 1), RInt (now + l)]), m3)"
        using assms(4) None False run by (simp add: answer_with_def int_of_def now)
      with False None assms(5) m1 m3 show ?thesis
        by (auto simp: lease_acquire_def Let_def same_after_expire length_update)
    qed
  next
    case (Some s)
    have "(r, m') = (Inr (RArr [RInt 1, RInt (int (length (members k m3))), RInt (now + l)]), expire m3)"
      using assms(4) Some run by (simp add: answer_with_def int_of_def now)
    with Some assms(5) m1 m3 show ?thesis
      by (auto simp: lease_acquire_def Let_def same_after_expire)
  qed
qed

lemma renew_effect:
  assumes "sem_state l e k m" "0 < l" "now \<le> m_now m + e" "evalLua (SemRenew k now t l) m = (r, m')"
    "lease_renew l now t (members k m) = (b, ms)"
  shows "sem_state l e k m' \<and> m_now m' = m_now m \<and> members k m' = ms \<and>
    r = Inr (RArr [RInt (bool_int b), RInt (if b then now + l else 0)])"
proof -
  obtain n1 m1 where m1: "command (Zremrangebyscore k NegInf (At now)) m = (Inr n1, m1)" "sem_state l e k m1"
    "m_now m1 = m_now m" "members k m1 = sweep now (members k m)"
    using sweep_step [OF assms(1)] by blast
  let ?m = "expire m1" and ?alive = "sweep now (members k m)"
  have z: "zkey k m1" using m1(2) by (simp add: sem_state_def)
  have score: "command (Zscore k t) m1 = (Inr (case map_of ?alive t of None \<Rightarrow> RNull | Some s \<Rightarrow> RText (int_text s)), ?m)"
    using z_score [OF z] m1(4) by simp
  have now: "m_now ?m = m_now m" "now \<le> m_now ?m + e" using m1(3) assms(3) by simp_all
  obtain n2 m2 n3 m3 where m3: "command (Zadd k False False [(now + l, t)]) ?m = (Inr n2, m2)"
    "command (Pexpire k l) m2 = (Inr n3, m3)" "sem_state l e k m3" "m_now m3 = m_now ?m"
    "members k m3 = AList.update t (now + l) (members k ?m)"
    using grant_step [OF same_after_expire(1) [OF m1(2)] assms(2) now(2), of t] by blast
  note run = m1(1) score m3(1,2)
  show ?thesis
    using assms(4,5) run m1 m3
    by (cases "map_of ?alive t") (auto simp: lease_renew_def Let_def same_after_expire answer_with_def now)
qed

lemma release_effect:
  assumes "sem_state l e k m" "evalLua (SemRelease k t) m = (r, m')"
    "lease_release t (members k m) = (b, ms)"
  shows "sem_state l e k m' \<and> m_now m' = m_now m \<and> members k m' = ms \<and>
    r = Inr (RArr [RInt (bool_int b), RInt (int (length ms))])"
proof -
  have z: "zkey k m" using assms(1) by (simp add: sem_state_def)
  obtain m1 where m1: "command (Zrem k [t]) m = (Inr (RInt (bool_int (map_of (members k m) t \<noteq> None))), m1)" "zkey k m1"
    "m_now m1 = m_now m" "zview k m1 = (case zview k m of None \<Rightarrow> None
      | Some (ms, x) \<Rightarrow> if AList.delete t ms = [] then None else Some (AList.delete t ms, x))"
    using z_rem [OF z] by blast
  have mem: "members k m1 = AList.delete t (members k m)"
    using m1(4) by (auto simp: members_def split: option.splits)
  have "sem_state l e k m1"
    using m1 assms(1) by (intro sem_state_cases) (fastforce simp: sem_state_def AList.delete_eq split: option.splits)+
  with assms(2,3) m1 mem z_card [OF m1(2)] show ?thesis
    by (auto simp: answer_with_def lease_release_def same_after_expire)
qed

end
