(* ===== verification/Cache_Fleet.thy ===== *)
theory Cache_Fleet
  imports Cache_Semaphore
begin

text \<open>
  The processes that share one semaphore: who believes to hold a permit, and that they are never
  more than the capacity.
\<close>

subsection \<open>Operations through the client\<close>

text \<open>\<open>e\<close> bounds how far the processes' clocks are from the server's.\<close>

definition sem_ok :: "sem_config \<Rightarrow> int \<Rightarrow> string \<Rightarrow> client \<Rightarrow> bool" where
  "sem_ok cfg e key c \<longleftrightarrow> 0 < sm_lease cfg \<and> 0 \<le> e \<and> sem_state (sm_lease cfg) e (sem_key cfg key) (cl_data c)"

definition sem_members :: "sem_config \<Rightarrow> string \<Rightarrow> client \<Rightarrow> (string \<times> int) list" where
  "sem_members cfg key c = members (sem_key cfg key) (cl_data c)"

abbreviation server_now :: "client \<Rightarrow> int" where
  "server_now c \<equiv> m_now (cl_data c)"

lemma nth_int_simps [simp]:
  "nth_int (RArr (r # rs)) 0 = int_of r" "nth_int (RArr (r # rs)) (Suc k) = nth_int (RArr rs) k"
  "nth_int (RArr (r # q # p # rs)) 2 = int_of p" "int_of (RInt i) = i"
  by (simp_all add: nth_int_def int_of_def)

lemma bool_int_eq [simp]: "bool_int b = 1 \<longleftrightarrow> b"
  by (cases b) simp_all

lemma sem_acquire_cases:
  assumes "sem_ok cfg e key c" "sem_acquire cfg key t now c = (r, c')" "now \<le> server_now c + e"
  obtains (failed) err where "r = Inl err" "cl_data c' = cl_data c"
  | (served) b n ms where "lease_acquire (sm_capacity cfg) (sm_lease cfg) now t (sem_members cfg key c) = ((b, n), ms)"
      "r = Inr (if b then Granted t (now + sm_lease cfg) (int n) else Full (int n))"
      "sem_ok cfg e key c'" "sem_members cfg key c' = ms" "server_now c' = server_now c"
proof (cases rule: run_script_cases
    [of "SemAcquire (sem_key cfg key) now (sm_capacity cfg) t (sm_lease cfg)" c])
  case (refused err c'')
  with assms(2) show thesis by (intro failed) (auto simp: sem_acquire_def)
next
  case (ran q m c'')
  obtain b n ms where spec: "lease_acquire (sm_capacity cfg) (sm_lease cfg) now t (sem_members cfg key c) = ((b, n), ms)"
    by (metis surj_pair)
  from acquire_effect [OF _ _ _ ran(1), of e] spec assms(1,3)
  have "sem_state (sm_lease cfg) e (sem_key cfg key) m \<and> m_now m = server_now c \<and> members (sem_key cfg key) m = ms \<and>
      q = Inr (RArr [RInt (bool_int b), RInt (int n), RInt (if b then now + sm_lease cfg else 0)])"
    by (simp add: sem_ok_def sem_members_def)
  with assms ran(2,3) show thesis
    by (intro served [OF spec]) (auto simp: sem_acquire_def sem_ok_def sem_members_def)
qed

lemma sem_acquire_up:
  assumes "sem_ok cfg e key c" "up c" "now \<le> server_now c + e"
  shows "fst (sem_acquire cfg key t now c) \<noteq> Inl err"
proof -
  let ?call = "SemAcquire (sem_key cfg key) now (sm_capacity cfg) t (sm_lease cfg)"
  obtain r m where rm: "evalLua ?call (cl_data c) = (r, m)" by fastforce
  obtain b n ms where spec: "lease_acquire (sm_capacity cfg) (sm_lease cfg) now t (sem_members cfg key c) = ((b, n), ms)"
    by (metis surj_pair)
  from acquire_effect [OF _ _ _ rm, of e] spec assms(1,3) obtain q where "r = Inr q" by (auto simp: sem_ok_def sem_members_def)
  with run_script_eq [OF assms(2) rm] show ?thesis by (simp add: sem_acquire_def)
qed

lemma sem_renew_cases:
  assumes "sem_ok cfg e key c" "sem_renew cfg key t now c = (r, c')" "now \<le> server_now c + e"
  obtains (failed) err where "r = Inl err" "cl_data c' = cl_data c"
  | (served) b ms where "lease_renew (sm_lease cfg) now t (sem_members cfg key c) = (b, ms)"
      "r = Inr b" "sem_ok cfg e key c'" "sem_members cfg key c' = ms" "server_now c' = server_now c"
proof (cases rule: run_script_cases [of "SemRenew (sem_key cfg key) now t (sm_lease cfg)" c])
  case (refused err c'')
  with assms(2) show thesis by (intro failed) (auto simp: sem_renew_def first_is_one_def)
next
  case (ran q m c'')
  obtain b ms where spec: "lease_renew (sm_lease cfg) now t (sem_members cfg key c) = (b, ms)"
    by (metis surj_pair)
  from renew_effect [OF _ _ _ ran(1), of e] spec assms(1,3)
  have "sem_state (sm_lease cfg) e (sem_key cfg key) m \<and> m_now m = server_now c \<and> members (sem_key cfg key) m = ms \<and>
      q = Inr (RArr [RInt (bool_int b), RInt (if b then now + sm_lease cfg else 0)])"
    by (simp add: sem_ok_def sem_members_def)
  with assms ran(2,3) show thesis
    by (intro served [OF spec]) (auto simp: sem_renew_def first_is_one_def sem_ok_def sem_members_def)
qed

lemma sem_release_cases:
  assumes "sem_ok cfg e key c" "sem_release cfg key t c = (r, c')"
  obtains (failed) err where "r = Inl err" "cl_data c' = cl_data c"
  | (served) b ms where "lease_release t (sem_members cfg key c) = (b, ms)" "r = Inr b" "sem_ok cfg e key c'"
      "sem_members cfg key c' = ms" "server_now c' = server_now c"
proof (cases rule: run_script_cases [of "SemRelease (sem_key cfg key) t" c])
  case (refused err c'')
  with assms(2) show thesis by (intro failed) (auto simp: sem_release_def first_is_one_def)
next
  case (ran q m c'')
  obtain b ms where spec: "lease_release t (sem_members cfg key c) = (b, ms)"
    by (metis surj_pair)
  from release_effect [of "sm_lease cfg" e, OF _ ran(1)] spec assms(1)
  have "sem_state (sm_lease cfg) e (sem_key cfg key) m \<and> m_now m = server_now c \<and> members (sem_key cfg key) m = ms \<and>
      q = Inr (RArr [RInt (bool_int b), RInt (int (length ms))])"
    by (simp add: sem_ok_def sem_members_def)
  with assms ran(2,3) show thesis
    by (intro served [OF spec]) (auto simp: sem_release_def first_is_one_def sem_ok_def sem_members_def)
qed

text \<open>Time passes: a lease that is still good is still there.\<close>

lemma view_pass:
  assumes "sem_state l e k m" "0 \<le> d"
  shows "zkey k (m\<lparr>m_now := m_now m + d\<rparr>) \<and> zview k (m\<lparr>m_now := m_now m + d\<rparr>) = (case zview k m of None \<Rightarrow> None
    | Some (ms, x) \<Rightarrow> if (case x of None \<Rightarrow> False | Some y \<Rightarrow> y \<le> m_now m + d) then None else Some (ms, x))"
proof -
  have ok: "mem_ok m" "mem_ok (m\<lparr>m_now := m_now m + d\<rparr>)" using assms(1) by (simp_all add: sem_state_def zkey_def mem_ok_def)
  note pass = live_pass [OF ok(1) assms(2), of k]
  have "zkey k (m\<lparr>m_now := m_now m + d\<rparr>)"
    using assms pass ok(2) by (auto simp: sem_state_def zkey_def split: option.splits if_splits)
  then show ?thesis
    using pass by (auto simp: zview_def expired_def split: option.splits stored.splits)
qed

lemma members_pass:
  assumes "sem_state l e k m" "0 \<le> d"
  shows "sem_state l e k (m\<lparr>m_now := m_now m + d\<rparr>) \<and>
    (members k (m\<lparr>m_now := m_now m + d\<rparr>) = members k m \<or>
     members k (m\<lparr>m_now := m_now m + d\<rparr>) = [] \<and> (\<forall>p \<in> set (members k m). snd p \<le> m_now m + d + e))"
proof -
  let ?m' = "m\<lparr>m_now := m_now m + d\<rparr>"
  note view = view_pass [OF assms]
  have "sem_state l e k ?m'"
    using view assms by (cases "zview k m") (fastforce simp: sem_state_def split: if_splits option.splits)+
  moreover have "members k ?m' = members k m \<or> members k ?m' = [] \<and> (\<forall>p \<in> set (members k m). snd p \<le> m_now m + d + e)"
    using view assms(1) by (cases "zview k m") (fastforce simp: members_def sem_state_def split: if_splits option.splits)+
  ultimately show ?thesis by blast
qed

lemma members_elapse:
  assumes "sem_ok cfg e key c" "0 \<le> d"
  shows "sem_ok cfg e key (elapse d c) \<and> server_now (elapse d c) = server_now c + d \<and>
    (sem_members cfg key (elapse d c) = sem_members cfg key c \<or>
     sem_members cfg key (elapse d c) = [] \<and> (\<forall>p \<in> set (sem_members cfg key c). snd p \<le> server_now c + d + e))"
  using members_pass [of "sm_lease cfg" e "sem_key cfg key" "cl_data c" d] assms
  by (simp add: sem_ok_def sem_members_def elapse_def)

text \<open>After a lease of silence the key is gone.\<close>

lemma members_gone:
  assumes "sem_ok cfg e key c" "sm_lease cfg \<le> d"
  shows "zview (sem_key cfg key) (cl_data (elapse d c)) = None \<and> sem_members cfg key (elapse d c) = []"
proof -
  have state: "sem_state (sm_lease cfg) e (sem_key cfg key) (cl_data c)" "0 \<le> d"
    using assms by (simp_all add: sem_ok_def)
  have "zview (sem_key cfg key) (cl_data (elapse d c)) = None"
    using view_pass [OF state] state(1) assms(2)
    by (cases "zview (sem_key cfg key) (cl_data c)") (fastforce simp: sem_state_def elapse_def split: option.splits)+
  then show ?thesis by (simp add: sem_members_def members_def)
qed

subsection \<open>Processes\<close>

text \<open>
  A world is the server and the permits the processes believe in, each until the \<open>expiresAt\<close> they were
  given. Every process passes its own clock, which is at most \<open>e\<close> off the server's; a step is an operation
  of one of them, time passing, the server failing or recovering, or a request of somebody else on
  other keys.
\<close>

record sem_world =
  sw_client :: client
  sw_permits :: "string \<Rightarrow> int option"

inductive sem_step :: "sem_config \<Rightarrow> int \<Rightarrow> string \<Rightarrow> sem_world \<Rightarrow> sem_world \<Rightarrow> bool" for cfg e key where
  Acquire: "\<bar>now - server_now c\<bar> \<le> e \<Longrightarrow> sem_acquire cfg key t now c = (r, c') \<Longrightarrow>
    sem_step cfg e key \<lparr>sw_client = c, sw_permits = P\<rparr>
      \<lparr>sw_client = c', sw_permits = (case r of Inr (Granted t' x n) \<Rightarrow> P(t' \<mapsto> x) | _ \<Rightarrow> P)\<rparr>"
| Renew: "\<bar>now - server_now c\<bar> \<le> e \<Longrightarrow> sem_renew cfg key t now c = (r, c') \<Longrightarrow>
    sem_step cfg e key \<lparr>sw_client = c, sw_permits = P\<rparr>
      \<lparr>sw_client = c', sw_permits = (if r = Inr True then P(t \<mapsto> now + sm_lease cfg)
          else if r = Inr False then P(t := None) else P)\<rparr>"
| Release: "sem_release cfg key t c = (r, c') \<Longrightarrow>
    sem_step cfg e key \<lparr>sw_client = c, sw_permits = P\<rparr> \<lparr>sw_client = c', sw_permits = P(t := None)\<rparr>"
| Elapse: "0 \<le> d \<Longrightarrow>
    sem_step cfg e key \<lparr>sw_client = c, sw_permits = P\<rparr> \<lparr>sw_client = elapse d c, sw_permits = P\<rparr>"
| Fault: "cl_data c' = cl_data c \<Longrightarrow>
    sem_step cfg e key \<lparr>sw_client = c, sw_permits = P\<rparr> \<lparr>sw_client = c', sw_permits = P\<rparr>"
| Foreign: "sem_key cfg key \<notin> set (request_keys rq) \<Longrightarrow> send rq c = (r, c') \<Longrightarrow>
    sem_step cfg e key \<lparr>sw_client = c, sw_permits = P\<rparr> \<lparr>sw_client = c', sw_permits = P\<rparr>"

inductive_cases sem_stepE: "sem_step cfg e key w w'"

definition sem_sound :: "sem_config \<Rightarrow> int \<Rightarrow> string \<Rightarrow> sem_world \<Rightarrow> bool" where
  "sem_sound cfg e key w \<longleftrightarrow> sem_ok cfg e key (sw_client w) \<and>
     int (length (sem_members cfg key (sw_client w))) \<le> sm_capacity cfg \<and>
     (\<forall>t x. sw_permits w t = Some x \<longrightarrow> server_now (sw_client w) + e < x \<longrightarrow>
        map_of (sem_members cfg key (sw_client w)) t = Some x)"

lemma map_of_sweep: "distinct (map fst ms) \<Longrightarrow> map_of (sweep now ms) t = Some x \<longleftrightarrow> map_of ms t = Some x \<and> now < x"
  by (auto simp: sweep_def distinct_map_filter map_of_eq_Some_iff)

lemma length_sweep: "length (sweep now ms) \<le> length ms"
  by (simp add: sweep_def)

lemma sem_members_distinct: "sem_ok cfg e key c \<Longrightarrow> distinct (map fst (sem_members cfg key c))"
  by (simp add: sem_ok_def sem_state_def sem_members_def distinct_members)

lemma length_delete: "length (AList.delete t ms) \<le> length ms"
  by (simp add: AList.delete_eq)

text \<open>The three operations on sets of leases never exceed the capacity and keep the other leases.\<close>

lemma lease_acquire_length:
  "lease_acquire cap l now t ms = ((b, n), ms') \<Longrightarrow> int (length ms) \<le> cap \<Longrightarrow> int (length ms') \<le> cap"
  using length_sweep [of now ms] by (auto simp: lease_acquire_def Let_def length_update split: if_splits)

lemma lease_acquire_keeps:
  assumes "lease_acquire cap l now t ms = ((b, n), ms')" "distinct (map fst ms)"
  shows "map_of ms u = Some x \<Longrightarrow> now < x \<Longrightarrow> u \<noteq> t \<or> \<not> b \<Longrightarrow> map_of ms' u = Some x"
    "b \<Longrightarrow> map_of ms' t = Some (now + l)"
  using assms(1) map_of_sweep [OF assms(2), of now]
  by (auto simp: lease_acquire_def Let_def update_conv' split: if_splits)

lemma lease_renew_length:
  "lease_renew l now t ms = (b, ms') \<Longrightarrow> length ms' \<le> length ms"
  using length_sweep [of now ms] by (auto simp: lease_renew_def Let_def length_update split: if_splits)

lemma lease_renew_keeps:
  assumes "lease_renew l now t ms = (b, ms')" "distinct (map fst ms)"
  shows "map_of ms u = Some x \<Longrightarrow> now < x \<Longrightarrow> u \<noteq> t \<Longrightarrow> map_of ms' u = Some x"
    "b \<Longrightarrow> map_of ms' t = Some (now + l)"
  using assms(1) map_of_sweep [OF assms(2), of now]
  by (auto simp: lease_renew_def Let_def update_conv' split: if_splits)

lemma sem_sound_same_data:
  assumes "sem_sound cfg e key w" "mem_ok (cl_data c')" "server_now c' = server_now (sw_client w)"
    "live (sem_key cfg key) (cl_data c') = live (sem_key cfg key) (cl_data (sw_client w))"
  shows "sem_sound cfg e key (w\<lparr>sw_client := c'\<rparr>)"
  using assms by (simp add: sem_sound_def sem_ok_def sem_state_def zkey_def sem_members_def members_def zview_def)

lemma sem_sound_client:
  "sem_sound cfg e key \<lparr>sw_client = c, sw_permits = P\<rparr> \<Longrightarrow> cl_data c' = cl_data c \<Longrightarrow>
   sem_sound cfg e key \<lparr>sw_client = c', sw_permits = P\<rparr>"
  by (simp add: sem_sound_def sem_ok_def sem_members_def)

lemma sem_step_sound:
  assumes "sem_step cfg e key w w'" "sem_sound cfg e key w"
  shows "sem_sound cfg e key w'"
  using assms
proof (cases rule: sem_step.cases)
  case (Acquire now c t r c' P)
  then have ok: "sem_ok cfg e key c" using assms(2) by (simp add: sem_sound_def)
  note d = sem_members_distinct [OF ok]
  have n: "now \<le> server_now c + e" using Acquire(3) by simp
  have fresh: "server_now c + e < x \<Longrightarrow> now < x" for x using n by simp
  from ok Acquire(4) n show ?thesis
  proof (cases rule: sem_acquire_cases)
    case (failed err)
    with Acquire assms(2) show ?thesis by (auto intro: sem_sound_client)
  next
    case (served b n ms)
    show ?thesis
      using Acquire(1,2) served(2-5) assms(2) fresh lease_acquire_length [OF served(1)] lease_acquire_keeps [OF served(1) d]
      by (cases b) (auto simp: sem_sound_def)
  qed
next
  case (Renew now c t r c' P)
  then have ok: "sem_ok cfg e key c" using assms(2) by (simp add: sem_sound_def)
  note d = sem_members_distinct [OF ok]
  have n: "now \<le> server_now c + e" using Renew(3) by simp
  have fresh: "server_now c + e < x \<Longrightarrow> now < x" for x using n by simp
  from ok Renew(4) n show ?thesis
  proof (cases rule: sem_renew_cases)
    case (failed err)
    with Renew assms(2) show ?thesis by (auto intro: sem_sound_client)
  next
    case (served b ms)
    show ?thesis
      using Renew(1,2) served(2-5) assms(2) fresh lease_renew_length [OF served(1)] lease_renew_keeps [OF served(1) d]
      by (cases b) (auto simp: sem_sound_def)
  qed
next
  case (Release t c r c' P)
  then have ok: "sem_ok cfg e key c" using assms(2) by (simp add: sem_sound_def)
  from ok Release(3) show ?thesis
  proof (cases rule: sem_release_cases)
    case (failed err)
    with Release assms(2) show ?thesis by (auto simp: sem_sound_def sem_ok_def sem_members_def)
  next
    case (served b ms)
    then have m: "sem_members cfg key c' = AList.delete t (sem_members cfg key c)"
      by (simp add: lease_release_def)
    with Release(1,2) served(3,5) assms(2) length_delete [of t "sem_members cfg key c"] show ?thesis
      by (simp add: sem_sound_def delete_conv')
  qed
next
  case (Elapse d c P)
  with assms(2) members_elapse [of cfg e key c d] show ?thesis
    by (fastforce simp: sem_sound_def dest: map_of_SomeD)
next
  case (Fault c' c P)
  with assms(2) show ?thesis by (simp add: sem_sound_client)
next
  case (Foreign rq c r c' P)
  then have "mem_ok (cl_data c)" using assms(2) by (simp add: sem_sound_def sem_ok_def sem_state_def zkey_def)
  from spares_send [OF this Foreign(3)] Foreign assms(2) sem_sound_same_data [of cfg e key w c'] show ?thesis by simp
qed

lemma sem_reachable_sound:
  "(sem_step cfg e key)\<^sup>*\<^sup>* w w' \<Longrightarrow> sem_sound cfg e key w \<Longrightarrow> sem_sound cfg e key w'"
  by (induction rule: rtranclp_induct) (auto intro: sem_step_sound)

text \<open>A sound world has no more live permits than the capacity.\<close>

lemma live_permits_bound:
  assumes "sem_sound cfg e key w"
  shows "finite {t. \<exists>x. sw_permits w t = Some x \<and> server_now (sw_client w) + e < x}"
    "int (card {t. \<exists>x. sw_permits w t = Some x \<and> server_now (sw_client w) + e < x}) \<le> sm_capacity cfg"
proof -
  let ?ms = "sem_members cfg key (sw_client w)" and ?L = "{t. \<exists>x. sw_permits w t = Some x \<and> server_now (sw_client w) + e < x}"
  have sub: "?L \<subseteq> fst ` set ?ms"
    using assms by (force simp: sem_sound_def dest: map_of_SomeD)
  then show "finite ?L" by (rule finite_subset) simp
  have "card ?L \<le> length ?ms"
    using card_mono [OF _ sub] card_length [of "map fst ?ms"] by simp
  then show "int (card ?L) \<le> sm_capacity cfg" using assms by (simp add: sem_sound_def)
qed

end
