(* ===== verification/Cache_Values.thy ===== *)
theory Cache_Values
  imports Cache_Scripts
begin

text \<open>
  The value cache (\<open>packages/cache/src/cache.ts\<close>): the one client of the store that may fail open.
\<close>

text \<open>\<open>onError\<close> is the caller's: what it throws when it is told of an operation and its error, if anything.\<close>

record cache_config =
  cc_prefix :: string
  cc_ttl :: int
  cc_failOpen :: bool
  cc_onError :: "(string \<Rightarrow> cache_error \<Rightarrow> cache_error option) option"

text \<open>The constructor; a lifetime that is not an integer is \<open>None\<close>.\<close>

definition newCache ::
  "int option option \<Rightarrow> string option \<Rightarrow> bool option \<Rightarrow> (string \<Rightarrow> cache_error \<Rightarrow> cache_error option) option \<Rightarrow>
   cache_error + cache_config" where
  "newCache ttl prefix failOpen onError =
    (let t = (case ttl of None \<Rightarrow> Some 300 | Some x \<Rightarrow> x)
     in case t of
          None \<Rightarrow> Inl ConfigRefused
        | Some n \<Rightarrow>
          if n < 1 then Inl ConfigRefused
          else Inr \<lparr>cc_prefix = (case prefix of None \<Rightarrow> ''maestro:cache'' | Some p \<Rightarrow> p), cc_ttl = n,
                    cc_failOpen = (case failOpen of None \<Rightarrow> True | Some b \<Rightarrow> b),
                    cc_onError = onError\<rparr>)"

definition cache_key :: "cache_config \<Rightarrow> string \<Rightarrow> string" where
  "cache_key cfg key = cc_prefix cfg @ '':'' @ key"

text \<open>\<open>#swallow\<close>\<close>

definition swallow :: "cache_config \<Rightarrow> string \<Rightarrow> cache_error \<Rightarrow> 'a \<Rightarrow> cache_error + 'a" where
  "swallow cfg operation e fallback =
    (if \<not> cc_failOpen cfg then Inl e
     else case Option.bind (cc_onError cfg) (\<lambda>f. f operation e) of Some thrown \<Rightarrow> Inl thrown | None \<Rightarrow> Inr fallback)"

definition cached :: "cache_config \<Rightarrow> string \<Rightarrow> 'a \<Rightarrow> (reply \<Rightarrow> 'a) \<Rightarrow> verb \<Rightarrow> client \<Rightarrow> (cache_error + 'a) \<times> client" where
  "cached cfg operation fallback view v c =
    (case send (Data v) c of (Inl e, c') \<Rightarrow> (swallow cfg operation e fallback, c') | (Inr r, c') \<Rightarrow> (Inr (view r), c'))"

definition cache_get :: "cache_config \<Rightarrow> string \<Rightarrow> client \<Rightarrow> (cache_error + string option) \<times> client" where
  "cache_get cfg key = cached cfg ''get'' None (\<lambda>r. case r of RText v \<Rightarrow> Some v | _ \<Rightarrow> None) (Get (cache_key cfg key))"

text \<open>\<open>set\<close>: a given lifetime that is not an integer is \<open>Some None\<close>.\<close>

definition cache_set ::
  "cache_config \<Rightarrow> string \<Rightarrow> string \<Rightarrow> int option option \<Rightarrow> client \<Rightarrow> (cache_error + unit) \<times> client" where
  "cache_set cfg key v ttl c =
    (case (case ttl of None \<Rightarrow> Some (cc_ttl cfg) | Some t \<Rightarrow> t) of
       None \<Rightarrow> (Inl ConfigRefused, c)
     | Some t \<Rightarrow>
       if t < 1 then (Inl ConfigRefused, c)
       else cached cfg ''set'' () (\<lambda>_. ())
         (Set (cache_key cfg key) v \<lparr>sf_nx = False, sf_xx = False, sf_px = None, sf_ex = Some t\<rparr>) c)"

definition cache_delete :: "cache_config \<Rightarrow> string \<Rightarrow> client \<Rightarrow> (cache_error + unit) \<times> client" where
  "cache_delete cfg key = cached cfg ''delete'' () (\<lambda>_. ()) (Del [cache_key cfg key])"

definition cache_has :: "cache_config \<Rightarrow> string \<Rightarrow> client \<Rightarrow> (cache_error + bool) \<times> client" where
  "cache_has cfg key = cached cfg ''has'' False (\<lambda>r. r = RInt 1) (Exists (cache_key cfg key))"

definition cache_ttl :: "cache_config \<Rightarrow> string \<Rightarrow> client \<Rightarrow> (cache_error + int option) \<times> client" where
  "cache_ttl cfg key = cached cfg ''ttl'' None (\<lambda>r. case r of RInt n \<Rightarrow> if 0 \<le> n then Some n else None | _ \<Rightarrow> None)
     (Ttl (cache_key cfg key))"

definition getOrSet ::
  "cache_config \<Rightarrow> string \<Rightarrow> (client \<Rightarrow> (cache_error + string) \<times> client) \<Rightarrow> int option option \<Rightarrow>
   client \<Rightarrow> (cache_error + string) \<times> client" where
  "getOrSet cfg key compute ttl c =
    (case cache_get cfg key c of
       (Inl e, c') \<Rightarrow> (Inl e, c')
     | (Inr (Some v), c') \<Rightarrow> (Inr v, c')
     | (Inr None, c') \<Rightarrow>
       (case compute c' of
          (Inl e, c1) \<Rightarrow> (Inl e, c1)
        | (Inr v, c1) \<Rightarrow>
          (case cache_set cfg key v ttl c1 of (Inl e, c2) \<Rightarrow> (Inl e, c2) | (Inr _, c2) \<Rightarrow> (Inr v, c2))))"

lemma send_up: "up c \<Longrightarrow> send (Data v) c = (case command v (cl_data c) of (r, m) \<Rightarrow> (r, c\<lparr>cl_data := m\<rparr>))"
  by (simp add: up_def send_def)

text \<open>A stored value is what a later read sees, until its lifetime is over.\<close>

lemma set_then_get:
  assumes "up c" "mem_ok (cl_data c)" "1 \<le> t" "0 \<le> d" "cache_set cfg key v (Some (Some t)) c = (r, c1)"
  shows "r = Inr ()" "fst (cache_get cfg key (elapse d c1)) = Inr (if d < t * 1000 then Some v else None)"
proof -
  let ?k = "cache_key cfg key" and ?m = "cl_data c"
  let ?e = "\<lparr>en_value = SString v, en_expires = Some (m_now ?m + t * 1000)\<rparr>"
  have run: "command (Set ?k v \<lparr>sf_nx = False, sf_xx = False, sf_px = None, sf_ex = Some t\<rparr>) ?m =
      (Inr (RText ''OK''), put ?k ?e (expire ?m))"
    by (simp add: command_def do_set_def)
  then have c1: "c1 = c\<lparr>cl_data := put ?k ?e (expire ?m)\<rparr>" "r = Inr ()"
    using assms(3,5) send_up [OF assms(1)] by (auto simp: cache_set_def cached_def)
  then show "r = Inr ()" by simp
  have ok: "mem_ok (cl_data (elapse d c1))"
    using ok_put [OF ok_expire [OF assms(2)], of ?e ?k] c1 by (simp add: elapse_def mem_ok_def)
  have "lookup ?k (cl_data (elapse d c1)) = Some ?e"
    using c1 by (simp add: elapse_def lookup_def put_def update_conv')
  then have "lookup ?k (expire (cl_data (elapse d c1))) = (if d < t * 1000 then Some ?e else None)"
    using ok c1 by (simp add: lookup_expire expired_def elapse_def)
  moreover have "up (elapse d c1)" using assms(1) c1 by (simp add: up_def elapse_def)
  ultimately show "fst (cache_get cfg key (elapse d c1)) = Inr (if d < t * 1000 then Some v else None)"
    using send_up [of "elapse d c1"] by (simp add: cache_get_def cached_def command_def)
qed

text \<open>Failures are swallowed when the cache fails open and the callback does not throw.\<close>

definition swallows :: "cache_config \<Rightarrow> bool" where
  "swallows cfg \<longleftrightarrow> cc_failOpen cfg \<and> (\<forall>f operation e. cc_onError cfg = Some f \<longrightarrow> f operation e = None)"

lemma swallow_open: "swallows cfg \<Longrightarrow> swallow cfg operation e x = Inr x"
  by (auto simp: swallow_def swallows_def bind_eq_Some_conv split: option.split)

lemma cached_open: "swallows cfg \<Longrightarrow> \<exists>x c'. cached cfg operation fallback view v c = (Inr x, c')"
  by (auto simp: cached_def swallow_open split: prod.split sum.split)

text \<open>A lifetime \<open>set\<close> accepts.\<close>

definition lifetime_ok :: "cache_config \<Rightarrow> int option option \<Rightarrow> bool" where
  "lifetime_ok cfg ttl \<longleftrightarrow> (case ttl of None \<Rightarrow> 1 \<le> cc_ttl cfg | Some None \<Rightarrow> False | Some (Some t) \<Rightarrow> 1 \<le> t)"

lemma set_open:
  assumes "swallows cfg"
  shows "fst (cache_set cfg key v ttl c) = (if lifetime_ok cfg ttl then Inr () else Inl ConfigRefused)"
  using cached_open [OF assms, of "''set''" "()" "\<lambda>_. ()"]
  by (auto simp: cache_set_def lifetime_ok_def not_less split: option.split) (metis fst_conv)+

end
