(* ===== verification/Cache_Props.thy ===== *)
theory Cache_Props
  imports Cache_Lock Cache_Fleet Cache_Values
begin

text \<open>The properties of the cache package, on the in-memory server.\<close>

subsection \<open>Sample data\<close>

definition sample_client :: client where
  "sample_client = \<lparr>cl_data = \<lparr>m_store = [], m_now = 0\<rparr>, cl_scripts = {}, cl_closed = False, cl_failNext = 0\<rparr>"

definition sample_lock :: lock_config where
  "sample_lock = \<lparr>lk_prefix = ''maestro:lock'', lk_ttl = 10000\<rparr>"

definition sample_sem :: sem_config where
  "sample_sem = \<lparr>sm_prefix = ''maestro:sem'', sm_capacity = 1, sm_lease = 30000\<rparr>"

lemma sample_client_ok: "mem_ok (cl_data sample_client)" "up sample_client" "live k (cl_data sample_client) = None"
  by (simp_all add: sample_client_def mem_ok_def up_def live_def lookup_def expire_def)

subsection \<open>The store\<close>

text \<open>
  every verb, whatever its outcome, leaves a well-formed store: each key once, each member and
  field once, no sorted set without members, and the clock where it was.
\<close>

theorem verbs_keep_store_well_formed:
  assumes "mem_ok m"
  shows "mem_ok (snd (command v m)) \<and> m_now (snd (command v m)) = m_now m"
  using assms by (rule command_ok)

theorem verbs_keep_store_well_formed_witness:
  "mem_ok (snd (command (Zadd ''k'' False False [(1, ''a''), (2, ''a'')]) (cl_data sample_client)))"
  using verbs_keep_store_well_formed [OF sample_client_ok(1)] by blast

text \<open>
  Sending a script by its digest, with the fallback to its text when the server has forgotten
  it, is the same as evaluating it, whatever the server has in its script cache.
\<close>

theorem script_runner_transparent:
  assumes "up c"
  shows "fst (run_script call c) = fst (evalLua call (cl_data c)) \<and>
    cl_data (snd (run_script call c)) = snd (evalLua call (cl_data c))"
  using assms run_script_eq [of c call "fst (evalLua call (cl_data c))" "snd (evalLua call (cl_data c))"]
  by simp

theorem script_runner_transparent_witness:
  "fst (run_script (SemAcquire ''k'' 0 1 ''a'' 30000) sample_client) = Inr (RArr [RInt 1, RInt 1, RInt 30000])"
proof -
  have "fst (evalLua (SemAcquire ''k'' 0 1 ''a'' 30000) (cl_data sample_client)) = Inr (RArr [RInt 1, RInt 1, RInt 30000])"
    by code_simp
  with script_runner_transparent [OF sample_client_ok(2)] show ?thesis by metis
qed

subsection \<open>The lock\<close>

text \<open>
  C20: mutual exclusion: however many processes take, renew and release the lock on one key, with
  time passing, the server failing and other keys being used in between, two processes that both
  still believe in their lease have the same token.
\<close>

theorem lock_mutual_exclusion:
  assumes "(lock_step cfg key)\<^sup>*\<^sup>* \<lparr>lw_client = c, lw_claims = (\<lambda>_. None)\<rparr> w" "lock_ok cfg key c"
    "lw_claims w t = Some x" "lw_claims w u = Some y"
    "m_now (cl_data (lw_client w)) < x" "m_now (cl_data (lw_client w)) < y"
  shows "t = u"
proof -
  have "lk.sound cfg key (lw_claims w) (lw_client w)"
    using assms(1)
  proof (induction rule: rtranclp_induct)
    case base
    then show ?case using assms(2) by (simp add: lk.sound_def)
  next
    case (step w w')
    then show ?case using lock_step_sound by blast
  qed
  with lk.sound_exclusive assms(3-6) show ?thesis by blast
qed

theorem lock_mutual_exclusion_witness:
  "\<exists>w. (lock_step sample_lock ''job'')\<^sup>*\<^sup>* \<lparr>lw_client = sample_client, lw_claims = (\<lambda>_. None)\<rparr> w \<and>
    lw_claims w ''p1'' = Some 10000 \<and> lw_claims w ''p2'' = None"
proof -
  let ?w0 = "\<lparr>lw_client = sample_client, lw_claims = (\<lambda>_. None)\<rparr>"
  obtain c1 where c1: "tryAcquire sample_lock ''job'' ''p1'' sample_client = (Inr True, c1)"
    by (simp add: tryAcquire_def send_def sample_client_def command_def do_set_def lookup_def expire_def)
  obtain r c2 where c2: "tryAcquire sample_lock ''job'' ''p2'' c1 = (r, c2)" by fastforce
  let ?w1 = "\<lparr>lw_client = c1, lw_claims = [''p1'' \<mapsto> 10000]\<rparr>"
  let ?w2 = "\<lparr>lw_client = c2, lw_claims = (if r = Inr True then [''p1'' \<mapsto> 10000, ''p2'' \<mapsto> 10000] else [''p1'' \<mapsto> 10000])\<rparr>"
  have ok: "lock_ok sample_lock ''job'' sample_client"
    by (simp add: lock_ok_def lock_state_def sample_client_ok) (simp add: sample_lock_def)
  have now: "m_now (cl_data c1) = 0" "m_now (cl_data c2) = 0"
    using tryAcquire_effect [OF ok c1] tryAcquire_effect [OF _ c2] by (simp_all add: sample_client_def)
  have "lock_step sample_lock ''job'' ?w0 ?w1"
    using lock_step.Take [OF c1, where C = "\<lambda>_. None"] by (simp add: sample_lock_def sample_client_def)
  moreover have "lock_step sample_lock ''job'' ?w1 ?w2"
    using lock_step.Take [OF c2, where C = "[''p1'' \<mapsto> 10000]"] now by (simp add: sample_lock_def split: if_splits)
  ultimately have run: "(lock_step sample_lock ''job'')\<^sup>*\<^sup>* ?w0 ?w2" by (meson r_into_rtranclp rtranclp.rtrancl_into_rtrancl)
  have "r \<noteq> Inr True"
  proof
    assume r: "r = Inr True"
    have "''p1'' = (''p2'' :: string)"
      by (rule lock_mutual_exclusion [OF run ok, of _ 10000 _ 10000]) (use r now in simp_all)
    then show False by simp
  qed
  with run show ?thesis by (intro exI [of _ ?w2]) simp
qed

text \<open>
  C23: polling for the lock ends: when every sleep lets the process clock advance, the acquire call
  returns, and a number of polls bounded by the waiting budget is enough.
\<close>

theorem lock_acquire_returns:
  assumes "\<And>k. clock k < clock (Suc k)" "fuel \<ge> nat wait + 1"
  shows "\<exists>r c'. acquire cfg key (Some wait) tokens clock sleeping fuel c = Some (r, c')"
proof -
  have ahead: "clock 0 + int k \<le> clock k" for k
  proof (induction k)
    case (Suc k)
    then show ?case using assms(1) [of k] by simp
  qed simp
  have "\<exists>r c'. poll cfg key tokens clock sleeping (clock 0 + wait) n k c = Some (r, c')"
    if "n \<ge> nat (wait - int k) + 1" for n k c
    using that
  proof (induction n arbitrary: k c)
    case (Suc n)
    have more: "n \<ge> nat (wait - int (Suc k)) + 1" if "clock (Suc k) < clock 0 + wait"
      using Suc.prems ahead [of "Suc k"] that by simp
    show ?case
      using Suc.IH [OF more] by (auto split: prod.split sum.split bool.split simp: not_le)
  qed simp
  from this [of 0 fuel] assms(2) show ?thesis by (simp add: acquire_def)
qed

theorem lock_acquire_returns_witness:
  "\<exists>r c'. acquire sample_lock ''job'' (Some 50) (\<lambda>_. ''p'') (\<lambda>k. 25 * int k) (\<lambda>_. elapse 25) 51 sample_client = Some (r, c')"
  by (rule lock_acquire_returns) auto

subsection \<open>The semaphore\<close>

text \<open>
  C19: no over-subscription: however the processes acquire, renew and release permits on one key, each
  with a clock of its own that is at most \<open>e\<close> off the server's, with time passing, the server failing and
  other keys being used in between, at most \<open>capacity\<close> tokens have a permit whose \<open>expiresAt\<close> is more
  than \<open>e\<close> away. With one clock for all (\<open>e = 0\<close>) these are all the permits still in time.
\<close>

theorem semaphore_never_oversubscribed:
  assumes "(sem_step cfg e key)\<^sup>*\<^sup>* \<lparr>sw_client = c, sw_permits = (\<lambda>_. None)\<rparr> w" "sem_ok cfg e key c"
    "int (length (sem_members cfg key c)) \<le> sm_capacity cfg"
  shows "int (card {t. \<exists>x. sw_permits w t = Some x \<and> server_now (sw_client w) + e < x}) \<le> sm_capacity cfg"
  using live_permits_bound(2) sem_reachable_sound [OF assms(1)] assms(2,3) by (simp add: sem_sound_def)

lemma sample_sem_ok: "0 \<le> e \<Longrightarrow> sem_ok sample_sem e ''pool'' sample_client" "sem_members sample_sem ''pool'' sample_client = []"
  by (simp_all add: sem_ok_def sem_state_def zkey_def zview_def sem_members_def members_def sample_client_ok)
    (simp add: sample_sem_def)

theorem semaphore_never_oversubscribed_witness:
  "\<exists>w. (sem_step sample_sem 40 ''pool'')\<^sup>*\<^sup>* \<lparr>sw_client = sample_client, sw_permits = (\<lambda>_. None)\<rparr> w \<and>
    sw_permits w ''a'' = Some 30025 \<and>
    int (card {t. \<exists>x. sw_permits w t = Some x \<and> server_now (sw_client w) + 40 < x}) \<le> 1"
proof -
  let ?w0 = "\<lparr>sw_client = sample_client, sw_permits = (\<lambda>_. None)\<rparr>"
  obtain r c1 where c1: "sem_acquire sample_sem ''pool'' ''a'' 25 sample_client = (r, c1)" by fastforce
  have "fst (sem_acquire sample_sem ''pool'' ''a'' 25 sample_client) = Inr (Granted ''a'' 30025 1)"
    by code_simp
  with c1 have r: "r = Inr (Granted ''a'' 30025 1)" by simp
  let ?w1 = "\<lparr>sw_client = c1, sw_permits = [''a'' \<mapsto> 30025]\<rparr>"
  have "sem_step sample_sem 40 ''pool'' ?w0 ?w1"
    using sem_step.Acquire [OF _ c1, where P = "\<lambda>_. None" and e = 40] r by (simp add: sample_client_def)
  then have run: "(sem_step sample_sem 40 ''pool'')\<^sup>*\<^sup>* ?w0 ?w1" by blast
  have cap: "sm_capacity sample_sem = 1" by (simp add: sample_sem_def)
  have bound: "int (card {t. \<exists>x. sw_permits ?w1 t = Some x \<and> server_now (sw_client ?w1) + 40 < x}) \<le> sm_capacity sample_sem"
    by (rule semaphore_never_oversubscribed [OF run sample_sem_ok(1)]) (simp_all add: sample_sem_ok(2) cap)
  show ?thesis
  proof (intro exI conjI)
    show "sw_permits ?w1 ''a'' = Some 30025" by simp
  qed (use run bound cap in simp_all)
qed

text \<open>
  Without a bound on the clocks there is no such promise: a process whose clock is a lease ahead sweeps
  a permit granted a moment ago and takes its place.
\<close>

theorem clock_ahead_oversubscribes:
  "let (r1, c1) = sem_acquire sample_sem ''pool'' ''a'' 0 sample_client;
       (r2, c2) = sem_acquire sample_sem ''pool'' ''b'' 30000 c1
   in r1 = Inr (Granted ''a'' 30000 1) \<and> r2 = Inr (Granted ''b'' 60000 1) \<and> server_now c2 = 0"
  by code_simp

text \<open>
  C21: the scripts implement a set of leases, for callers whose clocks are at most \<open>e\<close> ahead of the
  server's: on every state they keep, acquire, renew and release do to the sorted set under the key,
  and answer, exactly what the operations on a set of leases do at the caller's time, and they keep the
  state; time passing changes nothing until the key expires, and what is lost then had at most \<open>e\<close> left.
\<close>

theorem semaphore_scripts_refine_leases:
  assumes "sem_state l e k m" "0 < l" "now \<le> m_now m + e" "0 \<le> d"
  shows
    "(case lease_acquire cap l now t (members k m) of ((b, n), ms) \<Rightarrow>
        case evalLua (SemAcquire k now cap t l) m of (r, m') \<Rightarrow>
          sem_state l e k m' \<and> m_now m' = m_now m \<and> members k m' = ms \<and>
          r = Inr (RArr [RInt (bool_int b), RInt (int n), RInt (if b then now + l else 0)])) \<and>
     (case lease_renew l now t (members k m) of (b, ms) \<Rightarrow>
        case evalLua (SemRenew k now t l) m of (r, m') \<Rightarrow>
          sem_state l e k m' \<and> m_now m' = m_now m \<and> members k m' = ms \<and>
          r = Inr (RArr [RInt (bool_int b), RInt (if b then now + l else 0)])) \<and>
     (case lease_release t (members k m) of (b, ms) \<Rightarrow>
        case evalLua (SemRelease k t) m of (r, m') \<Rightarrow>
          sem_state l e k m' \<and> m_now m' = m_now m \<and> members k m' = ms \<and>
          r = Inr (RArr [RInt (bool_int b), RInt (int (length ms))])) \<and>
     (case m\<lparr>m_now := m_now m + d\<rparr> of m' \<Rightarrow> sem_state l e k m' \<and>
        (members k m' = members k m \<or> members k m' = [] \<and> (\<forall>p \<in> set (members k m). snd p \<le> m_now m' + e)))"
proof -
  obtain b n ms where a: "lease_acquire cap l now t (members k m) = ((b, n), ms)" by (metis surj_pair)
  obtain r m1 where a': "evalLua (SemAcquire k now cap t l) m = (r, m1)" by fastforce
  obtain b2 ms2 where n: "lease_renew l now t (members k m) = (b2, ms2)" by fastforce
  obtain r2 m2 where n': "evalLua (SemRenew k now t l) m = (r2, m2)" by fastforce
  obtain b3 ms3 where e: "lease_release t (members k m) = (b3, ms3)" by fastforce
  obtain r3 m3 where e': "evalLua (SemRelease k t) m = (r3, m3)" by fastforce
  from acquire_effect [OF assms(1-3) a' a] renew_effect [OF assms(1-3) n' n] release_effect [OF assms(1) e' e]
    members_pass [OF assms(1,4)]
  show ?thesis unfolding a a' n n' e e' by simp
qed

theorem semaphore_scripts_refine_leases_witness:
  "members ''k'' (snd (evalLua (SemAcquire ''k'' 25 2 ''a'' 1000) (cl_data sample_client))) = [(''a'', 1025)]"
proof -
  have state: "sem_state 1000 40 ''k'' (cl_data sample_client)"
    by (simp add: sem_state_def zkey_def zview_def sample_client_ok)
  have now: "25 \<le> m_now (cl_data sample_client) + 40" by (simp add: sample_client_def)
  have spec: "lease_acquire 2 1000 25 ''a'' (members ''k'' (cl_data sample_client)) = ((True, 1), [(''a'', 1025)])"
    by (simp add: lease_acquire_def sweep_def members_def zview_def sample_client_ok)
  obtain r m where run: "evalLua (SemAcquire ''k'' 25 2 ''a'' 1000) (cl_data sample_client) = (r, m)" by fastforce
  from semaphore_scripts_refine_leases [OF state _ now, of 0 2 "''a''"] have "members ''k'' m = [(''a'', 1025)]"
    unfolding spec run by simp
  then show ?thesis unfolding run by simp
qed

text \<open>
  C22: a crashed holder's permit comes back: once a lease has gone by on the server without any operation,
  an acquire by any process, whatever its clock says, is granted, and the granted permit is the only one.
\<close>

theorem crashed_permits_return:
  assumes "sem_ok cfg e key c" "up c" "1 \<le> sm_capacity cfg" "sm_lease cfg \<le> d"
  shows "\<exists>c'. sem_acquire cfg key t now (elapse d c) =
    (Inr (Granted t (now + sm_lease cfg) 1), c') \<and> sem_members cfg key c' = [(t, now + sm_lease cfg)]"
proof -
  let ?c = "elapse d c"
  let ?e = "max 0 (now - server_now ?c)"
  have d: "0 \<le> d" using assms(1,4) by (simp add: sem_ok_def)
  have gone: "sem_members cfg key ?c = []" "zview (sem_key cfg key) (cl_data ?c) = None"
    using members_gone [OF assms(1,4)] by simp_all
  have ok: "sem_ok cfg ?e key ?c"
    using members_elapse [OF assms(1) d] gone(2) by (simp add: sem_ok_def sem_state_def)
  have now: "now \<le> server_now ?c + ?e" by simp
  have spec: "lease_acquire (sm_capacity cfg) (sm_lease cfg) now t (sem_members cfg key ?c) =
      ((True, 1), [(t, now + sm_lease cfg)])"
    using assms(3) by (simp add: lease_acquire_def gone sweep_def)
  obtain r c' where run: "sem_acquire cfg key t now ?c = (r, c')" by fastforce
  have "up ?c" using assms(2) by (simp add: up_def elapse_def)
  show ?thesis
  proof (cases rule: sem_acquire_cases [OF ok run now])
    case (1 x)
    then show ?thesis using sem_acquire_up [OF ok \<open>up ?c\<close> now, of t x] run by simp
  next
    case (2 b n ms)
    with spec run show ?thesis by auto
  qed
qed

theorem crashed_permits_return_witness:
  "\<exists>c'. sem_acquire sample_sem ''pool'' ''b'' 30000
      (elapse 30000 (snd (sem_acquire sample_sem ''pool'' ''a'' 0 sample_client))) =
    (Inr (Granted ''b'' 60000 1), c')"
proof -
  obtain r c where rc: "sem_acquire sample_sem ''pool'' ''a'' 0 sample_client = (r, c)" by fastforce
  have now0: "0 \<le> server_now sample_client + 0" "server_now sample_client = 0" by (simp_all add: sample_client_def)
  have ok0: "sem_ok sample_sem 0 ''pool'' sample_client" by (rule sample_sem_ok(1)) simp
  have ok: "sem_ok sample_sem 0 ''pool'' c \<and> server_now c = 0"
  proof (rule sem_acquire_cases [OF ok0 rc now0(1)])
    fix e assume "r = Inl e"
    with rc sem_acquire_up [OF ok0 sample_client_ok(2) now0(1), of "''a''" e] show ?thesis by simp
  qed (use now0 in auto)
  have "up (snd (sem_acquire sample_sem ''pool'' ''a'' 0 sample_client))" by code_simp
  then have "up c" using rc now0 by simp
  have "\<exists>c'. sem_acquire sample_sem ''pool'' ''b'' 30000 (elapse 30000 c) =
      (Inr (Granted ''b'' (30000 + sm_lease sample_sem) 1), c') \<and>
      sem_members sample_sem ''pool'' c' = [(''b'', 30000 + sm_lease sample_sem)]"
    by (rule crashed_permits_return [of _ 0]) (use ok \<open>up c\<close> in \<open>simp_all add: sample_sem_def\<close>)
  with ok rc show ?thesis by (auto simp: sample_sem_def)
qed

text \<open>
  The status gauge counts a permit at the very instant it expires, when every acquire already
  treats it as gone.
\<close>

definition sample_pair :: client where
  "sample_pair =
    (let cfg = sample_sem\<lparr>sm_capacity := 2\<rparr>;
         c1 = snd (sem_acquire cfg ''pool'' ''a'' 0 sample_client);
         c2 = snd (sem_acquire cfg ''pool'' ''b'' 10 (elapse 10 c1))
     in elapse 29990 c2)"

theorem holders_counts_expired_permit:
  "server_now sample_pair = 30000 \<and>
   fst (sem_holders sample_sem ''pool'' 30000 sample_pair) = Inr 2 \<and>
   fst (sem_acquire (sample_sem\<lparr>sm_capacity := 2\<rparr>) ''pool'' ''c'' 30000 sample_pair) = Inr (Granted ''c'' 60000 2)"
  by code_simp

subsection \<open>The value cache\<close>

text \<open>
  C24: a value that was set is what a read returns until its lifetime is over, and from then on the
  read is a miss.
\<close>

theorem cache_set_get:
  assumes "up c" "mem_ok (cl_data c)" "1 \<le> t" "0 \<le> d"
  shows "fst (cache_set cfg key v (Some (Some t)) c) = Inr () \<and>
    fst (cache_get cfg key (elapse d (snd (cache_set cfg key v (Some (Some t)) c)))) =
      Inr (if d < t * 1000 then Some v else None)"
  using set_then_get [OF assms, of cfg key v] by (metis prod.collapse)

definition sample_cache :: cache_config where
  "sample_cache = \<lparr>cc_prefix = ''maestro:cache'', cc_ttl = 300, cc_failOpen = True, cc_onError = None\<rparr>"

theorem cache_set_get_witness:
  "fst (cache_get sample_cache ''u'' (elapse 4999 (snd (cache_set sample_cache ''u'' ''x'' (Some (Some 5)) sample_client)))) =
    Inr (Some ''x'') \<and>
   fst (cache_get sample_cache ''u'' (elapse 5000 (snd (cache_set sample_cache ''u'' ''x'' (Some (Some 5)) sample_client)))) =
    Inr None"
  using cache_set_get [OF sample_client_ok(2,1), of 5 4999 sample_cache "''u''" "''x''"]
    cache_set_get [OF sample_client_ok(2,1), of 5 5000 sample_cache "''u''" "''x''"] by simp

text \<open>
  C25: the read-through cache fails open: with \<open>failOpen\<close> set and a callback that does not throw, whatever
  the server does, the read succeeds; a hit is the result, and after a miss the result is the
  computation's, value or error. What can still fail is a computed value stored with a lifetime that is
  not an integer of at least 1: then the call ends in \<open>CacheConfigError\<close> although there is a value.
\<close>

theorem read_through_fails_open:
  assumes "swallows cfg"
  shows "\<exists>hit c1. cache_get cfg key c = (Inr hit, c1) \<and>
    fst (getOrSet cfg key compute ttl c) =
      (case hit of Some v \<Rightarrow> Inr v
       | None \<Rightarrow> (case fst (compute c1) of Inl e \<Rightarrow> Inl e
           | Inr v \<Rightarrow> if lifetime_ok cfg ttl then Inr v else Inl ConfigRefused))"
proof -
  obtain hit c1 where get: "cache_get cfg key c = (Inr hit, c1)"
    using cached_open [OF assms] unfolding cache_get_def by metis
  obtain r c2 where compute: "compute c1 = (r, c2)" by fastforce
  have "fst (getOrSet cfg key compute ttl c) = (case hit of Some v \<Rightarrow> Inr v
      | None \<Rightarrow> (case r of Inl e \<Rightarrow> Inl e | Inr v \<Rightarrow> if lifetime_ok cfg ttl then Inr v else Inl ConfigRefused))"
  proof (cases r)
    case (Inr v)
    obtain q c3 where "cache_set cfg key v ttl c2 = (q, c3)" by fastforce
    with set_open [OF assms, of key v ttl c2] Inr show ?thesis
      by (auto simp: getOrSet_def get compute split: option.split)
  qed (simp add: getOrSet_def get compute split: option.split)
  then show ?thesis using get by (simp add: compute cong: option.case_cong)
qed

theorem read_through_fails_open_witness:
  "fst (getOrSet sample_cache ''u'' (\<lambda>c. (Inr ''fresh'', c)) None (sample_client\<lparr>cl_closed := True\<rparr>)) = Inr ''fresh''"
proof -
  let ?c = "sample_client\<lparr>cl_closed := True\<rparr>"
  have "swallows sample_cache" by (simp add: swallows_def sample_cache_def)
  from read_through_fails_open [OF this, of "''u''" ?c "\<lambda>c. (Inr ''fresh'', c)" None]
  obtain hit c1 where "cache_get sample_cache ''u'' ?c = (Inr hit, c1)"
    "fst (getOrSet sample_cache ''u'' (\<lambda>c. (Inr ''fresh'', c)) None ?c) = (case hit of Some v \<Rightarrow> Inr v | None \<Rightarrow> Inr ''fresh'')"
    by (auto simp: lifetime_ok_def sample_cache_def cong: option.case_cong)
  moreover have "fst (cache_get sample_cache ''u'' ?c) = Inr None"
    by (simp add: cache_get_def cached_def send_def swallow_def sample_cache_def)
  ultimately show ?thesis by simp
qed

end
