(* ===== verification/Paths_Glob.thy ===== *)
theory Paths_Glob
  imports Audit_Event
begin

text \<open>
  Protected paths (\<open>packages/execution/src/protected-paths.ts\<close>): the deny-list patterns, how a
  pattern is compiled, what the compiled expression matches, how a path is normalised and how a
  repository's matcher is built. Text is UTF-16, as the regular expressions of the source see it;
  \<open>nfc\<close> is \<open>String.prototype.normalize("NFC")\<close>.
\<close>

subsection \<open>Lists of patterns\<close>

definition DEFAULT_UNREADABLE_PATHS :: "string list" where
  "DEFAULT_UNREADABLE_PATHS =
    [''**/.env'', ''**/.env.*'', ''**/*.pem'', ''**/*.key'', ''**/*.p12'', ''**/*.pfx'', ''**/*.jks'',
     ''**/id_rsa*'', ''**/id_ed25519*'', ''**/secrets/**'', ''**/.npmrc'', ''**/.netrc'', ''**/.pgpass'']"

definition DEFAULT_WRITE_ONLY_PROTECTED_PATHS :: "string list" where
  "DEFAULT_WRITE_ONLY_PROTECTED_PATHS =
    [''**/migrations/**'', ''**/*.sql'', ''**/.git/**'', ''**/.github/**'', ''**/.gitlab-ci.yml'',
     ''**/Jenkinsfile'', ''**/azure-pipelines*.yml'', ''**/azure-pipelines*.yaml'', ''**/.azuredevops/**'',
     ''**/.husky/**'', ''**/.vscode/**'', ''**/.claude/**'', ''**/.maestro.y*ml'']"

definition DEFAULT_PROTECTED_PATHS :: "string list" where
  "DEFAULT_PROTECTED_PATHS = DEFAULT_UNREADABLE_PATHS @ DEFAULT_WRITE_ONLY_PROTECTED_PATHS"

subsection \<open>Compiling a pattern\<close>

text \<open>The pieces of the regular expression: \<open>(?:[^/]+/)*\<close>, \<open>.*\<close>, \<open>[^/]*\<close>, \<open>[^/]\<close>, a slash, a literal.\<close>

datatype piece = Dirs | Rest | Segment | One | Slash | Literal unit16

datatype path_error =
    PatternEmpty | PatternAbsolute units | PatternBackslash units | PatternUnsupported units unit16
  | PathEmpty | PathAbsolute units | PathEscapes units

abbreviation slash :: unit16 where "slash \<equiv> 0x2F"
abbreviation star :: unit16 where "star \<equiv> 0x2A"

definition allowed_literal :: "unit16 \<Rightarrow> bool" where
  "allowed_literal u \<longleftrightarrow> alnum16 u \<or> u \<in> {0x2E, 0x5F, 0x2D}"

definition ascii_letter :: "unit16 \<Rightarrow> bool" where
  "ascii_letter u \<longleftrightarrow> (0x41 \<le> u \<and> u \<le> 0x5A) \<or> (0x61 \<le> u \<and> u \<le> 0x7A)"

text \<open>\<open>startsWith("/")\<close> or a drive letter.\<close>

definition absolute :: "units \<Rightarrow> bool" where
  "absolute s \<longleftrightarrow> (case s of u # rest \<Rightarrow> u = slash \<or> ascii_letter u \<and> (case rest of v # _ \<Rightarrow> v = 0x3A | [] \<Rightarrow> False) | [] \<Rightarrow> False)"

fun pieces :: "units \<Rightarrow> unit16 + piece list" where
  "pieces [] = Inr []"
| "pieces (u # s) =
    (if u = star then
       (case s of
          v # t \<Rightarrow>
            if v = star then
              (case t of
                 w # r \<Rightarrow> if w = slash then map_sum id ((#) Dirs) (pieces r) else map_sum id ((#) Rest) (pieces t)
               | [] \<Rightarrow> Inr [Rest])
            else map_sum id ((#) Segment) (pieces s)
        | [] \<Rightarrow> Inr [Segment])
     else if u = 0x3F then map_sum id ((#) One) (pieces s)
     else if u = slash then map_sum id ((#) Slash) (pieces s)
     else if allowed_literal u then map_sum id ((#) (Literal u)) (pieces s)
     else Inl u)"

definition compileProtectedPath :: "(units \<Rightarrow> units) \<Rightarrow> units \<Rightarrow> path_error + piece list" where
  "compileProtectedPath nfc pattern =
    (let trimmed = nfc (js_trim pattern)
     in if trimmed = [] then Inl PatternEmpty
        else if absolute trimmed then Inl (PatternAbsolute pattern)
        else if 0x5C \<in> set trimmed then Inl (PatternBackslash pattern)
        else (case pieces trimmed of
                Inl u \<Rightarrow> Inl (PatternUnsupported pattern u)
              | Inr ps \<Rightarrow> Inr ps))"

subsection \<open>Matching\<close>

text \<open>
  The \<open>i\<close> flag on a pattern of ASCII characters: two units are the same when their ASCII upper-case
  forms are (no character outside ASCII is equal to one inside under the flag). The dot does not
  match a line terminator.
\<close>

definition fold_case :: "unit16 \<Rightarrow> unit16" where
  "fold_case u = (if 0x61 \<le> u \<and> u \<le> 0x7A then u - 0x20 else u)"

definition line_terminator :: "unit16 \<Rightarrow> bool" where
  "line_terminator u \<longleftrightarrow> u \<in> {0x0A, 0x0D, 0x2028, 0x2029}"

lemma tl_dropWhile_less: "x \<in> set s \<Longrightarrow> length (dropWhile P s) - Suc 0 < length s"
  using length_dropWhile_le [of P s] length_pos_if_in_set [of x s] by linarith

text \<open>\<open>regex.test\<close> of an expression anchored at both ends.\<close>

function (sequential) matches :: "piece list \<Rightarrow> units \<Rightarrow> bool" where
  "matches [] s \<longleftrightarrow> s = []"
| "matches (Dirs # ps) s \<longleftrightarrow> matches ps s \<or>
    (let dir = takeWhile (\<lambda>u. u \<noteq> slash) s; rest = dropWhile (\<lambda>u. u \<noteq> slash) s
     in if dir = [] \<or> rest = [] then False else matches (Dirs # ps) (tl rest))"
| "matches (Rest # ps) s \<longleftrightarrow> matches ps s \<or> (case s of [] \<Rightarrow> False | u # t \<Rightarrow> \<not> line_terminator u \<and> matches (Rest # ps) t)"
| "matches (Segment # ps) s \<longleftrightarrow> matches ps s \<or> (case s of [] \<Rightarrow> False | u # t \<Rightarrow> u \<noteq> slash \<and> matches (Segment # ps) t)"
| "matches (One # ps) s \<longleftrightarrow> (case s of [] \<Rightarrow> False | u # t \<Rightarrow> u \<noteq> slash \<and> matches ps t)"
| "matches (Slash # ps) s \<longleftrightarrow> (case s of [] \<Rightarrow> False | u # t \<Rightarrow> u = slash \<and> matches ps t)"
| "matches (Literal v # ps) s \<longleftrightarrow> (case s of [] \<Rightarrow> False | u # t \<Rightarrow> fold_case u = fold_case v \<and> matches ps t)"
  by pat_completeness auto
termination
  by (relation "measure (\<lambda>(ps, s). length ps + length s)") (auto dest: tl_dropWhile_less)

declare matches.simps [simp del]

subsection \<open>Paths\<close>

text \<open>\<open>text.split(sep)\<close> on one character.\<close>

fun split_on :: "'a \<Rightarrow> 'a list \<Rightarrow> 'a list list" where
  "split_on c [] = [[]]"
| "split_on c (u # s) = (if u = c then [] # split_on c s else (case split_on c s of [] \<Rightarrow> [[u]] | p # ps \<Rightarrow> (u # p) # ps))"

definition drop_dot_slash :: "units \<Rightarrow> units" where
  "drop_dot_slash s = (if take 2 s = [0x2E, slash] then drop 2 s else s)"

definition normalizeRepoPath :: "(units \<Rightarrow> units) \<Rightarrow> units \<Rightarrow> path_error + units" where
  "normalizeRepoPath nfc path =
    (let cleaned = nfc (drop_dot_slash (map (\<lambda>u. if u = 0x5C then slash else u) (js_trim path)))
     in if cleaned = [] then Inl PathEmpty
        else if absolute cleaned then Inl (PathAbsolute path)
        else if asc ''..'' \<in> set (split_on slash cleaned) then Inl (PathEscapes path)
        else Inr cleaned)"

text \<open>\<open>[...new Set(xs)]\<close>\<close>

fun unique :: "'a list \<Rightarrow> 'a list" where
  "unique [] = []"
| "unique (x # xs) = x # filter (\<lambda>y. y \<noteq> x) (unique xs)"

type_synonym matcher = "(units \<times> piece list) list"

definition matcherFor :: "(units \<Rightarrow> units) \<Rightarrow> units list \<Rightarrow> path_error + matcher" where
  "matcherFor nfc source = all_results (map (\<lambda>p. map_sum id (Pair p) (compileProtectedPath nfc p)) (unique source))"

definition createProtectedPathMatcher :: "(units \<Rightarrow> units) \<Rightarrow> units list \<Rightarrow> path_error + matcher" where
  "createProtectedPathMatcher nfc extra = matcherFor nfc (map asc DEFAULT_PROTECTED_PATHS @ extra)"

definition createUnreadablePathMatcher :: "(units \<Rightarrow> units) \<Rightarrow> path_error + matcher" where
  "createUnreadablePathMatcher nfc = matcherFor nfc (map asc DEFAULT_UNREADABLE_PATHS)"

definition match_path :: "(units \<Rightarrow> units) \<Rightarrow> matcher \<Rightarrow> units \<Rightarrow> path_error + units option" where
  "match_path nfc m path =
    map_sum id (\<lambda>p. map_option fst (List.find (\<lambda>(pattern, ps). matches ps p) m)) (normalizeRepoPath nfc path)"

end
