(* ===== verification/Paths_Git.thy ===== *)
theory Paths_Git
  imports Paths_Glob "HOL-Library.AList"
begin

text \<open>
  What git and find print about a working copy, parsed (\<open>packages/execution/src/git-status.ts\<close>), and
  the scan of the changes for protected paths (\<open>findProtectedViolations\<close> of \<open>protected-paths.ts\<close>).
\<close>

subsection \<open>Changed files\<close>

datatype change_status = Added | Modified | Deleted | Renamed | Typechange

record changed_file =
  cf_path :: units
  cf_status :: change_status
  cf_fromPath :: "units option"
  cf_insertions :: int
  cf_deletions :: int

abbreviation plain_file :: "units \<Rightarrow> change_status \<Rightarrow> units option \<Rightarrow> changed_file" where
  "plain_file p st from \<equiv> \<lparr>cf_path = p, cf_status = st, cf_fromPath = from, cf_insertions = 0, cf_deletions = 0\<rparr>"

definition statusOf :: "units \<Rightarrow> change_status" where
  "statusOf code =
    (if u16 CHR ''R'' \<in> set code then Renamed
     else if u16 CHR ''T'' \<in> set code then Typechange
     else if u16 CHR ''D'' \<in> set code then Deleted
     else if u16 CHR ''A'' \<in> set code \<or> u16 CHR ''?'' \<in> set code then Added
     else Modified)"

subsection \<open>git status --porcelain=v1 -z\<close>

text \<open>The loop over the NUL-separated fields: a rename entry spends two of them.\<close>

fun parse_fields :: "(units \<Rightarrow> units) \<Rightarrow> units list \<Rightarrow> path_error + changed_file list" where
  "parse_fields nfc [] = Inr []"
| "parse_fields nfc (line # rest) =
    (if length line < 4 then parse_fields nfc rest
     else
       case normalizeRepoPath nfc (drop 3 line) of
         Inl e \<Rightarrow> Inl e
       | Inr p \<Rightarrow>
         if statusOf (take 2 line) = Renamed then
           (case rest of
              [] \<Rightarrow> Inr [plain_file p Renamed None]
            | from # rest' \<Rightarrow>
              (case (if from = [] then Inr None else map_sum id Some (normalizeRepoPath nfc from)) of
                 Inl e \<Rightarrow> Inl e
               | Inr f \<Rightarrow> map_sum id ((#) (plain_file p Renamed f)) (parse_fields nfc rest')))
         else map_sum id ((#) (plain_file p (statusOf (take 2 line)) None)) (parse_fields nfc rest))"

definition parsePorcelainZ :: "(units \<Rightarrow> units) \<Rightarrow> units \<Rightarrow> path_error + changed_file list" where
  "parsePorcelainZ nfc out = parse_fields nfc (split_on 0 out)"

subsection \<open>git diff --numstat -z\<close>

text \<open>\<open>Number.parseInt(raw, 10)\<close>, 0 when there is no number (counts stay within exact integers).\<close>

definition parse_int :: "units \<Rightarrow> int" where
  "parse_int raw =
    (let s = dropWhile js_space raw;
         neg = (s \<noteq> [] \<and> hd s = 0x2D);
         t = (if s \<noteq> [] \<and> (hd s = 0x2D \<or> hd s = 0x2B) then tl s else s);
         n = int (digits_value (takeWhile is_digit16 t))
     in if neg then - n else n)"

definition numberOf :: "units \<Rightarrow> int" where
  "numberOf raw = (if raw = [0x2D] then 0 else parse_int raw)"

function (sequential) numstat_fields ::
  "(units \<Rightarrow> units) \<Rightarrow> units list \<Rightarrow> (units \<times> int \<times> int) list \<Rightarrow> path_error + (units \<times> int \<times> int) list"
where
  "numstat_fields nfc [] counts = Inr counts"
| "numstat_fields nfc (field # rest) counts =
    (let parts = split_on 0x09 field
     in if field = [] \<or> length parts < 3 then numstat_fields nfc rest counts
        else
          let ins = numberOf (parts ! 0); del = numberOf (parts ! 1);
              rename = (parts ! 2 = []);
              path = (if rename then (if length rest < 2 then [] else rest ! 1) else parts ! 2);
              rest' = (if rename then drop 2 rest else rest)
          in if path = [] then numstat_fields nfc rest' counts
             else case normalizeRepoPath nfc path of
                    Inl e \<Rightarrow> Inl e
                  | Inr p \<Rightarrow> numstat_fields nfc rest' (AList.update p (ins, del) counts))"
  by pat_completeness auto
termination by (relation "measure (\<lambda>(nfc, fields, counts). length fields)") auto

definition parseNumstatZ :: "(units \<Rightarrow> units) \<Rightarrow> units \<Rightarrow> path_error + (units \<times> int \<times> int) list" where
  "parseNumstatZ nfc out = numstat_fields nfc (split_on 0 out) []"

definition mergeCounts :: "changed_file list \<Rightarrow> (units \<times> int \<times> int) list \<Rightarrow> changed_file list" where
  "mergeCounts files counts =
    map (\<lambda>f. case map_of counts (cf_path f) of None \<Rightarrow> f
       | Some (i, d) \<Rightarrow> f\<lparr>cf_insertions := i, cf_deletions := d\<rparr>) files"

text \<open>Everything under \<open>.git/\<close>.\<close>

definition parseInternalPaths :: "(units \<Rightarrow> units) \<Rightarrow> units \<Rightarrow> units \<Rightarrow> path_error + changed_file list" where
  "parseInternalPaths nfc prefix out =
    all_results (map (\<lambda>line. map_sum id (\<lambda>p. plain_file p Modified None)
        (normalizeRepoPath nfc (if starts_with prefix line then line else prefix @ line)))
      (filter (\<lambda>line. line \<noteq> []) (map js_trim (split_on 0 out))))"

subsection \<open>The scan\<close>

record violation =
  pv_path :: units
  pv_pattern :: units
  pv_status :: change_status

definition candidates :: "changed_file \<Rightarrow> units list" where
  "candidates f = cf_path f # (case cf_fromPath f of None \<Rightarrow> [] | Some q \<Rightarrow> [q])"

definition check_candidate ::
  "(units \<Rightarrow> units) \<Rightarrow> matcher \<Rightarrow> change_status \<Rightarrow> units \<Rightarrow> path_error + violation list" where
  "check_candidate nfc m st q =
    map_sum id (\<lambda>hit. case hit of None \<Rightarrow> [] | Some pat \<Rightarrow> [\<lparr>pv_path = q, pv_pattern = pat, pv_status = st\<rparr>])
      (match_path nfc m q)"

definition findProtectedViolations ::
  "(units \<Rightarrow> units) \<Rightarrow> matcher \<Rightarrow> changed_file list \<Rightarrow> path_error + violation list" where
  "findProtectedViolations nfc m changed =
    map_sum id concat (all_results (concat (map (\<lambda>f. map (check_candidate nfc m (cf_status f)) (candidates f)) changed)))"

subsection \<open>What git prints\<close>

text \<open>
  An entry of the status as git documents it: two status letters, the path, and for a rename or a copy
  the path it came from; \<open>-z\<close> ends every path with NUL. Git reports copies only when it is configured to
  (\<open>status.renames=copies\<close>).
\<close>

record git_entry =
  ge_code :: units
  ge_path :: units
  ge_from :: "units option"

definition is_copy :: "git_entry \<Rightarrow> bool" where
  "is_copy e \<longleftrightarrow> u16 CHR ''C'' \<in> set (ge_code e)"

definition git_entry_ok :: "git_entry \<Rightarrow> bool" where
  "git_entry_ok e \<longleftrightarrow> length (ge_code e) = 2 \<and> 0 \<notin> set (ge_code e) \<and> ge_path e \<noteq> [] \<and> 0 \<notin> set (ge_path e) \<and>
     (ge_from e \<noteq> None \<longleftrightarrow> u16 CHR ''R'' \<in> set (ge_code e) \<or> is_copy e) \<and>
     (case ge_from e of None \<Rightarrow> True | Some q \<Rightarrow> q \<noteq> [] \<and> 0 \<notin> set q)"

definition print_entry :: "git_entry \<Rightarrow> units" where
  "print_entry e = ge_code e @ [0x20] @ ge_path e @ [0] @ (case ge_from e of None \<Rightarrow> [] | Some q \<Rightarrow> q @ [0])"

text \<open>The change an entry stands for.\<close>

definition file_of :: "(units \<Rightarrow> units) \<Rightarrow> git_entry \<Rightarrow> path_error + changed_file" where
  "file_of nfc e =
    (case normalizeRepoPath nfc (ge_path e) of
       Inl x \<Rightarrow> Inl x
     | Inr p \<Rightarrow>
       (case (case ge_from e of None \<Rightarrow> Inr None | Some q \<Rightarrow> map_sum id Some (normalizeRepoPath nfc q)) of
          Inl x \<Rightarrow> Inl x
        | Inr f \<Rightarrow> Inr (plain_file p (statusOf (ge_code e)) f)))"

lemma split_on_append: "c \<notin> set s \<Longrightarrow> split_on c (s @ c # t) = s # split_on c t"
  by (induction s) auto

lemma split_on_none: "c \<notin> set s \<Longrightarrow> split_on c s = [s]"
  by (induction s) auto

lemma split_on_ne [simp]: "split_on c s \<noteq> []"
  by (cases s) (auto split: list.split)

lemma split_print: "git_entry_ok e \<Longrightarrow>
    split_on 0 (print_entry e @ t) = (ge_code e @ 0x20 # ge_path e) # (case ge_from e of None \<Rightarrow> [] | Some q \<Rightarrow> [q]) @ split_on 0 t"
proof -
  assume e: "git_entry_ok e"
  have head: "split_on 0 ((ge_code e @ 0x20 # ge_path e) @ 0 # r) = (ge_code e @ 0x20 # ge_path e) # split_on 0 r" for r
    using e by (intro split_on_append) (auto simp: git_entry_ok_def)
  show ?thesis
    using e head [of t] head [of "q @ 0 # t" for q] split_on_append [of 0 _ t]
    by (auto simp: print_entry_def git_entry_ok_def split: option.splits)
qed

lemma statusOf_Renamed: "statusOf code = Renamed \<longleftrightarrow> u16 CHR ''R'' \<in> set code"
  by (simp add: statusOf_def)

lemma parse_printed:
  assumes "git_entry_ok e" "\<not> is_copy e"
  shows "parse_fields nfc (split_on 0 (print_entry e @ t)) =
    (case file_of nfc e of Inl x \<Rightarrow> Inl x | Inr f \<Rightarrow> map_sum id ((#) f) (parse_fields nfc (split_on 0 t)))"
proof -
  have len: "\<not> length (ge_code e @ 0x20 # ge_path e) < 4"
    using assms by (cases "ge_path e") (auto simp: git_entry_ok_def)
  have parts: "take 2 (ge_code e @ 0x20 # ge_path e) = ge_code e" "drop 3 (ge_code e @ 0x20 # ge_path e) = ge_path e"
    using assms by (auto simp: git_entry_ok_def numeral_eq_Suc)
  have st: "statusOf (ge_code e) = Renamed \<longleftrightarrow> ge_from e \<noteq> None"
    using assms by (auto simp: git_entry_ok_def statusOf_Renamed)
  show ?thesis
  proof (cases "ge_from e")
    case None
    with st have "(statusOf (ge_code e) = Renamed) = False" by simp
    then show ?thesis
      unfolding split_print [OF assms(1)] None option.case append_Nil parse_fields.simps(2) if_not_P [OF len] parts file_of_def
      by (simp only: sum.case if_False split: sum.split) simp
  next
    case (Some q)
    with st have r: "statusOf (ge_code e) = Renamed" by simp
    have "q \<noteq> []" using assms(1) Some by (simp add: git_entry_ok_def)
    then show ?thesis
      unfolding split_print [OF assms(1)] Some option.case append_Cons append_Nil parse_fields.simps(2) if_not_P [OF len] parts
        file_of_def r list.case
      by (simp only: if_False sum.case refl if_True split: sum.split) simp
  qed
qed

text \<open>A copy is read as a change of its path, and its origin as one more entry.\<close>

lemma parse_copy:
  assumes "git_entry_ok e" "is_copy e" "ge_from e = Some q" "u16 CHR ''R'' \<notin> set (ge_code e)"
    "normalizeRepoPath nfc (ge_path e) = Inr p"
  shows "parse_fields nfc (split_on 0 (print_entry e @ t)) =
    map_sum id ((#) (plain_file p (statusOf (ge_code e)) None)) (parse_fields nfc (q # split_on 0 t))"
proof -
  have len: "\<not> length (ge_code e @ 0x20 # ge_path e) < 4"
    using assms(1) by (cases "ge_path e") (auto simp: git_entry_ok_def)
  have parts: "take 2 (ge_code e @ 0x20 # ge_path e) = ge_code e" "drop 3 (ge_code e @ 0x20 # ge_path e) = ge_path e"
    using assms(1) by (auto simp: git_entry_ok_def numeral_eq_Suc)
  have "statusOf (ge_code e) \<noteq> Renamed" using assms(4) by (simp add: statusOf_Renamed)
  then show ?thesis
    unfolding split_print [OF assms(1)] assms(3) option.case append_Cons append_Nil parse_fields.simps(2) if_not_P [OF len] parts assms(5)
    by (simp only: sum.case if_False)
qed

lemma parse_printed_all:
  "list_all (\<lambda>e. git_entry_ok e \<and> \<not> is_copy e) es \<Longrightarrow>
   parsePorcelainZ nfc (concat (map print_entry es)) = all_results (map (file_of nfc) es)"
  unfolding parsePorcelainZ_def
proof (induction es)
  case (Cons e es)
  then show ?case
    using parse_printed [of e nfc "concat (map print_entry es)"]
    by (auto split: sum.splits simp: map_sum_def)
qed simp

lemma all_results_nth: "all_results rs = Inr xs \<Longrightarrow> r \<in> set rs \<Longrightarrow> \<exists>x \<in> set xs. r = Inr x"
  using all_results_Inr by fastforce

lemma violations_complete:
  assumes "findProtectedViolations nfc m fs = Inr vs" "f \<in> set fs" "q \<in> set (candidates f)"
    "match_path nfc m q = Inr (Some pat)"
  shows "\<lparr>pv_path = q, pv_pattern = pat, pv_status = cf_status f\<rparr> \<in> set vs"
proof -
  let ?rs = "concat (map (\<lambda>f. map (check_candidate nfc m (cf_status f)) (candidates f)) fs)"
  obtain vss where vss: "all_results ?rs = Inr vss" "vs = concat vss"
    using assms(1) unfolding findProtectedViolations_def by (cases "all_results ?rs") auto
  have "check_candidate nfc m (cf_status f) q \<in> set ?rs" using assms(2,3) by auto
  then have "\<exists>v \<in> set vss. check_candidate nfc m (cf_status f) q = Inr v" by (rule all_results_nth [OF vss(1)])
  with assms(4) vss(2) show ?thesis by (force simp: check_candidate_def)
qed

end
