(* ===== verification/Paths_Match.thy ===== *)
theory Paths_Match
  imports Paths_Glob
begin

text \<open>
  What a compiled pattern means: its language, piece by piece, and the expression accepts exactly
  that language; the built-in patterns compiled; and what every repository's matcher inherits from
  them.
\<close>

subsection \<open>The language of an expression\<close>

definition proper_dir :: "units \<Rightarrow> bool" where
  "proper_dir d \<longleftrightarrow> d \<noteq> [] \<and> slash \<notin> set d"

definition dirs_text :: "units list \<Rightarrow> units" where
  "dirs_text ds = concat (map (\<lambda>d. d @ [slash]) ds)"

fun piece_lang :: "piece \<Rightarrow> units set" where
  "piece_lang Dirs = {dirs_text ds | ds. list_all proper_dir ds}"
| "piece_lang Rest = {s. \<forall>u \<in> set s. \<not> line_terminator u}"
| "piece_lang Segment = {s. slash \<notin> set s}"
| "piece_lang One = {[u] | u. u \<noteq> slash}"
| "piece_lang Slash = {[slash]}"
| "piece_lang (Literal v) = {[u] | u. fold_case u = fold_case v}"

fun lang :: "piece list \<Rightarrow> units set" where
  "lang [] = {[]}"
| "lang (p # ps) = {a @ b | a b. a \<in> piece_lang p \<and> b \<in> lang ps}"

lemma lang_Cons: "s \<in> lang (p # ps) \<longleftrightarrow> (\<exists>a b. s = a @ b \<and> a \<in> piece_lang p \<and> b \<in> lang ps)"
  by auto

declare lang.simps(2) [simp del]

lemma lang_ConsI: "a \<in> piece_lang p \<Longrightarrow> b \<in> lang ps \<Longrightarrow> a @ b \<in> lang (p # ps)"
  unfolding lang_Cons by blast

text \<open>A piece that may be empty or take one more character.\<close>

lemma lang_one: "piece_lang p = {[u] | u. P u} \<Longrightarrow>
    s \<in> lang (p # ps) \<longleftrightarrow> (case s of [] \<Rightarrow> False | u # t \<Rightarrow> P u \<and> t \<in> lang ps)"
proof (cases s)
  case (Cons u t)
  assume p: "piece_lang p = {[u] | u. P u}"
  then have "P u \<Longrightarrow> t \<in> lang ps \<Longrightarrow> [u] @ t \<in> lang (p # ps)" by (intro lang_ConsI) simp_all
  with p Cons show ?thesis by (auto simp: lang_Cons)
qed (auto simp: lang_Cons)

lemma lang_many:
  assumes "piece_lang p = {s. \<forall>u \<in> set s. P u}"
  shows "s \<in> lang (p # ps) \<longleftrightarrow> s \<in> lang ps \<or> (case s of [] \<Rightarrow> False | u # t \<Rightarrow> P u \<and> t \<in> lang (p # ps))"
proof (cases s)
  case Nil
  with assms show ?thesis by (auto simp: lang_Cons)
next
  case (Cons u t)
  show ?thesis
  proof
    assume "s \<in> lang (p # ps)"
    then obtain a b where ab: "s = a @ b" "\<forall>x \<in> set a. P x" "b \<in> lang ps" using assms by (auto simp: lang_Cons)
    then show "s \<in> lang ps \<or> (case s of [] \<Rightarrow> False | u # t \<Rightarrow> P u \<and> t \<in> lang (p # ps))"
      using assms Cons by (cases a) (auto simp: lang_Cons)
  next
    assume "s \<in> lang ps \<or> (case s of [] \<Rightarrow> False | u # t \<Rightarrow> P u \<and> t \<in> lang (p # ps))"
    then consider "s \<in> lang ps" | a b where "t = a @ b" "\<forall>x \<in> set a. P x" "b \<in> lang ps" "P u"
      using assms Cons by (auto simp: lang_Cons)
    then show "s \<in> lang (p # ps)"
    proof cases
      case 1
      then have "s = [] @ s \<and> [] \<in> piece_lang p \<and> s \<in> lang ps" using assms by simp
      then show ?thesis unfolding lang_Cons by blast
    next
      case 2
      then have "s = (u # a) @ b \<and> u # a \<in> piece_lang p \<and> b \<in> lang ps" using assms Cons by simp
      then show ?thesis unfolding lang_Cons by blast
    qed
  qed
qed

lemma dirs_text_simps [simp]: "dirs_text [] = []" "dirs_text (d # ds) = d @ slash # dirs_text ds"
  by (simp_all add: dirs_text_def)

lemma lang_dirs: "s \<in> lang (Dirs # ps) \<longleftrightarrow> s \<in> lang ps \<or>
    (\<exists>d t. s = d @ slash # t \<and> proper_dir d \<and> t \<in> lang (Dirs # ps))"
proof
  assume "s \<in> lang (Dirs # ps)"
  then obtain ds b where "s = dirs_text ds @ b" "list_all proper_dir ds" "b \<in> lang ps" by (auto simp: lang_Cons)
  moreover have "dirs_text ds' @ b \<in> lang (Dirs # ps)" if "list_all proper_dir ds'" for ds'
  proof (rule lang_ConsI)
    show "dirs_text ds' \<in> piece_lang Dirs" using that by auto
  qed fact
  ultimately show "s \<in> lang ps \<or> (\<exists>d t. s = d @ slash # t \<and> proper_dir d \<and> t \<in> lang (Dirs # ps))"
    by (cases ds) auto
next
  assume "s \<in> lang ps \<or> (\<exists>d t. s = d @ slash # t \<and> proper_dir d \<and> t \<in> lang (Dirs # ps))"
  then consider "s \<in> lang ps"
    | d ds b where "s = dirs_text (d # ds) @ b" "list_all proper_dir (d # ds)" "b \<in> lang ps"
    by (auto simp: lang_Cons)
  then show "s \<in> lang (Dirs # ps)"
  proof cases
    case 1
    then have "dirs_text [] @ s \<in> lang (Dirs # ps)" by (intro lang_ConsI) (auto intro!: exI [of _ "[]"])
    then show ?thesis by simp
  next
    case 2
    then have "dirs_text (d # ds) \<in> piece_lang Dirs" unfolding piece_lang.simps by blast
    from lang_ConsI [OF this 2(3)] 2(1) show ?thesis by simp
  qed
qed

lemma first_slash:
  "takeWhile (\<lambda>u. u \<noteq> slash) s = d \<and> dropWhile (\<lambda>u. u \<noteq> slash) s = slash # t \<longleftrightarrow> s = d @ slash # t \<and> slash \<notin> set d"
proof
  assume *: "takeWhile (\<lambda>u. u \<noteq> slash) s = d \<and> dropWhile (\<lambda>u. u \<noteq> slash) s = slash # t"
  then have "s = d @ slash # t" by (metis takeWhile_dropWhile_id)
  moreover have "slash \<notin> set d" using * by (metis (mono_tags, lifting) set_takeWhileD)
  ultimately show "s = d @ slash # t \<and> slash \<notin> set d" by blast
next
  assume *: "s = d @ slash # t \<and> slash \<notin> set d"
  then have "\<And>u. u \<in> set d \<Longrightarrow> u \<noteq> slash" by blast
  with * show "takeWhile (\<lambda>u. u \<noteq> slash) s = d \<and> dropWhile (\<lambda>u. u \<noteq> slash) s = slash # t"
    using takeWhile_append_stop [of d "\<lambda>u. u \<noteq> slash" "slash # t"]
      dropWhile_append_stop [of d "\<lambda>u. u \<noteq> slash" "slash # t"] by auto
qed

lemma split_dir: "(\<exists>d t. s = d @ slash # t \<and> proper_dir d \<and> Q t) \<longleftrightarrow>
    (let dir = takeWhile (\<lambda>u. u \<noteq> slash) s; rest = dropWhile (\<lambda>u. u \<noteq> slash) s
     in if dir = [] \<or> rest = [] then False else Q (tl rest))"
proof -
  have rest: "dropWhile (\<lambda>u. u \<noteq> slash) s = [] \<or> (\<exists>t. dropWhile (\<lambda>u. u \<noteq> slash) s = slash # t)"
    using dropWhile_cond_hd [of "\<lambda>u. u \<noteq> slash" s] by (cases "dropWhile (\<lambda>u. u \<noteq> slash) s") auto
  have "(\<exists>d t. s = d @ slash # t \<and> proper_dir d \<and> Q t) \<longleftrightarrow>
      (\<exists>d t. (takeWhile (\<lambda>u. u \<noteq> slash) s = d \<and> dropWhile (\<lambda>u. u \<noteq> slash) s = slash # t) \<and> d \<noteq> [] \<and> Q t)"
    unfolding first_slash proper_dir_def by blast
  with rest show ?thesis by (auto simp: Let_def)
qed

lemma matches_lang: "matches ps s \<longleftrightarrow> s \<in> lang ps"
proof (induction ps s rule: matches.induct)
  case (2 ps s)
  have "matches (Dirs # ps) s \<longleftrightarrow> matches ps s \<or>
      (let dir = takeWhile (\<lambda>u. u \<noteq> slash) s; rest = dropWhile (\<lambda>u. u \<noteq> slash) s
       in if dir = [] \<or> rest = [] then False else tl rest \<in> lang (Dirs # ps))"
    unfolding matches.simps(2) [of ps s] Let_def using 2(2) [OF refl refl]
    by (cases "takeWhile (\<lambda>u. u \<noteq> slash) s = [] \<or> dropWhile (\<lambda>u. u \<noteq> slash) s = []") (simp_all only: if_True if_False simp_thms)
  then show ?case unfolding lang_dirs [of s ps] split_dir using 2(1) by simp
next
  case (3 ps s)
  have "piece_lang Rest = {s. \<forall>u \<in> set s. \<not> line_terminator u}" by simp
  from lang_many [OF this, of s ps] 3 show ?case unfolding matches.simps(3) [of ps s] by (auto split: list.splits)
next
  case (4 ps s)
  have "piece_lang Segment = {s. \<forall>u \<in> set s. u \<noteq> slash}" by auto
  from lang_many [OF this, of s ps] 4 show ?case unfolding matches.simps(4) [of ps s] by (auto split: list.splits)
next
  case (5 ps s)
  have "piece_lang One = {[u] | u. u \<noteq> slash}" by simp
  from lang_one [OF this, of s ps] 5 show ?case unfolding matches.simps(5) [of ps s] by (auto split: list.splits)
next
  case (6 ps s)
  have "piece_lang Slash = {[u] | u. u = slash}" by simp
  from lang_one [OF this, of s ps] 6 show ?case unfolding matches.simps(6) [of ps s] by (auto split: list.splits)
next
  case (7 v ps s)
  have "piece_lang (Literal v) = {[u] | u. fold_case u = fold_case v}" by simp
  from lang_one [OF this, of s ps] 7 show ?case unfolding matches.simps(7) [of v ps s] by (auto split: list.splits)
qed (simp add: matches.simps(1))

subsection \<open>Building a matcher\<close>

lemma unique_append: "unique (xs @ ys) = unique xs @ filter (\<lambda>y. y \<notin> set xs) (unique ys)"
proof (induction xs)
  case (Cons x xs)
  have "filter (\<lambda>y. y \<noteq> x) (filter (\<lambda>y. y \<notin> set xs) (unique ys)) = filter (\<lambda>y. y \<notin> set (x # xs)) (unique ys)"
    by (auto intro: filter_cong)
  with Cons show ?case by simp
qed simp

lemma set_unique [simp]: "set (unique xs) = set xs"
  by (induction xs) auto

lemma all_results_append: "all_results (as @ bs) = (case all_results as of
    Inl e \<Rightarrow> Inl e | Inr xs \<Rightarrow> (case all_results bs of Inl e \<Rightarrow> Inl e | Inr ys \<Rightarrow> Inr (xs @ ys)))"
  by (induction as rule: all_results.induct) (auto split: sum.splits)

text \<open>A longer list only adds patterns after those of the shorter one.\<close>

lemma matcherFor_append:
  assumes "matcherFor nfc (xs @ ys) = Inr m" "matcherFor nfc xs = Inr m0"
  obtains m1 where "m = m0 @ m1"
  using assms unfolding matcherFor_def unique_append
  by (auto simp: all_results_append split: sum.splits)

lemma find_append: "List.find P (xs @ ys) = (case List.find P xs of None \<Rightarrow> List.find P ys | Some x \<Rightarrow> Some x)"
  by (induction xs) auto

lemma find_some: "x \<in> set xs \<Longrightarrow> P x \<Longrightarrow> \<exists>y. List.find P xs = Some y"
  by (induction xs) auto

lemma match_extends:
  assumes "match_path nfc m0 path = Inr (Some pat)"
  shows "match_path nfc (m0 @ m1) path = Inr (Some pat)"
  using assms by (auto simp: match_path_def find_append map_sum_def split: sum.splits option.splits)

text \<open>A pattern of the list is in the matcher, compiled.\<close>

lemma matcher_contains:
  assumes "matcherFor nfc source = Inr m" "p \<in> set source" "compileProtectedPath nfc p = Inr ps"
  shows "(p, ps) \<in> set m"
proof -
  let ?f = "\<lambda>p. map_sum id (Pair p) (compileProtectedPath nfc p)"
  have "?f p \<in> set (map ?f (unique source))" using assms(2) by simp
  moreover have "map ?f (unique source) = map Inr m"
    using assms(1) all_results_Inr unfolding matcherFor_def by blast
  ultimately have "?f p \<in> set (map Inr m)" by (simp only:)
  then show ?thesis using assms(3) by auto
qed

lemma match_caught:
  assumes "(p, ps) \<in> set m" "normalizeRepoPath nfc path = Inr q" "q \<in> lang ps"
  shows "\<exists>pat. match_path nfc m path = Inr (Some pat)"
proof -
  have "\<exists>y. List.find (\<lambda>(pattern, ps). matches ps q) m = Some y"
    using assms(1,3) by (intro find_some [of "(p, ps)"]) (simp_all add: matches_lang)
  with assms(2) show ?thesis by (auto simp: match_path_def)
qed

subsection \<open>Patterns written in ASCII\<close>

text \<open>Normalisation leaves ASCII text alone.\<close>

definition nfc_ascii :: "(units \<Rightarrow> units) \<Rightarrow> bool" where
  "nfc_ascii nfc \<longleftrightarrow> (\<forall>s. (\<forall>u \<in> set s. u < 0x80) \<longrightarrow> nfc s = s)"

text \<open>A pattern of honoured characters, compiled character by character.\<close>

definition plain_char :: "char \<Rightarrow> bool" where
  "plain_char c \<longleftrightarrow> (let n = of_char c :: nat in
     (97 \<le> n \<and> n \<le> 122) \<or> (65 \<le> n \<and> n \<le> 90) \<or> (48 \<le> n \<and> n \<le> 57) \<or> n = 42 \<or> n = 63 \<or> (45 \<le> n \<and> n \<le> 47) \<or> n = 95)"

definition plain_pattern :: "string \<Rightarrow> bool" where
  "plain_pattern p \<longleftrightarrow> p \<noteq> [] \<and> list_all plain_char p \<and> hd p \<noteq> CHR ''/''"

fun glob :: "string \<Rightarrow> piece list" where
  "glob [] = []"
| "glob (c # s) =
    (if c = CHR ''*'' then
       (case s of
          d # t \<Rightarrow>
            if d = CHR ''*'' then
              (case t of e # r \<Rightarrow> if e = CHR ''/'' then Dirs # glob r else Rest # glob t | [] \<Rightarrow> [Rest])
            else Segment # glob s
        | [] \<Rightarrow> [Segment])
     else if c = CHR ''?'' then One # glob s
     else if c = CHR ''/'' then Slash # glob s
     else Literal (u16 c) # glob s)"

lemma u16_eq_iff: "u16 c = u \<longleftrightarrow> of_char c = unat u"
  using unat_u16 word_unat_eq_iff by metis

lemma u16_le_iff: "u \<le> u16 c \<longleftrightarrow> unat u \<le> of_char c" "u16 c \<le> u \<longleftrightarrow> of_char c \<le> unat u"
  by (simp_all add: word_le_nat_alt)

lemma of_char_eq: "of_char c = (of_char d :: nat) \<longleftrightarrow> c = d"
  by (rule of_char_eq_iff)

lemma plain_unit:
  assumes "plain_char c"
  shows "\<not> js_space (u16 c)" "u16 c \<noteq> 0x5C" "u16 c \<noteq> 0x3A" "u16 c < 0x80"
    "c \<noteq> CHR ''*'' \<Longrightarrow> c \<noteq> CHR ''?'' \<Longrightarrow> c \<noteq> CHR ''/'' \<Longrightarrow> allowed_literal (u16 c)"
proof -
  have n: "of_char c < (128 :: nat)" "of_char c \<noteq> (92 :: nat)" "of_char c \<noteq> (58 :: nat)" "32 < (of_char c :: nat)"
    using assms by (auto simp: plain_char_def Let_def)
  show "u16 c \<noteq> 0x5C" "u16 c \<noteq> 0x3A" "u16 c < 0x80"
    using n by (simp_all add: u16_eq_iff word_less_nat_alt)
  show "\<not> js_space (u16 c)" using n by (simp add: js_space_def u16_le_iff u16_eq_iff)
  assume "c \<noteq> CHR ''*''" "c \<noteq> CHR ''?''" "c \<noteq> CHR ''/''"
  then have "of_char c \<noteq> (42 :: nat)" "of_char c \<noteq> (63 :: nat)" "of_char c \<noteq> (47 :: nat)"
    using of_char_eq [of c "CHR ''*''"] of_char_eq [of c "CHR ''?''"] of_char_eq [of c "CHR ''/''"] by simp_all
  then show "allowed_literal (u16 c)"
    using assms by (auto simp: plain_char_def Let_def allowed_literal_def alnum16_def is_digit16_def u16_le_iff u16_eq_iff)
qed

lemma u16_glob [simp]:
  "u16 c = star \<longleftrightarrow> c = CHR ''*''" "u16 c = 0x3F \<longleftrightarrow> c = CHR ''?''" "u16 c = slash \<longleftrightarrow> c = CHR ''/''"
  using of_char_eq [of c "CHR ''*''"] of_char_eq [of c "CHR ''?''"] of_char_eq [of c "CHR ''/''"]
  by (simp_all add: u16_eq_iff)

lemma pieces_glob: "list_all plain_char p \<Longrightarrow> pieces (asc p) = Inr (glob p)"
proof (induction p rule: length_induct)
  case (1 p)
  then have plain: "list_all plain_char p"
    and IH: "length q < length p \<Longrightarrow> list_all plain_char q \<Longrightarrow> pieces (asc q) = Inr (glob q)" for q by auto
  consider "p = []" | "p = ''*''" | "p = ''**''" | r where "p = ''**/'' @ r"
    | e r where "p = ''**'' @ e # r" "e \<noteq> CHR ''/''" | d r where "p = ''*'' @ d # r" "d \<noteq> CHR ''*''"
    | c r where "p = c # r" "c \<noteq> CHR ''*''"
    by (cases p; cases "tl p"; cases "tl (tl p)"; fastforce)
  then show ?case
  proof cases
    case (4 r)
    then show ?thesis using IH [of r] plain by (simp add: asc_def)
  next
    case (5 e r)
    then show ?thesis using IH [of "e # r"] plain by (simp add: asc_def del: pieces.simps(2) glob.simps(2) add: pieces.simps(2) [of "u16 CHR ''*''"] glob.simps(2) [of "CHR ''*''"])
  next
    case (6 d r)
    then show ?thesis using IH [of "d # r"] plain by (simp add: asc_def del: pieces.simps(2) glob.simps(2) add: pieces.simps(2) [of "u16 CHR ''*''"] glob.simps(2) [of "CHR ''*''"])
  next
    case (7 c r)
    then show ?thesis using IH [of r] plain plain_unit(5) [of c] by (auto simp: asc_def)
  qed (simp_all add: asc_def)
qed

lemma js_trim_plain: "list_all plain_char p \<Longrightarrow> js_trim (asc p) = asc p"
proof -
  assume "list_all plain_char p"
  then have "\<forall>u \<in> set (asc p). \<not> js_space u" by (auto simp: asc_def list_all_iff plain_unit)
  then have "dropWhile js_space (asc p) = asc p" "dropWhile js_space (rev (asc p)) = rev (asc p)"
    unfolding dropWhile_eq_self_iff by (metis hd_in_set, metis hd_in_set set_rev)
  then show ?thesis by (simp add: js_trim_def)
qed

lemma compile_plain:
  assumes "nfc_ascii nfc" "plain_pattern p"
  shows "compileProtectedPath nfc (asc p) = Inr (glob p)"
proof -
  have p: "p \<noteq> []" "list_all plain_char p" "hd p \<noteq> CHR ''/''" using assms(2) by (auto simp: plain_pattern_def)
  have units: "\<forall>u \<in> set (asc p). u < 0x80 \<and> u \<noteq> 0x5C \<and> u \<noteq> 0x3A"
    using p(2) by (auto simp: asc_def list_all_iff plain_unit)
  then have nfc: "nfc (asc p) = asc p" using assms(1) by (simp add: nfc_ascii_def)
  obtain c q where cq: "p = c # q" "c \<noteq> CHR ''/''" using p(1,3) by (cases p) auto
  then have "\<not> absolute (asc p)" using units by (auto simp: absolute_def asc_def split: list.splits)
  moreover have "0x5C \<notin> set (asc p)" "asc p \<noteq> []" using units p(1) by (auto simp: asc_def)
  ultimately show ?thesis
    by (simp add: compileProtectedPath_def js_trim_plain [OF p(2)] nfc pieces_glob [OF p(2)])
qed

lemma inj_asc: "inj asc"
  by (auto simp: inj_def asc_def u16_eq_iff intro: list.inj_map_strong)

lemma unique_distinct: "distinct xs \<Longrightarrow> unique xs = xs"
  by (induction xs) (auto intro: filter_True)

lemma matcher_plain:
  assumes "nfc_ascii nfc" "list_all plain_pattern ps" "distinct ps"
  shows "matcherFor nfc (map asc ps) = Inr (map (\<lambda>p. (asc p, glob p)) ps)"
proof -
  have "unique (map asc ps) = map asc ps"
    using assms(3) inj_asc by (intro unique_distinct) (simp add: distinct_map inj_on_def)
  moreover have "map (\<lambda>p. map_sum id (Pair p) (compileProtectedPath nfc p)) (map asc ps) =
      map Inr (map (\<lambda>p. (asc p, glob p)) ps)"
    using assms(1,2) by (auto simp: list_all_iff compile_plain)
  ultimately show ?thesis unfolding matcherFor_def by (simp only: all_results_map)
qed

subsection \<open>The built-in directories\<close>

definition PROTECTED_DIRS :: "string list" where
  "PROTECTED_DIRS = [''secrets'', ''migrations'', ''.git'', ''.github'', ''.azuredevops'', ''.husky'', ''.vscode'', ''.claude'']"

definition dir_pattern :: "string \<Rightarrow> string" where
  "dir_pattern d = ''**/'' @ d @ ''/**''"

lemma protected_dirs_listed: "d \<in> set PROTECTED_DIRS \<Longrightarrow> dir_pattern d \<in> set DEFAULT_PROTECTED_PATHS"
proof -
  have "list_all (\<lambda>d. dir_pattern d \<in> set DEFAULT_PROTECTED_PATHS) PROTECTED_DIRS" by code_simp
  then show "d \<in> set PROTECTED_DIRS \<Longrightarrow> ?thesis" by (simp add: list_all_iff)
qed

lemma default_patterns_plain:
  "list_all plain_pattern DEFAULT_PROTECTED_PATHS" "distinct DEFAULT_PROTECTED_PATHS"
  by code_simp+

text \<open>The built-in matchers, compiled.\<close>

definition built_in :: "string list \<Rightarrow> matcher" where
  "built_in ps = map (\<lambda>p. (asc p, glob p)) ps"

lemma built_in_matchers:
  assumes "nfc_ascii nfc"
  shows "createProtectedPathMatcher nfc [] = Inr (built_in DEFAULT_PROTECTED_PATHS)"
    "createUnreadablePathMatcher nfc = Inr (built_in DEFAULT_UNREADABLE_PATHS)"
    "plain_pattern p \<Longrightarrow> p \<notin> set DEFAULT_PROTECTED_PATHS \<Longrightarrow>
      createProtectedPathMatcher nfc [asc p] = Inr (built_in (DEFAULT_PROTECTED_PATHS @ [p]))"
  using matcher_plain [OF assms, of DEFAULT_PROTECTED_PATHS] matcher_plain [OF assms, of "DEFAULT_PROTECTED_PATHS @ [p]"]
    matcher_plain [OF assms, of DEFAULT_UNREADABLE_PATHS] default_patterns_plain
  by (simp_all add: createProtectedPathMatcher_def createUnreadablePathMatcher_def built_in_def DEFAULT_PROTECTED_PATHS_def)

lemma nfc_ascii_id: "nfc_ascii id"
  by (simp add: nfc_ascii_def)

lemma protected_dirs_glob: "d \<in> set PROTECTED_DIRS \<Longrightarrow> glob (dir_pattern d) = Dirs # map Literal (asc d) @ [Slash, Rest]"
  by (auto simp: PROTECTED_DIRS_def dir_pattern_def asc_def)

lemma protected_dirs_compile:
  assumes "nfc_ascii nfc" "d \<in> set PROTECTED_DIRS"
  shows "compileProtectedPath nfc (asc (dir_pattern d)) = Inr (Dirs # map Literal (asc d) @ [Slash, Rest])"
  using compile_plain [OF assms(1), of "dir_pattern d"] protected_dirs_glob [OF assms(2)]
    protected_dirs_listed [OF assms(2)] default_patterns_plain(1) by (simp add: list_all_iff)

text \<open>The same directory name under the case-insensitive comparison.\<close>

definition same_name :: "units \<Rightarrow> units \<Rightarrow> bool" where
  "same_name a b \<longleftrightarrow> map fold_case a = map fold_case b"

lemma lang_literals: "s \<in> lang (map Literal v @ ps) \<longleftrightarrow> (\<exists>a b. s = a @ b \<and> same_name a v \<and> b \<in> lang ps)"
proof (induction v arbitrary: s)
  case Nil
  then show ?case by (simp add: same_name_def)
next
  case (Cons x v)
  have "s \<in> lang (Literal x # map Literal v @ ps) \<longleftrightarrow>
      (\<exists>u t. s = u # t \<and> fold_case u = fold_case x \<and> (\<exists>a b. t = a @ b \<and> same_name a v \<and> b \<in> lang ps))"
    using lang_one [of "Literal x" "\<lambda>u. fold_case u = fold_case x" s "map Literal v @ ps"] Cons
    by (auto split: list.splits)
  also have "\<dots> \<longleftrightarrow> (\<exists>a b. s = a @ b \<and> same_name a (x # v) \<and> b \<in> lang ps)"
    (is "?l \<longleftrightarrow> ?r")
  proof
    assume ?l
    then obtain u a b where "s = (u # a) @ b" "same_name (u # a) (x # v)" "b \<in> lang ps"
      by (auto simp: same_name_def)
    then show ?r by blast
  next
    assume ?r
    then obtain a b where ab: "s = a @ b" "same_name a (x # v)" "b \<in> lang ps" by blast
    from ab(2) obtain u a' where "a = u # a'" "fold_case u = fold_case x" "same_name a' v"
      by (cases a) (auto simp: same_name_def)
    with ab show ?l by auto
  qed
  finally show ?case by simp
qed

lemma lang_below_dir:
  assumes "list_all proper_dir before" "same_name d' (asc d)" "\<forall>u \<in> set below. \<not> line_terminator u"
  shows "dirs_text before @ d' @ slash # below \<in> lang (Dirs # map Literal (asc d) @ [Slash, Rest])"
proof -
  have "slash # below \<in> lang [Slash, Rest]"
    using assms(3) lang_ConsI [of "[slash]" Slash below "[Rest]"] lang_ConsI [of below Rest "[]" "[]"] by simp
  with assms(2) have "d' @ slash # below \<in> lang (map Literal (asc d) @ [Slash, Rest])"
    unfolding lang_literals by (intro exI [of _ d'] exI [of _ "slash # below"]) simp
  moreover have "dirs_text before \<in> piece_lang Dirs" using assms(1) by auto
  ultimately have "dirs_text before @ (d' @ slash # below) \<in> lang (Dirs # map Literal (asc d) @ [Slash, Rest])"
    by (intro lang_ConsI)
  then show ?thesis by simp
qed

text \<open>And nothing else is below a protected directory.\<close>

lemma lang_dir_pattern:
  "s \<in> lang (Dirs # map Literal (asc d) @ [Slash, Rest]) \<longleftrightarrow>
    (\<exists>before d' below. s = dirs_text before @ d' @ slash # below \<and> list_all proper_dir before \<and>
       same_name d' (asc d) \<and> (\<forall>u \<in> set below. \<not> line_terminator u))"
proof
  assume "s \<in> lang (Dirs # map Literal (asc d) @ [Slash, Rest])"
  then obtain before b where b: "s = dirs_text before @ b" "list_all proper_dir before"
    "b \<in> lang (map Literal (asc d) @ [Slash, Rest])" by (auto simp: lang_Cons)
  then obtain d' c where c: "b = d' @ c" "same_name d' (asc d)" "c \<in> lang [Slash, Rest]" unfolding lang_literals by blast
  then obtain below where "c = slash # below" "\<forall>u \<in> set below. \<not> line_terminator u" by (auto simp: lang_Cons)
  with b c show "\<exists>before d' below. s = dirs_text before @ d' @ slash # below \<and> list_all proper_dir before \<and>
      same_name d' (asc d) \<and> (\<forall>u \<in> set below. \<not> line_terminator u)" by blast
qed (use lang_below_dir in blast)

end
