(* ===== verification/Paths_Props.thy ===== *)
theory Paths_Props
  imports Paths_Git Paths_Match
begin

text \<open>
  The properties of the protected-path check: what an expression accepts, the floor no repository
  configuration lowers, the directories that are covered at any depth, and that no change git
  reports under a protected path is missed by the scan.
\<close>

text \<open>
  The compiled expression, run by backtracking, accepts exactly the language of its pieces.
\<close>

theorem expression_accepts_language: "matches ps s \<longleftrightarrow> s \<in> lang ps"
  by (rule matches_lang)

text \<open>
  C29: a repository can add patterns and never remove one: a path the built-in list catches is caught
  by every matcher that can be built, under the same pattern, and so is every path the agent may not
  read.
\<close>

theorem floor_never_lowered:
  assumes "createProtectedPathMatcher nfc extra = Inr m"
    "createProtectedPathMatcher nfc [] = Inr m0 \<and> floor = m0 \<or> createUnreadablePathMatcher nfc = Inr floor"
    "match_path nfc floor path = Inr (Some pat)"
  shows "match_path nfc m path = Inr (Some pat)"
proof -
  have "\<exists>m1. m = floor @ m1"
    using assms(2)
  proof
    assume "createProtectedPathMatcher nfc [] = Inr m0 \<and> floor = m0"
    then show ?thesis using assms(1) matcherFor_append [of nfc "map asc DEFAULT_PROTECTED_PATHS" extra m m0]
      unfolding createProtectedPathMatcher_def by auto
  next
    assume "createUnreadablePathMatcher nfc = Inr floor"
    then show ?thesis
      using assms(1) matcherFor_append [of nfc "map asc DEFAULT_UNREADABLE_PATHS" _ m floor]
      unfolding createProtectedPathMatcher_def createUnreadablePathMatcher_def DEFAULT_PROTECTED_PATHS_def map_append append_assoc
      by metis
  qed
  with assms(3) match_extends show ?thesis by blast
qed

abbreviation default_matcher :: matcher where "default_matcher \<equiv> built_in DEFAULT_PROTECTED_PATHS"
abbreviation docs_matcher :: matcher where "docs_matcher \<equiv> built_in (DEFAULT_PROTECTED_PATHS @ [''docs/**''])"

lemma sample_matchers:
  "createProtectedPathMatcher id [] = Inr default_matcher"
  "createProtectedPathMatcher id [asc ''docs/**''] = Inr docs_matcher"
  "createUnreadablePathMatcher id = Inr (built_in DEFAULT_UNREADABLE_PATHS)"
proof -
  have "plain_pattern ''docs/**''" "''docs/**'' \<notin> set DEFAULT_PROTECTED_PATHS" by code_simp+
  from built_in_matchers [OF nfc_ascii_id] built_in_matchers(3) [OF nfc_ascii_id this]
  show "createProtectedPathMatcher id [] = Inr default_matcher"
    "createProtectedPathMatcher id [asc ''docs/**''] = Inr docs_matcher"
    "createUnreadablePathMatcher id = Inr (built_in DEFAULT_UNREADABLE_PATHS)" by blast+
qed

theorem floor_never_lowered_witness:
  "match_path id docs_matcher (asc ''api/.ENV'') = Inr (Some (asc ''**/.env''))"
proof (rule floor_never_lowered [OF sample_matchers(2)])
  show "createProtectedPathMatcher id [] = Inr default_matcher \<and> built_in DEFAULT_UNREADABLE_PATHS = default_matcher \<or>
    createUnreadablePathMatcher id = Inr (built_in DEFAULT_UNREADABLE_PATHS)"
    using sample_matchers(3) by blast
  show "match_path id (built_in DEFAULT_UNREADABLE_PATHS) (asc ''api/.ENV'') = Inr (Some (asc ''**/.env''))"
    by code_simp
qed

text \<open>
  C30: everything below a protected directory is caught by every matcher: whatever directories come
  before it, whatever the case of its name, however deep below it, as long as the path below has no
  line terminator.
\<close>

theorem protected_directories_covered:
  assumes "nfc_ascii nfc" "createProtectedPathMatcher nfc extra = Inr m" "d \<in> set PROTECTED_DIRS"
    "list_all proper_dir before" "same_name d' (asc d)" "\<forall>u \<in> set below. \<not> line_terminator u"
    "normalizeRepoPath nfc path = Inr (dirs_text before @ d' @ slash # below)"
  shows "\<exists>pat. match_path nfc m path = Inr (Some pat)"
proof -
  have "asc (dir_pattern d) \<in> set (map asc DEFAULT_PROTECTED_PATHS @ extra)"
    using protected_dirs_listed [OF assms(3)] by simp
  from matcher_contains [OF assms(2) [unfolded createProtectedPathMatcher_def] this protected_dirs_compile [OF assms(1,3)]]
  show ?thesis
    by (rule match_caught [OF _ assms(7) lang_below_dir [OF assms(4-6)]])
qed

theorem protected_directories_covered_witness:
  "\<exists>pat. match_path id docs_matcher (asc ''./sub/.GIT/hooks/post-checkout'') = Inr (Some pat)"
proof (rule protected_directories_covered [OF nfc_ascii_id sample_matchers(2)])
  show "''.git'' \<in> set PROTECTED_DIRS" by code_simp
  show "list_all proper_dir [asc ''sub'']" by code_simp
  show "same_name (asc ''.GIT'') (asc ''.git'')" by code_simp
  show "\<forall>u \<in> set (asc ''hooks/post-checkout''). \<not> line_terminator u" by code_simp
  show "normalizeRepoPath id (asc ''./sub/.GIT/hooks/post-checkout'') =
      Inr (dirs_text [asc ''sub''] @ asc ''.GIT'' @ slash # asc ''hooks/post-checkout'')"
    by code_simp
qed

text \<open>
  what the pattern of a protected directory covers, exactly: the paths that have the directory's name,
  in any case, as one of their directories, with no line terminator anywhere after it. So a file below
  \<open>secrets\<close> or \<open>.git\<close> whose path has a line break after the directory is not covered by its pattern.
\<close>

theorem directory_pattern_exact:
  assumes "nfc_ascii nfc" "d \<in> set PROTECTED_DIRS"
  shows "\<exists>ps. compileProtectedPath nfc (asc (dir_pattern d)) = Inr ps \<and>
    (\<forall>path. matches ps path \<longleftrightarrow>
      (\<exists>before d' below. path = dirs_text before @ d' @ slash # below \<and> list_all proper_dir before \<and>
         same_name d' (asc d) \<and> (\<forall>u \<in> set below. \<not> line_terminator u)))"
  using protected_dirs_compile [OF assms] lang_dir_pattern [of _ d] unfolding matches_lang by blast

theorem directory_pattern_exact_witness:
  "\<exists>ps. compileProtectedPath id (asc ''**/secrets/**'') = Inr ps \<and>
    matches ps (asc ''a/Secrets/b/c'') \<and> \<not> matches ps (asc ''a/Secrets/b'' @ [0x0A] @ asc ''c'')"
proof -
  have d: "''secrets'' \<in> set PROTECTED_DIRS" "dir_pattern ''secrets'' = ''**/secrets/**''" by code_simp+
  obtain ps where ps: "compileProtectedPath id (asc ''**/secrets/**'') = Inr ps"
    and iff: "matches ps path \<longleftrightarrow> (\<exists>before d' below. path = dirs_text before @ d' @ slash # below \<and>
      list_all proper_dir before \<and> same_name d' (asc ''secrets'') \<and> (\<forall>u \<in> set below. \<not> line_terminator u))" for path
    using directory_pattern_exact [OF nfc_ascii_id d(1)] unfolding d(2) by blast
  have "matches ps (asc ''a/Secrets/b/c'')"
    unfolding iff by (intro exI [of _ "[asc ''a'']"] exI [of _ "asc ''Secrets''"] exI [of _ "asc ''b/c''"]) code_simp
  moreover have "ps = glob ''**/secrets/**''"
    using compile_plain [OF nfc_ascii_id, of "''**/secrets/**''"] ps by (simp add: plain_pattern_def plain_char_def)
  then have "\<not> matches ps (asc ''a/Secrets/b'' @ [0x0A] @ asc ''c'')" by simp code_simp
  ultimately show ?thesis using ps by blast
qed

text \<open>No other built-in pattern catches such a file either, when its name has nothing else of interest.\<close>

theorem line_break_is_not_covered:
  "\<exists>m. createProtectedPathMatcher id [] = Inr m \<and>
     match_path id m (asc ''secrets/a'' @ [0x0A] @ asc ''b'') = Inr None \<and>
     match_path id m (asc ''secrets/ab'') = Inr (Some (asc ''**/secrets/**''))"
proof (intro exI conjI)
  show "createProtectedPathMatcher id [] = Inr default_matcher" by (rule sample_matchers(1))
  show "match_path id default_matcher (asc ''secrets/a'' @ [0x0A] @ asc ''b'') = Inr None" by code_simp
  show "match_path id default_matcher (asc ''secrets/ab'') = Inr (Some (asc ''**/secrets/**''))" by code_simp
qed

text \<open>
  What git prints for a list of entries, renames with both their paths included, is read back as
  exactly these changes, in order, whatever the names hold but NUL; a path that cannot be normalised
  fails the whole reading. Copies, which git does not report by default, are the exception.
\<close>

theorem status_roundtrip:
  assumes "list_all (\<lambda>e. git_entry_ok e \<and> \<not> is_copy e) es"
  shows "parsePorcelainZ nfc (concat (map print_entry es)) = all_results (map (file_of nfc) es)"
  using assms by (rule parse_printed_all)

definition sample_entries :: "git_entry list" where
  "sample_entries =
    [\<lparr>ge_code = asc ''??'', ge_path = asc ''src/a b.ts'', ge_from = None\<rparr>,
     \<lparr>ge_code = asc ''R '', ge_path = asc ''notes.txt'', ge_from = Some (asc ''deploy/secrets/token'')\<rparr>,
     \<lparr>ge_code = asc '' D'', ge_path = asc ''old.ts'', ge_from = None\<rparr>]"

lemma sample_entries_ok: "list_all (\<lambda>e. git_entry_ok e \<and> \<not> is_copy e) sample_entries"
  by code_simp

definition sample_files :: "changed_file list" where
  "sample_files = [plain_file (asc ''src/a b.ts'') Added None,
     plain_file (asc ''notes.txt'') Renamed (Some (asc ''deploy/secrets/token'')), plain_file (asc ''old.ts'') Deleted None]"

lemma sample_files: "all_results (map (file_of id) sample_entries) = Inr sample_files"
  by code_simp

theorem status_roundtrip_witness: "parsePorcelainZ id (concat (map print_entry sample_entries)) = Inr sample_files"
  unfolding status_roundtrip [OF sample_entries_ok] by (rule sample_files)

text \<open>
  C31: no reported change escapes the scan as long as git is not configured to report copies: when both
  the reading of git's output and the scan return, every path an entry names (the destination, and for a
  rename the origin) that a pattern catches is in the violations, with that pattern and the entry's status.
\<close>

theorem reported_changes_are_scanned:
  assumes "list_all (\<lambda>e. git_entry_ok e \<and> \<not> is_copy e) es" "parsePorcelainZ nfc (concat (map print_entry es)) = Inr fs"
    "findProtectedViolations nfc m fs = Inr vs" "e \<in> set es" "q = ge_path e \<or> ge_from e = Some q"
    "normalizeRepoPath nfc q = Inr q'" "match_path nfc m q' = Inr (Some pat)"
  shows "\<lparr>pv_path = q', pv_pattern = pat, pv_status = statusOf (ge_code e)\<rparr> \<in> set vs"
proof -
  have "all_results (map (file_of nfc) es) = Inr fs" using assms(1,2) parse_printed_all by metis
  moreover have "file_of nfc e \<in> set (map (file_of nfc) es)" using assms(4) by simp
  ultimately obtain f where f: "f \<in> set fs" "file_of nfc e = Inr f" using all_results_nth by blast
  then have "q' \<in> set (candidates f)" "cf_status f = statusOf (ge_code e)"
    using assms(5,6) by (auto simp: file_of_def candidates_def split: sum.splits option.splits)
  with violations_complete [OF assms(3) f(1) _ assms(7)] show ?thesis by simp
qed

theorem reported_changes_are_scanned_witness:
  "\<exists>vs. findProtectedViolations id default_matcher sample_files = Inr vs \<and>
     \<lparr>pv_path = asc ''deploy/secrets/token'', pv_pattern = asc ''**/secrets/**'', pv_status = Renamed\<rparr> \<in> set vs"
proof -
  let ?e = "\<lparr>ge_code = asc ''R '', ge_path = asc ''notes.txt'', ge_from = Some (asc ''deploy/secrets/token'')\<rparr>"
  have "\<not> isl (findProtectedViolations id default_matcher sample_files)" by code_simp
  then obtain vs where vs: "findProtectedViolations id default_matcher sample_files = Inr vs"
    by (cases "findProtectedViolations id default_matcher sample_files") auto
  have "?e \<in> set sample_entries" by (simp add: sample_entries_def)
  moreover have "normalizeRepoPath id (asc ''deploy/secrets/token'') = Inr (asc ''deploy/secrets/token'')" by code_simp
  moreover have "match_path id default_matcher (asc ''deploy/secrets/token'') = Inr (Some (asc ''**/secrets/**''))" by code_simp
  moreover have "statusOf (ge_code ?e) = Renamed" by code_simp
  moreover have "parsePorcelainZ id (concat (map print_entry sample_entries)) = Inr sample_files"
    using parse_printed_all [OF sample_entries_ok] sample_files by metis
  ultimately show ?thesis
    using reported_changes_are_scanned [OF sample_entries_ok _ vs, of ?e "asc ''deploy/secrets/token''"] vs by auto
qed

text \<open>
  With copies reported the promise fails: the origin of a copy is read as an entry of its own, its first
  three characters taken for a status.
\<close>

theorem copied_origin_is_misread:
  assumes "git_entry_ok e" "is_copy e" "ge_from e = Some q" "u16 CHR ''R'' \<notin> set (ge_code e)"
    "normalizeRepoPath nfc (ge_path e) = Inr p" "4 \<le> length q" "u16 CHR ''R'' \<notin> set (take 2 q)"
    "normalizeRepoPath nfc (drop 3 q) = Inr r"
  shows "parsePorcelainZ nfc (print_entry e) =
    Inr [plain_file p (statusOf (ge_code e)) None, plain_file r (statusOf (take 2 q)) None]"
proof -
  have len: "\<not> length q < 4" using assms(6) by simp
  have st: "(statusOf (take 2 q) = Renamed) = False" using assms(7) by (simp add: statusOf_Renamed)
  have nil: "parse_fields nfc [[]] = Inr []" by simp
  have "parse_fields nfc [q, []] = Inr [plain_file r (statusOf (take 2 q)) None]"
    unfolding parse_fields.simps(2) [of nfc q] if_not_P [OF len] assms(8) sum.case st if_False nil by simp
  then show ?thesis
    using parse_copy [OF assms(1-5), of "[]"] unfolding parsePorcelainZ_def append_Nil2 split_on.simps by simp
qed

theorem copied_origin_is_misread_witness:
  "parsePorcelainZ id (asc ''C  notes.txt'' @ [0] @ asc ''deploy/secrets/token'' @ [0]) =
    Inr [plain_file (asc ''notes.txt'') Modified None, plain_file (asc ''loy/secrets/token'') Modified None]"
proof -
  let ?e = "\<lparr>ge_code = asc ''C '', ge_path = asc ''notes.txt'', ge_from = Some (asc ''deploy/secrets/token'')\<rparr>"
  have "parsePorcelainZ id (print_entry ?e) = Inr [plain_file (asc ''notes.txt'') (statusOf (ge_code ?e)) None,
      plain_file (asc ''loy/secrets/token'') (statusOf (take 2 (asc ''deploy/secrets/token''))) None]"
    by (rule copied_origin_is_misread) code_simp+
  moreover have "statusOf (ge_code ?e) = Modified" "statusOf (take 2 (asc ''deploy/secrets/token'')) = Modified" by code_simp+
  moreover have "print_entry ?e = asc ''C  notes.txt'' @ [0] @ asc ''deploy/secrets/token'' @ [0]" by code_simp
  ultimately show ?thesis by metis
qed

end
