(* ===== verification/Strikes.thy ===== *)
theory Strikes
  imports Canonical "HOL-Library.AList"
begin

text \<open>
  Stuck protection (\<open>packages/execution/src/strikes.ts\<close>, \<open>persistent-strikes.ts\<close>): the counter of
  failures per key, in memory and persistent, and the Postgres store behind the latter
  (\<open>apps/deploy/src/stores/strikes.ts\<close>). An instant is its number of milliseconds; the source
  carries it as an ISO string and back.
\<close>

subsection \<open>Keys and states\<close>

datatype strike_scope = GateScope | CiScope | AgentScope

fun scope_str :: "strike_scope \<Rightarrow> string" where
  "scope_str GateScope = ''gate''" | "scope_str CiScope = ''ci''" | "scope_str AgentScope = ''agent''"

record strike_key =
  sk_runId :: string
  sk_scope :: strike_scope
  sk_ref :: string

definition serialize :: "strike_key \<Rightarrow> string" where
  "serialize k = sk_runId k @ [CHR 0x00] @ scope_str (sk_scope k) @ [CHR 0x00] @ sk_ref k"

record strike_state =
  ss_key :: strike_key
  ss_count :: nat
  ss_limit :: nat
  ss_firstAt :: nat
  ss_lastAt :: nat
  ss_handover :: bool
  ss_reasons :: "units list"

definition DEFAULT_STRIKE_LIMIT :: int where
  "DEFAULT_STRIKE_LIMIT = 3"

text \<open>\<open>xs.slice(-n)\<close> for a positive \<open>n\<close>.\<close>

definition slice_last :: "nat \<Rightarrow> 'a list \<Rightarrow> 'a list" where
  "slice_last n xs = drop (length xs - n) xs"

type_synonym strike_map = "(string \<times> strike_state) list"

datatype strike_error = LimitNotPositive int

subsection \<open>The in-memory ledger\<close>

record ledger =
  lg_limit :: nat
  lg_states :: strike_map

definition new_ledger :: "int option \<Rightarrow> strike_error + ledger" where
  "new_ledger limit =
    (let n = (case limit of None \<Rightarrow> DEFAULT_STRIKE_LIMIT | Some i \<Rightarrow> i)
     in if n < 1 then Inl (LimitNotPositive n) else Inr \<lparr>lg_limit = nat n, lg_states = []\<rparr>)"

text \<open>\<open>record(key, reason)\<close> at the instant \<open>at\<close>.\<close>

definition ledger_record :: "strike_key \<Rightarrow> units \<Rightarrow> nat \<Rightarrow> ledger \<Rightarrow> strike_state \<times> ledger" where
  "ledger_record k reason at l =
    (let previous = map_of (lg_states l) (serialize k);
         count = (case previous of None \<Rightarrow> 0 | Some p \<Rightarrow> ss_count p) + 1;
         state = \<lparr>ss_key = k, ss_count = count, ss_limit = lg_limit l,
                  ss_firstAt = (case previous of None \<Rightarrow> at | Some p \<Rightarrow> ss_firstAt p), ss_lastAt = at,
                  ss_handover = lg_limit l \<le> count,
                  ss_reasons = slice_last (lg_limit l) ((case previous of None \<Rightarrow> [] | Some p \<Rightarrow> ss_reasons p) @ [reason])\<rparr>
     in (state, l\<lparr>lg_states := AList.update (serialize k) state (lg_states l)\<rparr>))"

definition ledger_clear :: "strike_key \<Rightarrow> ledger \<Rightarrow> ledger" where
  "ledger_clear k l = l\<lparr>lg_states := AList.delete (serialize k) (lg_states l)\<rparr>"

definition ledger_state :: "strike_key \<Rightarrow> ledger \<Rightarrow> strike_state option" where
  "ledger_state k l = map_of (lg_states l) (serialize k)"

definition ledger_stuckKeys :: "string \<Rightarrow> ledger \<Rightarrow> strike_state list" where
  "ledger_stuckKeys runId l = filter (\<lambda>s. sk_runId (ss_key s) = runId \<and> ss_handover s) (map snd (lg_states l))"

record handover_decision =
  hd_handover :: bool
  hd_key :: strike_key
  hd_count :: nat
  hd_limit :: nat
  hd_workMode :: string
  hd_messageKey :: string
  hd_reasons :: "units list"

definition handoverDecision :: "strike_state \<Rightarrow> handover_decision" where
  "handoverDecision s =
    \<lparr>hd_handover = ss_handover s, hd_key = ss_key s, hd_count = ss_count s, hd_limit = ss_limit s,
     hd_workMode = ''ai_assist'', hd_messageKey = ''run.handover_stuck'', hd_reasons = ss_reasons s\<rparr>"

subsection \<open>The store\<close>

record strike_row =
  sr_runId :: string
  sr_scope :: string
  sr_ref :: string
  sr_count :: nat
  sr_firstAt :: nat
  sr_lastAt :: nat
  sr_reasons :: "units list"

type_synonym row_ref = "string \<times> string \<times> string"

definition row_key :: "strike_row \<Rightarrow> row_ref" where
  "row_key r = (sr_runId r, sr_scope r, sr_ref r)"

definition key_of :: "strike_key \<Rightarrow> row_ref" where
  "key_of k = (sk_runId k, scope_str (sk_scope k), sk_ref k)"

text \<open>
  The Prisma delegate of the table, outside the repository: a query and two statements that can
  fail. \<open>upsert\<close> takes the row to create and the three columns to update.
\<close>

record ('e, 'd) counters =
  findMany :: "string \<Rightarrow> 'd \<Rightarrow> 'e + strike_row list"
  upsert :: "row_ref \<Rightarrow> strike_row \<Rightarrow> (nat \<times> nat \<times> units list) \<Rightarrow> 'd \<Rightarrow> ('e + unit) \<times> 'd"
  delete_row :: "row_ref \<Rightarrow> 'd \<Rightarrow> ('e + unit) \<times> 'd"

definition store_load :: "('e, 'd) counters \<Rightarrow> string \<Rightarrow> 'd \<Rightarrow> 'e + strike_row list" where
  "store_load C runId d = findMany C runId d"

definition store_save :: "('e, 'd) counters \<Rightarrow> strike_row \<Rightarrow> 'd \<Rightarrow> ('e + unit) \<times> 'd" where
  "store_save C r d = upsert C (row_key r) r (sr_count r, sr_lastAt r, sr_reasons r) d"

text \<open>\<open>.catch(() => undefined)\<close>: whatever \<open>delete\<close> fails with is swallowed.\<close>

definition store_remove :: "('e, 'd) counters \<Rightarrow> strike_key \<Rightarrow> 'd \<Rightarrow> ('e + unit) \<times> 'd" where
  "store_remove C k d = (Inr (), snd (delete_row C (key_of k) d))"

subsection \<open>The persistent ledger\<close>

datatype write_op = Save strike_row | Remove strike_key

fun run_write :: "('e, 'd) counters \<Rightarrow> write_op \<Rightarrow> 'd \<Rightarrow> ('e + unit) \<times> 'd" where
  "run_write C (Save r) d = store_save C r d"
| "run_write C (Remove k) d = store_remove C k d"

text \<open>The queue holds the writes not attempted yet, with the key \<open>onWriteError\<close> is told.\<close>

record pledger =
  pl_limit :: nat
  pl_states :: strike_map
  pl_loaded :: "string set"
  pl_queue :: "(strike_key \<times> write_op) list"

definition new_pledger :: "int option \<Rightarrow> strike_error + pledger" where
  "new_pledger limit =
    (let n = (case limit of None \<Rightarrow> DEFAULT_STRIKE_LIMIT | Some i \<Rightarrow> i)
     in if n < 1 then Inl (LimitNotPositive n)
        else Inr \<lparr>pl_limit = nat n, pl_states = [], pl_loaded = {}, pl_queue = []\<rparr>)"

definition toState :: "nat \<Rightarrow> strike_key \<Rightarrow> nat \<Rightarrow> nat \<Rightarrow> nat \<Rightarrow> units list \<Rightarrow> strike_state" where
  "toState limit k count firstAt lastAt reasons =
    \<lparr>ss_key = k, ss_count = count, ss_limit = limit, ss_firstAt = firstAt, ss_lastAt = lastAt,
     ss_handover = limit \<le> count, ss_reasons = slice_last limit reasons\<rparr>"

definition asScope :: "string \<Rightarrow> strike_scope" where
  "asScope s = (if s = ''gate'' then GateScope else if s = ''ci'' then CiScope else AgentScope)"

text \<open>The body of the loop over the rows.\<close>

definition hydrate_row :: "nat \<Rightarrow> strike_row \<Rightarrow> strike_map \<Rightarrow> strike_map" where
  "hydrate_row limit r states =
    (let k = \<lparr>sk_runId = sr_runId r, sk_scope = asScope (sr_scope r), sk_ref = sr_ref r\<rparr>
     in if map_of states (serialize k) \<noteq> None then states
        else AList.update (serialize k) (toState limit k (sr_count r) (sr_firstAt r) (sr_lastAt r) (sr_reasons r)) states)"

definition hydrate :: "('e, 'd) counters \<Rightarrow> string \<Rightarrow> 'd \<Rightarrow> pledger \<Rightarrow> 'e + pledger" where
  "hydrate C runId d p =
    (if runId \<in> pl_loaded p then Inr p
     else case store_load C runId d of
            Inl e \<Rightarrow> Inl e
          | Inr rows \<Rightarrow> Inr (p\<lparr>pl_loaded := insert runId (pl_loaded p),
                              pl_states := fold (hydrate_row (pl_limit p)) rows (pl_states p)\<rparr>))"

definition enqueue :: "strike_key \<Rightarrow> write_op \<Rightarrow> pledger \<Rightarrow> pledger" where
  "enqueue k w p = p\<lparr>pl_queue := pl_queue p @ [(k, w)]\<rparr>"

definition row_of_state :: "strike_state \<Rightarrow> strike_row" where
  "row_of_state s =
    \<lparr>sr_runId = sk_runId (ss_key s), sr_scope = scope_str (sk_scope (ss_key s)), sr_ref = sk_ref (ss_key s),
     sr_count = ss_count s, sr_firstAt = ss_firstAt s, sr_lastAt = ss_lastAt s, sr_reasons = ss_reasons s\<rparr>"

definition pledger_record :: "strike_key \<Rightarrow> units \<Rightarrow> nat \<Rightarrow> pledger \<Rightarrow> strike_state \<times> pledger" where
  "pledger_record k reason at p =
    (let previous = map_of (pl_states p) (serialize k);
         count = (case previous of None \<Rightarrow> 0 | Some q \<Rightarrow> ss_count q) + 1;
         state = toState (pl_limit p) k count (case previous of None \<Rightarrow> at | Some q \<Rightarrow> ss_firstAt q) at
                   (slice_last (pl_limit p) ((case previous of None \<Rightarrow> [] | Some q \<Rightarrow> ss_reasons q) @ [reason]))
     in (state, enqueue k (Save (row_of_state state))
                  (p\<lparr>pl_states := AList.update (serialize k) state (pl_states p)\<rparr>)))"

definition pledger_clear :: "strike_key \<Rightarrow> pledger \<Rightarrow> pledger" where
  "pledger_clear k p = enqueue k (Remove k) (p\<lparr>pl_states := AList.delete (serialize k) (pl_states p)\<rparr>)"

definition pledger_state :: "strike_key \<Rightarrow> pledger \<Rightarrow> strike_state option" where
  "pledger_state k p = map_of (pl_states p) (serialize k)"

definition pledger_stuckKeys :: "string \<Rightarrow> pledger \<Rightarrow> strike_state list" where
  "pledger_stuckKeys runId p = filter (\<lambda>s. sk_runId (ss_key s) = runId \<and> ss_handover s) (map snd (pl_states p))"

text \<open>Every queued write attempted in order; failures go to \<open>onWriteError\<close>.\<close>

fun drain :: "('e, 'd) counters \<Rightarrow> (strike_key \<times> write_op) list \<Rightarrow> 'd \<Rightarrow> ('e \<times> strike_key) list \<times> 'd" where
  "drain C [] d = ([], d)"
| "drain C ((k, w) # q) d =
    (case run_write C w d of
       (r, d') \<Rightarrow> (case drain C q d' of (errs, d'') \<Rightarrow> ((case r of Inl e \<Rightarrow> [(e, k)] | Inr _ \<Rightarrow> []) @ errs, d'')))"

definition pendingWrites :: "('e, 'd) counters \<Rightarrow> pledger \<Rightarrow> 'd \<Rightarrow> ('e \<times> strike_key) list \<times> pledger \<times> 'd" where
  "pendingWrites C p d = (case drain C (pl_queue p) d of (errs, d') \<Rightarrow> (errs, p\<lparr>pl_queue := []\<rparr>, d'))"

definition forget :: "string \<Rightarrow> pledger \<Rightarrow> pledger" where
  "forget runId p = p\<lparr>pl_loaded := pl_loaded p - {runId},
     pl_states := filter (\<lambda>(i, s). sk_runId (ss_key s) \<noteq> runId) (pl_states p)\<rparr>"

subsection \<open>The port and its laws\<close>

text \<open>What the turn needs of a ledger: one limit, one counter per serialised key.\<close>

locale strike_ledger =
  fixes rec :: "strike_key \<Rightarrow> units \<Rightarrow> nat \<Rightarrow> 'l \<Rightarrow> strike_state \<times> 'l"
    and clr :: "strike_key \<Rightarrow> 'l \<Rightarrow> 'l"
    and look :: "strike_key \<Rightarrow> 'l \<Rightarrow> strike_state option"
    and lim :: "'l \<Rightarrow> nat"
  assumes rec_look: "rec k reason at l = (s, l') \<Longrightarrow>
      look j l' = (if serialize j = serialize k then Some s else look j l)"
    and rec_lim: "rec k reason at l = (s, l') \<Longrightarrow> lim l' = lim l"
    and rec_state: "rec k reason at l = (s, l') \<Longrightarrow> ss_key s = k \<and> ss_limit s = lim l \<and> ss_lastAt s = at \<and>
      ss_count s = (case look k l of None \<Rightarrow> 0 | Some p \<Rightarrow> ss_count p) + 1 \<and>
      ss_firstAt s = (case look k l of None \<Rightarrow> at | Some p \<Rightarrow> ss_firstAt p) \<and>
      ss_handover s = (lim l \<le> ss_count s) \<and>
      ss_reasons s = slice_last (lim l) ((case look k l of None \<Rightarrow> [] | Some p \<Rightarrow> ss_reasons p) @ [reason])"
    and clr_look: "look j (clr k l) = (if serialize j = serialize k then None else look j l)"
    and clr_lim: "lim (clr k l) = lim l"
    and same_key: "serialize j = serialize k \<Longrightarrow> look j l = look k l"

datatype strike_call = Record strike_key units nat | Clear strike_key

fun run_call :: "(strike_key \<Rightarrow> units \<Rightarrow> nat \<Rightarrow> 'l \<Rightarrow> strike_state \<times> 'l) \<Rightarrow> (strike_key \<Rightarrow> 'l \<Rightarrow> 'l) \<Rightarrow> strike_call \<Rightarrow> 'l \<Rightarrow> 'l" where
  "run_call rec clr (Record k reason at) l = snd (rec k reason at l)"
| "run_call rec clr (Clear k) l = clr k l"

text \<open>What a key was told since it was last cleared, and the state that tells it.\<close>

fun told :: "strike_key \<Rightarrow> strike_call list \<Rightarrow> (units \<times> nat) list \<Rightarrow> (units \<times> nat) list" where
  "told k [] seen = seen"
| "told k (Record j reason at # cs) seen = told k cs (if serialize j = serialize k then seen @ [(reason, at)] else seen)"
| "told k (Clear j # cs) seen = told k cs (if serialize j = serialize k then [] else seen)"

definition counted :: "nat \<Rightarrow> (units \<times> nat) list \<Rightarrow> strike_state option \<Rightarrow> bool" where
  "counted limit seen st \<longleftrightarrow>
    (case st of
       None \<Rightarrow> seen = []
     | Some s \<Rightarrow> seen \<noteq> [] \<and> ss_count s = length seen \<and> ss_limit s = limit \<and> ss_handover s = (limit \<le> length seen) \<and>
         ss_firstAt s = snd (hd seen) \<and> ss_lastAt s = snd (last seen) \<and> ss_reasons s = slice_last limit (map fst seen))"

lemma slice_last_snoc [simp]: "slice_last n (slice_last n xs @ [x]) = slice_last n (xs @ [x])"
  by (cases "n \<le> length xs") (auto simp: slice_last_def Suc_diff_le)

lemma length_slice_last [simp]: "length (slice_last n xs) = min n (length xs)"
  by (simp add: slice_last_def)

lemma slice_last_short [simp]: "length xs \<le> n \<Longrightarrow> slice_last n xs = xs"
  by (simp add: slice_last_def)

context strike_ledger
begin

lemma rec_counted:
  assumes "rec k reason at l = (s, l')" "counted (lim l) seen (look k l)"
  shows "counted (lim l') (seen @ [(reason, at)]) (look k l')"
  using rec_state [OF assms(1)] rec_look [OF assms(1), of k] rec_lim [OF assms(1)] assms(2)
  by (auto simp: counted_def hd_append split: option.splits)

text \<open>After any calls, the state of a key is the one that counts what the key was told.\<close>

lemma calls_counted:
  "counted (lim l) seen (look k l) \<Longrightarrow>
   counted (lim l) (told k cs seen) (look k (fold (run_call rec clr) cs l)) \<and>
   lim (fold (run_call rec clr) cs l) = lim l"
proof (induction k cs seen arbitrary: l rule: told.induct)
  case (2 k j reason at cs seen)
  obtain s l' where r: "rec j reason at l = (s, l')" by fastforce
  have lim: "lim l' = lim l" by (rule rec_lim [OF r])
  have "counted (lim l') (if serialize j = serialize k then seen @ [(reason, at)] else seen) (look k l')"
  proof (cases "serialize j = serialize k")
    case True
    then have "look j x = look k x" for x
      by (rule same_key)
    with rec_counted [OF r, of seen] 2(2) True show ?thesis by simp
  next
    case False
    with rec_look [OF r, of k] 2(2) lim show ?thesis by simp
  qed
  with 2(1) [of l'] lim r show ?case by simp
next
  case (3 k j cs seen)
  have "counted (lim (clr j l)) (if serialize j = serialize k then [] else seen) (look k (clr j l))"
    using 3(2) clr_look [of k j l] clr_lim [of j l] by (auto simp: counted_def)
  with 3(1) [of "clr j l"] clr_lim [of j l] show ?case by simp
qed simp

end

subsection \<open>Both ledgers keep the laws\<close>

lemma alist_update_lookup [simp]: "map_of (AList.update k v al) i = (if i = k then Some v else map_of al i)"
  by (simp add: update_conv)

lemma alist_delete_lookup [simp]: "map_of (AList.delete k al) i = (if i = k then None else map_of al i)"
  by (simp add: delete_conv)

interpretation memory: strike_ledger ledger_record ledger_clear ledger_state lg_limit
  by unfold_locales (auto simp: ledger_record_def ledger_clear_def ledger_state_def Let_def)

interpretation persistent: strike_ledger pledger_record pledger_clear pledger_state pl_limit
  by unfold_locales (auto simp: pledger_record_def pledger_clear_def pledger_state_def enqueue_def toState_def Let_def)

end
