(* ===== verification/Agent_Turn.thy ===== *)
theory Agent_Turn
  imports Paths_Git Strikes Contracts
begin

text \<open>
  One turn of a doing role, end to end (\<open>packages/execution/src/execution.ts\<close>, \<open>collect.ts\<close>,
  \<open>verification-runner.ts\<close>): agent session, protected-path check, verification, journal, strike.
  The model, the probe of the working copy, the commands, the fingerprint of a failure and the
  journal's masked sink are parameters; the ledger is any implementation of the port.
\<close>

subsection \<open>Commands\<close>

record command_spec =
  cs_name :: units
  cs_command :: "units list"

record command_result =
  cr_name :: units
  cr_command :: "units list"
  cr_exitCode :: int
  cr_stdoutTail :: units
  cr_stderrTail :: units
  cr_durationMs :: nat

text \<open>\<open>Buffer.byteLength(text, "utf8")\<close>: a surrogate pair takes four bytes, a lone surrogate three.\<close>

fun utf8_length :: "units \<Rightarrow> nat" where
  "utf8_length [] = 0"
| "utf8_length (u # s) =
    (if u < 0x80 then 1 + utf8_length s
     else if u < 0x800 then 2 + utf8_length s
     else case s of
            v # t \<Rightarrow> if 0xD800 \<le> u \<and> u \<le> 0xDBFF \<and> 0xDC00 \<le> v \<and> v \<le> 0xDFFF then 4 + utf8_length t else 3 + utf8_length s
          | [] \<Rightarrow> 3)"

definition TRUNCATED_EXIT_CODE :: int where
  "TRUNCATED_EXIT_CODE = - 2"

datatype verification_error = TruncatedOutput units int | SandboxFailed units

text \<open>\<open>truncationOf\<close>: \<open>throws\<close> is \<open>onTruncated: "throw"\<close>; a limit of 0 or less turns the check off.\<close>

definition truncationOf :: "int \<Rightarrow> bool \<Rightarrow> command_spec \<Rightarrow> units \<Rightarrow> units \<Rightarrow> verification_error + command_result option" where
  "truncationOf limit throws spec out err =
    (if limit \<le> 0 then Inr None
     else if int (utf8_length out) < limit \<and> int (utf8_length err) < limit then Inr None
     else if throws then Inl (TruncatedOutput (cs_name spec) limit)
     else Inr (Some \<lparr>cr_name = cs_name spec, cr_command = cs_command spec, cr_exitCode = TRUNCATED_EXIT_CODE,
       cr_stdoutTail = out,
       cr_stderrTail = err @ [0x0A] @ asc ''[maestro] output reached the '' @ asc (dec (nat limit)) @
         asc ''-byte tail budget and was truncated; this result cannot be read as a pass (see TruncatedOutputError)'',
       cr_durationMs = 0\<rparr>))"

text \<open>
  \<open>SandboxVerificationRunner.run\<close>: the command line given to the sandbox, then the verdict on what
  it returned; \<open>elapsed\<close> is the wall clock when the sandbox reports no duration.
\<close>

record sandbox_result =
  sb_exitCode :: int
  sb_stdoutTail :: units
  sb_stderrTail :: units
  sb_durationMs :: nat

definition sandbox_command :: "units \<Rightarrow> command_spec \<Rightarrow> units list" where
  "sandbox_command workspacePath spec =
    [asc ''sh'', asc ''-c'', asc ''cd \"$0\" && exec \"$@\"'', workspacePath] @ cs_command spec"

definition verification_run :: "(units list \<Rightarrow> verification_error + sandbox_result) \<Rightarrow> int \<Rightarrow> bool \<Rightarrow> nat \<Rightarrow>
  units \<Rightarrow> command_spec \<Rightarrow> verification_error + command_result" where
  "verification_run sandbox limit throws elapsed workspacePath spec =
    (case sandbox (sandbox_command workspacePath spec) of
       Inl e \<Rightarrow> Inl e
     | Inr r \<Rightarrow>
       (case truncationOf limit throws spec (sb_stdoutTail r) (sb_stderrTail r) of
          Inl e \<Rightarrow> Inl e
        | Inr (Some t) \<Rightarrow> Inr t
        | Inr None \<Rightarrow> Inr \<lparr>cr_name = cs_name spec, cr_command = cs_command spec, cr_exitCode = sb_exitCode r,
            cr_stdoutTail = sb_stdoutTail r, cr_stderrTail = sb_stderrTail r,
            cr_durationMs = (if 0 < sb_durationMs r then sb_durationMs r else elapsed)\<rparr>))"

text \<open>Every command in order, a red one included; what throws stops the list.\<close>

fun runVerification :: "(command_spec \<Rightarrow> verification_error + command_result) \<Rightarrow> command_spec list \<Rightarrow>
  verification_error + command_result list" where
  "runVerification run [] = Inr []"
| "runVerification run (spec # specs) =
    (case run spec of
       Inl e \<Rightarrow> Inl e
     | Inr r \<Rightarrow> map_sum id ((#) r) (runVerification run specs))"

definition verificationFailures :: "command_result list \<Rightarrow> command_result list" where
  "verificationFailures results = filter (\<lambda>r. cr_exitCode r \<noteq> 0) results"

record diff_summary =
  ds_files :: nat
  ds_insertions :: int
  ds_deletions :: int

definition summarizeDiff :: "changed_file list \<Rightarrow> diff_summary" where
  "summarizeDiff files =
    \<lparr>ds_files = length files, ds_insertions = (\<Sum>f\<leftarrow>files. cf_insertions f), ds_deletions = (\<Sum>f\<leftarrow>files. cf_deletions f)\<rparr>"

subsection \<open>The turn\<close>

record turn_request =
  tr_runId :: string
  tr_ticketKey :: string
  tr_workspacePath :: units
  tr_protectedPaths :: "units list"
  tr_dataClass :: data_class
  tr_resume :: bool
  tr_verification :: "command_spec list"

datatype session_outcome =
    SessionOk (resumeToken: string) (finalText: units)
  | SessionQueued nat
  | SessionDegraded string
  | SessionBlocked string

record session_report =
  rp_runId :: string
  rp_ticketKey :: string
  rp_resumeToken :: string
  rp_workspacePath :: units
  rp_finalText :: units
  rp_changedFiles :: "changed_file list"
  rp_diff :: diff_summary
  rp_commands :: "command_result list"
  rp_protectedViolations :: "violation list"
  rp_strikes :: "strike_state option"
  rp_at :: nat

datatype failure_reason = ProtectedPath | Verification

datatype turn_result =
    TurnOk session_report
  | TurnFailed failure_reason session_report handover_decision
  | TurnQueued nat
  | TurnDegraded string
  | TurnBlocked string

datatype turn_error =
    PathRejected path_error
  | ProbeFailed units
  | CommandFailed verification_error
  | DataClassChanged string data_class data_class
  | JournalFailed units

text \<open>
  What the turn calls: the session, the probe's two readings, the runner of one command, the
  fingerprint of a set of failures, the journal's sink, the clock, \<open>normalize("NFC")\<close>.
\<close>

record turn_deps =
  td_session :: "turn_request \<Rightarrow> session_outcome"
  td_changed :: "units + changed_file list"
  td_internal :: "units + changed_file list"
  td_run :: "command_spec \<Rightarrow> verification_error + command_result"
  td_fingerprint :: "(units \<times> int \<times> units) list \<Rightarrow> string"
  td_sink :: "data_class \<Rightarrow> session_report \<Rightarrow> units option"
  td_now :: nat
  td_nfc :: "units \<Rightarrow> units"
  td_maxOpenRuns :: nat

definition DEFAULT_MAX_OPEN_RUNS :: nat where
  "DEFAULT_MAX_OPEN_RUNS = 8"

text \<open>The instance: its ledger and the open journals, oldest first.\<close>

record 'l execution =
  ex_ledger :: 'l
  ex_journals :: "(string \<times> data_class) list"

definition protected_key :: "string \<Rightarrow> strike_key" where
  "protected_key runId = \<lparr>sk_runId = runId, sk_scope = AgentScope, sk_ref = ''protected_path''\<rparr>"

definition inspect :: "turn_deps \<Rightarrow> turn_error + changed_file list" where
  "inspect D =
    (case (td_changed D, td_internal D) of
       (Inl e, _) \<Rightarrow> Inl (ProbeFailed e)
     | (_, Inl e) \<Rightarrow> Inl (ProbeFailed e)
     | (Inr tracked, Inr internal) \<Rightarrow> Inr (tracked @ internal))"

text \<open>\<open>xs.join(sep)\<close>\<close>

fun join_units :: "units \<Rightarrow> units list \<Rightarrow> units" where
  "join_units sep [] = []"
| "join_units sep [x] = x"
| "join_units sep (x # xs) = x @ sep @ join_units sep xs"

definition int_units :: "int \<Rightarrow> units" where
  "int_units i = (if i < 0 then asc ''-'' else []) @ asc (dec (nat \<bar>i\<bar>))"

definition violation_reason :: "violation list \<Rightarrow> units" where
  "violation_reason vs = join_units (asc '', '') (map (\<lambda>v. pv_path v @ asc '' ('' @ pv_pattern v @ asc '')'') vs)"

definition failure_text :: "command_result list \<Rightarrow> units" where
  "failure_text fs = join_units (asc '', '') (map (\<lambda>f. cr_name f @ asc '' exited '' @ int_units (cr_exitCode f)) fs)"

definition failure_input :: "command_result \<Rightarrow> units \<times> int \<times> units" where
  "failure_input f = (cr_name f, cr_exitCode f, cr_stderrTail f @ [0x0A] @ cr_stdoutTail f)"

text \<open>The ledger call \<open>judge\<close> makes, and the reason it fails the turn with.\<close>

definition judge_call :: "turn_deps \<Rightarrow> string \<Rightarrow> violation list \<Rightarrow> command_result list \<Rightarrow> failure_reason option \<times> strike_call" where
  "judge_call D runId violations commands =
    (if violations \<noteq> [] then (Some ProtectedPath, Record (protected_key runId) (violation_reason violations) (td_now D))
     else
       let failures = verificationFailures commands
       in if failures \<noteq> [] then
            (Some Verification,
             Record \<lparr>sk_runId = runId, sk_scope = CiScope, sk_ref = td_fingerprint D (map failure_input failures)\<rparr>
               (failure_text failures) (td_now D))
          else (None, Clear (protected_key runId)))"

definition judge ::
  "(strike_key \<Rightarrow> units \<Rightarrow> nat \<Rightarrow> 'l \<Rightarrow> strike_state \<times> 'l) \<Rightarrow> (strike_key \<Rightarrow> 'l \<Rightarrow> 'l) \<Rightarrow> turn_deps \<Rightarrow>
   string \<Rightarrow> violation list \<Rightarrow> command_result list \<Rightarrow> 'l execution \<Rightarrow>
   (failure_reason \<times> strike_state \<times> handover_decision) option \<times> 'l execution" where
  "judge rec clr D runId violations commands x =
    (case judge_call D runId violations commands of
       (why, Record k reason at) \<Rightarrow>
         (case rec k reason at (ex_ledger x) of
            (s, l') \<Rightarrow> (map_option (\<lambda>r. (r, s, handoverDecision s)) why, x\<lparr>ex_ledger := l'\<rparr>))
     | (why, Clear k) \<Rightarrow> (None, x\<lparr>ex_ledger := clr k (ex_ledger x)\<rparr>))"

text \<open>Oldest journals go first while there are too many.\<close>

definition evictIdleRuns :: "nat \<Rightarrow> (string \<times> data_class) list \<Rightarrow> (string \<times> data_class) list" where
  "evictIdleRuns limit js = drop (length js - limit) js"

definition publish :: "turn_deps \<Rightarrow> session_report \<Rightarrow> data_class \<Rightarrow> 'l execution \<Rightarrow> turn_error option \<times> 'l execution" where
  "publish D report dc x =
    (let runId = rp_runId report
     in case map_of (ex_journals x) runId of
          Some old \<Rightarrow>
            if old \<noteq> dc then (Some (DataClassChanged runId old dc), x)
            else (map_option JournalFailed (td_sink D old report),
                  x\<lparr>ex_journals := AList.delete runId (ex_journals x) @ [(runId, old)]\<rparr>)
        | None \<Rightarrow>
            (map_option JournalFailed (td_sink D dc report),
             x\<lparr>ex_journals := evictIdleRuns (td_maxOpenRuns D) (ex_journals x @ [(runId, dc)])\<rparr>))"

definition endRun :: "string \<Rightarrow> 'l execution \<Rightarrow> 'l execution" where
  "endRun runId x = x\<lparr>ex_journals := AList.delete runId (ex_journals x)\<rparr>"

text \<open>The prompt of a new session lists the effective patterns, so a pattern that does not compile stops it first.\<close>

definition prompt_ready :: "turn_deps \<Rightarrow> turn_request \<Rightarrow> turn_error + unit" where
  "prompt_ready D req =
    (if tr_resume req then Inr ()
     else map_sum PathRejected (\<lambda>_. ()) (createProtectedPathMatcher (td_nfc D) (tr_protectedPaths req)))"

text \<open>What the session left behind, checked: the changes, the violations, the commands run.\<close>

definition examine :: "turn_deps \<Rightarrow> turn_request \<Rightarrow> turn_error + changed_file list \<times> violation list \<times> command_result list" where
  "examine D req =
    (case inspect D of
       Inl e \<Rightarrow> Inl e
     | Inr changed \<Rightarrow>
       (case createProtectedPathMatcher (td_nfc D) (tr_protectedPaths req) of
          Inl e \<Rightarrow> Inl (PathRejected e)
        | Inr m \<Rightarrow>
          (case findProtectedViolations (td_nfc D) m changed of
             Inl e \<Rightarrow> Inl (PathRejected e)
           | Inr violations \<Rightarrow>
             (case (if violations \<noteq> [] then Inr [] else runVerification (td_run D) (tr_verification req)) of
                Inl e \<Rightarrow> Inl (CommandFailed e)
              | Inr commands \<Rightarrow> Inr (changed, violations, commands)))))"

definition runTurn ::
  "(strike_key \<Rightarrow> units \<Rightarrow> nat \<Rightarrow> 'l \<Rightarrow> strike_state \<times> 'l) \<Rightarrow> (strike_key \<Rightarrow> 'l \<Rightarrow> 'l) \<Rightarrow> turn_deps \<Rightarrow>
   turn_request \<Rightarrow> 'l execution \<Rightarrow> (turn_error + turn_result) \<times> 'l execution" where
  "runTurn rec clr D req x =
    (case prompt_ready D req of
       Inl e \<Rightarrow> (Inl e, x)
     | Inr _ \<Rightarrow>
       (case td_session D req of
          SessionQueued at \<Rightarrow> (Inr (TurnQueued at), x)
        | SessionDegraded m \<Rightarrow> (Inr (TurnDegraded m), x)
        | SessionBlocked m \<Rightarrow> (Inr (TurnBlocked m), x)
        | SessionOk token text \<Rightarrow>
          (case examine D req of
             Inl e \<Rightarrow> (Inl e, x)
           | Inr (changed, violations, commands) \<Rightarrow>
             (case judge rec clr D (tr_runId req) violations commands x of
                (verdict, x1) \<Rightarrow>
                  let report = \<lparr>rp_runId = tr_runId req, rp_ticketKey = tr_ticketKey req, rp_resumeToken = token,
                        rp_workspacePath = tr_workspacePath req, rp_finalText = text, rp_changedFiles = changed,
                        rp_diff = summarizeDiff changed, rp_commands = commands, rp_protectedViolations = violations,
                        rp_strikes = map_option (\<lambda>(_, s, _). s) verdict, rp_at = td_now D\<rparr>
                  in case publish D report (tr_dataClass req) x1 of
                       (Some e, x2) \<Rightarrow> (Inl e, x2)
                     | (None, x2) \<Rightarrow>
                       (case verdict of
                          None \<Rightarrow> (Inr (TurnOk report), x2)
                        | Some (reason, _, h) \<Rightarrow>
                            (Inr (TurnFailed reason report h),
                             if hd_handover h then endRun (tr_runId req) x2 else x2))))))"

subsection \<open>A turn as a call of its ledger\<close>

definition turn_call :: "turn_deps \<Rightarrow> turn_request \<Rightarrow> strike_call list" where
  "turn_call D req =
    (case (prompt_ready D req, td_session D req, examine D req) of
       (Inr _, SessionOk _ _, Inr (_, violations, commands)) \<Rightarrow> [snd (judge_call D (tr_runId req) violations commands)]
     | _ \<Rightarrow> [])"

lemma publish_ledger [simp]: "ex_ledger (snd (publish D rp dc x)) = ex_ledger x"
  by (auto simp: publish_def Let_def split: option.split)

lemma endRun_ledger [simp]: "ex_ledger (endRun r x) = ex_ledger x"
  by (simp add: endRun_def)

lemma judge_ledger: "judge rec clr D r vs cs x = (v, x1) \<Longrightarrow>
    ex_ledger x1 = run_call rec clr (snd (judge_call D r vs cs)) (ex_ledger x) \<and> ex_journals x1 = ex_journals x"
  by (auto simp: judge_def split: prod.splits strike_call.splits)

text \<open>How a turn that reaches the verdict goes on.\<close>

definition verdict_report :: "turn_deps \<Rightarrow> turn_request \<Rightarrow> string \<Rightarrow> units \<Rightarrow> changed_file list \<Rightarrow> violation list \<Rightarrow>
    command_result list \<Rightarrow> strike_state option \<Rightarrow> session_report" where
  "verdict_report D req token text changed violations commands strikes =
    \<lparr>rp_runId = tr_runId req, rp_ticketKey = tr_ticketKey req, rp_resumeToken = token,
     rp_workspacePath = tr_workspacePath req, rp_finalText = text, rp_changedFiles = changed,
     rp_diff = summarizeDiff changed, rp_commands = commands, rp_protectedViolations = violations,
     rp_strikes = strikes, rp_at = td_now D\<rparr>"

lemma runTurn_examined:
  assumes "prompt_ready D req = Inr u" "td_session D req = SessionOk token said" "examine D req = Inr (ch, vs, cs)"
    "judge rec clr D (tr_runId req) vs cs x = (verdict, x1)"
    "publish D (verdict_report D req token said ch vs cs (map_option (\<lambda>(_, s, _). s) verdict)) (tr_dataClass req) x1 = (e, x2)"
  shows "runTurn rec clr D req x =
    (case e of Some e \<Rightarrow> (Inl e, x2)
     | None \<Rightarrow> (case verdict of None \<Rightarrow> (Inr (TurnOk (verdict_report D req token said ch vs cs None)), x2)
        | Some (reason, s, h) \<Rightarrow> (Inr (TurnFailed reason (verdict_report D req token said ch vs cs (Some s)) h),
             if hd_handover h then endRun (tr_runId req) x2 else x2)))"
  using assms by (auto simp: runTurn_def verdict_report_def Let_def split: option.splits)

lemma runTurn_unexamined:
  assumes "turn_call D req = []"
  shows "snd (runTurn rec clr D req x) = x \<and> (\<forall>rp. fst (runTurn rec clr D req x) \<noteq> Inr (TurnOk rp)) \<and>
    (\<forall>why rp h. fst (runTurn rec clr D req x) \<noteq> Inr (TurnFailed why rp h))"
  using assms by (auto simp: turn_call_def runTurn_def split: sum.splits session_outcome.splits)

lemma turn_examined:
  assumes "turn_call D req \<noteq> []"
  obtains u token said ch vs cs where "prompt_ready D req = Inr u" "td_session D req = SessionOk token said"
    "examine D req = Inr (ch, vs, cs)" "turn_call D req = [snd (judge_call D (tr_runId req) vs cs)]"
  using assms by (auto simp: turn_call_def split: sum.splits session_outcome.splits)

text \<open>Whatever else a turn does, its ledger sees exactly this call.\<close>

lemma turn_ledger: "ex_ledger (snd (runTurn rec clr D req x)) = fold (run_call rec clr) (turn_call D req) (ex_ledger x)"
proof (cases "turn_call D req = []")
  case True
  with runTurn_unexamined [OF this, of rec clr x] show ?thesis by simp
next
  case False
  then obtain u token said ch vs cs where t: "prompt_ready D req = Inr u" "td_session D req = SessionOk token said"
    "examine D req = Inr (ch, vs, cs)" "turn_call D req = [snd (judge_call D (tr_runId req) vs cs)]"
    by (rule turn_examined)
  obtain v x1 where j: "judge rec clr D (tr_runId req) vs cs x = (v, x1)" by fastforce
  obtain e x2 where p: "publish D (verdict_report D req token said ch vs cs (map_option (\<lambda>(_, s, _). s) v)) (tr_dataClass req) x1 = (e, x2)"
    by fastforce
  have "ex_ledger x2 = ex_ledger x1" using publish_ledger p by (metis snd_conv)
  with t(4) judge_ledger [OF j] runTurn_examined [OF t(1-3) j p] show ?thesis
    by (auto split: option.splits prod.splits)
qed

text \<open>A list of turns of one instance.\<close>

fun run_turns where
  "run_turns rec clr [] x = x"
| "run_turns rec clr ((D, req) # ts) x = run_turns rec clr ts (snd (runTurn rec clr D req x))"

lemma turns_ledger:
  "ex_ledger (run_turns rec clr ts x) = fold (run_call rec clr) (concat (map (\<lambda>(D, req). turn_call D req) ts)) (ex_ledger x)"
  by (induction rec clr ts x rule: run_turns.induct) (simp_all add: turn_ledger)

text \<open>A failing turn is the ledger's answer to its call.\<close>

lemma failed_turn:
  assumes "runTurn rec clr D req x = (Inr (TurnFailed why rp h), x')"
  obtains k reason at s l' where "turn_call D req = [Record k reason at]" "rec k reason at (ex_ledger x) = (s, l')"
    "h = handoverDecision s" "rp_strikes rp = Some s" "sk_runId k = tr_runId req"
proof -
  have "turn_call D req \<noteq> []" using runTurn_unexamined [of D req rec clr x] assms by auto
  then obtain u token said ch vs cs where t: "prompt_ready D req = Inr u" "td_session D req = SessionOk token said"
    "examine D req = Inr (ch, vs, cs)" "turn_call D req = [snd (judge_call D (tr_runId req) vs cs)]"
    by (rule turn_examined)
  obtain v x1 where j: "judge rec clr D (tr_runId req) vs cs x = (v, x1)" by fastforce
  obtain e x2 where p: "publish D (verdict_report D req token said ch vs cs (map_option (\<lambda>(_, s, _). s) v)) (tr_dataClass req) x1 = (e, x2)"
    by fastforce
  obtain s where v: "v = Some (why, s, h)" "rp = verdict_report D req token said ch vs cs (Some s)"
    using assms runTurn_examined [OF t(1-3) j p] by (auto split: option.splits prod.splits)
  obtain k reason at where c: "snd (judge_call D (tr_runId req) vs cs) = Record k reason at" "sk_runId k = tr_runId req"
    using j v by (auto simp: judge_def judge_call_def protected_key_def Let_def split: if_splits)
  obtain l' where "rec k reason at (ex_ledger x) = (s, l')" "h = handoverDecision s"
    using j v c(1) by (auto simp: judge_def split: prod.splits)
  with that t(4) c v(2) show ?thesis by (simp add: verdict_report_def)
qed

text \<open>What the parts of a turn say when they return.\<close>

lemma judge_None: "judge rec clr D r vs cs x = (None, x1) \<Longrightarrow> vs = [] \<and> verificationFailures cs = []"
  by (auto simp: judge_def judge_call_def Let_def split: if_splits prod.splits)

lemma judge_Some: "judge rec clr D r vs cs x = (Some (why, s, h), x1) \<Longrightarrow>
    why = ProtectedPath \<and> vs \<noteq> [] \<or> why = Verification \<and> vs = [] \<and> verificationFailures cs \<noteq> []"
  by (auto simp: judge_def judge_call_def Let_def split: if_splits prod.splits)

lemma runVerification_all: "runVerification run specs = Inr rs \<Longrightarrow> list_all2 (\<lambda>spec r. run spec = Inr r) specs rs"
  by (induction specs arbitrary: rs) (auto split: sum.splits simp: map_sum_def)

lemma list_all2_exit: "list_all2 (\<lambda>spec r. run spec = Inr r) specs rs \<Longrightarrow> \<forall>r \<in> set rs. P r \<Longrightarrow>
    list_all2 (\<lambda>spec r. run spec = Inr r \<and> P r) specs rs"
  by (induction specs rs rule: list_all2_induct) auto

lemma no_violations:
  assumes "findProtectedViolations nfc m fs = Inr []" "f \<in> set fs" "q \<in> set (candidates f)"
  shows "match_path nfc m q = Inr None"
proof -
  let ?rs = "concat (map (\<lambda>f. map (check_candidate nfc m (cf_status f)) (candidates f)) fs)"
  obtain vss where vss: "all_results ?rs = Inr vss" "concat vss = []"
    using assms(1) unfolding findProtectedViolations_def by (cases "all_results ?rs") auto
  have "check_candidate nfc m (cf_status f) q \<in> set ?rs" using assms(2,3) by auto
  then obtain v where "v \<in> set vss" "check_candidate nfc m (cf_status f) q = Inr v"
    using all_results_nth [OF vss(1)] by blast
  with vss(2) show ?thesis
    by (cases "match_path nfc m q") (auto simp: check_candidate_def split: option.splits)
qed

lemma examine_facts:
  assumes "examine D req = Inr (ch, vs, cs)"
  shows "inspect D = Inr ch \<and> (vs \<noteq> [] \<longrightarrow> cs = []) \<and>
    (vs = [] \<longrightarrow> (\<exists>m. createProtectedPathMatcher (td_nfc D) (tr_protectedPaths req) = Inr m \<and>
        (\<forall>f \<in> set ch. \<forall>q \<in> set (candidates f). match_path (td_nfc D) m q = Inr None)) \<and>
      list_all2 (\<lambda>spec r. td_run D spec = Inr r) (tr_verification req) cs)"
  using assms no_violations runVerification_all
  by (fastforce simp: examine_def split: sum.splits if_splits)

context strike_ledger
begin

text \<open>The hand-over of a failing turn counts what its key was told by all turns before.\<close>

lemma failed_turn_counts:
  assumes "look k l0 = None" "ex_ledger x = fold (run_call rec clr) calls l0"
    "runTurn rec clr D req x = (Inr (TurnFailed why rp h), x')" "turn_call D req = [Record k reason at]"
  shows "let seen = told k (calls @ turn_call D req) [] in
    hd_count h = length seen \<and> hd_handover h = (lim l0 \<le> length seen) \<and> hd_reasons h = slice_last (lim l0) (map fst seen)"
proof -
  obtain s l' where r: "rec k reason at (ex_ledger x) = (s, l')" "h = handoverDecision s"
    using failed_turn [OF assms(3)] assms(4) by (metis list.inject strike_call.inject(1))
  have "counted (lim l0) (told k (calls @ turn_call D req) []) (look k (fold (run_call rec clr) (calls @ turn_call D req) l0))"
    using calls_counted [of l0 "[]" k "calls @ turn_call D req"] assms(1) by (simp add: counted_def)
  moreover have "look k (fold (run_call rec clr) (calls @ turn_call D req) l0) = Some s"
    using assms(2,4) r(1) rec_look [OF r(1), of k] by simp
  ultimately show ?thesis using r(2) by (auto simp: counted_def handoverDecision_def Let_def)
qed

end

end
