(* ===== verification/Strikes_Persist.thy ===== *)
theory Strikes_Persist
  imports Strikes
begin

text \<open>
  The persistent ledger against the in-memory one: a worker runs turns, is restarted between turns and
  drops finished runs from memory; over a store that works, it answers as a ledger that never stops.
\<close>

subsection \<open>A worker's life\<close>

datatype worker_event = Turn string "strike_call list" | Restart | Forget string

text \<open>The states \<open>record\<close> returns during the calls of a turn.\<close>

fun answers :: "(strike_key \<Rightarrow> units \<Rightarrow> nat \<Rightarrow> 'l \<Rightarrow> strike_state \<times> 'l) \<Rightarrow> (strike_key \<Rightarrow> 'l \<Rightarrow> 'l) \<Rightarrow>
  strike_call list \<Rightarrow> 'l \<Rightarrow> strike_state list \<times> 'l" where
  "answers rec clr [] l = ([], l)"
| "answers rec clr (Record k reason at # cs) l =
    (case rec k reason at l of (s, l1) \<Rightarrow> (case answers rec clr cs l1 of (out, l2) \<Rightarrow> (s # out, l2)))"
| "answers rec clr (Clear k # cs) l = answers rec clr cs (clr k l)"

text \<open>A turn of \<open>SandboxAgentTurnRunner\<close>, as far as the ledger is concerned: hydrate, the calls, \<open>pendingWrites\<close>.\<close>

definition ledger_turn :: "('e, 'd) counters \<Rightarrow> string \<Rightarrow> strike_call list \<Rightarrow> pledger \<times> 'd \<Rightarrow>
  'e + strike_state list \<times> pledger \<times> 'd" where
  "ledger_turn C runId calls w =
    (case hydrate C runId (snd w) (fst w) of
       Inl e \<Rightarrow> Inl e
     | Inr p1 \<Rightarrow>
       (case answers pledger_record pledger_clear calls p1 of
          (out, p2) \<Rightarrow> (case pendingWrites C p2 (snd w) of (errs, p3, d') \<Rightarrow> Inr (out, p3, d'))))"

fun worker_runs :: "('e, 'd) counters \<Rightarrow> worker_event list \<Rightarrow> pledger \<times> 'd \<Rightarrow> 'e + strike_state list list" where
  "worker_runs C [] w = Inr []"
| "worker_runs C (Turn runId calls # es) w =
    (case ledger_turn C runId calls w of
       Inl e \<Rightarrow> Inl e
     | Inr (out, w') \<Rightarrow> map_sum id ((#) out) (worker_runs C es w'))"
| "worker_runs C (Restart # es) w =
    worker_runs C es ((fst w)\<lparr>pl_states := [], pl_loaded := {}, pl_queue := []\<rparr>, snd w)"
| "worker_runs C (Forget runId # es) w = worker_runs C es (forget runId (fst w), snd w)"

text \<open>The same calls on the in-memory ledger of a process that never stops.\<close>

fun memory_runs :: "worker_event list \<Rightarrow> ledger \<Rightarrow> strike_state list list" where
  "memory_runs [] l = []"
| "memory_runs (Turn runId calls # es) l =
    (case answers ledger_record ledger_clear calls l of (out, l') \<Rightarrow> out # memory_runs es l')"
| "memory_runs (Restart # es) l = memory_runs es l"
| "memory_runs (Forget runId # es) l = memory_runs es l"

subsection \<open>Serialised keys\<close>

definition no_nul :: "string \<Rightarrow> bool" where
  "no_nul r \<longleftrightarrow> CHR 0x00 \<notin> set r"

lemma scope_str_eq [simp]: "scope_str a = scope_str b \<longleftrightarrow> a = b"
  by (cases a; cases b) auto

lemma asScope_str [simp]: "asScope (scope_str sc) = sc"
  by (cases sc) (auto simp: asScope_def)

lemma append_Cons_eq_same: "c \<notin> set xs \<Longrightarrow> c \<notin> set ys \<Longrightarrow> xs @ c # as = ys @ c # bs \<longleftrightarrow> xs = ys \<and> as = bs"
proof (induction xs arbitrary: ys)
  case Nil
  then show ?case by (cases ys) auto
next
  case (Cons x xs)
  then show ?case by (cases ys) auto
qed

lemma serialize_eq:
  assumes "no_nul (sk_runId j)" "no_nul (sk_runId k)"
  shows "serialize j = serialize k \<longleftrightarrow> j = k"
proof -
  have sc: "CHR 0x00 \<notin> set (scope_str sc)" for sc by (cases sc) auto
  have "serialize j = serialize k \<longleftrightarrow> sk_runId j = sk_runId k \<and> scope_str (sk_scope j) @ [CHR 0x00] @ sk_ref j = scope_str (sk_scope k) @ [CHR 0x00] @ sk_ref k"
    using assms append_Cons_eq_same [of "CHR 0x00" "sk_runId j" "sk_runId k"] by (auto simp: serialize_def no_nul_def)
  also have "\<dots> \<longleftrightarrow> sk_runId j = sk_runId k \<and> sk_scope j = sk_scope k \<and> sk_ref j = sk_ref k"
    using append_Cons_eq_same [OF sc sc, of "sk_scope j" "sk_ref j" "sk_scope k" "sk_ref k"] by auto
  also have "\<dots> \<longleftrightarrow> j = k" by auto
  finally show ?thesis .
qed

lemma key_of_eq [simp]: "key_of j = key_of k \<longleftrightarrow> j = k"
  by (auto simp: key_of_def)

subsection \<open>A table that works\<close>

text \<open>
  The delegate of a reachable Postgres table with its unique key: the query returns the run's rows,
  \<open>upsert\<close> creates or updates the row, \<open>delete\<close> removes it and complains when there is none.
\<close>

definition table_works :: "('e, 'd) counters \<Rightarrow> ('d \<Rightarrow> row_ref \<Rightarrow> strike_row option) \<Rightarrow> bool" where
  "table_works C tab \<longleftrightarrow>
    (\<forall>runId d. \<exists>rows. findMany C runId d = Inr rows \<and> set rows = {r. \<exists>sc ref. tab d (runId, sc, ref) = Some r}) \<and>
    (\<forall>k r c at rs d. tab (snd (upsert C k r (c, at, rs) d)) = (tab d)(k \<mapsto>
       (case tab d k of None \<Rightarrow> r | Some old \<Rightarrow> old\<lparr>sr_count := c, sr_lastAt := at, sr_reasons := rs\<rparr>))) \<and>
    (\<forall>k d. tab (snd (delete_row C k d)) = (tab d)(k := None))"

subsection \<open>The relation\<close>

text \<open>A memory ledger as the calls leave it.\<close>

definition state_ok :: "nat \<Rightarrow> string \<Rightarrow> strike_state \<Rightarrow> bool" where
  "state_ok limit i s \<longleftrightarrow> i = serialize (ss_key s) \<and> no_nul (sk_runId (ss_key s)) \<and> ss_limit s = limit \<and>
     ss_handover s = (limit \<le> ss_count s) \<and> length (ss_reasons s) \<le> limit"

definition map_ok :: "nat \<Rightarrow> strike_map \<Rightarrow> bool" where
  "map_ok limit m \<longleftrightarrow> (\<forall>i s. map_of m i = Some s \<longrightarrow> state_ok limit i s)"

text \<open>The table holds the rows of the ledger's states and nothing else.\<close>

definition table_agrees :: "ledger \<Rightarrow> (row_ref \<Rightarrow> strike_row option) \<Rightarrow> bool" where
  "table_agrees l T \<longleftrightarrow>
    (\<forall>k. no_nul (sk_runId k) \<longrightarrow> T (key_of k) = map_option row_of_state (ledger_state k l)) \<and>
    (\<forall>rk r. T rk = Some r \<longrightarrow> (\<exists>k. no_nul (sk_runId k) \<and> rk = key_of k))"

text \<open>The persistent ledger knows exactly the loaded runs.\<close>

definition loaded_agrees :: "ledger \<Rightarrow> pledger \<Rightarrow> bool" where
  "loaded_agrees l p \<longleftrightarrow>
    pl_limit p = lg_limit l \<and> distinct (map fst (pl_states p)) \<and> map_ok (pl_limit p) (pl_states p) \<and>
    (\<forall>k. no_nul (sk_runId k) \<longrightarrow>
      pledger_state k p = (if sk_runId k \<in> pl_loaded p then ledger_state k l else None))"

definition agrees :: "('e, 'd) counters \<Rightarrow> ('d \<Rightarrow> row_ref \<Rightarrow> strike_row option) \<Rightarrow> ledger \<Rightarrow> pledger \<Rightarrow> 'd \<Rightarrow> bool" where
  "agrees C tab l p d \<longleftrightarrow> map_ok (lg_limit l) (lg_states l) \<and> loaded_agrees l p \<and>
     table_agrees l (tab (snd (drain C (pl_queue p) d)))"

lemma drain_snoc: "snd (drain C (q @ [(k, w)]) d) = snd (run_write C w (snd (drain C q d)))"
  by (induction C q d rule: drain.induct) (auto split: prod.splits)


lemma row_key_of_state [simp]: "row_key (row_of_state s) = key_of (ss_key s)"
  by (simp add: row_key_def row_of_state_def key_of_def)

lemma row_of_state_simps [simp]:
  "sr_count (row_of_state s) = ss_count s" "sr_lastAt (row_of_state s) = ss_lastAt s" "sr_reasons (row_of_state s) = ss_reasons s"
  "sr_firstAt (row_of_state s) = ss_firstAt s"
  by (simp_all add: row_of_state_def)

lemma table_upsert: "table_works C tab \<Longrightarrow> tab (snd (upsert C k r (c, at, rs) d)) = (tab d)(k \<mapsto>
    (case tab d k of None \<Rightarrow> r | Some old \<Rightarrow> old\<lparr>sr_count := c, sr_lastAt := at, sr_reasons := rs\<rparr>))"
  unfolding table_works_def by blast

lemma table_delete: "table_works C tab \<Longrightarrow> tab (snd (delete_row C k d)) = (tab d)(k := None)"
  unfolding table_works_def by blast

lemma memory_answers:
  assumes "ledger_record k reason at l = (s, l')" "map_ok (lg_limit l) (lg_states l)" "no_nul (sk_runId k)"
  shows "ss_key s = k" "ledger_state j l' = (if serialize j = serialize k then Some s else ledger_state j l)"
    "lg_limit l' = lg_limit l" "map_ok (lg_limit l') (lg_states l')" "state_ok (lg_limit l) (serialize k) s"
proof -
  note st = memory.rec_state [OF assms(1)]
  show "ss_key s = k" using st by blast
  show "ledger_state j l' = (if serialize j = serialize k then Some s else ledger_state j l)" by (rule memory.rec_look [OF assms(1)])
  show lim: "lg_limit l' = lg_limit l" by (rule memory.rec_lim [OF assms(1)])
  show ok: "state_ok (lg_limit l) (serialize k) s" using st assms(3) by (simp add: state_ok_def)
  have "map_of (lg_states l') i = (if i = serialize k then Some s else map_of (lg_states l) i)" for i
    using assms(1) by (auto simp: ledger_record_def Let_def)
  then show "map_ok (lg_limit l') (lg_states l')" using assms(2) ok unfolding lim map_ok_def by auto
qed

lemma persistent_answers:
  assumes "pledger_record k reason at p = (s, p')" "map_ok (pl_limit p) (pl_states p)" "no_nul (sk_runId k)"
    "distinct (map fst (pl_states p))"
  shows "map_ok (pl_limit p') (pl_states p')" "distinct (map fst (pl_states p'))" "pl_loaded p' = pl_loaded p"
    "pl_queue p' = pl_queue p @ [(k, Save (row_of_state s))]"
proof -
  have ok: "state_ok (pl_limit p) (serialize k) s"
    using persistent.rec_state [OF assms(1)] assms(3) by (simp add: state_ok_def)
  have "map_of (pl_states p') i = (if i = serialize k then Some s else map_of (pl_states p) i)" for i
    using assms(1) by (auto simp: pledger_record_def enqueue_def Let_def)
  then show "map_ok (pl_limit p') (pl_states p')"
    using assms(2) ok unfolding persistent.rec_lim [OF assms(1)] map_ok_def by auto
  show "distinct (map fst (pl_states p'))" "pl_loaded p' = pl_loaded p"
    "pl_queue p' = pl_queue p @ [(k, Save (row_of_state s))]"
    using assms(1,4) by (auto simp: pledger_record_def enqueue_def Let_def distinct_update)
qed

text \<open>One failure recorded on both sides.\<close>

lemma agrees_record:
  assumes W: "table_works C tab" and A: "agrees C tab l p d" and k: "no_nul (sk_runId k)" "sk_runId k \<in> pl_loaded p"
    and m: "ledger_record k reason at l = (s, l')" and q: "pledger_record k reason at p = (s', p')"
  shows "s' = s \<and> agrees C tab l' p' d \<and> pl_loaded p' = pl_loaded p"
proof -
  have ok: "map_ok (lg_limit l) (lg_states l)" "loaded_agrees l p" "table_agrees l (tab (snd (drain C (pl_queue p) d)))"
    using A by (auto simp: agrees_def)
  then have L: "pl_limit p = lg_limit l" "distinct (map fst (pl_states p))" "map_ok (pl_limit p) (pl_states p)"
    "\<And>j. no_nul (sk_runId j) \<Longrightarrow> pledger_state j p = (if sk_runId j \<in> pl_loaded p then ledger_state j l else None)"
    by (auto simp: loaded_agrees_def)
  note ma = memory_answers [OF m ok(1) k(1)] and pa = persistent_answers [OF q L(3) k(1) L(2)]
  have s: "s' = s"
    using memory.rec_state [OF m] persistent.rec_state [OF q] L(1) L(4) [OF k(1)] k(2) by simp
  have "loaded_agrees l' p'"
    unfolding loaded_agrees_def
    using L ma(2,3) pa persistent.rec_look [OF q] persistent.rec_lim [OF q] k serialize_eq s by auto
  moreover have "table_agrees l' (tab (snd (drain C (pl_queue p') d)))"
  proof -
    let ?T = "tab (snd (drain C (pl_queue p) d))"
    have old: "?T (key_of k) = map_option row_of_state (ledger_state k l)" using ok(3) k(1) by (simp add: table_agrees_def)
    have "tab (snd (drain C (pl_queue p') d)) = ?T(key_of k \<mapsto> row_of_state s)"
    proof -
      have "row_of_state o'\<lparr>sr_count := ss_count s, sr_lastAt := ss_lastAt s, sr_reasons := ss_reasons s\<rparr> = row_of_state s"
        if "ledger_state k l = Some o'" for o'
      proof -
        have "ss_key o' = k"
          using that ok(1) k(1) serialize_eq [of "ss_key o'" k] by (auto simp: map_ok_def state_ok_def ledger_state_def)
        then show ?thesis using memory.rec_state [OF m] that by (simp add: row_of_state_def)
      qed
      then have "(case ?T (key_of k) of None \<Rightarrow> row_of_state s
          | Some o' \<Rightarrow> o'\<lparr>sr_count := ss_count s, sr_lastAt := ss_lastAt s, sr_reasons := ss_reasons s\<rparr>) = row_of_state s"
        unfolding old by (cases "ledger_state k l") simp_all
      then show ?thesis
        unfolding pa(4) drain_snoc s by (simp add: store_save_def ma(1) table_upsert [OF W])
    qed
    then show ?thesis using ok(3) k(1) ma(2) serialize_eq by (auto simp: table_agrees_def)
  qed
  ultimately show ?thesis using s ma(4) pa(3) by (simp add: agrees_def)
qed

lemma agrees_clear:
  assumes W: "table_works C tab" and A: "agrees C tab l p d" and k: "no_nul (sk_runId k)"
  shows "agrees C tab (ledger_clear k l) (pledger_clear k p) d \<and> pl_loaded (pledger_clear k p) = pl_loaded p"
proof -
  have ok: "map_ok (lg_limit l) (lg_states l)" "loaded_agrees l p" "table_agrees l (tab (snd (drain C (pl_queue p) d)))"
    using A by (auto simp: agrees_def)
  have "map_ok (lg_limit (ledger_clear k l)) (lg_states (ledger_clear k l))"
    using ok(1) by (auto simp: ledger_clear_def map_ok_def)
  moreover have "loaded_agrees (ledger_clear k l) (pledger_clear k p)"
    using ok(2) memory.clr_look [of _ k l] persistent.clr_look [of _ k p]
    by (auto simp: loaded_agrees_def pledger_clear_def ledger_clear_def enqueue_def map_ok_def distinct_delete pledger_state_def ledger_state_def)
  moreover have "table_agrees (ledger_clear k l) (tab (snd (drain C (pl_queue (pledger_clear k p)) d)))"
  proof -
    have "tab (snd (drain C (pl_queue (pledger_clear k p)) d)) = (tab (snd (drain C (pl_queue p) d)))(key_of k := None)"
      by (simp add: pledger_clear_def enqueue_def drain_snoc store_remove_def table_delete [OF W])
    then show ?thesis using ok(3) k memory.clr_look serialize_eq by (auto simp: table_agrees_def)
  qed
  ultimately show ?thesis by (simp add: agrees_def pledger_clear_def enqueue_def)
qed

subsection \<open>A turn\<close>

definition call_of_run :: "string \<Rightarrow> strike_call \<Rightarrow> bool" where
  "call_of_run runId c \<longleftrightarrow> (case c of Record k _ _ \<Rightarrow> sk_runId k = runId | Clear k \<Rightarrow> sk_runId k = runId)"

lemma agrees_answers:
  assumes "table_works C tab" "agrees C tab l p d" "no_nul runId" "runId \<in> pl_loaded p" "list_all (call_of_run runId) cs"
    "answers ledger_record ledger_clear cs l = (out, l')" "answers pledger_record pledger_clear cs p = (out', p')"
  shows "out' = out \<and> agrees C tab l' p' d"
  using assms(2,4-)
proof (induction cs arbitrary: l p out out')
  case (Cons c cs)
  show ?case
  proof (cases c)
    case (Record k reason at)
    obtain s l1 where m: "ledger_record k reason at l = (s, l1)" by fastforce
    obtain s' p1 where q: "pledger_record k reason at p = (s', p1)" by fastforce
    from Cons.prems(3) Record have k: "sk_runId k = runId" by (simp add: call_of_run_def)
    have r: "s' = s" "agrees C tab l1 p1 d" "pl_loaded p1 = pl_loaded p"
      using agrees_record [OF assms(1) Cons.prems(1) _ _ m q] assms(3) Cons.prems(2) k by auto
    obtain o1 where o1: "answers ledger_record ledger_clear cs l1 = (o1, l')" "out = s # o1"
      using Cons.prems(4) Record m by (auto split: prod.splits)
    obtain o2 where o2: "answers pledger_record pledger_clear cs p1 = (o2, p')" "out' = s' # o2"
      using Cons.prems(5) Record q by (auto split: prod.splits)
    show ?thesis using Cons.IH [OF r(2) _ _ o1(1) o2(1)] r Cons.prems(2,3) o1(2) o2(2) by simp
  next
    case (Clear k)
    from Cons.prems(3) Clear have k: "sk_runId k = runId" by (simp add: call_of_run_def)
    have r: "agrees C tab (ledger_clear k l) (pledger_clear k p) d" "pl_loaded (pledger_clear k p) = pl_loaded p"
      using agrees_clear [OF assms(1) Cons.prems(1), of k] assms(3) k by auto
    show ?thesis using Cons.IH [OF r(1)] r(2) Cons.prems Clear by simp
  qed
qed simp

definition row_id :: "strike_row \<Rightarrow> strike_key" where
  "row_id r = \<lparr>sk_runId = sr_runId r, sk_scope = asScope (sr_scope r), sk_ref = sr_ref r\<rparr>"

definition row_state :: "nat \<Rightarrow> strike_row \<Rightarrow> strike_state" where
  "row_state limit r = toState limit (row_id r) (sr_count r) (sr_firstAt r) (sr_lastAt r) (sr_reasons r)"

lemma hydrate_row_alt: "hydrate_row limit r m = (if map_of m (serialize (row_id r)) \<noteq> None then m
    else AList.update (serialize (row_id r)) (row_state limit r) m)"
  by (simp add: hydrate_row_def row_id_def row_state_def Let_def)

lemma hydrated_lookup: "map_of (fold (hydrate_row limit) rows m) i =
    (case map_of m i of Some s \<Rightarrow> Some s | None \<Rightarrow> map_of (map (\<lambda>r. (serialize (row_id r), row_state limit r)) rows) i)"
  by (induction rows arbitrary: m) (auto simp: hydrate_row_alt split: option.splits)

lemma hydrated_distinct: "distinct (map fst m) \<Longrightarrow> distinct (map fst (fold (hydrate_row limit) rows m))"
  by (induction rows arbitrary: m) (auto simp: hydrate_row_alt distinct_update)

lemma row_id_of_state [simp]: "row_id (row_of_state s) = ss_key s"
  by (simp add: row_id_def row_of_state_def)

lemma row_state_of_state: "state_ok limit i s \<Longrightarrow> row_state limit (row_of_state s) = s"
  by (simp add: row_state_def state_ok_def toState_def)

lemma agrees_hydrate:
  assumes W: "table_works C tab" and A: "agrees C tab l p d" and q: "pl_queue p = []" and run: "no_nul runId"
  obtains p1 where "hydrate C runId d p = Inr p1" "agrees C tab l p1 d" "runId \<in> pl_loaded p1"
proof (cases "runId \<in> pl_loaded p")
  case True
  with that A show ?thesis by (simp add: hydrate_def)
next
  case False
  obtain rows where rows: "findMany C runId d = Inr rows"
    "set rows = {r. \<exists>sc ref. tab d (runId, sc, ref) = Some r}" using W unfolding table_works_def by blast
  have ok: "map_ok (lg_limit l) (lg_states l)" "loaded_agrees l p" "table_agrees l (tab d)"
    using A q by (auto simp: agrees_def)
  then have L: "pl_limit p = lg_limit l" "distinct (map fst (pl_states p))" "map_ok (pl_limit p) (pl_states p)"
    "\<And>j. no_nul (sk_runId j) \<Longrightarrow> pledger_state j p = (if sk_runId j \<in> pl_loaded p then ledger_state j l else None)"
    by (auto simp: loaded_agrees_def)
  define al where "al = map (\<lambda>r. (serialize (row_id r), row_state (pl_limit p) r)) rows"
  have held: "\<exists>s. ledger_state (ss_key s) l = Some s \<and> sk_runId (ss_key s) = runId \<and> x = (serialize (ss_key s), s) \<and>
      state_ok (lg_limit l) (serialize (ss_key s)) s" if "x \<in> set al" for x
  proof -
    from that obtain r where r: "r \<in> set rows" "x = (serialize (row_id r), row_state (pl_limit p) r)" by (auto simp: al_def)
    then obtain sc ref where t: "tab d (runId, sc, ref) = Some r" using rows(2) by blast
    then obtain k where k: "no_nul (sk_runId k)" "(runId, sc, ref) = key_of k" using ok(3) unfolding table_agrees_def by blast
    then have "map_option row_of_state (ledger_state k l) = Some r" using t ok(3) unfolding table_agrees_def by metis
    then obtain s where s: "ledger_state k l = Some s" "r = row_of_state s" by auto
    then have so: "state_ok (lg_limit l) (serialize k) s" using ok(1) by (simp add: map_ok_def ledger_state_def)
    then have "ss_key s = k" using serialize_eq [OF k(1), of "ss_key s"] by (simp add: state_ok_def)
    with s so k(2) r(2) L(1) show ?thesis by (auto simp: row_state_of_state key_of_def)
  qed
  have there: "(serialize k, s) \<in> set al" if "ledger_state k l = Some s" "sk_runId k = runId" for k s
  proof -
    have so: "state_ok (lg_limit l) (serialize k) s" using that(1) ok(1) by (simp add: map_ok_def ledger_state_def)
    then have key: "ss_key s = k" using serialize_eq [of "ss_key s" k] that(2) run by (simp add: state_ok_def)
    have "tab d (key_of k) = Some (row_of_state s)" using ok(3) that run by (simp add: table_agrees_def)
    then have "row_of_state s \<in> set rows" using rows(2) that(2) by (auto simp: key_of_def)
    with key so L(1) show ?thesis unfolding al_def by (force simp: row_state_of_state)
  qed
  have al: "map_of al (serialize k) = (if sk_runId k = runId then ledger_state k l else None)" if "no_nul (sk_runId k)" for k
  proof -
    have "sk_runId k = runId \<and> ledger_state k l = Some s" if "(serialize k, s) \<in> set al" for s
      using held [OF that] serialize_eq [of k "ss_key s"] \<open>no_nul (sk_runId k)\<close> run by auto
    then have some: "map_of al (serialize k) = Some s \<Longrightarrow> sk_runId k = runId \<and> ledger_state k l = Some s" for s
      by (blast dest: map_of_SomeD)
    have none: "map_of al (serialize k) \<noteq> None" if "ledger_state k l = Some s" "sk_runId k = runId" for s
      using there [OF that] weak_map_of_SomeI [of "serialize k" s al] by auto
    show ?thesis
      by (cases "map_of al (serialize k)"; cases "ledger_state k l") (use some none in auto)
  qed
  let ?m = "fold (hydrate_row (pl_limit p)) rows (pl_states p)"
  have look: "map_of ?m i = (case map_of (pl_states p) i of Some s \<Rightarrow> Some s | None \<Rightarrow> map_of al i)" for i
    unfolding al_def by (rule hydrated_lookup)
  let ?p1 = "p\<lparr>pl_loaded := insert runId (pl_loaded p), pl_states := ?m\<rparr>"
  have "state_ok (pl_limit p) i s" if "map_of ?m i = Some s" for i s
  proof (cases "map_of (pl_states p) i")
    case None
    then have "(i, s) \<in> set al" using that by (simp add: look map_of_SomeD)
    from held [OF this] L(1) show ?thesis by auto
  next
    case (Some s')
    then show ?thesis using that L(3) by (simp add: look map_ok_def)
  qed
  then have "map_ok (pl_limit p) ?m" unfolding map_ok_def by blast
  moreover have "pledger_state k ?p1 = (if sk_runId k \<in> insert runId (pl_loaded p) then ledger_state k l else None)"
    if "no_nul (sk_runId k)" for k
    using L(4) [OF that] al [OF that] False by (auto simp: pledger_state_def look split: option.splits if_splits)
  ultimately have "loaded_agrees l ?p1" using L(1) hydrated_distinct [OF L(2)] by (simp add: loaded_agrees_def)
  then have "agrees C tab l ?p1 d" using A by (simp add: agrees_def)
  then show ?thesis using that [of ?p1] rows(1) False by (simp add: hydrate_def store_load_def)
qed

text \<open>A turn returns the same states on both sides, and leaves nothing queued.\<close>

lemma agrees_turn:
  assumes "table_works C tab" "agrees C tab l p d" "pl_queue p = []" "no_nul runId" "list_all (call_of_run runId) cs"
    "answers ledger_record ledger_clear cs l = (out, l')"
  obtains p' d' where "ledger_turn C runId cs (p, d) = Inr (out, p', d')" "agrees C tab l' p' d'" "pl_queue p' = []"
proof -
  obtain p1 where p1: "hydrate C runId d p = Inr p1" "agrees C tab l p1 d" "runId \<in> pl_loaded p1"
    using agrees_hydrate [OF assms(1-4)] by blast
  obtain out' p2 where p2: "answers pledger_record pledger_clear cs p1 = (out', p2)" by fastforce
  have eq: "out' = out" "agrees C tab l' p2 d" using agrees_answers [OF assms(1) p1(2) assms(4) p1(3) assms(5,6) p2] by auto
  obtain errs d' where dr: "drain C (pl_queue p2) d = (errs, d')" by fastforce
  have "agrees C tab l' (p2\<lparr>pl_queue := []\<rparr>) d'"
    using eq(2) dr by (auto simp: agrees_def loaded_agrees_def pledger_state_def)
  then show ?thesis using that [of "p2\<lparr>pl_queue := []\<rparr>" d'] p1(1) p2 eq(1) dr by (simp add: ledger_turn_def pendingWrites_def)
qed

lemma agrees_restart:
  "agrees C tab l p d \<Longrightarrow> pl_queue p = [] \<Longrightarrow> agrees C tab l (p\<lparr>pl_states := [], pl_loaded := {}, pl_queue := []\<rparr>) d"
  by (simp add: agrees_def loaded_agrees_def map_ok_def pledger_state_def)

lemma lookup_filter: "distinct (map fst al) \<Longrightarrow>
    map_of (filter (\<lambda>(i, s). P s) al) i = (case map_of al i of None \<Rightarrow> None | Some s \<Rightarrow> if P s then Some s else None)"
  by (induction al) (auto simp: map_of_eq_None_iff split: option.splits)

lemma agrees_forget:
  assumes "agrees C tab l p d"
  shows "agrees C tab l (forget runId p) d"
proof -
  have ok: "map_ok (lg_limit l) (lg_states l)" "loaded_agrees l p"
    using assms by (auto simp: agrees_def)
  then have L: "pl_limit p = lg_limit l" "distinct (map fst (pl_states p))" "map_ok (pl_limit p) (pl_states p)"
    "\<And>j. no_nul (sk_runId j) \<Longrightarrow> pledger_state j p = (if sk_runId j \<in> pl_loaded p then ledger_state j l else None)"
    by (auto simp: loaded_agrees_def)
  have look: "map_of (pl_states (forget runId p)) i =
      (case map_of (pl_states p) i of None \<Rightarrow> None | Some s \<Rightarrow> if sk_runId (ss_key s) \<noteq> runId then Some s else None)" for i
    using lookup_filter [OF L(2), of "\<lambda>s. sk_runId (ss_key s) \<noteq> runId" i] by (simp add: forget_def)
  have key: "sk_runId (ss_key s) = sk_runId k" if "map_of (pl_states p) (serialize k) = Some s" "no_nul (sk_runId k)" for k s
    using that L(3) serialize_eq [of "ss_key s" k] by (auto simp: map_ok_def state_ok_def)
  have "distinct (map fst (pl_states (forget runId p)))"
    using L(2) by (simp add: forget_def distinct_map_filter)
  moreover have "map_ok (pl_limit p) (pl_states (forget runId p))"
    using L(3) by (auto simp: map_ok_def look split: option.splits if_splits)
  moreover have "pledger_state k (forget runId p) = (if sk_runId k \<in> pl_loaded (forget runId p) then ledger_state k l else None)"
    if "no_nul (sk_runId k)" for k
    using L(4) [OF that] key [OF _ that] unfolding pledger_state_def look
    by (auto simp: forget_def ledger_state_def split: option.splits if_splits)
  ultimately have "loaded_agrees l (forget runId p)" using L(1) by (simp add: loaded_agrees_def forget_def)
  then show ?thesis using assms by (simp add: agrees_def forget_def)
qed

text \<open>The runs a worker handles: each turn calls its own run's counters, and no run id has a NUL.\<close>

definition event_ok :: "worker_event \<Rightarrow> bool" where
  "event_ok e \<longleftrightarrow> (case e of Turn runId calls \<Rightarrow> no_nul runId \<and> list_all (call_of_run runId) calls | _ \<Rightarrow> True)"

lemma worker_simulates:
  "table_works C tab \<Longrightarrow> agrees C tab l p d \<Longrightarrow> pl_queue p = [] \<Longrightarrow> list_all event_ok es \<Longrightarrow>
   worker_runs C es (p, d) = Inr (memory_runs es l)"
proof (induction es arbitrary: l p d)
  case (Cons e es)
  show ?case
  proof (cases e)
    case (Turn runId calls)
    obtain out l' where m: "answers ledger_record ledger_clear calls l = (out, l')" by fastforce
    obtain p' d' where "ledger_turn C runId calls (p, d) = Inr (out, p', d')" "agrees C tab l' p' d'" "pl_queue p' = []"
      using agrees_turn [OF Cons.prems(1-3) _ _ m, of runId] Cons.prems(4) Turn by (auto simp: event_ok_def)
    with Cons.IH [of l' p' d'] Cons.prems(1,4) Turn m show ?thesis by simp
  next
    case Restart
    with Cons.IH [OF Cons.prems(1) agrees_restart [OF Cons.prems(2,3)]] Cons.prems(4) show ?thesis by simp
  next
    case (Forget runId)
    with Cons.IH [OF Cons.prems(1) agrees_forget [OF Cons.prems(2)], of runId] Cons.prems(3,4) show ?thesis
      by (simp add: forget_def)
  qed
qed simp

end
