(* ===== verification/Exec_Props.thy ===== *)
theory Exec_Props
  imports Agent_Turn Strikes_Persist Paths_Match
begin

text \<open>
  The properties of an agent turn and of its strike ledger: what each verdict means for the changes
  and the commands, when a run is handed to a human, that a restart forgets nothing, and that the
  open journals stay bounded and keep their data class.
\<close>

text \<open>
  C26: a turn is reported as good only when the working copy could be read, no change (destination or
  origin of a rename) matches a protected pattern, and every command of the request ran, in order,
  and exited with 0. A turn failed for a protected path ran no command; one failed for verification
  touched nothing protected and ran every command, at least one of them red.
\<close>

theorem turn_verdict:
  assumes "runTurn rec clr D req x = (Inr res, x')"
  shows "case res of
      TurnOk rp \<Rightarrow>
        (\<exists>m. createProtectedPathMatcher (td_nfc D) (tr_protectedPaths req) = Inr m \<and>
          (\<forall>f \<in> set (rp_changedFiles rp). \<forall>q \<in> set (candidates f). match_path (td_nfc D) m q = Inr None)) \<and>
        list_all2 (\<lambda>spec r. td_run D spec = Inr r \<and> cr_exitCode r = 0) (tr_verification req) (rp_commands rp) \<and>
        inspect D = Inr (rp_changedFiles rp)
    | TurnFailed ProtectedPath rp h \<Rightarrow> rp_protectedViolations rp \<noteq> [] \<and> rp_commands rp = [] \<and> inspect D = Inr (rp_changedFiles rp)
    | TurnFailed Verification rp h \<Rightarrow>
        rp_protectedViolations rp = [] \<and> inspect D = Inr (rp_changedFiles rp) \<and>
        list_all2 (\<lambda>spec r. td_run D spec = Inr r) (tr_verification req) (rp_commands rp) \<and>
        (\<exists>r \<in> set (rp_commands rp). cr_exitCode r \<noteq> 0)
    | _ \<Rightarrow> x' = x"
proof (cases "turn_call D req = []")
  case True
  from runTurn_unexamined [OF this, of rec clr x] assms show ?thesis by (cases res) auto
next
  case False
  then obtain u token said ch vs cs where t: "prompt_ready D req = Inr u" "td_session D req = SessionOk token said"
    "examine D req = Inr (ch, vs, cs)" "turn_call D req = [snd (judge_call D (tr_runId req) vs cs)]"
    by (rule turn_examined)
  obtain v x1 where j: "judge rec clr D (tr_runId req) vs cs x = (v, x1)" by fastforce
  obtain e x2 where p: "publish D (verdict_report D req token said ch vs cs (map_option (\<lambda>(_, s, _). s) v)) (tr_dataClass req) x1 = (e, x2)"
    by fastforce
  note run = runTurn_examined [OF t(1-3) j p]
  note ex = examine_facts [OF t(3)]
  show ?thesis
  proof (cases v)
    case None
    then have "vs = []" "verificationFailures cs = []" using j judge_None by blast+
    moreover have "\<forall>r \<in> set cs. cr_exitCode r = 0"
      using calculation(2) by (simp add: verificationFailures_def filter_empty_conv)
    ultimately show ?thesis
      using None run assms ex list_all2_exit [of "td_run D" "tr_verification req" cs "\<lambda>r. cr_exitCode r = 0"]
      by (auto split: option.splits simp: verdict_report_def)
  next
    case (Some w)
    obtain why s h where w: "w = (why, s, h)" by (cases w)
    have "why = ProtectedPath \<and> vs \<noteq> [] \<or> why = Verification \<and> vs = [] \<and> verificationFailures cs \<noteq> []"
      using j Some w by (auto simp: judge_Some)
    with Some w run assms ex show ?thesis
      by (auto split: option.splits simp: verdict_report_def verificationFailures_def filter_empty_conv)
  qed
qed

definition quiet_deps :: turn_deps where
  "quiet_deps =
    \<lparr>td_session = (\<lambda>_. SessionOk ''token'' (asc ''did it'')), td_changed = Inr [plain_file (asc ''src/a.ts'') Modified None],
     td_internal = Inr [], td_run = (\<lambda>spec. Inr \<lparr>cr_name = cs_name spec, cr_command = cs_command spec,
       cr_exitCode = (if cs_name spec = asc ''lint'' then 0 else 1), cr_stdoutTail = [], cr_stderrTail = [], cr_durationMs = 5\<rparr>),
     td_fingerprint = (\<lambda>fs. ''fp''), td_sink = (\<lambda>_ _. None), td_now = 1000, td_nfc = id, td_maxOpenRuns = 2\<rparr>"

definition quiet_request :: turn_request where
  "quiet_request =
    \<lparr>tr_runId = ''run-0001'', tr_ticketKey = ''OPS-7'', tr_workspacePath = asc ''/w'', tr_protectedPaths = [],
     tr_dataClass = Gizli, tr_resume = False,
     tr_verification = [\<lparr>cs_name = asc ''lint'', cs_command = [asc ''npm'']\<rparr>]\<rparr>"

definition quiet_start :: "ledger execution" where
  "quiet_start = \<lparr>ex_ledger = \<lparr>lg_limit = 2, lg_states = []\<rparr>, ex_journals = []\<rparr>"

text \<open>The request that runs a red command.\<close>

definition red_request :: turn_request where
  "red_request = quiet_request\<lparr>tr_verification := [\<lparr>cs_name = asc ''lint'', cs_command = []\<rparr>, \<lparr>cs_name = asc ''test'', cs_command = []\<rparr>]\<rparr>"

lemma sample_matcher: "createProtectedPathMatcher id [] = Inr (built_in DEFAULT_PROTECTED_PATHS)"
  by (rule built_in_matchers(1) [OF nfc_ascii_id])

lemma sample_no_violation:
  "findProtectedViolations id (built_in DEFAULT_PROTECTED_PATHS) [plain_file (asc ''src/a.ts'') Modified None] = Inr []"
  by code_simp

lemma sample_turns:
  "\<exists>rp x'. runTurn ledger_record ledger_clear quiet_deps quiet_request quiet_start = (Inr (TurnOk rp), x')"
  "\<exists>rp h x'. runTurn ledger_record ledger_clear quiet_deps red_request quiet_start = (Inr (TurnFailed Verification rp h), x')"
proof -
  have "examine quiet_deps quiet_request = Inr ([plain_file (asc ''src/a.ts'') Modified None], [],
      [\<lparr>cr_name = asc ''lint'', cr_command = [asc ''npm''], cr_exitCode = 0, cr_stdoutTail = [], cr_stderrTail = [], cr_durationMs = 5\<rparr>])"
    using sample_matcher sample_no_violation
    by (simp add: examine_def inspect_def quiet_deps_def quiet_request_def)
  then show "\<exists>rp x'. runTurn ledger_record ledger_clear quiet_deps quiet_request quiet_start = (Inr (TurnOk rp), x')"
    using sample_matcher
    by (simp add: runTurn_def prompt_ready_def judge_def judge_call_def verificationFailures_def publish_def Let_def
        quiet_deps_def quiet_request_def quiet_start_def protected_key_def ledger_clear_def)
  have "asc ''test'' \<noteq> asc ''lint''" by code_simp
  then have "examine quiet_deps red_request = Inr ([plain_file (asc ''src/a.ts'') Modified None], [],
      [\<lparr>cr_name = asc ''lint'', cr_command = [], cr_exitCode = 0, cr_stdoutTail = [], cr_stderrTail = [], cr_durationMs = 5\<rparr>,
       \<lparr>cr_name = asc ''test'', cr_command = [], cr_exitCode = 1, cr_stdoutTail = [], cr_stderrTail = [], cr_durationMs = 5\<rparr>])"
    using sample_matcher sample_no_violation
    by (simp add: examine_def inspect_def quiet_deps_def quiet_request_def red_request_def)
  then show "\<exists>rp h x'. runTurn ledger_record ledger_clear quiet_deps red_request quiet_start = (Inr (TurnFailed Verification rp h), x')"
    using sample_matcher
    by (simp add: runTurn_def prompt_ready_def judge_def judge_call_def verificationFailures_def publish_def Let_def
        quiet_deps_def quiet_request_def red_request_def quiet_start_def ledger_record_def)
qed

theorem turn_verdict_witness:
  "\<exists>rp x' r. runTurn ledger_record ledger_clear quiet_deps quiet_request quiet_start = (Inr (TurnOk rp), x') \<and>
     rp_commands rp = [r] \<and> cr_exitCode r = 0"
proof -
  obtain rp x' where run: "runTurn ledger_record ledger_clear quiet_deps quiet_request quiet_start = (Inr (TurnOk rp), x')"
    using sample_turns(1) by blast
  from turn_verdict [OF run] have "list_all2 (\<lambda>spec r. td_run quiet_deps spec = Inr r \<and> cr_exitCode r = 0)
      (tr_verification quiet_request) (rp_commands rp)" by simp
  with run show ?thesis by (auto simp: quiet_request_def list_all2_Cons1)
qed

text \<open>
  C27: with the in-memory ledger, after any turns of any runs, a failing turn hands its run to a human
  exactly when the key it strikes (the protected paths of the run, or the fingerprint of its red
  commands) has been struck as often as the limit since it was last cleared, this strike included;
  it reports that number and quotes the last reasons, as many as the limit.
\<close>

theorem handover_exactly_at_limit:
  assumes "new_ledger limit = Inr l0" "ex_ledger x0 = l0"
    "runTurn ledger_record ledger_clear D req (run_turns ledger_record ledger_clear ts x0) = (Inr (TurnFailed why rp h), x')"
  shows "\<exists>k reason at. turn_call D req = [Record k reason at] \<and> sk_runId k = tr_runId req \<and>
    (let seen = told k (concat (map (\<lambda>(D, req). turn_call D req) ts) @ turn_call D req) [] in
      hd_count h = length seen \<and> hd_handover h = (lg_limit l0 \<le> length seen) \<and>
      hd_reasons h = slice_last (lg_limit l0) (map fst seen))"
proof -
  let ?calls = "concat (map (\<lambda>(D, req). turn_call D req) ts)"
  obtain k reason at where c: "turn_call D req = [Record k reason at]" "sk_runId k = tr_runId req"
    using failed_turn [OF assms(3)] by metis
  have "ledger_state k l0 = None"
    using assms(1) by (auto simp: new_ledger_def ledger_state_def Let_def split: if_splits)
  moreover have "ex_ledger (run_turns ledger_record ledger_clear ts x0) = fold (run_call ledger_record ledger_clear) ?calls l0"
    using assms(2) by (simp add: turns_ledger)
  ultimately show ?thesis using memory.failed_turn_counts [OF _ _ assms(3) c(1)] c by blast
qed

theorem handover_exactly_at_limit_witness:
  "\<exists>rp h x'. runTurn ledger_record ledger_clear quiet_deps red_request quiet_start = (Inr (TurnFailed Verification rp h), x') \<and>
     hd_count h = 1 \<and> \<not> hd_handover h"
proof -
  obtain rp h x' where run: "runTurn ledger_record ledger_clear quiet_deps red_request quiet_start = (Inr (TurnFailed Verification rp h), x')"
    using sample_turns(2) by blast
  have new: "new_ledger (Some 2) = Inr (ex_ledger quiet_start)" by (simp add: new_ledger_def quiet_start_def)
  from handover_exactly_at_limit [OF new refl, of quiet_deps red_request "[]" Verification rp h x'] run
  have "hd_count h = 1 \<and> hd_handover h = (lg_limit (ex_ledger quiet_start) \<le> 1)" by (auto simp: Let_def)
  with run show ?thesis by (simp add: quiet_start_def)
qed

text \<open>
  C28: over a table that works, a worker whose turns hydrate, record and drain the persistent ledger,
  restarted and made to forget runs at any points between turns, answers every strike with the state
  the in-memory ledger of a process that never stops would answer.
\<close>

theorem restart_forgets_nothing:
  assumes "table_works C tab" "new_ledger limit = Inr l0" "new_pledger limit = Inr p0" "tab d = Map.empty"
    "list_all event_ok es"
  shows "worker_runs C es (p0, d) = Inr (memory_runs es l0)"
proof -
  have "lg_states l0 = []" "pl_states p0 = []" "pl_loaded p0 = {}" "pl_queue p0 = []" "pl_limit p0 = lg_limit l0"
    using assms(2,3) by (auto simp: new_ledger_def new_pledger_def Let_def split: if_splits)
  then have "agrees C tab l0 p0 d"
    using assms(4) by (simp add: agrees_def loaded_agrees_def table_agrees_def map_ok_def pledger_state_def ledger_state_def)
  from worker_simulates [OF assms(1) this \<open>pl_queue p0 = []\<close> assms(5)] show ?thesis .
qed

text \<open>A table as an association list.\<close>

definition list_counters :: "(units, (row_ref \<times> strike_row) list) counters" where
  "list_counters =
    \<lparr>findMany = (\<lambda>runId d. Inr (map snd (filter (\<lambda>(k, _). fst k = runId) (AList.clearjunk d)))),
     upsert = (\<lambda>k r (c, at, rs) d. (Inr (), AList.update k
       (case map_of d k of None \<Rightarrow> r | Some old \<Rightarrow> old\<lparr>sr_count := c, sr_lastAt := at, sr_reasons := rs\<rparr>) d)),
     delete_row = (\<lambda>k d. (if map_of d k = None then Inl (asc ''P2025'') else Inr (), AList.delete k d))\<rparr>"

lemma list_counters_work: "table_works list_counters map_of"
proof -
  have "set (map snd (filter (\<lambda>(k, _). fst k = runId) (AList.clearjunk d))) =
      {r. \<exists>sc ref. map_of d (runId, sc, ref) = Some r}" for runId and d :: "(row_ref \<times> strike_row) list"
  proof -
    have "(k, r) \<in> set (AList.clearjunk d) \<longleftrightarrow> map_of d k = Some r" for k r
      using map_of_eq_Some_iff [OF distinct_clearjunk, of d k r] by (simp add: map_of_clearjunk)
    then show ?thesis by (auto simp: image_iff) blast+
  qed
  then show ?thesis by (auto simp: table_works_def list_counters_def update_conv' delete_conv' split: option.split)
qed

definition ci_key :: strike_key where
  "ci_key = \<lparr>sk_runId = ''run-0001'', sk_scope = CiScope, sk_ref = ''fp''\<rparr>"

definition two_turns :: "worker_event list" where
  "two_turns =
    [Turn ''run-0001'' [Record ci_key (asc ''test exited 1'') 10], Restart,
     Turn ''run-0001'' [Record ci_key (asc ''test exited 2'') 20]]"

theorem restart_forgets_nothing_witness:
  "map (map (\<lambda>s. (ss_count s, ss_handover s, ss_firstAt s))) (sum.projr (worker_runs list_counters two_turns
     (\<lparr>pl_limit = 2, pl_states = [], pl_loaded = {}, pl_queue = []\<rparr>, []))) = [[(1, False, 10)], [(2, True, 10)]]"
proof -
  have new: "new_ledger (Some 2) = Inr \<lparr>lg_limit = 2, lg_states = []\<rparr>"
    "new_pledger (Some 2) = Inr \<lparr>pl_limit = 2, pl_states = [], pl_loaded = {}, pl_queue = []\<rparr>"
    by (simp_all add: new_ledger_def new_pledger_def)
  have ok: "list_all event_ok two_turns"
    by (simp add: two_turns_def event_ok_def call_of_run_def ci_key_def no_nul_def)
  have "worker_runs list_counters two_turns (\<lparr>pl_limit = 2, pl_states = [], pl_loaded = {}, pl_queue = []\<rparr>, []) =
      Inr (memory_runs two_turns \<lparr>lg_limit = 2, lg_states = []\<rparr>)"
    by (rule restart_forgets_nothing [OF list_counters_work new _ ok]) simp
  then show ?thesis by (simp add: two_turns_def ledger_record_def Let_def)
qed







text \<open>What a turn may do to the open journals: close some, keep the class of the rest, open its own run's.\<close>

definition classes_kept :: "turn_request \<Rightarrow> (string \<times> data_class) list \<Rightarrow> (string \<times> data_class) list \<Rightarrow> bool" where
  "classes_kept req old new \<longleftrightarrow>
     (\<forall>k c. map_of new k = Some c \<longrightarrow>
        map_of old k = Some c \<or> map_of old k = None \<and> k = tr_runId req \<and> c = tr_dataClass req)"

lemma classes_kept_refl [simp]: "classes_kept req js js"
  by (simp add: classes_kept_def)









end
