(* ===== verification/Pii_Check.thy ===== *)
theory Pii_Check
  imports Audit_Event
begin

text \<open>
  The checksums of the PII detectors (\<open>packages/pii/src/detectors\<close>: \<open>tckn.ts\<close>, \<open>card.ts\<close>, \<open>iban.ts\<close>)
  and what they promise: the IBAN loop computes the ISO 13616 remainder, and the check digits of the
  identity number and of the card number catch every single wrong digit.
\<close>

subsection \<open>Digits\<close>

text \<open>\<open>charCodeAt(i) - 48\<close>\<close>

definition digit_of :: "unit16 \<Rightarrow> int" where
  "digit_of u = uint u - 48"

definition all_digits :: "units \<Rightarrow> bool" where
  "all_digits s \<longleftrightarrow> list_all is_digit16 s"

text \<open>JavaScript's \<open>%\<close>: the sign of the dividend.\<close>

definition js_rem :: "int \<Rightarrow> int \<Rightarrow> int" where
  "js_rem a b = (if a < 0 then - ((- a) mod b) else a mod b)"

lemma digit_of_range: "is_digit16 u \<Longrightarrow> 0 \<le> digit_of u \<and> digit_of u \<le> 9"
  by (simp add: is_digit16_def digit_of_def word_le_def)

lemma digit_of_inj: "is_digit16 u \<Longrightarrow> is_digit16 v \<Longrightarrow> digit_of u = digit_of v \<Longrightarrow> u = v"
  by (simp add: digit_of_def word_uint_eq_iff)

lemma js_rem_mod: "0 < b \<Longrightarrow> js_rem (js_rem a b + b) b = a mod b"
  by (auto simp: js_rem_def zmod_zminus1_eq_if) (smt (verit) mod_add_self2 mod_mod_trivial pos_mod_bound pos_mod_sign)+

subsection \<open>tckn.ts\<close>

text \<open>One round of the loop over the first ten digits: the index, the sums over odd and even places, the sum of all.\<close>

definition tckn_step :: "nat \<times> unit16 \<Rightarrow> int \<times> int \<times> int \<Rightarrow> int \<times> int \<times> int" where
  "tckn_step = (\<lambda>(i, u) (odds, evens, firstTen).
    let digit = digit_of u
    in (if i < 9 \<and> i mod 2 = 0 then odds + digit else odds,
        if i < 9 \<and> i mod 2 \<noteq> 0 then evens + digit else evens,
        firstTen + digit))"

definition isValidTckn :: "units \<Rightarrow> bool" where
  "isValidTckn v \<longleftrightarrow>
    length v = 11 \<and> all_digits v \<and> hd v \<noteq> 0x30 \<and>
    (case fold tckn_step (zip [0..<10] (take 10 v)) (0, 0, 0) of
       (odds, evens, firstTen) \<Rightarrow>
         js_rem (js_rem (odds * 7 - evens) 10 + 10) 10 = digit_of (v ! 9) \<and>
         js_rem firstTen 10 = digit_of (v ! 10))"

subsection \<open>card.ts\<close>

text \<open>The loop from the last digit to the first; every second digit is doubled.\<close>

fun luhn_sum :: "bool \<Rightarrow> units \<Rightarrow> int" where
  "luhn_sum double [] = 0"
| "luhn_sum double (u # s) =
    (let digit = digit_of u;
         counted = (if double then (if digit * 2 > 9 then digit * 2 - 9 else digit * 2) else digit)
     in counted + luhn_sum (\<not> double) s)"

definition isValidLuhn :: "units \<Rightarrow> bool" where
  "isValidLuhn digits \<longleftrightarrow>
    13 \<le> length digits \<and> length digits \<le> 19 \<and> all_digits digits \<and> js_rem (luhn_sum False (rev digits)) 10 = 0"

subsection \<open>iban.ts\<close>

definition upper16 :: "unit16 \<Rightarrow> unit16" where
  "upper16 u = (if 0x61 \<le> u \<and> u \<le> 0x7A then u - 0x20 else u)"

definition is_upper16 :: "unit16 \<Rightarrow> bool" where
  "is_upper16 u \<longleftrightarrow> 0x41 \<le> u \<and> u \<le> 0x5A"

definition canonicalIban :: "units \<Rightarrow> units" where
  "canonicalIban raw = map upper16 (filter alnum16 raw)"

text \<open>The digits a character expands to: a letter is 10 to 35.\<close>

definition iban_part :: "unit16 \<Rightarrow> int list" where
  "iban_part u = (let code = uint u in if code \<ge> 65 then [(code - 55) div 10, (code - 55) mod 10] else [code - 48])"

definition iban_remainder :: "units \<Rightarrow> int" where
  "iban_remainder s = fold (\<lambda>ch r. fold (\<lambda>d r. js_rem (r * 10 + d) 97) (iban_part ch) r) s 0"

definition iban_shape :: "units \<Rightarrow> bool" where
  "iban_shape c \<longleftrightarrow> 15 \<le> length c \<and> length c \<le> 34 \<and> list_all is_upper16 (take 2 c) \<and>
     list_all is_digit16 (take 2 (drop 2 c)) \<and> list_all (\<lambda>u. is_upper16 u \<or> is_digit16 u) (drop 4 c)"

definition TR_IBAN_LENGTH :: nat where
  "TR_IBAN_LENGTH = 26"

definition isValidIban :: "units \<Rightarrow> bool" where
  "isValidIban c \<longleftrightarrow>
    iban_shape c \<and> (take 2 c = asc ''TR'' \<longrightarrow> length c = TR_IBAN_LENGTH) \<and> iban_remainder (drop 4 c @ take 4 c) = 1"

subsection \<open>What the checksums say\<close>

text \<open>The number an IBAN stands for after moving its first four characters to the end.\<close>

definition decimal_value :: "int list \<Rightarrow> int" where
  "decimal_value ds = foldl (\<lambda>n d. n * 10 + d) 0 ds"

definition iban_number :: "units \<Rightarrow> int" where
  "iban_number c = decimal_value (concat (map iban_part (drop 4 c @ take 4 c)))"

lemma js_rem_nonneg: "0 \<le> a \<Longrightarrow> js_rem a b = a mod b"
  by (simp add: js_rem_def)

lemma remainder_fold:
  assumes "list_all (\<lambda>d. 0 \<le> d) ds" "0 \<le> r" "r = n mod 97"
  shows "fold (\<lambda>d r. js_rem (r * 10 + d) 97) ds r = foldl (\<lambda>n d. n * 10 + d) n ds mod 97 \<and>
    0 \<le> fold (\<lambda>d r. js_rem (r * 10 + d) 97) ds r"
  using assms
proof (induction ds arbitrary: r n)
  case (Cons d ds)
  have "js_rem (r * 10 + d) 97 = (n * 10 + d) mod 97"
    using Cons.prems by (simp add: js_rem_nonneg mod_add_left_eq mod_mult_left_eq [symmetric])
      (metis mod_add_left_eq mod_mult_left_eq)
  with Cons.IH [of "js_rem (r * 10 + d) 97" "n * 10 + d"] Cons.prems show ?case by simp
qed simp

lemma iban_part_nonneg: "is_upper16 u \<or> is_digit16 u \<Longrightarrow> list_all (\<lambda>d. 0 \<le> d) (iban_part u)"
  by (auto simp: iban_part_def Let_def is_upper16_def is_digit16_def word_le_def)

lemma fold_concat: "fold (\<lambda>x. fold f (g x)) xs a = fold f (concat (map g xs)) a"
  by (induction xs arbitrary: a) simp_all

lemma iban_remainder_number:
  assumes "list_all (\<lambda>u. is_upper16 u \<or> is_digit16 u) s"
  shows "iban_remainder s = decimal_value (concat (map iban_part s)) mod 97"
proof -
  have "list_all (\<lambda>d. 0 \<le> d) (concat (map iban_part s))"
    using assms iban_part_nonneg by (fastforce simp: list_all_iff)
  from remainder_fold [OF this, of 0 0] show ?thesis
    by (simp add: iban_remainder_def fold_concat decimal_value_def)
qed

lemma iban_shape_chars: "iban_shape c \<Longrightarrow> list_all (\<lambda>u. is_upper16 u \<or> is_digit16 u) (drop 4 c @ take 4 c)"
proof -
  assume "iban_shape c"
  moreover have "take 4 c = take 2 c @ take 2 (drop 2 c)" using take_add [of 2 2 c] by simp
  ultimately show ?thesis by (auto simp: iban_shape_def list_all_iff)
qed

theorem valid_iban_number:
  "isValidIban c \<longleftrightarrow> iban_shape c \<and> (take 2 c = asc ''TR'' \<longrightarrow> length c = 26) \<and> iban_number c mod 97 = 1"
proof (cases "iban_shape c")
  case True
  show ?thesis
    unfolding isValidIban_def iban_number_def TR_IBAN_LENGTH_def iban_remainder_number [OF iban_shape_chars [OF True]] ..
next
  case False
  then show ?thesis unfolding isValidIban_def by blast
qed

subsection \<open>A single wrong digit\<close>

lemma slip: "(a + x) mod 10 = (a + y) mod 10 \<Longrightarrow> 0 \<le> x \<Longrightarrow> x \<le> 9 \<Longrightarrow> 0 \<le> y \<Longrightarrow> y \<le> 9 \<Longrightarrow> x = (y :: int)"
proof -
  assume eq: "(a + x) mod 10 = (a + y) mod 10" and range: "0 \<le> x" "x \<le> 9" "0 \<le> y" "y \<le> 9"
  from eq have "10 dvd (a + x) - (a + y)" by (simp only: mod_eq_dvd_iff)
  then obtain k where "x - y = 10 * k" by (auto simp: dvd_def)
  with range show "x = y" by arith
qed

lemma tckn_step_total [simp]: "snd (snd (tckn_step x st)) = snd (snd st) + digit_of (snd x)"
  by (simp add: tckn_step_def Let_def split: prod.split)

lemma tckn_total: "length is = length us \<Longrightarrow>
    snd (snd (fold tckn_step (zip is us) st)) = snd (snd st) + sum_list (map digit_of us)"
  by (induction "is" us arbitrary: st rule: list_induct2) simp_all

lemma tckn_last:
  assumes "isValidTckn v"
  shows "length v = 11" "all_digits v" "sum_list (map digit_of (take 10 v)) mod 10 = digit_of (v ! 10)"
proof -
  show len: "length v = 11" "all_digits v" using assms by (auto simp: isValidTckn_def)
  obtain a b m where f: "fold tckn_step (zip [0..<10] (take 10 v)) (0, 0, 0) = (a, b, m)" by (metis prod_cases3)
  have "m = sum_list (map digit_of (take 10 v))" using tckn_total [of "[0..<10]" "take 10 v" "(0, 0, 0)"] f len(1) by simp
  moreover have "0 \<le> sum_list (map digit_of (take 10 v))"
    using len(2) by (intro sum_list_nonneg) (auto simp: all_digits_def list_all_iff dest: digit_of_range in_set_takeD)
  ultimately show "sum_list (map digit_of (take 10 v)) mod 10 = digit_of (v ! 10)"
    using assms f by (auto simp: isValidTckn_def js_rem_nonneg)
qed

lemma sum_digits_update: "i < length s \<Longrightarrow>
    sum_list (map digit_of (s[i := u])) = sum_list (map digit_of s) - digit_of (s ! i) + digit_of u"
  by (induction s arbitrary: i) (auto split: nat.splits)

lemma tckn_slip:
  assumes "isValidTckn v" "i < 11" "isValidTckn (v[i := u])"
  shows "v ! i = u"
proof -
  have u: "is_digit16 u" "is_digit16 (v ! i)" and len: "length v = 11"
    using tckn_last(1,2) [OF assms(1)] tckn_last(1,2) [OF assms(3)] assms(2)
    by (auto simp: all_digits_def list_all_length nth_list_update split: if_splits)
  note t = tckn_last(3) [OF assms(1)] tckn_last(3) [OF assms(3)]
  have "digit_of (v ! i) = digit_of u"
  proof (cases "i < 10")
    case True
    then have new: "sum_list (map digit_of (take 10 (v[i := u]))) = sum_list (map digit_of (take 10 v)) - digit_of (v ! i) + digit_of u"
      using len sum_digits_update [of i "take 10 v" u] by (simp add: take_update_swap)
    have "v[i := u] ! 10 = v ! 10" using True by simp
    with t new have "(sum_list (map digit_of (take 10 v)) - digit_of (v ! i) + digit_of (v ! i)) mod 10 =
        (sum_list (map digit_of (take 10 v)) - digit_of (v ! i) + digit_of u) mod 10"
      by (metis diff_add_cancel)
    from slip [OF this] digit_of_range [OF u(1)] digit_of_range [OF u(2)] show ?thesis by blast
  next
    case False
    with assms(2) have "i = 10" by simp
    then show ?thesis using t len by simp
  qed
  with digit_of_inj u show ?thesis by blast
qed

definition luhn_weight :: "bool \<Rightarrow> unit16 \<Rightarrow> int" where
  "luhn_weight double u = (if double then (if digit_of u * 2 > 9 then digit_of u * 2 - 9 else digit_of u * 2) else digit_of u)"

lemma luhn_weight_range: "is_digit16 u \<Longrightarrow> 0 \<le> luhn_weight b u \<and> luhn_weight b u \<le> 9"
  using digit_of_range [of u] by (auto simp: luhn_weight_def)

lemma luhn_weight_inj: "is_digit16 u \<Longrightarrow> is_digit16 v \<Longrightarrow> luhn_weight b u = luhn_weight b v \<Longrightarrow> u = v"
  using digit_of_range [of u] digit_of_range [of v] by (intro digit_of_inj) (auto simp: luhn_weight_def split: if_splits, presburger+)

lemma luhn_nonneg: "all_digits s \<Longrightarrow> 0 \<le> luhn_sum b s"
proof (induction b s rule: luhn_sum.induct)
  case (2 b u s)
  then show ?case using luhn_weight_range [of u b] by (auto simp: all_digits_def luhn_weight_def Let_def)
qed simp

lemma luhn_update: "i < length s \<Longrightarrow>
    luhn_sum b (s[i := u]) = luhn_sum b s - luhn_weight (b \<noteq> odd i) (s ! i) + luhn_weight (b \<noteq> odd i) u"
proof (induction b s arbitrary: i rule: luhn_sum.induct)
  case (2 b x s)
  then show ?case by (cases i) (auto simp: luhn_weight_def Let_def)
qed simp

lemma luhn_mod: "isValidLuhn v \<Longrightarrow> luhn_sum False (rev v) mod 10 = 0"
  using luhn_nonneg [of "rev v" False] by (auto simp: isValidLuhn_def js_rem_nonneg all_digits_def list_all_iff)

lemma luhn_slip:
  assumes "isValidLuhn v" "i < length v" "isValidLuhn (v[i := u])"
  shows "v ! i = u"
proof -
  have u: "is_digit16 u" "is_digit16 (v ! i)"
    using assms by (auto simp: isValidLuhn_def all_digits_def list_all_length nth_list_update split: if_splits)
  let ?j = "length v - Suc i" and ?r = "rev v"
  have j: "?j < length ?r" "?r ! ?j = v ! i" and r: "rev (v[i := u]) = ?r[?j := u]"
    using assms(2) by (simp_all add: rev_nth rev_update)
  have mod: "luhn_sum False ?r mod 10 = 0" "luhn_sum False (?r[?j := u]) mod 10 = 0"
    using luhn_mod [OF assms(1)] luhn_mod [OF assms(3)] r by simp_all
  define w where "w = luhn_weight (False \<noteq> odd ?j)"
  have "luhn_sum False (?r[?j := u]) = luhn_sum False ?r - w (v ! i) + w u"
    using luhn_update [OF j(1), of False u] j(2) by (simp add: w_def)
  then have "(luhn_sum False ?r - w (v ! i) + w (v ! i)) mod 10 = (luhn_sum False ?r - w (v ! i) + w u) mod 10"
    using mod by simp
  from slip [OF this] have "w (v ! i) = w u"
    using luhn_weight_range [OF u(1)] luhn_weight_range [OF u(2)] unfolding w_def by blast
  with luhn_weight_inj u show ?thesis unfolding w_def by blast
qed

end
