(* ===== verification/Pii_Scan.thy ===== *)
theory Pii_Scan
  imports Pii_Check "HOL-Library.Product_Lexorder"
begin

text \<open>
  The PII detectors (\<open>packages/pii/src/detectors\<close>) and how their findings are reconciled
  (\<open>collectMatches\<close> of \<open>mask.ts\<close>). The regular expressions are terms of a small language with the
  backtracking order of JavaScript; the Unicode classes of the e-mail pattern, the case mappings and
  the institution's account patterns are parameters.
\<close>

subsection \<open>Regular expressions\<close>

text \<open>
  A symbol says how many units it takes at the head of the text (0: it does not match); alternatives
  are tried in order.
\<close>

datatype rx = Sym "units \<Rightarrow> nat" | Alt "rx list list"

fun weight :: "rx \<Rightarrow> nat" where
  "weight (Sym f) = 1"
| "weight (Alt qss) = 1 + sum_list (map (\<lambda>qs. 1 + sum_list (map weight qs)) qss)"

text \<open>The length of the first match of the expression at the head of the text; \<open>ahead\<close> is the lookahead.\<close>

function (sequential) run :: "(units \<Rightarrow> bool) \<Rightarrow> rx list \<Rightarrow> units \<Rightarrow> nat option" where
  "run ahead [] s = (if ahead s then Some 0 else None)"
| "run ahead (Sym f # rs) s =
    (if f s = 0 \<or> length s < f s then None else map_option ((+) (f s)) (run ahead rs (drop (f s) s)))"
| "run ahead (Alt [] # rs) s = None"
| "run ahead (Alt (qs # qss) # rs) s =
    (case run ahead (qs @ rs) s of Some n \<Rightarrow> Some n | None \<Rightarrow> run ahead (Alt qss # rs) s)"
  by pat_completeness auto
termination by (relation "measure (\<lambda>(ahead, rs, s). sum_list (map weight rs))") auto

definition one :: "(unit16 \<Rightarrow> bool) \<Rightarrow> rx" where
  "one P = Sym (\<lambda>s. case s of u # _ \<Rightarrow> if P u then 1 else 0 | [] \<Rightarrow> 0)"

definition chr :: "char \<Rightarrow> rx" where
  "chr c = one (\<lambda>u. u = u16 c)"

definition maybe :: "rx list \<Rightarrow> rx" where
  "maybe qs = Alt [qs, []]"

text \<open>\<open>(qs){0,n}\<close> and \<open>(qs){m,n}\<close>, greedy.\<close>

fun upto_times :: "nat \<Rightarrow> rx list \<Rightarrow> rx list" where
  "upto_times 0 qs = []"
| "upto_times (Suc n) qs = [maybe (qs @ upto_times n qs)]"

definition times_between :: "nat \<Rightarrow> nat \<Rightarrow> rx list \<Rightarrow> rx list" where
  "times_between m n qs = concat (replicate m qs) @ upto_times (n - m) qs"

text \<open>
  \<open>text.matchAll(re)\<close>: the spans, from left to right and without overlap. \<open>try i\<close> is the length of the
  match at \<open>i\<close>; the next position to try is \<open>next i\<close>, at least one further.
\<close>

function match_all :: "(nat \<Rightarrow> nat option) \<Rightarrow> (nat \<Rightarrow> nat) \<Rightarrow> nat \<Rightarrow> nat \<Rightarrow> (nat \<times> nat) list" where
  "match_all try next len i =
    (if len \<le> i then []
     else case try i of
            Some (Suc n) \<Rightarrow> (i, i + Suc n) # match_all try next len (i + Suc n)
          | _ \<Rightarrow> match_all try next len (max (Suc i) (next i)))"
  by pat_completeness auto
termination by (relation "measure (\<lambda>(try, next, len, i). len - i)") auto

declare match_all.simps [simp del]

text \<open>With the \<open>u\<close> flag a surrogate pair is one step.\<close>

definition next_unit :: "units \<Rightarrow> nat \<Rightarrow> nat" where
  "next_unit text i = Suc i"

definition next_point :: "units \<Rightarrow> nat \<Rightarrow> nat" where
  "next_point text i =
    (if Suc i < length text \<and> 0xD800 \<le> text ! i \<and> text ! i \<le> 0xDBFF \<and> 0xDC00 \<le> text ! Suc i \<and> text ! Suc i \<le> 0xDFFF
     then i + 2 else Suc i)"

text \<open>\<open>(?<![0-9A-Za-z])\<close> and \<open>(?![0-9A-Za-z])\<close>\<close>

definition glued :: "units \<Rightarrow> nat \<Rightarrow> bool" where
  "glued text i \<longleftrightarrow> 0 < i \<and> i \<le> length text \<and> alnum16 (text ! (i - 1))"

definition free_ahead :: "units \<Rightarrow> bool" where
  "free_ahead s \<longleftrightarrow> (case s of [] \<Rightarrow> True | u # _ \<Rightarrow> \<not> alnum16 u)"

definition slice :: "units \<Rightarrow> nat \<Rightarrow> nat \<Rightarrow> units" where
  "slice text i j = drop i (take j text)"

subsection \<open>Matches\<close>

datatype pii_type = Iban | Card | Tckn | Phone | Email | Account | FieldRule

definition DETECTOR_TYPES :: "pii_type list" where
  "DETECTOR_TYPES = [Iban, Card, Tckn, Phone, Email, Account]"

fun detectorPriority :: "pii_type \<Rightarrow> nat" where
  "detectorPriority Iban = 0" | "detectorPriority Card = 1" | "detectorPriority Tckn = 2"
| "detectorPriority Phone = 3" | "detectorPriority Email = 4" | "detectorPriority Account = 5"
| "detectorPriority FieldRule = 6"

record pii_match =
  pm_type :: pii_type
  pm_start :: nat
  pm_end :: nat
  pm_text :: units
  pm_canonical :: units

definition match_of :: "pii_type \<Rightarrow> (units \<Rightarrow> units) \<Rightarrow> units \<Rightarrow> nat \<times> nat \<Rightarrow> pii_match" where
  "match_of t canon text = (\<lambda>(i, j).
    \<lparr>pm_type = t, pm_start = i, pm_end = j, pm_text = slice text i j, pm_canonical = canon (slice text i j)\<rparr>)"

text \<open>What the package takes from Unicode: letters and digits at the head and at the end of a text, case.\<close>

record unicode =
  un_word :: "units \<Rightarrow> nat"
  un_word_before :: "units \<Rightarrow> bool"
  un_lower :: "units \<Rightarrow> units"
  un_upper :: "units \<Rightarrow> units"

subsection \<open>separators.ts\<close>

definition isSeparator :: "unit16 \<Rightarrow> bool" where
  "isSeparator u \<longleftrightarrow> u \<in> {0x20, 0xA0, 0x1680, 0x202F, 0x205F, 0x3000} \<or> (0x2000 \<le> u \<and> u \<le> 0x200A) \<or> u \<in> {0x09, 0x2E, 0x2D}"

definition SEPARATOR_RUN :: "rx list" where
  "SEPARATOR_RUN = upto_times 2 [one isSeparator]"

definition digitsOnly :: "units \<Rightarrow> units" where
  "digitsOnly raw = filter is_digit16 raw"

subsection \<open>tckn.ts, card.ts\<close>

definition TCKN_RE :: "rx list" where
  "TCKN_RE = one (\<lambda>u. is_digit16 u \<and> u \<noteq> 0x30) # times_between 10 10 (SEPARATOR_RUN @ [one is_digit16])"

definition CARD_RE :: "rx list" where
  "CARD_RE = times_between 12 18 (one is_digit16 # SEPARATOR_RUN) @ [one is_digit16]"

text \<open>The spans of an expression between the two boundaries.\<close>

definition spans :: "rx list \<Rightarrow> (units \<Rightarrow> nat \<Rightarrow> nat) \<Rightarrow> units \<Rightarrow> (nat \<times> nat) list" where
  "spans re next text =
    match_all (\<lambda>i. if glued text i then None else run free_ahead re (drop i text)) (next text) (length text) 0"

definition scan_tckn :: "units \<Rightarrow> pii_match list" where
  "scan_tckn text = filter (\<lambda>m. isValidTckn (pm_canonical m)) (map (match_of Tckn digitsOnly text) (spans TCKN_RE next_point text))"

definition scan_card :: "units \<Rightarrow> pii_match list" where
  "scan_card text = filter (\<lambda>m. isValidLuhn (pm_canonical m)) (map (match_of Card digitsOnly text) (spans CARD_RE next_point text))"

subsection \<open>phone.ts\<close>

definition phone_separator :: "unit16 \<Rightarrow> bool" where
  "phone_separator u \<longleftrightarrow> u \<in> {0x20, 0x2E, 0x2D}"

definition PHONE_RE :: "rx list" where
  "PHONE_RE =
    [maybe [Alt [[chr CHR ''+''], [chr CHR ''0'', chr CHR ''0'']], chr CHR ''9'', chr CHR ''0'', maybe [one phone_separator]],
     maybe [chr CHR ''(''], maybe [chr CHR ''0''],
     one (\<lambda>u. 0x32 \<le> u \<and> u \<le> 0x35), one is_digit16, one is_digit16,
     maybe [chr CHR '')''], maybe [one phone_separator], one is_digit16, one is_digit16, one is_digit16,
     maybe [one phone_separator], one is_digit16, one is_digit16,
     maybe [one phone_separator], one is_digit16, one is_digit16]"

definition last_ten :: "units \<Rightarrow> units" where
  "last_ten raw = drop (length (digitsOnly raw) - 10) (digitsOnly raw)"

text \<open>The captured area code is the first three of the last ten digits.\<close>

definition isPlausiblePhone :: "units \<Rightarrow> bool" where
  "isPlausiblePhone raw \<longleftrightarrow>
    starts_with (asc ''+90'') raw \<or> starts_with (asc ''0090'') raw \<or> starts_with (asc ''0'') raw \<or> starts_with (asc ''(0'') raw \<or>
    list_ex (\<lambda>u. phone_separator u \<or> u = u16 CHR ''('' \<or> u = u16 CHR '')'') raw \<or>
    starts_with (asc ''5'') (last_ten raw)"

definition canonicalPhone :: "units \<Rightarrow> units" where
  "canonicalPhone raw = asc ''+90'' @ last_ten raw"

definition scan_phone :: "units \<Rightarrow> pii_match list" where
  "scan_phone text = filter (\<lambda>m. isPlausiblePhone (pm_text m)) (map (match_of Phone canonicalPhone text) (spans PHONE_RE next_unit text))"

subsection \<open>email.ts\<close>

definition local_punct :: "unit16 \<Rightarrow> bool" where
  "local_punct u \<longleftrightarrow> u \<in> {0x2E, 0x5F, 0x25, 0x2B, 0x2D}"

text \<open>\<open>[\p{L}\p{N}]\<close> with more single units allowed.\<close>

definition word_or :: "unicode \<Rightarrow> (unit16 \<Rightarrow> bool) \<Rightarrow> rx" where
  "word_or U P = Sym (\<lambda>s. if 0 < un_word U s then un_word U s else case s of u # _ \<Rightarrow> if P u then 1 else 0 | [] \<Rightarrow> 0)"

definition label :: "unicode \<Rightarrow> nat \<Rightarrow> rx list" where
  "label U n = [word_or U (\<lambda>_. False), maybe (upto_times n [word_or U (\<lambda>u. u = 0x2D)] @ [word_or U (\<lambda>_. False)])]"

text \<open>\<open>n\<close> bounds the unbounded repetitions; the length of the text is enough.\<close>

definition EMAIL_RE :: "unicode \<Rightarrow> nat \<Rightarrow> rx list" where
  "EMAIL_RE U n =
    word_or U local_punct # upto_times n [word_or U local_punct] @ [chr CHR ''@''] @ label U n @
    chr CHR ''.'' # label U n @ upto_times n (chr CHR ''.'' # label U n)"

definition email_free_before :: "unicode \<Rightarrow> units \<Rightarrow> nat \<Rightarrow> bool" where
  "email_free_before U text i \<longleftrightarrow> i = 0 \<or> \<not> (un_word_before U (take i text) \<or> local_punct (text ! (i - 1)))"

definition email_free_ahead :: "unicode \<Rightarrow> units \<Rightarrow> bool" where
  "email_free_ahead U s \<longleftrightarrow> un_word U s = 0 \<and> (case s of u # _ \<Rightarrow> u \<noteq> 0x2D | [] \<Rightarrow> True)"

definition scan_email :: "unicode \<Rightarrow> units \<Rightarrow> pii_match list" where
  "scan_email U text =
    map (match_of Email (un_lower U) text)
      (match_all (\<lambda>i. if email_free_before U text i
           then run (email_free_ahead U) (EMAIL_RE U (length text)) (drop i text) else None)
         (next_point text) (length text) 0)"

subsection \<open>iban.ts\<close>

definition MAX_RAW_LENGTH :: nat where
  "MAX_RAW_LENGTH = 34 + 33 * 2"

definition is_letter16 :: "unit16 \<Rightarrow> bool" where
  "is_letter16 u \<longleftrightarrow> alnum16 u \<and> \<not> is_digit16 u"

definition IBAN_START :: "rx list" where
  "IBAN_START = [one is_letter16, one is_letter16, one is_digit16, one is_digit16]"

definition iban_body :: "unit16 \<Rightarrow> bool" where
  "iban_body u \<longleftrightarrow> alnum16 u \<or> isSeparator u"

text \<open>The run of IBAN characters from the candidate, cut from its end until the checksum agrees.\<close>

definition cut_ok :: "units \<Rightarrow> nat \<Rightarrow> nat \<Rightarrow> bool" where
  "cut_ok text start j \<longleftrightarrow>
    \<not> (j < length text \<and> alnum16 (text ! j)) \<and>
    \<not> isSeparator (text ! (j - 1)) \<and>
    isValidIban (canonicalIban (slice text start j))"

definition longestValidFrom :: "units \<Rightarrow> nat \<Rightarrow> pii_match option" where
  "longestValidFrom text start =
    (let limit = min (length text) (start + MAX_RAW_LENGTH);
         body_end = start + 4 + length (takeWhile iban_body (slice text (start + 4) limit))
     in map_option (\<lambda>j. match_of Iban canonicalIban text (start, j))
          (List.find (cut_ok text start) (rev [start + 5 ..< Suc body_end])))"

definition scan_iban :: "units \<Rightarrow> pii_match list" where
  "scan_iban text =
    List.map_filter (longestValidFrom text)
      (map fst (match_all (\<lambda>i. if glued text i then None else run (\<lambda>_. True) IBAN_START (drop i text))
        (next_unit text) (length text) 0))"

subsection \<open>account.ts, index.ts\<close>

text \<open>An account pattern is what \<open>matchAll\<close> finds with it.\<close>

type_synonym account_pattern = "units \<Rightarrow> (nat \<times> nat) list"

definition scan_account :: "unicode \<Rightarrow> account_pattern list \<Rightarrow> units \<Rightarrow> pii_match list" where
  "scan_account U patterns text =
    concat (map (\<lambda>re. map (match_of Account (un_upper U) text) (filter (\<lambda>(i, j). slice text i j \<noteq> []) (re text))) patterns)"

fun DETECTORS :: "unicode \<Rightarrow> account_pattern list \<Rightarrow> pii_type \<Rightarrow> units \<Rightarrow> pii_match list" where
  "DETECTORS U ps Iban text = scan_iban text"
| "DETECTORS U ps Card text = scan_card text"
| "DETECTORS U ps Tckn text = scan_tckn text"
| "DETECTORS U ps Phone text = scan_phone text"
| "DETECTORS U ps Email text = scan_email U text"
| "DETECTORS U ps Account text = scan_account U ps text"
| "DETECTORS U ps FieldRule text = []"

subsection \<open>collectMatches\<close>

record compiled_profile =
  cp_detectors :: "pii_type list"
  cp_accounts :: "account_pattern list"
  cp_fieldRules :: "units set"

definition all_matches :: "unicode \<Rightarrow> compiled_profile \<Rightarrow> units \<Rightarrow> pii_match list" where
  "all_matches U P text = concat (map (\<lambda>t. DETECTORS U (cp_accounts P) t text) (cp_detectors P))"

text \<open>Left to right, longest first, priority breaking ties; the sort is stable.\<close>

definition match_key :: "pii_match \<Rightarrow> nat \<times> int \<times> nat" where
  "match_key m = (pm_start m, - (int (pm_end m) - int (pm_start m)), detectorPriority (pm_type m))"

fun pick :: "nat \<Rightarrow> pii_match list \<Rightarrow> pii_match list" where
  "pick consumedTo [] = []"
| "pick consumedTo (m # ms) = (if pm_start m < consumedTo then pick consumedTo ms else m # pick (pm_end m) ms)"

definition collectMatches :: "unicode \<Rightarrow> compiled_profile \<Rightarrow> units \<Rightarrow> pii_match list" where
  "collectMatches U P text =
    (let all = all_matches U P text in if length all < 2 then all else pick 0 (sort_key match_key all))"

end
