(* ===== verification/Pii_Token.thy ===== *)
theory Pii_Token
  imports Pii_Scan "HOL-Library.AList"
begin

text \<open>
  The tokens that stand for real values and the map behind them (\<open>packages/pii/src/types.ts\<close>,
  \<open>reverse-map.ts\<close>), with the replacement of tokens in a text.
\<close>

subsection \<open>Token shapes\<close>

fun TOKEN_PREFIX :: "pii_type \<Rightarrow> string" where
  "TOKEN_PREFIX Iban = ''IBAN''" | "TOKEN_PREFIX Card = ''CARD''" | "TOKEN_PREFIX Tckn = ''TCKN''"
| "TOKEN_PREFIX Phone = ''PHONE''" | "TOKEN_PREFIX Email = ''EMAIL''" | "TOKEN_PREFIX Account = ''ACCT''"
| "TOKEN_PREFIX FieldRule = ''FIELD''"

definition PII_TYPES :: "pii_type list" where
  "PII_TYPES = DETECTOR_TYPES @ [FieldRule]"

definition PREFIXES :: rx where
  "PREFIXES = Alt (map (\<lambda>t. map chr (TOKEN_PREFIX t)) PII_TYPES)"

definition nonce_unit :: "unit16 \<Rightarrow> bool" where
  "nonce_unit u \<longleftrightarrow> is_digit16 u \<or> (0x61 \<le> u \<and> u \<le> 0x7A)"

definition nonce_ok :: "units \<Rightarrow> bool" where
  "nonce_ok s \<longleftrightarrow> 2 \<le> length s \<and> length s \<le> 16 \<and> list_all nonce_unit s"

text \<open>\<open>n\<close> bounds \<open>\d+\<close>; the length of the text is enough.\<close>

definition TOKEN_HEAD :: "nat \<Rightarrow> rx list" where
  "TOKEN_HEAD n = [chr CHR ''['', PREFIXES, chr CHR ''_'', one is_digit16] @ upto_times n [one is_digit16]"

definition TOKEN_PATTERN :: "nat \<Rightarrow> rx list" where
  "TOKEN_PATTERN n = TOKEN_HEAD n @ chr CHR ''.'' # times_between 2 16 [one nonce_unit] @ [chr CHR '']'']"

definition TOKEN_SHAPE :: "nat \<Rightarrow> rx list" where
  "TOKEN_SHAPE n = TOKEN_HEAD n @ maybe (chr CHR ''.'' # times_between 2 16 [one nonce_unit]) # [chr CHR '']'']"

definition token_at :: "units \<Rightarrow> nat option" where
  "token_at s = run (\<lambda>_. True) (TOKEN_PATTERN (length s)) s"

definition shape_at :: "units \<Rightarrow> nat option" where
  "shape_at s = run (\<lambda>_. True) (TOKEN_SHAPE (length s)) s"

text \<open>\<open>WHOLE_TOKEN_PATTERN.test\<close>\<close>

definition whole_token :: "units \<Rightarrow> bool" where
  "whole_token s \<longleftrightarrow> run (\<lambda>r. r = []) (TOKEN_PATTERN (length s)) s \<noteq> None"

text \<open>\<open>text.replace(re, f)\<close> with a global expression that looks at nothing before the match.\<close>

function replace_all :: "(units \<Rightarrow> nat option) \<Rightarrow> (units \<Rightarrow> units) \<Rightarrow> units \<Rightarrow> units" where
  "replace_all at f s =
    (case s of
       [] \<Rightarrow> []
     | u # t \<Rightarrow>
       (case at s of
          Some (Suc n) \<Rightarrow> f (take (Suc n) s) @ replace_all at f (drop (Suc n) s)
        | _ \<Rightarrow> u # replace_all at f t))"
  by pat_completeness auto
termination by (relation "measure (\<lambda>(at, f, s). length s)") auto

declare replace_all.simps [simp del]

subsection \<open>reverse-map.ts\<close>

record reverse_map =
  rv_byToken :: "(units \<times> units) list"
  rv_byCanonical :: "((pii_type \<times> units) \<times> units) list"
  rv_counters :: "(pii_type \<times> nat) list"
  rv_nonce :: units

datatype pii_error =
    NonceRefused units
  | PiiArgument units string
  | PiiLeak units "pii_type list" nat
  | PiiPolicy string "units list"

definition new_map :: "units \<Rightarrow> pii_error + reverse_map" where
  "new_map nonce =
    (if nonce_ok nonce then Inr \<lparr>rv_byToken = [], rv_byCanonical = [], rv_counters = [], rv_nonce = nonce\<rparr>
     else Inl (NonceRefused nonce))"

definition token_text :: "pii_type \<Rightarrow> nat \<Rightarrow> units \<Rightarrow> units" where
  "token_text t n nonce = asc ''['' @ asc (TOKEN_PREFIX t) @ asc ''_'' @ asc (dec n) @ asc ''.'' @ nonce @ asc '']''"

text \<open>The key \<open>type:canonical\<close> is the pair: no type name has a colon.\<close>

definition tokenFor :: "pii_type \<Rightarrow> units \<Rightarrow> units \<Rightarrow> reverse_map \<Rightarrow> units \<times> reverse_map" where
  "tokenFor t canonical original m =
    (case map_of (rv_byCanonical m) (t, canonical) of
       Some token \<Rightarrow> (token, m)
     | None \<Rightarrow>
         let next = (case map_of (rv_counters m) t of None \<Rightarrow> 0 | Some n \<Rightarrow> n) + 1;
             token = token_text t next (rv_nonce m)
         in (token, m\<lparr>rv_counters := AList.update t next (rv_counters m),
                      rv_byCanonical := AList.update (t, canonical) token (rv_byCanonical m),
                      rv_byToken := AList.update token original (rv_byToken m)\<rparr>))"

definition has_token :: "reverse_map \<Rightarrow> units \<Rightarrow> bool" where
  "has_token m token \<longleftrightarrow> map_of (rv_byToken m) token \<noteq> None"

definition unmask :: "reverse_map \<Rightarrow> units \<Rightarrow> units" where
  "unmask m text =
    (if rv_byToken m = [] then text
     else replace_all token_at (\<lambda>token. case map_of (rv_byToken m) token of Some v \<Rightarrow> v | None \<Rightarrow> token) text)"

subsection \<open>What an expression of single units matches\<close>

fun simple :: "rx \<Rightarrow> bool" where
  "simple (Sym f) \<longleftrightarrow> (\<exists>P. Sym f = one P)"
| "simple (Alt qss) \<longleftrightarrow> (\<forall>qs \<in> set qss. \<forall>q \<in> set qs. simple q)"

lemma run_one [simp]: "run ahead (one P # rs) s = (case s of [] \<Rightarrow> None | u # t \<Rightarrow> if P u then map_option Suc (run ahead rs t) else None)"
proof -
  have "(+) (Suc 0) = Suc" by auto
  then show ?thesis by (cases s) (simp_all add: one_def)
qed

lemma run_alt_None: "run ahead (Alt qss # rs) s = None \<longleftrightarrow> (\<forall>qs \<in> set qss. run ahead (qs @ rs) s = None)"
  by (induction qss) (auto split: option.splits)

lemma run_length: "run ahead rs s = Some n \<Longrightarrow> n \<le> length s"
  by (induction ahead rs s arbitrary: n rule: run.induct) (force split: if_splits option.splits)+

text \<open>A match stays a match, perhaps not the first, whatever follows it.\<close>

lemma run_extends:
  "run (\<lambda>_. True) rs s = Some n \<Longrightarrow> list_all simple rs \<Longrightarrow> run (\<lambda>_. True) rs (take n s @ r) \<noteq> None"
proof (induction "\<lambda>_ :: units. True" rs s arbitrary: n rule: run.induct)
  case (2 f rs s)
  from 2(3) obtain P where P: "Sym f = one P" by auto
  with 2(2) obtain u t where s: "s = u # t" "P u" by (cases s) (auto simp: run_one split: if_splits)
  then obtain m where m: "run (\<lambda>_. True) rs t = Some m" "n = Suc m" using 2(2) P by auto
  have f: "f (u # t) = 1" using P s by (simp add: one_def)
  with 2(1) [of m] 2(3) s m have "run (\<lambda>_. True) rs (take m t @ r) \<noteq> None" by simp
  with P s m show ?case by simp
next
  case (4 qs qss rs s)
  have "run (\<lambda>_. True) (qs @ rs) s = Some n \<or> run (\<lambda>_. True) (qs @ rs) s = None \<and> run (\<lambda>_. True) (Alt qss # rs) s = Some n"
    using 4(3) by (auto split: option.splits)
  then show ?case
  proof
    assume "run (\<lambda>_. True) (qs @ rs) s = Some n"
    moreover have "list_all simple (qs @ rs)" using 4(4) by (auto simp: list_all_iff)
    ultimately show ?thesis using 4(1) [of n] by (auto split: option.split)
  next
    assume "run (\<lambda>_. True) (qs @ rs) s = None \<and> run (\<lambda>_. True) (Alt qss # rs) s = Some n"
    moreover have "list_all simple (Alt qss # rs)" using 4(4) by auto
    ultimately show ?thesis using 4(2) [of n] by (auto split: option.split)
  qed
qed auto

text \<open>The units of a match satisfy what all symbols ask for.\<close>

fun only :: "(unit16 \<Rightarrow> bool) \<Rightarrow> rx \<Rightarrow> bool" where
  "only Q (Sym f) \<longleftrightarrow> (\<exists>P. Sym f = one P \<and> (\<forall>u. P u \<longrightarrow> Q u))"
| "only Q (Alt qss) \<longleftrightarrow> (\<forall>qs \<in> set qss. \<forall>q \<in> set qs. only Q q)"

lemma run_only: "run ahead rs s = Some n \<Longrightarrow> list_all (only Q) rs \<Longrightarrow> list_all Q (take n s)"
proof (induction ahead rs s arbitrary: n rule: run.induct)
  case (2 ahead f rs s)
  from 2(3) obtain P where P: "Sym f = one P" "\<forall>u. P u \<longrightarrow> Q u" by auto
  with 2(2) obtain u t where s: "s = u # t" "P u" by (cases s) (auto simp: run_one split: if_splits)
  then obtain m where m: "run ahead rs t = Some m" "n = Suc m" using 2(2) P by auto
  have f: "f (u # t) = 1" using P s by (simp add: one_def)
  with 2(1) [of m] 2(3) s m P show ?case by simp
next
  case (4 ahead qs qss rs s)
  then show ?case by (auto simp: list_all_iff split: option.splits)
qed (auto split: if_splits)

lemma one_inj [simp]: "one P = one P' \<longleftrightarrow> P = P'"
proof
  assume "one P = one P'"
  then have "(case [u] of u # _ \<Rightarrow> if P u then 1 else 0 | [] \<Rightarrow> 0) = (case [u] of u # _ \<Rightarrow> if P' u then 1 else (0 :: nat) | [] \<Rightarrow> 0)" for u
    unfolding one_def rx.inject by metis
  then have "P u = P' u" for u by (simp split: if_splits) (metis zero_neq_one)
  then show "P = P'" by auto
qed simp

lemma only_one [simp]: "only Q (one P) \<longleftrightarrow> (\<forall>u. P u \<longrightarrow> Q u)"
proof -
  have "only Q (one P) \<longleftrightarrow> (\<exists>P'. one P = one P' \<and> (\<forall>u. P' u \<longrightarrow> Q u))" unfolding one_def only.simps ..
  then show ?thesis by simp
qed

lemma only_chr [simp]: "only Q (chr c) \<longleftrightarrow> Q (u16 c)"
  by (simp add: chr_def)

lemma simple_chr [simp]: "simple (chr c)"
  by (auto simp: chr_def one_def)

lemma simple_one [simp]: "simple (one P)"
  by (auto simp: one_def)

lemma list_all_upto [simp]: "list_all simple qs \<Longrightarrow> list_all simple (upto_times n qs)"
  by (induction n) (auto simp: maybe_def list_all_iff)

lemma only_upto [simp]: "list_all (only Q) qs \<Longrightarrow> list_all (only Q) (upto_times n qs)"
  by (induction n) (auto simp: maybe_def list_all_iff)


subsection \<open>Reading a minted token\<close>

text \<open>A greedy repetition takes a run of units it is followed by something else.\<close>

lemma run_upto:
  "run ahead rs ys = Some k \<Longrightarrow> list_all P xs \<Longrightarrow> length xs \<le> n \<Longrightarrow> (case ys of [] \<Rightarrow> True | u # _ \<Rightarrow> \<not> P u) \<Longrightarrow>
   run ahead (upto_times n [one P] @ rs) (xs @ ys) = Some (length xs + k)"
proof (induction n arbitrary: xs)
  case (Suc n)
  show ?case
  proof (cases xs)
    case Nil
    with Suc.prems(1,4) show ?thesis by (cases ys) (simp_all add: maybe_def)
  next
    case (Cons u xs')
    with Suc.IH [of xs'] Suc.prems show ?thesis by (simp add: maybe_def)
  qed
qed simp

lemma run_prefix:
  "run ahead (PREFIXES # rs) (asc (TOKEN_PREFIX t) @ s) = map_option ((+) (length (TOKEN_PREFIX t))) (run ahead rs s)"
  by (cases t; cases "run ahead rs s") (simp_all add: PREFIXES_def PII_TYPES_def DETECTOR_TYPES_def chr_def asc_def)

lemma dec_units: "list_all is_digit16 (asc (dec n))"
  using dec_digits by (auto simp: asc_def list_all_iff is_digit_def is_digit16_def word_le_nat_alt)

lemma token_head_digits:
  assumes "run ahead rs ys = Some k" "(case ys of [] \<Rightarrow> True | u # _ \<Rightarrow> \<not> is_digit16 u)" "d \<noteq> []" "list_all is_digit16 d" "length d \<le> m"
  shows "run ahead (TOKEN_HEAD m @ rs) (asc ''['' @ asc (TOKEN_PREFIX t) @ asc ''_'' @ d @ ys) =
    Some (length (TOKEN_PREFIX t) + length d + 2 + k)"
proof -
  obtain u us where d: "d = u # us" using assms(3) by (cases d) auto
  then have digits: "is_digit16 u" "list_all is_digit16 us" using assms(4) by auto
  have "run ahead (upto_times m [one is_digit16] @ rs) (us @ ys) = Some (length us + k)"
    using assms d digits(2) by (intro run_upto) auto
  then have "run ahead ([chr CHR ''_'', one is_digit16] @ upto_times m [one is_digit16] @ rs) (asc ''_'' @ d @ ys) =
      Some (2 + length us + k)"
    using d digits(1) by (simp add: chr_def asc_def)
  then show ?thesis
    using run_prefix [of ahead "chr CHR ''_'' # one is_digit16 # upto_times m [one is_digit16] @ rs" t "asc ''_'' @ d @ ys"] d
    by (simp add: TOKEN_HEAD_def asc_def chr_def)
qed

lemma nonce_run:
  assumes "nonce_ok nonce" "run ahead rs ys = Some k" "(case ys of [] \<Rightarrow> True | u # _ \<Rightarrow> \<not> nonce_unit u)"
  shows "run ahead (times_between 2 16 [one nonce_unit] @ rs) (nonce @ ys) = Some (length nonce + k)"
proof -
  obtain a b us where n: "nonce = a # b # us" "nonce_unit a" "nonce_unit b" "list_all nonce_unit us" "length us \<le> 14"
    using assms(1) by (cases nonce; cases "tl nonce") (auto simp: nonce_ok_def)
  have "run ahead (upto_times 14 [one nonce_unit] @ rs) (us @ ys) = Some (length us + k)"
    using assms(2,3) n by (intro run_upto) auto
  then show ?thesis using n by (simp add: times_between_def numeral_2_eq_2)
qed

lemma length_token [simp]: "length (token_text t n nonce) = length (TOKEN_PREFIX t) + length (dec n) + length nonce + 4"
  by (simp add: token_text_def asc_def)

end
