(* ===== verification/Pii_Mask.thy ===== *)
theory Pii_Mask
  imports Pii_Token
begin

text \<open>
  Masking a text and a payload, opening it again, and the egress tripwire
  (\<open>packages/pii/src/mask.ts\<close>, \<open>counts.ts\<close>). A session is the reverse map; the accumulator of one call
  travels with it.
\<close>

subsection \<open>counts.ts\<close>

record counts =
  ct_occurrences :: nat
  ct_fields :: nat
  ct_byType :: "(pii_type \<times> nat) list"

definition newAccumulator :: counts where
  "newAccumulator = \<lparr>ct_occurrences = 0, ct_fields = 0, ct_byType = []\<rparr>"

definition countOccurrence :: "pii_type \<Rightarrow> counts \<Rightarrow> counts" where
  "countOccurrence t acc =
    acc\<lparr>ct_occurrences := ct_occurrences acc + 1,
        ct_byType := AList.update t ((case map_of (ct_byType acc) t of None \<Rightarrow> 0 | Some n \<Rightarrow> n) + 1) (ct_byType acc)\<rparr>"

definition countField :: "counts \<Rightarrow> counts" where
  "countField acc = acc\<lparr>ct_fields := ct_fields acc + 1\<rparr>"

text \<open>The types in declared order.\<close>

definition toCounts :: "counts \<Rightarrow> counts" where
  "toCounts acc = acc\<lparr>ct_byType := List.map_filter (\<lambda>t. map_option (Pair t) (map_of (ct_byType acc) t)) PII_TYPES\<rparr>"

subsection \<open>Texts\<close>

type_synonym session = "reverse_map \<times> counts"

text \<open>\<open>token.slice(1, -1)\<close> of what the shape matched.\<close>

definition defangForeignTokens :: "units \<Rightarrow> reverse_map \<Rightarrow> units" where
  "defangForeignTokens text m =
    (if u16 CHR ''['' \<notin> set text then text
     else replace_all shape_at (\<lambda>token. if has_token m token then token else butlast (tl token)) text)"

fun splice :: "units \<Rightarrow> nat \<Rightarrow> pii_match list \<Rightarrow> session \<Rightarrow> units \<times> session" where
  "splice source cursor [] s = (drop cursor source, s)"
| "splice source cursor (x # xs) (m, acc) =
    (let (token, m) = tokenFor (pm_type x) (pm_canonical x) (pm_text x) m;
         (rest, s) = splice source (pm_end x) xs (m, countOccurrence (pm_type x) acc)
     in (slice source cursor (pm_start x) @ token @ rest, s))"

definition maskInto :: "unicode \<Rightarrow> compiled_profile \<Rightarrow> units \<Rightarrow> session \<Rightarrow> units \<times> session" where
  "maskInto U P text s =
    (let source = defangForeignTokens text (fst s); matches = collectMatches U P source
     in if matches = [] then (source, s) else splice source 0 matches s)"

definition maskText :: "unicode \<Rightarrow> compiled_profile \<Rightarrow> units \<Rightarrow> reverse_map \<Rightarrow> (units \<times> counts) \<times> reverse_map" where
  "maskText U P text m =
    (let (masked, m', acc) = maskInto U P text (m, newAccumulator)
     in ((masked, toCounts (if masked \<noteq> text then countField acc else acc)), m'))"

definition maskString :: "unicode \<Rightarrow> compiled_profile \<Rightarrow> units \<Rightarrow> bool \<Rightarrow> session \<Rightarrow> units \<times> session" where
  "maskString U P value fieldRule s =
    (if \<not> fieldRule then maskInto U P value s
     else if value = [] \<or> has_token (fst s) value \<or> whole_token value then (value, s)
     else let (token, m) = tokenFor FieldRule value value (fst s) in (token, m, countOccurrence FieldRule (snd s)))"

subsection \<open>Payloads\<close>

text \<open>
  A JavaScript value as the walk tells them apart. A number is the text \<open>String\<close> prints for it, an
  object its own enumerable entries in order; \<open>Instance\<close> is an object of another prototype, \<open>Other\<close> a
  function or a symbol.
\<close>

datatype data =
    Null | Undefined
  | Boolean bool
  | Str units
  | Num units
  | Other string
  | Arr "data list"
  | DateOf units
  | Instance "(units \<times> data) list"
  | Object "(units \<times> data) list"

definition MAX_DEPTH :: nat where
  "MAX_DEPTH = 64"

definition too_deep :: string where
  "too_deep = ''payload is circular or nested deeper than 64 levels''"

definition item_path :: "units \<Rightarrow> nat \<Rightarrow> units" where
  "item_path path i = path @ asc ''['' @ asc (dec i) @ asc '']''"

definition entry_path :: "units \<Rightarrow> units \<Rightarrow> units" where
  "entry_path path key = (if path = [] then key else path @ asc ''.'' @ key)"

fun is_object :: "data \<Rightarrow> bool" where
  "is_object (Arr _) \<longleftrightarrow> True" | "is_object (DateOf _) \<longleftrightarrow> True" | "is_object (Instance _) \<longleftrightarrow> True"
| "is_object (Object _) \<longleftrightarrow> True" | "is_object _ \<longleftrightarrow> False"

text \<open>
  \<open>out[key] = item\<close> on an empty object, one entry after the other: the key \<open>__proto__\<close> sets the
  prototype, or does nothing when the item is a primitive.
\<close>

definition proto_key :: units where
  "proto_key = asc ''__proto__''"

definition assemble :: "(units \<times> data) list \<Rightarrow> data" where
  "assemble es =
    (let own = filter (\<lambda>(k, v). k \<noteq> proto_key) es
     in if \<exists>(k, v) \<in> set es. k = proto_key \<and> is_object v then Instance own else Object own)"

type_synonym 'a masking = "session \<Rightarrow> (pii_error + 'a) \<times> session"

definition after :: "'a masking \<Rightarrow> ('a \<Rightarrow> 'b masking) \<Rightarrow> 'b masking" where
  "after f g s = (case f s of (Inl e, s') \<Rightarrow> (Inl e, s') | (Inr x, s') \<Rightarrow> g x s')"

definition give :: "'a \<Rightarrow> 'a masking" where
  "give x s = (Inr x, s)"

definition refuse :: "pii_error \<Rightarrow> 'a masking" where
  "refuse e s = (Inl e, s)"

text \<open>The leaves: a field is counted when the leaf changed.\<close>

definition walk_string :: "unicode \<Rightarrow> compiled_profile \<Rightarrow> units \<Rightarrow> bool \<Rightarrow> data \<Rightarrow> data masking" where
  "walk_string U P value fieldRule same s =
    (let (masked, m, acc) = maskString U P value fieldRule s
     in if masked = value then (Inr same, m, acc) else (Inr (Str masked), m, countField acc))"

fun walk :: "unicode \<Rightarrow> compiled_profile \<Rightarrow> units \<Rightarrow> nat \<Rightarrow> bool \<Rightarrow> data \<Rightarrow> data masking"
and walk_items :: "unicode \<Rightarrow> compiled_profile \<Rightarrow> units \<Rightarrow> nat \<Rightarrow> bool \<Rightarrow> nat \<Rightarrow> data list \<Rightarrow> data list masking"
and walk_entries :: "unicode \<Rightarrow> compiled_profile \<Rightarrow> units \<Rightarrow> nat \<Rightarrow> (units \<times> data) list \<Rightarrow> (units \<times> data) list masking" where
  "walk U P path depth fr value =
    (if MAX_DEPTH < depth then refuse (PiiArgument path too_deep)
     else case value of
       Null \<Rightarrow> give Null
     | Undefined \<Rightarrow> give Undefined
     | Boolean b \<Rightarrow> give (Boolean b)
     | Str text \<Rightarrow> walk_string U P text fr (Str text)
     | Num text \<Rightarrow> walk_string U P text fr (Num text)
     | Other kind \<Rightarrow> refuse (PiiArgument path (kind @ '' values cannot be masked''))
     | Arr items \<Rightarrow> after (walk_items U P path depth fr 0 items) (\<lambda>out. give (Arr out))
     | DateOf d \<Rightarrow> give (DateOf d)
     | Instance es \<Rightarrow> refuse (PiiArgument path ''only plain objects, arrays, Dates and primitives are maskable'')
     | Object es \<Rightarrow> after (walk_entries U P path depth es) (\<lambda>out. give (assemble out)))"
| "walk_items U P path depth fr i [] = give []"
| "walk_items U P path depth fr i (x # xs) =
    after (walk U P (item_path path i) (depth + 1) fr x)
      (\<lambda>y. after (walk_items U P path depth fr (Suc i) xs) (\<lambda>ys. give (y # ys)))"
| "walk_entries U P path depth [] = give []"
| "walk_entries U P path depth ((key, x) # es) =
    after (walk U P (entry_path path key) (depth + 1) (un_lower U key \<in> cp_fieldRules P) x)
      (\<lambda>y. after (walk_entries U P path depth es) (\<lambda>ys. give ((key, y) # ys)))"

declare walk.simps [simp del]

definition maskValue :: "unicode \<Rightarrow> compiled_profile \<Rightarrow> data \<Rightarrow> reverse_map \<Rightarrow> (pii_error + (data \<times> counts)) \<times> reverse_map" where
  "maskValue U P value m =
    (case walk U P [] 0 False value (m, newAccumulator) of
       (Inl e, m', _) \<Rightarrow> (Inl e, m')
     | (Inr masked, m', acc) \<Rightarrow> (Inr (masked, toCounts acc), m'))"

fun unwalk :: "reverse_map \<Rightarrow> units \<Rightarrow> nat \<Rightarrow> data \<Rightarrow> pii_error + data"
and unwalk_items :: "reverse_map \<Rightarrow> units \<Rightarrow> nat \<Rightarrow> nat \<Rightarrow> data list \<Rightarrow> pii_error + data list"
and unwalk_entries :: "reverse_map \<Rightarrow> units \<Rightarrow> nat \<Rightarrow> (units \<times> data) list \<Rightarrow> pii_error + (units \<times> data) list" where
  "unwalk m path depth value =
    (if MAX_DEPTH < depth then Inl (PiiArgument path too_deep)
     else case value of
       Str text \<Rightarrow> Inr (Str (unmask m text))
     | Arr items \<Rightarrow> map_sum id Arr (unwalk_items m path depth 0 items)
     | Object es \<Rightarrow> map_sum id assemble (unwalk_entries m path depth es)
     | other \<Rightarrow> Inr other)"
| "unwalk_items m path depth i [] = Inr []"
| "unwalk_items m path depth i (x # xs) =
    (case unwalk m (item_path path i) (depth + 1) x of
       Inl e \<Rightarrow> Inl e
     | Inr y \<Rightarrow> map_sum id (Cons y) (unwalk_items m path depth (Suc i) xs))"
| "unwalk_entries m path depth [] = Inr []"
| "unwalk_entries m path depth ((key, x) # es) =
    (case unwalk m (entry_path path key) (depth + 1) x of
       Inl e \<Rightarrow> Inl e
     | Inr y \<Rightarrow> map_sum id (Cons (key, y)) (unwalk_entries m path depth es))"

declare unwalk.simps [simp del]

definition unmaskValue :: "data \<Rightarrow> reverse_map \<Rightarrow> pii_error + data" where
  "unmaskValue value m = unwalk m [] 0 value"

subsection \<open>The tripwire\<close>

fun countKeyPii :: "unicode \<Rightarrow> compiled_profile \<Rightarrow> data \<Rightarrow> counts \<Rightarrow> counts"
and countKeyPii_items :: "unicode \<Rightarrow> compiled_profile \<Rightarrow> data list \<Rightarrow> counts \<Rightarrow> counts"
and countKeyPii_entries :: "unicode \<Rightarrow> compiled_profile \<Rightarrow> (units \<times> data) list \<Rightarrow> counts \<Rightarrow> counts" where
  "countKeyPii U P value acc =
    (case value of
       Arr items \<Rightarrow> countKeyPii_items U P items acc
     | Object es \<Rightarrow> countKeyPii_entries U P es acc
     | _ \<Rightarrow> acc)"
| "countKeyPii_items U P [] acc = acc"
| "countKeyPii_items U P (x # xs) acc = countKeyPii_items U P xs (countKeyPii U P x acc)"
| "countKeyPii_entries U P [] acc = acc"
| "countKeyPii_entries U P ((key, x) # es) acc =
    countKeyPii_entries U P es
      (countKeyPii U P x (fold (\<lambda>m. countOccurrence (pm_type m)) (collectMatches U P key) acc))"

declare countKeyPii.simps [simp del]

text \<open>The session of a scan has a nonce of its own and is dropped; the generator makes valid nonces.\<close>

definition scanForPii :: "unicode \<Rightarrow> compiled_profile \<Rightarrow> units \<Rightarrow> data \<Rightarrow> pii_error + counts" where
  "scanForPii U P nonce value =
    (case new_map nonce of
       Inl e \<Rightarrow> Inl e
     | Inr m \<Rightarrow>
       (case walk U P [] 0 False value (m, newAccumulator) of
          (Inl e, _) \<Rightarrow> Inl e
        | (Inr _, _, acc) \<Rightarrow> Inr (toCounts (countKeyPii U P value acc))))"

definition assertNoPii :: "unicode \<Rightarrow> compiled_profile \<Rightarrow> units \<Rightarrow> data \<Rightarrow> units \<Rightarrow> pii_error + unit" where
  "assertNoPii U P nonce value boundary =
    (case scanForPii U P nonce value of
       Inl e \<Rightarrow> Inl e
     | Inr counts \<Rightarrow>
       (if ct_occurrences counts = 0 then Inr ()
        else Inl (PiiLeak boundary (filter (\<lambda>t. map_of (ct_byType counts) t \<noteq> None) PII_TYPES) (ct_occurrences counts))))"

end
