(* ===== verification/Pii_Words.thy ===== *)
theory Pii_Words
  imports Pii_Mask
begin

text \<open>
  What the two token expressions match, as words: a text of the form prefix, number, nonce between
  brackets. The properties of masking are proved over these words, not over the expressions.
\<close>

subsection \<open>Words\<close>

definition token_word :: "units \<Rightarrow> bool" where
  "token_word w \<longleftrightarrow> (\<exists>t d z. w = asc ''['' @ asc (TOKEN_PREFIX t) @ asc ''_'' @ d @ asc ''.'' @ z @ asc '']'' \<and>
    d \<noteq> [] \<and> list_all is_digit16 d \<and> nonce_ok z)"

definition bare_word :: "units \<Rightarrow> bool" where
  "bare_word w \<longleftrightarrow> (\<exists>t d. w = asc ''['' @ asc (TOKEN_PREFIX t) @ asc ''_'' @ d @ asc '']'' \<and> d \<noteq> [] \<and> list_all is_digit16 d)"

lemma brackets_not_units [simp]:
  "\<not> is_digit16 (u16 CHR '']'')" "\<not> is_digit16 (u16 CHR ''['')" "\<not> is_digit16 (u16 CHR ''.'')" "\<not> is_digit16 (u16 CHR ''_'')"
  "\<not> nonce_unit (u16 CHR '']'')" "\<not> nonce_unit (u16 CHR ''['')" "\<not> nonce_unit (u16 CHR ''.'')"
  by (simp_all add: is_digit16_def nonce_unit_def word_le_nat_alt)

lemma no_brackets:
  "list_all is_digit16 d \<Longrightarrow> u16 CHR ''['' \<notin> set d" "list_all is_digit16 d \<Longrightarrow> u16 CHR '']'' \<notin> set d"
  "list_all nonce_unit z \<Longrightarrow> u16 CHR ''['' \<notin> set z" "list_all nonce_unit z \<Longrightarrow> u16 CHR '']'' \<notin> set z"
  using brackets_not_units by (auto simp: list_all_iff simp del: brackets_not_units)

lemma prefix_no_bracket [simp]:
  "u16 CHR ''['' \<notin> set (asc (TOKEN_PREFIX t))" "u16 CHR '']'' \<notin> set (asc (TOKEN_PREFIX t))" "u16 CHR ''_'' \<notin> set (asc (TOKEN_PREFIX t))"
  by (cases t; simp)+

text \<open>The opening bracket is the first unit only, the closing one the last only.\<close>

lemma token_word_brackets:
  assumes "token_word w \<or> bare_word w"
  obtains v where "w = u16 CHR ''['' # v @ [u16 CHR '']'']" "u16 CHR ''['' \<notin> set v" "u16 CHR '']'' \<notin> set v" "v \<noteq> []"
  using assms
proof
  assume "token_word w"
  then obtain t d z where w: "w = asc ''['' @ asc (TOKEN_PREFIX t) @ asc ''_'' @ d @ asc ''.'' @ z @ asc '']''"
    and d: "list_all is_digit16 d" and z: "nonce_ok z" unfolding token_word_def by blast
  have "list_all nonce_unit z" using z by (simp add: nonce_ok_def)
  with d show ?thesis
    by (intro that [of "asc (TOKEN_PREFIX t) @ asc ''_'' @ d @ asc ''.'' @ z"]) (auto simp: w simp: no_brackets)
next
  assume "bare_word w"
  then obtain t d where w: "w = asc ''['' @ asc (TOKEN_PREFIX t) @ asc ''_'' @ d @ asc '']''"
    and d: "list_all is_digit16 d" unfolding bare_word_def by blast
  then show ?thesis
    by (intro that [of "asc (TOKEN_PREFIX t) @ asc ''_'' @ d"]) (auto simp: w simp: no_brackets)
qed

subsection \<open>What the expressions match\<close>

lemma run_upto_inv:
  "run ahead (upto_times n [one P] @ rs) s = Some k \<Longrightarrow>
   \<exists>xs ys j. s = xs @ ys \<and> list_all P xs \<and> length xs \<le> n \<and> k = length xs + j \<and> run ahead rs ys = Some j"
proof (induction n arbitrary: s k)
  case 0
  then show ?case by (intro exI [of _ "[]"] exI [of _ s] exI [of _ k]) simp
next
  case (Suc n)
  show ?case
  proof (cases "\<exists>u t k'. s = u # t \<and> P u \<and> run ahead (upto_times n [one P] @ rs) t = Some k' \<and> k = Suc k'")
    case True
    then obtain u t k' where s: "s = u # t" "P u" "run ahead (upto_times n [one P] @ rs) t = Some k'" "k = Suc k'" by blast
    from Suc.IH [OF s(3)] obtain xs ys j where
      "t = xs @ ys" "list_all P xs" "length xs \<le> n" "k' = length xs + j" "run ahead rs ys = Some j" by blast
    then show ?thesis using s by (intro exI [of _ "u # xs"] exI [of _ ys] exI [of _ j]) simp
  next
    case False
    with Suc.prems have "run ahead rs s = Some k"
      by (cases s) (auto simp: maybe_def split: if_splits option.splits)
    then show ?thesis by (intro exI [of _ "[]"] exI [of _ s] exI [of _ k]) simp
  qed
qed

lemma run_chr [simp]: "run ahead (chr c # rs) s = (case s of [] \<Rightarrow> None | u # t \<Rightarrow> if u = u16 c then map_option Suc (run ahead rs t) else None)"
  by (simp add: chr_def)

lemma run_prefix_inv:
  "run ahead (PREFIXES # rs) s = Some k \<Longrightarrow>
   \<exists>t r j. s = asc (TOKEN_PREFIX t) @ r \<and> run ahead rs r = Some j \<and> k = length (TOKEN_PREFIX t) + j"
proof -
  assume a: "run ahead (PREFIXES # rs) s = Some k"
  have step: "run ahead (map chr w @ rs) s = Some k \<Longrightarrow> \<exists>r j. s = asc w @ r \<and> run ahead rs r = Some j \<and> k = length w + j" for w s k
    by (induction w arbitrary: s k) (fastforce split: list.splits if_splits)+
  have alt: "run ahead (Alt (map f ts) # rs) s = Some k \<Longrightarrow> \<exists>t. run ahead (f t @ rs) s = Some k" for f :: "pii_type \<Rightarrow> rx list" and ts
    by (induction ts) (auto split: option.splits)
  from alt [OF a [unfolded PREFIXES_def]] obtain t where "run ahead (map chr (TOKEN_PREFIX t) @ rs) s = Some k" by blast
  then show ?thesis using step by blast
qed


lemma TOKEN_HEAD_inv:
  assumes "run ahead (TOKEN_HEAD m @ rs) s = Some k"
  shows "\<exists>t d r j. s = asc ''['' @ asc (TOKEN_PREFIX t) @ asc ''_'' @ d @ r \<and> d \<noteq> [] \<and> list_all is_digit16 d \<and>
    run ahead rs r = Some j \<and> k = length (TOKEN_PREFIX t) + length d + 2 + j"
proof -
  from assms obtain s' k' where s: "s = u16 CHR ''['' # s'" "k = Suc k'"
    and r: "run ahead (PREFIXES # [chr CHR ''_'', one is_digit16] @ upto_times m [one is_digit16] @ rs) s' = Some k'"
    by (cases s) (auto simp: TOKEN_HEAD_def split: if_splits)
  from run_prefix_inv [OF r] obtain t q j where q: "s' = asc (TOKEN_PREFIX t) @ q" "k' = length (TOKEN_PREFIX t) + j"
    and q': "run ahead ([chr CHR ''_'', one is_digit16] @ upto_times m [one is_digit16] @ rs) q = Some j" by blast
  from q' obtain u q1 j1 where u: "q = u16 CHR ''_'' # u # q1" "is_digit16 u" "j = 2 + j1"
    and q1: "run ahead (upto_times m [one is_digit16] @ rs) q1 = Some j1"
    by (auto split: list.splits if_splits)
  from run_upto_inv [OF q1] obtain xs ys i where "q1 = xs @ ys" "list_all is_digit16 xs" "j1 = length xs + i" "run ahead rs ys = Some i"
    by blast
  then show ?thesis using s q u by (intro exI [of _ t] exI [of _ "u # xs"] exI [of _ ys] exI [of _ i]) simp
qed

lemma nonce_inv:
  assumes "run ahead (times_between 2 16 [one nonce_unit] @ rs) s = Some k"
  shows "\<exists>z r j. s = z @ r \<and> nonce_ok z \<and> run ahead rs r = Some j \<and> k = length z + j"
proof -
  from assms obtain u v q j where s: "s = u # v # q" "nonce_unit u" "nonce_unit v" "k = 2 + j"
    and q: "run ahead (upto_times 14 [one nonce_unit] @ rs) q = Some j"
    by (auto simp: times_between_def numeral_2_eq_2 split: list.splits if_splits)
  from run_upto_inv [OF q] obtain xs ys i where "q = xs @ ys" "list_all nonce_unit xs" "length xs \<le> 14" "j = length xs + i" "run ahead rs ys = Some i"
    by blast
  then show ?thesis using s by (intro exI [of _ "u # v # xs"] exI [of _ ys] exI [of _ i]) (simp add: nonce_ok_def)
qed

lemma tail_inv:
  assumes "run ahead (chr CHR ''.'' # times_between 2 16 [one nonce_unit] @ [chr CHR '']'']) s = Some k"
  shows "\<exists>z r. s = asc ''.'' @ z @ asc '']'' @ r \<and> nonce_ok z \<and> ahead r \<and> k = length z + 2"
proof -
  from assms obtain q j where s: "s = u16 CHR ''.'' # q" "k = Suc j" and q: "run ahead (times_between 2 16 [one nonce_unit] @ [chr CHR '']'']) q = Some j"
    by (auto split: list.splits if_splits)
  from nonce_inv [OF q] obtain z r i where "q = z @ r" "nonce_ok z" "run ahead [chr CHR '']''] r = Some i" "j = length z + i" by blast
  moreover from this(3) obtain q' where "r = u16 CHR '']'' # q'" "ahead q'" "i = 1" by (auto split: list.splits if_splits)
  ultimately show ?thesis using s by (intro exI [of _ z] exI [of _ q']) simp
qed

lemma token_at_word:
  assumes "token_at s = Some n"
  shows "n \<le> length s \<and> token_word (take n s)"
proof -
  from assms have "run (\<lambda>_. True) (TOKEN_HEAD (length s) @ chr CHR ''.'' # times_between 2 16 [one nonce_unit] @ [chr CHR '']'']) s = Some n"
    by (simp add: token_at_def TOKEN_PATTERN_def)
  from TOKEN_HEAD_inv [OF this] obtain t d r j where s: "s = asc ''['' @ asc (TOKEN_PREFIX t) @ asc ''_'' @ d @ r" "d \<noteq> []" "list_all is_digit16 d"
    "n = length (TOKEN_PREFIX t) + length d + 2 + j"
    and r: "run (\<lambda>_. True) (chr CHR ''.'' # times_between 2 16 [one nonce_unit] @ [chr CHR '']'']) r = Some j" by blast
  from tail_inv [OF r] obtain z q where z: "r = asc ''.'' @ z @ asc '']'' @ q" "nonce_ok z" "j = length z + 2" by blast
  define w where "w = asc ''['' @ asc (TOKEN_PREFIX t) @ asc ''_'' @ d @ asc ''.'' @ z @ asc '']''"
  have "s = w @ q" "n = length w" using s z by (simp_all add: w_def)
  moreover have "token_word w" unfolding token_word_def using w_def s z by blast
  ultimately show ?thesis by simp
qed

lemma token_at_of_word:
  assumes "token_word w"
  shows "token_at (w @ r) = Some (length w)"
proof -
  from assms obtain t d z where w: "w = asc ''['' @ asc (TOKEN_PREFIX t) @ asc ''_'' @ d @ asc ''.'' @ z @ asc '']''"
    and d: "d \<noteq> []" "list_all is_digit16 d" and z: "nonce_ok z" unfolding token_word_def by blast
  have "run (\<lambda>_. True) (times_between 2 16 [one nonce_unit] @ [chr CHR '']'']) (z @ asc '']'' @ r) = Some (length z + 1)"
    by (rule nonce_run [OF z]) simp_all
  then have rest: "run (\<lambda>_. True) (chr CHR ''.'' # times_between 2 16 [one nonce_unit] @ [chr CHR '']'']) (asc ''.'' @ z @ asc '']'' @ r) =
      Some (length z + 2)"
    by simp
  have "run (\<lambda>_. True) (TOKEN_HEAD (length (w @ r)) @ chr CHR ''.'' # times_between 2 16 [one nonce_unit] @ [chr CHR '']''])
      (asc ''['' @ asc (TOKEN_PREFIX t) @ asc ''_'' @ d @ asc ''.'' @ z @ asc '']'' @ r) =
    Some (length (TOKEN_PREFIX t) + length d + 2 + (length z + 2))"
    by (rule token_head_digits [OF rest _ d]) (simp_all add: w)
  then show ?thesis by (simp add: token_at_def TOKEN_PATTERN_def w)
qed


lemma shape_at_word:
  assumes "shape_at s = Some n"
  shows "n \<le> length s \<and> (token_word (take n s) \<or> bare_word (take n s))"
proof -
  let ?tail = "chr CHR ''.'' # times_between 2 16 [one nonce_unit]"
  from assms have "run (\<lambda>_. True) (TOKEN_HEAD (length s) @ maybe ?tail # [chr CHR '']'']) s = Some n"
    by (simp add: shape_at_def TOKEN_SHAPE_def)
  from TOKEN_HEAD_inv [OF this] obtain t d r j where s: "s = asc ''['' @ asc (TOKEN_PREFIX t) @ asc ''_'' @ d @ r" "d \<noteq> []" "list_all is_digit16 d"
    "n = length (TOKEN_PREFIX t) + length d + 2 + j" and r: "run (\<lambda>_. True) (maybe ?tail # [chr CHR '']'']) r = Some j" by blast
  then consider (nonce) "run (\<lambda>_. True) (?tail @ [chr CHR '']'']) r = Some j" | (bare) "run (\<lambda>_. True) [chr CHR '']''] r = Some j"
    by (fastforce simp: maybe_def simp del: run_chr split: option.splits)
  then show ?thesis
  proof cases
    case nonce
    then obtain z q where z: "r = asc ''.'' @ z @ asc '']'' @ q" "nonce_ok z" "j = length z + 2"
      using tail_inv [of "\<lambda>_. True" r j] by (metis append_Cons)
    define w where "w = asc ''['' @ asc (TOKEN_PREFIX t) @ asc ''_'' @ d @ asc ''.'' @ z @ asc '']''"
    have "s = w @ q" "n = length w" using s z by (simp_all add: w_def)
    moreover have "token_word w" unfolding token_word_def using w_def s z by blast
    ultimately show ?thesis by simp
  next
    case bare
    then obtain q where z: "r = asc '']'' @ q" "j = 1" by (auto split: list.splits if_splits)
    define w where "w = asc ''['' @ asc (TOKEN_PREFIX t) @ asc ''_'' @ d @ asc '']''"
    have "s = w @ q" "n = length w" using s z by (simp_all add: w_def)
    moreover have "bare_word w" unfolding bare_word_def using w_def s by blast
    ultimately show ?thesis by simp
  qed
qed

lemma shape_at_of_token:
  assumes "token_word w"
  shows "shape_at (w @ r) = Some (length w)"
proof -
  from assms obtain t d z where w: "w = asc ''['' @ asc (TOKEN_PREFIX t) @ asc ''_'' @ d @ asc ''.'' @ z @ asc '']''"
    and d: "d \<noteq> []" "list_all is_digit16 d" and z: "nonce_ok z" unfolding token_word_def by blast
  have "run (\<lambda>_. True) (times_between 2 16 [one nonce_unit] @ [chr CHR '']'']) (z @ asc '']'' @ r) = Some (length z + 1)"
    by (rule nonce_run [OF z]) simp_all
  then have rest: "run (\<lambda>_. True) (maybe (chr CHR ''.'' # times_between 2 16 [one nonce_unit]) # [chr CHR '']'']) (asc ''.'' @ z @ asc '']'' @ r) =
      Some (length z + 2)"
    by (simp add: maybe_def)
  have "run (\<lambda>_. True) (TOKEN_HEAD (length (w @ r)) @ maybe (chr CHR ''.'' # times_between 2 16 [one nonce_unit]) # [chr CHR '']''])
      (asc ''['' @ asc (TOKEN_PREFIX t) @ asc ''_'' @ d @ asc ''.'' @ z @ asc '']'' @ r) =
    Some (length (TOKEN_PREFIX t) + length d + 2 + (length z + 2))"
    by (rule token_head_digits [OF rest _ d]) (simp_all add: w)
  then show ?thesis by (simp add: shape_at_def TOKEN_SHAPE_def w)
qed

lemma shape_at_of_bare:
  assumes "bare_word w"
  shows "shape_at (w @ r) = Some (length w)"
proof -
  from assms obtain t d where w: "w = asc ''['' @ asc (TOKEN_PREFIX t) @ asc ''_'' @ d @ asc '']''"
    and d: "d \<noteq> []" "list_all is_digit16 d" unfolding bare_word_def by blast
  have rest: "run (\<lambda>_. True) (maybe (chr CHR ''.'' # times_between 2 16 [one nonce_unit]) # [chr CHR '']'']) (asc '']'' @ r) = Some 1"
    by (simp add: maybe_def)
  have "run (\<lambda>_. True) (TOKEN_HEAD (length (w @ r)) @ maybe (chr CHR ''.'' # times_between 2 16 [one nonce_unit]) # [chr CHR '']''])
      (asc ''['' @ asc (TOKEN_PREFIX t) @ asc ''_'' @ d @ asc '']'' @ r) =
    Some (length (TOKEN_PREFIX t) + length d + 2 + 1)"
    by (rule token_head_digits [OF rest _ d]) (simp_all add: w)
  then show ?thesis by (simp add: shape_at_def TOKEN_SHAPE_def w)
qed

lemma word_not_Nil [simp]: "\<not> token_word []" "\<not> bare_word []"
  using token_word_brackets [of "[]"] by blast+

subsection \<open>Minted tokens\<close>

lemma token_text_word: "nonce_ok z \<Longrightarrow> token_word (token_text t n z)"
  unfolding token_word_def token_text_def using dec_units [of n] dec_nonempty [of n] by (metis length_0_conv asc_simps(4))

lemmas token_at_token = token_at_of_word [OF token_text_word]

lemma split_first: "x \<notin> set a \<Longrightarrow> x \<notin> set b \<Longrightarrow> a @ x # c = b @ x # d \<Longrightarrow> a = b \<and> c = d"
  by (induction a b rule: list_induct2') auto

lemma TOKEN_PREFIX_inj: "TOKEN_PREFIX t = TOKEN_PREFIX t' \<longleftrightarrow> t = t'"
  by (cases t; cases t') simp_all

text \<open>A minted token says its type, its number and its session.\<close>

lemma token_text_inj: "token_text t n z = token_text t' n' z' \<longleftrightarrow> t = t' \<and> n = n' \<and> z = z'"
proof
  assume a: "token_text t n z = token_text t' n' z'"
  then have "asc (TOKEN_PREFIX t) @ u16 CHR ''_'' # (asc (dec n) @ u16 CHR ''.'' # z @ asc '']'') =
      asc (TOKEN_PREFIX t') @ u16 CHR ''_'' # (asc (dec n') @ u16 CHR ''.'' # z' @ asc '']'')"
    by (simp add: token_text_def)
  then have p: "asc (TOKEN_PREFIX t) = asc (TOKEN_PREFIX t')"
    and r: "asc (dec n) @ u16 CHR ''.'' # z @ asc '']'' = asc (dec n') @ u16 CHR ''.'' # z' @ asc '']''"
    using split_first [of "u16 CHR ''_''"] prefix_no_bracket by blast+
  have dot: "u16 CHR ''.'' \<notin> set (asc (dec k))" for k
    using dec_units [of k] brackets_not_units(3) by (auto simp: list_all_iff simp del: brackets_not_units)
  from split_first [OF dot dot r] p show "t = t' \<and> n = n' \<and> z = z'"
    by (auto simp: TOKEN_PREFIX_inj)
qed simp

subsection \<open>Replacing words\<close>

lemma replace_step: "at (u # s) = None \<Longrightarrow> replace_all at f (u # s) = u # replace_all at f s"
  by (subst replace_all.simps) simp

lemma replace_skip:
  "(\<forall>i < length a. at (drop i a @ s) = None) \<Longrightarrow> replace_all at f (a @ s) = a @ replace_all at f s"
proof (induction a)
  case (Cons u a)
  from Cons.prems have "at (u # a @ s) = None" by force
  moreover have "\<forall>i < length a. at (drop i a @ s) = None"
    using Cons.prems by (metis Suc_less_eq append_Cons drop_Suc_Cons length_Cons)
  ultimately show ?case using Cons.IH by (simp add: replace_step)
qed simp

lemma replace_word: "at (w @ s) = Some (length w) \<Longrightarrow> w \<noteq> [] \<Longrightarrow> replace_all at f (w @ s) = f w @ replace_all at f s"
  by (subst replace_all.simps) (cases w; simp)

lemma replace_none: "(\<forall>i. at (drop i s) = None) \<Longrightarrow> replace_all at f s = s"
  using replace_skip [of s at "[]" f] by (simp add: replace_all.simps)

end
