(* ===== verification/Pii_Session.thy ===== *)
theory Pii_Session
  imports Pii_Words
begin

text \<open>
  What a masking session keeps: tokens and values stand for each other one to one, a token once handed
  out keeps its meaning, and a masked text opens to what it was.
\<close>

subsection \<open>The reverse map\<close>

definition counter :: "reverse_map \<Rightarrow> pii_type \<Rightarrow> nat" where
  "counter m t = (case map_of (rv_counters m) t of None \<Rightarrow> 0 | Some n \<Rightarrow> n)"

definition value_of :: "reverse_map \<Rightarrow> units \<Rightarrow> units option" where
  "value_of m = map_of (rv_byToken m)"

definition token_of :: "reverse_map \<Rightarrow> pii_type \<times> units \<Rightarrow> units option" where
  "token_of m = map_of (rv_byCanonical m)"

definition session_ok :: "reverse_map \<Rightarrow> bool" where
  "session_ok m \<longleftrightarrow> nonce_ok (rv_nonce m) \<and>
    (\<forall>k v. value_of m k = Some v \<longrightarrow> (\<exists>t n. k = token_text t n (rv_nonce m) \<and> n \<le> counter m t)) \<and>
    (\<forall>k tok. token_of m k = Some tok \<longrightarrow> (\<exists>n. tok = token_text (fst k) n (rv_nonce m) \<and> n \<le> counter m (fst k)) \<and> value_of m tok \<noteq> None) \<and>
    (\<forall>k k' tok. token_of m k = Some tok \<longrightarrow> token_of m k' = Some tok \<longrightarrow> k = k')"

text \<open>A later state of the same session.\<close>

definition grows :: "reverse_map \<Rightarrow> reverse_map \<Rightarrow> bool" where
  "grows m m' \<longleftrightarrow> rv_nonce m' = rv_nonce m \<and> value_of m \<subseteq>\<^sub>m value_of m' \<and> token_of m \<subseteq>\<^sub>m token_of m'"

lemma grows_refl [simp]: "grows m m"
  by (simp add: grows_def)

lemma grows_trans [trans]: "grows a b \<Longrightarrow> grows b c \<Longrightarrow> grows a c"
  unfolding grows_def by (auto intro: map_le_trans)

lemma grows_value: "grows m m' \<Longrightarrow> value_of m k = Some v \<Longrightarrow> value_of m' k = Some v"
  by (force simp: grows_def map_le_def)

lemma grows_token: "grows m m' \<Longrightarrow> token_of m k = Some tok \<Longrightarrow> token_of m' k = Some tok"
  by (force simp: grows_def map_le_def)

text \<open>\<open>sp\<close> says how each value is spelled.\<close>

definition spelled :: "(pii_type \<times> units \<Rightarrow> units) \<Rightarrow> reverse_map \<Rightarrow> bool" where
  "spelled sp m \<longleftrightarrow> (\<forall>k tok. token_of m k = Some tok \<longrightarrow> value_of m tok = Some (sp k))"

lemma new_map_ok: "new_map nonce = Inr m \<Longrightarrow> session_ok m \<and> spelled sp m \<and> rv_nonce m = nonce \<and> rv_byToken m = []"
  by (auto simp: new_map_def session_ok_def spelled_def value_of_def token_of_def split: if_splits)

lemma has_token_value: "has_token m tok \<longleftrightarrow> value_of m tok \<noteq> None"
  by (simp add: has_token_def value_of_def)

lemma tokenFor_cases:
  assumes "tokenFor t c v m = (tok, m')"
  obtains (old) "token_of m (t, c) = Some tok" "m' = m"
  | (new) "token_of m (t, c) = None" "tok = token_text t (counter m t + 1) (rv_nonce m)"
      "token_of m' = (token_of m)((t, c) \<mapsto> tok)" "value_of m' = (value_of m)(tok \<mapsto> v)"
      "counter m' = (counter m)(t := counter m t + 1)" "rv_nonce m' = rv_nonce m"
proof (cases "token_of m (t, c)")
  case None
  then have "map_of (rv_byCanonical m) (t, c) = None" by (simp add: token_of_def)
  then have "(tok, m') = tokenFor t c v m" and n: "tok = token_text t (counter m t + 1) (rv_nonce m)"
    and m': "m' = m\<lparr>rv_counters := AList.update t (counter m t + 1) (rv_counters m),
      rv_byCanonical := AList.update (t, c) tok (rv_byCanonical m), rv_byToken := AList.update tok v (rv_byToken m)\<rparr>"
    using assms by (auto simp: tokenFor_def counter_def Let_def)
  show ?thesis
    by (rule new [OF None n]) (simp_all add: m' token_of_def value_of_def counter_def fun_eq_iff update_conv)
next
  case (Some tok')
  then show ?thesis using assms by (intro old) (auto simp: tokenFor_def token_of_def)
qed

lemma fresh_token:
  assumes "session_ok m"
  shows "value_of m (token_text t (counter m t + 1) (rv_nonce m)) = None" "token_of m k \<noteq> Some (token_text t (counter m t + 1) (rv_nonce m))"
proof -
  show "value_of m (token_text t (counter m t + 1) (rv_nonce m)) = None"
  proof (rule ccontr)
    assume "value_of m (token_text t (counter m t + 1) (rv_nonce m)) \<noteq> None"
    then obtain t' n where "token_text t (counter m t + 1) (rv_nonce m) = token_text t' n (rv_nonce m)" "n \<le> counter m t'"
      using assms unfolding session_ok_def by blast
    then show False using token_text_inj by fastforce
  qed
  then show "token_of m k \<noteq> Some (token_text t (counter m t + 1) (rv_nonce m))"
    using assms unfolding session_ok_def by blast
qed

lemma session_token:
  assumes "session_ok m" "token_of m k = Some tok"
  obtains n where "tok = token_text (fst k) n (rv_nonce m)" "n \<le> counter m (fst k)" "value_of m tok \<noteq> None" "nonce_ok (rv_nonce m)"
  using assms unfolding session_ok_def by blast

lemma mint_new:
  assumes "session_ok m" "tok = token_text t (counter m t + 1) (rv_nonce m)" "token_of m (t, c) = None"
    "token_of m' = (token_of m)((t, c) \<mapsto> tok)" "value_of m' = (value_of m)(tok \<mapsto> v)"
    "counter m' = (counter m)(t := counter m t + 1)" "rv_nonce m' = rv_nonce m"
  shows "session_ok m'"
proof -
  note new = assms(2-) and fresh = fresh_token [OF assms(1), where t = t]
  have v: "\<exists>t' n. k = token_text t' n (rv_nonce m') \<and> n \<le> counter m' t'" if "value_of m' k = Some w" for k w
  proof (cases "k = tok")
    case True
    then show ?thesis using new by (intro exI [of _ t] exI [of _ "counter m t + 1"]) simp
  next
    case False
    with that new have "value_of m k = Some w" by simp
    then obtain t' n where k: "k = token_text t' n (rv_nonce m)" "n \<le> counter m t'" using assms(1) unfolding session_ok_def by blast
    then show ?thesis using new by (intro exI [of _ t'] exI [of _ n]) auto
  qed
  have c: "(\<exists>n. tk = token_text (fst k) n (rv_nonce m') \<and> n \<le> counter m' (fst k)) \<and> value_of m' tk \<noteq> None" if "token_of m' k = Some tk" for k tk
  proof (cases "k = (t, c)")
    case True
    then show ?thesis using new that by (auto intro!: exI [of _ "counter m t + 1"])
  next
    case False
    with that new have "token_of m k = Some tk" by simp
    then obtain n where "tk = token_text (fst k) n (rv_nonce m)" "n \<le> counter m (fst k)" "value_of m tk \<noteq> None"
      using assms(1) unfolding session_ok_def by blast
    then show ?thesis using new by (auto intro!: exI [of _ n])
  qed
  have i: "k = k'" if "token_of m' k = Some tk" "token_of m' k' = Some tk" for k k' tk
  proof -
    have "\<And>j. token_of m j \<noteq> Some tok" using fresh(2) new by simp
    then have "k = k'" if "token_of m k = Some tk" "token_of m k' = Some tk" using that assms(1) unfolding session_ok_def by blast
    then show ?thesis using \<open>\<And>j. token_of m j \<noteq> Some tok\<close> that new by (auto split: if_splits)
  qed
  have n: "nonce_ok (rv_nonce m')" using new assms(1) by (simp add: session_ok_def)
  show ?thesis unfolding session_ok_def
    by (intro conjI allI impI; (rule n | erule v | erule c [THEN conjunct1] | erule c [THEN conjunct2] | erule (1) i))
qed

lemma mint:
  assumes "tokenFor t c v m = (tok, m')" "session_ok m"
  shows "session_ok m' \<and> grows m m' \<and> token_of m' (t, c) = Some tok \<and> token_word tok \<and> value_of m' tok \<noteq> None"
    (is "?ok \<and> ?grows \<and> ?token \<and> ?word \<and> ?value")
  using assms(1)
proof (cases rule: tokenFor_cases)
  case old
  obtain n where "tok = token_text t n (rv_nonce m)" "value_of m tok \<noteq> None" "nonce_ok (rv_nonce m)"
    using session_token [OF assms(2) old(1)] unfolding fst_conv by metis
  then show ?thesis using old assms(2) by (simp add: token_text_word)
next
  case new
  then have ?ok using mint_new [OF assms(2)] by blast
  moreover have ?grows using new fresh_token [OF assms(2), where t = t] by (auto simp: grows_def map_le_def)
  moreover have ?word using new assms(2) by (simp add: token_text_word session_ok_def)
  ultimately show ?thesis using new by simp
qed

lemma mint_spelled:
  assumes "tokenFor t c v m = (tok, m')" "session_ok m" "spelled sp m" "v = sp (t, c)"
  shows "spelled sp m'"
  using assms(1)
proof (cases rule: tokenFor_cases)
  case new
  then show ?thesis using assms fresh_token(2) [OF assms(2), where t = t] by (auto simp: spelled_def)
qed (use assms in simp)

subsection \<open>Opening a text\<close>

definition opened :: "reverse_map \<Rightarrow> units \<Rightarrow> units" where
  "opened m tok = (case value_of m tok of Some v \<Rightarrow> v | None \<Rightarrow> tok)"

lemma replace_same:
  assumes f: "\<And>w. f w = w"
  shows "replace_all at f s = s"
proof (induction s rule: length_induct)
  case (1 s)
  then have IH: "length x < length s \<Longrightarrow> replace_all at f x = x" for x by blast
  show ?case
  proof (cases s)
    case Nil
    then show ?thesis by (simp add: replace_all.simps)
  next
    case (Cons u t)
    have "replace_all at f t = t" "replace_all at f (drop n t) = drop n t" for n
      using Cons by (auto intro!: IH)
    then show ?thesis using Cons f by (subst replace_all.simps) (simp split: option.split nat.split)
  qed
qed

lemma unmask_opened: "unmask m s = replace_all token_at (opened m) s"
proof (cases "rv_byToken m = []")
  case True
  then have "replace_all token_at (opened m) s = s" by (intro replace_same) (simp add: opened_def value_of_def)
  with True show ?thesis by (simp add: unmask_def)
next
  case False
  have "opened m = (\<lambda>tok. case map_of (rv_byToken m) tok of Some v \<Rightarrow> v | None \<Rightarrow> tok)"
    by (simp add: opened_def value_of_def fun_eq_iff)
  with False show ?thesis by (simp add: unmask_def)
qed


subsection \<open>Texts without token shapes\<close>

definition shape_free :: "units \<Rightarrow> bool" where
  "shape_free text \<longleftrightarrow> list_all (\<lambda>i. shape_at (drop i text) = None) [0..<length text]"

lemma shape_free_words:
  assumes "shape_free text" "text = a @ w @ b"
  shows "\<not> token_word w" "\<not> bare_word w"
proof -
  have no: False if "shape_at (w @ b) = Some (length w)" "w \<noteq> []"
  proof -
    have "length a \<in> set [0..<length text]" and d: "drop (length a) text = w @ b" using that assms by simp_all
    then have "shape_at (drop (length a) text) = None" using assms(1) unfolding shape_free_def list_all_iff by blast
    then show False using that d by simp
  qed
  show "\<not> token_word w" using no shape_at_of_token by fastforce
  show "\<not> bare_word w" using no shape_at_of_bare by fastforce
qed

lemma shape_free_no_bracket: "u16 CHR ''['' \<notin> set text \<Longrightarrow> shape_free text"
proof -
  assume n: "u16 CHR ''['' \<notin> set text"
  have "shape_at (drop i text) = None" for i
  proof (rule ccontr)
    assume "shape_at (drop i text) \<noteq> None"
    then obtain k where "shape_at (drop i text) = Some k" by blast
    from shape_at_word [OF this] obtain v where "take k (drop i text) = u16 CHR ''['' # v" by (metis token_word_brackets)
    then have "u16 CHR ''['' \<in> set (take k (drop i text))" by simp
    then show False using n by (meson in_set_dropD in_set_takeD)
  qed
  then show ?thesis by (simp add: shape_free_def list_all_iff)
qed

lemma token_in_shape_free: "shape_free text \<Longrightarrow> token_at (drop i text) = None"
proof (rule ccontr)
  assume f: "shape_free text" and "token_at (drop i text) \<noteq> None"
  then obtain k where "token_at (drop i text) = Some k" by blast
  then have "token_word (take k (drop i text))" using token_at_word by blast
  moreover have "text = take i text @ take k (drop i text) @ drop k (drop i text)" by (simp only: append_take_drop_id)
  ultimately show False using shape_free_words [OF f] by blast
qed

lemma defang_shape_free: "shape_free text \<Longrightarrow> defangForeignTokens text m = text"
proof -
  assume f: "shape_free text"
  have "shape_at (drop i text) = None" for i
  proof (cases "i < length text")
    case True
    then show ?thesis using f by (simp add: shape_free_def list_all_iff)
  next
    case False
    then show ?thesis using shape_at_word [of "[]"] by (cases "shape_at []") auto
  qed
  then show ?thesis by (simp add: defangForeignTokens_def replace_none)
qed

subsection \<open>Matches of a text\<close>

definition key_of :: "pii_match \<Rightarrow> pii_type \<times> units" where
  "key_of x = (pm_type x, pm_canonical x)"

definition inside :: "units \<Rightarrow> pii_match \<Rightarrow> bool" where
  "inside text x \<longleftrightarrow> pm_start x < pm_end x \<and> pm_end x \<le> length text \<and> pm_text x = slice text (pm_start x) (pm_end x)"

fun chain :: "units \<Rightarrow> nat \<Rightarrow> pii_match list \<Rightarrow> bool" where
  "chain text c [] \<longleftrightarrow> c \<le> length text"
| "chain text c (x # xs) \<longleftrightarrow> c \<le> pm_start x \<and> inside text x \<and> chain text (pm_end x) xs"

lemma slice_rest: "c \<le> i \<Longrightarrow> i \<le> j \<Longrightarrow> slice text c i @ slice text i j @ drop j text = drop c text"
proof -
  assume a: "c \<le> i" "i \<le> j"
  have step: "slice text i j @ drop j text = drop i text" if "i \<le> j" for i j
  proof -
    have "drop j text = drop (j - i) (drop i text)" using that by simp
    then show ?thesis unfolding slice_def drop_take by (simp only: append_take_drop_id)
  qed
  then show ?thesis using a by simp
qed

text \<open>The masked text: every match replaced by what \<open>f\<close> says.\<close>

fun woven :: "units \<Rightarrow> (pii_match \<Rightarrow> units) \<Rightarrow> nat \<Rightarrow> pii_match list \<Rightarrow> units" where
  "woven source f c [] = drop c source"
| "woven source f c (x # xs) = slice source c (pm_start x) @ f x @ woven source f (pm_end x) xs"

lemma woven_cong: "(\<And>x. x \<in> set xs \<Longrightarrow> f x = g x) \<Longrightarrow> woven source f c xs = woven source g c xs"
  by (induction xs arbitrary: c) auto

lemma splice_session:
  assumes "splice source c xs (m, acc) = (out, m', acc')" "session_ok m"
  shows "session_ok m' \<and> grows m m' \<and> (\<forall>x \<in> set xs. token_of m' (key_of x) \<noteq> None) \<and>
    ct_occurrences acc' = ct_occurrences acc + length xs \<and> out = woven source (\<lambda>x. the (token_of m' (key_of x))) c xs"
  using assms
proof (induction xs arbitrary: c m acc out)
  case (Cons x xs)
  obtain tok m1 where t: "tokenFor (pm_type x) (pm_canonical x) (pm_text x) m = (tok, m1)" by fastforce
  obtain rest where r: "splice source (pm_end x) xs (m1, countOccurrence (pm_type x) acc) = (rest, m', acc')"
    and out: "out = slice source c (pm_start x) @ tok @ rest"
    using Cons.prems(1) t by (auto split: prod.splits)
  note m1 = mint [OF t Cons.prems(2)]
  then have IH: "session_ok m'" "grows m1 m'" "\<forall>x \<in> set xs. token_of m' (key_of x) \<noteq> None"
    "ct_occurrences acc' = ct_occurrences acc + Suc (length xs)" "rest = woven source (\<lambda>x. the (token_of m' (key_of x))) (pm_end x) xs"
    using Cons.IH [OF r] by (auto simp: countOccurrence_def)
  have "token_of m' (key_of x) = Some tok" using m1 IH(2) by (simp add: grows_token key_of_def)
  then show ?case using IH m1 out grows_trans by auto
qed simp

lemma splice_spelled:
  assumes "splice source c xs (m, acc) = (out, m', acc')" "session_ok m" "spelled sp m" "\<forall>x \<in> set xs. pm_text x = sp (key_of x)"
  shows "spelled sp m'"
  using assms
proof (induction xs arbitrary: c m acc out)
  case (Cons x xs)
  obtain tok m1 where t: "tokenFor (pm_type x) (pm_canonical x) (pm_text x) m = (tok, m1)" by fastforce
  obtain rest where r: "splice source (pm_end x) xs (m1, countOccurrence (pm_type x) acc) = (rest, m', acc')"
    using Cons.prems(1) t by (auto split: prod.splits)
  have "spelled sp m1" using mint_spelled [OF t Cons.prems(2,3)] Cons.prems(4) by (simp add: key_of_def)
  then show ?case using Cons.IH [OF r] mint [OF t Cons.prems(2)] Cons.prems(4) by simp
qed simp

text \<open>In a text woven with tokens only the tokens are opened.\<close>

lemma gap_not_token:
  assumes "shape_free source" "token_word tok" "i < length (slice source a b)"
  shows "token_at (drop i (slice source a b) @ tok @ rest) = None"
proof (rule ccontr)
  let ?g = "drop i (slice source a b)"
  assume "\<not> ?thesis"
  then obtain k where k: "token_word (take k (?g @ tok @ rest))" using token_at_word by blast
  show False
  proof (cases "k \<le> length ?g")
    case True
    then have w: "token_word (take k ?g)" using k by simp
    have "source = take a (take b source) @ slice source a b @ drop b source"
      unfolding slice_def append_assoc [symmetric] append_take_drop_id ..
    moreover have "slice source a b = take i (slice source a b) @ take k ?g @ drop k ?g" by (metis append_take_drop_id)
    ultimately have "source = (take a (take b source) @ take i (slice source a b)) @ take k ?g @ (drop k ?g @ drop b source)"
      by (metis append.assoc)
    with w show False using shape_free_words [OF assms(1)] by blast
  next
    case False
    obtain v where tok: "tok = u16 CHR ''['' # v" using assms(2) token_word_brackets by metis
    obtain u g where g: "?g = u # g" using assms(3) by (cases ?g) auto
    obtain v' where v': "take k (?g @ tok @ rest) = u16 CHR ''['' # v' @ [u16 CHR '']'']" "u16 CHR ''['' \<notin> set v'"
      using k token_word_brackets by metis
    have "take k (?g @ tok @ rest) = ?g @ u16 CHR ''['' # take (k - length ?g - 1) (v @ rest)"
      using False tok by (cases "k - length ?g") auto
    with v' g have "g @ u16 CHR ''['' # take (k - length ?g - 1) (v @ rest) = v' @ [u16 CHR '']'']" by simp
    then have "u16 CHR ''['' \<in> set (v' @ [u16 CHR '']''])" by (metis in_set_conv_decomp)
    then show False using v'(2) by simp
  qed
qed

lemma woven_opened:
  assumes "shape_free source" "chain source c xs" "\<forall>x \<in> set xs. token_word (f x)" "\<forall>x \<in> set xs. opened m (f x) = pm_text x"
  shows "unmask m (woven source f c xs) = drop c source"
  using assms(2-4) unfolding unmask_opened
proof (induction xs arbitrary: c)
  case Nil
  show ?case using token_in_shape_free [OF assms(1), of "i + c" for i] by (simp add: replace_none add.commute)
next
  case (Cons x xs)
  have w: "token_word (f x)" using Cons.prems by simp
  then have "f x \<noteq> []" by auto
  with token_at_of_word [OF w] gap_not_token [OF assms(1) w]
  have "replace_all token_at (opened m) (woven source f c (x # xs)) =
      slice source c (pm_start x) @ pm_text x @ replace_all token_at (opened m) (woven source f (pm_end x) xs)"
    using Cons.prems by (simp add: replace_skip replace_word)
  also have "\<dots> = drop c source"
    using Cons.IH [of "pm_end x"] Cons.prems slice_rest [of c "pm_start x" "pm_end x" source] by (simp add: inside_def)
  finally show ?case .
qed

end
