(* ===== verification/Pii_Walk.thy ===== *)
theory Pii_Walk
  imports Pii_Session
begin

text \<open>
  Masking payloads: what the detectors report lies in the text, every detection is covered by a
  replaced match, a walk keeps the session well formed and opens to the payload it masked, and a walk
  that counts nothing found nothing.
\<close>

subsection \<open>Spans\<close>

text \<open>What is relied on of an account pattern: \<open>matchAll\<close> reports spans of the text.\<close>

definition sound_accounts :: "compiled_profile \<Rightarrow> bool" where
  "sound_accounts P \<longleftrightarrow> (\<forall>re \<in> set (cp_accounts P). \<forall>text. \<forall>(i, j) \<in> set (re text). i \<le> j \<and> j \<le> length text)"

lemma match_all_span:
  "(i, j) \<in> set (match_all f g len k) \<Longrightarrow> k \<le> i \<and> i < j \<and> i < len \<and> f i = Some (j - i)"
proof (induction f g len k rule: match_all.induct)
  case (1 f g len k)
  show ?case
  proof (cases "len \<le> k")
    case True
    with 1(4) show ?thesis by (simp add: match_all.simps)
  next
    case False
    show ?thesis
    proof (cases "\<exists>n. f k = Some (Suc n)")
      case True
      then obtain n where n: "f k = Some (Suc n)" by blast
      with 1(4) False have "(i, j) = (k, k + Suc n) \<or> (i, j) \<in> set (match_all f g len (k + Suc n))"
        by (subst (asm) match_all.simps) simp
      with 1(3) [OF False n refl] n False show ?thesis by auto
    next
      case no: False
      then have "(i, j) \<in> set (match_all f g len (max (Suc k) (g k)))"
        using 1(4) False by (subst (asm) match_all.simps) (auto split: option.splits nat.splits)
      moreover have "f k = None \<or> f k = Some 0" using no by (cases "f k"; cases "the (f k)") auto
      ultimately show ?thesis using 1(1) [OF False] 1(2) [OF False] by fastforce
    qed
  qed
qed

lemma match_all_inside:
  assumes "(i, j) \<in> set (match_all try next (length text) k)" "\<And>i n. try i = Some n \<Longrightarrow> n \<le> length text - i"
  shows "i < j \<and> j \<le> length text"
  using match_all_span [OF assms(1)] assms(2) [of i "j - i"] by auto

lemma match_of_inside: "i < j \<Longrightarrow> j \<le> length text \<Longrightarrow> inside text (match_of t canon text (i, j))"
  by (simp add: match_of_def inside_def)

lemma spans_inside: "(i, j) \<in> set (spans re next text) \<Longrightarrow> i < j \<and> j \<le> length text"
  unfolding spans_def by (erule match_all_inside) (auto dest: run_length split: if_splits)

lemma longestValidFrom_inside:
  assumes "longestValidFrom text start = Some x"
  shows "inside text x"
proof -
  define limit where "limit = min (length text) (start + MAX_RAW_LENGTH)"
  define body_end where "body_end = start + 4 + length (takeWhile iban_body (slice text (start + 4) limit))"
  from assms obtain j where x: "x = match_of Iban canonicalIban text (start, j)"
    and j: "List.find (cut_ok text start) (rev [start + 5 ..< Suc body_end]) = Some j"
    unfolding longestValidFrom_def Let_def limit_def [symmetric] body_end_def [symmetric] by (auto simp del: upt_Suc)
  from j have mem: "j \<in> set (rev [start + 5 ..< Suc body_end])" by (metis find_Some_iff nth_mem)
  have "length (takeWhile iban_body (slice text (start + 4) limit)) \<le> limit - (start + 4)"
    using length_takeWhile_le [of iban_body "slice text (start + 4) limit"] by (simp add: slice_def limit_def)
  then have "j \<le> limit" "start < j" using mem by (auto simp: body_end_def)
  then show ?thesis unfolding x by (intro match_of_inside) (simp_all add: limit_def)
qed

lemma detector_inside:
  assumes "x \<in> set (DETECTORS U (cp_accounts P) t text)" "sound_accounts P"
  shows "inside text x"
proof (cases t)
  case Iban
  with assms show ?thesis by (auto simp: scan_iban_def List.map_filter_def dest: longestValidFrom_inside)
next
  case Email
  with assms show ?thesis
    by (auto simp: scan_email_def split: if_splits dest!: match_all_inside run_length intro!: match_of_inside)
next
  case Account
  with assms show ?thesis
    by (fastforce simp: scan_account_def sound_accounts_def slice_def intro!: match_of_inside)
qed (use assms in \<open>auto simp: scan_card_def scan_tckn_def scan_phone_def intro!: match_of_inside dest!: spans_inside\<close>)

lemma all_inside: "x \<in> set (all_matches U P text) \<Longrightarrow> sound_accounts P \<Longrightarrow> inside text x"
  by (auto simp: all_matches_def intro: detector_inside)

subsection \<open>Picking\<close>

lemma pick_chain: "\<forall>x \<in> set ms. inside text x \<Longrightarrow> c \<le> length text \<Longrightarrow> chain text c (pick c ms)"
  by (induction ms arbitrary: c) (auto simp: inside_def)

lemma pick_subset: "set (pick c ms) \<subseteq> set ms"
  by (induction ms arbitrary: c) auto

lemma pick_covers:
  assumes "sorted (map pm_start ms)" "\<forall>x \<in> set ms. pm_start x < pm_end x" "x \<in> set ms"
  shows "pm_start x < c \<or> (\<exists>p \<in> set (pick c ms). pm_start p \<le> pm_start x \<and> pm_start x < pm_end p)"
  using assms
proof (induction ms arbitrary: c)
  case (Cons m ms)
  show ?case
  proof (cases "pm_start m < c")
    case True
    then show ?thesis using Cons.IH [of c] Cons.prems by auto
  next
    case False
    then show ?thesis using Cons.IH [of "pm_end m"] Cons.prems by fastforce
  qed
qed simp

lemma sorted_starts: "sorted (map pm_start (sort_key match_key ms))"
proof -
  have "sorted (map match_key (sort_key match_key ms))" by simp
  then show ?thesis by (simp add: sorted_iff_nth_mono match_key_def less_eq_prod_def) (metis order_less_imp_le order_refl)
qed

lemma collect_chain: "sound_accounts P \<Longrightarrow> chain text 0 (collectMatches U P text)"
proof -
  assume s: "sound_accounts P"
  have i: "\<forall>x \<in> set (all_matches U P text). inside text x" using all_inside s by blast
  show ?thesis
  proof (cases "length (all_matches U P text) < 2")
    case True
    then consider "all_matches U P text = []" | x where "all_matches U P text = [x]"
      by (cases "all_matches U P text"; cases "tl (all_matches U P text)") auto
    then show ?thesis using i by cases (auto simp: collectMatches_def inside_def)
  next
    case False
    then show ?thesis using i by (simp add: collectMatches_def pick_chain)
  qed
qed

lemma collect_subset: "set (collectMatches U P text) \<subseteq> set (all_matches U P text)"
  using pick_subset [of 0 "sort_key match_key (all_matches U P text)"] by (auto simp: collectMatches_def Let_def)

lemma collect_covers:
  assumes "sound_accounts P" "x \<in> set (all_matches U P text)"
  shows "\<exists>p \<in> set (collectMatches U P text). pm_start p \<le> pm_start x \<and> pm_start x < pm_end p"
proof (cases "length (all_matches U P text) < 2")
  case True
  then show ?thesis using assms all_inside by (auto simp: collectMatches_def inside_def)
next
  case False
  have "\<forall>y \<in> set (sort_key match_key (all_matches U P text)). pm_start y < pm_end y"
    using all_inside assms by (auto simp: inside_def)
  with pick_covers [OF sorted_starts this] assms(2) False show ?thesis by (simp add: collectMatches_def) blast
qed

lemma collect_Nil: "sound_accounts P \<Longrightarrow> collectMatches U P text = [] \<longleftrightarrow> all_matches U P text = []"
  using collect_covers [of P _ U "text"] collect_subset [of U P "text"] by (cases "all_matches U P text") force+

subsection \<open>Masking a text\<close>

definition masked_as :: "reverse_map \<Rightarrow> pii_match \<Rightarrow> units" where
  "masked_as m x = the (token_of m (key_of x))"

lemma maskInto_spec:
  assumes "maskInto U P text (m, acc) = (out, m', acc')" "session_ok m"
  defines "source \<equiv> defangForeignTokens text m"
  shows "session_ok m' \<and> grows m m' \<and> (\<forall>x \<in> set (collectMatches U P source). token_of m' (key_of x) \<noteq> None) \<and>
    ct_occurrences acc' = ct_occurrences acc + length (collectMatches U P source) \<and>
    out = woven source (masked_as m') 0 (collectMatches U P source)"
proof (cases "collectMatches U P source = []")
  case True
  with assms show ?thesis by (auto simp: maskInto_def source_def)
next
  case False
  with assms have "splice source 0 (collectMatches U P source) (m, acc) = (out, m', acc')"
    by (simp add: maskInto_def source_def Let_def)
  from splice_session [OF this assms(2)] show ?thesis unfolding masked_as_def by blast
qed

lemma opened_token:
  assumes "session_ok m" "spelled sp m" "token_of m k = Some tok" "grows m M"
  shows "opened M tok = sp k" "token_word tok"
proof -
  from assms(2,3) have "value_of m tok = Some (sp k)" unfolding spelled_def by blast
  then show "opened M tok = sp k" using grows_value [OF assms(4)] by (simp add: opened_def)
  show "token_word tok" using session_token [OF assms(1,3)] token_text_word by metis
qed

lemma maskInto_opens:
  assumes "maskInto U P text (m, acc) = (out, m', acc')" "session_ok m" "spelled sp m" "shape_free text" "sound_accounts P"
    "\<forall>x \<in> set (collectMatches U P text). pm_text x = sp (key_of x)" "grows m' M"
  shows "unmask M out = text" "spelled sp m'"
proof -
  note spec = maskInto_spec [OF assms(1,2), unfolded defang_shape_free [OF assms(4)]]
  show s: "spelled sp m'"
  proof (cases "collectMatches U P text = []")
    case True
    with assms show ?thesis by (simp add: maskInto_def defang_shape_free)
  next
    case False
    then have "splice text 0 (collectMatches U P text) (m, acc) = (out, m', acc')"
      using assms(1) by (simp add: maskInto_def defang_shape_free [OF assms(4)] Let_def)
    then show ?thesis using splice_spelled assms(2,3,6) by blast
  qed
  have tok: "token_word (masked_as m' x) \<and> opened M (masked_as m' x) = pm_text x" if "x \<in> set (collectMatches U P text)" for x
  proof -
    obtain t where "token_of m' (key_of x) = Some t" using spec \<open>x \<in> _\<close> by blast
    then show ?thesis using opened_token [OF _ s _ assms(7)] spec assms(6) that by (simp add: masked_as_def)
  qed
  have "unmask M (woven text (masked_as m') 0 (collectMatches U P text)) = drop 0 text"
    using tok by (intro woven_opened [OF assms(4) collect_chain [OF assms(5)]]) auto
  then show "unmask M out = text" using spec by simp
qed


subsection \<open>The session through a walk\<close>

text \<open>A step keeps the session well formed, forgets no token and takes back no count, also when it is refused.\<close>

definition keeps :: "'a masking \<Rightarrow> bool" where
  "keeps f \<longleftrightarrow> (\<forall>m acc. session_ok m \<longrightarrow> session_ok (fst (snd (f (m, acc)))) \<and> grows m (fst (snd (f (m, acc)))) \<and>
    ct_occurrences acc \<le> ct_occurrences (snd (snd (f (m, acc)))))"

lemma keepsD:
  "keeps f \<Longrightarrow> f (m, acc) = (r, m', acc') \<Longrightarrow> session_ok m \<Longrightarrow> session_ok m' \<and> grows m m' \<and> ct_occurrences acc \<le> ct_occurrences acc'"
  unfolding keeps_def by (metis fst_conv snd_conv)

lemma keepsI:
  "(\<And>m acc r m' acc'. f (m, acc) = (r, m', acc') \<Longrightarrow> session_ok m \<Longrightarrow> session_ok m' \<and> grows m m' \<and> ct_occurrences acc \<le> ct_occurrences acc') \<Longrightarrow> keeps f"
  unfolding keeps_def by (metis prod.collapse)

lemma keeps_give [intro, simp]: "keeps (give x)" "keeps (refuse e)"
  by (simp_all add: keeps_def give_def refuse_def)

lemma keeps_after [intro]:
  assumes "keeps f" "\<And>x. keeps (g x)"
  shows "keeps (after f g)"
proof (rule keepsI)
  fix m acc r m' acc'
  assume a: "after f g (m, acc) = (r, m', acc')" "session_ok m"
  obtain r1 m1 acc1 where f: "f (m, acc) = (r1, m1, acc1)" by (metis prod.collapse)
  note k = keepsD [OF assms(1) f a(2)]
  show "session_ok m' \<and> grows m m' \<and> ct_occurrences acc \<le> ct_occurrences acc'"
  proof (cases r1)
    case (Inl e)
    with a f k show ?thesis by (simp add: after_def)
  next
    case (Inr x)
    with a f have "g x (m1, acc1) = (r, m', acc')" by (simp add: after_def)
    with keepsD [OF assms(2) this] k show ?thesis using grows_trans le_trans by blast
  qed
qed

lemma maskString_keeps:
  assumes "maskString U P value fr (m, acc) = (out, m', acc')" "session_ok m"
  shows "session_ok m' \<and> grows m m' \<and> ct_occurrences acc \<le> ct_occurrences acc'"
proof (cases "\<not> fr")
  case True
  then show ?thesis using assms maskInto_spec [of U P "value" m acc out m' acc'] by (simp add: maskString_def)
next
  case False
  show ?thesis
  proof (cases "value = [] \<or> has_token m value \<or> whole_token value")
    case True
    with False assms show ?thesis by (auto simp: maskString_def)
  next
    case no: False
    obtain tok m1 where t: "tokenFor FieldRule value value m = (tok, m1)" by fastforce
    with no False assms(1) have "m' = m1" "acc' = countOccurrence FieldRule acc" by (auto simp: maskString_def)
    then show ?thesis using mint [OF t assms(2)] by (simp add: countOccurrence_def)
  qed
qed

lemma walk_string_keeps [intro, simp]: "keeps (walk_string U P value fr same)"
proof (rule keepsI)
  fix m acc r m' acc'
  assume a: "walk_string U P value fr same (m, acc) = (r, m', acc')" "session_ok m"
  obtain out m1 acc1 where o: "maskString U P value fr (m, acc) = (out, m1, acc1)" by (metis prod.collapse)
  then have "m' = m1" "ct_occurrences acc' = ct_occurrences acc1"
    using a by (auto simp: walk_string_def countField_def split: if_splits)
  then show "session_ok m' \<and> grows m m' \<and> ct_occurrences acc \<le> ct_occurrences acc'"
    using maskString_keeps [OF o a(2)] by simp
qed

lemma walk_keeps:
  "keeps (walk U P path depth fr v)" "keeps (walk_items U P path depth fr i vs)" "keeps (walk_entries U P path depth es)"
proof (induction U P path depth fr v and U P path depth fr i vs and U P path depth es rule: walk_walk_items_walk_entries.induct)
  case (1 U P path depth fr v)
  then show ?case by (subst walk.simps) (auto split: data.split)
qed auto

subsection \<open>A walk that counts nothing\<close>

text \<open>A leaf in which the session would replace nothing.\<close>

definition leaf_clean :: "unicode \<Rightarrow> compiled_profile \<Rightarrow> reverse_map \<Rightarrow> bool \<Rightarrow> units \<Rightarrow> bool" where
  "leaf_clean U P m fr text \<longleftrightarrow>
    (if fr then text = [] \<or> has_token m text \<or> whole_token text else collectMatches U P (defangForeignTokens text m) = [])"

fun clean :: "unicode \<Rightarrow> compiled_profile \<Rightarrow> reverse_map \<Rightarrow> bool \<Rightarrow> data \<Rightarrow> bool"
and clean_items :: "unicode \<Rightarrow> compiled_profile \<Rightarrow> reverse_map \<Rightarrow> bool \<Rightarrow> data list \<Rightarrow> bool"
and clean_entries :: "unicode \<Rightarrow> compiled_profile \<Rightarrow> reverse_map \<Rightarrow> (units \<times> data) list \<Rightarrow> bool" where
  "clean U P m fr v =
    (case v of
       Str text \<Rightarrow> leaf_clean U P m fr text
     | Num text \<Rightarrow> leaf_clean U P m fr text
     | Arr xs \<Rightarrow> clean_items U P m fr xs
     | Object es \<Rightarrow> clean_entries U P m es
     | _ \<Rightarrow> True)"
| "clean_items U P m fr [] = True"
| "clean_items U P m fr (x # xs) = (clean U P m fr x \<and> clean_items U P m fr xs)"
| "clean_entries U P m [] = True"
| "clean_entries U P m ((k, x) # es) = (clean U P m (un_lower U k \<in> cp_fieldRules P) x \<and> clean_entries U P m es)"

declare clean.simps [simp del]

definition quiet :: "'a masking \<Rightarrow> (reverse_map \<Rightarrow> bool) \<Rightarrow> bool" where
  "quiet f C \<longleftrightarrow> (\<forall>m acc v m' acc'. session_ok m \<longrightarrow> f (m, acc) = (Inr v, m', acc') \<longrightarrow>
    ct_occurrences acc' = ct_occurrences acc \<longrightarrow> m' = m \<and> C m)"

lemma quietD: "quiet f C \<Longrightarrow> session_ok m \<Longrightarrow> f (m, acc) = (Inr v, m', acc') \<Longrightarrow> ct_occurrences acc' = ct_occurrences acc \<Longrightarrow> m' = m \<and> C m"
  unfolding quiet_def by blast

lemma quiet_give [intro, simp]: "quiet (give x) (\<lambda>_. True)" "quiet (refuse e) C"
  by (simp_all add: quiet_def give_def refuse_def)

lemma quiet_after:
  assumes "quiet f C" "\<And>x. quiet (g x) D" "keeps f" "\<And>x. keeps (g x)"
  shows "quiet (after f g) (\<lambda>m. C m \<and> D m)"
  unfolding quiet_def
proof (intro allI impI)
  fix m acc v m' acc'
  assume a: "session_ok m" "after f g (m, acc) = (Inr v, m', acc')" "ct_occurrences acc' = ct_occurrences acc"
  obtain r1 m1 acc1 where f: "f (m, acc) = (r1, m1, acc1)" by (metis prod.collapse)
  with a obtain x where x: "r1 = Inr x" "g x (m1, acc1) = (Inr v, m', acc')" by (cases r1) (auto simp: after_def)
  note k = keepsD [OF assms(3) f a(1)]
  note k' = keepsD [OF assms(4) x(2)]
  have "ct_occurrences acc1 = ct_occurrences acc" using k k' a by auto
  with quietD [OF assms(1) a(1)] f x have m1: "m1 = m" "C m" by auto
  moreover have "m' = m1 \<and> D m1" using quietD [OF assms(2) _ x(2)] k \<open>ct_occurrences acc1 = _\<close> a by simp
  ultimately show "m' = m \<and> C m \<and> D m" by simp
qed

lemma quiet_then: "quiet f C \<Longrightarrow> keeps f \<Longrightarrow> quiet (after f (\<lambda>x. give (h x))) C"
  using quiet_after [of f C "\<lambda>x. give (h x)" "\<lambda>_. True"] by simp

lemma quiet_leaf: "quiet (walk_string U P text fr same) (\<lambda>m. leaf_clean U P m fr text)"
  unfolding quiet_def
proof (intro allI impI)
  fix m acc v m' acc'
  assume a: "session_ok m" "walk_string U P text fr same (m, acc) = (Inr v, m', acc')" "ct_occurrences acc' = ct_occurrences acc"
  obtain out m1 acc1 where o: "maskString U P text fr (m, acc) = (out, m1, acc1)" by (metis prod.collapse)
  then have eq: "m' = m1" "ct_occurrences acc1 = ct_occurrences acc"
    using a by (auto simp: walk_string_def countField_def split: if_splits)
  show "m' = m \<and> leaf_clean U P m fr text"
  proof (cases "\<not> fr")
    case True
    with o maskInto_spec [of U P "text" m acc out m1 acc1] a(1) eq have "collectMatches U P (defangForeignTokens text m) = []"
      by (simp add: maskString_def)
    then show ?thesis using o eq True by (auto simp: maskString_def maskInto_def leaf_clean_def)
  next
    case False
    then show ?thesis using o eq by (auto simp: maskString_def leaf_clean_def countOccurrence_def split: if_splits prod.splits)
  qed
qed

lemma walk_quiet:
  "quiet (walk U P path depth fr v) (\<lambda>m. clean U P m fr v)"
  "quiet (walk_items U P path depth fr i vs) (\<lambda>m. clean_items U P m fr vs)"
  "quiet (walk_entries U P path depth es) (\<lambda>m. clean_entries U P m es)"
proof (induction U P path depth fr v and U P path depth fr i vs and U P path depth es rule: walk_walk_items_walk_entries.induct)
  case (1 U P path depth fr v)
  then show ?case
    by (cases v; subst walk.simps) (simp_all add: quiet_leaf quiet_then walk_keeps clean.simps)
next
  case (3 U P path depth fr i x xs)
  show ?case
    using quiet_after [OF 3(1) quiet_then [OF 3(2)]] by (simp add: walk_keeps keeps_after)
next
  case (5 U P path depth key x es)
  show ?case
    using quiet_after [OF 5(1) quiet_then [OF 5(2)]] by (simp add: walk_keeps keeps_after)
qed simp_all

end
