(* ===== verification/Pii_Payload.thy ===== *)
theory Pii_Payload
  imports Pii_Walk
begin

text \<open>
  Opening a masked payload: what a session masked it can put back, in any later state of the session. A
  number in which something was masked comes back as its text, everything else as it was.
\<close>

text \<open>Whether masking changes a leaf, and what a payload opens to after masking.\<close>

definition leaf_masked :: "unicode \<Rightarrow> compiled_profile \<Rightarrow> bool \<Rightarrow> units \<Rightarrow> bool" where
  "leaf_masked U P fr text \<longleftrightarrow> (if fr then text \<noteq> [] else collectMatches U P text \<noteq> [])"

fun opened_form :: "unicode \<Rightarrow> compiled_profile \<Rightarrow> bool \<Rightarrow> data \<Rightarrow> data"
and opened_items :: "unicode \<Rightarrow> compiled_profile \<Rightarrow> bool \<Rightarrow> data list \<Rightarrow> data list"
and opened_entries :: "unicode \<Rightarrow> compiled_profile \<Rightarrow> (units \<times> data) list \<Rightarrow> (units \<times> data) list" where
  "opened_form U P fr (Num text) = (if leaf_masked U P fr text then Str text else Num text)"
| "opened_form U P fr (Arr xs) = Arr (opened_items U P fr xs)"
| "opened_form U P fr (Object es) = Object (opened_entries U P es)"
| "opened_form U P fr v = v"
| "opened_items U P fr [] = []"
| "opened_items U P fr (x # xs) = opened_form U P fr x # opened_items U P fr xs"
| "opened_entries U P [] = []"
| "opened_entries U P ((k, x) # es) = (k, opened_form U P (un_lower U k \<in> cp_fieldRules P) x) # opened_entries U P es"

lemma opened_entries_keys [simp]: "map fst (opened_entries U P es) = map fst es"
  by (induction es) auto

text \<open>
  A payload that can come back: no text holds a token shape, no key is \<open>__proto__\<close>, and every value the
  detectors find is spelled as \<open>sp\<close> says.
\<close>

definition leaf_ok :: "(pii_type \<times> units \<Rightarrow> units) \<Rightarrow> unicode \<Rightarrow> compiled_profile \<Rightarrow> bool \<Rightarrow> units \<Rightarrow> bool" where
  "leaf_ok sp U P fr text \<longleftrightarrow> shape_free text \<and> (if fr then sp (FieldRule, text) = text
    else list_all (\<lambda>x. pm_text x = sp (key_of x)) (collectMatches U P text))"

fun payload_ok :: "(pii_type \<times> units \<Rightarrow> units) \<Rightarrow> unicode \<Rightarrow> compiled_profile \<Rightarrow> bool \<Rightarrow> data \<Rightarrow> bool"
and payload_ok_items :: "(pii_type \<times> units \<Rightarrow> units) \<Rightarrow> unicode \<Rightarrow> compiled_profile \<Rightarrow> bool \<Rightarrow> data list \<Rightarrow> bool"
and payload_ok_entries :: "(pii_type \<times> units \<Rightarrow> units) \<Rightarrow> unicode \<Rightarrow> compiled_profile \<Rightarrow> (units \<times> data) list \<Rightarrow> bool" where
  "payload_ok sp U P fr v =
    (case v of
       Str text \<Rightarrow> leaf_ok sp U P fr text
     | Num text \<Rightarrow> leaf_ok sp U P fr text
     | Arr xs \<Rightarrow> payload_ok_items sp U P fr xs
     | Object es \<Rightarrow> payload_ok_entries sp U P es
     | _ \<Rightarrow> True)"
| "payload_ok_items sp U P fr [] = True"
| "payload_ok_items sp U P fr (x # xs) = (payload_ok sp U P fr x \<and> payload_ok_items sp U P fr xs)"
| "payload_ok_entries sp U P [] = True"
| "payload_ok_entries sp U P ((k, x) # es) =
    (k \<noteq> proto_key \<and> payload_ok sp U P (un_lower U k \<in> cp_fieldRules P) x \<and> payload_ok_entries sp U P es)"

declare payload_ok.simps [simp del]

lemma whole_token_word: "whole_token s \<Longrightarrow> token_word s"
proof -
  assume "whole_token s"
  then obtain n where "run (\<lambda>r. r = []) (TOKEN_HEAD (length s) @ chr CHR ''.'' # times_between 2 16 [one nonce_unit] @ [chr CHR '']'']) s = Some n"
    by (auto simp: whole_token_def TOKEN_PATTERN_def)
  from TOKEN_HEAD_inv [OF this] obtain t d r j where s: "s = asc ''['' @ asc (TOKEN_PREFIX t) @ asc ''_'' @ d @ r" "d \<noteq> []" "list_all is_digit16 d"
    and r: "run (\<lambda>r. r = []) (chr CHR ''.'' # times_between 2 16 [one nonce_unit] @ [chr CHR '']'']) r = Some j" by blast
  from tail_inv [OF r] obtain z where "r = asc ''.'' @ z @ asc '']''" "nonce_ok z" by auto
  with s show ?thesis unfolding token_word_def by blast
qed

lemma shape_free_not_token: "shape_free s \<Longrightarrow> \<not> token_word s"
  using shape_free_words [of s "[]" s "[]"] by simp

lemma session_value_word: "session_ok m \<Longrightarrow> has_token m tok \<Longrightarrow> token_word tok"
proof -
  assume "session_ok m" "has_token m tok"
  then obtain t n where "tok = token_text t n (rv_nonce m)" "nonce_ok (rv_nonce m)"
    unfolding session_ok_def has_token_value by blast
  then show ?thesis using token_text_word by simp
qed

subsection \<open>Steps that can be undone\<close>

definition restores :: "(pii_type \<times> units \<Rightarrow> units) \<Rightarrow> 'a masking \<Rightarrow> (reverse_map \<Rightarrow> 'a \<Rightarrow> bool) \<Rightarrow> bool" where
  "restores sp f R \<longleftrightarrow> (\<forall>m acc v m' acc'. session_ok m \<longrightarrow> spelled sp m \<longrightarrow> f (m, acc) = (Inr v, m', acc') \<longrightarrow>
    spelled sp m' \<and> (\<forall>M. grows m' M \<longrightarrow> R M v))"

lemma restoresD:
  "restores sp f R \<Longrightarrow> session_ok m \<Longrightarrow> spelled sp m \<Longrightarrow> f (m, acc) = (Inr v, m', acc') \<Longrightarrow> spelled sp m' \<and> (\<forall>M. grows m' M \<longrightarrow> R M v)"
  unfolding restores_def by blast

lemma restores_give: "(\<And>M. R M x) \<Longrightarrow> restores sp (give x) R"
  by (simp add: restores_def give_def)

lemma restores_refuse [simp]: "restores sp (refuse e) R"
  by (simp add: restores_def refuse_def)

lemma restores_after:
  assumes "restores sp f R" "\<And>x. restores sp (g x) (S x)" "keeps f" "\<And>x. keeps (g x)"
    and "\<And>M x y. R M x \<Longrightarrow> S x M y \<Longrightarrow> T M y"
  shows "restores sp (after f g) T"
  unfolding restores_def
proof (intro allI impI)
  fix m acc v m' acc'
  assume a: "session_ok m" "spelled sp m" "after f g (m, acc) = (Inr v, m', acc')"
  obtain r1 m1 acc1 where f: "f (m, acc) = (r1, m1, acc1)" by (metis prod.collapse)
  with a obtain x where x: "r1 = Inr x" "g x (m1, acc1) = (Inr v, m', acc')" by (cases r1) (auto simp: after_def)
  note k = keepsD [OF assms(3) f a(1)]
  note k' = keepsD [OF assms(4) x(2)]
  have 1: "spelled sp m1 \<and> (\<forall>M. grows m1 M \<longrightarrow> R M x)" using restoresD [OF assms(1) a(1,2)] f x by blast
  then have "spelled sp m' \<and> (\<forall>M. grows m' M \<longrightarrow> S x M v)" using restoresD [OF assms(2) _ _ x(2)] k by blast
  moreover have "R M x" if "grows m' M" for M using 1 k k' that grows_trans by blast
  ultimately show "spelled sp m' \<and> (\<forall>M. grows m' M \<longrightarrow> T M v)" using assms(5) by blast
qed

lemma restores_then:
  assumes "restores sp f R" "keeps f" "\<And>M x. R M x \<Longrightarrow> T M (h x)"
  shows "restores sp (after f (\<lambda>x. give (h x))) T"
  by (rule restores_after [OF assms(1) _ assms(2), where S = "\<lambda>x M y. y = h x"]) (use assms(3) in \<open>auto intro: restores_give\<close>)

lemma maskInto_changes:
  assumes "maskInto U P text (m, acc) = (out, m', acc')" "session_ok m" "shape_free text"
  shows "out = text \<longleftrightarrow> collectMatches U P text = []"
proof (cases "collectMatches U P text")
  case Nil
  with assms(1) show ?thesis by (simp add: maskInto_def defang_shape_free [OF assms(3)])
next
  case (Cons x xs)
  note spec = maskInto_spec [OF assms(1,2), unfolded defang_shape_free [OF assms(3)]]
  from spec Cons obtain t where t: "token_of m' (key_of x) = Some t" by auto
  then have "token_word t" using session_token [of m'] token_text_word spec by metis
  moreover have "\<exists>a b. out = a @ t @ b" using spec Cons t by (auto simp: masked_as_def)
  ultimately show ?thesis using shape_free_words(1) [OF assms(3)] Cons by auto
qed

lemma restores_leaf:
  assumes "leaf_ok sp U P fr text" "sound_accounts P" "same = Str text \<or> same = Num text"
  shows "restores sp (walk_string U P text fr same)
    (\<lambda>M y. if leaf_masked U P fr text then \<exists>s. y = Str s \<and> unmask M s = text else y = same \<and> unmask M text = text)"
  unfolding restores_def
proof (intro allI impI)
  fix m acc v m' acc'
  assume a: "session_ok m" "spelled sp m" "walk_string U P text fr same (m, acc) = (Inr v, m', acc')"
  from assms(1) have f: "shape_free text" by (simp add: leaf_ok_def)
  obtain out m1 acc1 where o: "maskString U P text fr (m, acc) = (out, m1, acc1)" by (metis prod.collapse)
  then have eq: "m' = m1" "v = (if out = text then same else Str out)"
    using a(3) by (auto simp: walk_string_def split: if_splits)
  have "spelled sp m1 \<and> (\<forall>M. grows m1 M \<longrightarrow> unmask M out = text) \<and> (out = text \<longleftrightarrow> \<not> leaf_masked U P fr text)"
  proof (cases fr)
    case False
    then have i: "maskInto U P text (m, acc) = (out, m1, acc1)" and c: "\<forall>x \<in> set (collectMatches U P text). pm_text x = sp (key_of x)"
      using o assms(1) by (auto simp: maskString_def leaf_ok_def list_all_iff)
    note opens = maskInto_opens [OF i a(1,2) f assms(2) c]
    have "spelled sp m1" using opens(2) grows_refl by blast
    moreover have "out = text \<longleftrightarrow> collectMatches U P text = []" by (rule maskInto_changes [OF i a(1) f])
    ultimately show ?thesis using opens(1) False by (simp add: leaf_masked_def)
  next
    case True
    have no: "\<not> whole_token text" "\<not> has_token m text"
      using f shape_free_not_token whole_token_word session_value_word a(1) by blast+
    have plain: "unmask M text = text" for M
      using f token_in_shape_free by (simp add: unmask_opened replace_none)
    show ?thesis
    proof (cases "text = []")
      case True
      then show ?thesis using o \<open>fr\<close> a plain by (auto simp: maskString_def leaf_masked_def)
    next
      case False
      then have t: "tokenFor FieldRule text text m = (out, m1)" using o \<open>fr\<close> no by (auto simp: maskString_def split: prod.splits)
      have "spelled sp m1" using mint_spelled [OF t a(1,2)] assms(1) True by (simp add: leaf_ok_def)
      moreover have "unmask M out = text" if "grows m1 M" for M
      proof -
        have "opened M out = text" "token_word out"
          using opened_token [OF _ \<open>spelled sp m1\<close> _ that, of "(FieldRule, text)" out] mint [OF t a(1)] assms(1) True
          by (simp_all add: leaf_ok_def)
        moreover from this have "out \<noteq> []" by auto
        ultimately show ?thesis
          using replace_word [of token_at out "[]" "opened M"] token_at_of_word [of out "[]"]
          by (simp add: unmask_opened replace_all.simps [of _ _ "[]"])
      qed
      moreover have "out \<noteq> text"
        using opened_token(2) [OF _ \<open>spelled sp m1\<close> _ grows_refl, of "(FieldRule, text)" out] mint [OF t a(1)] shape_free_not_token [OF f]
        by auto
      ultimately show ?thesis using True \<open>text \<noteq> []\<close> by (simp add: leaf_masked_def)
    qed
  qed
  then show "spelled sp m' \<and> (\<forall>M. grows m' M \<longrightarrow>
      (if leaf_masked U P fr text then \<exists>s. v = Str s \<and> unmask M s = text else v = same \<and> unmask M text = text))"
    using eq by auto
qed

subsection \<open>The walk\<close>

definition opens_to :: "unicode \<Rightarrow> compiled_profile \<Rightarrow> bool \<Rightarrow> nat \<Rightarrow> data \<Rightarrow> reverse_map \<Rightarrow> data \<Rightarrow> bool" where
  "opens_to U P fr depth v M y \<longleftrightarrow> (\<forall>path. unwalk M path depth y = Inr (opened_form U P fr v))"

definition items_open_to :: "unicode \<Rightarrow> compiled_profile \<Rightarrow> bool \<Rightarrow> nat \<Rightarrow> data list \<Rightarrow> reverse_map \<Rightarrow> data list \<Rightarrow> bool" where
  "items_open_to U P fr depth vs M ys \<longleftrightarrow> (\<forall>path i. unwalk_items M path depth i ys = Inr (opened_items U P fr vs))"

definition entries_open_to :: "unicode \<Rightarrow> compiled_profile \<Rightarrow> nat \<Rightarrow> (units \<times> data) list \<Rightarrow> reverse_map \<Rightarrow> (units \<times> data) list \<Rightarrow> bool" where
  "entries_open_to U P depth es M ys \<longleftrightarrow> map fst ys = map fst es \<and>
    (\<forall>path. unwalk_entries M path depth ys = Inr (opened_entries U P es))"

lemma assemble_plain: "proto_key \<notin> fst ` set es \<Longrightarrow> assemble es = Object es"
proof -
  assume "proto_key \<notin> fst ` set es"
  then have n: "\<And>k v. (k, v) \<in> set es \<Longrightarrow> k \<noteq> proto_key" by force
  then have "filter (\<lambda>(k, v). k \<noteq> proto_key) es = es" by (auto simp: filter_id_conv)
  with n show ?thesis unfolding assemble_def by (auto simp: Let_def)
qed

lemma ok_entries_keys: "payload_ok_entries sp U P es \<Longrightarrow> proto_key \<notin> fst ` set es"
  by (induction es) (auto split: prod.splits)

lemma items_cons:
  "opens_to U P fr (Suc depth) x M y \<Longrightarrow> items_open_to U P fr depth xs M ys \<Longrightarrow> items_open_to U P fr depth (x # xs) M (y # ys)"
  by (simp add: items_open_to_def opens_to_def)

lemma entries_cons:
  "opens_to U P (un_lower U k \<in> cp_fieldRules P) (Suc depth) x M y \<Longrightarrow> entries_open_to U P depth es M ys \<Longrightarrow>
   entries_open_to U P depth ((k, x) # es) M ((k, y) # ys)"
  by (simp add: entries_open_to_def opens_to_def)

lemma leaf_opens:
  assumes "depth \<le> MAX_DEPTH" "same = Str text \<or> same = Num text"
    "if leaf_masked U P fr text then \<exists>s. y = Str s \<and> unmask M s = text else y = same \<and> unmask M text = text"
  shows "opens_to U P fr depth same M y"
  unfolding opens_to_def using assms by (subst unwalk.simps) (auto split: if_splits)

lemma walk_restores:
  "payload_ok sp U P fr v \<Longrightarrow> sound_accounts P \<Longrightarrow> restores sp (walk U P path depth fr v) (opens_to U P fr depth v)"
  "payload_ok_items sp U P fr vs \<Longrightarrow> sound_accounts P \<Longrightarrow> restores sp (walk_items U P path depth fr i vs) (items_open_to U P fr depth vs)"
  "payload_ok_entries sp U P es \<Longrightarrow> sound_accounts P \<Longrightarrow> restores sp (walk_entries U P path depth es) (entries_open_to U P depth es)"
proof (induction U P path depth fr v and U P path depth fr i vs and U P path depth es rule: walk_walk_items_walk_entries.induct)
  case (1 U P path depth fr v)
  show ?case
  proof (cases "MAX_DEPTH < depth")
    case True
    then show ?thesis by (subst walk.simps) simp
  next
    case d: False
    have leaf: "restores sp (walk_string U P t fr w) (opens_to U P fr depth w)" if "leaf_ok sp U P fr t" "w = Str t \<or> w = Num t" for t w
      using restores_leaf [OF that(1) 1(4) that(2)] leaf_opens [of depth w t] that d unfolding restores_def by (meson not_less)
    have same: "restores sp (give w) (opens_to U P fr depth w)" if "w = Null \<or> w = Undefined \<or> (\<exists>b. w = Boolean b) \<or> (\<exists>t. w = DateOf t)" for w
      unfolding opens_to_def using that d by (intro restores_give allI; subst unwalk.simps) auto
    show ?thesis
    proof (cases v)
      case (Arr xs)
      have "restores sp (walk_items U P path depth fr 0 xs) (items_open_to U P fr depth xs)"
        using 1 Arr d by (simp add: payload_ok.simps)
      then have "restores sp (after (walk_items U P path depth fr 0 xs) (\<lambda>out. give (Arr out))) (opens_to U P fr depth v)"
      proof (rule restores_then [OF _ walk_keeps(2)])
        fix M ys assume o: "items_open_to U P fr depth xs M ys"
        show "opens_to U P fr depth v M (Arr ys)"
          unfolding opens_to_def
        proof
          fix path
          have "unwalk_items M path depth 0 ys = Inr (opened_items U P fr xs)" using o unfolding items_open_to_def by blast
          then show "unwalk M path depth (Arr ys) = Inr (opened_form U P fr v)" using d Arr by (subst unwalk.simps) simp
        qed
      qed
      then show ?thesis using Arr d by (subst walk.simps) simp
    next
      case (Object es)
      have ok: "payload_ok_entries sp U P es" using 1(3) Object by (simp add: payload_ok.simps)
      then have "restores sp (walk_entries U P path depth es) (entries_open_to U P depth es)"
        using 1 Object d by simp
      then have "restores sp (after (walk_entries U P path depth es) (\<lambda>out. give (assemble out))) (opens_to U P fr depth v)"
      proof (rule restores_then [OF _ walk_keeps(3)])
        fix M ys assume o: "entries_open_to U P depth es M ys"
        then have "fst ` set ys = fst ` set es" unfolding entries_open_to_def by (metis list.set_map)
        then have ys: "assemble ys = Object ys" using ok_entries_keys [OF ok] by (simp add: assemble_plain)
        show "opens_to U P fr depth v M (assemble ys)"
          unfolding opens_to_def
        proof
          fix path
          have z: "unwalk_entries M path depth ys = Inr (opened_entries U P es)" using o unfolding entries_open_to_def by blast
          have "assemble (opened_entries U P es) = Object (opened_entries U P es)"
            using ok_entries_keys [OF ok] opened_entries_keys [of U P es] by (metis assemble_plain list.set_map)
          then show "unwalk M path depth (assemble ys) = Inr (opened_form U P fr v)"
            unfolding ys using d Object z by (subst unwalk.simps) simp
        qed
      qed
      then show ?thesis using Object d by (subst walk.simps) simp
    next
      case (Str t)
      have "walk U P path depth fr v = walk_string U P t fr (Str t)" using d Str by (subst walk.simps) simp
      moreover have "leaf_ok sp U P fr t" using 1(3) Str by (simp add: payload_ok.simps)
      ultimately show ?thesis using leaf [of t v] Str by simp
    next
      case (Num t)
      have "walk U P path depth fr v = walk_string U P t fr (Num t)" using d Num by (subst walk.simps) simp
      moreover have "leaf_ok sp U P fr t" using 1(3) Num by (simp add: payload_ok.simps)
      ultimately show ?thesis using leaf [of t v] Num by simp
    next
      case (Other k)
      then show ?thesis using d by (subst walk.simps) simp
    next
      case (Instance es)
      then show ?thesis using d by (subst walk.simps) simp
    next
      case (DateOf t)
      have "walk U P path depth fr v = give v" using d DateOf by (subst walk.simps) simp
      then show ?thesis using same DateOf by simp
    next
      case (Boolean b)
      have "walk U P path depth fr v = give v" using d Boolean by (subst walk.simps) simp
      then show ?thesis using same Boolean by simp
    next
      case Null
      have "walk U P path depth fr v = give v" using d Null by (subst walk.simps) simp
      then show ?thesis using same Null by simp
    next
      case Undefined
      have "walk U P path depth fr v = give v" using d Undefined by (subst walk.simps) simp
      then show ?thesis using same Undefined by simp
    qed
  qed
next
  case (3 U P path depth fr i x xs)
  have "restores sp (after (walk U P (item_path path i) (depth + 1) fr x)
      (\<lambda>y. after (walk_items U P path depth fr (Suc i) xs) (\<lambda>ys. give (y # ys)))) (items_open_to U P fr depth (x # xs))"
  proof (rule restores_after [OF 3(1)])
    fix y show "restores sp (after (walk_items U P path depth fr (Suc i) xs) (\<lambda>ys. give (y # ys))) (\<lambda>M l. \<exists>ys. l = y # ys \<and> items_open_to U P fr depth xs M ys)"
      by (rule restores_then [OF 3(2)]) (use 3 in \<open>auto simp: walk_keeps\<close>)
  qed (use 3 items_cons in \<open>auto simp: walk_keeps intro!: keeps_after\<close>)
  then show ?case by simp
next
  case (5 U P path depth key x es)
  have "restores sp (after (walk U P (entry_path path key) (depth + 1) (un_lower U key \<in> cp_fieldRules P) x)
      (\<lambda>y. after (walk_entries U P path depth es) (\<lambda>ys. give ((key, y) # ys)))) (entries_open_to U P depth ((key, x) # es))"
  proof (rule restores_after [OF 5(1)])
    fix y show "restores sp (after (walk_entries U P path depth es) (\<lambda>ys. give ((key, y) # ys))) (\<lambda>M l. \<exists>ys. l = (key, y) # ys \<and> entries_open_to U P depth es M ys)"
      by (rule restores_then [OF 5(2)]) (use 5 in \<open>auto simp: walk_keeps\<close>)
  qed (use 5 entries_cons in \<open>auto simp: walk_keeps intro!: keeps_after\<close>)
  then show ?case by simp
qed (auto intro!: restores_give simp: items_open_to_def entries_open_to_def)

end
