(* ===== verification/Pii_Policy.thy ===== *)
theory Pii_Policy
  imports Pii_Payload Contracts
begin

text \<open>
  The masking policy (\<open>packages/pii/src/policy.ts\<close>, \<open>regex-safety.ts\<close>, the schemas of \<open>types.ts\<close> and
  \<open>compileAccountPatterns\<close> of \<open>detectors/account.ts\<close>). JavaScript's regular expressions, for the
  institution's own patterns, are a parameter: what compiles, what matches the empty text.
\<close>

subsection \<open>regex-safety.ts\<close>

definition MAX_PATTERN_LENGTH :: nat where
  "MAX_PATTERN_LENGTH = 200"

text \<open>The functions take the pattern from the position on.\<close>

definition unboundedBraceAt :: "units \<Rightarrow> bool" where
  "unboundedBraceAt s \<longleftrightarrow>
    (u16 CHR ''}'' \<in> set s \<and>
     (case takeWhile (\<lambda>u. u \<noteq> u16 CHR ''}'') s of
        [] \<Rightarrow> False
      | u # t \<Rightarrow> u = u16 CHR ''{'' \<and> dropWhile is_digit16 t = asc '',''))"

definition isUnboundedQuantifier :: "units \<Rightarrow> bool" where
  "isUnboundedQuantifier s \<longleftrightarrow>
    (case s of
       [] \<Rightarrow> False
     | u # _ \<Rightarrow> u = u16 CHR ''*'' \<or> u = u16 CHR ''+'' \<or> (u = u16 CHR ''{'' \<and> unboundedBraceAt s))"

fun containsUnboundedQuantifier :: "bool \<Rightarrow> units \<Rightarrow> bool" where
  "containsUnboundedQuantifier inClass [] \<longleftrightarrow> False"
| "containsUnboundedQuantifier inClass (u # s) \<longleftrightarrow>
    (if u = 0x5C then (case s of [] \<Rightarrow> False | _ # s' \<Rightarrow> containsUnboundedQuantifier inClass s')
     else if inClass then containsUnboundedQuantifier (u \<noteq> u16 CHR '']'') s
     else if u = u16 CHR ''['' then containsUnboundedQuantifier True s
     else isUnboundedQuantifier (u # s) \<or> containsUnboundedQuantifier False s)"

text \<open>\<open>i\<close> is the position of the rest in the pattern, \<open>openings\<close> the stack of open brackets.\<close>

fun nested_from :: "units \<Rightarrow> nat \<Rightarrow> bool \<Rightarrow> nat list \<Rightarrow> units \<Rightarrow> bool" where
  "nested_from source i inClass openings [] \<longleftrightarrow> False"
| "nested_from source i inClass openings (u # s) \<longleftrightarrow>
    (if u = 0x5C then (case s of [] \<Rightarrow> False | _ # s' \<Rightarrow> nested_from source (i + 2) inClass openings s')
     else if inClass then nested_from source (i + 1) (u \<noteq> u16 CHR '']'') openings s
     else if u = u16 CHR ''['' then nested_from source (i + 1) True openings s
     else if u = u16 CHR ''('' then nested_from source (i + 1) False (i # openings) s
     else if u \<noteq> u16 CHR '')'' then nested_from source (i + 1) False openings s
     else case openings of
            [] \<Rightarrow> nested_from source (i + 1) False [] s
          | opening # rest \<Rightarrow>
            (isUnboundedQuantifier s \<and> containsUnboundedQuantifier False (slice source (opening + 1) i)) \<or>
            nested_from source (i + 1) False rest s)"

definition hasNestedQuantifier :: "units \<Rightarrow> bool" where
  "hasNestedQuantifier source = nested_from source 0 False [] source"

definition backtrackingRisk :: "units \<Rightarrow> string option" where
  "backtrackingRisk source =
    (if MAX_PATTERN_LENGTH < length source then Some ''pattern is longer than 200 characters''
     else if hasNestedQuantifier source then Some ''a repeated group repeats without a bound''
     else None)"

subsection \<open>The schemas\<close>

record account_rule =
  ar_name :: units
  ar_pattern :: units

record mask_profile =
  mp_types :: "pii_type list"
  mp_accountPatterns :: "account_rule list"
  mp_fieldRules :: "units list"

type_synonym pii_policy = "data_class \<Rightarrow> mask_profile"

text \<open>White space of \<open>String.prototype.trim\<close>, line terminators included.\<close>

definition js_space :: "unit16 \<Rightarrow> bool" where
  "js_space u \<longleftrightarrow> (0x09 \<le> u \<and> u \<le> 0x0D) \<or> u \<in> {0x20, 0xA0, 0x1680, 0x2028, 0x2029, 0x202F, 0x205F, 0x3000, 0xFEFF} \<or>
    (0x2000 \<le> u \<and> u \<le> 0x200A)"

definition trim16 :: "units \<Rightarrow> units" where
  "trim16 s = rev (dropWhile js_space (rev (dropWhile js_space s)))"

definition NonEmpty :: "units \<Rightarrow> units option" where
  "NonEmpty s = (if trim16 s = [] then None else Some (trim16 s))"

fun all_some :: "'a option list \<Rightarrow> 'a list option" where
  "all_some [] = Some []"
| "all_some (None # xs) = None"
| "all_some (Some x # xs) = map_option (Cons x) (all_some xs)"

definition rule_name_ok :: "units \<Rightarrow> bool" where
  "rule_name_ok s \<longleftrightarrow>
    (case s of [] \<Rightarrow> False
     | u # t \<Rightarrow> (0x61 \<le> u \<and> u \<le> 0x7A) \<and> list_all (\<lambda>v. (0x61 \<le> v \<and> v \<le> 0x7A) \<or> is_digit16 v \<or> v = 0x5F \<or> v = 0x2D) t)"

definition parse_rule :: "account_rule \<Rightarrow> account_rule option" where
  "parse_rule r = (if rule_name_ok (ar_name r) then map_option (\<lambda>p. \<lparr>ar_name = ar_name r, ar_pattern = p\<rparr>) (NonEmpty (ar_pattern r)) else None)"

definition parse_profile :: "mask_profile \<Rightarrow> mask_profile option" where
  "parse_profile p =
    (if mp_types p = [] then None
     else case (all_some (map parse_rule (mp_accountPatterns p)), all_some (map NonEmpty (mp_fieldRules p))) of
            (Some rules, Some names) \<Rightarrow> Some \<lparr>mp_types = mp_types p, mp_accountPatterns = rules, mp_fieldRules = names\<rparr>
          | _ \<Rightarrow> None)"

text \<open>The shapes, read from a document; a list that is left out is empty.\<close>

definition property :: "string \<Rightarrow> data \<Rightarrow> data" where
  "property k d = (case d of Object es \<Rightarrow> (case map_of es (asc k) of None \<Rightarrow> Undefined | Some v \<Rightarrow> v) | _ \<Rightarrow> Undefined)"

fun read_text :: "data \<Rightarrow> units option" where
  "read_text (Str s) = Some s"
| "read_text _ = None"

definition read_list :: "(data \<Rightarrow> 'a option) \<Rightarrow> data \<Rightarrow> 'a list option" where
  "read_list f d = (case d of Undefined \<Rightarrow> Some [] | Arr xs \<Rightarrow> all_some (map f xs) | _ \<Rightarrow> None)"

definition type_name :: "pii_type \<Rightarrow> string" where
  "type_name t = (case t of Iban \<Rightarrow> ''iban'' | Card \<Rightarrow> ''card'' | Tckn \<Rightarrow> ''tckn'' | Phone \<Rightarrow> ''phone'' | Email \<Rightarrow> ''email''
    | Account \<Rightarrow> ''account'' | FieldRule \<Rightarrow> ''field'')"

definition read_type :: "data \<Rightarrow> pii_type option" where
  "read_type d = (case d of Str s \<Rightarrow> List.find (\<lambda>t. s = asc (type_name t)) DETECTOR_TYPES | _ \<Rightarrow> None)"

definition read_rule :: "data \<Rightarrow> account_rule option" where
  "read_rule d =
    (case (read_text (property ''name'' d), read_text (property ''pattern'' d)) of
       (Some n, Some p) \<Rightarrow> Some \<lparr>ar_name = n, ar_pattern = p\<rparr>
     | _ \<Rightarrow> None)"

definition read_profile :: "data \<Rightarrow> mask_profile option" where
  "read_profile d =
    (case (property ''types'' d, read_list read_type (property ''types'' d),
           read_list read_rule (property ''accountPatterns'' d), read_list read_text (property ''fieldRules'' d)) of
       (Arr _, Some types, Some rules, Some names) \<Rightarrow>
         parse_profile \<lparr>mp_types = types, mp_accountPatterns = rules, mp_fieldRules = names\<rparr>
     | _ \<Rightarrow> None)"

definition class_name :: "data_class \<Rightarrow> string" where
  "class_name c = (case c of Acik \<Rightarrow> ''acik'' | Dahili \<Rightarrow> ''dahili'' | Gizli \<Rightarrow> ''gizli'')"

definition read_policy :: "data \<Rightarrow> pii_policy option" where
  "read_policy d =
    (let profile = (\<lambda>c. read_profile (property (class_name c) (property ''profiles'' d)))
     in case (profile Acik, profile Dahili, profile Gizli) of
          (Some a, Some b, Some c) \<Rightarrow> Some (\<lambda>k. case k of Acik \<Rightarrow> a | Dahili \<Rightarrow> b | Gizli \<Rightarrow> c)
        | _ \<Rightarrow> None)"

subsection \<open>account.ts: compiling patterns\<close>

record regexps =
  re_compile :: "units \<Rightarrow> account_pattern option"
  re_matches_empty :: "units \<Rightarrow> bool"

definition compile_rule :: "regexps \<Rightarrow> account_rule \<Rightarrow> pii_error + account_pattern" where
  "compile_rule R r =
    (case backtrackingRisk (ar_pattern r) of
       Some risk \<Rightarrow> Inl (PiiPolicy risk [ar_name r])
     | None \<Rightarrow>
       (case re_compile R (ar_pattern r) of
          None \<Rightarrow> Inl (PiiPolicy ''not a valid regular expression'' [ar_name r])
        | Some compiled \<Rightarrow>
          (if re_matches_empty R (ar_pattern r) then Inl (PiiPolicy ''matches the empty string'' [ar_name r]) else Inr compiled)))"

fun compileAccountPatterns :: "regexps \<Rightarrow> account_rule list \<Rightarrow> pii_error + account_pattern list" where
  "compileAccountPatterns R [] = Inr []"
| "compileAccountPatterns R (r # rs) =
    (case compile_rule R r of
       Inl e \<Rightarrow> Inl e
     | Inr compiled \<Rightarrow> map_sum id (Cons compiled) (compileAccountPatterns R rs))"

subsection \<open>policy.ts\<close>

definition STRICTEST_CLASS :: data_class where
  "STRICTEST_CLASS = Gizli"

definition CLASS_ORDER :: "data_class list" where
  "CLASS_ORDER = [Acik, Dahili, Gizli]"

definition patternKey :: "account_rule \<Rightarrow> units" where
  "patternKey r = ar_name r @ asc ''='' @ ar_pattern r"

text \<open>An issue is what the looser class masks and the stricter one does not.\<close>

definition subsetIssue :: "string \<Rightarrow> units list \<Rightarrow> (string \<times> units list) option" where
  "subsetIssue what missing = (if missing = [] then None else Some (what, missing))"

definition monotone_issues :: "unicode \<Rightarrow> mask_profile \<Rightarrow> mask_profile \<Rightarrow> (string \<times> units list) list" where
  "monotone_issues U looser stricter =
    List.map_filter id
      [subsetIssue ''detector types'' (map (\<lambda>t. asc (type_name t)) (filter (\<lambda>t. t \<notin> set (mp_types stricter)) (mp_types looser))),
       subsetIssue ''field rules''
         (filter (\<lambda>f. \<not> list_ex (\<lambda>g. un_lower U g = un_lower U f) (mp_fieldRules stricter)) (mp_fieldRules looser)),
       subsetIssue ''account patterns''
         (map ar_name (filter (\<lambda>p. \<not> list_ex (\<lambda>q. patternKey q = patternKey p) (mp_accountPatterns stricter)) (mp_accountPatterns looser)))]"

fun assertMonotone_from :: "unicode \<Rightarrow> pii_policy \<Rightarrow> data_class list \<Rightarrow> pii_error + unit" where
  "assertMonotone_from U policy (a # b # cs) =
    (case monotone_issues U (policy a) (policy b) of
       [] \<Rightarrow> assertMonotone_from U policy (b # cs)
     | issues \<Rightarrow> Inl (PiiPolicy ''a stricter class must never mask less than a looser one'' (concat (map snd issues))))"
| "assertMonotone_from U policy _ = Inr ()"

definition assertMonotone :: "unicode \<Rightarrow> pii_policy \<Rightarrow> pii_error + unit" where
  "assertMonotone U policy = assertMonotone_from U policy CLASS_ORDER"

fun compile_all :: "regexps \<Rightarrow> pii_policy \<Rightarrow> data_class list \<Rightarrow> pii_error + unit" where
  "compile_all R policy [] = Inr ()"
| "compile_all R policy (c # cs) =
    (case compileAccountPatterns R (mp_accountPatterns (policy c)) of
       Inl e \<Rightarrow> Inl e
     | Inr _ \<Rightarrow> compile_all R policy cs)"

definition loadPiiPolicy :: "unicode \<Rightarrow> regexps \<Rightarrow> data \<Rightarrow> pii_error + pii_policy" where
  "loadPiiPolicy U R input =
    (case read_policy input of
       None \<Rightarrow> Inl (PiiPolicy ''schema'' [])
     | Some policy \<Rightarrow>
       (let missing = filter (\<lambda>t. t \<notin> set (mp_types (policy STRICTEST_CLASS))) DETECTOR_TYPES
        in if missing \<noteq> [] then Inl (PiiPolicy ''must enable every detector'' (map (\<lambda>t. asc (type_name t)) missing))
           else case assertMonotone U policy of
                  Inl e \<Rightarrow> Inl e
                | Inr _ \<Rightarrow> map_sum id (\<lambda>_. policy) (compile_all R policy CLASS_ORDER)))"

record resolved_profile =
  rp_dataClass :: data_class
  rp_profile :: mask_profile
  rp_fellBack :: bool

definition read_class :: "data \<Rightarrow> data_class option" where
  "read_class d = (case d of Str s \<Rightarrow> List.find (\<lambda>c. s = asc (class_name c)) CLASS_ORDER | _ \<Rightarrow> None)"

definition resolveProfile :: "pii_policy \<Rightarrow> data \<Rightarrow> resolved_profile" where
  "resolveProfile policy dataClass =
    (let name = (case read_class dataClass of Some c \<Rightarrow> c | None \<Rightarrow> STRICTEST_CLASS)
     in \<lparr>rp_dataClass = name, rp_profile = policy name, rp_fellBack = (read_class dataClass = None)\<rparr>)"

definition compileProfile :: "unicode \<Rightarrow> regexps \<Rightarrow> mask_profile \<Rightarrow> pii_error + compiled_profile" where
  "compileProfile U R profile =
    (case parse_profile profile of
       None \<Rightarrow> Inl (PiiPolicy ''schema'' [])
     | Some parsed \<Rightarrow>
       (case compileAccountPatterns R (mp_accountPatterns parsed) of
          Inl e \<Rightarrow> Inl e
        | Inr patterns \<Rightarrow>
          Inr \<lparr>cp_detectors = filter (\<lambda>t. t \<in> set (mp_types parsed)) DETECTOR_TYPES,
               cp_accounts = patterns, cp_fieldRules = set (map (un_lower U) (mp_fieldRules parsed))\<rparr>))"

definition compiledProfileFor :: "unicode \<Rightarrow> regexps \<Rightarrow> pii_policy \<Rightarrow> data \<Rightarrow> pii_error + (data_class \<times> compiled_profile \<times> bool)" where
  "compiledProfileFor U R policy dataClass =
    (let resolved = resolveProfile policy dataClass
     in map_sum id (\<lambda>profile. (rp_dataClass resolved, profile, rp_fellBack resolved)) (compileProfile U R (rp_profile resolved)))"

definition all_classes :: "pii_type list \<Rightarrow> data" where
  "all_classes types = Object [(asc ''types'', Arr (map (\<lambda>t. Str (asc (type_name t))) types)), (asc ''accountPatterns'', Arr []), (asc ''fieldRules'', Arr [])]"

definition defaultPiiPolicy :: "unicode \<Rightarrow> regexps \<Rightarrow> pii_error + pii_policy" where
  "defaultPiiPolicy U R =
    loadPiiPolicy U R (Object [(asc ''profiles'', Object
      [(asc ''acik'', all_classes [Iban, Card, Tckn, Phone, Email]),
       (asc ''dahili'', all_classes DETECTOR_TYPES),
       (asc ''gizli'', all_classes DETECTOR_TYPES)])])"


subsection \<open>A stricter class masks more\<close>

lemma all_some_set: "all_some xs = Some ys \<Longrightarrow> y \<in> set ys \<Longrightarrow> Some y \<in> set xs"
  by (induction xs arbitrary: ys rule: all_some.induct) auto

lemma all_some_again: "all_some (map f xs) = Some ys \<Longrightarrow> (\<And>x y. f x = Some y \<Longrightarrow> f y = Some y) \<Longrightarrow> all_some (map f ys) = Some ys"
proof (induction xs arbitrary: ys)
  case (Cons x xs)
  then show ?case by (cases "f x") auto
qed simp

lemma trim16_again: "trim16 (trim16 s) = trim16 s"
proof -
  define t where "t = dropWhile js_space s"
  define r where "r = dropWhile js_space (rev t)"
  have u: "trim16 s = rev r" by (simp add: trim16_def t_def r_def)
  have last: "dropWhile js_space r = r"
  proof (cases r)
    case (Cons a b)
    then have "\<not> js_space a" unfolding r_def by (metis hd_dropWhile list.distinct(1) list.sel(1))
    then show ?thesis using Cons by simp
  qed simp
  have first: "dropWhile js_space (rev r) = rev r"
  proof (cases "rev r")
    case (Cons a b)
    obtain w where "rev t = w @ r" unfolding r_def by (metis takeWhile_dropWhile_id)
    then have "t = rev r @ rev w" by (metis rev_append rev_rev_ident)
    then have "t = a # (b @ rev w)" using Cons by simp
    then have "\<not> js_space a" unfolding t_def by (metis hd_dropWhile list.distinct(1) list.sel(1))
    then show ?thesis using Cons by simp
  qed simp
  show ?thesis unfolding u by (simp add: trim16_def first last)
qed

lemma NonEmpty_again: "NonEmpty s = Some t \<Longrightarrow> NonEmpty t = Some t"
  by (auto simp: NonEmpty_def trim16_again split: if_splits)

lemma parse_rule_again: "parse_rule r = Some q \<Longrightarrow> parse_rule q = Some q"
  by (auto simp: parse_rule_def split: if_splits dest: NonEmpty_again)

lemma parse_again: "parse_profile p = Some q \<Longrightarrow> parse_profile q = Some q"
  by (auto simp: parse_profile_def split: if_splits option.splits
    dest: all_some_again [where f = parse_rule, OF _ parse_rule_again] all_some_again [where f = NonEmpty, OF _ NonEmpty_again])

lemma read_policy_parsed: "read_policy d = Some policy \<Longrightarrow> parse_profile (policy c) = Some (policy c)"
  by (cases c)
    (auto simp: read_policy_def read_profile_def Let_def split: option.splits data.splits dest: parse_again)

lemma parse_rule_name: "parse_rule x = Some r \<Longrightarrow> rule_name_ok (ar_name r)"
  by (auto simp: parse_rule_def split: if_splits)

lemma parsed_names: "parse_profile q = Some q \<Longrightarrow> r \<in> set (mp_accountPatterns q) \<Longrightarrow> rule_name_ok (ar_name r)"
proof -
  assume a: "parse_profile q = Some q" "r \<in> set (mp_accountPatterns q)"
  then obtain rules where "all_some (map parse_rule (mp_accountPatterns q)) = Some rules" "r \<in> set rules"
    unfolding parse_profile_def by (auto split: if_splits option.splits) (metis mask_profile.select_convs(2))
  from all_some_set [OF this] obtain x where "parse_rule x = Some r" by auto
  then show ?thesis by (rule parse_rule_name)
qed

lemma name_no_equals: "rule_name_ok n \<Longrightarrow> u16 CHR ''='' \<notin> set n"
  by (auto simp: rule_name_ok_def list_all_iff is_digit16_def word_le_nat_alt word_unat_eq_iff split: list.splits dest!: bspec [where x = "u16 CHR ''=''"])

lemma patternKey_inj:
  assumes "rule_name_ok (ar_name p)" "rule_name_ok (ar_name q)" "patternKey p = patternKey q"
  shows "p = q"
  using split_first [OF name_no_equals [OF assms(1)] name_no_equals [OF assms(2)]] assms(3) by (simp add: patternKey_def)

lemma no_issues:
  assumes "monotone_issues U a b = []"
  shows "set (mp_types a) \<subseteq> set (mp_types b)"
    "\<forall>f \<in> set (mp_fieldRules a). \<exists>g \<in> set (mp_fieldRules b). un_lower U g = un_lower U f"
    "\<forall>p \<in> set (mp_accountPatterns a). \<exists>q \<in> set (mp_accountPatterns b). patternKey q = patternKey p"
  using assms
  by (auto simp: monotone_issues_def subsetIssue_def List.map_filter_def filter_empty_conv list_ex_iff split: if_splits)

lemma compileAccountPatterns_set:
  "compileAccountPatterns R rs = Inr cs \<Longrightarrow> set cs = {c. \<exists>r \<in> set rs. compile_rule R r = Inr c}"
proof (induction rs arbitrary: cs)
  case (Cons r rs)
  then obtain c cs' where "compile_rule R r = Inr c" "compileAccountPatterns R rs = Inr cs'" "cs = c # cs'"
    by (cases "compile_rule R r"; cases "compileAccountPatterns R rs") auto
  then show ?case using Cons.IH by auto
qed simp

text \<open>One profile masks at least what another does.\<close>

definition masks_at_least :: "compiled_profile \<Rightarrow> compiled_profile \<Rightarrow> bool" where
  "masks_at_least strict loose \<longleftrightarrow>
    set (cp_detectors loose) \<subseteq> set (cp_detectors strict) \<and> set (cp_accounts loose) \<subseteq> set (cp_accounts strict) \<and>
    cp_fieldRules loose \<subseteq> cp_fieldRules strict"

lemma masks_refl [simp]: "masks_at_least P P"
  by (simp add: masks_at_least_def)

lemma masks_trans: "masks_at_least a b \<Longrightarrow> masks_at_least b c \<Longrightarrow> masks_at_least a c"
  by (auto simp: masks_at_least_def)

lemma more_matches: "masks_at_least strict loose \<Longrightarrow> set (all_matches U loose text) \<subseteq> set (all_matches U strict text)"
proof
  fix x
  assume m: "masks_at_least strict loose" and "x \<in> set (all_matches U loose text)"
  then obtain t where t: "t \<in> set (cp_detectors strict)" "x \<in> set (DETECTORS U (cp_accounts loose) t text)"
    by (auto simp: all_matches_def masks_at_least_def)
  have "set (DETECTORS U (cp_accounts loose) t text) \<subseteq> set (DETECTORS U (cp_accounts strict) t text)"
    using m by (cases t) (auto simp: scan_account_def masks_at_least_def)
  with t show "x \<in> set (all_matches U strict text)" by (auto simp: all_matches_def)
qed

lemma compiled_monotone:
  assumes "monotone_issues U a b = []" "parse_profile a = Some a" "parse_profile b = Some b"
    "compileProfile U R a = Inr ca" "compileProfile U R b = Inr cb"
  shows "masks_at_least cb ca"
proof -
  obtain as bs where
    as: "compileAccountPatterns R (mp_accountPatterns a) = Inr as" "ca = \<lparr>cp_detectors = filter (\<lambda>t. t \<in> set (mp_types a)) DETECTOR_TYPES,
      cp_accounts = as, cp_fieldRules = set (map (un_lower U) (mp_fieldRules a))\<rparr>"
    and bs: "compileAccountPatterns R (mp_accountPatterns b) = Inr bs" "cb = \<lparr>cp_detectors = filter (\<lambda>t. t \<in> set (mp_types b)) DETECTOR_TYPES,
      cp_accounts = bs, cp_fieldRules = set (map (un_lower U) (mp_fieldRules b))\<rparr>"
    using assms(2-5) by (auto simp: compileProfile_def split: sum.splits)
  note iss = no_issues [OF assms(1)]
  have "mp_accountPatterns a = [] \<or> set (mp_accountPatterns a) \<subseteq> set (mp_accountPatterns b)"
  proof (intro disjI2 subsetI)
    fix p assume p: "p \<in> set (mp_accountPatterns a)"
    then obtain q where "q \<in> set (mp_accountPatterns b)" "patternKey q = patternKey p" using iss(3) by blast
    then show "p \<in> set (mp_accountPatterns b)" using patternKey_inj parsed_names assms(2,3) p by metis
  qed
  then have "set as \<subseteq> set bs"
    unfolding compileAccountPatterns_set [OF as(1)] compileAccountPatterns_set [OF bs(1)] by auto
  moreover have "set (map (un_lower U) (mp_fieldRules a)) \<subseteq> set (map (un_lower U) (mp_fieldRules b))"
  proof
    fix f' assume "f' \<in> set (map (un_lower U) (mp_fieldRules a))"
    then obtain f where "f \<in> set (mp_fieldRules a)" "f' = un_lower U f" by auto
    moreover from this(1) obtain g where "g \<in> set (mp_fieldRules b)" "un_lower U g = un_lower U f" using iss(2) by blast
    ultimately show "f' \<in> set (map (un_lower U) (mp_fieldRules b))" by (auto intro!: image_eqI [of _ _ g])
  qed
  ultimately show ?thesis using iss(1) unfolding masks_at_least_def as(2) bs(2) by auto
qed

definition strictness :: "data_class \<Rightarrow> nat" where
  "strictness c = (case c of Acik \<Rightarrow> 0 | Dahili \<Rightarrow> 1 | Gizli \<Rightarrow> 2)"

lemma load_facts:
  assumes "loadPiiPolicy U R input = Inr policy"
  shows "parse_profile (policy c) = Some (policy c)" "monotone_issues U (policy Acik) (policy Dahili) = []"
    "monotone_issues U (policy Dahili) (policy Gizli) = []" "set DETECTOR_TYPES \<subseteq> set (mp_types (policy Gizli))"
    "\<exists>as. compileAccountPatterns R (mp_accountPatterns (policy c)) = Inr as"
proof -
  from assms have r: "read_policy input = Some policy" and g: "filter (\<lambda>t. t \<notin> set (mp_types (policy Gizli))) DETECTOR_TYPES = []"
    and m: "assertMonotone U policy = Inr ()" and k: "compile_all R policy CLASS_ORDER = Inr ()"
    by (auto simp: loadPiiPolicy_def STRICTEST_CLASS_def Let_def map_sum_def split: option.splits if_splits sum.splits)
  show "parse_profile (policy c) = Some (policy c)" by (rule read_policy_parsed [OF r])
  show "monotone_issues U (policy Acik) (policy Dahili) = []" "monotone_issues U (policy Dahili) (policy Gizli) = []"
    using m by (auto simp: assertMonotone_def CLASS_ORDER_def split: list.splits)
  show "set DETECTOR_TYPES \<subseteq> set (mp_types (policy Gizli))" using g by (auto simp: filter_empty_conv)
  show "\<exists>as. compileAccountPatterns R (mp_accountPatterns (policy c)) = Inr as"
    using k by (cases c) (auto simp: CLASS_ORDER_def split: sum.splits)
qed

lemma loaded_monotone:
  assumes "loadPiiPolicy U R input = Inr policy" "strictness a \<le> strictness b"
    "compileProfile U R (policy a) = Inr ca" "compileProfile U R (policy b) = Inr cb"
  shows "masks_at_least cb ca"
proof -
  note f = load_facts [OF assms(1)]
  obtain cd where d: "compileProfile U R (policy Dahili) = Inr cd"
    using f(1,5) [of Dahili] by (auto simp: compileProfile_def)
  note m1 = compiled_monotone [OF f(2) f(1) f(1) _ d] and m2 = compiled_monotone [OF f(3) f(1) f(1) d]
  show ?thesis
    using assms m1 m2 d by (cases a; cases b) (auto simp: strictness_def intro: masks_trans)
qed

lemma fallback_profile: "read_class d = None \<Longrightarrow> rp_profile (resolveProfile policy d) = policy Gizli"
  by (simp add: resolveProfile_def STRICTEST_CLASS_def)

end
