(* ===== verification/Pii_Boundary.thy ===== *)
theory Pii_Boundary
  imports Pii_Policy
begin

text \<open>
  The gate at which payloads leave and answers come back (\<open>packages/pii/src/boundary.ts\<close>, \<open>masked.ts\<close>,
  \<open>result.ts\<close>). The call itself and the random nonces are parameters; an exchange records what the call
  received and what the audit hook was told.
\<close>

subsection \<open>What passes the tripwire\<close>

fun keys_clean :: "unicode \<Rightarrow> compiled_profile \<Rightarrow> data \<Rightarrow> bool"
and keys_clean_items :: "unicode \<Rightarrow> compiled_profile \<Rightarrow> data list \<Rightarrow> bool"
and keys_clean_entries :: "unicode \<Rightarrow> compiled_profile \<Rightarrow> (units \<times> data) list \<Rightarrow> bool" where
  "keys_clean U P v = (case v of Arr xs \<Rightarrow> keys_clean_items U P xs | Object es \<Rightarrow> keys_clean_entries U P es | _ \<Rightarrow> True)"
| "keys_clean_items U P [] = True"
| "keys_clean_items U P (x # xs) = (keys_clean U P x \<and> keys_clean_items U P xs)"
| "keys_clean_entries U P [] = True"
| "keys_clean_entries U P ((k, x) # es) = (collectMatches U P k = [] \<and> keys_clean U P x \<and> keys_clean_entries U P es)"

declare keys_clean.simps [simp del]

lemma fold_occurrences: "ct_occurrences (fold (\<lambda>m. countOccurrence (pm_type m)) ms acc) = ct_occurrences acc + length ms"
  by (induction ms arbitrary: acc) (simp_all add: countOccurrence_def)

lemma count_more:
  "ct_occurrences acc \<le> ct_occurrences (countKeyPii U P v acc)"
  "ct_occurrences acc \<le> ct_occurrences (countKeyPii_items U P vs acc)"
  "ct_occurrences acc \<le> ct_occurrences (countKeyPii_entries U P es acc)"
proof (induction U P v acc and U P vs acc and U P es acc rule: countKeyPii_countKeyPii_items_countKeyPii_entries.induct)
  case (1 U P v acc)
  then show ?case by (subst countKeyPii.simps) (auto split: data.split)
next
  case (5 U P key x es acc)
  have "ct_occurrences acc \<le> ct_occurrences (fold (\<lambda>m. countOccurrence (pm_type m)) (collectMatches U P key) acc)"
    by (simp add: fold_occurrences)
  also have "\<dots> \<le> ct_occurrences (countKeyPii_entries U P ((key, x) # es) acc)" using 5 by simp
  finally show ?case .
qed (auto intro: le_trans)

lemma count_keys:
  "ct_occurrences (countKeyPii U P v acc) = ct_occurrences acc \<Longrightarrow> keys_clean U P v"
  "ct_occurrences (countKeyPii_items U P vs acc) = ct_occurrences acc \<Longrightarrow> keys_clean_items U P vs"
  "ct_occurrences (countKeyPii_entries U P es acc) = ct_occurrences acc \<Longrightarrow> keys_clean_entries U P es"
proof (induction U P v acc and U P vs acc and U P es acc rule: countKeyPii_countKeyPii_items_countKeyPii_entries.induct)
  case (1 U P v acc)
  then show ?case by (cases v) (simp_all add: countKeyPii.simps keys_clean.simps)
next
  case (3 U P x xs acc)
  have "ct_occurrences (countKeyPii U P x acc) = ct_occurrences acc"
    using 3(3) count_more(1) [of acc U P x] count_more(2) [of "countKeyPii U P x acc" U P xs] by simp
  then show ?case using 3 by simp
next
  case (5 U P key x es acc)
  let ?acc = "fold (\<lambda>m. countOccurrence (pm_type m)) (collectMatches U P key) acc"
  have e: "ct_occurrences (countKeyPii_entries U P es (countKeyPii U P x ?acc)) = ct_occurrences acc" using 5(3) by simp
  note le = count_more(1) [of ?acc U P x] count_more(3) [of "countKeyPii U P x ?acc" U P es] fold_occurrences [of "collectMatches U P key" acc]
  have "ct_occurrences ?acc = ct_occurrences acc" using e le by linarith
  moreover have "ct_occurrences (countKeyPii U P x ?acc) = ct_occurrences ?acc" using e le by linarith
  moreover have "ct_occurrences (countKeyPii_entries U P es (countKeyPii U P x ?acc)) = ct_occurrences (countKeyPii U P x ?acc)"
    using e le by linarith
  ultimately show ?case using 5 fold_occurrences [of "collectMatches U P key" acc] by simp
qed simp_all

definition fresh :: reverse_map where
  "fresh = \<lparr>rv_byToken = [], rv_byCanonical = [], rv_counters = [], rv_nonce = []\<rparr>"

lemma clean_fresh:
  "rv_byToken m = [] \<Longrightarrow> clean U P m fr v = clean U P fresh fr v"
  "rv_byToken m = [] \<Longrightarrow> clean_items U P m fr vs = clean_items U P fresh fr vs"
  "rv_byToken m = [] \<Longrightarrow> clean_entries U P m es = clean_entries U P fresh es"
proof (induction U P m fr v and U P m fr vs and U P m es rule: clean_clean_items_clean_entries.induct)
  case (1 U P m fr v)
  have "leaf_clean U P m fr t = leaf_clean U P fresh fr t" for t
    using 1 by (simp add: leaf_clean_def defangForeignTokens_def has_token_def fresh_def)
  then show ?case using 1 by (cases v) (simp_all add: clean.simps)
qed simp_all

text \<open>
  Nothing in a payload is found by a detector: not in a text, whose token shapes lose their brackets
  first, not in a key; a field with a rule is empty or a token.
\<close>

definition no_pii :: "unicode \<Rightarrow> compiled_profile \<Rightarrow> data \<Rightarrow> bool" where
  "no_pii U P v \<longleftrightarrow> clean U P fresh False v \<and> keys_clean U P v"

lemma toCounts_occurrences [simp]: "ct_occurrences (toCounts acc) = ct_occurrences acc"
  by (simp add: toCounts_def)

lemma assert_no_pii:
  assumes "assertNoPii U P nonce v boundary = Inr ()"
  shows "no_pii U P v"
proof -
  from assms obtain m w m' acc where n: "new_map nonce = Inr m"
    and w: "walk U P [] 0 False v (m, newAccumulator) = (Inr w, m', acc)"
    and c: "ct_occurrences (countKeyPii U P v acc) = 0"
    by (auto simp: assertNoPii_def scanForPii_def split: sum.splits prod.splits if_splits)
  note ok = new_map_ok [OF n]
  have a: "ct_occurrences acc = 0" using c count_more(1) [of acc U P v] by simp
  have "clean U P m False v" using quietD [OF walk_quiet(1) _ w] ok a by (simp add: newAccumulator_def)
  moreover have "keys_clean U P v" using count_keys(1) [of U P v acc] c a by simp
  ultimately show ?thesis using clean_fresh(1) [of m U P False v] ok by (simp add: no_pii_def)
qed

subsection \<open>masked.ts\<close>

text \<open>What reaches an egress function: an envelope the package minted, or anything else.\<close>

datatype envelope = Masked data | Unsealed data

fun is_masked :: "envelope \<Rightarrow> bool" where
  "is_masked (Masked v) \<longleftrightarrow> True"
| "is_masked (Unsealed v) \<longleftrightarrow> False"

subsection \<open>boundary.ts\<close>

datatype mask_leg = RequestLeg | ResponseLeg

record audit_call =
  au_counts :: counts
  au_class :: data_class
  au_boundary :: units
  au_leg :: mask_leg
  au_fellBack :: bool

record prepared =
  pr_profile :: compiled_profile
  pr_map :: reverse_map
  pr_class :: data_class
  pr_fellBack :: bool

definition prepare :: "unicode \<Rightarrow> regexps \<Rightarrow> pii_policy \<Rightarrow> data \<Rightarrow> units \<Rightarrow> pii_error + prepared" where
  "prepare U R policy dataClass nonce =
    (let resolved = resolveProfile policy dataClass
     in case compileProfile U R (rp_profile resolved) of
          Inl e \<Rightarrow> Inl e
        | Inr profile \<Rightarrow>
          map_sum id (\<lambda>m. \<lparr>pr_profile = profile, pr_map = m, pr_class = rp_dataClass resolved, pr_fellBack = rp_fellBack resolved\<rparr>)
            (new_map nonce))"

text \<open>One leg: mask, tell the auditor, trip the wire. \<open>scan\<close> is the nonce of the scan's own session.\<close>

definition mask_leg :: "unicode \<Rightarrow> prepared \<Rightarrow> mask_leg \<Rightarrow> units \<Rightarrow> units \<Rightarrow> data \<Rightarrow> reverse_map \<Rightarrow>
    (pii_error + (data \<times> counts)) \<times> reverse_map \<times> audit_call list" where
  "mask_leg U pr which boundary scan payload m =
    (case maskValue U (pr_profile pr) payload m of
       (Inl e, m') \<Rightarrow> (Inl e, m', [])
     | (Inr (masked, counts), m') \<Rightarrow>
       (let told = \<lparr>au_counts = counts, au_class = pr_class pr, au_boundary = boundary, au_leg = which, au_fellBack = pr_fellBack pr\<rparr>;
            name = (case which of RequestLeg \<Rightarrow> boundary | ResponseLeg \<Rightarrow> boundary @ asc '' (response)'')
        in case assertNoPii U (pr_profile pr) scan masked name of
             Inl e \<Rightarrow> (Inl e, m', [told])
           | Inr _ \<Rightarrow> (Inr (masked, counts), m', [told])))"

record outbound =
  ob_payload :: data
  ob_envelope :: envelope
  ob_map :: reverse_map
  ob_counts :: counts
  ob_class :: data_class
  ob_fellBack :: bool
  ob_profile :: compiled_profile

definition maskOutbound :: "unicode \<Rightarrow> regexps \<Rightarrow> pii_policy \<Rightarrow> data \<Rightarrow> units \<Rightarrow> units \<Rightarrow> units \<Rightarrow> data \<Rightarrow>
    (pii_error + outbound) \<times> audit_call list" where
  "maskOutbound U R policy dataClass boundary nonce scan payload =
    (case prepare U R policy dataClass nonce of
       Inl e \<Rightarrow> (Inl e, [])
     | Inr pr \<Rightarrow>
       (case mask_leg U pr RequestLeg boundary scan payload (pr_map pr) of
          (Inl e, m, told) \<Rightarrow> (Inl e, told)
        | (Inr (masked, counts), m, told) \<Rightarrow>
          (Inr \<lparr>ob_payload = masked, ob_envelope = Masked masked, ob_map = m, ob_counts = counts,
                ob_class = pr_class pr, ob_fellBack = pr_fellBack pr, ob_profile = pr_profile pr\<rparr>, told)))"

definition unmaskInbound :: "data \<Rightarrow> reverse_map \<Rightarrow> pii_error + data" where
  "unmaskInbound value m = unmaskValue value m"

text \<open>\<open>PiiBoundaryResult\<close>: the revealed output and what may be stored.\<close>

record boundary_result =
  br_maskedOutput :: data
  br_output :: data
  br_counts :: counts
  br_outputCounts :: counts
  br_class :: data_class
  br_fellBack :: bool

definition result_json :: "boundary_result \<Rightarrow> data \<times> counts \<times> counts \<times> data_class \<times> bool" where
  "result_json r = (br_maskedOutput r, br_counts r, br_outputCounts r, br_class r, br_fellBack r)"

datatype boundary_failure = Refused pii_error | CallRejected

record exchange =
  xc_outcome :: "boundary_failure + boundary_result"
  xc_sent :: "envelope list"
  xc_told :: "audit_call list"
  xc_map :: reverse_map

text \<open>One call of the wrapped function in a prepared session; \<open>call\<close> answers, or is rejected.\<close>

definition exchange_in :: "unicode \<Rightarrow> prepared \<Rightarrow> units \<Rightarrow> (envelope \<Rightarrow> data option) \<Rightarrow> units \<times> units \<Rightarrow> data \<Rightarrow> reverse_map \<Rightarrow> exchange" where
  "exchange_in U pr boundary call scans payload m0 =
    (case mask_leg U pr RequestLeg boundary (fst scans) payload m0 of
       (Inl e, m, told) \<Rightarrow> \<lparr>xc_outcome = Inl (Refused e), xc_sent = [], xc_told = told, xc_map = m\<rparr>
     | (Inr (masked, counts), m, told) \<Rightarrow>
       (case call (Masked masked) of
          None \<Rightarrow> \<lparr>xc_outcome = Inl CallRejected, xc_sent = [Masked masked], xc_told = told, xc_map = m\<rparr>
        | Some answer \<Rightarrow>
          (case mask_leg U pr ResponseLeg boundary (snd scans) answer m of
             (Inl e, m', told') \<Rightarrow> \<lparr>xc_outcome = Inl (Refused e), xc_sent = [Masked masked], xc_told = told @ told', xc_map = m'\<rparr>
           | (Inr (back, backCounts), m', told') \<Rightarrow>
             \<lparr>xc_outcome = (case unmaskValue back m' of
                 Inl e \<Rightarrow> Inl (Refused e)
               | Inr output \<Rightarrow> Inr \<lparr>br_maskedOutput = back, br_output = output, br_counts = counts, br_outputCounts = backCounts,
                   br_class = pr_class pr, br_fellBack = pr_fellBack pr\<rparr>),
              xc_sent = [Masked masked], xc_told = told @ told', xc_map = m'\<rparr>)))"

text \<open>\<open>withPiiBoundary\<close> with a session per call.\<close>

definition withPiiBoundary :: "unicode \<Rightarrow> regexps \<Rightarrow> pii_policy \<Rightarrow> data \<Rightarrow> units \<Rightarrow> (envelope \<Rightarrow> data option) \<Rightarrow> units \<Rightarrow> units \<times> units \<Rightarrow> data \<Rightarrow>
    pii_error + exchange" where
  "withPiiBoundary U R policy dataClass boundary call nonce scans payload =
    map_sum id (\<lambda>pr. exchange_in U pr boundary call scans payload (pr_map pr)) (prepare U R policy dataClass nonce)"

text \<open>
  With one session for the lifetime of the function, calls overlap: each is a request leg and, after its
  await, a response leg, in any order among the others.
\<close>

datatype leg_step = Leg mask_leg units data

fun shared_legs :: "unicode \<Rightarrow> prepared \<Rightarrow> units \<Rightarrow> leg_step list \<Rightarrow> reverse_map \<Rightarrow> (pii_error + (data \<times> counts)) list \<times> reverse_map" where
  "shared_legs U pr boundary [] m = ([], m)"
| "shared_legs U pr boundary (Leg which scan payload # steps) m =
    (let (r, m', told) = mask_leg U pr which boundary scan payload m;
         (rs, m'') = shared_legs U pr boundary steps m'
     in (r # rs, m''))"

definition guardEgress :: "unicode \<Rightarrow> compiled_profile \<Rightarrow> units \<Rightarrow> units \<Rightarrow> (envelope \<Rightarrow> 'r) \<Rightarrow> envelope \<Rightarrow> pii_error + 'r" where
  "guardEgress U P boundary scan send payload =
    (case payload of
       Unsealed v \<Rightarrow> Inl (PiiLeak boundary [] 0)
     | Masked v \<Rightarrow> map_sum id (\<lambda>_. send payload) (assertNoPii U P scan v boundary))"

subsection \<open>What a leg lets through\<close>

lemma mask_leg_session:
  assumes "mask_leg U pr which boundary scan payload m = (r, m', told)" "session_ok m"
  shows "session_ok m' \<and> grows m m'"
proof -
  obtain r1 m1 acc1 where w: "walk U (pr_profile pr) [] 0 False payload (m, newAccumulator) = (r1, m1, acc1)" by (metis prod.collapse)
  have "m' = m1" using assms(1) w by (auto simp: mask_leg_def maskValue_def Let_def split: sum.splits prod.splits)
  then show ?thesis using keepsD [OF walk_keeps(1) w assms(2)] by simp
qed

lemma mask_leg_clean: "mask_leg U pr which boundary scan payload m = (Inr (masked, counts), m', told) \<Longrightarrow> no_pii U (pr_profile pr) masked"
  by (auto simp: mask_leg_def Let_def split: sum.splits prod.splits intro: assert_no_pii)

lemma prepare_ok: "prepare U R policy dataClass nonce = Inr pr \<Longrightarrow> session_ok (pr_map pr)"
  by (cases "new_map nonce") (auto simp: prepare_def Let_def split: sum.splits dest: new_map_ok)

end
