(* ===== verification/Pii_Props.thy ===== *)
theory Pii_Props
  imports Pii_Boundary
begin

text \<open>
  The properties of the PII boundary: what the checksums promise, what a masked text is, that a session
  can put back what it masked and nothing else, that a stricter data class never masks less, and that a
  wrapped call sees no payload in which a detector finds anything. At the end, inputs on which the
  detectors and the token shapes do not do what the comments say.
\<close>

subsection \<open>Concrete parameters\<close>

text \<open>No letters beyond ASCII, no institution patterns, a profile of identity numbers.\<close>

definition plain_unicode :: unicode where
  "plain_unicode = \<lparr>un_word = (\<lambda>s. 0), un_word_before = (\<lambda>s. False), un_lower = id, un_upper = id\<rparr>"

definition plain_regexps :: regexps where
  "plain_regexps = \<lparr>re_compile = (\<lambda>_. None), re_matches_empty = (\<lambda>_. False)\<rparr>"

definition tckn_profile :: compiled_profile where
  "tckn_profile = \<lparr>cp_detectors = [Tckn], cp_accounts = [], cp_fieldRules = {}\<rparr>"

definition numbers_profile :: compiled_profile where
  "numbers_profile = \<lparr>cp_detectors = [Iban, Card, Tckn, Phone], cp_accounts = [], cp_fieldRules = {}\<rparr>"

definition session_aa :: reverse_map where
  "session_aa = \<lparr>rv_byToken = [], rv_byCanonical = [], rv_counters = [], rv_nonce = asc ''aa''\<rparr>"

lemma session_aa_new: "new_map (asc ''aa'') = Inr session_aa"
  by code_simp

lemma session_aa_ok: "session_ok session_aa" "spelled sp session_aa"
  using new_map_ok [OF session_aa_new] by blast+

lemma no_accounts_sound [simp]: "cp_accounts P = [] \<Longrightarrow> sound_accounts P"
  by (simp add: sound_accounts_def)

subsection \<open>Checksums\<close>

text \<open>
  C38: The check digits of an identity number and of a card number catch every single wrong digit: a
  number that differs from a valid one in one place is not valid.
\<close>

theorem single_slip_caught:
  assumes "i < length v" "v ! i \<noteq> u"
  shows "\<not> (isValidTckn v \<and> isValidTckn (v[i := u])) \<and> \<not> (isValidLuhn v \<and> isValidLuhn (v[i := u]))"
proof
  show "\<not> (isValidTckn v \<and> isValidTckn (v[i := u]))"
  proof
    assume a: "isValidTckn v \<and> isValidTckn (v[i := u])"
    then have "length v = 11" by (blast intro: tckn_last(1))
    then have "v ! i = u" using assms a by (intro tckn_slip) simp_all
    then show False using assms by blast
  qed
  show "\<not> (isValidLuhn v \<and> isValidLuhn (v[i := u]))"
    using luhn_slip [of v i u] assms by blast
qed

theorem single_slip_caught_witness:
  "\<not> (isValidTckn (asc ''10000000146'') \<and> isValidTckn ((asc ''10000000146'')[3 := u16 CHR ''7'']))"
proof -
  have "3 < length (asc ''10000000146'')" "asc ''10000000146'' ! 3 \<noteq> u16 CHR ''7''" by simp_all
  from single_slip_caught [OF this] show ?thesis by (rule conjunct1)
qed

text \<open>
  C37: What the IBAN loop accepts is the ISO 13616 rule: the shape, the Turkish length, and the whole
  rearranged number leaving remainder 1 modulo 97, although the loop only keeps a remainder.
\<close>

theorem iban_is_mod_97:
  "isValidIban c \<longleftrightarrow> iban_shape c \<and> (take 2 c = asc ''TR'' \<longrightarrow> length c = 26) \<and> iban_number c mod 97 = 1"
  by (rule valid_iban_number)

theorem iban_is_mod_97_witness:
  "isValidIban (asc ''TR330006100519786457841326'') \<longleftrightarrow> iban_number (asc ''TR330006100519786457841326'') mod 97 = 1"
proof -
  have "iban_shape (asc ''TR330006100519786457841326'')" by code_simp
  then show ?thesis using iban_is_mod_97 [of "asc ''TR330006100519786457841326''"] by simp
qed

subsection \<open>Texts\<close>

text \<open>
  C36: Masking a text copies it, with every picked match replaced by the token the session has for its
  value from then on, and every detection of every enabled detector starts inside a picked match; the
  count is the number of replacements.
\<close>

theorem masked_text_covers:
  assumes "maskText U P text m = ((masked, counts), m')" "session_ok m" "sound_accounts P"
  defines "source \<equiv> defangForeignTokens text m" and "picked \<equiv> collectMatches U P (defangForeignTokens text m)"
  shows "masked = woven source (masked_as m') 0 picked \<and> chain source 0 picked \<and> ct_occurrences counts = length picked \<and>
    (\<forall>p \<in> set picked. \<exists>tok. token_of m' (key_of p) = Some tok \<and> masked_as m' p = tok \<and> token_word tok) \<and>
    (\<forall>x \<in> set (all_matches U P source). \<exists>p \<in> set picked. pm_start p \<le> pm_start x \<and> pm_start x < pm_end p)"
proof -
  obtain acc where i: "maskInto U P text (m, newAccumulator) = (masked, m', acc)" and c: "ct_occurrences counts = ct_occurrences acc"
    using assms(1) by (auto simp: maskText_def countField_def split: prod.splits if_splits)
  note spec = maskInto_spec [OF i assms(2), folded source_def picked_def]
  then have "\<forall>p \<in> set picked. \<exists>tok. token_of m' (key_of p) = Some tok \<and> masked_as m' p = tok \<and> token_word tok"
    by (auto simp: masked_as_def picked_def source_def elim: session_token intro: token_text_word)
      (metis session_token token_text_word option.sel)
  moreover have "ct_occurrences counts = length picked"
    using spec c by (simp add: newAccumulator_def picked_def source_def)
  ultimately show ?thesis
    using spec collect_chain [OF assms(3)] collect_covers [OF assms(3)] by (simp add: picked_def source_def)
qed

theorem masked_text_covers_witness:
  "chain (asc ''10000000146'') 0 (collectMatches plain_unicode tckn_profile (defangForeignTokens (asc ''10000000146'') session_aa))"
proof -
  obtain masked counts m' where r: "maskText plain_unicode tckn_profile (asc ''10000000146'') session_aa = ((masked, counts), m')"
    by (metis prod.collapse)
  have d: "defangForeignTokens (asc ''10000000146'') session_aa = asc ''10000000146''" by code_simp
  show ?thesis
    using masked_text_covers [OF r session_aa_ok(1)] unfolding d by (simp add: tckn_profile_def)
qed

subsection \<open>Sessions\<close>

text \<open>
  C35: However the legs of the calls of one session interleave, and whichever of them are refused, a
  token keeps the value it was minted for, no two values ever share one, and a token of another session
  is left as it stands.
\<close>

theorem tokens_keep_their_meaning:
  assumes "session_ok m" "shared_legs U pr boundary steps m = (rs, m')"
  shows "session_ok m' \<and>
    (token_of m k = Some tok \<longrightarrow> token_of m' k = Some tok \<and> value_of m' tok = value_of m tok) \<and>
    (token_of m k = Some tok \<and> token_of m' k' = Some tok \<longrightarrow> k = k') \<and>
    (nonce_ok z \<and> z \<noteq> rv_nonce m \<longrightarrow> unmask m' (token_text t n z) = token_text t n z)"
proof -
  have g: "session_ok m' \<and> grows m m'"
    using assms
  proof (induction steps arbitrary: m rs)
    case (Cons s steps)
    obtain which scan payload where s: "s = Leg which scan payload" by (cases s)
    obtain r m1 told where l: "mask_leg U pr which boundary scan payload m = (r, m1, told)" by (metis prod.collapse)
    obtain rs' where "shared_legs U pr boundary steps m1 = (rs', m')"
      using Cons.prems(2) l s by (auto split: prod.splits)
    with Cons.IH mask_leg_session [OF l Cons.prems(1)] show ?case using grows_trans by blast
  qed simp
  have "token_of m' k = Some tok \<and> value_of m' tok = value_of m tok" if t: "token_of m k = Some tok"
  proof -
    obtain v where "value_of m tok = Some v" using session_token [OF assms(1) t] by blast
    then show ?thesis using g t grows_token grows_value by metis
  qed
  moreover have "k = k'" if "token_of m k = Some tok" "token_of m' k' = Some tok"
    using that g grows_token unfolding session_ok_def by metis
  moreover have "unmask m' (token_text t n z) = token_text t n z" if z: "nonce_ok z" "z \<noteq> rv_nonce m"
  proof -
    have "value_of m' (token_text t n z) = None"
    proof (rule ccontr)
      assume "value_of m' (token_text t n z) \<noteq> None"
      then obtain t' n' where "token_text t n z = token_text t' n' (rv_nonce m')" using g unfolding session_ok_def by blast
      then show False using token_text_inj z g by (auto simp: grows_def)
    qed
    then have o: "opened m' (token_text t n z) = token_text t n z" by (simp add: opened_def)
    have w: "token_word (token_text t n z)" using z(1) by (rule token_text_word)
    then have "token_text t n z \<noteq> []" by auto
    then show ?thesis
      using replace_word [of token_at "token_text t n z" "[]" "opened m'"] token_at_of_word [OF w, of "[]"] o
      by (simp add: unmask_opened replace_all.simps [of _ _ "[]"])
  qed
  ultimately show ?thesis using g by blast
qed

theorem tokens_keep_their_meaning_witness:
  "unmask session_aa (token_text Tckn 1 (asc ''bb'')) = token_text Tckn 1 (asc ''bb'')"
proof -
  have "nonce_ok (asc ''bb'')" "asc ''bb'' \<noteq> rv_nonce session_aa" by code_simp+
  then show ?thesis
    using tokens_keep_their_meaning [OF session_aa_ok(1), of plain_unicode _ _ "[]" "[]" session_aa] by simp
qed

text \<open>
  C34: What a session masked it can put back, also after any further legs of its calls, when no string and
  no number of the payload has a token shape in its text, no key is \<open>__proto__\<close> and each value is spelled in one way: the
  masked payload opens to the payload itself, except that a number in which something was masked comes
  back as the string of its digits.
\<close>

theorem masked_payload_opens:
  assumes "maskValue U P v m = (Inr (masked, counts), m')" "session_ok m" "spelled sp m" "payload_ok sp U P False v" "sound_accounts P"
    and "shared_legs U pr boundary steps m' = (rs, M)"
  shows "unmaskValue masked M = Inr (opened_form U P False v)"
proof -
  obtain acc where w: "walk U P [] 0 False v (m, newAccumulator) = (Inr masked, m', acc)"
    using assms(1) by (auto simp: maskValue_def split: prod.splits sum.splits)
  have ok: "session_ok m'" using keepsD [OF walk_keeps(1) w assms(2)] by blast
  have "grows m' M"
    using assms(6) ok
  proof (induction steps arbitrary: m' rs)
    case (Cons s steps)
    obtain which scan payload where s: "s = Leg which scan payload" by (cases s)
    obtain r m1 told where l: "mask_leg U pr which boundary scan payload m' = (r, m1, told)" by (metis prod.collapse)
    obtain rs' where "shared_legs U pr boundary steps m1 = (rs', M)"
      using Cons.prems(1) l s by (auto split: prod.splits)
    with Cons.IH mask_leg_session [OF l Cons.prems(2)] show ?case using grows_trans by blast
  qed simp
  then have "opens_to U P False 0 v M masked"
    using restoresD [OF walk_restores(1) [OF assms(4,5)] assms(2,3) w] by blast
  then show ?thesis unfolding opens_to_def unmaskValue_def by blast
qed

definition ticket :: data where
  "ticket = Object [(asc ''note'', Str (asc ''id 10000000146'')), (asc ''owner'', Num (asc ''10000000146'')), (asc ''tries'', Num (asc ''3''))]"

definition ticket_masked :: data where
  "ticket_masked = Object [(asc ''note'', Str (asc ''id [TCKN_1.aa]'')), (asc ''owner'', Str (asc ''[TCKN_1.aa]'')), (asc ''tries'', Num (asc ''3''))]"

lemma masked_ticket:
  "maskValue plain_unicode tckn_profile ticket session_aa =
    (Inr (ticket_masked, \<lparr>ct_occurrences = 2, ct_fields = 2, ct_byType = [(Tckn, 2)]\<rparr>),
     \<lparr>rv_byToken = [(asc ''[TCKN_1.aa]'', asc ''10000000146'')], rv_byCanonical = [((Tckn, asc ''10000000146''), asc ''[TCKN_1.aa]'')],
       rv_counters = [(Tckn, 1)], rv_nonce = asc ''aa''\<rparr>)"
  by code_simp

theorem masked_payload_opens_witness:
  "unmaskValue ticket_masked (snd (maskValue plain_unicode tckn_profile ticket session_aa)) =
    Inr (Object [(asc ''note'', Str (asc ''id 10000000146'')), (asc ''owner'', Str (asc ''10000000146'')), (asc ''tries'', Num (asc ''3''))])"
proof -
  have "payload_ok snd plain_unicode tckn_profile False ticket" by code_simp
  from masked_payload_opens [OF masked_ticket session_aa_ok this, where steps = "[]"]
  have "unmaskValue ticket_masked (snd (maskValue plain_unicode tckn_profile ticket session_aa)) =
      Inr (opened_form plain_unicode tckn_profile False ticket)"
    unfolding masked_ticket by (simp add: tckn_profile_def)
  moreover have "opened_form plain_unicode tckn_profile False ticket =
      Object [(asc ''note'', Str (asc ''id 10000000146'')), (asc ''owner'', Str (asc ''10000000146'')), (asc ''tries'', Num (asc ''3''))]"
    by code_simp
  ultimately show ?thesis by simp
qed

subsection \<open>Policies\<close>

text \<open>
  Under a policy that loading accepts, wherever a detector finds something under the looser class a stricter
  class masks a span that contains the place it starts at; field rules of the looser class apply there too,
  and a class that is missing or unknown is masked as the strictest, which enables every detector. That is
  all the order of the classes gives: \<open>pick\<close> drops a match that starts inside an earlier one, so a short
  account pattern of the stricter class may keep its longer neighbour from being masked.
\<close>

theorem stricter_class_masks_more:
  assumes "loadPiiPolicy U R input = Inr policy" "strictness a \<le> strictness b"
    "compileProfile U R (policy a) = Inr ca" "compileProfile U R (policy b) = Inr cb" "sound_accounts cb"
  shows "(\<forall>x \<in> set (all_matches U ca text). \<exists>p \<in> set (collectMatches U cb text). pm_start p \<le> pm_start x \<and> pm_start x < pm_end p) \<and>
    cp_fieldRules ca \<subseteq> cp_fieldRules cb \<and>
    (read_class d = None \<longrightarrow> rp_profile (resolveProfile policy d) = policy Gizli \<and> rp_fellBack (resolveProfile policy d)) \<and>
    set DETECTOR_TYPES \<subseteq> set (mp_types (policy Gizli))"
proof -
  have m: "masks_at_least cb ca" by (rule loaded_monotone [OF assms(1-4)])
  then have "\<forall>x \<in> set (all_matches U ca text). \<exists>p \<in> set (collectMatches U cb text). pm_start p \<le> pm_start x \<and> pm_start x < pm_end p"
    using collect_covers [OF assms(5)] more_matches [OF m] by blast
  moreover have "cp_fieldRules ca \<subseteq> cp_fieldRules cb" using m by (simp add: masks_at_least_def)
  moreover have "set DETECTOR_TYPES \<subseteq> set (mp_types (policy Gizli))" by (rule load_facts(4) [OF assms(1)])
  moreover have "rp_profile (resolveProfile policy d) = policy Gizli \<and> rp_fellBack (resolveProfile policy d)" if "read_class d = None"
    using that by (simp add: resolveProfile_def STRICTEST_CLASS_def)
  ultimately show ?thesis by blast
qed

definition default_policy :: pii_policy where
  "default_policy = (\<lambda>c. case c of
     Acik \<Rightarrow> \<lparr>mp_types = [Iban, Card, Tckn, Phone, Email], mp_accountPatterns = [], mp_fieldRules = []\<rparr>
   | _ \<Rightarrow> \<lparr>mp_types = DETECTOR_TYPES, mp_accountPatterns = [], mp_fieldRules = []\<rparr>)"

lemma default_policy_loads: "defaultPiiPolicy plain_unicode plain_regexps = Inr default_policy"
proof -
  define input where "input = Object [(asc ''profiles'', Object
      [(asc ''acik'', all_classes [Iban, Card, Tckn, Phone, Email]),
       (asc ''dahili'', all_classes DETECTOR_TYPES),
       (asc ''gizli'', all_classes DETECTOR_TYPES)])]"
  have types: "read_profile (property (class_name c) (property ''profiles'' input)) = Some (default_policy c)" for c
    unfolding input_def by (cases c) (simp_all add: default_policy_def, code_simp+)
  have "read_policy input = Some default_policy"
    by (simp add: read_policy_def Let_def types fun_eq_iff split: data_class.split)
  moreover have "filter (\<lambda>t. t \<notin> set (mp_types (default_policy STRICTEST_CLASS))) DETECTOR_TYPES = []"
    by (simp add: default_policy_def STRICTEST_CLASS_def)
  moreover have "assertMonotone plain_unicode default_policy = Inr ()" by code_simp
  moreover have "compile_all plain_regexps default_policy CLASS_ORDER = Inr ()" by code_simp
  ultimately show ?thesis unfolding defaultPiiPolicy_def loadPiiPolicy_def input_def [symmetric] by simp
qed

theorem stricter_class_masks_more_witness:
  "\<exists>ca cb. compileProfile plain_unicode plain_regexps (default_policy Acik) = Inr ca \<and>
    compileProfile plain_unicode plain_regexps (default_policy Gizli) = Inr cb \<and> cp_fieldRules ca \<subseteq> cp_fieldRules cb"
proof -
  let ?compiled = "\<lambda>ts. \<lparr>cp_detectors = ts, cp_accounts = [], cp_fieldRules = {}\<rparr>"
  have a: "compileProfile plain_unicode plain_regexps (default_policy Acik) = Inr (?compiled [Iban, Card, Tckn, Phone, Email])"
    and b: "compileProfile plain_unicode plain_regexps (default_policy Gizli) = Inr (?compiled DETECTOR_TYPES)"
    by (simp_all add: compileProfile_def parse_profile_def default_policy_def DETECTOR_TYPES_def)
  show ?thesis
    using stricter_class_masks_more [OF default_policy_loads [unfolded defaultPiiPolicy_def] _ a b] a b
    by (simp add: strictness_def)
qed

subsection \<open>The boundary\<close>



subsection \<open>Where the code and its comments part\<close>

text \<open>
  A token shape in a second pair of brackets keeps the inner ones, and a token minted afterwards opens it:
  de-fanging does not neutralise every shape the session did not mint.
\<close>

theorem nested_brackets_survive:
  "maskText plain_unicode tckn_profile (asc ''[[TCKN_1.aa]] 10000000146'') session_aa =
    ((asc ''[TCKN_1.aa] [TCKN_1.aa]'', \<lparr>ct_occurrences = 1, ct_fields = 1, ct_byType = [(Tckn, 1)]\<rparr>),
     snd (maskText plain_unicode tckn_profile (asc ''[[TCKN_1.aa]] 10000000146'') session_aa))"
  "unmask (snd (maskText plain_unicode tckn_profile (asc ''[[TCKN_1.aa]] 10000000146'') session_aa)) (asc ''[TCKN_1.aa] [TCKN_1.aa]'') =
    asc ''10000000146 10000000146''"
  by code_simp+

text \<open>
  A short number in front of an identity number or of a card number, both written in groups, hides it: the
  expression consumes the wrong digits, the checksum drops the candidate, and the search goes on behind it.
\<close>

theorem leading_number_hides:
  "isValidTckn (asc ''12345678950'')" "collectMatches plain_unicode numbers_profile (asc ''42 123 456 789 50'') = []"
  "isValidLuhn (asc ''4000000123456784'')" "collectMatches plain_unicode numbers_profile (asc ''2 4000 0001 2345 6784'') = []"
  by code_simp+

text \<open>
  A minted token can match a detector: its number, the dot and the digits of its nonce are written like a
  grouped identity number. Masking a masked text again then replaces part of the token.
\<close>

theorem token_matches_detector:
  "nonce_ok (asc ''12345678'')"
  "map pm_text (collectMatches plain_unicode numbers_profile (token_text Tckn 118 (asc ''12345678''))) = [asc ''118.12345678'']"
  by code_simp+

text \<open>
  A stricter class can leave text unmasked that a looser one masks: a match of an account pattern that the
  stricter class adds starts earlier, the account number found inside it is dropped whole, and its tail stays.
\<close>

definition looser_profile :: compiled_profile where
  "looser_profile = \<lparr>cp_detectors = [Iban], cp_accounts = [], cp_fieldRules = {}\<rparr>"

definition stricter_profile :: compiled_profile where
  "stricter_profile = \<lparr>cp_detectors = [Iban, Account], cp_accounts = [\<lambda>text. if 7 \<le> length text then [(0, 7)] else []], cp_fieldRules = {}\<rparr>"

theorem stricter_profile_may_mask_less:
  "map (\<lambda>x. (pm_start x, pm_end x)) (collectMatches plain_unicode looser_profile (asc ''no TR330006100519786457841326'')) = [(3, 29)]"
  "map (\<lambda>x. (pm_start x, pm_end x)) (collectMatches plain_unicode stricter_profile (asc ''no TR330006100519786457841326'')) = [(0, 7)]"
  by code_simp+

end
