(* ===== verification/Notify_Instant.thy ===== *)
theory Notify_Instant
  imports Audit_Event
begin

text \<open>
  Instants: what the notifications use of JavaScript's \<open>Date\<close>. An instant is its number of
  milliseconds since 1970-01-01T00:00Z, as an \<open>int\<close>; a day is its number of days. The calendar is
  the one of the language (ECMA-262, "Time Values and Time Range"): the first day of a year, the
  year a day falls in, its month and day of month. \<open>toISOString\<close> prints an instant, \<open>parseInstant\<close>
  of \<open>packages/notify/src/escalation.ts\<close> reads one back; printing and reading are inverse.
\<close>

subsection \<open>Years\<close>

definition is_leap :: "int \<Rightarrow> bool" where
  "is_leap y \<longleftrightarrow> y mod 4 = 0 \<and> (y mod 100 \<noteq> 0 \<or> y mod 400 = 0)"

text \<open>The number of the first day of a year.\<close>

definition year_start :: "int \<Rightarrow> int" where
  "year_start y = 365 * (y - 1970) + (y - 1969) div 4 - (y - 1901) div 100 + (y - 1601) div 400"

definition year_length :: "int \<Rightarrow> int" where
  "year_length y = (if is_leap y then 366 else 365)"

lemma div_next: "(n + 1) div k = n div k + (if k dvd n + 1 then 1 else 0)" if "k > 0" for n k :: int
proof -
  have n: "n = k * (n div k) + n mod k" "0 \<le> n mod k" "n mod k < k" using that by simp_all
  show ?thesis
  proof (cases "n mod k + 1 = k")
    case True
    then have eq: "n + 1 = k * (n div k + 1)" using n(1) unfolding distrib_left by linarith
    then have "k dvd n + 1" by (metis dvd_triv_left)
    moreover have "(n + 1) div k = n div k + 1" using eq that by simp
    ultimately show ?thesis by simp
  next
    case False
    then have lt: "n mod k + 1 < k" using n by linarith
    have eq: "n + 1 = k * (n div k) + (n mod k + 1)" using n(1) by linarith
    have "(n + 1) div k = n div k" using int_div_pos_eq [OF eq] n lt by simp
    moreover have "(n + 1) mod k = n mod k + 1" using int_mod_pos_eq [OF eq] n lt by simp
    then have "\<not> k dvd n + 1" using n by (simp add: dvd_eq_mod_eq_0)
    ultimately show ?thesis by simp
  qed
qed

lemma dvd_shift: "k dvd c \<Longrightarrow> k dvd y - c \<longleftrightarrow> k dvd y" for k y c :: int
  by (metis diff_add_cancel dvd_add_left_iff)

lemma year_start_Suc: "year_start (y + 1) = year_start y + year_length y"
proof -
  have shift: "y + 1 - 1969 = (y - 1969) + 1" "y + 1 - 1901 = (y - 1901) + 1"
    "y + 1 - 1601 = (y - 1601) + 1" "y - 1969 + 1 = y - 1968" "y - 1901 + 1 = y - 1900"
    "y - 1601 + 1 = y - 1600" by simp_all
  have d: "4 dvd y - 1968 \<longleftrightarrow> 4 dvd y" "100 dvd y - 1900 \<longleftrightarrow> 100 dvd y" "400 dvd y - 1600 \<longleftrightarrow> 400 dvd y"
    by (rule dvd_shift, simp)+
  have e: "(y + 1 - 1969) div 4 = (y - 1969) div 4 + (if 4 dvd y then 1 else 0)"
    "(y + 1 - 1901) div 100 = (y - 1901) div 100 + (if 100 dvd y then 1 else 0)"
    "(y + 1 - 1601) div 400 = (y - 1601) div 400 + (if 400 dvd y then 1 else 0)"
    unfolding shift(1-3) by (subst div_next, simp, simp only: shift(4-6) d)+
  have lin: "365 * (y + 1 - 1970) + (a + p) - (b + q) + (c + r)
      = 365 * (y - 1970) + a - b + c + (365 + p - q + r)" for a b c p q r :: int
    by simp
  have "100 dvd y \<Longrightarrow> 4 dvd y"
    by (erule dvd_trans [rotated]) simp
  moreover have "400 dvd y \<Longrightarrow> 100 dvd y"
    by (erule dvd_trans [rotated]) simp
  moreover have "365 + (if A then 1 else 0) - (if B then 1 else 0) + (if C then 1 else 0)
      = (if A \<and> (\<not> B \<or> C) then 366 else 365 :: int)" if "B \<Longrightarrow> A" "C \<Longrightarrow> B" for A B C
    using that by (cases A; cases B; cases C) simp_all
  ultimately have "365 + (if 4 dvd y then 1 else 0) - (if 100 dvd y then 1 else 0)
      + (if 400 dvd y then 1 else 0) = year_length y"
    unfolding year_length_def is_leap_def mod_eq_0_iff_dvd by blast
  then show ?thesis unfolding year_start_def e lin by (simp only:)
qed

text \<open>The year of a day: an estimate that is off by at most one year.\<close>

definition year_of :: "int \<Rightarrow> int" where
  "year_of d = (let y = 400 * d div 146097 + 1970 in
     if d < year_start y then y - 1 else if d \<ge> year_start (y + 1) then y + 1 else y)"

lemma year_of:
  "year_start (year_of d) \<le> d \<and> d < year_start (year_of d + 1)"
proof -
  define y where "y = 400 * d div 146097 + 1970"
  have q: "k * (n div k) \<le> n \<and> n - k + 1 \<le> k * (n div k)" if "k > 0" for k n :: int
    using pos_mod_bound [OF that, of n] pos_mod_sign [OF that, of n] mult_div_mod_eq [of k n] by linarith
  have e: "146097 * (y - 1970) \<le> 400 * d" "400 * d < 146097 * (y - 1970) + 146097"
    using q [of 146097 "400 * d"] unfolding y_def by simp_all
  have bounds: "400 * year_start x \<le> 146097 * (x - 1970) + 700 \<and>
      146097 * (x - 1970) - 700 \<le> 400 * year_start x" for x
  proof -
    have "4 * ((x - 1969) div 4) \<le> x - 1969" "x - 1969 - 3 \<le> 4 * ((x - 1969) div 4)"
      "100 * ((x - 1901) div 100) \<le> x - 1901" "x - 1901 - 99 \<le> 100 * ((x - 1901) div 100)"
      "400 * ((x - 1601) div 400) \<le> x - 1601" "x - 1601 - 399 \<le> 400 * ((x - 1601) div 400)"
      using q [of 4 "x - 1969"] q [of 100 "x - 1901"] q [of 400 "x - 1601"] by linarith+
    moreover have "400 * (365 * (x - 1970) + a - b + c) \<le> 146097 * (x - 1970) + 700"
        "146097 * (x - 1970) - 700 \<le> 400 * (365 * (x - 1970) + a - b + c)"
      if "4 * a \<le> x - 1969" "x - 1969 - 3 \<le> 4 * a" "100 * b \<le> x - 1901" "x - 1901 - 99 \<le> 100 * b"
        "400 * c \<le> x - 1601" "x - 1601 - 399 \<le> 400 * c" for a b c
      using that by (simp_all add: algebra_simps)
    ultimately show ?thesis unfolding year_start_def by blast
  qed
  have "year_start (y - 1) \<le> d" "d < year_start (y + 2)"
    using e bounds [of "y - 1"] bounds [of "y + 2"] by (simp_all add: algebra_simps)
  then show ?thesis unfolding year_of_def Let_def y_def [symmetric] by (auto simp: add.commute)
qed

lemma year_start_mono: "x \<le> y \<Longrightarrow> year_start x \<le> year_start y"
proof (induction y rule: int_ge_induct)
  case (step y)
  then show ?case by (simp add: year_start_Suc year_length_def)
qed simp

lemma year_of_unique: "year_start y \<le> d \<Longrightarrow> d < year_start (y + 1) \<Longrightarrow> year_of d = y"
  using year_of [of d] year_start_mono [of "y + 1" "year_of d"] year_start_mono [of "year_of d + 1" y]
  by linarith

subsection \<open>Months\<close>

text \<open>Days before the first of each month.\<close>

definition month_starts :: "bool \<Rightarrow> int list" where
  "month_starts leap = (if leap then [0, 31, 60, 91, 121, 152, 182, 213, 244, 274, 305, 335]
                        else [0, 31, 59, 90, 120, 151, 181, 212, 243, 273, 304, 334])"

text \<open>Month (1 to 12) and day of month of the n-th day of a year, counted from 0.\<close>

definition month_of :: "bool \<Rightarrow> int \<Rightarrow> int" where
  "month_of leap n = int (length (takeWhile (\<lambda>s. s \<le> n) (month_starts leap)))"

definition month_day :: "bool \<Rightarrow> int \<Rightarrow> int" where
  "month_day leap n = n - month_starts leap ! nat (month_of leap n - 1) + 1"

definition day_of_date :: "int \<Rightarrow> int \<Rightarrow> int \<Rightarrow> int" where
  "day_of_date y m d = year_start y + month_starts (is_leap y) ! nat (m - 1) + (d - 1)"

definition date_of_day :: "int \<Rightarrow> int \<times> int \<times> int" where
  "date_of_day day = (let y = year_of day; n = day - year_start y
     in (y, month_of (is_leap y) n, month_day (is_leap y) n))"

lemma month_ok:
  assumes "0 \<le> n" "n < (if leap then 366 else 365)"
  shows "1 \<le> month_of leap n \<and> month_of leap n \<le> 12 \<and> 1 \<le> month_day leap n \<and>
    month_day leap n \<le> (if month_of leap n = 2 then (if leap then 29 else 28)
       else if month_of leap n \<in> {4, 6, 9, 11} then 30 else 31)"
  using assms
  by (cases leap) (simp_all add: month_day_def month_of_def month_starts_def)
lemma date_roundtrip: "date_of_day day = (y, m, d) \<Longrightarrow> day_of_date y m d = day"
  by (auto simp: date_of_day_def Let_def day_of_date_def month_day_def)


subsection \<open>Printing\<close>

definition pad2 :: "int \<Rightarrow> string" where
  "pad2 n = [digit_char (nat n div 10), digit_char (nat n mod 10)]"

definition pad3 :: "int \<Rightarrow> string" where
  "pad3 n = digit_char (nat n div 100) # pad2 (n mod 100)"

definition pad4 :: "int \<Rightarrow> string" where
  "pad4 n = pad2 (n div 100) @ pad2 (n mod 100)"

definition pad6 :: "int \<Rightarrow> string" where
  "pad6 n = pad2 (n div 10000) @ pad4 (n mod 10000)"

text \<open>Years outside 0 to 9999 have a sign and six digits.\<close>

definition year_str :: "int \<Rightarrow> string" where
  "year_str y = (if 0 \<le> y \<and> y \<le> 9999 then pad4 y
     else (if y < 0 then CHR ''-'' else CHR ''+'') # pad6 \<bar>y\<bar>)"

definition date_str :: "int \<Rightarrow> string" where
  "date_str day = (case date_of_day day of (y, m, d) \<Rightarrow> year_str y @ ''-'' @ pad2 m @ ''-'' @ pad2 d)"

definition DAY_MS :: int where
  "DAY_MS = 86400000"

text \<open>\<open>new Date(ms).toISOString()\<close>; \<open>None\<close> is its \<open>RangeError\<close>.\<close>

definition toISOString :: "int \<Rightarrow> string option" where
  "toISOString ms =
    (if \<bar>ms\<bar> > 8640000000000000 then None
     else (let day = ms div DAY_MS; t = ms mod DAY_MS
       in Some (date_str day @ ''T'' @ pad2 (t div 3600000) @ '':'' @ pad2 (t div 60000 mod 60) @ '':''
            @ pad2 (t div 1000 mod 60) @ ''.'' @ pad3 (t mod 1000) @ ''Z'')))"

subsection \<open>Reading: \<open>parseInstant\<close>, escalation.ts\<close>

text \<open>
  \<open>Date.parse\<close> on a text of the form \<open>IsoDateTime\<close> allows (\<open>iso_datetime_ok\<close>, where the date
  exists and the clock fields are in range, so the result is never \<open>NaN\<close>): seconds and their
  fraction are optional, a fraction counts to the millisecond, a zone is \<open>Z\<close> or an offset.
\<close>

definition num :: "string \<Rightarrow> int" where
  "num s = int (undec s)"

definition zone_minutes :: "string \<Rightarrow> int" where
  "zone_minutes z = (if z = ''Z'' then 0
     else (if hd z = CHR ''-'' then -1 else 1) * (60 * num (take 2 (drop 1 z)) + num (take 2 (drop 4 z))))"

definition date_parse :: "string \<Rightarrow> int" where
  "date_parse s =
    (let day = day_of_date (num (take 4 s)) (num (take 2 (drop 5 s))) (num (take 2 (drop 8 s)));
         minutes = 60 * num (take 2 (drop 11 s)) + num (take 2 (drop 14 s));
         rest = drop 16 s;
         (seconds, rest) = (if hd rest = CHR '':'' then (num (take 2 (tl rest)), drop 3 rest) else (0, rest));
         (millis, zone) = (if hd rest = CHR ''.''
            then (num (take 3 (takeWhile is_digit (tl rest) @ ''00'')), dropWhile is_digit (tl rest))
            else (0, rest))
     in day * DAY_MS + (minutes - zone_minutes zone) * 60000 + seconds * 1000 + millis)"

text \<open>\<open>RangeError\<close> is the one of \<open>toISOString\<close>.\<close>

datatype notify_error =
    NotifyConfigError string
  | NotifyRecipientError string string
  | RangeError

definition parseInstant :: "string \<Rightarrow> string \<Rightarrow> notify_error + int" where
  "parseInstant name at =
    (if \<not> iso_datetime_ok (asc at)
     then Inl (NotifyConfigError (name @ '' is not an ISO-8601 instant with an offset: '' @ at))
     else Inr (date_parse at))"


subsection \<open>Reading what was printed\<close>

lemma digit_units [simp]:
  "d < 10 \<Longrightarrow> is_digit16 (u16 (digit_char d))" "d < 10 \<Longrightarrow> unat (u16 (digit_char d)) = 48 + d"
  by (simp_all add: is_digit16_def word_le_nat_alt of_char_digit_char)

lemma digits_value_2: "digits_value [a, b] = 10 * (unat a - 48) + (unat b - 48)"
  by (simp add: digits_value_def)

lemma digits_value_4: "digits_value [a, b, c, d] =
    1000 * (unat a - 48) + 100 * (unat b - 48) + 10 * (unat c - 48) + (unat d - 48)"
  by (simp add: digits_value_def)

lemma undec_digits:
  "undec [digit_char a, digit_char b] = 10 * a + b" if "a < 10" "b < 10" for a b
  using that by (simp add: undec_def)

lemma undec_digits3:
  "undec [digit_char a, digit_char b, digit_char c] = 100 * a + 10 * b + c" if "a < 10" "b < 10" "c < 10" for a b c
  using that by (simp add: undec_def)

lemma undec_digits4:
  "undec [digit_char a, digit_char b, digit_char c, digit_char d] = 1000 * a + 100 * b + 10 * c + d"
  if "a < 10" "b < 10" "c < 10" "d < 10" for a b c d
  using that by (simp add: undec_def)

text \<open>The texts \<open>toISOString\<close> prints for years of four digits, over their 17 digits.\<close>

definition iso_text :: "nat list \<Rightarrow> string" where
  "iso_text ds = (case map digit_char ds of [y1, y2, y3, y4, m1, m2, d1, d2, h1, h2, i1, i2, s1, s2, f1, f2, f3] \<Rightarrow>
     [y1, y2, y3, y4, CHR ''-'', m1, m2, CHR ''-'', d1, d2, CHR ''T'', h1, h2, CHR '':'', i1, i2,
      CHR '':'', s1, s2, CHR ''.'', f1, f2, f3, CHR ''Z''])"

lemma iso_text_parse:
  assumes "list_all (\<lambda>d. d < 10) [y1, y2, y3, y4, m1, m2, d1, d2, h1, h2, i1, i2, s1, s2, f1, f2, f3]"
  shows "date_parse (iso_text [y1, y2, y3, y4, m1, m2, d1, d2, h1, h2, i1, i2, s1, s2, f1, f2, f3]) =
      day_of_date (int (1000 * y1 + 100 * y2 + 10 * y3 + y4)) (int (10 * m1 + m2)) (int (10 * d1 + d2)) * DAY_MS
      + (60 * int (10 * h1 + h2) + int (10 * i1 + i2)) * 60000 + int (10 * s1 + s2) * 1000
      + int (100 * f1 + 10 * f2 + f3)"
  using assms
  by (simp add: date_parse_def iso_text_def num_def undec_digits undec_digits3 undec_digits4 zone_minutes_def
      is_digit_def [of "CHR ''Z''"] del: of_nat_add of_nat_mult)

lemma iso_text_ok:
  assumes "list_all (\<lambda>d. d < 10) [y1, y2, y3, y4, m1, m2, d1, d2, h1, h2, i1, i2, s1, s2, f1, f2, f3]"
    and "1 \<le> 10 * m1 + m2" "10 * m1 + m2 \<le> 12" "1 \<le> 10 * d1 + d2"
      "10 * d1 + d2 \<le> days_in_month (1000 * y1 + 100 * y2 + 10 * y3 + y4) (10 * m1 + m2)"
      "10 * h1 + h2 \<le> 23" "10 * i1 + i2 \<le> 59" "10 * s1 + s2 \<le> 59"
  shows "iso_datetime_ok (asc (iso_text [y1, y2, y3, y4, m1, m2, d1, d2, h1, h2, i1, i2, s1, s2, f1, f2, f3]))"
proof -
  have "\<not> is_digit16 (u16 CHR ''Z'')" by (simp add: is_digit16_def word_le_nat_alt)
  moreover have "list_all (\<lambda>d. is_digit16 (u16 (digit_char d)) \<and> of_char (digit_char d) = 48 + d)
      [y1, y2, y3, y4, m1, m2, d1, d2, h1, h2, i1, i2, s1, s2, f1, f2, f3]"
    using assms(1) by (rule list.pred_mono_strong) (simp add: of_char_digit_char)
  ultimately show ?thesis
    using assms(2-)
    by (simp add: iso_datetime_ok_def iso_text_def date_ok_def clock_ok_def two_digits_upto_def
        seconds_zone_ok_def fraction_zone_ok_def zone_ok_def digits_value_2 digits_value_4 Let_def)
qed

definition iso_years :: "int \<Rightarrow> bool" where
  "iso_years ms \<longleftrightarrow> -62167219200000 \<le> ms \<and> ms < 253402300800000"

lemma pad_digits:
  assumes "0 \<le> n" "n < 100"
  shows "\<exists>a b. a < 10 \<and> b < 10 \<and> n = int (10 * a + b) \<and> pad2 n = [digit_char a, digit_char b]"
  using assms by (intro exI [of _ "nat n div 10"] exI [of _ "nat n mod 10"]) (auto simp: pad2_def)

lemma pad3_digits:
  assumes "0 \<le> n" "n < 1000"
  shows "\<exists>a b c. a < 10 \<and> b < 10 \<and> c < 10 \<and> n = int (100 * a + 10 * b + c) \<and>
    pad3 n = [digit_char a, digit_char b, digit_char c]"
proof -
  obtain b c where bc: "b < 10" "c < 10" "n mod 100 = int (10 * b + c)" "pad2 (n mod 100) = [digit_char b, digit_char c]"
    using pad_digits [of "n mod 100"] by auto
  have "n = 100 * (n div 100) + n mod 100" by simp
  then have "n = int (100 * (nat n div 100) + 10 * b + c)"
    using bc(3) assms by (simp add: nat_div_distrib zdiv_int)
  moreover have "nat n div 100 < 10" using assms by linarith
  ultimately show ?thesis using bc by (auto simp: pad3_def)
qed

lemma pad4_digits:
  assumes "0 \<le> n" "n < 10000"
  shows "\<exists>a b c d. a < 10 \<and> b < 10 \<and> c < 10 \<and> d < 10 \<and> n = int (1000 * a + 100 * b + 10 * c + d) \<and>
    pad4 n = [digit_char a, digit_char b, digit_char c, digit_char d]"
proof -
  obtain c d where cd: "c < 10" "d < 10" "n mod 100 = int (10 * c + d)" "pad2 (n mod 100) = [digit_char c, digit_char d]"
    using pad_digits [of "n mod 100"] by auto
  have n: "0 \<le> n div 100" "n div 100 < 100" using assms by linarith+
  obtain a b where ab: "a < 10" "b < 10" "n div 100 = int (10 * a + b)" "pad2 (n div 100) = [digit_char a, digit_char b]"
    using pad_digits [of "n div 100"] n by auto
  have "n = 100 * (n div 100) + n mod 100" by simp
  then have "n = int (1000 * a + 100 * b + 10 * c + d)" using ab(3) cd(3) by simp
  then show ?thesis using ab cd by (auto simp: pad4_def)
qed

lemma date_of_day_ok:
  assumes "date_of_day day = (y, m, d)"
  shows "1 \<le> m" "m \<le> 12" "1 \<le> d"
    "d \<le> (if m = 2 then (if is_leap y then 29 else 28) else if m \<in> {4, 6, 9, 11} then 30 else 31)"
proof -
  have "0 \<le> day - year_start y" "day - year_start y < (if is_leap y then 366 else 365)"
    using assms year_of [of day] by (auto simp: date_of_day_def Let_def year_start_Suc year_length_def)
  note ok = month_ok [OF this]
  have m: "m = month_of (is_leap y) (day - year_start y)" "d = month_day (is_leap y) (day - year_start y)"
    using assms by (auto simp: date_of_day_def Let_def)
  show "1 \<le> m" "m \<le> 12" "1 \<le> d"
    "d \<le> (if m = 2 then (if is_leap y then 29 else 28) else if m \<in> {4, 6, 9, 11} then 30 else 31)"
    using ok unfolding m by blast+
qed

lemma iso_years_year:
  assumes "iso_years ms"
  shows "0 \<le> year_of (ms div DAY_MS) \<and> year_of (ms div DAY_MS) \<le> 9999"
proof -
  let ?d = "ms div DAY_MS"
  have "year_start 0 \<le> ?d" "?d < year_start 10000"
    using assms unfolding iso_years_def year_start_def DAY_MS_def by (simp_all, linarith+)
  then show ?thesis
    using year_of [of ?d] year_start_mono [of "year_of ?d + 1" 0] year_start_mono [of 10000 "year_of ?d"]
    by linarith
qed

lemma is_leap_nat: "is_leap (int y) = leap_year y"
proof -
  have "int y mod k = 0 \<longleftrightarrow> k dvd int y" for k by (rule mod_eq_0_iff_dvd)
  moreover have "int k dvd int y \<longleftrightarrow> k dvd y" for k by simp
  note this [of 4] this [of 100] this [of 400]
  moreover have "400 dvd y \<Longrightarrow> 4 dvd y" by (erule dvd_trans [rotated]) simp
  ultimately show ?thesis unfolding is_leap_def leap_year_def by auto
qed

lemma toISOString_text:
  assumes "iso_years ms"
  shows "\<exists>text. toISOString ms = Some text \<and> iso_datetime_ok (asc text) \<and> date_parse text = ms"
proof -
  define day t where "day = ms div DAY_MS" and "t = ms mod DAY_MS"
  obtain y m d where date: "date_of_day day = (y, m, d)" by (metis prod_cases3)
  have y: "0 \<le> y" "y \<le> 9999"
    using iso_years_year [OF assms] date by (auto simp: day_def date_of_day_def Let_def)
  note md = date_of_day_ok [OF date]
  have d31: "d < 100" using md(4) by (auto split: if_splits)
  have t: "0 \<le> t" "t < 86400000" by (simp_all add: t_def DAY_MS_def)
  obtain y1 y2 y3 y4 where Y: "y1 < 10" "y2 < 10" "y3 < 10" "y4 < 10"
    "y = int (1000 * y1 + 100 * y2 + 10 * y3 + y4)" "pad4 y = map digit_char [y1, y2, y3, y4]"
    using pad4_digits [of y] y by auto
  obtain m1 m2 where M: "m1 < 10" "m2 < 10" "m = int (10 * m1 + m2)" "pad2 m = map digit_char [m1, m2]"
    using pad_digits [of m] md by auto
  obtain d1 d2 where D: "d1 < 10" "d2 < 10" "d = int (10 * d1 + d2)" "pad2 d = map digit_char [d1, d2]"
    using pad_digits [of d] md d31 by auto
  have h: "0 \<le> t div 3600000" "t div 3600000 < 24" using t by linarith+
  have i: "0 \<le> k mod 60" "k mod 60 < 60" "k mod 60 < 100" for k :: int
    using pos_mod_sign [of 60 k] pos_mod_bound [of 60 k] by linarith+
  obtain h1 h2 where H: "h1 < 10" "h2 < 10" "t div 3600000 = int (10 * h1 + h2)"
    "pad2 (t div 3600000) = map digit_char [h1, h2]"
    using pad_digits [of "t div 3600000"] h by auto
  obtain i1 i2 where I: "i1 < 10" "i2 < 10" "t div 60000 mod 60 = int (10 * i1 + i2)"
    "pad2 (t div 60000 mod 60) = map digit_char [i1, i2]"
    using pad_digits [of "t div 60000 mod 60"] i by auto
  obtain s1 s2 where S: "s1 < 10" "s2 < 10" "t div 1000 mod 60 = int (10 * s1 + s2)"
    "pad2 (t div 1000 mod 60) = map digit_char [s1, s2]"
    using pad_digits [of "t div 1000 mod 60"] i by auto
  obtain f1 f2 f3 where F: "f1 < 10" "f2 < 10" "f3 < 10" "t mod 1000 = int (100 * f1 + 10 * f2 + f3)"
    "pad3 (t mod 1000) = map digit_char [f1, f2, f3]"
    using pad3_digits [of "t mod 1000"] pos_mod_sign [of 1000 t] pos_mod_bound [of 1000 t] by auto
  let ?text = "iso_text [y1, y2, y3, y4, m1, m2, d1, d2, h1, h2, i1, i2, s1, s2, f1, f2, f3]"
  have digits: "list_all (\<lambda>d. d < 10) [y1, y2, y3, y4, m1, m2, d1, d2, h1, h2, i1, i2, s1, s2, f1, f2, f3]"
    unfolding list.pred_inject(2) using Y(1-4) M(1,2) D(1,2) H(1,2) I(1,2) S(1,2) F(1-3) by (intro conjI) simp_all
  have "\<not> \<bar>ms\<bar> > 8640000000000000" using assms unfolding iso_years_def by linarith
  moreover have "date_str day = pad4 y @ ''-'' @ pad2 m @ ''-'' @ pad2 d"
    using y by (simp add: date_str_def date year_str_def)
  ultimately have out: "toISOString ms = Some ?text"
    unfolding toISOString_def Let_def day_def [symmetric] t_def [symmetric]
    by (simp only: Y(6) M(4) D(4) H(4) I(4) S(4) F(5) if_False) (simp add: iso_text_def)
  have "iso_datetime_ok (asc ?text)"
  proof (rule iso_text_ok [OF digits])
    show "1 \<le> 10 * m1 + m2" "10 * m1 + m2 \<le> 12" "1 \<le> 10 * d1 + d2" using md M(3) D(3) by linarith+
    have "int (10 * h1 + h2) \<le> 23" "int (10 * i1 + i2) \<le> 59" "int (10 * s1 + s2) \<le> 59"
      unfolding H(3) [symmetric] I(3) [symmetric] S(3) [symmetric] using h i by (auto simp: less_imp_le)
    then show "10 * h1 + h2 \<le> 23" "10 * i1 + i2 \<le> 59" "10 * s1 + s2 \<le> 59" by linarith+
    show "10 * d1 + d2 \<le> days_in_month (1000 * y1 + 100 * y2 + 10 * y3 + y4) (10 * m1 + m2)"
      using md(4) unfolding Y(5) is_leap_nat M(3) D(3) days_in_month_def
      by (auto split: if_splits)
  qed
  moreover have "date_parse ?text = ms"
  proof -
    have t_split: "t = (60 * (t div 3600000) + t div 60000 mod 60) * 60000 + t div 1000 mod 60 * 1000 + t mod 1000"
    proof -
      have sum: "t' = (60 * c + p) * 60000 + q * 1000 + r" if "t' = 1000 * a + r" "a = 60 * b + q" "b = 60 * c + p"
        for t' a b c p q r :: int
        using that by simp
      have "t div 1000 div 60 = t div 60000" "t div 1000 div 60 div 60 = t div 3600000"
        by (simp_all add: zdiv_zmult2_eq [symmetric])
      then show ?thesis
        using sum [OF mult_div_mod_eq [of 1000 t, symmetric] mult_div_mod_eq [of 60 "t div 1000", symmetric]
            mult_div_mod_eq [of 60 "t div 1000 div 60", symmetric]] by (simp only:)
    qed
    have "date_parse ?text = day * DAY_MS + t"
      unfolding iso_text_parse [OF digits] Y(5) [symmetric] M(3) [symmetric] D(3) [symmetric]
        H(3) [symmetric] I(3) [symmetric] S(3) [symmetric] F(4) [symmetric] date_roundtrip [OF date]
      by (subst t_split) (simp only: add.assoc)
    then show ?thesis unfolding day_def t_def by simp
  qed
  ultimately show ?thesis using out by blast
qed

lemma parseInstant_toISOString:
  assumes "iso_years ms" "toISOString ms = Some text"
  shows "parseInstant name text = Inr ms"
  using toISOString_text [OF assms(1)] assms(2) by (auto simp: parseInstant_def)

end
