(* ===== verification/Notify_Calendar.thy ===== *)
theory Notify_Calendar
  imports Notify_Instant "HOL-Library.Signed_Division"
begin

text \<open>
  The working-time calendar of the escalation ladder, \<open>packages/notify/src/calendar.ts\<close>: how many
  working minutes lie between two instants, and the instant at which a number of them has elapsed.
  An instant is its milliseconds as an \<open>int\<close>. The specification is the set of working minutes:
  \<open>workingMinutesBetween\<close> counts it, \<open>addWorkingMinutes\<close> is the least instant by which the count
  is reached.
\<close>

record calendar =
  utcOffsetMinutes :: int
  workdays :: "int list"
  startMinute :: int
  endMinute :: int
  holidays :: "string list"

text \<open>What the schema accepts.\<close>

definition calendar_ok :: "calendar \<Rightarrow> bool" where
  "calendar_ok cal \<longleftrightarrow> -840 \<le> utcOffsetMinutes cal \<and> utcOffsetMinutes cal \<le> 840 \<and>
     list_all (\<lambda>d. 1 \<le> d \<and> d \<le> 7) (workdays cal) \<and> workdays cal \<noteq> [] \<and>
     0 \<le> startMinute cal \<and> startMinute cal \<le> 1440 \<and> 0 \<le> endMinute cal \<and> endMinute cal \<le> 1440 \<and>
     list_all (\<lambda>h. length h = 10 \<and> list_all is_digit (take 4 h) \<and> h ! 4 = CHR ''-'' \<and>
        list_all is_digit (take 2 (drop 5 h)) \<and> h ! 7 = CHR ''-'' \<and> list_all is_digit (drop 8 h)) (holidays cal) \<and>
     endMinute cal > startMinute cal"

definition MINUTE_MS :: int where "MINUTE_MS = 60000"
definition DAY_MINUTES :: int where "DAY_MINUTES = 1440"
definition MAX_DAYS :: int where "MAX_DAYS = 3660"

record local_point =
  lp_day :: int
  lp_minute :: int

definition toLocal :: "int \<Rightarrow> calendar \<Rightarrow> local_point" where
  "toLocal instantMs cal =
    (let localMinutes = instantMs div MINUTE_MS + utcOffsetMinutes cal; day = localMinutes div DAY_MINUTES
     in \<lparr>lp_day = day, lp_minute = localMinutes - day * DAY_MINUTES\<rparr>)"

definition toInstant :: "local_point \<Rightarrow> calendar \<Rightarrow> int" where
  "toInstant p cal = (lp_day p * DAY_MINUTES + lp_minute p - utcOffsetMinutes cal) * MINUTE_MS"

text \<open>The remainder of JavaScript has the sign of the dividend.\<close>

definition isoWeekday :: "int \<Rightarrow> int" where
  "isoWeekday day = ((day + 3) smod 7 + 7) smod 7 + 1"

text \<open>
  The first ten characters of \<open>toISOString\<close> (the days that come here are days of instants, where
  it does not throw).
\<close>

definition localDate :: "int \<Rightarrow> string" where
  "localDate day = take 10 (date_str day @ ''T00:00:00.000Z'')"

definition isWorkingDay :: "int \<Rightarrow> calendar \<Rightarrow> bool" where
  "isWorkingDay day cal \<longleftrightarrow> isoWeekday day \<in> set (workdays cal) \<and> localDate day \<notin> set (holidays cal)"

definition workingMinutesBetween :: "int \<Rightarrow> int \<Rightarrow> calendar \<Rightarrow> notify_error + int" where
  "workingMinutesBetween fromMs toMs cal =
    (if toMs \<le> fromMs then Inr 0
     else let start = toLocal fromMs cal; stop = toLocal toMs cal
       in if lp_day stop - lp_day start > MAX_DAYS
         then Inl (NotifyConfigError ''escalation window spans more than 3660 days'')
         else Inr (foldl (\<lambda>total day.
             if \<not> isWorkingDay day cal then total
             else let windowStart = max (startMinute cal) (if day = lp_day start then lp_minute start else 0);
                      windowEnd = min (endMinute cal) (if day = lp_day stop then lp_minute stop else DAY_MINUTES)
               in if windowEnd > windowStart then total + (windowEnd - windowStart) else total)
           0 [lp_day start..lp_day stop]))"

text \<open>The loop of \<open>addWorkingMinutes\<close> over the remaining offsets.\<close>

fun add_days :: "local_point \<Rightarrow> calendar \<Rightarrow> int list \<Rightarrow> int \<Rightarrow> int option" where
  "add_days start cal [] remaining = None"
| "add_days start cal (offset # offsets) remaining =
    (let day = lp_day start + offset in
     if \<not> isWorkingDay day cal then add_days start cal offsets remaining
     else let windowStart = max (startMinute cal) (if offset = 0 then lp_minute start else 0);
              available = endMinute cal - windowStart
       in if available \<le> 0 then add_days start cal offsets remaining
          else if remaining \<le> available
            then Some (toInstant \<lparr>lp_day = day, lp_minute = windowStart + remaining\<rparr> cal)
          else add_days start cal offsets (remaining - available))"

definition addWorkingMinutes :: "int \<Rightarrow> int \<Rightarrow> calendar \<Rightarrow> notify_error + int" where
  "addWorkingMinutes fromMs minutes cal =
    (if minutes \<le> 0 then Inr fromMs
     else case add_days (toLocal fromMs cal) cal [0..MAX_DAYS] minutes of
       Some t \<Rightarrow> Inr t
     | None \<Rightarrow> Inl (NotifyConfigError ''escalation threshold is unreachable within 3660 days''))"

subsection \<open>Specification: the working minutes\<close>

text \<open>A minute is counted from 1970-01-01T00:00 of the calendar's own clock.\<close>

definition working_minute :: "calendar \<Rightarrow> int \<Rightarrow> bool" where
  "working_minute cal m \<longleftrightarrow> isWorkingDay (m div 1440) cal \<and> startMinute cal \<le> m mod 1440 \<and>
     m mod 1440 < endMinute cal"

definition working_count :: "calendar \<Rightarrow> int \<Rightarrow> int \<Rightarrow> nat" where
  "working_count cal a b = card {m. a \<le> m \<and> m < b \<and> working_minute cal m}"

definition local_minute :: "calendar \<Rightarrow> int \<Rightarrow> int" where
  "local_minute cal instantMs = instantMs div 60000 + utcOffsetMinutes cal"

lemma isoWeekday: "isoWeekday day = (day + 3) mod 7 + 1"
proof -
  have "0 \<le> x smod 7 + 7" "(x smod 7 + 7) mod 7 = x mod 7" for x :: int
  proof -
    show "0 \<le> x smod 7 + 7" using smod_int_range [of 7 x] by auto
    show "(x smod 7 + 7) mod 7 = x mod 7"
      by (cases "sgn x \<noteq> sgn 7 \<and> \<not> 7 dvd x") (simp_all add: signed_modulo_int_eq_modulo_int)
  qed
  then show ?thesis
    unfolding isoWeekday_def using smod_mod_positive by (metis zero_le_numeral)
qed

lemma finite_interval [simp]: "finite {m :: int. a \<le> m \<and> m < b \<and> P m}"
  by (rule finite_subset [of _ "{a..<b}"]) auto

lemma working_count_empty [simp]: "b \<le> a \<Longrightarrow> working_count cal a b = 0"
  by (auto simp: working_count_def)

lemma working_count_append:
  assumes "a \<le> b" "b \<le> c"
  shows "working_count cal a c = working_count cal a b + working_count cal b c"
proof -
  have "{m. a \<le> m \<and> m < c \<and> working_minute cal m} =
      {m. a \<le> m \<and> m < b \<and> working_minute cal m} \<union> {m. b \<le> m \<and> m < c \<and> working_minute cal m}"
    using assms by auto
  then show ?thesis
    unfolding working_count_def by (simp add: card_Un_disjoint disjoint_iff)
qed

lemma working_count_mono: "b \<le> c \<Longrightarrow> working_count cal a b \<le> working_count cal a c"
  unfolding working_count_def by (rule card_mono) auto

text \<open>The minutes of one day between two of its minutes.\<close>

lemma working_count_day:
  assumes "0 \<le> x" "y \<le> 1440"
  shows "int (working_count cal (1440 * d + x) (1440 * d + y)) =
    (if isWorkingDay d cal then max 0 (min (endMinute cal) y - max (startMinute cal) x) else 0)"
proof -
  have day: "(1440 * d + k) div 1440 = d" "(1440 * d + k) mod 1440 = k" if "0 \<le> k" "k < 1440" for k
    using that by (simp_all add: div_add1_eq mod_add_eq [symmetric])
  have "{m. 1440 * d + x \<le> m \<and> m < 1440 * d + y \<and> working_minute cal m} =
      (if isWorkingDay d cal then (\<lambda>k. 1440 * d + k) ` {max (startMinute cal) x..<min (endMinute cal) y} else {})"
    (is "?L = ?R")
  proof -
    have "m \<in> ?L \<longleftrightarrow> m \<in> ?R" for m
    proof -
      define k where "k = m - 1440 * d"
      have m: "m = 1440 * d + k" by (simp add: k_def)
      have "m \<in> ?R \<longleftrightarrow> isWorkingDay d cal \<and> max (startMinute cal) x \<le> k \<and> k < min (endMinute cal) y"
        unfolding m by (auto simp: image_iff)
      moreover have "m \<in> ?L \<longleftrightarrow> x \<le> k \<and> k < y \<and> working_minute cal m" unfolding m by simp
      moreover have "x \<le> k \<and> k < y \<Longrightarrow> working_minute cal m \<longleftrightarrow>
          isWorkingDay d cal \<and> startMinute cal \<le> k \<and> k < endMinute cal"
        unfolding working_minute_def m using assms by (simp add: day)
      ultimately show ?thesis by (auto simp: max_def min_def)
    qed
    then show ?thesis by blast
  qed
  then show ?thesis by (simp add: working_count_def card_image inj_on_def max_def)
qed


subsection \<open>Counting\<close>

lemma toLocal [simp]:
  "lp_day (toLocal t cal) = local_minute cal t div 1440"
  "lp_minute (toLocal t cal) = local_minute cal t mod 1440"
  by (simp_all add: toLocal_def Let_def local_minute_def MINUTE_MS_def DAY_MINUTES_def minus_div_mult_eq_mod)

lemma local_minute_mono: "s \<le> t \<Longrightarrow> local_minute cal s \<le> local_minute cal t"
  by (simp add: local_minute_def zdiv_mono1)

lemma day_le: "j \<le> m div 1440 \<longleftrightarrow> 1440 * j \<le> m" for j m :: int
proof
  assume "j \<le> m div 1440"
  then have "1440 * j \<le> 1440 * (m div 1440)" by simp
  also have "\<dots> \<le> m" using mult_div_mod_eq [of 1440 m] pos_mod_sign [of 1440 m] by linarith
  finally show "1440 * j \<le> m" .
next
  assume "1440 * j \<le> m"
  then have "1440 * j div 1440 \<le> m div 1440" by (intro zdiv_mono1) simp_all
  then show "j \<le> m div 1440" by simp
qed

lemma day_ge: "m div 1440 \<le> j \<longleftrightarrow> m < 1440 * (j + 1)" for j m :: int
  using day_le [of "j + 1" m] by linarith

lemma day_minute: "m = 1440 * (m div 1440) + m mod 1440" for m :: int
  by simp

lemma gap_added:
  "(if \<not> W then acc else let s = lo; e = hi in if e > s then acc + (e - s) else acc)
     = acc + (if \<not> W then 0 else max 0 (hi - lo))" for acc lo hi :: int
  by (simp add: Let_def)

lemma foldl_days:
  "(\<And>acc d. d \<in> set ds \<Longrightarrow> step acc d = acc + f d) \<Longrightarrow> foldl step acc ds = acc + (sum_list (map f ds) :: int)"
proof (induction ds arbitrary: acc)
  case (Cons d ds)
  then have "foldl step (step acc d) ds = step acc d + sum_list (map f ds)" by simp
  then show ?case using Cons.prems by simp
qed simp

lemma days_sum:
  assumes f: "\<And>d. a div 1440 \<le> d \<Longrightarrow> d \<le> b div 1440 \<Longrightarrow>
      f d = int (working_count cal (max a (1440 * d)) (min b (1440 * (d + 1))))"
    and "a \<le> b"
  shows "a div 1440 \<le> j \<Longrightarrow> j \<le> b div 1440 \<Longrightarrow>
    sum_list (map f [a div 1440..j]) = int (working_count cal a (min b (1440 * (j + 1))))"
proof (induction j rule: int_ge_induct)
  case base
  have "1440 * (a div 1440) \<le> a" by simp
  then have "max a (1440 * (a div 1440)) = a" by simp
  then show ?case using f [OF order_refl] base by simp
next
  case (step j)
  have below: "1440 * (j + 1) \<le> b" "a \<le> 1440 * (j + 1)"
    using step.prems step.hyps by (simp_all add: day_le day_ge)
  then have "max a (1440 * (j + 1)) = 1440 * (j + 1)" by simp
  moreover have "min b (1440 * (j + 1)) = 1440 * (j + 1)" using below by simp
  ultimately show ?case
    using step below f [of "j + 1"] working_count_append [of a "1440 * (j + 1)" "min b (1440 * (j + 1 + 1))" cal]
    by (simp add: upto_rec2)
qed

lemma workingMinutesBetween_count:
  "workingMinutesBetween fromMs toMs cal =
    (if toMs \<le> fromMs then Inr 0
     else if local_minute cal toMs div 1440 - local_minute cal fromMs div 1440 > 3660
     then Inl (NotifyConfigError ''escalation window spans more than 3660 days'')
     else Inr (int (working_count cal (local_minute cal fromMs) (local_minute cal toMs))))"
proof -
  define a b where "a = local_minute cal fromMs" and "b = local_minute cal toMs"
  define f where "f d = (if \<not> isWorkingDay d cal then 0 else
     max 0 (min (endMinute cal) (if d = b div 1440 then b mod 1440 else 1440) -
        max (startMinute cal) (if d = a div 1440 then a mod 1440 else 0)))" for d
  have body: "(if \<not> isWorkingDay d cal then acc
             else let windowStart = max (startMinute cal) (if d = a div 1440 then a mod 1440 else 0);
                      windowEnd = min (endMinute cal) (if d = b div 1440 then b mod 1440 else 1440)
               in if windowEnd > windowStart then acc + (windowEnd - windowStart) else acc) = acc + f d"
    for acc d
    unfolding f_def by (rule gap_added)
  have "sum_list (map f [a div 1440..b div 1440]) = int (working_count cal a b)" if "a \<le> b"
  proof -
    have day: "f d = int (working_count cal (max a (1440 * d)) (min b (1440 * (d + 1))))"
      if "a div 1440 \<le> d" "d \<le> b div 1440" for d
    proof -
      have x: "max a (1440 * d) = 1440 * d + (if d = a div 1440 then a mod 1440 else 0)"
      proof (cases "d = a div 1440")
        case True
        then have "1440 * d \<le> a" by (simp flip: day_le)
        then show ?thesis using True by simp
      next
        case False
        then have "\<not> 1440 * d \<le> a" using that(1) unfolding day_le [symmetric] by linarith
        then show ?thesis using False by simp
      qed
      have y: "min b (1440 * (d + 1)) = 1440 * d + (if d = b div 1440 then b mod 1440 else 1440)"
      proof (cases "d = b div 1440")
        case True
        then have "b < 1440 * (d + 1)" by (simp flip: day_ge)
        then show ?thesis using True by simp
      next
        case False
        then have "\<not> b < 1440 * (d + 1)" using that(2) unfolding day_ge [symmetric] by linarith
        then show ?thesis using False by simp
      qed
      show ?thesis unfolding x y by (subst working_count_day) (auto simp: f_def)
    qed
    have "b < 1440 * (b div 1440 + 1)" by (simp flip: day_ge)
    then show ?thesis
      using days_sum [where f = f, OF day \<open>a \<le> b\<close>, of "b div 1440"] \<open>a \<le> b\<close> by (simp add: zdiv_mono1)
  qed
  moreover have "\<not> toMs \<le> fromMs \<Longrightarrow> a \<le> b" unfolding a_def b_def by (simp add: local_minute_mono)
  ultimately show ?thesis
    unfolding workingMinutesBetween_def Let_def toLocal MAX_DAYS_def DAY_MINUTES_def a_def [symmetric] b_def [symmetric]
    using foldl_days [of "[a div 1440..b div 1440]" _ f 0, OF body [unfolded Let_def]] by auto
qed


subsection \<open>Advancing\<close>

text \<open>Where the loop at offset \<open>k\<close> starts counting.\<close>

definition loop_from :: "int \<Rightarrow> int \<Rightarrow> int" where
  "loop_from a k = (if k = 0 then a else 1440 * (a div 1440 + k))"

definition due_minute :: "calendar \<Rightarrow> int \<Rightarrow> int \<Rightarrow> int \<Rightarrow> bool" where
  "due_minute cal a r l \<longleftrightarrow> a < l \<and> working_minute cal (l - 1) \<and> int (working_count cal a l) = r"

lemma working_minute_in_day:
  "0 \<le> k \<Longrightarrow> k < 1440 \<Longrightarrow>
    working_minute cal (1440 * d + k) \<longleftrightarrow> isWorkingDay d cal \<and> startMinute cal \<le> k \<and> k < endMinute cal"
  by (simp add: working_minute_def)

lemma loop_from_day:
  "0 \<le> k \<Longrightarrow> loop_from a k = 1440 * (a div 1440 + k) + (if k = 0 then a mod 1440 else 0)"
  by (simp add: loop_from_def)

lemma add_days_spec:
  assumes cal: "0 \<le> startMinute cal" "endMinute cal \<le> 1440"
    and start: "lp_day p = a div 1440" "lp_minute p = a mod 1440"
  shows "0 \<le> k \<Longrightarrow> k \<le> n + 1 \<Longrightarrow> 0 < r \<Longrightarrow>
    (case add_days p cal [k..n] r of
       Some t \<Rightarrow> \<exists>l. t = (l - utcOffsetMinutes cal) * 60000 \<and> due_minute cal (loop_from a k) r l
     | None \<Rightarrow> int (working_count cal (loop_from a k) (1440 * (a div 1440 + n + 1))) < r)"
proof (induction "nat (n + 1 - k)" arbitrary: k r)
  case 0
  then have "k = n + 1" by simp
  then show ?case using 0 by (simp add: loop_from_def algebra_simps)
next
  case (Suc i)
  define d where "d = a div 1440 + k"
  define x where "x = (if k = 0 then a mod 1440 else 0)"
  define ws where "ws = max (startMinute cal) x"
  define a' where "a' = loop_from a (k + 1)"
  have k: "k \<le> n" and list: "[k..n] = k # [k + 1..n]" using Suc.hyps(2) by (simp_all add: upto_rec1)
  have x: "0 \<le> x" "x < 1440" by (simp_all add: x_def)
  have from_k: "loop_from a k = 1440 * d + x" using Suc.prems by (simp add: loop_from_day d_def x_def)
  have a': "a' = 1440 * d + 1440" using Suc.prems by (simp add: a'_def loop_from_def d_def)
  have le: "loop_from a k \<le> a'" unfolding from_k a' using x by simp
  have today: "int (working_count cal (loop_from a k) a') =
      (if isWorkingDay d cal then max 0 (endMinute cal - ws) else 0)"
    unfolding from_k a' using working_count_day [of x 1440 cal d] x cal by (simp add: ws_def)
  have append: "working_count cal (loop_from a k) l = working_count cal (loop_from a k) a' + working_count cal a' l"
    if "a' \<le> l" for l
    using le that by (rule working_count_append)
  have later: ?case if rest: "add_days p cal [k..n] r = add_days p cal [k + 1..n] (r - c)"
    and c: "c = int (working_count cal (loop_from a k) a')" and "c < r" for c
  proof -
    have IH: "case add_days p cal [k + 1..n] (r - c) of
       Some t \<Rightarrow> \<exists>l. t = (l - utcOffsetMinutes cal) * 60000 \<and> due_minute cal a' (r - c) l
     | None \<Rightarrow> int (working_count cal a' (1440 * (a div 1440 + n + 1))) < r - c"
      unfolding a'_def using Suc.hyps(2) Suc.prems k \<open>c < r\<close> by (intro Suc.hyps(1)) simp_all
    have stop: "a' \<le> 1440 * (a div 1440 + n + 1)" using a' k by (simp add: d_def)
    show ?thesis
    proof (cases "add_days p cal [k + 1..n] (r - c)")
      case None
      then show ?thesis using IH append [OF stop] c rest by simp
    next
      case (Some t)
      then obtain l where l: "t = (l - utcOffsetMinutes cal) * 60000" "due_minute cal a' (r - c) l" using IH by auto
      then have "due_minute cal (loop_from a k) r l"
        using append [of l] le c by (simp add: due_minute_def)
      then show ?thesis using rest Some l(1) by auto
    qed
  qed
  have unfold: "add_days p cal [k..n] r =
    (if \<not> isWorkingDay d cal then add_days p cal [k + 1..n] r
     else if endMinute cal - ws \<le> 0 then add_days p cal [k + 1..n] r
     else if r \<le> endMinute cal - ws then Some ((1440 * d + (ws + r) - utcOffsetMinutes cal) * 60000)
     else add_days p cal [k + 1..n] (r - (endMinute cal - ws)))"
    unfolding list by (simp add: Let_def start d_def [symmetric] ws_def x_def toInstant_def DAY_MINUTES_def
        MINUTE_MS_def mult.commute [of d])
  consider "\<not> isWorkingDay d cal \<or> endMinute cal - ws \<le> 0"
    | "isWorkingDay d cal" "0 < endMinute cal - ws" "r \<le> endMinute cal - ws"
    | "isWorkingDay d cal" "0 < endMinute cal - ws" "endMinute cal - ws < r"
    by linarith
  then show ?case
  proof cases
    case 1
    then show ?thesis using unfold today Suc.prems by (intro later [of 0]) auto
  next
    case 2
    have "0 \<le> ws" "x \<le> ws" "startMinute cal \<le> ws" using cal x by (simp_all add: ws_def)
    have "due_minute cal (loop_from a k) r (1440 * d + (ws + r))"
      unfolding due_minute_def from_k
    proof (intro conjI)
      show "1440 * d + x < 1440 * d + (ws + r)" using \<open>x \<le> ws\<close> Suc.prems by simp
      have "working_minute cal (1440 * d + (ws + r - 1))"
        using 2 cal \<open>0 \<le> ws\<close> \<open>startMinute cal \<le> ws\<close> Suc.prems by (subst working_minute_in_day) simp_all
      then show "working_minute cal (1440 * d + (ws + r) - 1)" by (simp add: algebra_simps)
      show "int (working_count cal (1440 * d + x) (1440 * d + (ws + r))) = r"
        using working_count_day [of x "ws + r" cal d] 2 x cal Suc.prems by (simp add: ws_def)
    qed
    moreover have "add_days p cal [k..n] r = Some ((1440 * d + (ws + r) - utcOffsetMinutes cal) * 60000)"
      using 2 unfold by simp
    ultimately show ?thesis by (simp only: option.case) blast
  next
    case 3
    then show ?thesis using unfold today by (intro later [of "endMinute cal - ws"]) auto
  qed
qed

lemma due_minute_least:
  assumes "due_minute cal a r l"
  shows "r \<le> int (working_count cal a m) \<longleftrightarrow> l \<le> m"
proof
  assume "l \<le> m"
  then show "r \<le> int (working_count cal a m)"
    using assms working_count_mono [of l m cal a] by (simp add: due_minute_def)
next
  assume r: "r \<le> int (working_count cal a m)"
  have "{i. l - 1 \<le> i \<and> i < l \<and> working_minute cal i} = {l - 1}"
    using assms by (auto simp: due_minute_def)
  then have "working_count cal (l - 1) l = 1" by (simp add: working_count_def)
  then have "int (working_count cal a (l - 1)) < r"
    using assms working_count_append [of a "l - 1" l cal] by (simp add: due_minute_def)
  then show "l \<le> m" using r working_count_mono [of m "l - 1" cal a] by linarith
qed

lemma local_minute_ge: "l \<le> local_minute cal u \<longleftrightarrow> (l - utcOffsetMinutes cal) * 60000 \<le> u"
proof -
  have "j \<le> u div 60000 \<longleftrightarrow> j * 60000 \<le> u" for j :: int
  proof
    assume "j \<le> u div 60000"
    then have "60000 * j \<le> 60000 * (u div 60000)" by simp
    then show "j * 60000 \<le> u" using mult_div_mod_eq [of 60000 u] pos_mod_sign [of 60000 u] by linarith
  next
    assume "j * 60000 \<le> u"
    then have "j * 60000 div 60000 \<le> u div 60000" by (intro zdiv_mono1) simp_all
    then show "j \<le> u div 60000" by simp
  qed
  from this [of "l - utcOffsetMinutes cal"] show ?thesis unfolding local_minute_def by linarith
qed

lemma addWorkingMinutes_spec:
  assumes "calendar_ok cal" "0 < n"
  shows "case addWorkingMinutes fromMs n cal of
      Inr t \<Rightarrow> \<exists>l. t = (l - utcOffsetMinutes cal) * 60000 \<and> due_minute cal (local_minute cal fromMs) n l
    | Inl e \<Rightarrow> int (working_count cal (local_minute cal fromMs)
        (1440 * (local_minute cal fromMs div 1440 + 3661))) < n"
  using add_days_spec [of cal "toLocal fromMs cal" "local_minute cal fromMs" 0 MAX_DAYS n] assms
  by (auto simp: addWorkingMinutes_def calendar_ok_def MAX_DAYS_def loop_from_def add.commute split: option.splits)

end
