(* ===== verification/Notify_Ladder.thy ===== *)
theory Notify_Ladder
  imports Notify_Calendar Contracts "HOL-Library.Log_Nat"
begin

text \<open>
  The escalation ladder of a waiting gate, \<open>packages/notify/src/escalation.ts\<close>: which steps are
  due at an instant, when the next one is, and the notifications they become
  (\<open>packages/contracts/src/notify.ts\<close>). Messages of errors are kept to their kind and the id they
  name.
\<close>

subsection \<open>contracts/src/notify.ts\<close>

datatype notify_channel = ChTeams | ChSmtp | ChJira | ChSlack

datatype notify_event = EvGateOpen | EvGateReminder | EvEscalation | EvClarificationReminder
  | EvHandover | EvCiRed | EvQuotaWait | EvRunnerHealth | EvKillSwitch

fun channel_str :: "notify_channel \<Rightarrow> string" where
  "channel_str ChTeams = ''teams''" | "channel_str ChSmtp = ''smtp''"
| "channel_str ChJira = ''jira''" | "channel_str ChSlack = ''slack''"

fun event_str :: "notify_event \<Rightarrow> string" where
  "event_str EvGateOpen = ''gate_open''" | "event_str EvGateReminder = ''gate_reminder''"
| "event_str EvEscalation = ''escalation''" | "event_str EvClarificationReminder = ''clarification_reminder''"
| "event_str EvHandover = ''handover''" | "event_str EvCiRed = ''ci_red''"
| "event_str EvQuotaWait = ''quota_wait''" | "event_str EvRunnerHealth = ''runner_health''"
| "event_str EvKillSwitch = ''kill_switch''"

lemma channel_str_inj [simp]: "channel_str a = channel_str b \<longleftrightarrow> a = b"
  by (cases a; cases b) simp_all

record notification =
  n_event :: notify_event
  n_channel :: notify_channel
  n_to :: "string list"
  n_locale :: locale_id
  n_messageKey :: string
  n_params :: "(string \<times> string) list"
  n_at :: string

text \<open>The schema trims every \<open>NonEmpty\<close> field and then asks for a character.\<close>

definition notification_parse :: "notification \<Rightarrow> notification option" where
  "notification_parse n =
    (if n_to n \<noteq> [] \<and> list_all non_empty (n_to n) \<and> non_empty (n_messageKey n) \<and>
        iso_datetime_ok (asc (n_at n))
     then Some (n\<lparr>n_to := map trim (n_to n), n_messageKey := trim (n_messageKey n)\<rparr>)
     else None)"

subsection \<open>Thresholds\<close>

text \<open>
  \<open>afterHours\<close> is a double: \<open>mantissa * 2 ^ -fraction\<close>. Its product with 60 is the nearest double
  (ties to even), which \<open>Math.round\<close> then rounds to an integer (halves up).
\<close>

record double =
  mantissa :: nat
  fraction :: nat

definition double_ok :: "double \<Rightarrow> bool" where
  "double_ok h \<longleftrightarrow> mantissa h < 2 ^ 53"

definition round53 :: "nat \<Rightarrow> nat" where
  "round53 p = (if p < 2 ^ 53 then p
     else let b = floorlog 2 p - 53; q = p div 2 ^ b; r = p mod 2 ^ b; half = 2 ^ (b - 1)
       in (if r > half \<or> (r = half \<and> odd q) then q + 1 else q) * 2 ^ b)"

definition thresholdOf :: "double \<Rightarrow> int" where
  "thresholdOf h = int ((2 * round53 (60 * mantissa h) + 2 ^ fraction h) div 2 ^ (fraction h + 1))"

lemma thresholdOf_nonneg [simp]: "0 \<le> thresholdOf h"
  by (simp add: thresholdOf_def)

lemma thresholdOf_hours: "60 * n < 2 ^ 53 \<Longrightarrow> thresholdOf \<lparr>mantissa = n, fraction = 0\<rparr> = 60 * int n"
  by (simp add: thresholdOf_def round53_def)

subsection \<open>Ladders\<close>

datatype escalation_action = ActNotify | ActDelegate

record escalation_step =
  afterHours :: double
  es_channel :: notify_channel
  es_event :: notify_event
  es_id :: string
  messageKey :: "string option"
  es_to :: "string list option"
  es_action :: escalation_action

record escalation_ladder =
  steps :: "escalation_step list"
  businessHoursOnly :: bool
  ladder_calendar :: calendar

definition step_ok :: "escalation_step \<Rightarrow> bool" where
  "step_ok s \<longleftrightarrow> double_ok (afterHours s) \<and> 0 < mantissa (afterHours s) \<and>
     mantissa (afterHours s) \<le> 8760 * 2 ^ fraction (afterHours s) \<and>
     non_empty (es_id s) \<and> trim (es_id s) = es_id s \<and>
     (\<forall>k \<in> set_option (messageKey s). non_empty k \<and> trim k = k) \<and>
     (\<forall>to \<in> set_option (es_to s). to \<noteq> [] \<and> list_all (\<lambda>t. non_empty t \<and> trim t = t) to)"

definition ladder_ok :: "escalation_ladder \<Rightarrow> bool" where
  "ladder_ok l \<longleftrightarrow> steps l \<noteq> [] \<and> list_all step_ok (steps l) \<and> calendar_ok (ladder_calendar l)"

record resolved_step = escalation_step +
  stepId :: string
  thresholdMinutes :: int

definition resolve :: "escalation_step \<Rightarrow> resolved_step" where
  "resolve s = escalation_step.extend s (resolved_step.fields (es_id s) (thresholdOf (afterHours s)))"

text \<open>\<open>seen\<close> are the ids of the steps before.\<close>

fun resolve_from :: "string list \<Rightarrow> escalation_step list \<Rightarrow> notify_error + resolved_step list" where
  "resolve_from seen [] = Inr []"
| "resolve_from seen (s # ss) =
    (if es_id s \<in> set seen
     then Inl (NotifyConfigError (''escalation ladder has a duplicate step id: '' @ es_id s))
     else case resolve_from (es_id s # seen) ss of Inl e \<Rightarrow> Inl e | Inr rs \<Rightarrow> Inr (resolve s # rs))"

definition resolveSteps :: "escalation_ladder \<Rightarrow> notify_error + resolved_step list" where
  "resolveSteps ladder = resolve_from [] (steps ladder)"

record ladder_query =
  q_openedAt :: string
  q_now :: string
  q_fired :: "string list"

record escalation_decision =
  due :: "resolved_step list"
  next_due :: "(resolved_step \<times> string) option"
  elapsedMinutes :: int

definition dueInstant :: "escalation_ladder \<Rightarrow> int \<Rightarrow> int \<Rightarrow> notify_error + int" where
  "dueInstant ladder openedAt threshold =
    (if businessHoursOnly ladder then addWorkingMinutes openedAt threshold (ladder_calendar ladder)
     else Inr (openedAt + threshold * 60000))"

definition elapsedOf :: "escalation_ladder \<Rightarrow> int \<Rightarrow> int \<Rightarrow> notify_error + int" where
  "elapsedOf ladder openedAt now =
    (if businessHoursOnly ladder then workingMinutesBetween openedAt now (ladder_calendar ladder)
     else Inr ((now - openedAt) div 60000))"

text \<open>The function behind the two parsed instants.\<close>

definition decide :: "escalation_ladder \<Rightarrow> string list \<Rightarrow> int \<Rightarrow> int \<Rightarrow> notify_error + escalation_decision" where
  "decide ladder fired openedAt now =
    (if now < openedAt then Inl (NotifyConfigError ''now is before openedAt'')
     else case elapsedOf ladder openedAt now of Inl e \<Rightarrow> Inl e | Inr elapsed \<Rightarrow>
       (case resolveSteps ladder of Inl e \<Rightarrow> Inl e | Inr rs \<Rightarrow>
         (let due = filter (\<lambda>s. thresholdMinutes s \<le> elapsed \<and> stepId s \<notin> set fired) rs;
              pending = sort_key thresholdMinutes
                (filter (\<lambda>s. thresholdMinutes s > elapsed \<and> stepId s \<notin> set fired) rs)
          in case pending of
            [] \<Rightarrow> Inr \<lparr>due = due, next_due = None, elapsedMinutes = elapsed\<rparr>
          | s # _ \<Rightarrow> (case dueInstant ladder openedAt (thresholdMinutes s) of
              Inl e \<Rightarrow> Inl e
            | Inr t \<Rightarrow> (case toISOString t of
                None \<Rightarrow> Inl RangeError
              | Some text \<Rightarrow> Inr \<lparr>due = due, next_due = Some (s, text), elapsedMinutes = elapsed\<rparr>)))))"

definition escalationDueAt :: "escalation_ladder \<Rightarrow> ladder_query \<Rightarrow> notify_error + escalation_decision" where
  "escalationDueAt ladder q =
    (case parseInstant ''openedAt'' (q_openedAt q) of Inl e \<Rightarrow> Inl e | Inr openedAt \<Rightarrow>
      (case parseInstant ''now'' (q_now q) of Inl e \<Rightarrow> Inl e | Inr now \<Rightarrow>
        decide ladder (q_fired q) openedAt now))"

subsection \<open>Plans\<close>

record escalation_plan =
  p_decision :: escalation_decision
  notifications :: "notification list"
  delegations :: "resolved_step list"

definition messageKeyOf :: "'a escalation_step_scheme \<Rightarrow> string" where
  "messageKeyOf s = (case messageKey s of Some k \<Rightarrow> k
    | None \<Rightarrow> if es_action s = ActDelegate then ''notify.delegated'' else ''notify.'' @ event_str (es_event s))"

definition step_notification ::
  "locale_id \<Rightarrow> (string \<times> string) list \<Rightarrow> (resolved_step \<Rightarrow> string list) \<Rightarrow> string \<Rightarrow> resolved_step
     \<Rightarrow> notify_error + notification" where
  "step_notification loc params recipients now s =
    (let to = (case es_to s of Some to \<Rightarrow> to | None \<Rightarrow> recipients s)
     in if to = [] then Inl (NotifyRecipientError (channel_str (es_channel s)) (stepId s))
        else case notification_parse \<lparr>n_event = es_event s, n_channel = es_channel s, n_to = to,
            n_locale = loc, n_messageKey = messageKeyOf s, n_params = params, n_at = now\<rparr> of
          Some n \<Rightarrow> Inr n
        | None \<Rightarrow> Inl (NotifyConfigError (stepId s)))"

definition planEscalation ::
  "escalation_ladder \<Rightarrow> ladder_query \<Rightarrow> locale_id \<Rightarrow> (string \<times> string) list \<Rightarrow> (resolved_step \<Rightarrow> string list)
     \<Rightarrow> notify_error + escalation_plan" where
  "planEscalation ladder q loc params recipients =
    (case escalationDueAt ladder q of Inl e \<Rightarrow> Inl e | Inr d \<Rightarrow>
      (case all_results (map (step_notification loc params recipients (q_now q)) (due d)) of
        Inl e \<Rightarrow> Inl e
      | Inr ns \<Rightarrow> Inr \<lparr>p_decision = d, notifications = ns,
          delegations = filter (\<lambda>s. es_action s = ActDelegate) (due d)\<rparr>))"


subsection \<open>Polling\<close>

text \<open>
  A waiting gate asks again and again: each poll sees the ladder as it is configured then, and the
  ids it fires are remembered. A poll that fails fires nothing.
\<close>

fun ladder_polls :: "int \<Rightarrow> string list \<Rightarrow> (escalation_ladder \<times> int) list \<Rightarrow> string list list" where
  "ladder_polls openedAt fired [] = []"
| "ladder_polls openedAt fired ((ladder, now) # ps) =
    (case decide ladder fired openedAt now of
       Inl e \<Rightarrow> [] # ladder_polls openedAt fired ps
     | Inr d \<Rightarrow> map stepId (due d) # ladder_polls openedAt (fired @ map stepId (due d)) ps)"

lemma resolve_simps [simp]:
  "stepId (resolve s) = es_id s" "thresholdMinutes (resolve s) = thresholdOf (afterHours s)"
  "es_id (resolve s) = es_id s" "es_channel (resolve s) = es_channel s" "es_event (resolve s) = es_event s"
  "messageKey (resolve s) = messageKey s" "es_to (resolve s) = es_to s" "es_action (resolve s) = es_action s"
  by (simp_all add: resolve_def escalation_step.defs resolved_step.defs)

lemma resolve_from:
  "resolve_from seen ss = Inr rs \<Longrightarrow>
    rs = map resolve ss \<and> distinct (map es_id ss) \<and> set (map es_id ss) \<inter> set seen = {}"
proof (induction seen ss arbitrary: rs rule: resolve_from.induct)
  case (2 seen s ss)
  then show ?case by (auto split: if_splits sum.splits)
qed simp

lemma resolve_from_ok:
  "distinct (map es_id ss) \<Longrightarrow> set (map es_id ss) \<inter> set seen = {} \<Longrightarrow> resolve_from seen ss = Inr (map resolve ss)"
  by (induction seen ss rule: resolve_from.induct) auto

lemma resolveSteps:
  "resolveSteps ladder = Inr rs \<longleftrightarrow> distinct (map es_id (steps ladder)) \<and> rs = map resolve (steps ladder)"
  using resolve_from [of "[]" "steps ladder" rs] resolve_from_ok [of "steps ladder" "[]"]
  by (auto simp: resolveSteps_def)

definition pending_steps :: "escalation_ladder \<Rightarrow> string list \<Rightarrow> int \<Rightarrow> resolved_step list" where
  "pending_steps ladder fired elapsed = sort_key thresholdMinutes
     (filter (\<lambda>s. thresholdMinutes s > elapsed \<and> stepId s \<notin> set fired) (map resolve (steps ladder)))"

lemma decide_Inr:
  "decide ladder fired openedAt now = Inr d \<longleftrightarrow>
    openedAt \<le> now \<and> elapsedOf ladder openedAt now = Inr (elapsedMinutes d) \<and>
    distinct (map es_id (steps ladder)) \<and>
    due d = filter (\<lambda>s. thresholdMinutes s \<le> elapsedMinutes d \<and> stepId s \<notin> set fired) (map resolve (steps ladder)) \<and>
    (case pending_steps ladder fired (elapsedMinutes d) of
       [] \<Rightarrow> next_due d = None
     | s # _ \<Rightarrow> \<exists>t text. dueInstant ladder openedAt (thresholdMinutes s) = Inr t \<and> toISOString t = Some text \<and>
         next_due d = Some (s, text))"
  (is "?L \<longleftrightarrow> ?R")
proof
  assume ?L
  then show ?R
    by (auto simp: decide_def Let_def pending_steps_def resolveSteps split: if_splits sum.splits list.splits option.splits)
next
  assume R: ?R
  then have rs: "resolveSteps ladder = Inr (map resolve (steps ladder))" by (simp add: resolveSteps)
  show ?L
  proof (cases "pending_steps ladder fired (elapsedMinutes d)")
    case Nil
    then show ?thesis using R rs unfolding decide_def pending_steps_def Let_def
      by (cases d) simp
  next
    case (Cons s ss)
    then show ?thesis using R rs unfolding decide_def pending_steps_def Let_def
      by (cases d) auto
  qed
qed

lemma due_distinct:
  "decide ladder fired openedAt now = Inr d \<Longrightarrow>
    distinct (map stepId (due d)) \<and> set (map stepId (due d)) \<inter> set fired = {}"
  by (auto simp: decide_Inr filter_map o_def distinct_map inj_on_def)

lemma polls_distinct:
  "distinct (concat (ladder_polls openedAt fired ps)) \<and>
    set (concat (ladder_polls openedAt fired ps)) \<inter> set fired = {}"
proof (induction ps arbitrary: fired)
  case (Cons p ps)
  obtain ladder now where p: "p = (ladder, now)" by (cases p)
  show ?case
  proof (cases "decide ladder fired openedAt now")
    case (Inl e)
    then show ?thesis using Cons.IH [of fired] p by simp
  next
    case (Inr d)
    then show ?thesis
      using Cons.IH [of "fired @ map stepId (due d)"] due_distinct [OF Inr] unfolding p
      by (simp add: Int_Un_distrib) blast
  qed
qed simp

lemma due_complete:
  assumes "decide ladder fired openedAt now = Inr d" "s \<in> set (steps ladder)"
    "thresholdOf (afterHours s) \<le> elapsedMinutes d"
  shows "es_id s \<in> set fired \<or> es_id s \<in> set (map stepId (due d))"
  using assms by (force simp: decide_Inr image_iff)

subsection \<open>The timer\<close>

lemma elapsed_mono:
  assumes "elapsedOf ladder openedAt now = Inr e" "elapsedOf ladder openedAt now' = Inr e'" "now \<le> now'"
  shows "e \<le> e'"
proof (cases "businessHoursOnly ladder")
  case True
  then show ?thesis
    using assms working_count_mono [OF local_minute_mono [OF assms(3)], of "ladder_calendar ladder"
        "local_minute (ladder_calendar ladder) openedAt" "ladder_calendar ladder"]
    by (auto simp: elapsedOf_def workingMinutesBetween_count split: if_splits)
next
  case False
  then show ?thesis using assms zdiv_mono1 [of "now - openedAt" "now' - openedAt" 60000]
    by (auto simp: elapsedOf_def)
qed

lemma elapsed_reaches:
  assumes cal: "calendar_ok (ladder_calendar ladder)" and "openedAt \<le> now" "0 \<le> th"
    and e: "elapsedOf ladder openedAt now = Inr e" and t: "dueInstant ladder openedAt th = Inr t"
  shows "th \<le> e \<longleftrightarrow> t \<le> now"
proof (cases "businessHoursOnly ladder")
  case False
  have "th \<le> (now - openedAt) div 60000 \<longleftrightarrow> th * 60000 \<le> now - openedAt"
    using local_minute_ge [of th "\<lparr>utcOffsetMinutes = 0, workdays = [], startMinute = 0, endMinute = 0, holidays = []\<rparr>"]
    by (simp add: local_minute_def)
  then show ?thesis using False assms by (auto simp: elapsedOf_def dueInstant_def)
next
  case business: True
  let ?cal = "ladder_calendar ladder" and ?a = "local_minute (ladder_calendar ladder) openedAt"
  have count: "e = int (working_count ?cal ?a (local_minute ?cal now))"
    using e business assms(2) by (cases "now = openedAt") (auto simp: elapsedOf_def workingMinutesBetween_count split: if_splits)
  show ?thesis
  proof (cases "th = 0")
    case True
    then show ?thesis using t business assms(2) count by (simp add: dueInstant_def addWorkingMinutes_def)
  next
    case False
    then have "0 < th" using assms(3) by simp
    then obtain l where l: "t = (l - utcOffsetMinutes ?cal) * 60000" "due_minute ?cal ?a th l"
      using addWorkingMinutes_spec [OF cal, of th openedAt] t business by (auto simp: dueInstant_def)
    show ?thesis unfolding count due_minute_least [OF l(2)] local_minute_ge l(1) ..
  qed
qed

lemma pending_head:
  assumes "pending_steps ladder fired elapsed = s # ss"
  shows "thresholdMinutes s > elapsed" "stepId s \<notin> set fired" "s \<in> set (map resolve (steps ladder))"
    "\<And>r. r \<in> set (map resolve (steps ladder)) \<Longrightarrow> stepId r \<notin> set fired \<Longrightarrow> thresholdMinutes r > elapsed \<Longrightarrow>
      thresholdMinutes s \<le> thresholdMinutes r"
proof -
  have mem: "set (s # ss) = {r \<in> set (map resolve (steps ladder)). thresholdMinutes r > elapsed \<and> stepId r \<notin> set fired}"
    unfolding assms [symmetric] pending_steps_def by auto
  have sorted: "sorted (map thresholdMinutes (s # ss))"
    unfolding assms [symmetric] pending_steps_def by (rule sorted_sort_key)
  show "thresholdMinutes s > elapsed" "stepId s \<notin> set fired" "s \<in> set (map resolve (steps ladder))"
    using mem by auto
  show "thresholdMinutes s \<le> thresholdMinutes r"
    if "r \<in> set (map resolve (steps ladder))" "stepId r \<notin> set fired" "thresholdMinutes r > elapsed" for r
  proof -
    have "r \<in> set (s # ss)" using that mem by blast
    then show ?thesis using sorted by auto
  qed
qed

lemma timer_exact:
  assumes "calendar_ok (ladder_calendar ladder)" and d: "decide ladder fired openedAt now = Inr d"
    and d': "decide ladder fired openedAt now' = Inr d'" and "now \<le> now'"
    and nxt: "next_due d = Some (s, clock)"
  shows "\<exists>t. toISOString t = Some clock \<and> now < t \<and> (now' < t \<longrightarrow> due d' = due d) \<and> (t \<le> now' \<longrightarrow> s \<in> set (due d'))"
proof -
  obtain ss where pending: "pending_steps ladder fired (elapsedMinutes d) = s # ss"
    using d nxt unfolding decide_Inr by (auto split: list.splits)
  note head = pending_head [OF this]
  obtain t where t: "dueInstant ladder openedAt (thresholdMinutes s) = Inr t" "toISOString t = Some clock"
    using d nxt pending unfolding decide_Inr by auto
  have th: "0 \<le> thresholdMinutes s" using head(3) by auto
  have e: "elapsedOf ladder openedAt now = Inr (elapsedMinutes d)" "openedAt \<le> now"
    "elapsedOf ladder openedAt now' = Inr (elapsedMinutes d')" "openedAt \<le> now'"
    using d d' unfolding decide_Inr by auto
  have "now < t"
    using elapsed_reaches [OF assms(1) e(2) th e(1) t(1)] head(1) by linarith
  moreover have reach: "thresholdMinutes s \<le> elapsedMinutes d' \<longleftrightarrow> t \<le> now'"
    by (rule elapsed_reaches [OF assms(1) e(4) th e(3) t(1)])
  moreover have "s \<in> set (due d')" if "t \<le> now'"
    using d' head that reach unfolding decide_Inr by auto
  moreover have "due d' = due d" if "now' < t"
  proof -
    have mono: "elapsedMinutes d \<le> elapsedMinutes d'" by (rule elapsed_mono [OF e(1) e(3) assms(4)])
    have below: "elapsedMinutes d' < thresholdMinutes s" using reach that by linarith
    have "thresholdMinutes r \<le> elapsedMinutes d' \<and> stepId r \<notin> set fired \<longleftrightarrow>
        thresholdMinutes r \<le> elapsedMinutes d \<and> stepId r \<notin> set fired"
      if "r \<in> set (map resolve (steps ladder))" for r
      using head(4) [OF that] mono below by linarith
    then have "filter (\<lambda>s. thresholdMinutes s \<le> elapsedMinutes d' \<and> stepId s \<notin> set fired) (map resolve (steps ladder))
        = filter (\<lambda>s. thresholdMinutes s \<le> elapsedMinutes d \<and> stepId s \<notin> set fired) (map resolve (steps ladder))"
      by (rule filter_cong [OF refl])
    then show ?thesis using d d' unfolding decide_Inr by simp
  qed
  ultimately show ?thesis using t(2) by blast
qed

end
