(* ===== verification/Notify_Send.thy ===== *)
theory Notify_Send
  imports Notify_Ladder
begin

text \<open>
  Routing and delivery of notifications: \<open>routeNotification\<close> (\<open>packages/notify/src/message.ts\<close>),
  the bounded retry and the fan-out to targets (\<open>retry.ts\<close>). What the driver answers is a parameter: the
  outcome of its n-th attempt at a target.
\<close>

subsection \<open>Routing\<close>

record notify_routing =
  routing_default :: "notify_channel list"
  byEvent :: "notify_event \<rightharpoonup> notify_channel list"

text \<open>\<open>[...new Set(xs)]\<close>: the first occurrence of each.\<close>

fun dedupe :: "'a list \<Rightarrow> 'a list" where
  "dedupe [] = []"
| "dedupe (x # xs) = x # filter (\<lambda>y. y \<noteq> x) (dedupe xs)"

lemma set_dedupe [simp]: "set (dedupe xs) = set xs"
  by (induction xs) auto

lemma distinct_dedupe [simp]: "distinct (dedupe xs)"
  by (induction xs) auto

text \<open>The channel of the draft is the one field routing decides.\<close>

definition routeNotification :: "notify_routing \<Rightarrow> notification \<Rightarrow> notification list \<times> bool" where
  "routeNotification routing draft =
    (let configured = (case byEvent routing (n_event draft) of Some cs \<Rightarrow> cs | None \<Rightarrow> routing_default routing);
         channels = dedupe configured
     in (map (\<lambda>c. draft\<lparr>n_channel := c\<rparr>) channels, channels = []))"

lemma routeNotification_channels:
  "map n_channel (fst (routeNotification routing draft)) =
    dedupe (case byEvent routing (n_event draft) of Some cs \<Rightarrow> cs | None \<Rightarrow> routing_default routing)"
  by (simp add: routeNotification_def Let_def o_def)

subsection \<open>Retry\<close>

record retry_policy =
  maxAttempts :: nat
  baseDelayMs :: nat
  maxDelayMs :: nat

definition retry_policy_ok :: "retry_policy \<Rightarrow> bool" where
  "retry_policy_ok p \<longleftrightarrow> 1 \<le> maxAttempts p \<and> maxAttempts p \<le> 10 \<and> baseDelayMs p \<le> 60000 \<and> maxDelayMs p \<le> 300000"

definition backoffMs :: "retry_policy \<Rightarrow> nat \<Rightarrow> nat option \<Rightarrow> nat" where
  "backoffMs policy attempt retryAfterMs =
    (let exponential = baseDelayMs policy * 2 ^ (attempt - 1);
         wanted = (case retryAfterMs of Some r \<Rightarrow> if r > exponential then r else exponential | None \<Rightarrow> exponential)
     in min wanted (maxDelayMs policy))"

text \<open>A permanent failure is any error that is not a \<open>NotifyTransientError\<close>.\<close>

datatype attempt_outcome = Sent | Transient "nat option" | Permanent

text \<open>\<open>NotifyDeliveryError\<close>: the attempts made and the last failure.\<close>

record delivery_error =
  attempts :: nat
  cause :: attempt_outcome

text \<open>The sleeps taken, and how the loop ended; \<open>left\<close> counts the attempts that remain.\<close>

fun retry_loop :: "retry_policy \<Rightarrow> (nat \<Rightarrow> attempt_outcome) \<Rightarrow> nat \<Rightarrow> nat \<Rightarrow> nat list \<times> (delivery_error + nat)" where
  "retry_loop policy attempt n 0 = ([], Inl \<lparr>attempts = n, cause = attempt n\<rparr>)"
| "retry_loop policy attempt n (Suc left) =
    (case attempt n of
       Sent \<Rightarrow> ([], Inr n)
     | Permanent \<Rightarrow> ([], Inl \<lparr>attempts = n, cause = Permanent\<rparr>)
     | Transient after \<Rightarrow>
         if left = 0 then ([], Inl \<lparr>attempts = n, cause = Transient after\<rparr>)
         else (let (sleeps, r) = retry_loop policy attempt (n + 1) left in (backoffMs policy n after # sleeps, r)))"

definition sendWithRetry :: "retry_policy \<Rightarrow> (nat \<Rightarrow> attempt_outcome) \<Rightarrow> nat list \<times> (delivery_error + nat)" where
  "sendWithRetry policy attempt = retry_loop policy attempt 1 (max 1 (maxAttempts policy))"

definition sendToEachTarget ::
  "retry_policy \<Rightarrow> (string \<Rightarrow> nat \<Rightarrow> attempt_outcome) \<Rightarrow> string list \<Rightarrow> (string \<times> delivery_error) list" where
  "sendToEachTarget policy attempt targets =
    concat (map (\<lambda>t. case snd (sendWithRetry policy (attempt t)) of Inl e \<Rightarrow> [(t, e)] | Inr _ \<Rightarrow> []) (dedupe targets))"

lemma retry_loop_spec:
  assumes "0 < left" "n + left = Suc m"
  shows "case snd (retry_loop policy attempt n left) of
      Inr k \<Rightarrow> n \<le> k \<and> k \<le> m \<and> attempt k = Sent \<and> (\<forall>i \<in> {n..<k}. \<exists>a. attempt i = Transient a)
    | Inl e \<Rightarrow> n \<le> attempts e \<and> attempts e \<le> m \<and> cause e = attempt (attempts e) \<and>
        (\<forall>i \<in> {n..<attempts e}. \<exists>a. attempt i = Transient a) \<and>
        (attempt (attempts e) = Permanent \<or> (attempts e = m \<and> (\<exists>a. attempt m = Transient a)))"
  using assms
proof (induction policy attempt n left rule: retry_loop.induct)
  case (2 policy attempt n left)
  show ?case
  proof (cases "attempt n")
    case (Transient after)
    show ?thesis
    proof (cases "left = 0")
      case True
      then show ?thesis using Transient 2 by simp
    next
      case False
      have range: "{n..<k} = insert n {n + 1..<k}" if "n + 1 \<le> k" for k using that by auto
      show ?thesis
        using "2.IH" [OF Transient False] False "2.prems" Transient
        by (auto simp: range split: sum.splits prod.splits)
    qed
  qed (use 2 in simp_all)
qed simp

text \<open>
  The loop in one sentence each way: it succeeds with the first attempt that is sent, if only
  transient failures come before it and it is within the limit; otherwise it reports the failure.
\<close>

lemma sendWithRetry_sent:
  assumes "attempt k = Sent" "1 \<le> k" "k \<le> max 1 (maxAttempts policy)" "\<forall>i \<in> {1..<k}. \<exists>a. attempt i = Transient a"
  shows "snd (sendWithRetry policy attempt) = Inr k"
proof -
  have spec: "case snd (sendWithRetry policy attempt) of
      Inr j \<Rightarrow> 1 \<le> j \<and> attempt j = Sent \<and> (\<forall>i \<in> {1..<j}. \<exists>a. attempt i = Transient a)
    | Inl e \<Rightarrow> 1 \<le> attempts e \<and> attempts e \<le> max 1 (maxAttempts policy) \<and>
        (\<forall>i \<in> {1..<attempts e}. \<exists>a. attempt i = Transient a) \<and>
        (attempt (attempts e) = Permanent \<or> (attempts e = max 1 (maxAttempts policy) \<and> (\<exists>a. attempt (max 1 (maxAttempts policy)) = Transient a)))"
    using retry_loop_spec [where left = "max 1 (maxAttempts policy)" and n = 1 and m = "max 1 (maxAttempts policy)"
        and policy = policy and attempt = attempt]
    unfolding sendWithRetry_def by (auto split: sum.splits)
  show ?thesis
  proof (cases "snd (sendWithRetry policy attempt)")
    case (Inr j)
    then have j: "1 \<le> j" "attempt j = Sent" "\<forall>i \<in> {1..<j}. \<exists>a. attempt i = Transient a" using spec by auto
    consider "j < k" | "k < j" | "j = k" by linarith
    then show ?thesis
    proof cases
      case 1
      then have "\<exists>a. attempt j = Transient a" using assms(4) j(1) by simp
      then show ?thesis using j(2) by simp
    next
      case 2
      then have "\<exists>a. attempt k = Transient a" using j(3) assms(2) by simp
      then show ?thesis using assms(1) by simp
    qed (use Inr in simp)
  next
    case (Inl e)
    then have e: "1 \<le> attempts e" "attempts e \<le> max 1 (maxAttempts policy)"
      "\<forall>i \<in> {1..<attempts e}. \<exists>a. attempt i = Transient a"
      "attempt (attempts e) = Permanent \<or> (attempts e = max 1 (maxAttempts policy) \<and> (\<exists>a. attempt (max 1 (maxAttempts policy)) = Transient a))"
      using spec by auto
    consider "attempts e < k" | "k < attempts e" | "attempts e = k" by linarith
    then show ?thesis
    proof cases
      case 1
      then have "\<exists>a. attempt (attempts e) = Transient a" using assms(4) e(1) by simp
      then show ?thesis using 1 e(4) assms(3) by auto
    next
      case 2
      then have "\<exists>a. attempt k = Transient a" using e(3) assms(2) by simp
      then show ?thesis using assms(1) by simp
    next
      case 3
      then show ?thesis using e(4) assms(1) by auto
    qed
  qed
qed

lemma retry_sleeps_bounded:
  "\<forall>s \<in> set (fst (retry_loop policy attempt n left)). s \<le> maxDelayMs policy"
  by (induction policy attempt n left rule: retry_loop.induct)
    (auto simp: backoffMs_def Let_def split: attempt_outcome.splits prod.splits)

lemma retry_sleeps_count: "length (fst (retry_loop policy attempt n left)) \<le> left - 1"
  by (induction policy attempt n left rule: retry_loop.induct)
    (auto split: attempt_outcome.splits prod.splits)

lemma fanout_targets:
  "fst ` set (sendToEachTarget policy attempt targets) =
    {t \<in> set targets. \<exists>e. snd (sendWithRetry policy (attempt t)) = Inl e}"
  "distinct (map fst (sendToEachTarget policy attempt targets))"
proof -
  let ?f = "\<lambda>t. case snd (sendWithRetry policy (attempt t)) of Inl e \<Rightarrow> [(t, e)] | Inr _ \<Rightarrow> []"
  have fst_f: "map fst (concat (map ?f ts)) = filter (\<lambda>t. \<exists>e. snd (sendWithRetry policy (attempt t)) = Inl e) ts" for ts
    by (induction ts) (auto split: sum.splits)
  show "fst ` set (sendToEachTarget policy attempt targets) =
    {t \<in> set targets. \<exists>e. snd (sendWithRetry policy (attempt t)) = Inl e}"
    using arg_cong [where f = set, OF fst_f [of "dedupe targets"]] by (auto simp: sendToEachTarget_def)
  show "distinct (map fst (sendToEachTarget policy attempt targets))"
    unfolding sendToEachTarget_def fst_f by simp
qed

end
