(* ===== verification/Notify_Smtp_Wire.thy ===== *)
theory Notify_Smtp_Wire
  imports Notify_Instant "HOL-Library.Sublist"
begin

text \<open>
  The wire format of the mail driver, \<open>packages/notify/src/smtp-protocol.ts\<close>: reading replies from
  a byte stream and building the message that follows \<open>DATA\<close>. Strings are byte strings (UTF-8). The
  specification of the message is the reader of the other side, \<open>relay_data\<close> (RFC 5321, 4.5.2).
\<close>

lemma dropWhile_shorter [termination_simp]: "length (dropWhile P s) < Suc (length s)"
  by (simp add: le_imp_less_Suc length_dropWhile_le)

subsection \<open>Replies\<close>

definition LF :: char where "LF = CHR 0x0A"
definition CR :: char where "CR = CHR 0x0D"
definition MAX_REPLY_LINES :: nat where "MAX_REPLY_LINES = 200"
definition MAX_LINE_BYTES :: nat where "MAX_LINE_BYTES = 4096"

record smtp_reply =
  reply_code :: nat
  reply_lines :: "string list"

text \<open>What a read of the socket answers; after the last entry the connection is closed.\<close>

datatype read_result = Bytes string | ReadFails

record reader =
  reader_buffer :: string
  reads :: "read_result list"

text \<open>An error carries its text. Any of them, a failing read included, becomes a transient failure.\<close>

fun nextLine :: "string \<Rightarrow> read_result list \<Rightarrow> (string + string) \<times> reader" where
  "nextLine buffer rs =
    (if LF \<in> set buffer
     then let line = takeWhile (\<lambda>c. c \<noteq> LF) buffer
       in (Inr (if line \<noteq> [] \<and> last line = CR then butlast line else line),
           \<lparr>reader_buffer = tl (dropWhile (\<lambda>c. c \<noteq> LF) buffer), reads = rs\<rparr>)
     else if length buffer > MAX_LINE_BYTES then (Inl ''reply line too long'', \<lparr>reader_buffer = buffer, reads = rs\<rparr>)
     else case rs of
       [] \<Rightarrow> (Inl ''connection closed mid-reply'', \<lparr>reader_buffer = buffer, reads = []\<rparr>)
     | ReadFails # rs' \<Rightarrow> (Inl ''read failed'', \<lparr>reader_buffer = buffer, reads = rs'\<rparr>)
     | Bytes chunk # rs' \<Rightarrow> nextLine (buffer @ chunk) rs')"

declare nextLine.simps [simp del]

text \<open>\<open>room\<close> is how many lines may still follow the one being read.\<close>

fun read_reply :: "nat \<Rightarrow> nat option \<Rightarrow> string list \<Rightarrow> reader \<Rightarrow> (string + smtp_reply) \<times> reader" where
  "read_reply room code ls r =
    (case nextLine (reader_buffer r) (reads r) of
       (Inl e, r) \<Rightarrow> (Inl e, r)
     | (Inr line, r) \<Rightarrow>
        (let parsed = undec (take 3 line) in
         if length line < 3 then (Inl ''reply line too short'', r)
         else if \<not> list_all is_digit (take 3 line) then (Inl ''unparsable reply code'', r)
         else if length line > 3 \<and> line ! 3 \<noteq> CHR '' '' \<and> line ! 3 \<noteq> CHR ''-''
           then (Inl ''reply code is not followed by SP or dash'', r)
         else if parsed < 100 \<or> parsed > 599 then (Inl ''reply code out of range'', r)
         else if code \<noteq> None \<and> code \<noteq> Some parsed then (Inl ''reply code changed mid-reply'', r)
         else let ls = ls @ [trim (drop 4 line)] in
           case room of
             0 \<Rightarrow> (Inl ''reply has too many lines'', r)
           | Suc room \<Rightarrow>
               if length line = 3 \<or> line ! 3 \<noteq> CHR ''-''
               then (Inr \<lparr>reply_code = parsed, reply_lines = ls\<rparr>, r)
               else read_reply room (Some parsed) ls r))"

declare read_reply.simps [simp del]

definition nextReply :: "reader \<Rightarrow> (string + smtp_reply) \<times> reader" where
  "nextReply r = read_reply MAX_REPLY_LINES None [] r"

subsection \<open>Capabilities\<close>

text \<open>\<open>split(/\s+/)\<close> of a trimmed line.\<close>

fun words :: "string \<Rightarrow> string \<Rightarrow> string list" where
  "words acc [] = [rev acc]"
| "words acc (c # s) = (if is_space c then rev acc # words [] (dropWhile is_space s) else words (c # acc) s)"

text \<open>Upper case of the ASCII letters, which is what a keyword of the protocol consists of.\<close>

definition upper_char :: "char \<Rightarrow> char" where
  "upper_char c = (if is_lower c then char_of (of_char c - 32 :: nat) else c)"

definition toUpper :: "string \<Rightarrow> string" where
  "toUpper s = map upper_char s"

definition parseCapabilities :: "string list \<Rightarrow> (string \<rightharpoonup> string list)" where
  "parseCapabilities ls = foldl (\<lambda>caps line.
      (case words [] (trim line) of
         keyword # parts \<Rightarrow> if keyword \<noteq> [] then caps(toUpper keyword \<mapsto> map toUpper parts) else caps
       | [] \<Rightarrow> caps)) Map.empty (drop 1 ls)"

subsection \<open>Base64\<close>

definition base64_char :: "nat \<Rightarrow> char" where
  "base64_char n = (if n < 26 then char_of (65 + n) else if n < 52 then char_of (71 + n)
     else if n < 62 then char_of (n - 4) else if n = 62 then CHR ''+'' else CHR ''/'')"

fun base64 :: "string \<Rightarrow> string" where
  "base64 [] = []"
| "base64 [a] = (let n = of_char a in [base64_char (n div 4), base64_char (n mod 4 * 16), CHR ''='', CHR ''=''])"
| "base64 [a, b] = (let n = of_char a * 256 + of_char b in
     [base64_char (n div 1024), base64_char (n div 16 mod 64), base64_char (n mod 16 * 4), CHR ''=''])"
| "base64 (a # b # c # s) = (let n = of_char a * 65536 + of_char b * 256 + of_char c in
     base64_char (n div 262144) # base64_char (n div 4096 mod 64) # base64_char (n div 64 mod 64)
       # base64_char (n mod 64) # base64 s)"

subsection \<open>The message\<close>

definition CRLF :: string where "CRLF = [CR, LF]"

record mail_message =
  mail_from :: string
  fromName :: "string option"
  mail_to :: "string list"
  subject :: string
  body :: string
  date :: int
  messageId :: string

definition DAYS :: "string list" where
  "DAYS = [''Sun'', ''Mon'', ''Tue'', ''Wed'', ''Thu'', ''Fri'', ''Sat'']"

definition MONTHS :: "string list" where
  "MONTHS = [''Jan'', ''Feb'', ''Mar'', ''Apr'', ''May'', ''Jun'', ''Jul'', ''Aug'', ''Sep'', ''Oct'', ''Nov'', ''Dec'']"

text \<open>1970-01-01 was a Thursday.\<close>

definition formatDate :: "int \<Rightarrow> string" where
  "formatDate ms =
    (let day = ms div DAY_MS; t = ms mod DAY_MS in
     case date_of_day day of (y, m, d) \<Rightarrow>
       DAYS ! nat ((day + 4) mod 7) @ '', '' @ pad2 d @ '' '' @ MONTHS ! nat (m - 1) @ '' ''
       @ (if y < 0 then CHR ''-'' # dec (nat (- y)) else dec (nat y)) @ '' '' @ pad2 (t div 3600000) @ '':''
       @ pad2 (t div 60000 mod 60) @ '':'' @ pad2 (t div 1000 mod 60) @ '' +0000'')"

text \<open>The characters of a UTF-8 text: a byte that does not continue one, with those that do.\<close>

definition is_continuation :: "char \<Rightarrow> bool" where
  "is_continuation c \<longleftrightarrow> 0x80 \<le> (of_char c :: nat) \<and> (of_char c :: nat) < 0xC0"

fun code_points :: "string \<Rightarrow> string list" where
  "code_points [] = []"
| "code_points (c # s) = (c # takeWhile is_continuation s) # code_points (dropWhile is_continuation s)"

definition printable :: "char \<Rightarrow> bool" where
  "printable c \<longleftrightarrow> 0x20 \<le> (of_char c :: nat) \<and> (of_char c :: nat) \<le> 0x7E"

text \<open>One step of the loop: the finished words and the current chunk.\<close>

definition add_char :: "string list \<times> string \<Rightarrow> string \<Rightarrow> string list \<times> string" where
  "add_char st char = (case st of (ws, chunk) \<Rightarrow>
     if length (chunk @ char) > 45 then (ws @ [chunk], char) else (ws, chunk @ char))"

definition encodeHeaderWord :: "string \<Rightarrow> string" where
  "encodeHeaderWord s =
    (if list_all printable s then s
     else (case foldl add_char ([], []) (code_points s) of (ws, chunk) \<Rightarrow>
       join (CRLF @ '' '') (map (\<lambda>w. ''=?UTF-8?B?'' @ base64 w @ ''?='')
         (ws @ (if chunk = [] then [] else [chunk])))))"

definition headerSafe :: "string \<Rightarrow> bool" where
  "headerSafe v \<longleftrightarrow> CR \<notin> set v \<and> LF \<notin> set v"

text \<open>
  \<open>/^\./gm\<close>: a dot at the start or after a line terminator, which in JavaScript are LF, CR and the
  separators U+2028 and U+2029 (three bytes). \<open>before\<close> is the text before, reversed.
\<close>

definition line_start :: "string \<Rightarrow> bool" where
  "line_start before \<longleftrightarrow> before = [] \<or> hd before = LF \<or> hd before = CR \<or>
     take 3 before = [CHR 0xA8, CHR 0x80, CHR 0xE2] \<or> take 3 before = [CHR 0xA9, CHR 0x80, CHR 0xE2]"

fun dot_stuff :: "string \<Rightarrow> string \<Rightarrow> string" where
  "dot_stuff before [] = []"
| "dot_stuff before (c # s) =
    (if c = CHR ''.'' \<and> line_start before then CHR ''.'' # CHR ''.'' # dot_stuff (c # before) s
     else c # dot_stuff (c # before) s)"

definition dotStuff :: "string \<Rightarrow> string" where
  "dotStuff s = dot_stuff [] s"

text \<open>\<open>match(/.{1,76}/g) ?? [""]\<close> on base64, which has no line terminator.\<close>

fun chunks76 :: "string \<Rightarrow> string list" where
  "chunks76 s = (if length s \<le> 76 then [s] else take 76 s # chunks76 (drop 76 s))"

declare chunks76.simps [simp del]

definition base64Lines :: "string \<Rightarrow> string" where
  "base64Lines s = join CRLF (chunks76 (base64 s))"

definition domain_of :: "string \<Rightarrow> string" where
  "domain_of a = (if CHR ''@'' \<in> set a
     then takeWhile (\<lambda>c. c \<noteq> CHR ''@'') (tl (dropWhile (\<lambda>c. c \<noteq> CHR ''@'') a)) else ''localhost'')"

definition mail_headers :: "mail_message \<Rightarrow> string list" where
  "mail_headers mail =
    [''From: '' @ (case fromName mail of
        Some (c # n) \<Rightarrow> encodeHeaderWord (c # n) @ '' <'' @ mail_from mail @ ''>''
      | _ \<Rightarrow> mail_from mail),
     ''To: '' @ join '', '' (mail_to mail),
     ''Subject: '' @ encodeHeaderWord (subject mail),
     ''Date: '' @ formatDate (date mail),
     ''Message-ID: <'' @ messageId mail @ ''@'' @ domain_of (mail_from mail) @ ''>'',
     ''MIME-Version: 1.0'',
     ''Content-Type: text/plain; charset='' @ CHR 0x22 # ''utf-8'' @ [CHR 0x22],
     ''Content-Transfer-Encoding: base64'']"

definition mail_text :: "mail_message \<Rightarrow> string" where
  "mail_text mail = join CRLF (mail_headers mail) @ CRLF @ CRLF @ base64Lines (body mail)"

text \<open>The refusals name the field.\<close>

definition buildMimeMessage :: "mail_message \<Rightarrow> string + string" where
  "buildMimeMessage mail =
    (if \<not> headerSafe (mail_from mail) then Inl ''From''
     else if \<not> (case fromName mail of Some n \<Rightarrow> headerSafe n | None \<Rightarrow> True) then Inl ''From (display name)''
     else if \<not> headerSafe (subject mail) then Inl ''Subject''
     else if \<not> list_all headerSafe (mail_to mail) then Inl ''To''
     else Inr (dotStuff (mail_text mail)))"

subsection \<open>Specification: the relay's reader\<close>

text \<open>
  The relay reads lines ended by CRLF until one is a single dot, and removes one leading dot of any
  other. The result is the lines and what follows in the stream.
\<close>

fun split_crlf :: "string \<Rightarrow> string \<Rightarrow> (string \<times> string) option" where
  "split_crlf acc [] = None"
| "split_crlf acc [c] = None"
| "split_crlf acc (c # d # s) = (if c = CR \<and> d = LF then Some (rev acc, s) else split_crlf (c # acc) (d # s))"

lemma split_crlf_length: "split_crlf acc s = Some (l, r) \<Longrightarrow> length r < length s"
  by (induction acc s rule: split_crlf.induct) (auto split: if_splits)

function relay_data :: "string \<Rightarrow> (string list \<times> string) option" where
  "relay_data s = (case split_crlf [] s of
     None \<Rightarrow> None
   | Some (line, rest) \<Rightarrow>
       if line = ''.'' then Some ([], rest)
       else (case relay_data rest of
         None \<Rightarrow> None
       | Some (ls, after) \<Rightarrow> Some ((if line \<noteq> [] \<and> hd line = CHR ''.'' then tl line else line) # ls, after)))"
  by auto
termination
  by (relation "measure length") (auto dest: split_crlf_length)

declare relay_data.simps [simp del]

lemma split_crlf_line:
  "CR \<notin> set l \<Longrightarrow> split_crlf acc (l @ CRLF @ s) = Some (rev acc @ l, s)"
proof (induction l arbitrary: acc)
  case Nil
  then show ?case by (simp add: CRLF_def)
next
  case (Cons c l)
  then obtain d t where "l @ CRLF @ s = d # t" by (cases "l @ CRLF @ s") (auto simp: CRLF_def)
  then show ?case using Cons.IH [of "c # acc"] Cons.prems by auto
qed

text \<open>Stuffing one line, and a text of lines without terminators inside.\<close>

definition stuff_line :: "string \<Rightarrow> string" where
  "stuff_line l = (if l \<noteq> [] \<and> hd l = CHR ''.'' then CHR ''.'' # l else l)"

text \<open>A text with no line terminator of JavaScript.\<close>

definition separators :: "string list" where
  "separators = [[CHR 0xE2, CHR 0x80, CHR 0xA8], [CHR 0xE2, CHR 0x80, CHR 0xA9]]"

definition no_separator :: "string \<Rightarrow> bool" where
  "no_separator l \<longleftrightarrow> (\<forall>p \<in> set separators. \<not> sublist p l)"

definition plain_line :: "string \<Rightarrow> bool" where
  "plain_line l \<longleftrightarrow> headerSafe l \<and> no_separator l"

lemma dot_not_end [simp]: "CHR ''.'' \<noteq> LF" "CHR ''.'' \<noteq> CR" "CR \<noteq> LF" "LF \<noteq> CR"
  "LF \<noteq> CHR ''.''" "CR \<noteq> CHR ''.''"
  by (simp_all add: LF_def CR_def)

lemma line_start_sep:
  "line_start before \<longleftrightarrow> before = [] \<or> hd before = LF \<or> hd before = CR \<or> rev (take 3 before) \<in> set separators"
  by (auto simp: line_start_def separators_def rev_swap)

lemma inside_line:
  assumes "plain_line (p @ l)" "p \<noteq> []" "before = [] \<or> hd before = LF \<or> hd before = CR"
  shows "\<not> line_start (rev p @ before)"
proof
  assume start: "line_start (rev p @ before)"
  have hd: "hd (rev p @ before) \<in> set p" using assms(2) by (simp add: hd_rev)
  then have "rev (take 3 (rev p @ before)) \<in> set separators"
    using start assms(1,2) unfolding line_start_sep by (auto simp: plain_line_def headerSafe_def)
  then obtain sep where sep: "sep \<in> set separators" "rev (take 3 (rev p @ before)) = sep" by blast
  have len: "length sep = 3" and clean: "CR \<notin> set sep" "LF \<notin> set sep"
    using sep(1) by (auto simp: separators_def CR_def LF_def)
  have "3 \<le> length p"
  proof (rule ccontr)
    assume short: "\<not> 3 \<le> length p"
    then have take3: "take 3 (rev p @ before) = rev p @ take (3 - length p) before" by simp
    have "before \<noteq> []" using sep(2) len short by auto
    then have "hd before \<in> set (take (3 - length p) before)"
      using short by (cases before) (simp_all add: take_Cons')
    then have "hd before \<in> set sep" unfolding sep(2) [symmetric] take3 by simp
    then show False using assms(3) \<open>before \<noteq> []\<close> clean by auto
  qed
  then have "sep = drop (length p - 3) p"
    using sep(2) by (simp add: rev_take)
  then have "sublist sep (p @ l)"
    unfolding sublist_def by (intro exI [of _ "take (length p - 3) p"] exI [of _ l]) simp
  then show False using assms(1) sep(1) by (auto simp: plain_line_def no_separator_def)
qed

lemma dot_stuff_inside:
  assumes "plain_line (p @ l)" "p \<noteq> []" "before = [] \<or> hd before = LF \<or> hd before = CR"
  shows "dot_stuff (rev p @ before) (l @ s) = l @ dot_stuff (rev (p @ l) @ before) s"
  using assms(1,2)
proof (induction l arbitrary: p)
  case (Cons c l)
  then have "\<not> line_start (rev p @ before)" using inside_line assms(3) by blast
  then show ?case using Cons.IH [of "p @ [c]"] Cons.prems by simp
qed simp

lemma dot_stuff_line:
  assumes "plain_line l" "before = [] \<or> hd before = LF \<or> hd before = CR"
  shows "dot_stuff before (l @ s) = stuff_line l @ dot_stuff (rev l @ before) s"
proof (cases l)
  case (Cons c l')
  have start: "line_start before" using assms(2) by (auto simp: line_start_def)
  have "dot_stuff (rev [c] @ before) (l' @ s) = l' @ dot_stuff (rev ([c] @ l') @ before) s"
    using assms Cons by (intro dot_stuff_inside) simp_all
  then show ?thesis using Cons start by (cases "c = CHR ''.''") (simp_all add: stuff_line_def)
qed (simp add: stuff_line_def)

lemma dot_stuff_lines:
  "list_all plain_line ls \<Longrightarrow> ls \<noteq> [] \<Longrightarrow> before = [] \<or> hd before = LF \<or> hd before = CR \<Longrightarrow>
    dot_stuff before (join CRLF ls) = join CRLF (map stuff_line ls)"
proof (induction ls arbitrary: before rule: induct_list012)
  case (2 l)
  then show ?case using dot_stuff_line [of l before "[]"] by simp
next
  case (3 l k ls)
  have "dot_stuff before (l @ CRLF @ join CRLF (k # ls)) =
      stuff_line l @ dot_stuff (rev l @ before) (CRLF @ join CRLF (k # ls))"
    using 3 by (intro dot_stuff_line) simp_all
  also have "dot_stuff (rev l @ before) (CRLF @ join CRLF (k # ls)) =
      CRLF @ dot_stuff (LF # CR # rev l @ before) (join CRLF (k # ls))"
    by (simp add: CRLF_def LF_def CR_def)
  also have "dot_stuff (LF # CR # rev l @ before) (join CRLF (k # ls)) = join CRLF (map stuff_line (k # ls))"
    using 3 by (intro "3.IH"(2)) simp_all
  finally show ?case by simp
qed simp

lemma relay_line:
  assumes "plain_line l"
  shows "relay_data (stuff_line l @ CRLF @ s) =
    (case relay_data s of None \<Rightarrow> None | Some (ls, after) \<Rightarrow> Some (l # ls, after))"
proof -
  have "CR \<notin> set (stuff_line l)" using assms by (auto simp: plain_line_def headerSafe_def stuff_line_def)
  then have split: "split_crlf [] (stuff_line l @ CRLF @ s) = Some (stuff_line l, s)"
    using split_crlf_line [of "stuff_line l" "[]" s] by simp
  have dot: "(stuff_line l = ''.'') = False" by (auto simp: stuff_line_def)
  have line: "(if stuff_line l \<noteq> [] \<and> hd (stuff_line l) = CHR ''.'' then tl (stuff_line l) else stuff_line l) = l"
    by (auto simp: stuff_line_def)
  show ?thesis by (subst relay_data.simps) (simp only: split option.case prod.case dot line if_False)
qed

lemma relay_end: "relay_data (''.'' @ CRLF @ after) = Some ([], after)"
  using split_crlf_line [of "''.''" "[]" after] by (subst relay_data.simps) simp

lemma relay_reads_lines:
  "list_all plain_line ls \<Longrightarrow> ls \<noteq> [] \<Longrightarrow>
    relay_data (join CRLF (map stuff_line ls) @ CRLF @ ''.'' @ CRLF @ after) = Some (ls, after)"
proof (induction ls rule: induct_list012)
  case (2 l)
  then show ?case using relay_line [of l "''.'' @ CRLF @ after"] relay_end [of after] by simp
next
  case (3 l k ls)
  then show ?case
    using relay_line [of l "join CRLF (map stuff_line (k # ls)) @ CRLF @ ''.'' @ CRLF @ after"] by simp
qed simp


subsection \<open>The message consists of plain lines\<close>

lemma printable_safe: "list_all printable l \<Longrightarrow> plain_line l"
proof -
  assume l: "list_all printable l"
  then have small: "c \<in> set l \<Longrightarrow> 32 \<le> (of_char c :: nat) \<and> (of_char c :: nat) \<le> 126" for c
    by (auto simp: list_all_iff printable_def)
  have "headerSafe l"
    using small [of CR] small [of LF] by (auto simp: headerSafe_def CR_def LF_def)
  moreover have "no_separator l"
    unfolding no_separator_def
  proof
    fix sep assume "sep \<in> set separators"
    then have "CHR 0xE2 \<in> set sep" by (auto simp: separators_def)
    then show "\<not> sublist sep l" using small [of "CHR 0xE2"] set_mono_sublist [of sep l] by auto
  qed
  ultimately show ?thesis by (simp add: plain_line_def)
qed

lemma separator_bytes: "sep \<in> set separators \<Longrightarrow> c \<in> set sep \<Longrightarrow> \<not> printable c"
  by (auto simp: separators_def printable_def)

text \<open>A separator cannot reach across a printable character.\<close>

lemma sublist_cut:
  assumes "c \<notin> set sep" "sep \<noteq> []"
  shows "sublist sep (l @ c # r) \<longleftrightarrow> sublist sep l \<or> sublist sep r"
proof
  assume "sublist sep (l @ c # r)"
  then obtain x y where "x @ (sep @ y) = l @ (c # r)" by (auto simp: sublist_def)
  then consider us where "x = l @ us" "us @ sep @ y = c # r" | us where "x @ us = l" "sep @ y = us @ c # r"
    by (auto simp: append_eq_append_conv2)
  then show "sublist sep l \<or> sublist sep r"
  proof cases
    case 1
    then have "us \<noteq> []" using assms by (cases sep) auto
    then obtain us' where "us' @ sep @ y = r" using 1 by (cases us) auto
    then show ?thesis by (auto simp: sublist_def)
  next
    case 2
    then consider vs where "sep = us @ vs" "vs @ y = c # r" | vs where "sep @ vs = us" "y = vs @ c # r"
      by (auto simp: append_eq_append_conv2)
    then show ?thesis
    proof cases
      case (1 vs)
      then have "vs = []" using assms by (cases vs) auto
      then have "l = x @ sep @ []" using 1 2 by simp
      then show ?thesis unfolding sublist_def by blast
    next
      case (2 vs)
      then show ?thesis using \<open>x @ us = l\<close> by (auto simp: sublist_def)
    qed
  qed
next
  assume "sublist sep l \<or> sublist sep r"
  moreover have "sublist sep l \<Longrightarrow> sublist sep (l @ c # r)"
    by (auto simp: sublist_def) (metis append_assoc)
  moreover have "sublist sep r \<Longrightarrow> sublist sep (l @ c # r)"
    by (auto simp: sublist_def) (metis append_assoc append_Cons)
  ultimately show "sublist sep (l @ c # r)" by blast
qed

lemma no_separator_cut: "printable c \<Longrightarrow> no_separator (l @ c # r) \<longleftrightarrow> no_separator l \<and> no_separator r"
proof -
  assume c: "printable c"
  have "sublist sep (l @ c # r) \<longleftrightarrow> sublist sep l \<or> sublist sep r" if "sep \<in> set separators" for sep
    using that c separator_bytes [OF that, of c] by (intro sublist_cut) (auto simp: separators_def)
  then show ?thesis unfolding no_separator_def by blast
qed

lemma headerSafe_append [simp]: "headerSafe (l @ r) \<longleftrightarrow> headerSafe l \<and> headerSafe r"
  by (auto simp: headerSafe_def)

lemma plain_prepend: "list_all printable q \<Longrightarrow> plain_line l \<Longrightarrow> plain_line (q @ l)"
proof (induction q)
  case (Cons c q)
  then have "no_separator ([] @ c # (q @ l))" by (subst no_separator_cut) (auto simp: plain_line_def no_separator_def separators_def)
  then show ?case
    using Cons printable_safe [of "c # q"] by (auto simp: plain_line_def headerSafe_def)
qed simp

lemma plain_between:
  assumes "plain_line l" "list_all printable q" "q \<noteq> []" "plain_line r"
  shows "plain_line (l @ q @ r)"
proof -
  obtain c q' where q: "q = c # q'" using assms(3) by (cases q) auto
  have "plain_line (q' @ r)" using assms q by (intro plain_prepend) simp_all
  then have "no_separator (l @ c # (q' @ r))"
    using assms(1,2) q by (subst no_separator_cut) (simp_all add: plain_line_def)
  then show ?thesis using assms printable_safe [of q] q by (simp add: plain_line_def headerSafe_def)
qed

lemma plain_Nil [simp]: "plain_line []"
  by (simp add: printable_safe)

lemma plain_append: "plain_line l \<Longrightarrow> list_all printable q \<Longrightarrow> plain_line (l @ q)"
  using plain_between [of l q "[]"] by (cases "q = []") auto

subsection \<open>Texts of plain lines\<close>

definition plain_lines :: "string \<Rightarrow> bool" where
  "plain_lines s \<longleftrightarrow> (\<exists>ls. ls \<noteq> [] \<and> list_all plain_line ls \<and> join CRLF ls = s)"

lemma join_concat: "join c (x # xs) = x @ concat (map (\<lambda>y. c @ y) xs)"
  by (induction xs arbitrary: x) simp_all

lemma plain_linesI: "ls \<noteq> [] \<Longrightarrow> list_all plain_line ls \<Longrightarrow> plain_lines (join CRLF ls)"
  by (auto simp: plain_lines_def)

lemma plain_lines_line: "plain_line l \<Longrightarrow> plain_lines l"
  using plain_linesI [of "[l]"] by simp

lemma plain_lines_crlf: "plain_lines a \<Longrightarrow> plain_lines b \<Longrightarrow> plain_lines (a @ CRLF @ b)"
proof -
  assume "plain_lines a" "plain_lines b"
  then obtain x xs y ys where l: "list_all plain_line (x # xs)" "join CRLF (x # xs) = a"
    "list_all plain_line (y # ys)" "join CRLF (y # ys) = b"
    unfolding plain_lines_def by (metis neq_Nil_conv)
  have "join CRLF ((x # xs) @ y # ys) = a @ CRLF @ b"
    using l(2,4) by (simp add: join_concat flip: append_assoc) (auto simp: join_concat)
  then show ?thesis using l plain_linesI [of "(x # xs) @ y # ys"] by simp
qed

lemma plain_lines_prepend: "list_all printable q \<Longrightarrow> plain_lines a \<Longrightarrow> plain_lines (q @ a)"
proof -
  assume q: "list_all printable q" and "plain_lines a"
  then obtain x xs where l: "list_all plain_line (x # xs)" "join CRLF (x # xs) = a"
    unfolding plain_lines_def by (metis neq_Nil_conv)
  have "join CRLF ((q @ x) # xs) = q @ a" using l(2) by (simp add: join_concat)
  then show ?thesis using l q plain_linesI [of "(q @ x) # xs"] by (auto intro: plain_prepend)
qed

lemma plain_lines_append_line:
  assumes "plain_lines a" "list_all printable q" "q \<noteq> []" "plain_line r"
  shows "plain_lines (a @ q @ r)"
proof -
  obtain x xs where l: "list_all plain_line (x # xs)" "join CRLF (x # xs) = a"
    using assms(1) unfolding plain_lines_def by (metis neq_Nil_conv)
  show ?thesis
  proof (cases xs rule: rev_cases)
    case Nil
    then show ?thesis using l assms by (auto intro: plain_lines_line plain_between)
  next
    case (snoc xs' z)
    have "join CRLF (x # xs' @ [z @ q @ r]) = a @ q @ r" using l(2) snoc by (auto simp: join_concat)
    moreover have "list_all plain_line (x # xs' @ [z @ q @ r])"
      using l(1) snoc assms by (auto intro: plain_between)
    ultimately show ?thesis using plain_linesI [of "x # xs' @ [z @ q @ r]"] by simp
  qed
qed

lemma base64_char_printable [simp]: "printable (base64_char n)"
  by (auto simp: base64_char_def printable_def)

lemma base64_printable: "list_all printable (base64 s)"
  by (induction s rule: base64.induct) (simp_all add: Let_def printable_def [of "CHR ''=''"])

lemma encodeHeaderWord_lines: "plain_lines (encodeHeaderWord s)"
proof (cases "list_all printable s")
  case True
  then show ?thesis by (simp add: encodeHeaderWord_def plain_lines_line printable_safe)
next
  case False
  define word where "word w = ''=?UTF-8?B?'' @ base64 w @ ''?=''" for w
  have word: "list_all printable (word w)" for w
    using base64_printable [of w] by (simp add: word_def printable_def)
  obtain ws0 chunk where st: "foldl add_char ([], []) (code_points s) = (ws0, chunk)" by fastforce
  define ws where "ws = ws0 @ (if chunk = [] then [] else [chunk])"
  have ws: "encodeHeaderWord s = join (CRLF @ '' '') (map word ws)"
    unfolding encodeHeaderWord_def st word_def ws_def using False by (simp only: if_False prod.case)
  show ?thesis
  proof (cases ws)
    case Nil
    then show ?thesis using ws by (simp add: plain_lines_line)
  next
    case (Cons w ws')
    have "encodeHeaderWord s = join CRLF (word w # map (\<lambda>v. '' '' @ word v) ws')"
      unfolding ws Cons by (simp add: join_concat o_def)
    moreover have "list_all plain_line (word w # map (\<lambda>v. '' '' @ word v) ws')"
      using word by (auto simp: list_all_iff printable_def intro!: printable_safe)
    ultimately show ?thesis using plain_linesI by (metis list.distinct(1))
  qed
qed


lemma digit_printable [simp]: "d < 10 \<Longrightarrow> printable (digit_char d)"
  by (simp add: printable_def of_char_digit_char)

lemma pad2_printable: "0 \<le> n \<Longrightarrow> n < 100 \<Longrightarrow> list_all printable (pad2 n)"
  using pad_digits [of n] by auto

lemma dec_printable: "list_all printable (dec n)"
  using dec_digits [of _ n] by (fastforce simp: list_all_iff printable_def is_digit_def)

lemma names_printable: "list_all (list_all printable) DAYS" "list_all (list_all printable) MONTHS"
  by (simp_all add: DAYS_def MONTHS_def printable_def)

lemma formatDate_printable: "list_all printable (formatDate ms)"
proof -
  obtain y m d where date: "date_of_day (ms div DAY_MS) = (y, m, d)" by (metis prod_cases3)
  have "d \<le> 31" using date_of_day_ok(4) [OF date] by (auto split: if_splits)
  then have "list_all printable (pad2 d)" using date_of_day_ok(3) [OF date] by (intro pad2_printable) simp_all
  moreover have "list_all printable (DAYS ! nat ((ms div DAY_MS + 4) mod 7))"
  proof -
    have "nat ((ms div DAY_MS + 4) mod 7) < length DAYS"
      using pos_mod_bound [of 7 "ms div DAY_MS + 4"] by (simp add: DAYS_def)
    then show ?thesis using names_printable(1) by (simp add: list_all_length)
  qed
  moreover have "list_all printable (MONTHS ! nat (m - 1))"
  proof -
    have "nat (m - 1) < length MONTHS" using date_of_day_ok(1,2) [OF date] by (simp add: MONTHS_def)
    then show ?thesis using names_printable(2) by (simp add: list_all_length)
  qed
  moreover have "list_all printable (pad2 (ms mod DAY_MS div 3600000))"
    "list_all printable (pad2 (k mod 60))" for k
  proof -
    have "0 \<le> ms mod DAY_MS" "ms mod DAY_MS < 86400000" by (simp_all add: DAY_MS_def)
    then have "0 \<le> ms mod DAY_MS div 3600000" "ms mod DAY_MS div 3600000 < 24" by linarith+
    then show "list_all printable (pad2 (ms mod DAY_MS div 3600000))" by (intro pad2_printable) simp_all
    show "list_all printable (pad2 (k mod 60))"
      using pos_mod_sign [of 60 k] pos_mod_bound [of 60 k] by (intro pad2_printable) linarith+
  qed
  ultimately show ?thesis
    unfolding formatDate_def Let_def date by (simp add: dec_printable) (simp add: printable_def)
qed

lemma chunks76_printable: "list_all printable s \<Longrightarrow> list_all (list_all printable) (chunks76 s)"
proof (induction s rule: chunks76.induct)
  case (1 s)
  have "list_all printable (take 76 s)" "list_all printable (drop 76 s)"
    using 1(2) by (auto simp: list_all_iff dest: in_set_takeD in_set_dropD)
  then show ?case using 1 by (subst chunks76.simps) simp
qed

lemma base64Lines_lines: "plain_lines (base64Lines s)"
  unfolding base64Lines_def
proof (rule plain_linesI)
  show "chunks76 (base64 s) \<noteq> []" by (subst chunks76.simps) simp
  show "list_all plain_line (chunks76 (base64 s))"
    using chunks76_printable [OF base64_printable [of s]] by (auto simp: list_all_iff [of _ "chunks76 _"] printable_safe)
qed

lemma join_plain:
  "list_all plain_line xs \<Longrightarrow> plain_line (join '', '' xs)"
proof (induction xs rule: induct_list012)
  case (3 x y xs)
  then show ?case using plain_between [of x "'', ''" "join '', '' (y # xs)"] by (simp add: printable_def)
qed simp_all

lemma sublist_plain:
  assumes "sublist l s" "plain_line s"
  shows "plain_line l"
proof -
  have "\<not> sublist sep l" if "sep \<in> set separators" for sep
  proof
    assume "sublist sep l"
    then have "sublist sep s" using assms(1) by (rule sublist_order.order.trans)
    then show False using assms(2) that unfolding plain_line_def no_separator_def by blast
  qed
  moreover have "set l \<subseteq> set s" by (rule set_mono_sublist [OF assms(1)])
  ultimately show ?thesis
    using assms(2) unfolding plain_line_def no_separator_def headerSafe_def by blast
qed

lemma dropWhile_until: "c \<notin> set u \<Longrightarrow> dropWhile (\<lambda>x. x \<noteq> c) (u @ c # t) = c # t"
  by (induction u) auto

lemma domain_plain: "plain_line a \<Longrightarrow> plain_line (domain_of a)"
proof (cases "CHR ''@'' \<in> set a")
  case True
  let ?n = "\<lambda>c. c \<noteq> CHR ''@''"
  assume "plain_line a"
  obtain u t where a: "a = u @ CHR ''@'' # t" "CHR ''@'' \<notin> set u" using split_list_first [OF True] by blast
  then have "dropWhile ?n a = CHR ''@'' # t" by (simp add: dropWhile_until)
  then have "domain_of a = takeWhile ?n t" using True by (simp add: domain_of_def)
  moreover have "t = takeWhile ?n t @ dropWhile ?n t" by simp
  ultimately have "a = (u @ ''@'') @ domain_of a @ dropWhile ?n t" using a(1) by simp
  then have "sublist (domain_of a) a" unfolding sublist_def by blast
  then show ?thesis using \<open>plain_line a\<close> by (rule sublist_plain)
qed (simp add: domain_of_def printable_safe printable_def)

definition mail_fields_ok :: "mail_message \<Rightarrow> bool" where
  "mail_fields_ok mail \<longleftrightarrow> no_separator (mail_from mail) \<and> list_all no_separator (mail_to mail) \<and>
     list_all printable (messageId mail)"

lemma mail_headers_lines:
  assumes "buildMimeMessage mail = Inr data" "mail_fields_ok mail"
  shows "\<forall>h \<in> set (mail_headers mail). plain_lines h"
proof -
  have sender: "plain_line (mail_from mail)" and to: "list_all plain_line (mail_to mail)"
    using assms by (auto simp: buildMimeMessage_def mail_fields_ok_def plain_line_def list_all_iff split: if_splits)
  have "plain_lines (''From: '' @ (case fromName mail of
        Some (c # n) \<Rightarrow> encodeHeaderWord (c # n) @ '' <'' @ mail_from mail @ ''>''
      | _ \<Rightarrow> mail_from mail))"
    using plain_append [OF sender, of "''>''"]
    by (intro plain_lines_prepend)
      (auto simp: printable_def encodeHeaderWord_lines intro!: plain_lines_line [OF sender]
        plain_lines_append_line [of _ "'' <''", simplified] split: option.split list.split)
  moreover have "plain_lines (''To: '' @ join '', '' (mail_to mail))"
    by (intro plain_lines_prepend plain_lines_line join_plain to) (simp add: printable_def)
  moreover have "plain_lines (''Subject: '' @ encodeHeaderWord (subject mail))"
    by (intro plain_lines_prepend encodeHeaderWord_lines) (simp add: printable_def)
  moreover have "plain_lines (''Date: '' @ formatDate (date mail))"
    by (intro plain_lines_prepend plain_lines_line printable_safe formatDate_printable) (simp add: printable_def)
  moreover have "plain_lines (''Message-ID: <'' @ messageId mail @ ''@'' @ domain_of (mail_from mail) @ ''>'')"
  proof -
    have "plain_line (domain_of (mail_from mail) @ ''>'')"
      by (intro plain_append domain_plain sender) (simp add: printable_def)
    moreover have "list_all printable (''Message-ID: <'' @ messageId mail @ ''@'')"
      using assms(2) by (simp add: mail_fields_ok_def printable_def)
    ultimately have "plain_line ((''Message-ID: <'' @ messageId mail @ ''@'') @ domain_of (mail_from mail) @ ''>'')"
      by (intro plain_prepend [of "''Message-ID: <'' @ messageId mail @ ''@''"])
    then show ?thesis by (intro plain_lines_line) simp
  qed
  moreover have "plain_lines (''MIME-Version: 1.0'')"
    "plain_lines (''Content-Type: text/plain; charset='' @ CHR 0x22 # ''utf-8'' @ [CHR 0x22])"
    "plain_lines (''Content-Transfer-Encoding: base64'')"
    by (intro plain_lines_line printable_safe, simp add: printable_def)+
  ultimately show ?thesis by (simp add: mail_headers_def)
qed

lemma join_lines: "xs \<noteq> [] \<Longrightarrow> \<forall>x \<in> set xs. plain_lines x \<Longrightarrow> plain_lines (join CRLF xs)"
  by (induction xs rule: induct_list012) (auto intro: plain_lines_crlf)

lemma mail_text_lines:
  assumes "buildMimeMessage mail = Inr data" "mail_fields_ok mail"
  shows "plain_lines (mail_text mail)"
proof -
  have "plain_lines (join CRLF (mail_headers mail))"
    using mail_headers_lines [OF assms] by (intro join_lines) (simp_all add: mail_headers_def)
  moreover have "plain_lines ([] @ CRLF @ base64Lines (body mail))"
    by (intro plain_lines_crlf base64Lines_lines plain_lines_line) simp
  ultimately show ?thesis
    unfolding mail_text_def using plain_lines_crlf [of "join CRLF (mail_headers mail)" "CRLF @ base64Lines (body mail)"] by simp
qed

lemma relay_reads_message:
  assumes "buildMimeMessage mail = Inr data" "mail_fields_ok mail"
  shows "\<exists>ls. join CRLF ls = mail_text mail \<and> relay_data (data @ CRLF @ ''.'' @ CRLF @ after) = Some (ls, after)"
proof -
  obtain ls where ls: "ls \<noteq> []" "list_all plain_line ls" "join CRLF ls = mail_text mail"
    using mail_text_lines [OF assms] by (auto simp: plain_lines_def)
  have "data = dotStuff (mail_text mail)" using assms(1) by (auto simp: buildMimeMessage_def split: if_splits)
  also have "\<dots> = join CRLF (map stuff_line ls)"
    unfolding dotStuff_def ls(3) [symmetric] using ls by (intro dot_stuff_lines) simp_all
  finally show ?thesis using relay_reads_lines [OF ls(2,1), of after] ls(3) by blast
qed

end
