(* ===== verification/Notify_Smtp.thy ===== *)
theory Notify_Smtp
  imports Notify_Smtp_Wire
begin

text \<open>
  The mail submission session, \<open>packages/notify/src/smtp-client.ts\<close> and \<open>deliver\<close> of
  \<open>smtp.ts\<close>: EHLO, STARTTLS, AUTH, MAIL, RCPT, DATA over a socket. The socket is the environment: the
  bytes it delivers, the writes that fail, what TLS reports. What the client writes is logged with
  the step it belongs to (the label \<open>command\<close> is called with) and whether a verified TLS session was
  active. Texts of errors carry no state and are left out.
\<close>

subsection \<open>The socket\<close>

record tls_info =
  authorized :: bool
  protocol :: string
  servername :: string

datatype 'a io = IoFails | IoOk 'a

datatype smtp_step = Ehlo | StartTls | Auth | MailFrom | RcptTo | Data | Body | Quit

record sock = reader +
  write_fails :: "bool list"
  tls_now :: "tls_info option io"
  tls_upgrade :: "tls_info io"
  tlsActive :: bool
  written :: "(bool \<times> smtp_step \<times> string) list"

datatype smtp_failure = PermanentFailure | TransientFailure | SocketError

type_synonym 'a smtp = "sock \<Rightarrow> (smtp_failure + 'a) \<times> sock"

definition ret :: "'a \<Rightarrow> 'a smtp" where
  "ret x s = (Inr x, s)"

definition fail :: "smtp_failure \<Rightarrow> 'a smtp" where
  "fail e s = (Inl e, s)"

definition bind :: "'a smtp \<Rightarrow> ('a \<Rightarrow> 'b smtp) \<Rightarrow> 'b smtp" where
  "bind m f s = (case m s of (Inl e, s') \<Rightarrow> (Inl e, s') | (Inr x, s') \<Rightarrow> f x s')"

subsection \<open>The client\<close>

datatype security = Starttls | Implicit | Plaintext

record smtp_config =
  host :: string
  security :: security
  username :: "string option"
  ehloName :: string
  allowInsecureAuth :: bool

definition smtp_write :: "smtp_step \<Rightarrow> string \<Rightarrow> unit smtp" where
  "smtp_write step line s =
    (case write_fails s of
       True # fs \<Rightarrow> (Inl TransientFailure, s\<lparr>write_fails := fs\<rparr>)
     | fs \<Rightarrow> (Inr (), s\<lparr>write_fails := tl fs, written := written s @ [(tlsActive s, step, line)]\<rparr>))"

definition smtp_read :: "smtp_reply smtp" where
  "smtp_read s = (case nextReply (reader.truncate s) of
     (r, rd) \<Rightarrow> ((case r of Inl _ \<Rightarrow> Inl TransientFailure | Inr reply \<Rightarrow> Inr reply),
        s\<lparr>reader_buffer := reader_buffer rd, reads := reads rd\<rparr>))"

definition expect :: "smtp_reply \<Rightarrow> nat list \<Rightarrow> smtp_reply smtp" where
  "expect reply accept =
    (if reply_code reply \<in> set accept then ret reply
     else if 400 \<le> reply_code reply \<and> reply_code reply < 500 then fail TransientFailure
     else fail PermanentFailure)"

definition smtp_command :: "smtp_step \<Rightarrow> string \<Rightarrow> nat list \<Rightarrow> smtp_reply smtp" where
  "smtp_command step line accept =
    (if \<not> headerSafe line then fail PermanentFailure
     else bind (smtp_write step (line @ CRLF)) (\<lambda>_. bind smtp_read (\<lambda>reply. expect reply accept)))"

definition ehlo :: "smtp_config \<Rightarrow> (string \<rightharpoonup> string list) smtp" where
  "ehlo config = bind (smtp_command Ehlo (''EHLO '' @ ehloName config) [250])
     (\<lambda>reply. ret (parseCapabilities (reply_lines reply)))"

definition assertTls :: "smtp_config \<Rightarrow> tls_info option \<Rightarrow> unit smtp" where
  "assertTls config info =
    (case info of
       None \<Rightarrow> fail PermanentFailure
     | Some i \<Rightarrow>
        if \<not> authorized i then fail PermanentFailure
        else if protocol i \<notin> {''TLSv1.2'', ''TLSv1.3''} then fail PermanentFailure
        else if servername i \<noteq> host config then fail PermanentFailure
        else ret ())"

definition query_tls :: "tls_info option smtp" where
  "query_tls s = (case tls_now s of IoFails \<Rightarrow> (Inl SocketError, s) | IoOk i \<Rightarrow> (Inr i, s))"

definition start_tls :: "tls_info smtp" where
  "start_tls s = (case tls_upgrade s of IoFails \<Rightarrow> (Inl SocketError, s) | IoOk i \<Rightarrow> (Inr i, s))"

definition activate_tls :: "unit smtp" where
  "activate_tls s = (Inr (), s\<lparr>tlsActive := True\<rparr>)"

definition no_buffered_bytes :: "unit smtp" where
  "no_buffered_bytes s = (if reader_buffer s \<noteq> [] then (Inl PermanentFailure, s) else (Inr (), s))"

text \<open>The upgrade, up to the negotiated capabilities.\<close>

definition secure :: "smtp_config \<Rightarrow> (string \<rightharpoonup> string list) \<Rightarrow> (string \<rightharpoonup> string list) smtp" where
  "secure config caps s =
    (if tlsActive s then ret caps s
     else if caps ''STARTTLS'' = None
       then (if security config = Starttls then fail PermanentFailure s else ret caps s)
     else bind (smtp_command StartTls ''STARTTLS'' [220]) (\<lambda>_.
          bind no_buffered_bytes (\<lambda>_. bind start_tls (\<lambda>i. bind (assertTls config (Some i)) (\<lambda>_.
          bind activate_tls (\<lambda>_. ehlo config))))) s)"

definition authenticate ::
  "smtp_config \<Rightarrow> string option \<Rightarrow> (string \<rightharpoonup> string list) \<Rightarrow> unit smtp" where
  "authenticate config password caps s =
    (case (username config, password) of
       (Some user, Some pass) \<Rightarrow>
        (let mechanisms = (case caps ''AUTH'' of None \<Rightarrow> [] | Some ms \<Rightarrow> ms) in
         if \<not> tlsActive s \<and> \<not> allowInsecureAuth config then fail PermanentFailure s
         else if ''PLAIN'' \<in> set mechanisms
           then bind (smtp_command Auth (''AUTH PLAIN '' @ base64 (CHR 0x00 # user @ CHR 0x00 # pass)) [235]) (\<lambda>_. ret ()) s
         else if ''LOGIN'' \<in> set mechanisms
           then bind (smtp_command Auth ''AUTH LOGIN'' [334]) (\<lambda>_.
                bind (smtp_command Auth (base64 user) [334]) (\<lambda>_.
                bind (smtp_command Auth (base64 pass) [235]) (\<lambda>_. ret ()))) s
         else fail PermanentFailure s)
     | _ \<Rightarrow> ret () s)"

fun recipients :: "string list \<Rightarrow> unit smtp" where
  "recipients [] = ret ()"
| "recipients (r # rs) =
    bind (smtp_command RcptTo (''RCPT TO:<'' @ r @ ''>'') [250, 251]) (\<lambda>_. recipients rs)"

record smtp_envelope =
  env_from :: string
  env_to :: "string list"
  env_data :: string

definition smtp_send :: "smtp_config \<Rightarrow> string option \<Rightarrow> smtp_envelope \<Rightarrow> unit smtp" where
  "smtp_send config password envelope =
    bind (if security config = Implicit
          then bind query_tls (\<lambda>i. bind (assertTls config i) (\<lambda>_. activate_tls)) else ret ()) (\<lambda>_.
    bind smtp_read (\<lambda>greeting. bind (expect greeting [220]) (\<lambda>_.
    bind (ehlo config) (\<lambda>caps. bind (secure config caps) (\<lambda>caps.
    bind (authenticate config password caps) (\<lambda>_.
    bind (smtp_command MailFrom (''MAIL FROM:<'' @ env_from envelope @ ''>'') [250]) (\<lambda>_.
    bind (recipients (env_to envelope)) (\<lambda>_.
    bind (smtp_command Data ''DATA'' [354]) (\<lambda>_.
    bind (smtp_write Body (env_data envelope @ CRLF @ ''.'' @ CRLF)) (\<lambda>_.
    bind smtp_read (\<lambda>reply. bind (expect reply [250]) (\<lambda>_. ret ()))))))))))))"

text \<open>Nothing \<open>close\<close> meets decides the outcome.\<close>

definition smtp_close :: "sock \<Rightarrow> sock" where
  "smtp_close s = snd (bind (smtp_write Quit (''QUIT'' @ CRLF)) (\<lambda>_. smtp_read) s)"

text \<open>\<open>deliver\<close>: an error that is not one of the client's own is worth another attempt.\<close>

definition smtp_deliver ::
  "smtp_config \<Rightarrow> string option \<Rightarrow> smtp_envelope \<Rightarrow> sock io \<Rightarrow> (smtp_failure + unit) \<times> sock option" where
  "smtp_deliver config password envelope conn =
    (case conn of
       IoFails \<Rightarrow> (Inl TransientFailure, None)
     | IoOk s \<Rightarrow> (case smtp_send config password envelope s of (r, s') \<Rightarrow>
         ((case r of Inl SocketError \<Rightarrow> Inl TransientFailure | _ \<Rightarrow> r), Some (smtp_close s'))))"

subsection \<open>Rules\<close>

text \<open>
  \<open>triple P m R E\<close>: from a state of \<open>P\<close>, a result leaves a state of \<open>R\<close> for it, a failure one of \<open>E\<close>.
\<close>

definition triple :: "(sock \<Rightarrow> bool) \<Rightarrow> 'a smtp \<Rightarrow> ('a \<Rightarrow> sock \<Rightarrow> bool) \<Rightarrow> (sock \<Rightarrow> bool) \<Rightarrow> bool" where
  "triple P m R E \<longleftrightarrow> (\<forall>s. P s \<longrightarrow> (case m s of (Inl _, s') \<Rightarrow> E s' | (Inr x, s') \<Rightarrow> R x s'))"

named_theorems smtp_rules \<open>Hoare rules of the mail session\<close>

lemma triple_bind:
  assumes "triple P m R E" "\<And>x. triple (R x) (f x) S E"
  shows "triple P (bind m f) S E"
  unfolding triple_def bind_def
proof (intro allI impI)
  fix s assume "P s"
  then have m: "case m s of (Inl _, s') \<Rightarrow> E s' | (Inr x, s') \<Rightarrow> R x s'" using assms(1) by (simp add: triple_def)
  obtain r s' where r: "m s = (r, s')" by fastforce
  show "case case m s of (Inl e, s') \<Rightarrow> (Inl e, s') | (Inr x, s') \<Rightarrow> f x s' of
      (Inl _, s') \<Rightarrow> E s' | (Inr x, s') \<Rightarrow> S x s'"
  proof (cases r)
    case (Inr x)
    then show ?thesis using m r assms(2) [of x] by (simp add: triple_def)
  qed (use m r in simp)
qed

lemma triple_ret [smtp_rules]: "(\<And>s. P s \<Longrightarrow> R x s) \<Longrightarrow> triple P (ret x) R E"
  by (simp add: triple_def ret_def)

lemma triple_fail [smtp_rules]: "(\<And>s. P s \<Longrightarrow> E s) \<Longrightarrow> triple P (fail e) R E"
  by (simp add: triple_def fail_def)

lemma triple_pre: "triple Q m R E \<Longrightarrow> (\<And>s. P s \<Longrightarrow> Q s) \<Longrightarrow> triple P m R E"
  by (simp add: triple_def)

lemma triple_post: "triple P m R E \<Longrightarrow> (\<And>x s. R x s \<Longrightarrow> R' x s) \<Longrightarrow> (\<And>s. E s \<Longrightarrow> E' s) \<Longrightarrow> triple P m R' E'"
  unfolding triple_def by (fastforce split: prod.splits sum.splits)

lemma triple_if:
  "(c \<Longrightarrow> triple P m R E) \<Longrightarrow> (\<not> c \<Longrightarrow> triple P m' R E) \<Longrightarrow> triple P (if c then m else m') R E"
  by simp

text \<open>A property of the log and the TLS flag that reading does not touch.\<close>

definition log_state :: "(bool \<Rightarrow> (bool \<times> smtp_step \<times> string) list \<Rightarrow> bool) \<Rightarrow> sock \<Rightarrow> bool" where
  "log_state P s \<longleftrightarrow> P (tlsActive s) (written s)"

lemma triple_read [smtp_rules]: "triple (log_state P) smtp_read (\<lambda>_. log_state P) (log_state P)"
  by (auto simp: triple_def smtp_read_def log_state_def split: prod.splits sum.splits)

lemma triple_expect [smtp_rules]: "triple (log_state P) (expect reply accept) (\<lambda>_. log_state P) (log_state P)"
  by (simp add: expect_def triple_ret triple_fail)

lemma triple_query [smtp_rules]: "triple (log_state P) query_tls (\<lambda>_. log_state P) (log_state P)"
  by (auto simp: triple_def query_tls_def split: io.splits)

lemma triple_start [smtp_rules]: "triple (log_state P) start_tls (\<lambda>_. log_state P) (log_state P)"
  by (auto simp: triple_def start_tls_def split: io.splits)

lemma triple_assert [smtp_rules]: "triple (log_state P) (assertTls config i) (\<lambda>_. log_state P) (log_state P)"
  by (auto simp: assertTls_def intro: triple_ret triple_fail split: option.splits)

lemma triple_buffered [smtp_rules]: "triple (log_state P) no_buffered_bytes (\<lambda>_. log_state P) (log_state P)"
  by (auto simp: triple_def no_buffered_bytes_def)

lemma triple_activate:
  "(\<And>t w. P t w \<Longrightarrow> Q True w) \<Longrightarrow> triple (log_state P) activate_tls (\<lambda>_. log_state Q) E"
  by (auto simp: triple_def activate_tls_def log_state_def)

lemma triple_write:
  assumes "\<And>t w. P t w \<Longrightarrow> Q t (w @ [(t, step, line)])" "\<And>t w. P t w \<Longrightarrow> E t w"
  shows "triple (log_state P) (smtp_write step line) (\<lambda>_. log_state Q) (log_state E)"
  using assms by (auto simp: triple_def smtp_write_def log_state_def split: list.splits bool.splits)

text \<open>A command adds one line, and its failure may come before or after that.\<close>

lemma triple_command:
  assumes "\<And>t w. P t w \<Longrightarrow> headerSafe line \<Longrightarrow> Q t (w @ [(t, step, line @ CRLF)])" "\<And>t w. P t w \<Longrightarrow> E t w"
    "\<And>t w. Q t w \<Longrightarrow> E t w"
  shows "triple (log_state P) (smtp_command step line accept) (\<lambda>_. log_state Q) (log_state E)"
  unfolding smtp_command_def
proof (rule triple_if)
  show "triple (log_state P) (fail PermanentFailure) (\<lambda>_. log_state Q) (log_state E)"
    using assms(2) by (intro triple_fail) (simp add: log_state_def)
  assume "\<not> \<not> headerSafe line"
  then show "triple (log_state P) (bind (smtp_write step (line @ CRLF)) (\<lambda>_. bind smtp_read (\<lambda>reply. expect reply accept)))
      (\<lambda>_. log_state Q) (log_state E)"
    using assms
    by (intro triple_bind [where R = "\<lambda>_. log_state Q"] triple_write
        triple_post [OF triple_read] triple_post [OF triple_expect])
      (auto simp: log_state_def)
qed


subsection \<open>What may be written, and when\<close>

text \<open>
  Without a verified TLS session only the greeting and the upgrade are written, unless the
  configuration asks for plain text; and even then no credential, unless it allows that too.
\<close>

definition line_protected :: "smtp_config \<Rightarrow> bool \<times> smtp_step \<times> string \<Rightarrow> bool" where
  "line_protected config l \<longleftrightarrow> (case l of (encrypted, step, line) \<Rightarrow>
     encrypted \<or> step \<in> {Ehlo, StartTls, Quit} \<or>
     (security config = Plaintext \<and> (step = Auth \<longrightarrow> allowInsecureAuth config)))"

text \<open>A command is one line; the body is the message and its end; nothing but QUIT follows the body.\<close>

definition line_single :: "smtp_envelope \<Rightarrow> bool \<times> smtp_step \<times> string \<Rightarrow> bool" where
  "line_single env l \<longleftrightarrow> (case l of (encrypted, step, line) \<Rightarrow>
     if step = Body then line = env_data env @ CRLF @ ''.'' @ CRLF
     else \<exists>command. headerSafe command \<and> line = command @ CRLF)"

definition rcpt_lines :: "(bool \<times> smtp_step \<times> string) list \<Rightarrow> string list" where
  "rcpt_lines w = map (snd o snd) (filter (\<lambda>l. fst (snd l) = RcptTo) w)"

definition rcpt_line :: "string \<Rightarrow> string" where
  "rcpt_line r = ''RCPT TO:<'' @ r @ ''>'' @ CRLF"

definition has_body :: "(bool \<times> smtp_step \<times> string) list \<Rightarrow> bool" where
  "has_body w \<longleftrightarrow> (\<exists>l \<in> set w. fst (snd l) = Body)"

definition log_ok :: "smtp_config \<Rightarrow> smtp_envelope \<Rightarrow> (bool \<times> smtp_step \<times> string) list \<Rightarrow> bool" where
  "log_ok config env w \<longleftrightarrow> list_all (line_protected config) w \<and> list_all (line_single env) w \<and>
     (has_body w \<longrightarrow> rcpt_lines w = map rcpt_line (env_to env))"

text \<open>While no body has been written, a line of another step keeps the log in order.\<close>

definition before_body :: "smtp_config \<Rightarrow> smtp_envelope \<Rightarrow> string list \<Rightarrow> (bool \<Rightarrow> bool) \<Rightarrow> bool \<Rightarrow> (bool \<times> smtp_step \<times> string) list \<Rightarrow> bool" where
  "before_body config env rcpts C t w \<longleftrightarrow> log_ok config env w \<and> \<not> has_body w \<and> rcpt_lines w = rcpts \<and> C t"

lemma log_lines [simp]:
  "rcpt_lines [] = []" "rcpt_lines (w @ [(t, step, line)]) = rcpt_lines w @ (if step = RcptTo then [line] else [])"
  "has_body (w @ [(t, step, line)]) \<longleftrightarrow> has_body w \<or> step = Body" "\<not> has_body []"
  by (auto simp: rcpt_lines_def has_body_def)

lemma before_body_ok: "before_body config env rcpts C t w \<Longrightarrow> log_ok config env w"
  by (simp add: before_body_def)

lemma triple_command_log:
  assumes "step \<noteq> Body" "step \<noteq> RcptTo"
    "\<And>t. C t \<Longrightarrow> line_protected config (t, step, line @ CRLF)"
  shows "triple (log_state (before_body config env rcpts C)) (smtp_command step line accept)
    (\<lambda>_. log_state (before_body config env rcpts C)) (log_state (\<lambda>_. log_ok config env))"
  using assms
  by (intro triple_command) (auto simp: before_body_def log_ok_def line_single_def)

lemma triple_step:
  assumes "triple (log_state (before_body config env rcpts C)) m (\<lambda>_. log_state (before_body config env rcpts C))
      (log_state (before_body config env rcpts C))"
  shows "triple (log_state (before_body config env rcpts C)) m (\<lambda>_. log_state (before_body config env rcpts C))
      (log_state (\<lambda>_. log_ok config env))"
  using assms by (rule triple_post) (auto simp: log_state_def before_body_ok)

lemmas triple_quiet = triple_read triple_expect triple_query triple_start triple_assert triple_buffered

lemma triple_ret_log:
  "triple (log_state P) (ret x) (\<lambda>_. log_state P) E"
  by (simp add: triple_ret)

lemma triple_ehlo:
  "triple (log_state (before_body config env rcpts C)) (ehlo config)
    (\<lambda>_. log_state (before_body config env rcpts C)) (log_state (\<lambda>_. log_ok config env))"
  unfolding ehlo_def
  by (rule triple_bind [OF triple_command_log triple_ret_log]) (simp_all add: line_protected_def)

lemma triple_fail_log:
  "triple (log_state (before_body config env rcpts C)) (fail e) R (log_state (\<lambda>_. log_ok config env))"
  by (rule triple_fail) (simp add: log_state_def before_body_ok)

abbreviation secured :: "smtp_config \<Rightarrow> bool \<Rightarrow> bool" where
  "secured config t \<equiv> t \<or> security config = Plaintext"

lemma triple_secure:
  "triple (log_state (before_body config env rcpts (\<lambda>t. security config = Implicit \<longrightarrow> t))) (secure config caps)
    (\<lambda>_. log_state (before_body config env rcpts (secured config))) (log_state (\<lambda>_. log_ok config env))"
  (is "triple ?P _ ?R ?E")
proof -
  let ?A = "before_body config env rcpts (\<lambda>t. security config = Implicit \<longrightarrow> t)"
  let ?T = "before_body config env rcpts (\<lambda>t. t)"
  have upgrade: "triple ?P (bind (smtp_command StartTls ''STARTTLS'' [220]) (\<lambda>_.
          bind no_buffered_bytes (\<lambda>_. bind start_tls (\<lambda>i. bind (assertTls config (Some i)) (\<lambda>_.
          bind activate_tls (\<lambda>_. ehlo config)))))) ?R ?E"
  proof (rule triple_bind [where R = "\<lambda>_. log_state ?A"])
    show "triple ?P (smtp_command StartTls ''STARTTLS'' [220]) (\<lambda>_. log_state ?A) ?E"
      by (rule triple_command_log) (simp_all add: line_protected_def)
    have "triple (log_state ?A) activate_tls (\<lambda>_. log_state ?T) ?E"
      by (rule triple_activate) (auto simp: before_body_def)
    moreover have "triple (log_state ?T) (ehlo config) ?R ?E"
      by (rule triple_post [OF triple_ehlo]) (auto simp: log_state_def before_body_def)
    ultimately have last: "triple (log_state ?A) (bind activate_tls (\<lambda>_. ehlo config)) ?R ?E"
      by (rule triple_bind)
    show "triple (log_state ?A) (bind no_buffered_bytes (\<lambda>_. bind start_tls (\<lambda>i. bind (assertTls config (Some i)) (\<lambda>_.
          bind activate_tls (\<lambda>_. ehlo config))))) ?R ?E" for x :: smtp_reply
      by (intro triple_bind [where R = "\<lambda>_. log_state ?A"] triple_step triple_quiet last)
  qed
  show ?thesis
    unfolding triple_def
  proof (intro allI impI)
    fix s assume P: "?P s"
    then have ok: "?E s" by (simp add: log_state_def before_body_ok)
    show "case secure config caps s of (Inl _, s') \<Rightarrow> ?E s' | (Inr x, s') \<Rightarrow> ?R x s'"
    proof (cases "tlsActive s \<or> caps ''STARTTLS'' = None")
      case True
      then show ?thesis using P ok
        by (cases "security config") (auto simp: secure_def ret_def fail_def log_state_def before_body_def)
    next
      case False
      then obtain c where "caps ''STARTTLS'' = Some c" "\<not> tlsActive s" by auto
      then have "secure config caps s = bind (smtp_command StartTls ''STARTTLS'' [220]) (\<lambda>_.
          bind no_buffered_bytes (\<lambda>_. bind start_tls (\<lambda>i. bind (assertTls config (Some i)) (\<lambda>_.
          bind activate_tls (\<lambda>_. ehlo config))))) s" by (simp add: secure_def)
      then show ?thesis using upgrade P unfolding triple_def by simp
    qed
  qed
qed

lemma triple_authenticate:
  "triple (log_state (before_body config env rcpts (secured config))) (authenticate config password caps)
    (\<lambda>_. log_state (before_body config env rcpts (secured config))) (log_state (\<lambda>_. log_ok config env))"
  (is "triple ?P _ ?R ?E")
proof -
  let ?A = "before_body config env rcpts (\<lambda>t. t \<or> security config = Plaintext \<and> allowInsecureAuth config)"
  have auth: "triple (log_state ?A) (smtp_command Auth line accept) (\<lambda>_. log_state ?A) ?E" for line accept
    by (rule triple_command_log) (auto simp: line_protected_def)
  have return: "triple (log_state ?A) (ret ()) ?R ?E"
    by (rule triple_ret) (auto simp: log_state_def before_body_def)
  have plain: "triple (log_state ?A) (bind (smtp_command Auth line accept) (\<lambda>_. ret ())) ?R ?E" for line accept
    by (rule triple_bind [OF auth return])
  have login: "triple (log_state ?A) (bind (smtp_command Auth l1 a1) (\<lambda>_. bind (smtp_command Auth l2 a2) (\<lambda>_.
      bind (smtp_command Auth l3 a3) (\<lambda>_. ret ())))) ?R ?E" for l1 a1 l2 a2 l3 a3
    by (rule triple_bind [OF auth triple_bind [OF auth plain]])
  show ?thesis
    unfolding triple_def
  proof (intro allI impI)
    fix s assume P: "?P s"
    then have ok: "?E s" by (simp add: log_state_def before_body_ok)
    show "case authenticate config password caps s of (Inl _, s') \<Rightarrow> ?E s' | (Inr x, s') \<Rightarrow> ?R x s'"
    proof (cases "username config = None \<or> password = None \<or> (\<not> tlsActive s \<and> \<not> allowInsecureAuth config)")
      case True
      then show ?thesis using P ok
        by (auto simp: authenticate_def Let_def ret_def fail_def split: option.splits)
    next
      case False
      then have A: "log_state ?A s" using P by (auto simp: log_state_def before_body_def)
      obtain user pass where "username config = Some user" "password = Some pass" using False by auto
      then show ?thesis
        using False ok A plain login unfolding triple_def by (simp add: authenticate_def Let_def fail_def)
    qed
  qed
qed

lemma triple_recipients:
  "triple (log_state (before_body config env rcpts (secured config))) (recipients rs)
    (\<lambda>_. log_state (before_body config env (rcpts @ map rcpt_line rs) (secured config))) (log_state (\<lambda>_. log_ok config env))"
proof (induction rs arbitrary: rcpts)
  case Nil
  then show ?case by (simp add: triple_ret_log)
next
  case (Cons r rs)
  have one: "triple (log_state (before_body config env rcpts (secured config)))
      (smtp_command RcptTo (''RCPT TO:<'' @ r @ ''>'') [250, 251])
      (\<lambda>_. log_state (before_body config env (rcpts @ [rcpt_line r]) (secured config))) (log_state (\<lambda>_. log_ok config env))"
    by (rule triple_command)
      (auto simp: before_body_def log_ok_def line_protected_def line_single_def rcpt_line_def)
  show ?case
    using triple_bind [OF one Cons.IH [of "rcpts @ [rcpt_line r]"]] by simp
qed

definition fresh_sock :: "sock \<Rightarrow> bool" where
  "fresh_sock s \<longleftrightarrow> \<not> tlsActive s \<and> written s = []"

lemma triple_connect:
  "triple fresh_sock (if security config = Implicit
      then bind query_tls (\<lambda>i. bind (assertTls config i) (\<lambda>_. activate_tls)) else ret ())
    (\<lambda>_. log_state (before_body config env [] (\<lambda>t. security config = Implicit \<longrightarrow> t)))
    (log_state (\<lambda>_. log_ok config env))"
  (is "triple _ _ ?R ?E")
proof -
  let ?N = "before_body config env [] (\<lambda>_. True)"
  have start: "fresh_sock s \<Longrightarrow> log_state ?N s" for s
    by (simp add: fresh_sock_def log_state_def before_body_def log_ok_def)
  have "triple (log_state ?N) activate_tls ?R ?E"
    by (rule triple_activate) (auto simp: before_body_def)
  then have "triple (log_state ?N) (bind query_tls (\<lambda>i. bind (assertTls config i) (\<lambda>_. activate_tls))) ?R ?E"
    by (intro triple_bind [where R = "\<lambda>_. log_state ?N"] triple_step triple_quiet)
  moreover have "triple fresh_sock (ret ()) ?R ?E" if "security config \<noteq> Implicit"
    by (rule triple_ret) (use that in \<open>simp add: fresh_sock_def log_state_def before_body_def log_ok_def\<close>)
  ultimately show ?thesis
    by (intro triple_if) (auto intro: triple_pre start)
qed

lemma smtp_send_log:
  "triple fresh_sock (smtp_send config password env) (\<lambda>_. log_state (\<lambda>_ w. log_ok config env w \<and> has_body w))
    (log_state (\<lambda>_. log_ok config env))"
  (is "triple _ _ ?R ?E")
proof -
  let ?A = "\<lambda>C. log_state (before_body config env [] C)"
  let ?all = "map rcpt_line (env_to env)"
  let ?L = "log_state (before_body config env ?all (secured config))"
  let ?B = "log_state (\<lambda>_ w. log_ok config env w \<and> has_body w)"
  have quiet: "triple ?B smtp_read (\<lambda>_. ?B) ?E" "triple ?B (expect r accept) (\<lambda>_. ?B) ?E" for r accept
    by (rule triple_post [OF triple_read] triple_post [OF triple_expect], simp_all add: log_state_def)+
  have body: "triple ?L (smtp_write Body (env_data env @ CRLF @ ''.'' @ CRLF)) (\<lambda>_. ?B) ?E"
    by (rule triple_write)
      (auto simp: before_body_def log_ok_def line_protected_def line_single_def)
  have mail: "triple (?A (secured config)) (smtp_command MailFrom line accept) (\<lambda>_. ?A (secured config)) ?E" for line accept
    by (rule triple_command_log) (auto simp: line_protected_def)
  have data: "triple ?L (smtp_command Data line accept) (\<lambda>_. ?L) ?E" for line accept
    by (rule triple_command_log) (auto simp: line_protected_def)
  have rcpt: "triple (?A (secured config)) (recipients (env_to env)) (\<lambda>_. ?L) ?E"
    using triple_recipients [of config env "[]" "env_to env"] by simp
  have finish: "triple ?B (ret ()) ?R ?E" by (rule triple_ret_log)
  show ?thesis
    unfolding smtp_send_def
    by (rule triple_bind [OF triple_connect] triple_bind [OF triple_step [OF triple_read]]
        triple_bind [OF triple_step [OF triple_expect]] triple_bind [OF triple_ehlo] triple_bind [OF triple_secure]
        triple_bind [OF triple_authenticate] triple_bind [OF mail] triple_bind [OF rcpt] triple_bind [OF data]
        triple_bind [OF body] triple_bind [OF quiet(1)] triple_bind [OF quiet(2)] finish)+
qed

lemma smtp_close_log:
  "log_ok config env (written s) \<Longrightarrow> log_ok config env (written (smtp_close s))"
proof -
  assume ok: "log_ok config env (written s)"
  obtain r s' where close: "bind (smtp_write Quit (''QUIT'' @ CRLF)) (\<lambda>_. smtp_read) s = (r, s')" by fastforce
  have "triple (log_state (\<lambda>_. log_ok config env)) (bind (smtp_write Quit (''QUIT'' @ CRLF)) (\<lambda>_. smtp_read))
      (\<lambda>_. log_state (\<lambda>_. log_ok config env)) (log_state (\<lambda>_. log_ok config env))"
    by (rule triple_bind [OF triple_write triple_read])
      (auto simp: log_ok_def line_protected_def line_single_def headerSafe_def CR_def LF_def)
  then have "log_state (\<lambda>_. log_ok config env) s'"
    using ok close by (cases r) (auto simp: triple_def log_state_def dest!: spec [of _ s])
  then show ?thesis by (simp only: smtp_close_def close snd_conv log_state_def)
qed

lemma smtp_close_body: "has_body (written s) \<Longrightarrow> has_body (written (smtp_close s))"
proof -
  assume body: "has_body (written s)"
  obtain r s' where close: "bind (smtp_write Quit (''QUIT'' @ CRLF)) (\<lambda>_. smtp_read) s = (r, s')" by fastforce
  have "triple (log_state (\<lambda>_. has_body)) (bind (smtp_write Quit (''QUIT'' @ CRLF)) (\<lambda>_. smtp_read))
      (\<lambda>_. log_state (\<lambda>_. has_body)) (log_state (\<lambda>_. has_body))"
    by (rule triple_bind [OF triple_write triple_read]) auto
  then have "log_state (\<lambda>_. has_body) s'"
    using body close by (cases r) (auto simp: triple_def log_state_def dest!: spec [of _ s])
  then show ?thesis by (simp only: smtp_close_def close snd_conv log_state_def)
qed

lemma smtp_deliver_log:
  assumes "smtp_deliver config password env (IoOk s0) = (r, Some s)" "fresh_sock s0"
  shows "log_ok config env (written s) \<and> (r = Inr () \<longrightarrow> has_body (written s))"
proof -
  obtain r' s' where send: "smtp_send config password env s0 = (r', s')" by fastforce
  have "log_ok config env (written s') \<and> (r' = Inr () \<longrightarrow> has_body (written s'))"
    using smtp_send_log [of config password env] assms(2) send
    by (cases r') (auto simp: triple_def log_state_def dest!: spec [of _ s0])
  moreover have "s = smtp_close s'" "r = Inr () \<Longrightarrow> r' = Inr ()"
    using assms(1) send by (auto simp: smtp_deliver_def split: sum.splits smtp_failure.splits)
  ultimately show ?thesis using smtp_close_log smtp_close_body by auto
qed

end
