(* ===== verification/Notify_Props.thy ===== *)
theory Notify_Props
  imports Notify_Send Notify_Smtp
begin

text \<open>
  The properties of the notification component: the working-time calendar against the set of working
  minutes, the escalation ladder and its timer, the retry loop, and the mail driver.
\<close>

subsection \<open>A sample\<close>

definition sample_calendar :: calendar where
  "sample_calendar = \<lparr>utcOffsetMinutes = 180, workdays = [1, 2, 3, 4, 5], startMinute = 540, endMinute = 1080,
     holidays = [''2026-08-04'']\<rparr>"

definition sample_step :: "nat \<Rightarrow> string \<Rightarrow> escalation_step" where
  "sample_step hours i = \<lparr>afterHours = \<lparr>mantissa = hours, fraction = 0\<rparr>, es_channel = ChTeams,
     es_event = EvEscalation, es_id = i, messageKey = None, es_to = None, es_action = ActNotify\<rparr>"

definition sample_ladder :: escalation_ladder where
  "sample_ladder = \<lparr>steps = [sample_step 24 ''s24'', sample_step 72 ''s72''], businessHoursOnly = False,
     ladder_calendar = sample_calendar\<rparr>"

lemma sample_calendar_ok: "calendar_ok sample_calendar"
  by (simp add: calendar_ok_def sample_calendar_def is_digit_def)

lemma sample_thresholds [simp]:
  "thresholdOf (afterHours (sample_step 24 i)) = 1440" "thresholdOf (afterHours (sample_step 72 i)) = 4320"
  "es_id (sample_step n i) = i"
  by (simp_all add: sample_step_def thresholdOf_hours)

lemma sample_resolved: "resolveSteps sample_ladder = Inr [resolve (sample_step 24 ''s24''), resolve (sample_step 72 ''s72'')]"
  by (simp add: resolveSteps_def sample_ladder_def)

lemma sample_decide:
  "decide sample_ladder [] 0 3600000 =
    Inr \<lparr>due = [], next_due = Some (resolve (sample_step 24 ''s24''), ''1970-01-02T00:00:00.000Z''), elapsedMinutes = 60\<rparr>"
  "decide sample_ladder [] 0 86400000 =
    Inr \<lparr>due = [resolve (sample_step 24 ''s24'')],
      next_due = Some (resolve (sample_step 72 ''s72''), ''1970-01-04T00:00:00.000Z''), elapsedMinutes = 1440\<rparr>"
proof -
  have iso: "toISOString 86400000 = Some ''1970-01-02T00:00:00.000Z''"
    "toISOString 259200000 = Some ''1970-01-04T00:00:00.000Z''"
    by code_simp+
  show "decide sample_ladder [] 0 3600000 =
    Inr \<lparr>due = [], next_due = Some (resolve (sample_step 24 ''s24''), ''1970-01-02T00:00:00.000Z''), elapsedMinutes = 60\<rparr>"
    "decide sample_ladder [] 0 86400000 =
    Inr \<lparr>due = [resolve (sample_step 24 ''s24'')],
      next_due = Some (resolve (sample_step 72 ''s72''), ''1970-01-04T00:00:00.000Z''), elapsedMinutes = 1440\<rparr>"
    unfolding decide_def sample_resolved
    by (simp_all add: elapsedOf_def dueInstant_def sample_ladder_def Let_def iso)
qed

subsection \<open>Instants\<close>

text \<open>
  An instant printed by \<open>toISOString\<close> (years 0 to 9999) is accepted by the contract's
  \<open>IsoDateTime\<close>, and \<open>parseInstant\<close> reads the same instant back.
\<close>

theorem instants_roundtrip:
  assumes "iso_years ms" "toISOString ms = Some printed"
  shows "parseInstant name printed = Inr ms"
  by (rule parseInstant_toISOString [OF assms])

theorem instants_roundtrip_witness:
  "parseInstant ''now'' ''2026-08-01T16:00:00.123Z'' = Inr 1785600000123"
proof -
  have "toISOString 1785600000123 = Some ''2026-08-01T16:00:00.123Z''" by code_simp
  then show ?thesis using instants_roundtrip [of 1785600000123 _ "''now''"] by (simp add: iso_years_def)
qed

subsection \<open>The calendar\<close>

text \<open>
  \<open>workingMinutesBetween\<close>, which adds up one window a day, counts exactly the working minutes
  between the two instants: those of a working day, inside the window, from the minute of the first
  instant up to that of the second. It refuses a span of more than 3660 days and counts nothing backwards.
\<close>

theorem working_minutes_counted:
  "workingMinutesBetween fromMs toMs cal =
    (if toMs \<le> fromMs then Inr 0
     else if local_minute cal toMs div 1440 - local_minute cal fromMs div 1440 > 3660
     then Inl (NotifyConfigError ''escalation window spans more than 3660 days'')
     else Inr (int (card {m. local_minute cal fromMs \<le> m \<and> m < local_minute cal toMs \<and> working_minute cal m})))"
  using workingMinutesBetween_count [of fromMs toMs cal] unfolding working_count_def .

text \<open>
  The inverse: when \<open>addWorkingMinutes\<close> answers an instant, the requested number of working minutes
  has elapsed at an instant exactly when that is not before the answer.
\<close>

theorem working_minutes_added:
  assumes "calendar_ok cal" "0 < n" "addWorkingMinutes fromMs n cal = Inr t"
  shows "n \<le> int (card {m. local_minute cal fromMs \<le> m \<and> m < local_minute cal u \<and> working_minute cal m}) \<longleftrightarrow> t \<le> u"
proof -
  obtain l where l: "t = (l - utcOffsetMinutes cal) * 60000" "due_minute cal (local_minute cal fromMs) n l"
    using addWorkingMinutes_spec [OF assms(1,2), of fromMs] assms(3) by auto
  show ?thesis
    using due_minute_least [OF l(2), of "local_minute cal u"] unfolding working_count_def local_minute_ge l(1) .
qed

theorem working_minutes_added_witness:
  "60 \<le> int (card {m. local_minute sample_calendar 1785740400000 \<le> m \<and> m < local_minute sample_calendar 1785747600000 \<and>
      working_minute sample_calendar m}) \<longleftrightarrow> (1785744000000 :: int) \<le> 1785747600000"
proof -
  have "add_days (toLocal 1785740400000 sample_calendar) sample_calendar (0 # [1..3660]) 60 = Some 1785744000000"
  proof -
    have "isWorkingDay 20668 sample_calendar" by code_simp
    then show ?thesis
      by (simp add: toLocal_def Let_def sample_calendar_def MINUTE_MS_def DAY_MINUTES_def toInstant_def)
  qed
  moreover have "[0..3660] = 0 # [1..3660 :: int]" by (subst upto_rec1) simp_all
  ultimately have "addWorkingMinutes 1785740400000 60 sample_calendar = Inr 1785744000000"
    by (simp add: addWorkingMinutes_def MAX_DAYS_def)
  then show ?thesis by (intro working_minutes_added [OF sample_calendar_ok]) simp_all
qed

subsection \<open>The ladder\<close>

text \<open>
  C39: However often a waiting gate is polled, and however the ladder is edited between the polls, no
  step id fires twice, and none that was remembered as fired fires again; and a poll that succeeds
  leaves no reached step behind: it is fired then or was before.
\<close>

theorem steps_fire_once:
  "distinct (concat (ladder_polls openedAt fired ps)) \<and> set (concat (ladder_polls openedAt fired ps)) \<inter> set fired = {} \<and>
   (\<forall>ladder now d. decide ladder fired openedAt now = Inr d \<longrightarrow>
     (\<forall>s \<in> set (steps ladder). thresholdOf (afterHours s) \<le> elapsedMinutes d \<longrightarrow>
        es_id s \<in> set fired \<or> es_id s \<in> set (map stepId (due d))))"
  using polls_distinct [of openedAt fired ps] due_complete by blast

theorem steps_fire_once_witness:
  "es_id (sample_step 24 ''s24'') \<in> set (map stepId [resolve (sample_step 24 ''s24'')])"
proof -
  have "sample_step 24 ''s24'' \<in> set (steps sample_ladder)" by (simp add: sample_ladder_def)
  then show ?thesis
    using steps_fire_once [of 0 "[]" "[]"] sample_decide(2) thresholdOf_hours [of 24]
    by (force simp: sample_step_def)
qed

text \<open>
  The instant the ladder hands to the timer is the right one, on wall-clock and on working time:
  before it a later poll finds nothing new, from it on the announced step is due.
\<close>

theorem timer_is_exact:
  assumes "calendar_ok (ladder_calendar ladder)"
    and "decide ladder fired openedAt now = Inr d" "next_due d = Some (s, printed)"
    and "decide ladder fired openedAt now' = Inr d'" "now \<le> now'"
  shows "\<exists>t. toISOString t = Some printed \<and> now < t \<and>
    (now' < t \<longrightarrow> due d' = due d) \<and> (t \<le> now' \<longrightarrow> s \<in> set (due d'))"
  by (rule timer_exact [OF assms(1,2,4,5,3)])

theorem timer_is_exact_witness:
  "\<exists>t. toISOString t = Some ''1970-01-02T00:00:00.000Z'' \<and> (3600000 :: int) < t \<and>
    ((86400000 :: int) < t \<longrightarrow> [resolve (sample_step 24 ''s24'')] = []) \<and>
    (t \<le> 86400000 \<longrightarrow> resolve (sample_step 24 ''s24'') \<in> set [resolve (sample_step 24 ''s24'')])"
  using timer_is_exact [OF _ sample_decide(1) _ sample_decide(2)] sample_calendar_ok
  by (simp add: sample_ladder_def)

subsection \<open>Delivery\<close>

text \<open>
  The fan-out tries every target, whatever happened to the others: the failures it reports are
  those of the targets whose own retries failed, each named once; a target whose first success comes
  within the limit, after transient failures only, is never among them.
\<close>

theorem fanout_is_exact:
  "fst ` set (sendToEachTarget policy attempt targets) =
     {t \<in> set targets. \<exists>e. snd (sendWithRetry policy (attempt t)) = Inl e} \<and>
   distinct (map fst (sendToEachTarget policy attempt targets)) \<and>
   (\<forall>t k. attempt t k = Sent \<and> 1 \<le> k \<and> k \<le> max 1 (maxAttempts policy) \<and> (\<forall>i \<in> {1..<k}. \<exists>a. attempt t i = Transient a)
      \<longrightarrow> t \<notin> fst ` set (sendToEachTarget policy attempt targets))"
  using sendWithRetry_sent unfolding fanout_targets(1) by (auto simp: fanout_targets(2))

definition sample_attempt :: "string \<Rightarrow> nat \<Rightarrow> attempt_outcome" where
  "sample_attempt t n = (if n < 3 then Transient None else Sent)"

theorem fanout_is_exact_witness:
  "''ops'' \<notin> fst ` set (sendToEachTarget \<lparr>maxAttempts = 3, baseDelayMs = 500, maxDelayMs = 10000\<rparr> sample_attempt [''ops''])"
proof -
  have "sample_attempt ''ops'' 3 = Sent" "\<forall>i \<in> {1..<3}. \<exists>a. sample_attempt ''ops'' i = Transient a"
    by (auto simp: sample_attempt_def)
  then show ?thesis
    using conjunct2 [OF conjunct2 [OF fanout_is_exact], rule_format,
        of sample_attempt "''ops''" 3 "\<lparr>maxAttempts = 3, baseDelayMs = 500, maxDelayMs = 10000\<rparr>"] by simp
qed

subsection \<open>Mail\<close>

text \<open>
  Whatever the relay answers and wherever the connection breaks: without a verified TLS session the
  client writes nothing but EHLO, STARTTLS and QUIT, unless the configuration is plain text, and no
  credential unless that allows insecure authentication; every command is a single line; the body
  is written only after a RCPT line for each recipient, in order, and a reported success means it was.
\<close>

theorem mail_is_protected:
  assumes "smtp_deliver config password env (IoOk s0) = (r, Some s)" "fresh_sock s0"
  shows "(\<forall>(encrypted, step, line) \<in> set (written s).
      (encrypted \<or> step \<in> {Ehlo, StartTls, Quit} \<or>
        (security config = Plaintext \<and> (step = Auth \<longrightarrow> allowInsecureAuth config))) \<and>
      (step \<noteq> Body \<longrightarrow> (\<exists>command. headerSafe command \<and> line = command @ CRLF)) \<and>
      (step = Body \<longrightarrow> rcpt_lines (written s) = map rcpt_line (env_to env))) \<and>
    (r = Inr () \<longrightarrow> has_body (written s))"
proof -
  have log: "log_ok config env (written s)" "r = Inr () \<longrightarrow> has_body (written s)"
    using smtp_deliver_log [OF assms] by auto
  have "(encrypted \<or> step \<in> {Ehlo, StartTls, Quit} \<or>
        (security config = Plaintext \<and> (step = Auth \<longrightarrow> allowInsecureAuth config))) \<and>
      (step \<noteq> Body \<longrightarrow> (\<exists>command. headerSafe command \<and> line = command @ CRLF)) \<and>
      (step = Body \<longrightarrow> rcpt_lines (written s) = map rcpt_line (env_to env))"
    if l: "(encrypted, step, line) \<in> set (written s)" for encrypted step line
  proof -
    have all: "\<forall>l \<in> set (written s). line_protected config l" "\<forall>l \<in> set (written s). line_single env l"
      using log(1) by (simp_all add: log_ok_def list_all_iff)
    have "line_protected config (encrypted, step, line)" "line_single env (encrypted, step, line)"
      using bspec [OF all(1) l] bspec [OF all(2) l] by simp_all
    moreover have "step = Body \<Longrightarrow> has_body (written s)" using l by (force simp: has_body_def)
    ultimately show ?thesis
      using log(1) unfolding log_ok_def line_protected_def line_single_def by (simp split: if_splits)
  qed
  then show ?thesis using log(2) by blast
qed

definition sample_config :: smtp_config where
  "sample_config = \<lparr>host = ''relay'', security = Starttls, username = None, ehloName = ''maestro'',
     allowInsecureAuth = False\<rparr>"

definition sample_env :: smtp_envelope where
  "sample_env = \<lparr>env_from = ''m@b.tr'', env_to = [''a@b.tr''], env_data = ''x''\<rparr>"

definition sample_sock :: sock where
  "sample_sock = \<lparr>reader_buffer = [], reads = map (\<lambda>l. Bytes (l @ CRLF))
       [''220 hi'', ''250-relay'' @ CRLF @ ''250 STARTTLS'', ''220 go'', ''250 relay'', ''250 ok'', ''250 ok'', ''354 go'', ''250 queued''],
     write_fails = [], tls_now = IoOk None,
     tls_upgrade = IoOk \<lparr>authorized = True, protocol = ''TLSv1.3'', servername = ''relay''\<rparr>,
     tlsActive = False, written = []\<rparr>"

lemma sample_delivery:
  "case smtp_deliver sample_config None sample_env (IoOk sample_sock) of
    (r, s) \<Rightarrow> r = Inr () \<and> map_option (\<lambda>s. map (\<lambda>(e, step, _). (e, step)) (written s)) s =
      Some [(False, Ehlo), (False, StartTls), (True, Ehlo), (True, MailFrom), (True, RcptTo),
        (True, Data), (True, Body), (True, Quit)]"
  by code_simp

theorem mail_is_protected_witness:
  "\<exists>s. smtp_deliver sample_config None sample_env (IoOk sample_sock) = (Inr (), Some s) \<and> has_body (written s)"
proof -
  obtain r s where d: "smtp_deliver sample_config None sample_env (IoOk sample_sock) = (r, s)" by fastforce
  with sample_delivery obtain s' where s': "r = Inr ()" "s = Some s'" by auto
  have "fresh_sock sample_sock" by (simp add: fresh_sock_def sample_sock_def)
  from mail_is_protected [OF d [unfolded s'] this] s' d show ?thesis by simp
qed




end
