(* ===== verification/Idem_Guard.thy ===== *)
theory Idem_Guard
  imports Prelude
begin

text \<open>
  The table-backed idempotency guard of the activities, \<open>apps/deploy/src/stores/idempotency.ts\<close>:
  \<open>once key fn\<close> by any number of worker processes on one table. A process moves from one database
  statement or one completion of the effect to the next; which process moves, whether the effect
  succeeds, a statement fails, a wait times out or the process dies is the schedule. \<open>completed\<close>
  records the effects that ran to their end.
\<close>

type_synonym idem_key = string

datatype 'v idem_row = RowRunning | RowDone 'v

text \<open>Where a call of \<open>once\<close> stands.\<close>

datatype 'v once_pc =
    Idle
  | Looking idem_key          \<comment> \<open>before the first \<open>findUnique\<close>\<close>
  | Claiming idem_key         \<comment> \<open>before \<open>claim\<close>\<close>
  | Executing idem_key        \<comment> \<open>the claim is won, \<open>fn\<close> runs\<close>
  | Saving idem_key 'v        \<comment> \<open>\<open>fn\<close> returned, before \<open>update\<close>\<close>
  | Releasing idem_key        \<comment> \<open>\<open>fn\<close> threw, before \<open>delete\<close>\<close>
  | Waiting idem_key          \<comment> \<open>the loop of \<open>awaitResult\<close>\<close>
  | Retrying idem_key         \<comment> \<open>\<open>retryAfterRelease\<close>, before its \<open>claim\<close>\<close>
  | Undoing idem_key          \<comment> \<open>\<open>retryAfterRelease\<close>, before its \<open>delete\<close>\<close>
  | Returned idem_key 'v
  | Threw idem_key
  | Dead

record 'v idem =
  table :: "idem_key \<Rightarrow> 'v idem_row option"
  procs :: "nat \<Rightarrow> 'v once_pc"
  completed :: "(idem_key \<times> 'v) list"

text \<open>
  What a process meets next: a call, a statement that works (\<open>Go\<close>), an effect that returns, an error
  (of the effect, of the statement), the deadline of the wait, the end of the process.
\<close>

datatype 'v once_event = Call idem_key | Go | Returns 'v | Errs | Deadline | Dies

definition set_row :: "idem_key \<Rightarrow> 'v idem_row option \<Rightarrow> 'v idem \<Rightarrow> 'v idem" where
  "set_row k r w = w\<lparr>table := (table w)(k := r)\<rparr>"

definition set_proc :: "nat \<Rightarrow> 'v once_pc \<Rightarrow> 'v idem \<Rightarrow> 'v idem" where
  "set_proc i pc w = w\<lparr>procs := (procs w)(i := pc)\<rparr>"

text \<open>An event that does not fit where the process stands changes nothing.\<close>

fun once_move :: "nat \<Rightarrow> 'v once_pc \<Rightarrow> 'v once_event \<Rightarrow> 'v idem \<Rightarrow> 'v idem" where
  "once_move i Idle (Call k) w = set_proc i (Looking k) w"
| "once_move i (Looking k) Go w =
    (case table w k of Some (RowDone v) \<Rightarrow> set_proc i (Returned k v) w | _ \<Rightarrow> set_proc i (Claiming k) w)"
| "once_move i (Claiming k) Go w =
    (case table w k of None \<Rightarrow> set_proc i (Executing k) (set_row k (Some RowRunning) w)
     | Some _ \<Rightarrow> set_proc i (Waiting k) w)"
| "once_move i (Executing k) (Returns v) w = set_proc i (Saving k v) (w\<lparr>completed := completed w @ [(k, v)]\<rparr>)"
| "once_move i (Executing k) Errs w = set_proc i (Releasing k) w"
| "once_move i (Saving k v) Go w = set_proc i (Returned k v) (set_row k (Some (RowDone v)) w)"
| "once_move i (Releasing k) Go w = set_proc i (Threw k) (set_row k None w)"
| "once_move i (Waiting k) Go w =
    (case table w k of None \<Rightarrow> set_proc i (Retrying k) w
     | Some (RowDone v) \<Rightarrow> set_proc i (Returned k v) w
     | Some RowRunning \<Rightarrow> w)"
| "once_move i (Waiting k) Deadline w =
    (case table w k of Some RowRunning \<Rightarrow> set_proc i (Threw k) w | _ \<Rightarrow> w)"
| "once_move i (Retrying k) Go w =
    (case table w k of None \<Rightarrow> set_proc i (Undoing k) (set_row k (Some RowRunning) w)
     | Some _ \<Rightarrow> set_proc i (Waiting k) w)"
| "once_move i (Undoing k) Go w = set_proc i (Threw k) (set_row k None w)"
| "once_move i (Looking k) Errs w = set_proc i (Threw k) w"
| "once_move i (Claiming k) Errs w = set_proc i (Threw k) w"
| "once_move i (Saving k v) Errs w = set_proc i (Threw k) w"
| "once_move i (Releasing k) Errs w = set_proc i (Threw k) w"
| "once_move i (Waiting k) Errs w = set_proc i (Threw k) w"
| "once_move i (Retrying k) Errs w = set_proc i (Threw k) w"
| "once_move i (Undoing k) Errs w = set_proc i (Threw k) w"
| "once_move i (Returned k v) (Call k') w = set_proc i (Looking k') w"
| "once_move i (Threw k) (Call k') w = set_proc i (Looking k') w"
| "once_move i pc Dies w = set_proc i Dead w"
| "once_move i pc e w = w"

fun once_run :: "(nat \<times> 'v once_event) list \<Rightarrow> 'v idem \<Rightarrow> 'v idem" where
  "once_run [] w = w"
| "once_run ((i, e) # es) w = once_run es (once_move i (procs w i) e w)"

definition idem_start :: "'v idem" where
  "idem_start = \<lparr>table = Map.empty, procs = \<lambda>_. Idle, completed = []\<rparr>"

subsection \<open>The envelope of a result\<close>

text \<open>An effect may return \<open>undefined\<close>, which JSON has no value for.\<close>

datatype 'v js_result = Undefined | Value 'v

datatype 'v stored = Envelope "'v option" | NotAnObject

definition encode :: "'v js_result \<Rightarrow> 'v stored" where
  "encode r = (case r of Undefined \<Rightarrow> Envelope None | Value v \<Rightarrow> Envelope (Some v))"

definition decode :: "'v stored \<Rightarrow> 'v js_result option" where
  "decode s = (case s of Envelope None \<Rightarrow> Some Undefined | Envelope (Some v) \<Rightarrow> Some (Value v) | NotAnObject \<Rightarrow> None)"

lemma decode_encode [simp]: "decode (encode r) = Some r"
  by (cases r) (simp_all add: encode_def decode_def)

subsection \<open>Invariant\<close>

text \<open>The process holds the claim of the key.\<close>

fun holds :: "idem_key \<Rightarrow> 'v once_pc \<Rightarrow> bool" where
  "holds k (Executing k') \<longleftrightarrow> k' = k"
| "holds k (Saving k' v) \<longleftrightarrow> k' = k"
| "holds k (Releasing k') \<longleftrightarrow> k' = k"
| "holds k (Undoing k') \<longleftrightarrow> k' = k"
| "holds k _ \<longleftrightarrow> False"

definition idem_inv :: "'v idem \<Rightarrow> bool" where
  "idem_inv w \<longleftrightarrow>
     (\<forall>i k. holds k (procs w i) \<longrightarrow> table w k = Some RowRunning) \<and>
     (\<forall>i j k. holds k (procs w i) \<longrightarrow> holds k (procs w j) \<longrightarrow> i = j) \<and>
     distinct (map fst (completed w)) \<and>
     (\<forall>k v. (k, v) \<in> set (completed w) \<longrightarrow>
        (table w k = Some (RowDone v) \<or> table w k = Some RowRunning) \<and>
        (\<forall>i. holds k (procs w i) \<longrightarrow> procs w i = Saving k v)) \<and>
     (\<forall>i k v. procs w i = Saving k v \<or> procs w i = Returned k v \<longrightarrow> (k, v) \<in> set (completed w)) \<and>
     (\<forall>k v. table w k = Some (RowDone v) \<longrightarrow> (k, v) \<in> set (completed w))"

lemma idem_inv_start: "idem_inv idem_start"
  by (simp add: idem_inv_def idem_start_def)

lemma idem_invD:
  assumes "idem_inv w"
  shows "holds k (procs w i) \<Longrightarrow> table w k = Some RowRunning"
    "holds k (procs w i) \<Longrightarrow> holds k (procs w j) \<Longrightarrow> i = j"
    "distinct (map fst (completed w))"
    "(k, v) \<in> set (completed w) \<Longrightarrow> table w k = Some (RowDone v) \<or> table w k = Some RowRunning"
    "(k, v) \<in> set (completed w) \<Longrightarrow> holds k (procs w i) \<Longrightarrow> procs w i = Saving k v"
    "procs w i = Saving k v \<Longrightarrow> (k, v) \<in> set (completed w)"
    "procs w i = Returned k v \<Longrightarrow> (k, v) \<in> set (completed w)"
    "table w k = Some (RowDone v) \<Longrightarrow> (k, v) \<in> set (completed w)"
  using assms unfolding idem_inv_def by blast+

lemma idem_invI:
  assumes "\<And>i k. holds k (procs w i) \<Longrightarrow> table w k = Some RowRunning"
    "\<And>i j k. holds k (procs w i) \<Longrightarrow> holds k (procs w j) \<Longrightarrow> i = j"
    "distinct (map fst (completed w))"
    "\<And>k v. (k, v) \<in> set (completed w) \<Longrightarrow> table w k = Some (RowDone v) \<or> table w k = Some RowRunning"
    "\<And>i k v. (k, v) \<in> set (completed w) \<Longrightarrow> holds k (procs w i) \<Longrightarrow> procs w i = Saving k v"
    "\<And>i k v. procs w i = Saving k v \<Longrightarrow> (k, v) \<in> set (completed w)"
    "\<And>i k v. procs w i = Returned k v \<Longrightarrow> (k, v) \<in> set (completed w)"
    "\<And>k v. table w k = Some (RowDone v) \<Longrightarrow> (k, v) \<in> set (completed w)"
  shows "idem_inv w"
  unfolding idem_inv_def using assms by blast

lemma moved [simp]:
  "table (set_proc i pc w) = table w" "completed (set_proc i pc w) = completed w"
  "procs (set_proc i pc w) = (procs w)(i := pc)"
  "table (set_row k r w) = (table w)(k := r)" "completed (set_row k r w) = completed w"
  "procs (set_row k r w) = procs w"
  by (simp_all add: set_proc_def set_row_def)

text \<open>A process that claims nothing; what it held stays in the table.\<close>

lemma idem_inv_quiet:
  assumes inv: "idem_inv w" and pc: "\<And>k. \<not> holds k pc"
    and ret: "\<And>k v. pc = Returned k v \<Longrightarrow> (k, v) \<in> set (completed w)"
  shows "idem_inv (set_proc i pc w)"
proof (rule idem_invI)
  note D = idem_invD [OF inv]
  have "pc \<noteq> Saving k v" for k v using pc [of k] by (cases pc) auto
  then show "procs (set_proc i pc w) j = Saving k v \<Longrightarrow> (k, v) \<in> set (completed (set_proc i pc w))" for j k v
    using D(6) by (auto split: if_splits)
  show "procs (set_proc i pc w) j = Returned k v \<Longrightarrow> (k, v) \<in> set (completed (set_proc i pc w))" for j k v
    using D(7) ret by (simp split: if_splits)
  show "holds k (procs (set_proc i pc w) j) \<Longrightarrow> table (set_proc i pc w) k = Some RowRunning" for j k
    using D(1) pc by (simp split: if_splits)
  show "holds k (procs (set_proc i pc w) j) \<Longrightarrow> holds k (procs (set_proc i pc w) j') \<Longrightarrow> j = j'" for j j' k
    using D(2) pc by (simp split: if_splits)
  show "(k, v) \<in> set (completed (set_proc i pc w)) \<Longrightarrow> holds k (procs (set_proc i pc w) j) \<Longrightarrow>
      procs (set_proc i pc w) j = Saving k v" for j k v
    using D(5) pc by (simp split: if_splits)
  show "distinct (map fst (completed (set_proc i pc w)))" using D(3) by simp
  show "(k, v) \<in> set (completed (set_proc i pc w)) \<Longrightarrow>
      table (set_proc i pc w) k = Some (RowDone v) \<or> table (set_proc i pc w) k = Some RowRunning" for k v
    using D(4) by simp
  show "table (set_proc i pc w) k = Some (RowDone v) \<Longrightarrow> (k, v) \<in> set (completed (set_proc i pc w))" for k v
    using D(8) by simp
qed

lemma idem_inv_claim:
  assumes inv: "idem_inv w" and free: "table w k = None" and pc: "pc = Executing k \<or> pc = Undoing k"
  shows "idem_inv (set_proc i pc (set_row k (Some RowRunning) w))"
proof (rule idem_invI)
  let ?w = "set_proc i pc (set_row k (Some RowRunning) w)"
  note D = idem_invD [OF inv]
  have h: "holds k' pc \<longleftrightarrow> k' = k" for k' using pc by auto
  have nobody: "\<not> holds k (procs w j)" for j using D(1) free by fastforce
  have fresh: "(k, v) \<notin> set (completed w)" for v using D(4) free by fastforce
  show "holds k' (procs ?w j) \<Longrightarrow> table ?w k' = Some RowRunning" for j k'
    using D(1) h by (auto split: if_splits)
  show "holds k' (procs ?w j) \<Longrightarrow> holds k' (procs ?w j') \<Longrightarrow> j = j'" for j j' k'
    using D(2) h nobody by (auto split: if_splits)
  show "(k', v) \<in> set (completed ?w) \<Longrightarrow> table ?w k' = Some (RowDone v) \<or> table ?w k' = Some RowRunning" for k' v
    using D(4) by simp
  show "(k', v) \<in> set (completed ?w) \<Longrightarrow> holds k' (procs ?w j) \<Longrightarrow> procs ?w j = Saving k' v" for j k' v
    using D(5) h fresh by (auto split: if_splits)
  show "procs ?w j = Saving k' v \<Longrightarrow> (k', v) \<in> set (completed ?w)" for j k' v
    using D(6) pc by (auto split: if_splits)
  show "procs ?w j = Returned k' v \<Longrightarrow> (k', v) \<in> set (completed ?w)" for j k' v
    using D(7) pc by (auto split: if_splits)
  show "table ?w k' = Some (RowDone v) \<Longrightarrow> (k', v) \<in> set (completed ?w)" for k' v
    using D(8) by (simp split: if_splits)
  show "distinct (map fst (completed ?w))" using D(3) by simp
qed

lemma idem_inv_release:
  assumes inv: "idem_inv w" and pc: "procs w i = Releasing k \<or> procs w i = Undoing k"
  shows "idem_inv (set_proc i (Threw k) (set_row k None w))"
proof (rule idem_invI)
  let ?w = "set_proc i (Threw k) (set_row k None w)"
  note D = idem_invD [OF inv]
  have h: "holds k (procs w i)" using pc by auto
  have only: "\<not> holds k (procs w j)" if "j \<noteq> i" for j using D(2) [OF h] that by blast
  have fresh: "(k, v) \<notin> set (completed w)" for v using D(5) [OF _ h] pc by fastforce
  show "holds k' (procs ?w j) \<Longrightarrow> table ?w k' = Some RowRunning" for j k'
    using D(1) only by (auto split: if_splits)
  show "holds k' (procs ?w j) \<Longrightarrow> holds k' (procs ?w j') \<Longrightarrow> j = j'" for j j' k'
    using D(2) by (auto split: if_splits)
  show "(k', v) \<in> set (completed ?w) \<Longrightarrow> table ?w k' = Some (RowDone v) \<or> table ?w k' = Some RowRunning" for k' v
    using D(4) fresh by auto
  show "(k', v) \<in> set (completed ?w) \<Longrightarrow> holds k' (procs ?w j) \<Longrightarrow> procs ?w j = Saving k' v" for j k' v
    using D(5) by (auto split: if_splits)
  show "procs ?w j = Saving k' v \<Longrightarrow> (k', v) \<in> set (completed ?w)" for j k' v
    using D(6) by (auto split: if_splits)
  show "procs ?w j = Returned k' v \<Longrightarrow> (k', v) \<in> set (completed ?w)" for j k' v
    using D(7) by (auto split: if_splits)
  show "table ?w k' = Some (RowDone v) \<Longrightarrow> (k', v) \<in> set (completed ?w)" for k' v
    using D(8) by (simp split: if_splits)
  show "distinct (map fst (completed ?w))" using D(3) by simp
qed

lemma idem_inv_failed:
  assumes inv: "idem_inv w" and pc: "procs w i = Executing k"
  shows "idem_inv (set_proc i (Releasing k) w)"
proof (rule idem_invI)
  let ?w = "set_proc i (Releasing k) w"
  note D = idem_invD [OF inv]
  have h: "holds k (procs w i)" using pc by auto
  have same: "holds k' (procs ?w j) \<longleftrightarrow> holds k' (procs w j)" for k' j using pc by simp
  have fresh: "(k, v) \<notin> set (completed w)" for v using D(5) [OF _ h] pc by fastforce
  show "holds k' (procs ?w j) \<Longrightarrow> table ?w k' = Some RowRunning" for j k'
    using D(1) unfolding same by simp
  show "holds k' (procs ?w j) \<Longrightarrow> holds k' (procs ?w j') \<Longrightarrow> j = j'" for j j' k'
    using D(2) unfolding same .
  show "(k', v) \<in> set (completed ?w) \<Longrightarrow> table ?w k' = Some (RowDone v) \<or> table ?w k' = Some RowRunning" for k' v
    using D(4) by simp
  show "(k', v) \<in> set (completed ?w) \<Longrightarrow> holds k' (procs ?w j) \<Longrightarrow> procs ?w j = Saving k' v" for j k' v
    using D(5) fresh by (auto split: if_splits)
  show "procs ?w j = Saving k' v \<Longrightarrow> (k', v) \<in> set (completed ?w)" for j k' v
    using D(6) by (auto split: if_splits)
  show "procs ?w j = Returned k' v \<Longrightarrow> (k', v) \<in> set (completed ?w)" for j k' v
    using D(7) by (auto split: if_splits)
  show "table ?w k' = Some (RowDone v) \<Longrightarrow> (k', v) \<in> set (completed ?w)" for k' v
    using D(8) by simp
  show "distinct (map fst (completed ?w))" using D(3) by simp
qed

lemma idem_inv_complete:
  assumes inv: "idem_inv w" and pc: "procs w i = Executing k"
  shows "idem_inv (set_proc i (Saving k v) (w\<lparr>completed := completed w @ [(k, v)]\<rparr>))"
proof (rule idem_invI)
  let ?w = "set_proc i (Saving k v) (w\<lparr>completed := completed w @ [(k, v)]\<rparr>)"
  note D = idem_invD [OF inv]
  have h: "holds k (procs w i)" using pc by auto
  have only: "\<not> holds k (procs w j)" if "j \<noteq> i" for j using D(2) [OF h] that by blast
  have fresh: "(k, v') \<notin> set (completed w)" for v' using D(5) [OF _ h] pc by fastforce
  show "holds k' (procs ?w j) \<Longrightarrow> table ?w k' = Some RowRunning" for j k'
    using D(1) D(1) [OF h] by (auto split: if_splits)
  show "holds k' (procs ?w j) \<Longrightarrow> holds k' (procs ?w j') \<Longrightarrow> j = j'" for j j' k'
    using D(2) only by (auto split: if_splits)
  show "distinct (map fst (completed ?w))" using D(3) fresh by force
  show "(k', v') \<in> set (completed ?w) \<Longrightarrow> table ?w k' = Some (RowDone v') \<or> table ?w k' = Some RowRunning" for k' v'
    using D(4) D(1) [OF h] by auto
  show "(k', v') \<in> set (completed ?w) \<Longrightarrow> holds k' (procs ?w j) \<Longrightarrow> procs ?w j = Saving k' v'" for j k' v'
    using D(5) only fresh by (auto split: if_splits)
  show "procs ?w j = Saving k' v' \<Longrightarrow> (k', v') \<in> set (completed ?w)" for j k' v'
    using D(6) by (auto split: if_splits)
  show "procs ?w j = Returned k' v' \<Longrightarrow> (k', v') \<in> set (completed ?w)" for j k' v'
    using D(7) by (auto split: if_splits)
  show "table ?w k' = Some (RowDone v') \<Longrightarrow> (k', v') \<in> set (completed ?w)" for k' v'
    using D(8) by simp
qed

lemma idem_inv_save:
  assumes inv: "idem_inv w" and pc: "procs w i = Saving k v"
  shows "idem_inv (set_proc i (Returned k v) (set_row k (Some (RowDone v)) w))"
proof (rule idem_invI)
  let ?w = "set_proc i (Returned k v) (set_row k (Some (RowDone v)) w)"
  note D = idem_invD [OF inv]
  have h: "holds k (procs w i)" using pc by auto
  have only: "\<not> holds k (procs w j)" if "j \<noteq> i" for j using D(2) [OF h] that by blast
  have same: "v' = v" if "(k, v') \<in> set (completed w)" for v' using D(5) [OF that h] pc by simp
  show "holds k' (procs ?w j) \<Longrightarrow> table ?w k' = Some RowRunning" for j k'
    using D(1) only by (auto split: if_splits)
  show "holds k' (procs ?w j) \<Longrightarrow> holds k' (procs ?w j') \<Longrightarrow> j = j'" for j j' k'
    using D(2) by (auto split: if_splits)
  show "(k', v') \<in> set (completed ?w) \<Longrightarrow> table ?w k' = Some (RowDone v') \<or> table ?w k' = Some RowRunning" for k' v'
    using D(4) same by auto
  show "(k', v') \<in> set (completed ?w) \<Longrightarrow> holds k' (procs ?w j) \<Longrightarrow> procs ?w j = Saving k' v'" for j k' v'
    using D(5) by (auto split: if_splits)
  show "procs ?w j = Saving k' v' \<Longrightarrow> (k', v') \<in> set (completed ?w)" for j k' v'
    using D(6) by (auto split: if_splits)
  show "procs ?w j = Returned k' v' \<Longrightarrow> (k', v') \<in> set (completed ?w)" for j k' v'
    using D(6,7) pc by (auto split: if_splits)
  show "table ?w k' = Some (RowDone v') \<Longrightarrow> (k', v') \<in> set (completed ?w)" for k' v'
    using D(6,8) pc by (auto split: if_splits)
  show "distinct (map fst (completed ?w))" using D(3) by simp
qed

lemma idem_inv_move:
  assumes inv: "idem_inv w"
  shows "idem_inv (once_move i (procs w i) e w)"
proof -
  note rules = idem_inv_quiet [OF inv] idem_inv_claim [OF inv] idem_inv_release [OF inv]
    idem_inv_complete [OF inv] idem_inv_save [OF inv] idem_inv_failed [OF inv] and finished = idem_invD(8) [OF inv]
  show ?thesis
    by (cases "procs w i"; cases e)
      (auto intro!: rules finished simp: inv split: option.split idem_row.split)
qed


lemma once_run_induct:
  assumes "P w" "\<And>w i e. P w \<Longrightarrow> P (once_move i (procs w i) e w)"
  shows "P (once_run es w)"
  using assms(1)
proof (induction es w rule: once_run.induct)
  case (2 i e es w)
  then show ?case using assms(2) by simp
qed simp

lemma idem_inv_run: "idem_inv (once_run es idem_start)"
  by (rule once_run_induct) (auto intro: idem_inv_start idem_inv_move)

subsection \<open>A claim nobody holds\<close>

definition orphaned :: "idem_key \<Rightarrow> 'v idem \<Rightarrow> bool" where
  "orphaned k w \<longleftrightarrow> table w k = Some RowRunning \<and> (\<forall>i. \<not> holds k (procs w i))"

lemma orphaned_move:
  assumes "orphaned k w"
  shows "orphaned k (once_move i (procs w i) e w) \<and>
    filter (\<lambda>c. fst c = k) (completed (once_move i (procs w i) e w)) = filter (\<lambda>c. fst c = k) (completed w) \<and>
    (\<forall>j v. procs (once_move i (procs w i) e w) j = Returned k v \<longrightarrow> procs w j = Returned k v)"
proof -
  have run: "table w k = Some RowRunning" and free: "\<And>j. \<not> holds k (procs w j)"
    using assms by (auto simp: orphaned_def)
  show ?thesis
    using run free free [of i]
    by (cases "procs w i"; cases e)
      (auto simp: orphaned_def split: option.split idem_row.split)
qed

lemma orphaned_run:
  assumes "orphaned k w"
  shows "orphaned k (once_run es w) \<and>
    filter (\<lambda>c. fst c = k) (completed (once_run es w)) = filter (\<lambda>c. fst c = k) (completed w) \<and>
    (\<forall>j v. procs (once_run es w) j = Returned k v \<longrightarrow> procs w j = Returned k v)"
proof (rule once_run_induct)
  fix w' i e
  assume "orphaned k w' \<and> filter (\<lambda>c. fst c = k) (completed w') = filter (\<lambda>c. fst c = k) (completed w) \<and>
    (\<forall>j v. procs w' j = Returned k v \<longrightarrow> procs w j = Returned k v)"
  then show "orphaned k (once_move i (procs w' i) e w') \<and>
    filter (\<lambda>c. fst c = k) (completed (once_move i (procs w' i) e w')) = filter (\<lambda>c. fst c = k) (completed w) \<and>
    (\<forall>j v. procs (once_move i (procs w' i) e w') j = Returned k v \<longrightarrow> procs w j = Returned k v)"
    using orphaned_move [of k w' i e] by metis
qed (use assms in simp)

end
