(* ===== verification/Act_Base.thy ===== *)
theory Act_Base
  imports Notify_Send Audit_Event Idem_Guard
begin

text \<open>
  What the activities of a worker have in common: the ports they call
  (\<open>packages/workflows/src/impl/deps.ts\<close>), one call of \<open>once\<close> by a worker that is alone with its key
  (\<open>apps/deploy/src/stores/idempotency.ts\<close>; the interleavings are in \<open>Idem_Guard\<close>), and the three records
  an activity leaves (\<open>impl/record.ts\<close>).

  An attempt of an activity meets an \<open>env\<close>: what the directory, the parameters and the clock answer
  (\<open>None\<close> is a port that throws), which store operations fail, and for each guarded effect whether it
  is performed, refused, performed without the worker learning it, or the end of the worker.
\<close>

subsection \<open>Effects\<close>

datatype meta_value = MStr string | MNum nat | MBool bool | MStrs "string list" | MDouble double | MNull

datatype effect =
    EJournal string journal_kind journal_actor string string
  | EAudit audit_action string string "(string \<times> meta_value) list"
  | EComment string string
  | ENotify notification
  | EMove string string
  | EAssign string string
  | ELabels string "string list"
  | EOpenPr "string \<times> string" string string string string
  | EActivatePr "string \<times> string" nat

text \<open>What an effect returns: nothing, the outcome of a status move, the number of a pull request.\<close>

datatype act_value = VVoid | VMoved bool "string option" | VPr nat

datatype effect_outcome =
    Performed act_value
  | Refused
  | Unanswered        \<comment> \<open>performed, and the answer was lost\<close>
  | WorkerDies bool   \<comment> \<open>whether it was performed before\<close>
  | GuardDown         \<comment> \<open>the guard's own table does not answer\<close>
  | Unsaved           \<comment> \<open>performed, and the result could not be stored\<close>

record gate_row =
  gr_ownerGroup :: string
  gr_openedAt :: int
  gr_fired :: "string list"
  gr_closedAt :: "int option"

text \<open>
  Of \<open>RunContext\<close>, what the activities decide on; the fields they only pass to a driver (the prompt variant,
  the paths and commands of the checkout) are the driver's answer here.
\<close>

datatype lifecycle = LifeRunning | LifeDone | LifeCancelled

record run_context =
  rc_runId :: string
  rc_ticket :: string
  rc_app :: "(string \<times> string) option"   \<comment> \<open>\<open>adoProject\<close>, \<open>adoRepo\<close>\<close>
  rc_dataClass :: data_class
  rc_locale :: locale_id
  rc_mode :: work_mode
  rc_step :: string
  rc_status :: lifecycle
  rc_workspacePresent :: bool
  rc_branch :: string
  rc_targetBranch :: string
  rc_risk :: "risk_tier option"
  rc_prId :: "nat option"
  rc_resumeToken :: "string option"

record act_state =
  claims :: "string \<Rightarrow> act_value idem_row option"
  gate_rows :: "string \<times> string \<Rightarrow> gate_row option"
  run_rows :: "string \<Rightarrow> run_context option"
  performed :: "(string \<times> effect \<times> bool) list"
  ended_runs :: "string list"

datatype act_error =
    PortFailed string
  | EffectFailed string
  | GuardTimeout string
  | WorkerDied
  | GateNotFound string string
  | NoApplicationBound string
  | PrNotCompleted nat
  | EmptyClarification
  | RunNotFound string
  | PlanFailed notify_error
  | BadDate
  | QuotaWait "int option"
  | LlmBlocked string
  | LlmAuthRejected string
  | LlmAuthError "nat option"
  | ModelError string

record env =
  outcome :: "string \<Rightarrow> effect_outcome"
  store_fails :: "string \<Rightarrow> bool"
  now_ms :: int
  activityId :: string
  attempt :: nat
  groupForRole :: "string \<Rightarrow> string option"
  membersOf :: "string \<Rightarrow> string list option"
  verifyMembership :: "string \<Rightarrow> string \<Rightarrow> bool option"
  notifyRouting :: "notify_routing option"
  escalationLadder :: "escalation_ladder option"
  reporter :: "string option option"
  error_text :: "act_error \<Rightarrow> string"
  translate :: "locale_id \<Rightarrow> string \<Rightarrow> (string \<times> string) list \<Rightarrow> string"

type_synonym 'a act_io = "act_state \<Rightarrow> (act_error + 'a) \<times> act_state"

definition aret :: "'a \<Rightarrow> 'a act_io" where
  "aret x s = (Inr x, s)"

definition afail :: "act_error \<Rightarrow> 'a act_io" where
  "afail e s = (Inl e, s)"

definition abind :: "'a act_io \<Rightarrow> ('a \<Rightarrow> 'b act_io) \<Rightarrow> 'b act_io" where
  "abind m f s = (case m s of (Inl e, s') \<Rightarrow> (Inl e, s') | (Inr x, s') \<Rightarrow> f x s')"

definition athen :: "'a act_io \<Rightarrow> 'b act_io \<Rightarrow> 'b act_io" where
  "athen m n = abind m (\<lambda>_. n)"

definition ask :: "string \<Rightarrow> 'a option \<Rightarrow> 'a act_io" where
  "ask port x = (case x of None \<Rightarrow> afail (PortFailed port) | Some v \<Rightarrow> aret v)"

definition astore :: "env \<Rightarrow> string \<Rightarrow> unit act_io" where
  "astore env op = (if store_fails env op then afail (PortFailed op) else aret ())"

fun aeach :: "('a \<Rightarrow> unit act_io) \<Rightarrow> 'a list \<Rightarrow> unit act_io" where
  "aeach f [] = aret ()"
| "aeach f (x # xs) = athen (f x) (aeach f xs)"

subsection \<open>The guard\<close>

text \<open>
  A worker alone with the key: a finished key is replayed, a claim left behind is waited for until the
  deadline, a free key is claimed, the effect run, and the claim turned into the result or released.
\<close>

definition log_effect :: "string \<Rightarrow> effect \<Rightarrow> bool \<Rightarrow> act_state \<Rightarrow> act_state" where
  "log_effect k e acked s = s\<lparr>performed := performed s @ [(k, e, acked)]\<rparr>"

definition set_claim :: "string \<Rightarrow> act_value idem_row option \<Rightarrow> act_state \<Rightarrow> act_state" where
  "set_claim k r s = s\<lparr>claims := (claims s)(k := r)\<rparr>"

definition once_with :: "effect_outcome \<Rightarrow> string \<Rightarrow> effect \<Rightarrow> act_value act_io" where
  "once_with oc key e s =
    (case claims s key of
       Some (RowDone v) \<Rightarrow> (Inr v, s)
     | Some RowRunning \<Rightarrow> (Inl (GuardTimeout key), s)
     | None \<Rightarrow> (case oc of
         Performed v \<Rightarrow> (Inr v, set_claim key (Some (RowDone v)) (log_effect key e True s))
       | Refused \<Rightarrow> (Inl (EffectFailed key), s)
       | Unanswered \<Rightarrow> (Inl (EffectFailed key), log_effect key e False s)
       | WorkerDies done \<Rightarrow> (Inl WorkerDied, set_claim key (Some RowRunning)
           (if done then log_effect key e False s else s))
       | GuardDown \<Rightarrow> (Inl (PortFailed ''idempotency''), s)
       | Unsaved \<Rightarrow> (Inl (PortFailed ''idempotency''), set_claim key (Some RowRunning) (log_effect key e False s))))"

definition once :: "env \<Rightarrow> string \<Rightarrow> effect \<Rightarrow> act_value act_io" where
  "once env key e = once_with (outcome env key) key e"

definition once_void :: "env \<Rightarrow> string \<Rightarrow> effect \<Rightarrow> unit act_io" where
  "once_void env key e = athen (once env key e) (aret ())"

subsection \<open>record.ts\<close>

definition WORKER_ACTOR :: string where
  "WORKER_ACTOR = ''maestro-worker''"

definition record_entry ::
  "env \<Rightarrow> run_context \<Rightarrow> journal_kind \<Rightarrow> journal_actor \<Rightarrow> string \<Rightarrow> string \<Rightarrow> string \<Rightarrow> unit act_io" where
  "record_entry env run kind actor title detail key =
    once_void env (rc_runId run @ '':journal:'' @ key) (EJournal (rc_runId run) kind actor title detail)"

definition audit_record ::
  "env \<Rightarrow> run_context \<Rightarrow> audit_action \<Rightarrow> string option \<Rightarrow> (string \<times> meta_value) list \<Rightarrow> string \<Rightarrow> unit act_io" where
  "audit_record env run action actor meta key =
    once_void env (rc_runId run @ '':audit:'' @ key)
      (EAudit action (case actor of None \<Rightarrow> WORKER_ACTOR | Some a \<Rightarrow> a) (rc_ticket run)
        ((''runId'', MStr (rc_runId run)) # meta))"

definition notifyEvent ::
  "env \<Rightarrow> run_context \<Rightarrow> notify_event \<Rightarrow> string \<Rightarrow> (string \<times> string) list \<Rightarrow> string list \<Rightarrow> string \<Rightarrow> unit act_io" where
  "notifyEvent env run event msg params to key =
    (if to = [] then aret ()
     else abind (ask ''params.notifyRouting'' (notifyRouting env)) (\<lambda>routing.
       abind (case toISOString (now_ms env) of None \<Rightarrow> afail BadDate | Some at' \<Rightarrow> aret at') (\<lambda>at'.
       let (ns, muted) = routeNotification routing \<lparr>n_event = event, n_channel = ChTeams, n_to = to,
             n_locale = rc_locale run, n_messageKey = msg, n_params = params, n_at = at'\<rparr>
       in if muted
         then record_entry env run JOther JSystem ''bildirim susturuldu'' (event_str event @ '' (notify.routing)'') (''mute:'' @ key)
         else aeach (\<lambda>n. once_void env (rc_runId run @ '':notify:'' @ key @ '':'' @ channel_str (n_channel n)) (ENotify n)) ns)))"

subsection \<open>The context of a run\<close>

text \<open>\<open>try\<close> and \<open>catch\<close>: every error but the end of the worker.\<close>

definition acatch :: "'a act_io \<Rightarrow> (act_error \<Rightarrow> 'a act_io) \<Rightarrow> 'a act_io" where
  "acatch m h s = (case m s of
     (Inl e, s') \<Rightarrow> if e = WorkerDied then (Inl e, s') else h e s'
   | r \<Rightarrow> r)"

text \<open>The run a ticket means: a row that is not over.\<close>

definition live_run :: "act_state \<Rightarrow> string \<Rightarrow> run_context option" where
  "live_run s ticket = (case run_rows s ticket of Some r \<Rightarrow> if rc_status r = LifeRunning then Some r else None | None \<Rightarrow> None)"

definition run_get :: "env \<Rightarrow> string \<Rightarrow> run_context act_io" where
  "run_get env ticket s =
    (if store_fails env ''runs.get'' then (Inl (PortFailed ''runs.get''), s)
     else case live_run s ticket of None \<Rightarrow> (Inl (RunNotFound ticket), s) | Some r \<Rightarrow> (Inr r, s))"

definition run_patch :: "env \<Rightarrow> string \<Rightarrow> (run_context \<Rightarrow> run_context) \<Rightarrow> unit act_io" where
  "run_patch env ticket f s =
    (if store_fails env ''runs.patch'' then (Inl (PortFailed ''runs.patch''), s)
     else case live_run s ticket of None \<Rightarrow> (Inl (RunNotFound ticket), s)
       | Some r \<Rightarrow> (Inr (), s\<lparr>run_rows := (run_rows s)(ticket \<mapsto> f r)\<rparr>))"

subsection \<open>The guard's invariant\<close>

text \<open>
  A key is finished exactly when one acknowledged effect is logged for it, and then just one; \<open>keeps_guard\<close>
  is what every activity preserves: a finished key stays finished with its value, and no gate row goes away.
\<close>

definition acked :: "act_state \<Rightarrow> string \<Rightarrow> effect list" where
  "acked s k = map (fst \<circ> snd) (filter (\<lambda>(k', e, a). k' = k \<and> a) (performed s))"

definition key_done :: "act_state \<Rightarrow> string \<Rightarrow> bool" where
  "key_done s k \<longleftrightarrow> (\<exists>v. claims s k = Some (RowDone v))"

definition guard_ok :: "act_state \<Rightarrow> bool" where
  "guard_ok s \<longleftrightarrow> (\<forall>k. length (acked s k) = (if key_done s k then 1 else 0))"

definition grows :: "act_state \<Rightarrow> act_state \<Rightarrow> bool" where
  "grows s s' \<longleftrightarrow> (\<exists>l. performed s' = performed s @ l) \<and>
     (\<forall>k v. claims s k = Some (RowDone v) \<longrightarrow> claims s' k = Some (RowDone v)) \<and>
     (\<forall>k. gate_rows s k \<noteq> None \<longrightarrow> gate_rows s' k \<noteq> None)"

definition keeps_guard :: "'a act_io \<Rightarrow> bool" where
  "keeps_guard m \<longleftrightarrow> (\<forall>s. guard_ok s \<longrightarrow> guard_ok (snd (m s))) \<and> (\<forall>s. grows s (snd (m s)))"

named_theorems guard_intros \<open>activities keep the guard's invariant\<close>

lemma state_grows_refl [simp]: "grows s s"
  by (simp add: grows_def)

lemma state_grows_trans: "grows s t \<Longrightarrow> grows t u \<Longrightarrow> grows s u"
  unfolding grows_def by (metis append_assoc)

lemma grows_done: "grows s t \<Longrightarrow> key_done s k \<Longrightarrow> key_done t k"
  by (auto simp: grows_def key_done_def)

lemma keeps_aret [guard_intros]: "keeps_guard (aret x)"
  by (simp add: keeps_guard_def aret_def)

lemma keeps_fail [guard_intros]: "keeps_guard (afail e)"
  by (simp add: keeps_guard_def afail_def)

lemma keeps_bind [guard_intros]:
  assumes "keeps_guard m" "\<And>x. keeps_guard (f x)"
  shows "keeps_guard (abind m f)"
proof -
  have "(guard_ok s \<longrightarrow> guard_ok (snd (abind m f s))) \<and> grows s (snd (abind m f s))" for s
  proof (cases "m s")
    case (Pair r s')
    with assms(1) have m: "guard_ok s \<longrightarrow> guard_ok s'" "grows s s'"
      unfolding keeps_guard_def by (metis snd_conv)+
    show ?thesis
    proof (cases r)
      case (Inl e)
      then show ?thesis using m Pair by (simp add: abind_def)
    next
      case (Inr x)
      have "guard_ok s' \<longrightarrow> guard_ok (snd (f x s'))" "grows s' (snd (f x s'))"
        using assms(2) [of x] by (simp_all add: keeps_guard_def)
      then show ?thesis using m Pair Inr by (auto simp: abind_def intro: state_grows_trans)
    qed
  qed
  then show ?thesis by (simp add: keeps_guard_def)
qed

lemma keeps_then [guard_intros]: "keeps_guard m \<Longrightarrow> keeps_guard n \<Longrightarrow> keeps_guard (athen m n)"
  by (simp add: athen_def keeps_bind)

lemma keeps_ask [guard_intros]: "keeps_guard (ask p x)"
  by (cases x) (simp_all add: ask_def keeps_aret keeps_fail)

lemma keeps_store [guard_intros]: "keeps_guard (astore env op)"
  by (simp add: astore_def keeps_aret keeps_fail)

lemma keeps_each [guard_intros]: "(\<And>x. keeps_guard (f x)) \<Longrightarrow> keeps_guard (aeach f xs)"
  by (induction xs) (simp_all add: keeps_aret keeps_then)

lemma keeps_if [guard_intros]: "keeps_guard m \<Longrightarrow> keeps_guard n \<Longrightarrow> keeps_guard (if c then m else n)"
  by simp

lemma keeps_option [guard_intros]:
  "keeps_guard m \<Longrightarrow> (\<And>x. keeps_guard (f x)) \<Longrightarrow> keeps_guard (case o' of None \<Rightarrow> m | Some x \<Rightarrow> f x)"
  by (cases o') simp_all

lemma acked_log [simp]: "acked (log_effect k e a s) k' = acked s k' @ (if k' = k \<and> a then [e] else [])"
  by (auto simp: acked_def log_effect_def)

lemma acked_claim [simp]: "acked (set_claim k r s) k' = acked s k'"
  by (simp add: acked_def set_claim_def)

lemma done_log [simp]: "key_done (log_effect k e a s) k' = key_done s k'" "claims (log_effect k e a s) = claims s"
  by (simp_all add: key_done_def log_effect_def)

lemma done_claim [simp]: "key_done (set_claim k r s) k' \<longleftrightarrow> (if k' = k then \<exists>v. r = Some (RowDone v) else key_done s k')"
  by (simp add: key_done_def set_claim_def)

lemma performed_simps [simp]:
  "performed (log_effect k e a s) = performed s @ [(k, e, a)]" "performed (set_claim k r s) = performed s"
  "claims (set_claim k r s) = (claims s)(k := r)"
  "gate_rows (set_claim k r s) = gate_rows s" "gate_rows (log_effect k e a s) = gate_rows s"
  by (simp_all add: log_effect_def set_claim_def)

lemma not_done [simp]: "claims s k = None \<Longrightarrow> \<not> key_done s k"
  by (simp add: key_done_def)

lemma guard_ok_none: "guard_ok s \<Longrightarrow> claims s k = None \<Longrightarrow> acked s k = []"
  unfolding guard_ok_def key_done_def by (metis length_0_conv option.distinct(1))

lemma guard_ok_log: "guard_ok s \<Longrightarrow> guard_ok (log_effect k e False s)"
  by (simp add: guard_ok_def)

lemma guard_ok_running: "guard_ok s \<Longrightarrow> claims s k = None \<Longrightarrow> guard_ok (set_claim k (Some RowRunning) s)"
  by (simp add: guard_ok_def key_done_def)

lemma guard_ok_done:
  "guard_ok s \<Longrightarrow> claims s k = None \<Longrightarrow> guard_ok (set_claim k (Some (RowDone v)) (log_effect k e True s))"
  using guard_ok_none [of s k] by (simp add: guard_ok_def)

lemma keeps_once_with [guard_intros]: "keeps_guard (once_with oc key e)"
  unfolding keeps_guard_def
proof (intro conjI allI impI)
  fix s assume "guard_ok s"
  then show "guard_ok (snd (once_with oc key e s))"
    by (cases "claims s key"; cases oc)
      (auto simp: once_with_def guard_ok_done guard_ok_running guard_ok_log split: idem_row.split)
next
  fix s show "grows s (snd (once_with oc key e s))"
    by (cases "claims s key"; cases oc)
      (auto simp: once_with_def grows_def split: idem_row.split)
qed

lemma keeps_once [guard_intros]: "keeps_guard (once env key e)"
  by (simp add: once_def keeps_once_with)

lemma keeps_once_void [guard_intros]: "keeps_guard (once_void env key e)"
  by (simp add: once_void_def guard_intros)

lemma keeps_record [guard_intros]: "keeps_guard (record_entry env run kind actor title detail key)"
  by (simp add: record_entry_def keeps_once_void)

lemma keeps_audit [guard_intros]: "keeps_guard (audit_record env run action actor meta key)"
  by (simp add: audit_record_def keeps_once_void)

lemma keeps_notify [guard_intros]: "keeps_guard (notifyEvent env run event msg params to key)"
  unfolding notifyEvent_def Let_def
  by (auto intro!: guard_intros split: prod.split)

lemma keeps_catch [guard_intros]:
  assumes "keeps_guard m" "\<And>e. keeps_guard (h e)"
  shows "keeps_guard (acatch m h)"
proof -
  have "(guard_ok s \<longrightarrow> guard_ok (snd (acatch m h s))) \<and> grows s (snd (acatch m h s))" for s
  proof (cases "m s")
    case (Pair r s')
    with assms(1) have m: "guard_ok s \<longrightarrow> guard_ok s'" "grows s s'"
      unfolding keeps_guard_def by (metis snd_conv)+
    have h: "guard_ok s' \<longrightarrow> guard_ok (snd (h e s'))" "grows s' (snd (h e s'))" for e
      using assms(2) [of e] by (simp_all add: keeps_guard_def)
    show ?thesis
      using m h Pair by (auto simp: acatch_def split: sum.split intro: state_grows_trans)
  qed
  then show ?thesis by (simp add: keeps_guard_def)
qed

lemma keeps_run_get [guard_intros]: "keeps_guard (run_get env ticket)"
  by (auto simp: keeps_guard_def run_get_def split: option.split)

lemma keeps_run_patch [guard_intros]: "keeps_guard (run_patch env ticket f)"
  by (auto simp: keeps_guard_def run_patch_def guard_ok_def grows_def acked_def key_done_def split: option.split)

subsection \<open>What a successful activity has done\<close>

text \<open>Returning, the activity leaves the key finished.\<close>

definition finishes :: "'a act_io \<Rightarrow> string \<Rightarrow> bool" where
  "finishes m k \<longleftrightarrow> (\<forall>s x. fst (m s) = Inr x \<longrightarrow> key_done (snd (m s)) k)"

named_theorems finish_intros \<open>which keys an activity finishes\<close>

lemma finishes_once_with: "finishes (once_with oc key e) key"
  unfolding finishes_def
proof (intro allI impI)
  fix s x assume "fst (once_with oc key e s) = Inr x"
  then show "key_done (snd (once_with oc key e s)) key"
    by (cases "claims s key"; cases oc) (auto simp: once_with_def key_done_def split: idem_row.splits)
qed

lemma finishes_first:
  assumes "finishes m k" "\<And>x. keeps_guard (f x)"
  shows "finishes (abind m f) k"
  unfolding finishes_def
proof (intro allI impI)
  fix s x assume r: "fst (abind m f s) = Inr x"
  obtain y s' where m: "m s = (Inr y, s')" using r by (cases "m s"; cases "fst (m s)") (auto simp: abind_def)
  have "key_done s' k" using assms(1) m by (auto simp: finishes_def dest: spec [of _ s])
  moreover have "grows s' (snd (f y s'))" using assms(2) by (simp add: keeps_guard_def)
  ultimately show "key_done (snd (abind m f s)) k" using m by (simp add: abind_def grows_done)
qed

lemma finishes_later:
  assumes "\<And>x. finishes (f x) k"
  shows "finishes (abind m f) k"
  unfolding finishes_def
proof (intro allI impI)
  fix s x assume r: "fst (abind m f s) = Inr x"
  obtain y s' where m: "m s = (Inr y, s')" using r by (cases "m s"; cases "fst (m s)") (auto simp: abind_def)
  then show "key_done (snd (abind m f s)) k" using assms [of y] r by (simp add: finishes_def abind_def)
qed

lemma finishes_then_first [finish_intros]: "finishes m k \<Longrightarrow> keeps_guard n \<Longrightarrow> finishes (athen m n) k"
  by (simp add: athen_def finishes_first)

lemma finishes_then_later: "finishes n k \<Longrightarrow> finishes (athen m n) k"
  by (simp add: athen_def finishes_later)

lemma finishes_once_void [finish_intros]: "finishes (once_void env key e) key"
  unfolding once_void_def once_def by (intro finish_intros finishes_once_with guard_intros)

lemma finishes_record [finish_intros]:
  "k = rc_runId run @ '':journal:'' @ key \<Longrightarrow> finishes (record_entry env run kind actor title detail key) k"
  by (simp add: record_entry_def finishes_once_void)

lemma finishes_audit [finish_intros]:
  "k = rc_runId run @ '':audit:'' @ key \<Longrightarrow> finishes (audit_record env run action actor meta key) k"
  by (simp add: audit_record_def finishes_once_void)

text \<open>A guard in order has exactly one acknowledged effect behind a finished key.\<close>

lemma done_once: "guard_ok s \<Longrightarrow> key_done s k \<Longrightarrow> length (acked s k) = 1"
  by (simp add: guard_ok_def)

lemma keeps_guardD: "keeps_guard m \<Longrightarrow> guard_ok s \<Longrightarrow> guard_ok (snd (m s))"
  by (simp add: keeps_guard_def)

lemma keeps_growsD: "keeps_guard m \<Longrightarrow> grows s (snd (m s))"
  by (simp add: keeps_guard_def)

text \<open>A finished key is replayed: nothing is performed and nothing changes.\<close>

lemma once_replayed: "claims s key = Some (RowDone v) \<Longrightarrow> once env key e s = (Inr v, s)"
  by (simp add: once_def once_with_def)

lemma once_void_replayed: "key_done s key \<Longrightarrow> once_void env key e s = (Inr (), s)"
  by (auto simp: key_done_def once_void_def athen_def abind_def aret_def once_replayed)

end
