(* ===== verification/Act_Gate.thy ===== *)
theory Act_Gate
  imports Runtime Act_Base
begin

text \<open>
  The human gates (\<open>packages/workflows/src/impl/gate.ts\<close>) over the store of open gates
  (\<open>apps/deploy/src/stores/gates.ts\<close>), and the hand over of a ticket to a human with the ends of a model
  call (\<open>impl/outcome.ts\<close>). Letters outside ASCII are their UTF-8 bytes.
\<close>

subsection \<open>The gate store\<close>

text \<open>\<open>new Date(text)\<close>, \<open>None\<close> for the date that is not one.\<close>

definition new_Date :: "string \<Rightarrow> int option" where
  "new_Date s = (if iso_datetime_ok (asc s) then Some (date_parse s) else None)"

definition iso_text_of :: "int \<Rightarrow> string act_io" where
  "iso_text_of ms = (case toISOString ms of None \<Rightarrow> afail BadDate | Some t \<Rightarrow> aret t)"

definition put_gate :: "string \<Rightarrow> string \<Rightarrow> gate_row \<Rightarrow> act_state \<Rightarrow> act_state" where
  "put_gate runId st row s = s\<lparr>gate_rows := (gate_rows s)((runId, st) \<mapsto> row)\<rparr>"

definition findGate :: "string \<Rightarrow> string \<Rightarrow> gate_row option act_io" where
  "findGate runId st s = (Inr (gate_rows s (runId, st)), s)"

definition requireGate :: "string \<Rightarrow> string \<Rightarrow> gate_row act_io" where
  "requireGate runId st = abind (findGate runId st) (\<lambda>row.
     case row of None \<Rightarrow> afail (GateNotFound runId st) | Some g \<Rightarrow> aret g)"

text \<open>One statement inserts the row unless there is one; the row that is there is returned.\<close>

definition insertIfAbsent :: "string \<Rightarrow> string \<Rightarrow> string \<Rightarrow> int \<Rightarrow> unit act_io" where
  "insertIfAbsent runId st grp openedAt s =
    (case gate_rows s (runId, st) of
       Some _ \<Rightarrow> (Inr (), s)
     | None \<Rightarrow> (Inr (), put_gate runId st
         \<lparr>gr_ownerGroup = grp, gr_openedAt = openedAt, gr_fired = [], gr_closedAt = None\<rparr> s))"

definition gates_open :: "env \<Rightarrow> string \<Rightarrow> string \<Rightarrow> string \<Rightarrow> string \<Rightarrow> gate_row act_io" where
  "gates_open env runId st grp at' =
    athen (astore env ''gates.open'')
    (case new_Date at' of None \<Rightarrow> afail BadDate | Some t \<Rightarrow>
      athen (insertIfAbsent runId st grp t) (requireGate runId st))"

definition gates_get :: "env \<Rightarrow> string \<Rightarrow> string \<Rightarrow> gate_row option act_io" where
  "gates_get env runId st = athen (astore env ''gates.get'') (findGate runId st)"

definition gates_update :: "string \<Rightarrow> string \<Rightarrow> (gate_row \<Rightarrow> gate_row) \<Rightarrow> unit act_io" where
  "gates_update runId st f s =
    (case gate_rows s (runId, st) of None \<Rightarrow> (Inl (GateNotFound runId st), s)
     | Some g \<Rightarrow> (Inr (), put_gate runId st (f g) s))"

definition markFired :: "env \<Rightarrow> string \<Rightarrow> string \<Rightarrow> string list \<Rightarrow> unit act_io" where
  "markFired env runId st ids =
    (if ids = [] then aret ()
     else athen (astore env ''gates.markFired'') (athen (requireGate runId st)
       (gates_update runId st (\<lambda>g. g\<lparr>gr_fired := gr_fired g @ ids\<rparr>))))"

definition gates_close :: "env \<Rightarrow> string \<Rightarrow> string \<Rightarrow> string \<Rightarrow> unit act_io" where
  "gates_close env runId st at' =
    athen (astore env ''gates.close'') (abind (requireGate runId st) (\<lambda>g.
      case new_Date at' of None \<Rightarrow> afail BadDate
      | Some t \<Rightarrow> gates_update runId st (\<lambda>g'. g'\<lparr>gr_closedAt := Some (max t (gr_openedAt g))\<rparr>)))"

subsection \<open>Handing over: outcome.ts\<close>

definition set_mode :: "work_mode \<Rightarrow> run_context \<Rightarrow> run_context" where
  "set_mode m r = r\<lparr>rc_mode := m\<rparr>"

definition handOver :: "env \<Rightarrow> run_context \<Rightarrow> string \<Rightarrow> string \<Rightarrow> unit act_io" where
  "handOver env run reason key =
    athen (run_patch env (rc_ticket run) (set_mode AiAssist))
    (athen (record_entry env run JHandover JSystem ''insana devredildi'' reason (''handover:'' @ key))
    (athen (audit_record env run HANDOVER None [(''reason'', MStr reason)] (''handover:'' @ key))
    (abind (ask ''directory.membersOf'' (membersOf env ''tech-leads'')) (\<lambda>to.
      notifyEvent env run EvHandover ''notify.handover''
        [(''ticket'', rc_ticket run), (''reason'', reason)] to (''handover:'' @ key)))))"

definition AUTH_RETRY_MAX_ATTEMPTS :: nat where
  "AUTH_RETRY_MAX_ATTEMPTS = 30"

text \<open>A call of the model is any computation; the one failure the guard knows is \<open>LlmAuthError\<close>.\<close>

definition guardModelCall :: "env \<Rightarrow> run_context \<Rightarrow> string \<Rightarrow> 'a act_io \<Rightarrow> 'a act_io" where
  "guardModelCall env run what model s =
    (case model s of
       (Inl (LlmAuthError code), s') \<Rightarrow>
         (let status = (case code of Some n \<Rightarrow> ''HTTP '' @ dec n | None \<Rightarrow> ''HTTP 401/403'') in
          if attempt env < AUTH_RETRY_MAX_ATTEMPTS
          then athen (record_entry env run JOther JSystem (''model anahtar'' @ [CHR 0xC4, CHR 0xB1] @ '' reddedildi'')
                 (what @ ('' '' @ [CHR 0xC2, CHR 0xB7] @ '' '') @ status @ ('' '' @ [CHR 0xC2, CHR 0xB7] @ '' yeniden denenecek ('') @ dec (attempt env) @ ''/'' @ dec AUTH_RETRY_MAX_ATTEMPTS @ '')'')
                 (''auth-retry:'' @ what @ '':'' @ dec (attempt env)))
               (afail (LlmAuthError code)) s'
          else athen (handOver env run
                 (what @ ('': model anahtar'' @ [CHR 0xC4, CHR 0xB1] @ '' reddedildi ('') @ status @ '', '' @ dec (attempt env)
                   @ ('' deneme) '' @ [CHR 0xE2, CHR 0x80, CHR 0x94] @ '' Ayarlar > Ba'' @ [CHR 0xC4, CHR 0x9F] @ ''lant'' @ [CHR 0xC4, CHR 0xB1] @ ''lar'' @ [CHR 0x27] @ ''dan anahtar'' @ [CHR 0xC4, CHR 0xB1] @ '' d'' @ [CHR 0xC3, CHR 0xBC] @ ''zeltin''))
                 (''auth-rejected:'' @ what))
               (afail (LlmAuthRejected what)) s')
     | r \<Rightarrow> r)"

text \<open>The moment of a text that is no instant is \<open>NaN\<close>, and so is the delay.\<close>

definition quotaWait :: "int option \<Rightarrow> int \<Rightarrow> act_error" where
  "quotaWait resumeAt now = QuotaWait (map_option (\<lambda>t. max 0 (t - now)) resumeAt)"

datatype 'a llm_outcome =
    OcOk 'a
  | OcQueued string string     \<comment> \<open>\<open>resumeAt\<close>, \<open>reason\<close>\<close>
  | OcDegraded string string   \<comment> \<open>\<open>messageKey\<close>, \<open>dataClass\<close>\<close>
  | OcBlocked string

datatype 'a resolved = ResolvedOk 'a | ResolvedDegraded string

definition resolveOutcome :: "env \<Rightarrow> run_context \<Rightarrow> string \<Rightarrow> 'a llm_outcome \<Rightarrow> 'a resolved act_io" where
  "resolveOutcome env run what oc = (case oc of
     OcOk v \<Rightarrow> aret (ResolvedOk v)
   | OcQueued resumeAt reason \<Rightarrow>
       athen (record_entry env run JQuota JSystem (''LLM kotas'' @ [CHR 0xC4, CHR 0xB1] @ '' doldu'')
         (what @ ('' '' @ [CHR 0xC2, CHR 0xB7] @ '' '') @ reason @ ('' '' @ [CHR 0xC2, CHR 0xB7] @ '' '') @ resumeAt) (''quota:'' @ what @ '':'' @ resumeAt))
       (athen (audit_record env run QUOTA_WARN None [(''what'', MStr what), (''resumeAt'', MStr resumeAt)]
         (''quota:'' @ what @ '':'' @ resumeAt))
       (afail (quotaWait (new_Date resumeAt) (now_ms env))))
   | OcDegraded mkey dclass \<Rightarrow>
       athen (run_patch env (rc_ticket run) (set_mode AiAssist))
       (athen (record_entry env run JOther JSystem (''ai_assist moduna d'' @ [CHR 0xC3, CHR 0xBC, CHR 0xC5, CHR 0x9F, CHR 0xC3, CHR 0xBC] @ ''ld'' @ [CHR 0xC3, CHR 0xBC])
         (what @ ('' '' @ [CHR 0xC2, CHR 0xB7] @ '' '') @ mkey @ ('' '' @ [CHR 0xC2, CHR 0xB7] @ '' '') @ dclass) (''degrade:'' @ what))
       (athen (audit_record env run MODE_CHANGED None
         [(''what'', MStr what), (''to'', MStr ''ai_assist''), (''messageKey'', MStr mkey)] (''degrade:'' @ what))
       (aret (ResolvedDegraded mkey))))
   | OcBlocked mkey \<Rightarrow>
       athen (handOver env run (what @ '': '' @ mkey) (''blocked:'' @ what))
       (afail (LlmBlocked what)))"

subsection \<open>The gates: gate.ts\<close>

definition MASTER_APPROVER_GROUP :: string where
  "MASTER_APPROVER_GROUP = ''maestro-admins''"

definition isMasterApprover :: "env \<Rightarrow> string \<Rightarrow> bool act_io" where
  "isMasterApprover env userId =
    abind (ask ''directory.membersOf'' (membersOf env MASTER_APPROVER_GROUP)) (\<lambda>ms. aret (userId \<in> set ms))"

text \<open>The opening, the context of the run read.\<close>

definition open_for :: "env \<Rightarrow> string \<Rightarrow> step_id \<Rightarrow> string \<Rightarrow> run_context \<Rightarrow> string act_io" where
  "open_for env ticket st ownerGroup run =
    (abind (iso_text_of (now_ms env)) (\<lambda>at'.
    abind (ask ''directory.groupForRole'' (groupForRole env ownerGroup)) (\<lambda>group.
    athen (gates_open env (rc_runId run) (step_str st) group at')
    (athen (audit_record env run GATE_OPEN None
       [(''step'', MStr (step_str st)), (''ownerGroup'', MStr group)] (''open:'' @ step_str st))
    (athen (record_entry env run JGate JSystem ((''kap'' @ [CHR 0xC4, CHR 0xB1] @ '' '') @ step_str st @ ('' a'' @ [CHR 0xC3, CHR 0xA7, CHR 0xC4, CHR 0xB1] @ ''ld'' @ [CHR 0xC4, CHR 0xB1])) group (''open:'' @ step_str st))
    (athen (once_void env (rc_runId run @ '':gate-comment:'' @ step_str st)
       (EComment ticket (translate env (rc_locale run) ''jira.gate_open''
          [(''gate'', step_str st), (''group'', group)])))
    (abind (ask ''directory.membersOf'' (membersOf env group)) (\<lambda>to.
     athen (notifyEvent env run EvGateOpen ''notify.gate_open''
       [(''ticket'', ticket), (''gate'', step_str st), (''group'', group)] to (''open:'' @ step_str st))
     (aret group)))))))))"

definition openGate :: "env \<Rightarrow> string \<Rightarrow> step_id \<Rightarrow> string \<Rightarrow> string act_io" where
  "openGate env ticket st ownerGroup = abind (run_get env ticket) (open_for env ticket st ownerGroup)"

text \<open>A role the step does not have asks the directory nothing.\<close>

definition expected_group :: "env \<Rightarrow> step_id \<Rightarrow> string option act_io" where
  "expected_group env st = (case GATE_OWNER st of
     None \<Rightarrow> aret None
   | Some role \<Rightarrow> abind (ask ''directory.groupForRole'' (groupForRole env role)) (\<lambda>g. aret (Some g)))"

definition recordGateDecision :: "env \<Rightarrow> string \<Rightarrow> gate_decision \<Rightarrow> gate_verdict act_io" where
  "recordGateDecision env ticket d =
    abind (run_get env ticket) (\<lambda>run.
    abind (expected_group env (gd_step d)) (\<lambda>expected.
    abind (ask ''work.verifyMembership'' (verifyMembership env (gd_actorUserId d) (gd_actorGroup d))) (\<lambda>member.
    let st = step_str (gd_step d); key = st @ '':'' @ dec (gd_signatureSeq d) in
    if \<not> member \<or> expected \<noteq> None \<and> Some (gd_actorGroup d) \<noteq> expected
    then athen (record_entry env run JGate JSystem ([CHR 0xC3, CHR 0xBC] @ ''yelik do'' @ [CHR 0xC4, CHR 0x9F] @ ''rulanamad'' @ [CHR 0xC4, CHR 0xB1])
           (gd_actorUserId d @ ('' '' @ [CHR 0xC2, CHR 0xB7] @ '' '') @ gd_actorGroup d) (''deny:'' @ key))
         (aret (NotAccepted (gd_actorUserId d @ ('' '' @ [CHR 0xC2, CHR 0xB7] @ '' '' @ [CHR 0x22]) @ gd_actorGroup d @ ([CHR 0x22] @ '' '' @ [CHR 0xC3, CHR 0xBC] @ ''yeli'' @ [CHR 0xC4, CHR 0x9F] @ ''i do'' @ [CHR 0xC4, CHR 0x9F] @ ''rulanamad'' @ [CHR 0xC4, CHR 0xB1]))))
    else athen (audit_record env run (if gd_decision d = Approve then GATE_APPROVE else GATE_REJECT)
           (Some (gd_actorUserId d))
           [(''step'', MStr st), (''signatureSeq'', MNum (gd_signatureSeq d)),
            (''reason'', case gd_reason d of None \<Rightarrow> MNull | Some r \<Rightarrow> MStr r)] (''decision:'' @ key))
         (athen (gates_close env (rc_runId run) st (gd_at d))
         (athen (record_entry env run JGate JHuman
           ((''kap'' @ [CHR 0xC4, CHR 0xB1] @ '' '') @ st @ '': '' @ (if gd_decision d = Approve then ''onay'' else ''ret''))
           (case gd_reason d of None \<Rightarrow> [] | Some r \<Rightarrow> r) (''decision:'' @ key))
         (aret Accepted))))))"

definition join_ids :: "string \<Rightarrow> string list \<Rightarrow> string" where
  "join_ids sep ids = concat (case ids of [] \<Rightarrow> [] | x # xs \<Rightarrow> x # map (\<lambda>y. sep @ y) xs)"

definition escalate_key :: "run_context \<Rightarrow> step_id \<Rightarrow> notification \<Rightarrow> string" where
  "escalate_key run st n = rc_runId run @ '':escalate:'' @ step_str st @ '':'' @ n_messageKey n @ '':''
     @ n_at n @ '':'' @ channel_str (n_channel n)"

definition HOUR_MS :: int where
  "HOUR_MS = 3600000"

text \<open>The effects of a plan: every due message, the ids remembered, the journal.\<close>

definition send_due :: "env \<Rightarrow> run_context \<Rightarrow> step_id \<Rightarrow> escalation_plan \<Rightarrow> unit act_io" where
  "send_due env run st plan = aeach (\<lambda>n. once_void env (escalate_key run st n) (ENotify n)) (notifications plan)"

definition mark_due :: "env \<Rightarrow> run_context \<Rightarrow> step_id \<Rightarrow> escalation_plan \<Rightarrow> unit act_io" where
  "mark_due env run st plan = (let ids = map stepId (due (p_decision plan)) in
     if ids = [] then aret ()
       else athen (markFired env (rc_runId run) (step_str st) ids)
         (record_entry env run JGate JSystem ((''kap'' @ [CHR 0xC4, CHR 0xB1] @ '' '') @ step_str st @ ('' hat'' @ [CHR 0xC4, CHR 0xB1] @ ''rlat'' @ [CHR 0xC4, CHR 0xB1] @ ''c'' @ [CHR 0xC4, CHR 0xB1])) (join_ids '', '' ids)
           (''escalate:'' @ step_str st @ '':'' @ join_ids ''-'' ids)))"

definition note_delegations :: "env \<Rightarrow> run_context \<Rightarrow> step_id \<Rightarrow> escalation_plan \<Rightarrow> unit act_io" where
  "note_delegations env run st plan = aeach (\<lambda>d. record_entry env run JGate JSystem ((''kap'' @ [CHR 0xC4, CHR 0xB1] @ '' '') @ step_str st @ '' vekile devredildi'') (stepId d)
        (''delegate:'' @ step_str st @ '':'' @ stepId d)) (delegations plan)"

definition carry_out :: "env \<Rightarrow> run_context \<Rightarrow> step_id \<Rightarrow> escalation_plan \<Rightarrow> unit act_io" where
  "carry_out env run st plan =
    athen (send_due env run st plan) (athen (mark_due env run st plan) (note_delegations env run st plan))"

definition escalateGate :: "env \<Rightarrow> string \<Rightarrow> step_id \<Rightarrow> nat \<Rightarrow> string option act_io" where
  "escalateGate env ticket st waitingHours =
    abind (run_get env ticket) (\<lambda>run.
    abind (gates_get env (rc_runId run) (step_str st)) (\<lambda>row.
    case row of None \<Rightarrow> aret None
    | Some gate \<Rightarrow> if gr_closedAt gate \<noteq> None then aret None
      else
      abind (ask ''params.escalationLadder'' (escalationLadder env)) (\<lambda>ladder.
      abind (iso_text_of (gr_openedAt gate)) (\<lambda>openedAt.
      abind (iso_text_of (gr_openedAt gate + int waitingHours * HOUR_MS)) (\<lambda>now.
      abind (ask ''directory.membersOf'' (membersOf env (gr_ownerGroup gate))) (\<lambda>owners.
      abind (ask ''directory.membersOf'' (membersOf env (gr_ownerGroup gate @ ''-deputy''))) (\<lambda>deputies.
      case planEscalation ladder \<lparr>q_openedAt = openedAt, q_now = now, q_fired = gr_fired gate\<rparr> (rc_locale run)
          [(''ticket'', ticket), (''gate'', step_str st), (''group'', gr_ownerGroup gate), (''hours'', dec waitingHours)]
          (\<lambda>s. if es_action s = ActDelegate then deputies else owners) of
        Inl e \<Rightarrow> afail (PlanFailed e)
      | Inr plan \<Rightarrow> athen (carry_out env run st plan) (aret (map_option snd (next_due (p_decision plan)))))))))))"

subsection \<open>The ledger line of a st\<close>

fun journal_kind_str :: "journal_kind \<Rightarrow> string" where
  "journal_kind_str JIntake = ''intake''" | "journal_kind_str JClarification = ''clarification''"
| "journal_kind_str JDiscovery = ''discovery''" | "journal_kind_str JAnalysis = ''analysis''"
| "journal_kind_str JGate = ''gate''" | "journal_kind_str JEngineering = ''engineering''"
| "journal_kind_str JScan = ''scan''" | "journal_kind_str JReview = ''review''"
| "journal_kind_str JTestDesign = ''test_design''" | "journal_kind_str JTestReview = ''test_review''"
| "journal_kind_str JTestRun = ''test_run''" | "journal_kind_str JCi = ''ci''"
| "journal_kind_str JPr = ''pr''" | "journal_kind_str JHandover = ''handover''"
| "journal_kind_str JPii = ''pii''" | "journal_kind_str JQuota = ''quota''"
| "journal_kind_str JClosure = ''closure''" | "journal_kind_str JOther = ''other''"

definition JOURNAL_KINDS :: "journal_kind list" where
  "JOURNAL_KINDS = [JIntake, JClarification, JDiscovery, JAnalysis, JGate, JEngineering, JScan, JReview,
     JTestDesign, JTestReview, JTestRun, JCi, JPr, JHandover, JPii, JQuota, JClosure, JOther]"

definition parse_kind :: "string \<Rightarrow> journal_kind option" where
  "parse_kind s = find (\<lambda>k. journal_kind_str k = s) JOURNAL_KINDS"

text \<open>
  On the trimmed title: the word for "step" (with a dotless i), white space, digits, at most one letter of
  \<open>a-z\<close> or o with two dots.
\<close>

definition stepOfTitle :: "string \<Rightarrow> string option" where
  "stepOfTitle title =
    (let t = trim title; p = (''ad'' @ [CHR 0xC4, CHR 0xB1] @ ''m''); rest = drop (length p) t; id = dropWhile is_space rest;
         suffix = dropWhile is_digit id
     in if take (length p) t = p \<and> rest \<noteq> [] \<and> is_space (hd rest) \<and> id \<noteq> [] \<and> is_digit (hd id) \<and>
           (suffix = [] \<or> (\<exists>c. suffix = [c] \<and> is_lower c) \<or> suffix = [CHR 0xC3, CHR 0xB6])
        then Some id else None)"

definition journal :: "env \<Rightarrow> string \<Rightarrow> string \<Rightarrow> string \<Rightarrow> string \<Rightarrow> unit act_io" where
  "journal env ticket kind title detail =
    abind (run_get env ticket) (\<lambda>run.
    let resolved = (case parse_kind kind of Some k \<Rightarrow> k | None \<Rightarrow> JOther);
        key = activityId env @ '':'' @ journal_kind_str resolved @ '':'' @ title @ '':'' @ detail in
    athen (record_entry env run resolved JSystem title detail (''flow:'' @ key))
    (athen (if resolved = JGate \<or> resolved = JHandover
       then once_void env (rc_runId run @ '':comment:'' @ key)
         (EComment ticket (title @ (if detail = [] then [] else ('' '' @ [CHR 0xE2, CHR 0x80, CHR 0x94] @ '' '') @ detail)))
       else aret ())
    (case stepOfTitle title of None \<Rightarrow> aret () | Some st \<Rightarrow> run_patch env ticket (\<lambda>r. r\<lparr>rc_step := st\<rparr>))))"

definition end_session :: "string \<Rightarrow> unit act_io" where
  "end_session runId s = (Inr (), s\<lparr>ended_runs := ended_runs s @ [runId]\<rparr>)"

definition handOverToHuman :: "env \<Rightarrow> string \<Rightarrow> string \<Rightarrow> unit act_io" where
  "handOverToHuman env ticket reason =
    abind (run_get env ticket) (\<lambda>run.
    athen (handOver env run reason (''flow:'' @ reason)) (end_session (rc_runId run)))"

subsection \<open>The guard is kept\<close>

lemma keeps_pure:
  "(\<And>s. performed (snd (m s)) = performed s \<and> claims (snd (m s)) = claims s \<and>
     (\<forall>k. gate_rows s k \<noteq> None \<longrightarrow> gate_rows (snd (m s)) k \<noteq> None)) \<Longrightarrow> keeps_guard m"
  by (simp add: keeps_guard_def guard_ok_def grows_def acked_def key_done_def)

lemma keeps_find [guard_intros]: "keeps_guard (findGate r st)"
  by (rule keeps_pure) (simp add: findGate_def)

lemma keeps_insert [guard_intros]: "keeps_guard (insertIfAbsent r st g t)"
  by (rule keeps_pure) (simp add: insertIfAbsent_def put_gate_def split: option.split)

lemma keeps_update [guard_intros]: "keeps_guard (gates_update r st f)"
  by (rule keeps_pure) (simp add: gates_update_def put_gate_def split: option.split)

lemma keeps_end_session [guard_intros]: "keeps_guard (end_session r)"
  by (rule keeps_pure) (simp add: end_session_def)

lemma keeps_iso [guard_intros]: "keeps_guard (iso_text_of t)"
  by (auto simp: iso_text_of_def intro!: guard_intros)

lemma keeps_require [guard_intros]: "keeps_guard (requireGate r st)"
  by (auto simp: requireGate_def intro!: guard_intros)

lemma keeps_gates [guard_intros]:
  "keeps_guard (gates_open env r st g a)" "keeps_guard (gates_get env r st)"
  "keeps_guard (markFired env r st ids)" "keeps_guard (gates_close env r st a)"
  by (auto simp: gates_open_def gates_get_def markFired_def gates_close_def intro!: guard_intros)

lemma keeps_handing_over [guard_intros]: "keeps_guard (handOver env run reason key)"
  by (auto simp: handOver_def intro!: guard_intros)

lemma keeps_resolve [guard_intros]: "keeps_guard (resolveOutcome env run what oc)"
  by (cases oc) (auto simp: resolveOutcome_def intro!: guard_intros)

lemma keeps_expected [guard_intros]: "keeps_guard (expected_group env st)"
  by (auto simp: expected_group_def intro!: guard_intros)

lemma keeps_carry_parts [guard_intros]:
  "keeps_guard (send_due env run st plan)" "keeps_guard (mark_due env run st plan)"
  "keeps_guard (note_delegations env run st plan)"
  unfolding send_due_def mark_due_def note_delegations_def Let_def by (intro guard_intros)+

lemma keeps_carry_out [guard_intros]: "keeps_guard (carry_out env run st plan)"
  unfolding carry_out_def by (intro guard_intros)

lemma keeps_prod [guard_intros]:
  "(\<And>a b. keeps_guard (f a b)) \<Longrightarrow> keeps_guard (case p of (a, b) \<Rightarrow> f a b)"
  by (cases p) simp

lemma keeps_sum [guard_intros]:
  "(\<And>e. keeps_guard (f e)) \<Longrightarrow> (\<And>x. keeps_guard (g x)) \<Longrightarrow> keeps_guard (case r of Inl e \<Rightarrow> f e | Inr x \<Rightarrow> g x)"
  by (cases r) simp_all

lemma keeps_openGate [guard_intros]: "keeps_guard (openGate env ticket st g)"
  unfolding openGate_def open_for_def by (intro guard_intros)

lemma keeps_decision [guard_intros]: "keeps_guard (recordGateDecision env ticket d)"
  unfolding recordGateDecision_def Let_def by (intro guard_intros)

lemma keeps_escalate [guard_intros]: "keeps_guard (escalateGate env ticket st h)"
  unfolding escalateGate_def by (intro guard_intros)

lemma keeps_journal_entry [guard_intros]: "keeps_guard (journal env ticket kind title detail)"
  unfolding journal_def Let_def by (intro guard_intros)

lemma keeps_handOverToHuman [guard_intros]: "keeps_guard (handOverToHuman env ticket reason)"
  unfolding handOverToHuman_def by (intro guard_intros)

lemma keeps_guardModelCall [guard_intros]:
  assumes "keeps_guard m"
  shows "keeps_guard (guardModelCall env run what m)"
proof -
  have k: "keeps_guard (athen (record_entry env run kd ac t d ky) (afail e))" "keeps_guard (athen (handOver env run r ky) (afail e))"
    for kd ac t d ky e r by (intro guard_intros)+
  have "(guard_ok s \<longrightarrow> guard_ok (snd (guardModelCall env run what m s))) \<and> grows s (snd (guardModelCall env run what m s))" for s
  proof (cases "m s")
    case (Pair r s')
    have mm: "guard_ok s \<Longrightarrow> guard_ok s'" "grows s s'"
      using assms Pair unfolding keeps_guard_def by (metis snd_conv)+
    show ?thesis
      using mm keeps_guardD [OF k(1), of s'] keeps_guardD [OF k(2), of s'] state_grows_trans [OF mm(2) keeps_growsD [OF k(1)]]
        state_grows_trans [OF mm(2) keeps_growsD [OF k(2)]]
      by (auto simp: guardModelCall_def Pair Let_def split: sum.split act_error.split)
  qed
  then show ?thesis by (simp add: keeps_guard_def)
qed

end
