(* ===== verification/Act_Status.thy ===== *)
theory Act_Status
  imports Act_Gate
begin

text \<open>
  Moving the ticket on the board, \<open>packages/workflows/src/impl/status-move.ts\<close>. The driver's refusals and
  exceptions become data; \<open>has_mover\<close> says whether the installation's driver can move at all.
\<close>

fun point_str :: "move_point \<Rightarrow> string" where
  "point_str MStart = ''start''" | "point_str MNeedInfo = ''need_info''" | "point_str MReview = ''review''"
| "point_str MRejected = ''rejected''" | "point_str MDone = ''done''"

fun TITLES :: "move_point \<Rightarrow> string" where
  "TITLES MStart = (''durum: i'' @ [CHR 0xC5, CHR 0x9F] @ ''e al'' @ [CHR 0xC4, CHR 0xB1] @ ''nd'' @ [CHR 0xC4, CHR 0xB1])"
| "TITLES MNeedInfo = ''durum: bilgi bekleniyor''"
| "TITLES MReview = ''durum: incelemede''"
| "TITLES MRejected = (''durum: revizyona d'' @ [CHR 0xC3, CHR 0xB6] @ ''nd'' @ [CHR 0xC3, CHR 0xBC])"
| "TITLES MDone = (''durum: tamamland'' @ [CHR 0xC4, CHR 0xB1])"

definition REASONS :: "(string \<times> string) list" where
  "REASONS =
    [(''already'', ''ticket zaten bu durumda''),
     (''no_transition'', (''bu durumdan hedef duruma ge'' @ [CHR 0xC3, CHR 0xA7] @ ''i'' @ [CHR 0xC5, CHR 0x9F] @ '' tan'' @ [CHR 0xC4, CHR 0xB1] @ ''ml'' @ [CHR 0xC4, CHR 0xB1] @ '' de'' @ [CHR 0xC4, CHR 0x9F] @ ''il'')),
     (''forbidden'', (''servis hesab'' @ [CHR 0xC4, CHR 0xB1] @ ''n'' @ [CHR 0xC4, CHR 0xB1] @ ''n ge'' @ [CHR 0xC3, CHR 0xA7] @ ''i'' @ [CHR 0xC5, CHR 0x9F] @ '' yetkisi yok (Jira: Transition Issues)'')),
     (''read_failed'', (''Jira'' @ [CHR 0x27] @ ''dan mevcut durum/ge'' @ [CHR 0xC3, CHR 0xA7] @ ''i'' @ [CHR 0xC5, CHR 0x9F] @ ''ler okunamad'' @ [CHR 0xC4, CHR 0xB1])),
     (''transition_failed'', (''ge'' @ [CHR 0xC3, CHR 0xA7] @ ''i'' @ [CHR 0xC5, CHR 0x9F] @ '' uygulanamad'' @ [CHR 0xC4, CHR 0xB1])),
     (''bad_key'', (''ticket anahtar'' @ [CHR 0xC4, CHR 0xB1] @ '' ge'' @ [CHR 0xC3, CHR 0xA7] @ ''ersiz'')),
     (''bad_status_name'', (''kuralda hedef durum ad'' @ [CHR 0xC4, CHR 0xB1] @ '' bo'' @ [CHR 0xC5, CHR 0x9F])),
     (''no_capability'', (''bu kurulumun i'' @ [CHR 0xC5, CHR 0x9F] @ '' s'' @ [CHR 0xC3, CHR 0xBC] @ ''r'' @ [CHR 0xC3, CHR 0xBC] @ ''c'' @ [CHR 0xC3, CHR 0xBC] @ ''s'' @ [CHR 0xC3, CHR 0xBC] @ '' durum ge'' @ [CHR 0xC3, CHR 0xA7] @ ''i'' @ [CHR 0xC5, CHR 0x9F] @ ''i yapam'' @ [CHR 0xC4, CHR 0xB1] @ ''yor (yaln'' @ [CHR 0xC4, CHR 0xB1] @ ''z yorum modu)'')),
     (''no_reporter'', (''ticket'' @ [CHR 0x27, CHR 0xC4, CHR 0xB1] @ ''n talep sahibi okunamad'' @ [CHR 0xC4, CHR 0xB1]))]"

definition explain :: "string \<Rightarrow> string" where
  "explain reason = (case map_of REASONS reason of Some t \<Rightarrow> t | None \<Rightarrow> reason)"

record status_result =
  sm_moved :: bool
  sm_reason :: "string option"
  sm_reassigned :: bool

definition status_note :: "env \<Rightarrow> run_context \<Rightarrow> move_point \<Rightarrow> string \<Rightarrow> string \<Rightarrow> unit act_io" where
  "status_note env run pt detail key =
    record_entry env run JOther JSystem (TITLES pt) detail
      (''status:'' @ point_str pt @ '':'' @ activityId env @ '':'' @ key)"

definition status_key :: "env \<Rightarrow> run_context \<Rightarrow> move_point \<Rightarrow> string" where
  "status_key env run pt = rc_runId run @ '':status:'' @ point_str pt @ '':'' @ activityId env"

text \<open>The ticket is read first: a port that throws, no reporter, or one.\<close>

definition handBackToReporter :: "env \<Rightarrow> run_context \<Rightarrow> string \<Rightarrow> move_point \<Rightarrow> bool act_io" where
  "handBackToReporter env run ticket pt =
    (case reporter env of
       None \<Rightarrow> athen (status_note env run pt ((''talep sahibi okunamad'' @ [CHR 0xC4, CHR 0xB1] @ '': '') @ error_text env (PortFailed ''work.getTicket''))
                 ''reporter-read-failed'') (aret False)
     | Some who \<Rightarrow>
       (let name = (case who of None \<Rightarrow> [] | Some r \<Rightarrow> trim r) in
        if name = [] then athen (status_note env run pt (explain ''no_reporter'') ''no-reporter'') (aret False)
        else acatch
          (athen (once_void env (status_key env run pt @ '':assign'') (EAssign ticket name))
          (athen (status_note env run pt ((''ticket talep sahibine geri atand'' @ [CHR 0xC4, CHR 0xB1] @ '': '') @ name) ''reassigned'') (aret True)))
          (\<lambda>e. athen (status_note env run pt ((''talep sahibine atanamad'' @ [CHR 0xC4, CHR 0xB1] @ '': '') @ error_text env e) ''reassign-failed'')
             (aret False))))"

text \<open>The function guarded by the key catches what the driver throws, so it always has a result.\<close>

definition caught :: "env \<Rightarrow> string \<Rightarrow> effect_outcome \<Rightarrow> effect_outcome" where
  "caught env key oc =
    (if oc = Refused \<or> oc = Unanswered
     then Performed (VMoved False (Some (''driver_threw: '' @ error_text env (EffectFailed key)))) else oc)"

definition move_outcome :: "act_value \<Rightarrow> bool \<times> string" where
  "move_outcome v = (case v of VMoved m r \<Rightarrow> (m, case r of Some t \<Rightarrow> t | None \<Rightarrow> []) | _ \<Rightarrow> (False, []))"

definition board_move :: "env \<Rightarrow> bool \<Rightarrow> string \<Rightarrow> move_request \<Rightarrow> run_context \<Rightarrow> status_result act_io" where
  "board_move env has_mover ticket mv run =
    (let wanted = (case mr_status mv of None \<Rightarrow> [] | Some t \<Rightarrow> trim t); pt = mr_at mv; key = status_key env run pt in
    abind (if mr_toReporter mv then handBackToReporter env run ticket pt else aret False) (\<lambda>reassigned.
    if wanted = [] then aret \<lparr>sm_moved = False, sm_reason = Some ''no_status'', sm_reassigned = reassigned\<rparr>
    else if \<not> has_mover then
      athen (status_note env run pt (wanted @ ('' '' @ [CHR 0xE2, CHR 0x80, CHR 0x94] @ '' '') @ explain ''no_capability'') ''no-capability'')
        (aret \<lparr>sm_moved = False, sm_reason = Some ''no_capability'', sm_reassigned = reassigned\<rparr>)
    else
    abind (once_with (caught env key (outcome env key)) key (EMove ticket wanted)) (\<lambda>v.
    let (moved, reason) = move_outcome v in
    athen (status_note env run pt
        (if moved then (''ticket '' @ [CHR 0x27]) @ wanted @ ([CHR 0x27] @ '' durumuna ta'' @ [CHR 0xC5, CHR 0x9F, CHR 0xC4, CHR 0xB1] @ ''nd'' @ [CHR 0xC4, CHR 0xB1])
         else [CHR 0x27] @ wanted @ ([CHR 0x27] @ '' durumuna ta'' @ [CHR 0xC5, CHR 0x9F, CHR 0xC4, CHR 0xB1] @ ''namad'' @ [CHR 0xC4, CHR 0xB1] @ '' '' @ [CHR 0xE2, CHR 0x80, CHR 0x94] @ '' '') @ explain reason @ ('' (ak'' @ [CHR 0xC4, CHR 0xB1, CHR 0xC5, CHR 0x9F] @ '' etkilenmedi)''))
        (if moved then ''moved'' else ''not-moved:'' @ reason))
      (aret \<lparr>sm_moved = moved, sm_reason = (if moved \<or> reason = [] then None else Some reason),
             sm_reassigned = reassigned\<rparr>))))"

definition moveTicketStatus :: "env \<Rightarrow> bool \<Rightarrow> string \<Rightarrow> move_request \<Rightarrow> status_result act_io" where
  "moveTicketStatus env has_mover ticket mv = abind (run_get env ticket) (board_move env has_mover ticket mv)"

lemma keeps_note [guard_intros]: "keeps_guard (status_note env run pt detail key)"
  by (simp add: status_note_def guard_intros)

lemma keeps_handBack [guard_intros]: "keeps_guard (handBackToReporter env run ticket pt)"
  unfolding handBackToReporter_def Let_def by (intro guard_intros)

lemma keeps_move [guard_intros]: "keeps_guard (moveTicketStatus env has_mover ticket mv)"
  unfolding moveTicketStatus_def board_move_def Let_def by (intro guard_intros)

subsection \<open>No refusal stops the run\<close>

text \<open>
  What can stop an activity that has its run: the journal's own effects, the guard's table, a claim left
  behind, the end of the worker.
\<close>

definition board_error :: "run_context \<Rightarrow> act_error \<Rightarrow> bool" where
  "board_error run e \<longleftrightarrow> (case e of
     EffectFailed k \<Rightarrow> \<exists>t. k = rc_runId run @ '':journal:'' @ t
   | GuardTimeout k \<Rightarrow> True | WorkerDied \<Rightarrow> True | PortFailed p \<Rightarrow> p = ''idempotency'' | _ \<Rightarrow> False)"

definition only_errors :: "(act_error \<Rightarrow> bool) \<Rightarrow> 'a act_io \<Rightarrow> bool" where
  "only_errors P m \<longleftrightarrow> (\<forall>s e. fst (m s) = Inl e \<longrightarrow> P e)"

lemma only_ret: "only_errors P (aret x)"
  by (simp add: only_errors_def aret_def)

lemma only_bind:
  assumes "only_errors P m" "\<And>x. only_errors P (f x)"
  shows "only_errors P (abind m f)"
  unfolding only_errors_def
proof (intro allI impI)
  fix s e assume "fst (abind m f s) = Inl e"
  then show "P e" using assms(1) [unfolded only_errors_def, rule_format, of s] assms(2) [unfolded only_errors_def]
    by (cases "m s"; cases "fst (m s)") (auto simp: abind_def)
qed

lemma only_then: "only_errors P m \<Longrightarrow> only_errors P n \<Longrightarrow> only_errors P (athen m n)"
  by (simp add: athen_def only_bind)

lemma only_catch:
  assumes "\<And>e. only_errors P (h e)" "P WorkerDied"
  shows "only_errors P (acatch m h)"
  unfolding only_errors_def
proof (intro allI impI)
  fix s e assume "fst (acatch m h s) = Inl e"
  then show "P e" using assms
    by (cases "m s"; cases "fst (m s)") (auto simp: acatch_def only_errors_def split: if_splits)
qed

lemma only_once_with:
  assumes "oc = Refused \<or> oc = Unanswered \<Longrightarrow> P (EffectFailed k)" "P (GuardTimeout k)" "P WorkerDied" "P (PortFailed ''idempotency'')"
  shows "only_errors P (once_with oc k e)"
  unfolding only_errors_def
proof (intro allI impI)
  fix s r assume "fst (once_with oc k e s) = Inl r"
  then show "P r" using assms
    by (cases "claims s k"; cases oc) (auto simp: once_with_def split: idem_row.splits)
qed

lemma only_note: "only_errors (board_error run) (status_note env run pt detail key)"
  unfolding status_note_def record_entry_def once_void_def once_def
  by (intro only_then only_once_with only_ret) (auto simp: board_error_def)

lemma only_move_part:
  "only_errors (board_error run) (handBackToReporter env run ticket pt)"
  unfolding handBackToReporter_def Let_def
  by (auto intro!: only_then only_note only_catch only_ret simp: board_error_def split: option.split)

lemma only_if: "only_errors P m \<Longrightarrow> only_errors P n \<Longrightarrow> only_errors P (if c then m else n)"
  by simp

lemma only_prod: "(\<And>a b. only_errors P (f a b)) \<Longrightarrow> only_errors P (case p of (a, b) \<Rightarrow> f a b)"
  by (cases p) simp

lemma only_move: "only_errors (board_error run) (once_with (caught env k oc) k x)"
  by (rule only_once_with) (auto simp: board_error_def caught_def split: if_splits)

lemma only_board: "only_errors (board_error run) (board_move env has_mover ticket mv run)"
  unfolding board_move_def Let_def
  by (intro only_bind only_then only_if only_prod only_ret only_note only_move only_move_part)

lemma move_never_stops:
  assumes "live_run s ticket = Some run" "\<not> store_fails env ''runs.get''"
    "fst (moveTicketStatus env has_mover ticket mv s) = Inl e"
  shows "board_error run e"
proof -
  have "run_get env ticket s = (Inr run, s)" using assms by (simp add: run_get_def)
  then have "fst (board_move env has_mover ticket mv run s) = Inl e"
    using assms(3) by (simp add: moveTicketStatus_def abind_def)
  then show ?thesis using only_board by (auto simp: only_errors_def)
qed

end
