(* ===== verification/Act_Work.thy ===== *)
theory Act_Work
  imports Act_Status Agent_Turn
begin

text \<open>
  The working steps: the security scans (\<open>packages/workflows/src/impl/scan.ts\<close>) and the agent's turns with
  the roles that judge them (\<open>impl/engineering.ts\<close>). A scanner, a turn of the agent (modelled in
  \<open>Agent_Turn\<close>) and a call of the model are answers given to the activity; a driver that throws is the left
  side or \<open>None\<close>.
\<close>

subsection \<open>scan.ts\<close>

fun tool_str :: "scan_tool \<Rightarrow> string" where
  "tool_str Gitleaks = ''gitleaks''" | "tool_str Semgrep = ''semgrep''" | "tool_str Trivy = ''trivy''"
| "tool_str Sonarqube = ''sonarqube''" | "tool_str Fortify = ''fortify''" | "tool_str Xray = ''xray''"

fun scan_outcome_str :: "scan_outcome \<Rightarrow> string" where
  "scan_outcome_str ScanPass = ''pass''" | "scan_outcome_str ScanFail = ''fail''"
| "scan_outcome_str ScanError = ''error''"

definition CORE_SCAN_TOOLS :: "scan_tool list" where
  "CORE_SCAN_TOOLS = [Gitleaks, Semgrep, Trivy]"

text \<open>The message is cut at 500 characters; a character here is a byte, one of ASCII in the source.\<close>

definition scannerErrorResult :: "scan_tool \<Rightarrow> string \<Rightarrow> string \<Rightarrow> scan_result" where
  "scannerErrorResult tool at' msg =
    \<lparr>sr_tool = tool, sr_imageDigest = ''unknown'', sr_startedAt = at', sr_finishedAt = at',
     sr_findings = [\<lparr>sf_tool = tool, sf_severity = Critical, sf_ruleId = ''maestro.scanner_unavailable'',
       sf_file = None, sf_line = None, sf_message = take 500 msg\<rparr>],
     sr_outcome = ScanError\<rparr>"

fun scan_all :: "env \<Rightarrow> (scan_tool \<Rightarrow> string + scan_result) \<Rightarrow> scan_tool list \<Rightarrow> scan_result list act_io" where
  "scan_all env scan [] = aret []"
| "scan_all env scan (tool # tools) =
    abind (iso_text_of (now_ms env)) (\<lambda>startedAt.
    abind (scan_all env scan tools) (\<lambda>res.
    aret ((case scan tool of Inr r \<Rightarrow> r | Inl msg \<Rightarrow> scannerErrorResult tool startedAt msg) # res)))"

definition blocking_scans :: "scan_result list \<Rightarrow> scan_result list" where
  "blocking_scans res = filter (\<lambda>r. isScanBlocking (sr_outcome r)) res"

definition scan_line :: "scan_result \<Rightarrow> string" where
  "scan_line r = tool_str (sr_tool r) @ '': '' @ scan_outcome_str (sr_outcome r) @ '' ('' @ dec (length (sr_findings r)) @ '')''"

definition runScans :: "env \<Rightarrow> (scan_tool \<Rightarrow> string + scan_result) \<Rightarrow> string \<Rightarrow> nat \<Rightarrow> scan_result list act_io" where
  "runScans env scan ticket lap =
    abind (run_get env ticket) (\<lambda>run.
    abind (scan_all env scan CORE_SCAN_TOOLS) (\<lambda>res.
    athen (audit_record env run (if blocking_scans res = [] then SECURITY_SCAN_PASS else SECURITY_SCAN_FAIL) None
      [(''tools'', MStrs (map (\<lambda>r. tool_str (sr_tool r) @ '':'' @ scan_outcome_str (sr_outcome r)) res)),
       (''findings'', MNum (\<Sum>r\<leftarrow>res. length (sr_findings r)))] (''scan:'' @ dec lap))
    (athen (record_entry env run JScan JSystem
      (if blocking_scans res = [] then ''tarama temiz'' else ''tarama bloke etti'')
      (join_ids ('' '' @ [CHR 0xC2, CHR 0xB7] @ '' '') (map scan_line res)) (''scan:'' @ dec lap))
    (aret res))))"

subsection \<open>engineering.ts: the end of a turn\<close>

text \<open>UTF-16 units as UTF-8 bytes; half of a surrogate pair is the replacement character.\<close>

fun utf8 :: "units \<Rightarrow> string" where
  "utf8 [] = []"
| "utf8 (u # s) =
    (let n = unat u in
     if n < 0x80 then char_of n # utf8 s
     else if n < 0x800 then char_of (0xC0 + n div 64) # char_of (0x80 + n mod 64) # utf8 s
     else case s of
       v # t \<Rightarrow> if 0xD800 \<le> u \<and> u \<le> 0xDBFF \<and> 0xDC00 \<le> v \<and> v \<le> 0xDFFF
         then (let p = 0x10000 + (n - 0xD800) * 1024 + (unat v - 0xDC00)
           in char_of (0xF0 + p div 262144) # char_of (0x80 + p div 4096 mod 64)
              # char_of (0x80 + p div 64 mod 64) # char_of (0x80 + p mod 64) # utf8 t)
         else (if 0xD800 \<le> u \<and> u \<le> 0xDFFF then [CHR 0xEF, CHR 0xBF, CHR 0xBD]
           else [char_of (0xE0 + n div 4096), char_of (0x80 + n div 64 mod 64), char_of (0x80 + n mod 64)]) @ utf8 s
     | [] \<Rightarrow> (if 0xD800 \<le> u \<and> u \<le> 0xDFFF then [CHR 0xEF, CHR 0xBF, CHR 0xBD]
           else [char_of (0xE0 + n div 4096), char_of (0x80 + n div 64 mod 64), char_of (0x80 + n mod 64)]))"

definition int_str :: "int \<Rightarrow> string" where
  "int_str i = (if i < 0 then ''-'' else []) @ dec (nat \<bar>i\<bar>)"

datatype finished = WithReport session_report "string option" | WithoutReport string

definition failure_handover :: "failure_reason \<Rightarrow> session_report \<Rightarrow> handover_decision \<Rightarrow> string option" where
  "failure_handover reason rp h =
    (if reason = ProtectedPath
     then Some ((''korumal'' @ [CHR 0xC4, CHR 0xB1] @ '' yol ihlali (M52): '') @ join_ids '', '' (map (utf8 \<circ> pv_path) (rp_protectedViolations rp)))
     else if hd_handover h then Some (dec (hd_count h) @ ''/'' @ dec (hd_limit h) @ '' tur ilerleme yok (M54)'')
     else None)"

definition finishTurn :: "env \<Rightarrow> run_context \<Rightarrow> turn_result \<Rightarrow> string \<Rightarrow> finished act_io" where
  "finishTurn env run oc what = (case oc of
     TurnQueued resumeAt \<Rightarrow> afail (quotaWait (Some (int resumeAt)) (now_ms env))
   | TurnBlocked mkey \<Rightarrow> athen (handOver env run (what @ '': '' @ mkey) (''blocked:'' @ what))
       (aret (WithoutReport (what @ '': '' @ mkey)))
   | TurnDegraded mkey \<Rightarrow> athen (run_patch env (rc_ticket run) (set_mode AiAssist))
       (aret (WithoutReport (''ai_assist (M97): '' @ mkey)))
   | TurnOk rp \<Rightarrow> aret (WithReport rp None)
   | TurnFailed reason rp h \<Rightarrow> aret (WithReport rp (failure_handover reason rp h)))"

definition iso_nat :: "nat \<Rightarrow> string act_io" where
  "iso_nat t = iso_text_of (int t)"

definition diff_text :: "diff_summary \<Rightarrow> string" where
  "diff_text d = ''+'' @ int_str (ds_insertions d) @ '' -'' @ int_str (ds_deletions d)"

text \<open>\<open>turn\<close> is what the agent's turn answered, \<open>None\<close> when it threw; the journal is read for its context.\<close>

definition runEngineering ::
  "env \<Rightarrow> turn_result option \<Rightarrow> string \<Rightarrow> string option \<Rightarrow> nat \<Rightarrow> engineering_result act_io" where
  "runEngineering env turn ticket token lap =
    abind (run_get env ticket) (\<lambda>run.
    athen (astore env ''memory.list'')
    (abind (ask ''execution.runTurn'' turn) (\<lambda>oc.
    abind (finishTurn env run oc ''engineering'') (\<lambda>f.
    case f of
      WithoutReport reason \<Rightarrow> aret \<lparr>er_ok = False, er_resumeToken = (case token of Some t \<Rightarrow> t | None \<Rightarrow> []),
        er_changedFiles = 0, er_diffSummary = [], er_handoverReason = Some reason\<rparr>
    | WithReport rp why \<Rightarrow>
        athen (run_patch env ticket (\<lambda>r. r\<lparr>rc_resumeToken := Some (rp_resumeToken rp), rc_workspacePresent := True\<rparr>))
        (abind (iso_nat (rp_at rp)) (\<lambda>at'.
        athen (record_entry env run JEngineering JAi (''geli'' @ [CHR 0xC5, CHR 0x9F] @ ''tirme turu'')
          (dec (ds_files (rp_diff rp)) @ ('' dosya '' @ [CHR 0xC2, CHR 0xB7] @ '' '') @ diff_text (rp_diff rp))
          (''engineering:'' @ dec lap @ '':'' @ at'))
        (aret \<lparr>er_ok = (why = None \<and> rp_protectedViolations rp = []), er_resumeToken = rp_resumeToken rp,
          er_changedFiles = ds_files (rp_diff rp), er_diffSummary = diff_text (rp_diff rp), er_handoverReason = why\<rparr>)))))))"

subsection \<open>engineering.ts: the roles that judge\<close>

definition answer :: "act_error + 'a \<Rightarrow> 'a act_io" where
  "answer r s = (r, s)"

datatype review_role = DevReviewer | TestReviewer

fun role_str :: "review_role \<Rightarrow> string" where
  "role_str DevReviewer = ''dev_reviewer''" | "role_str TestReviewer = ''test_reviewer''"

definition NEWLINE :: string where
  "NEWLINE = [CHR 0x0A]"

text \<open>The model's verdict: approved, and the findings.\<close>

definition review ::
  "env \<Rightarrow> act_error + (bool \<times> string list) llm_outcome \<Rightarrow> string \<Rightarrow> review_role \<Rightarrow> nat \<Rightarrow> review_result act_io" where
  "review env model ticket role lap =
    abind (run_get env ticket) (\<lambda>run.
    abind (guardModelCall env run (role_str role) (answer model)) (\<lambda>oc.
    abind (resolveOutcome env run (role_str role) oc) (\<lambda>r.
    case r of
      ResolvedDegraded mkey \<Rightarrow> aret \<lparr>rr_approved = False, rr_findings = [''ai_assist (M97): '' @ mkey]\<rparr>
    | ResolvedOk (ok, findings) \<Rightarrow>
        athen (record_entry env run (if role = DevReviewer then JReview else JTestReview) JAi
          (if ok then (''inceleme onayland'' @ [CHR 0xC4, CHR 0xB1]) else (''inceleme bulgular'' @ [CHR 0xC4, CHR 0xB1])) (join_ids NEWLINE findings)
          (role_str role @ '':'' @ dec lap))
        (aret \<lparr>rr_approved = ok, rr_findings = findings\<rparr>))))"

definition designTests :: "env \<Rightarrow> act_error + nat llm_outcome \<Rightarrow> string \<Rightarrow> nat \<Rightarrow> nat act_io" where
  "designTests env model ticket lap =
    abind (run_get env ticket) (\<lambda>run.
    abind (guardModelCall env run ''test-design'' (answer model)) (\<lambda>oc.
    abind (resolveOutcome env run ''test-design'' oc) (\<lambda>r.
    let scenarios = (case r of ResolvedDegraded _ \<Rightarrow> 0 | ResolvedOk n \<Rightarrow> n) in
    athen (record_entry env run JTestDesign JAi (''test senaryolar'' @ [CHR 0xC4, CHR 0xB1]) (dec scenarios @ '' senaryo'')
      (''test-design:'' @ dec lap))
    (aret scenarios))))"

text \<open>The model counts: total, failed, coverage. The verdict is the exit codes'.\<close>

definition runTests ::
  "env \<Rightarrow> turn_result option \<Rightarrow> act_error + (nat \<times> nat \<times> nat) llm_outcome \<Rightarrow> string \<Rightarrow> nat \<Rightarrow> test_run_result act_io" where
  "runTests env turn model ticket lap =
    abind (run_get env ticket) (\<lambda>run.
    athen (astore env ''memory.list'')
    (abind (ask ''execution.runTurn'' turn) (\<lambda>oc.
    abind (finishTurn env run oc ''test-run'') (\<lambda>f.
    case f of
      WithoutReport _ \<Rightarrow> aret \<lparr>tr_passed = False, tr_total = 0, tr_failed = 0, tr_coveragePct = 0\<rparr>
    | WithReport rp why \<Rightarrow>
        (let red = verificationFailures (rp_commands rp) in
        abind (guardModelCall env run ''test-digest'' (answer model)) (\<lambda>digest.
        abind (resolveOutcome env run ''test-digest'' digest) (\<lambda>r.
        let (total', failed, coverage) = (case r of ResolvedDegraded _ \<Rightarrow> (length (rp_commands rp), length red, 0)
              | ResolvedOk c \<Rightarrow> c);
            passed = (red = [] \<and> why = None) in
        abind (iso_nat (rp_at rp)) (\<lambda>at'.
        athen (audit_record env run TEST_RUN_COMPLETE None
          [(''passed'', MBool passed), (''failedCommands'', MNum (length red))] (''tests:'' @ dec lap @ '':'' @ at'))
        (athen (record_entry env run JTestRun JSystem (if passed then (''testler ye'' @ [CHR 0xC5, CHR 0x9F] @ ''il'') else (''testler k'' @ [CHR 0xC4, CHR 0xB1] @ ''rm'' @ [CHR 0xC4, CHR 0xB1] @ ''z'' @ [CHR 0xC4, CHR 0xB1]))
          (dec failed @ ''/'' @ dec total' @ ('' '' @ [CHR 0xC2, CHR 0xB7] @ '' kapsam %'') @ dec coverage) (''tests:'' @ dec lap @ '':'' @ at'))
        (aret \<lparr>tr_passed = passed, tr_total = total', tr_failed = failed, tr_coveragePct = coverage\<rparr>))))))))))"

subsection \<open>The guard is kept\<close>

lemma keeps_scan_all [guard_intros]: "keeps_guard (scan_all env scan tools)"
  by (induction tools) (auto intro!: guard_intros)

lemma keeps_answer [guard_intros]: "keeps_guard (answer r)"
  by (rule keeps_pure) (simp add: answer_def)

lemma keeps_finishTurn [guard_intros]: "keeps_guard (finishTurn env run oc what)"
  by (cases oc) (auto simp: finishTurn_def intro!: guard_intros)

lemma keeps_finished [guard_intros]:
  "(\<And>rp why. keeps_guard (f rp why)) \<Longrightarrow> (\<And>w. keeps_guard (g w)) \<Longrightarrow>
   keeps_guard (case x of WithReport rp why \<Rightarrow> f rp why | WithoutReport w \<Rightarrow> g w)"
  by (cases x) simp_all

lemma keeps_resolved [guard_intros]:
  "(\<And>v. keeps_guard (f v)) \<Longrightarrow> (\<And>w. keeps_guard (g w)) \<Longrightarrow>
   keeps_guard (case x of ResolvedOk v \<Rightarrow> f v | ResolvedDegraded w \<Rightarrow> g w)"
  by (cases x) simp_all

lemma keeps_iso_nat [guard_intros]: "keeps_guard (iso_nat t)"
  by (simp add: iso_nat_def guard_intros)

lemma keeps_work [guard_intros]:
  "keeps_guard (runScans env scan ticket lap)"
  "keeps_guard (runEngineering env turn ticket token lap)"
  "keeps_guard (review env model1 ticket role lap)"
  "keeps_guard (designTests env model2 ticket lap)"
  "keeps_guard (runTests env turn model3 ticket lap)"
  unfolding runScans_def runEngineering_def review_def designTests_def runTests_def Let_def
  by (intro guard_intros)+

subsection \<open>Results\<close>

lemma bind_Inr:
  assumes "abind m f s = (Inr y, s')"
  obtains x s1 where "m s = (Inr x, s1)" "f x s1 = (Inr y, s')"
  using assms by (cases "m s"; cases "fst (m s)") (auto simp: abind_def)

lemma then_Inr:
  assumes "athen m n s = (Inr y, s')"
  obtains x s1 where "m s = (Inr x, s1)" "n s1 = (Inr y, s')"
  using assms unfolding athen_def by (rule bind_Inr)

lemma ret_Inr [simp]: "aret x s = (Inr y, s') \<longleftrightarrow> y = x \<and> s' = s"
  by (auto simp: aret_def)

lemma fail_Inr [simp]: "afail e s \<noteq> (Inr y, s')"
  by (simp add: afail_def)

lemma ask_Inr [simp]: "ask p a s = (Inr y, s') \<longleftrightarrow> a = Some y \<and> s' = s"
  by (cases a) (auto simp: ask_def)

lemma iso_Inr: "iso_text_of t s = (Inr y, s') \<longleftrightarrow> toISOString t = Some y \<and> s' = s"
  by (cases "toISOString t") (auto simp: iso_text_of_def)

text \<open>What a scan lap answers: each tool's result, an error in the place of one that threw.\<close>

definition scan_answer :: "env \<Rightarrow> (scan_tool \<Rightarrow> string + scan_result) \<Rightarrow> scan_tool \<Rightarrow> scan_result" where
  "scan_answer env scan tool = (case scan tool of Inr r \<Rightarrow> r
    | Inl msg \<Rightarrow> scannerErrorResult tool (the (toISOString (now_ms env))) msg)"

lemma scan_all_Inr: "scan_all env scan tools s = (Inr res, s') \<Longrightarrow> res = map (scan_answer env scan) tools \<and> s' = s"
proof (induction tools arbitrary: res s')
  case (Cons tool tools)
  from Cons.prems show ?case
    by (auto elim!: bind_Inr simp: iso_Inr scan_answer_def dest!: Cons.IH split: sum.split)
qed simp

lemma runScans_Inr:
  assumes "runScans env scan ticket lap s = (Inr res, s')"
  shows "res = map (scan_answer env scan) CORE_SCAN_TOOLS"
  using assms unfolding runScans_def
  by (auto elim!: bind_Inr then_Inr dest!: scan_all_Inr)

lemma finishTurn_report:
  assumes "finishTurn env run oc what s = (Inr (WithReport rp why), s')"
  shows "oc = TurnOk rp \<and> why = None \<or> (\<exists>reason h. oc = TurnFailed reason rp h \<and> why = failure_handover reason rp h)"
  using assms by (cases oc) (auto simp: finishTurn_def elim!: then_Inr)

end
