(* ===== verification/Act_Delivery.thy ===== *)
theory Act_Delivery
  imports Act_Work
begin

text \<open>
  The first and the last steps: matching a ticket to its application and asking the reporter
  (\<open>packages/workflows/src/impl/intake.ts\<close>), the pull request, the build signal and the close
  (\<open>impl/delivery.ts\<close>). The evidence package and the rendered documents are not modelled; the latter are an
  activity given to \<open>deliverAnalysis\<close>.
\<close>

subsection \<open>intake.ts: routing rules\<close>

datatype rule_condition = Always | OnComponent string | OnLabel string

record routing_rule =
  ruleId :: string
  rule_project :: string
  rule_condition :: rule_condition
  priority :: nat
  effect_appId :: "string option"

record ticket_snapshot =
  ts_projectKey :: string
  ts_components :: "string list"
  ts_labels :: "string list"
  ts_reporter :: "string option"

definition ruleApplies :: "routing_rule \<Rightarrow> ticket_snapshot \<Rightarrow> bool" where
  "ruleApplies r t \<longleftrightarrow>
    (rule_project r = ''*'' \<or> rule_project r = ts_projectKey t) \<and>
    (case rule_condition r of Always \<Rightarrow> True
     | OnComponent c \<Rightarrow> c \<in> set (ts_components t)
     | OnLabel l \<Rightarrow> l \<in> set (ts_labels t))"

text \<open>\<open>before\<close> is \<open>a.localeCompare(b) < 0\<close>; the sort of the language is stable.\<close>

definition rule_before :: "(string \<Rightarrow> string \<Rightarrow> bool) \<Rightarrow> routing_rule \<Rightarrow> routing_rule \<Rightarrow> bool" where
  "rule_before before a b \<longleftrightarrow>
    priority b < priority a \<or> priority a = priority b \<and> before (ruleId a) (ruleId b)"

fun insert_by :: "('a \<Rightarrow> 'a \<Rightarrow> bool) \<Rightarrow> 'a \<Rightarrow> 'a list \<Rightarrow> 'a list" where
  "insert_by lt x [] = [x]"
| "insert_by lt x (y # ys) = (if lt y x then y # insert_by lt x ys else x # y # ys)"

definition sort_by :: "('a \<Rightarrow> 'a \<Rightarrow> bool) \<Rightarrow> 'a list \<Rightarrow> 'a list" where
  "sort_by lt xs = foldr (insert_by lt) xs []"

definition pickRule :: "(string \<Rightarrow> string \<Rightarrow> bool) \<Rightarrow> routing_rule list \<Rightarrow> ticket_snapshot \<Rightarrow> routing_rule option" where
  "pickRule before rules t =
    (case sort_by (rule_before before) (filter (\<lambda>r. ruleApplies r t \<and> effect_appId r \<noteq> None) rules) of
       [] \<Rightarrow> None | r # _ \<Rightarrow> Some r)"

datatype match_result = ViaRule string string | ViaSuggestion string double bool

fun match_meta :: "match_result \<Rightarrow> (string \<times> meta_value) list" where
  "match_meta (ViaRule rid app) = [(''via'', MStr ''rule''), (''ruleId'', MStr rid), (''appId'', MStr app)]"
| "match_meta (ViaSuggestion app c v) =
    [(''via'', MStr ''ai_suggestion''), (''appId'', MStr app), (''confidence'', MDouble c), (''validatedAtGate'', MBool v)]"

text \<open>\<open>confidence < 0.5\<close>\<close>

definition low_confidence :: "double \<Rightarrow> bool" where
  "low_confidence c \<longleftrightarrow> 2 * mantissa c < 2 ^ fraction c"

text \<open>\<open>rules\<close> and \<open>snapshot\<close> are what the parameters and the ticket system answered.\<close>

definition matchApplication ::
  "env \<Rightarrow> (string \<Rightarrow> string \<Rightarrow> bool) \<Rightarrow> routing_rule list option \<Rightarrow> ticket_snapshot option
     \<Rightarrow> act_error + (string \<times> double) llm_outcome \<Rightarrow> string \<Rightarrow> match_result option act_io" where
  "matchApplication env before rules snapshot model ticket =
    abind (run_get env ticket) (\<lambda>run.
    abind (ask ''work.getTicket'' snapshot) (\<lambda>t.
    abind (ask ''params.routingRules'' rules) (\<lambda>rl.
    case pickRule before rl t of
      Some r \<Rightarrow> (case effect_appId r of
        Some app \<Rightarrow> athen (audit_record env run ASSIGN_APP None (match_meta (ViaRule (ruleId r) app)) ''match'')
          (aret (Some (ViaRule (ruleId r) app)))
      | None \<Rightarrow> aret None)
    | None \<Rightarrow>
      abind (guardModelCall env run ''match'' (answer model)) (\<lambda>oc.
      abind (resolveOutcome env run ''match'' oc) (\<lambda>r.
      case r of
        ResolvedDegraded _ \<Rightarrow> aret None
      | ResolvedOk (app, c) \<Rightarrow>
          if low_confidence c then aret None
          else athen (audit_record env run ASSIGN_APP None (match_meta (ViaSuggestion app c False)) ''match'')
            (aret (Some (ViaSuggestion app c False))))))))"

subsection \<open>intake.ts: completeness\<close>

fun mode_str :: "work_mode \<Rightarrow> string" where
  "mode_str FullAuto = ''full_auto''" | "mode_str AiAssist = ''ai_assist''"
| "mode_str HumanLead = ''human_lead''" | "mode_str HumanOnly = ''human_only''"

fun data_class_str :: "data_class \<Rightarrow> string" where
  "data_class_str Acik = ''acik''" | "data_class_str Dahili = ''dahili''" | "data_class_str Gizli = ''gizli''"

definition resolveWorkMode :: "env \<Rightarrow> string \<Rightarrow> (work_mode \<times> data_class) act_io" where
  "resolveWorkMode env ticket =
    abind (run_get env ticket) (\<lambda>run.
    athen (audit_record env run RUN_STARTED None
      [(''mode'', MStr (mode_str (rc_mode run))), (''dataClass'', MStr (data_class_str (rc_dataClass run)))] ''start'')
    (aret (rc_mode run, rc_dataClass run)))"

definition runIntake ::
  "env \<Rightarrow> ticket_snapshot option \<Rightarrow> act_error + (bool \<times> string option) llm_outcome \<Rightarrow> string \<Rightarrow> intake_result act_io" where
  "runIntake env snapshot model ticket =
    abind (run_get env ticket) (\<lambda>run.
    abind (ask ''work.getTicket'' snapshot) (\<lambda>t.
    abind (guardModelCall env run ''intake'' (answer model)) (\<lambda>oc.
    abind (resolveOutcome env run ''intake'' oc) (\<lambda>r.
    case r of
      ResolvedDegraded _ \<Rightarrow> aret \<lparr>in_complete = False,
        in_question = Some (translate env (rc_locale run) ''intake.manual_completion'' [])\<rparr>
    | ResolvedOk (ready, question) \<Rightarrow>
        athen (record_entry env run JIntake JAi (if ready then ''ticket eksiksiz'' else ''ticket eksik'')
          (case question of None \<Rightarrow> [] | Some q \<Rightarrow> q) ''intake'')
        (aret (if ready then \<lparr>in_complete = True, in_question = None\<rparr>
          else \<lparr>in_complete = False, in_question = Some (case question of None \<Rightarrow> [] | Some q \<Rightarrow> q)\<rparr>))))))"

definition askClarification :: "env \<Rightarrow> string \<Rightarrow> string \<Rightarrow> unit act_io" where
  "askClarification env ticket question =
    abind (run_get env ticket) (\<lambda>run.
    let t = trim question in
    if t = [] then afail EmptyClarification
    else
      athen (once_void env (rc_runId run @ '':clarify'')
        (EComment ticket (translate env (rc_locale run) ''jira.clarification'' [(''question'', t)])))
      (athen (record_entry env run JClarification JSystem ''soru soruldu'' t ''ask'')
      (athen (audit_record env run CLARIFICATION_ASKED None [] ''ask'')
      (once_void env (rc_runId run @ '':clarify:label'') (ELabels ticket [''maestro-bekliyor''])))))"

subsection \<open>delivery.ts: the pull request\<close>

definition appOf :: "run_context \<Rightarrow> (string \<times> string) act_io" where
  "appOf run = (case rc_app run of None \<Rightarrow> afail (NoApplicationBound (rc_runId run)) | Some a \<Rightarrow> aret a)"

definition pr_number :: "act_value \<Rightarrow> nat" where
  "pr_number v = (case v of VPr n \<Rightarrow> n | _ \<Rightarrow> 0)"

text \<open>\<open>resolve_repo\<close> is the driver's: the repository of an application, as project and name.\<close>

definition openPullRequest :: "env \<Rightarrow> (string \<times> string \<Rightarrow> (string \<times> string) option) \<Rightarrow> string \<Rightarrow> pr_ref act_io" where
  "openPullRequest env resolve_repo ticket =
    abind (run_get env ticket) (\<lambda>run.
    abind (appOf run) (\<lambda>app.
    abind (ask ''scm.resolveRepo'' (resolve_repo app)) (\<lambda>repo.
    abind (once env (rc_runId run @ '':pr'') (EOpenPr repo (rc_branch run) (rc_targetBranch run)
        (ticket @ ('' '' @ [CHR 0xE2, CHR 0x80, CHR 0x94] @ '' '') @ translate env (rc_locale run) ''pr.title'' [])
        (translate env (rc_locale run) ''pr.description'' [(''ticket'', ticket)]))) (\<lambda>v.
    let n = pr_number v in
    athen (run_patch env ticket (\<lambda>r. r\<lparr>rc_prId := Some n\<rparr>))
    (athen (audit_record env run PR_OPENED None [(''prId'', MNum n)] ''pr'')
    (athen (record_entry env run JPr JSystem (''PR #'' @ dec n @ ('' a'' @ [CHR 0xC3, CHR 0xA7, CHR 0xC4, CHR 0xB1] @ ''ld'' @ [CHR 0xC4, CHR 0xB1])) (fst repo @ ''/'' @ snd repo) ''pr-open'')
    (aret \<lparr>pr_adoProject = fst repo, pr_adoRepo = snd repo, pr_prId = n\<rparr>)))))))"

definition activatePullRequest :: "env \<Rightarrow> string \<Rightarrow> pr_ref \<Rightarrow> unit act_io" where
  "activatePullRequest env ticket pr =
    abind (run_get env ticket) (\<lambda>run.
    once_void env (rc_runId run @ '':pr-activate'') (EActivatePr (pr_adoProject pr, pr_adoRepo pr) (pr_prId pr)))"

definition ci_origin_ok :: "run_context \<Rightarrow> string \<times> string \<Rightarrow> string \<Rightarrow> ci_result \<Rightarrow> bool" where
  "ci_origin_ok run app ticket sig \<longleftrightarrow>
    ci_ticketKey sig = ticket \<and> ci_adoProject sig = Some (fst app) \<and> ci_adoRepo sig = Some (snd app) \<and>
    (rc_prId run = None \<or> rc_prId run = Some (ci_prId sig))"

definition or_unknown :: "string option \<Rightarrow> string" where
  "or_unknown x = (case x of None \<Rightarrow> ''?'' | Some t \<Rightarrow> t)"

definition verifyCiOrigin :: "env \<Rightarrow> string \<Rightarrow> ci_result \<Rightarrow> bool act_io" where
  "verifyCiOrigin env ticket sig =
    abind (run_get env ticket) (\<lambda>run.
    abind (appOf run) (\<lambda>app.
    let ok = ci_origin_ok run app ticket sig in
    athen (audit_record env run CI_RESULT None
      [(''accepted'', MBool ok), (''buildId'', MNum (ci_buildId sig)),
       (''status'', MStr (if ci_status sig = Succeeded then ''succeeded'' else ''failed'')),
       (''origin'', MStr (or_unknown (ci_adoProject sig) @ ''/'' @ or_unknown (ci_adoRepo sig)))]
      (''ci:'' @ dec (ci_buildId sig)))
    (aret ok)))"

datatype pr_state = PrDraft | PrActive | PrCompleted | PrAbandoned

text \<open>\<open>prs\<close>: what the driver says of a pull request, its state and its merge commit.\<close>

definition mergePullRequest ::
  "env \<Rightarrow> (string \<times> string \<Rightarrow> nat \<Rightarrow> (pr_state \<times> string option) option) \<Rightarrow> string \<Rightarrow> pr_ref \<Rightarrow> string act_io" where
  "mergePullRequest env prs ticket pr =
    abind (run_get env ticket) (\<lambda>run.
    abind (ask ''scm.getPrStatus'' (prs (pr_adoProject pr, pr_adoRepo pr) (pr_prId pr))) (\<lambda>st.
    case st of
      (PrCompleted, Some sha) \<Rightarrow>
        athen (audit_record env run PR_MERGED None [(''prId'', MNum (pr_prId pr)), (''mergeSha'', MStr sha)] ''merge'')
        (athen (record_entry env run JPr JSystem (''PR birle'' @ [CHR 0xC5, CHR 0x9F] @ ''tirildi'') sha ''merge'') (aret sha))
    | _ \<Rightarrow> afail (PrNotCompleted (pr_prId pr))))"

subsection \<open>delivery.ts: the end\<close>

fun risk_str :: "risk_tier \<Rightarrow> string" where
  "risk_str Dusuk = ''dusuk''" | "risk_str Orta = ''orta''" | "risk_str Kritik = ''kritik''"

definition deliverAnalysis :: "env \<Rightarrow> ticket_snapshot option \<Rightarrow> (run_context \<Rightarrow> unit act_io) \<Rightarrow> string \<Rightarrow> unit act_io" where
  "deliverAnalysis env snapshot docs ticket =
    abind (run_get env ticket) (\<lambda>run.
    abind (ask ''work.getTicket'' snapshot) (\<lambda>t.
    let requester = (case ts_reporter t of None \<Rightarrow> [] | Some r \<Rightarrow> trim r) in
    athen (once_void env (rc_runId run @ '':deliver-comment'')
      (EComment ticket (translate env (rc_locale run) ''jira.analysis_delivered''
        [(''ticket'', ticket), (''risk'', case rc_risk run of None \<Rightarrow> [] | Some r \<Rightarrow> risk_str r)])))
    (athen (docs run)
    (if requester = [] then record_entry env run JClosure JSystem ''analiz teslim edildi''
        (''talep sahibi bulunamad'' @ [CHR 0xC4, CHR 0xB1] @ '' '' @ [CHR 0xE2, CHR 0x80, CHR 0x94] @ '' ticket atanmadan b'' @ [CHR 0xC4, CHR 0xB1] @ ''rak'' @ [CHR 0xC4, CHR 0xB1] @ ''ld'' @ [CHR 0xC4, CHR 0xB1]) ''deliver:no-requester''
     else acatch
       (athen (once_void env (rc_runId run @ '':deliver-assign'') (EAssign ticket requester))
         (record_entry env run JClosure JSystem ''analiz teslim edildi''
           ((''ticket talep sahibine atand'' @ [CHR 0xC4, CHR 0xB1] @ '': '') @ requester) ''deliver:assigned''))
       (\<lambda>e. record_entry env run JClosure JSystem ''analiz teslim edildi''
           ((''atama yap'' @ [CHR 0xC4, CHR 0xB1] @ ''lamad'' @ [CHR 0xC4, CHR 0xB1] @ '' (analiz etkilenmedi): '') @ error_text env e) ''deliver:assign-failed'')))))"

definition closeTicket :: "env \<Rightarrow> string \<Rightarrow> unit act_io" where
  "closeTicket env ticket =
    abind (run_get env ticket) (\<lambda>run.
    athen (once_void env (rc_runId run @ '':close-comment'')
      (EComment ticket (translate env (rc_locale run) ''jira.closed'' [(''ticket'', ticket)])))
    (athen (once_void env (rc_runId run @ '':close-label'') (ELabels ticket [''maestro-tamamlandi'']))
    (athen (audit_record env run RUN_CLOSED None [] ''close'')
    (athen (run_patch env ticket (\<lambda>r. r\<lparr>rc_status := LifeDone\<rparr>))
    (end_session (rc_runId run))))))"

subsection \<open>The guard is kept\<close>

lemma keeps_appOf [guard_intros]: "keeps_guard (appOf run)"
  by (auto simp: appOf_def intro!: guard_intros)

lemma keeps_match [guard_intros]: "keeps_guard (matchApplication env before rules snapshot model ticket)"
  unfolding matchApplication_def by (intro guard_intros)

lemma keeps_pr_state [guard_intros]:
  "keeps_guard a \<Longrightarrow> keeps_guard b \<Longrightarrow> keeps_guard c \<Longrightarrow> keeps_guard d \<Longrightarrow>
   keeps_guard (case st of PrDraft \<Rightarrow> a | PrActive \<Rightarrow> b | PrCompleted \<Rightarrow> c | PrAbandoned \<Rightarrow> d)"
  by (cases st) simp_all

lemma keeps_merge [guard_intros]: "keeps_guard (mergePullRequest env prs ticket pr)"
  unfolding mergePullRequest_def by (intro guard_intros)

lemma keeps_delivery [guard_intros]:
  "keeps_guard (resolveWorkMode env ticket)"
  "keeps_guard (runIntake env snapshot model ticket)"
  "keeps_guard (askClarification env ticket question)"
  "keeps_guard (openPullRequest env resolve_repo ticket)"
  "keeps_guard (activatePullRequest env ticket pr)"
  "keeps_guard (verifyCiOrigin env ticket sig)"
  "keeps_guard (closeTicket env ticket)"
  "(\<And>run. keeps_guard (docs run)) \<Longrightarrow> keeps_guard (deliverAnalysis env snapshot docs ticket)"
  unfolding resolveWorkMode_def runIntake_def askClarification_def openPullRequest_def activatePullRequest_def
    verifyCiOrigin_def closeTicket_def deliverAnalysis_def Let_def
  by (intro guard_intros | assumption)+

subsection \<open>The rule that wins\<close>

lemma set_insert_by [simp]: "set (insert_by lt x xs) = insert x (set xs)"
  by (induction xs) auto

lemma set_sort_by [simp]: "set (sort_by lt xs) = set xs"
  by (induction xs) (simp_all add: sort_by_def)

text \<open>With an order that is linear on the elements, the head is the least.\<close>

definition least_in :: "('a \<Rightarrow> 'a \<Rightarrow> bool) \<Rightarrow> 'a \<Rightarrow> 'a list \<Rightarrow> bool" where
  "least_in lt x xs \<longleftrightarrow> x \<in> set xs \<and> (\<forall>y \<in> set xs. y = x \<or> lt x y)"

lemma insert_by_hd: "insert_by lt x ys \<noteq> []" "hd (insert_by lt x ys) = (if ys = [] \<or> \<not> lt (hd ys) x then x else hd ys)"
  by (cases ys; simp)+

lemma least_in_Cons:
  assumes least: "least_in lt m xs"
    and tr: "\<And>a b c. lt a b \<Longrightarrow> lt b c \<Longrightarrow> lt a c" and tot: "x = m \<or> lt x m \<or> lt m x"
  shows "least_in lt (if lt m x then m else x) (x # xs)"
proof (cases "lt m x")
  case True
  then show ?thesis using least by (simp add: least_in_def)
next
  case False
  then have xm: "x = m \<or> lt x m" using tot by simp
  have "y = x \<or> lt x y" if "y \<in> set xs" for y
  proof -
    have "y = m \<or> lt m y" using least that by (simp add: least_in_def)
    then show ?thesis using xm tr [of x m y] by blast
  qed
  then show ?thesis using False by (simp add: least_in_def)
qed

lemma sort_by_least:
  assumes tr: "\<And>a b c. lt a b \<Longrightarrow> lt b c \<Longrightarrow> lt a c"
    and tot: "\<forall>a \<in> set xs. \<forall>b \<in> set xs. a = b \<or> lt a b \<or> lt b a" and ne: "xs \<noteq> []"
  shows "least_in lt (hd (sort_by lt xs)) xs"
  using tot ne
proof (induction xs)
  case (Cons x xs)
  show ?case
  proof (cases "xs = []")
    case True
    then show ?thesis by (simp add: sort_by_def least_in_def)
  next
    case False
    have t: "\<forall>a \<in> set xs. \<forall>b \<in> set xs. a = b \<or> lt a b \<or> lt b a" using Cons.prems(1) by simp
    let ?m = "hd (sort_by lt xs)"
    have ih: "least_in lt ?m xs" by (rule Cons.IH [OF t False])
    have ne: "sort_by lt xs \<noteq> []" using False set_sort_by [of lt xs] by (metis set_empty)
    have hd: "hd (sort_by lt (x # xs)) = (if lt ?m x then ?m else x)"
      using ne by (simp add: sort_by_def insert_by_hd)
    have m: "?m \<in> set xs" using ih by (simp add: least_in_def)
    have tx: "x = ?m \<or> lt x ?m \<or> lt ?m x"
      by (rule bspec [OF bspec [OF Cons.prems(1)]]) (use m in simp_all)
    show ?thesis unfolding hd
    proof (rule least_in_Cons [OF ih _ tx])
      show "lt a b \<Longrightarrow> lt b c \<Longrightarrow> lt a c" for a b c by (rule tr)
    qed
  qed
qed simp

end
