(* ===== verification/Act_Calls.thy ===== *)
theory Act_Calls
  imports Act_Delivery
begin

text \<open>
  The activities as the worker calls them (\<open>packages/workflows/src/impl/index.ts\<close>): one call with what
  the ports answer in that attempt, and any number of attempts on the same tables. Lemmas: the guard's
  invariant over all of them, which effects an activity may log, and when doing an activity again does
  nothing.
\<close>

subsection \<open>Calls\<close>

datatype act_call =
    COpenGate string step_id string
  | CRecordDecision string gate_decision
  | CMaster string
  | CEscalate string step_id nat
  | CJournal string string string string
  | CHandOver string string
  | CMove bool string move_request
  | CMode string
  | CMatch "string \<Rightarrow> string \<Rightarrow> bool" "routing_rule list option" "ticket_snapshot option"
      "act_error + (string \<times> double) llm_outcome" string
  | CIntake "ticket_snapshot option" "act_error + (bool \<times> string option) llm_outcome" string
  | CAsk string string
  | CEngineering "turn_result option" string "string option" nat
  | CScans "scan_tool \<Rightarrow> string + scan_result" string nat
  | CReview "act_error + (bool \<times> string list) llm_outcome" string review_role nat
  | CDesign "act_error + nat llm_outcome" string nat
  | CTests "turn_result option" "act_error + (nat \<times> nat \<times> nat) llm_outcome" string nat
  | COpenPr "string \<times> string \<Rightarrow> (string \<times> string) option" string
  | CActivatePr string pr_ref
  | CVerifyCi string ci_result
  | CMerge "string \<times> string \<Rightarrow> nat \<Rightarrow> (pr_state \<times> string option) option" string pr_ref
  | CClose string

definition void :: "'a act_io \<Rightarrow> unit act_io" where
  "void m = athen m (aret ())"

fun perform :: "env \<Rightarrow> act_call \<Rightarrow> unit act_io" where
  "perform env (COpenGate t st r) = void (openGate env t st r)"
| "perform env (CRecordDecision t d) = void (recordGateDecision env t d)"
| "perform env (CMaster u) = void (isMasterApprover env u)"
| "perform env (CEscalate t st h) = void (escalateGate env t st h)"
| "perform env (CJournal t k ti de) = journal env t k ti de"
| "perform env (CHandOver t r) = handOverToHuman env t r"
| "perform env (CMove has t mv) = void (moveTicketStatus env has t mv)"
| "perform env (CMode t) = void (resolveWorkMode env t)"
| "perform env (CMatch before rules snap model t) = void (matchApplication env before rules snap model t)"
| "perform env (CIntake snap model t) = void (runIntake env snap model t)"
| "perform env (CAsk t q) = askClarification env t q"
| "perform env (CEngineering turn t token lap) = void (runEngineering env turn t token lap)"
| "perform env (CScans scan t lap) = void (runScans env scan t lap)"
| "perform env (CReview model t role lap) = void (review env model t role lap)"
| "perform env (CDesign model t lap) = void (designTests env model t lap)"
| "perform env (CTests turn model t lap) = void (runTests env turn model t lap)"
| "perform env (COpenPr repos t) = void (openPullRequest env repos t)"
| "perform env (CActivatePr t pr) = activatePullRequest env t pr"
| "perform env (CVerifyCi t sig) = void (verifyCiOrigin env t sig)"
| "perform env (CMerge prs t pr) = void (mergePullRequest env prs t pr)"
| "perform env (CClose t) = closeTicket env t"

text \<open>Attempts one after another, each with the answers of its moment.\<close>

fun run_calls :: "(env \<times> act_call) list \<Rightarrow> act_state \<Rightarrow> act_state" where
  "run_calls [] s = s"
| "run_calls ((env, c) # cs) s = run_calls cs (snd (perform env c s))"

lemma keeps_void [guard_intros]: "keeps_guard m \<Longrightarrow> keeps_guard (void m)"
  by (simp add: void_def guard_intros)

lemma keeps_master [guard_intros]: "keeps_guard (isMasterApprover env u)"
  unfolding isMasterApprover_def by (intro guard_intros)

lemma keeps_perform: "keeps_guard (perform env c)"
  by (cases c) (simp_all add: guard_intros)

lemma run_calls_grows: "grows s (run_calls cs s)"
proof (induction cs s rule: run_calls.induct)
  case (2 env c cs s)
  then show ?case using keeps_growsD [OF keeps_perform] by (auto intro: state_grows_trans)
qed simp

lemma run_calls_guard: "guard_ok s \<Longrightarrow> guard_ok (run_calls cs s)"
  by (induction cs s rule: run_calls.induct) (simp_all add: keeps_guardD [OF keeps_perform])

subsection \<open>Which effects are logged\<close>

definition only_performs :: "(string \<times> effect \<times> bool \<Rightarrow> bool) \<Rightarrow> 'a act_io \<Rightarrow> bool" where
  "only_performs P m \<longleftrightarrow> (\<forall>s. \<exists>l. performed (snd (m s)) = performed s @ l \<and> (\<forall>x \<in> set l. P x))"

named_theorems log_intros \<open>activities log only effects of a kind\<close>

lemma logs_nothing: "(\<And>s. performed (snd (m s)) = performed s) \<Longrightarrow> only_performs P m"
  by (simp add: only_performs_def)

lemma logs_basic [log_intros]:
  "only_performs P (aret x)" "only_performs P (afail e)" "only_performs P (ask p a)" "only_performs P (astore env op)"
  "only_performs P (iso_text_of t)" "only_performs P (run_get env ticket)" "only_performs P (run_patch env ticket f)"
  "only_performs P (findGate r k)" "only_performs P (insertIfAbsent r k g t)" "only_performs P (gates_update r k g')"
  by (rule logs_nothing; simp add: aret_def afail_def ask_def astore_def iso_text_of_def run_get_def run_patch_def
    findGate_def insertIfAbsent_def gates_update_def put_gate_def split: option.split)+

lemma logs_bind [log_intros]:
  assumes "only_performs P m" "\<And>x. only_performs P (f x)"
  shows "only_performs P (abind m f)"
  unfolding only_performs_def
proof
  fix s
  obtain r s1 where m: "m s = (r, s1)" by (cases "m s")
  obtain l where l: "performed s1 = performed s @ l" "\<forall>x \<in> set l. P x"
    using assms(1) m unfolding only_performs_def by (metis snd_conv)
  show "\<exists>l. performed (snd (abind m f s)) = performed s @ l \<and> (\<forall>x \<in> set l. P x)"
  proof (cases r)
    case (Inl e)
    then show ?thesis using m l by (auto simp: abind_def)
  next
    case (Inr x)
    obtain l' where "performed (snd (f x s1)) = performed s1 @ l'" "\<forall>x \<in> set l'. P x"
      using assms(2) unfolding only_performs_def by metis
    then show ?thesis using m l Inr by (auto simp: abind_def)
  qed
qed

lemma logs_then [log_intros]: "only_performs P m \<Longrightarrow> only_performs P n \<Longrightarrow> only_performs P (athen m n)"
  by (simp add: athen_def logs_bind)

lemma logs_option [log_intros]:
  "only_performs P m \<Longrightarrow> (\<And>x. only_performs P (f x)) \<Longrightarrow> only_performs P (case o' of None \<Rightarrow> m | Some x \<Rightarrow> f x)"
  by (cases o') simp_all

lemma logs_once_with: "P (k, e, True) \<Longrightarrow> P (k, e, False) \<Longrightarrow> only_performs P (once_with oc k e)"
  unfolding only_performs_def
proof
  fix s assume "P (k, e, True)" "P (k, e, False)"
  then show "\<exists>l. performed (snd (once_with oc k e s)) = performed s @ l \<and> (\<forall>x \<in> set l. P x)"
    by (cases "claims s k"; cases oc) (auto simp: once_with_def split: idem_row.split)
qed

lemma logs_once_void [log_intros]: "P (k, e, True) \<Longrightarrow> P (k, e, False) \<Longrightarrow> only_performs P (once_void env k e)"
  unfolding once_void_def once_def by (intro log_intros logs_once_with)

lemma logs_gates [log_intros]:
  "only_performs P (requireGate r k)" "only_performs P (gates_open env r k g a)" "only_performs P (gates_close env r k a)"
  unfolding requireGate_def gates_open_def gates_close_def by (intro log_intros)+

subsection \<open>Doing it again\<close>

text \<open>Where \<open>m\<close> has succeeded before, \<open>m'\<close> changes nothing, now or ever.\<close>

definition replays :: "'a act_io \<Rightarrow> 'b act_io \<Rightarrow> bool" where
  "replays m m' \<longleftrightarrow> (\<forall>s x s1 s2. m s = (Inr x, s1) \<longrightarrow> grows s1 s2 \<longrightarrow> snd (m' s2) = s2)"

named_theorems replay_intros \<open>repeated activities\<close>

lemma replays_quiet: "(\<And>s. snd (m' s) = s) \<Longrightarrow> replays m m'"
  by (simp add: replays_def)

lemma replays_basic [replay_intros]:
  "replays m (aret x)" "replays m (afail e)" "replays m (ask p a)" "replays m (iso_text_of t)"
  by (rule replays_quiet; simp add: aret_def afail_def ask_def iso_text_of_def split: option.split)+

lemma replays_bind:
  assumes "replays m m'" "\<And>x y. replays (f x) (f' y)" "\<And>x. keeps_guard (f x)"
  shows "replays (abind m f) (abind m' f')"
  unfolding replays_def
proof (intro allI impI)
  fix s y s1 s2
  assume "abind m f s = (Inr y, s1)" and g: "grows s1 s2"
  then obtain x s0 where m: "m s = (Inr x, s0)" and f: "f x s0 = (Inr y, s1)" by (elim bind_Inr)
  have "grows s0 s1" using keeps_growsD [OF assms(3), of s0 x] f by simp
  then have "grows s0 s2" using g by (rule state_grows_trans)
  then have m2: "snd (m' s2) = s2" using assms(1) m by (auto simp: replays_def)
  have f2: "snd (f' z s2) = s2" for z using assms(2) [of x z] f g by (auto simp: replays_def)
  show "snd (abind m' f' s2) = s2"
  proof (cases "m' s2")
    case (Pair r t)
    then show ?thesis using m2 f2 by (cases r) (simp_all add: abind_def)
  qed
qed

lemma replays_then [replay_intros]:
  "replays m m' \<Longrightarrow> replays n n' \<Longrightarrow> keeps_guard n \<Longrightarrow> replays (athen m n) (athen m' n')"
  unfolding athen_def by (rule replays_bind)

lemma replays_ask [replay_intros]:
  assumes "\<And>x. replays (f x) (f' x)"
  shows "replays (abind (ask p a) f) (abind (ask p a) f')"
  using assms by (cases a) (simp_all add: replays_def abind_def ask_def aret_def afail_def)

lemma replays_once_void [replay_intros]: "replays (once_void env k e) (once_void env' k e')"
  unfolding replays_def
proof (intro allI impI)
  fix s x s1 s2
  assume "once_void env k e s = (Inr x, s1)" "grows s1 s2"
  then have "key_done s2 k"
    using finishes_once_void [of env k e] by (auto simp: finishes_def intro: grows_done) (metis fst_conv grows_done snd_conv)
  then show "snd (once_void env' k e' s2) = s2" by (simp add: once_void_replayed)
qed

lemma replays_record [replay_intros]:
  "rc_runId run' = rc_runId run \<Longrightarrow> replays (record_entry env run a b c d k) (record_entry env' run' a' b' c' d' k)"
  "rc_runId run' = rc_runId run \<Longrightarrow> replays (audit_record env run x y z k) (audit_record env' run' x' y' z' k)"
  unfolding record_entry_def audit_record_def by (simp_all add: replay_intros)

lemma replays_each [replay_intros]:
  assumes "\<And>x y. n_channel x = n_channel y \<Longrightarrow> replays (f x) (f' y)" "\<And>x. keeps_guard (f x)"
  shows "map n_channel xs = map n_channel ys \<Longrightarrow> replays (aeach f xs) (aeach f' ys)"
proof (induction xs arbitrary: ys)
  case Nil
  then show ?case by (simp add: replay_intros)
next
  case (Cons x xs)
  then obtain y ys' where y: "ys = y # ys'" "n_channel x = n_channel y" "map n_channel xs = map n_channel ys'"
    by (cases ys) auto
  show ?case unfolding y aeach.simps
    by (rule replays_then [OF assms(1) [OF y(2)] Cons.IH [OF y(3)] keeps_each [OF assms(2)]])
qed

text \<open>The directory and the routing answer the same, at whatever other moment.\<close>

definition same_answers :: "env \<Rightarrow> env \<Rightarrow> bool" where
  "same_answers env env' \<longleftrightarrow> groupForRole env' = groupForRole env \<and> membersOf env' = membersOf env \<and>
     notifyRouting env' = notifyRouting env"

lemma routed_channels:
  "map n_channel (fst (routeNotification routing d)) = map n_channel (fst (routeNotification routing d'))"
  "snd (routeNotification routing d) = snd (routeNotification routing d')" if "n_event d = n_event d'"
  using that by (simp_all add: routeNotification_def Let_def o_def)

lemma replays_routed:
  assumes "n_event d = n_event d'" and quiet: "replays m m'"
  shows "replays
    (let (ns, muted) = routeNotification routing d in if muted then m else aeach (\<lambda>n. once_void env (kf (n_channel n)) (ENotify n)) ns)
    (let (ns, muted) = routeNotification routing d' in if muted then m' else aeach (\<lambda>n. once_void env' (kf (n_channel n)) (ENotify n)) ns)"
proof -
  obtain ns muted where r: "routeNotification routing d = (ns, muted)" by (cases "routeNotification routing d")
  obtain ns' muted' where r': "routeNotification routing d' = (ns', muted')" by (cases "routeNotification routing d'")
  have same: "map n_channel ns = map n_channel ns'" "muted' = muted"
    using routed_channels [OF assms(1), of routing] r r' by simp_all
  have "replays (aeach (\<lambda>n. once_void env (kf (n_channel n)) (ENotify n)) ns)
      (aeach (\<lambda>n. once_void env' (kf (n_channel n)) (ENotify n)) ns')"
    by (rule replays_each [OF _ keeps_once_void same(1)]) (simp add: replays_once_void)
  then show ?thesis using quiet by (simp add: r r' same(2))
qed

lemma replays_notify:
  assumes "notifyRouting env' = notifyRouting env" "rc_runId run' = rc_runId run"
  shows "replays (notifyEvent env run ev msg params to key) (notifyEvent env' run' ev msg' params' to key)"
proof (cases "to = []")
  case True
  then show ?thesis by (simp add: notifyEvent_def replay_intros)
next
  case False
  have iso: "replays (case toISOString (now_ms env) of None \<Rightarrow> afail BadDate | Some at' \<Rightarrow> aret at')
      (case toISOString (now_ms env') of None \<Rightarrow> afail BadDate | Some at' \<Rightarrow> aret at')"
    by (rule replays_quiet) (simp add: aret_def afail_def split: option.split)
  show ?thesis
    unfolding notifyEvent_def assms(1) if_not_P [OF False]
  proof (intro replays_ask replays_bind [OF iso], goal_cases)
    case (1 routing x y)
    show ?case unfolding assms(2)
      by (rule replays_routed [where kf = "\<lambda>c. rc_runId run @ '':notify:'' @ key @ '':'' @ channel_str c"])
        (simp_all add: replays_record assms(2))
  next
    case (2 routing x)
    show ?case unfolding Let_def by (intro guard_intros)
  qed
qed

lemma replays_open:
  assumes "same_answers env env'" "rc_runId run' = rc_runId run"
  shows "replays (open_for env ticket st role run) (open_for env' ticket st role run')"
proof -
  have gates: "replays (gates_open env r k g a) (gates_open env' r k g' a')" for r k g a g' a'
    unfolding replays_def
  proof (intro allI impI)
    fix s x s1 s2
    assume "gates_open env r k g a s = (Inr x, s1)" and g: "grows s1 s2"
    then have "gate_rows s1 (r, k) \<noteq> None"
      by (auto simp: gates_open_def requireGate_def findGate_def abind_def aret_def afail_def
        elim!: then_Inr split: option.splits)
    then have "gate_rows s2 (r, k) \<noteq> None" using g by (simp add: grows_def)
    then show "snd (gates_open env' r k g' a' s2) = s2"
      by (auto simp: gates_open_def requireGate_def findGate_def insertIfAbsent_def astore_def athen_def abind_def
        aret_def afail_def split: option.split)
  qed
  have e: "groupForRole env' = groupForRole env" "membersOf env' = membersOf env" "notifyRouting env' = notifyRouting env"
    using assms(1) by (simp_all add: same_answers_def)
  show ?thesis
    unfolding open_for_def e assms(2)
    by (intro replays_bind replays_ask replays_then replays_basic gates replays_record replays_once_void
      replays_notify e assms guard_intros)
qed

end
