(* ===== verification/Gate_Decide.thy ===== *)
theory Gate_Decide
  imports Act_Calls
begin

text \<open>
  The decision of a gate on its way in, \<open>decideGate\<close> (\<open>apps/bff/src/gate-decision.ts\<close>), and on its way
  back, the decisions of a run rebuilt from the audit trail (\<open>decisions\<close> of
  \<open>apps/deploy/src/stores/gates.ts\<close>).
\<close>

subsection \<open>decideGate\<close>

record gate_request =
  rq_ticket :: string
  rq_decision :: decision
  rq_reason :: "string option"
  rq_actor :: string
  rq_membershipId :: string
  rq_source :: source
  rq_at :: string

datatype gate_failure = NoRun | NoOpenGate | NotMember | NotDelivered

datatype gate_result =
    Decided step_id string nat
  | Undecided gate_failure "step_id option" "string option"

text \<open>
  What the ports answer: the state of the run, the group that owns a step in a project, the membership
  (\<open>None\<close> throws), the sequence number the trail gives the record (\<open>None\<close> throws), whether the signal was
  delivered (\<open>None\<close> throws).
\<close>

record decide_ports =
  dp_state :: "(step_id \<times> run_status) option"
  dp_ownerGroup :: "step_id \<Rightarrow> string \<Rightarrow> string option"
  dp_member :: "string \<Rightarrow> string \<Rightarrow> bool option"
  dp_append :: "nat option"
  dp_signal :: "bool option"

datatype decide_error = MembershipUnverifiable | AuditRefused | SignalFailed | DecisionInvalid | BadTicketKey

datatype decide_effect =
    Audited audit_action string string "(string \<times> meta_value) list" string
  | Signalled gate_decision

text \<open>\<open>None\<close> is the bad request.\<close>

definition projectKeyOf :: "string \<Rightarrow> string option" where
  "projectKeyOf ticket = (let p = takeWhile (\<lambda>c. c \<noteq> CHR ''-'') ticket in if project_key_ok p then Some p else None)"

fun source_str :: "source \<Rightarrow> string" where
  "source_str SrcJira = ''jira''" | "source_str SrcStudio = ''studio''"

definition decide_meta :: "step_id \<Rightarrow> string \<Rightarrow> gate_request \<Rightarrow> (string \<times> meta_value) list" where
  "decide_meta st grp rq = [(''step'', MStr (step_str st)), (''group'', MStr grp), (''source'', MStr (source_str (rq_source rq)))]
     @ (case rq_reason rq of None \<Rightarrow> [] | Some r \<Rightarrow> [(''reason'', MStr r)])"

definition decision_of :: "step_id \<Rightarrow> string \<Rightarrow> nat \<Rightarrow> gate_request \<Rightarrow> gate_decision" where
  "decision_of st grp seq rq = \<lparr>gd_step = st, gd_decision = rq_decision rq, gd_actorUserId = rq_actor rq,
     gd_actorGroup = grp, gd_sodVerified = True, gd_signatureSeq = seq, gd_source = rq_source rq, gd_at = rq_at rq,
     gd_reason = rq_reason rq\<rparr>"

text \<open>The schema of a decision: texts are trimmed, and then it is one or it throws.\<close>

definition decision_parse :: "gate_decision \<Rightarrow> gate_decision option" where
  "decision_parse d =
    (if gate_decision_ok d \<and> iso_datetime_ok (asc (gd_at d))
     then Some (d\<lparr>gd_actorUserId := trim (gd_actorUserId d), gd_actorGroup := trim (gd_actorGroup d),
       gd_reason := map_option trim (gd_reason d)\<rparr>)
     else None)"

text \<open>The result, and what was done by then.\<close>

definition decideGate :: "decide_ports \<Rightarrow> gate_request \<Rightarrow> (decide_error + gate_result) \<times> decide_effect list" where
  "decideGate D rq =
    (case dp_state D of
       None \<Rightarrow> (Inr (Undecided NoRun None None), [])
     | Some (st, stt) \<Rightarrow>
       if stt \<noteq> AtGate \<or> \<not> isApprovalGate st then (Inr (Undecided NoOpenGate (Some st) None), [])
       else case projectKeyOf (rq_ticket rq) of None \<Rightarrow> (Inl BadTicketKey, []) | Some project \<Rightarrow>
       (case dp_ownerGroup D st project of
         None \<Rightarrow> (Inr (Undecided NoOpenGate (Some st) None), [])
       | Some grp \<Rightarrow> (case dp_member D (rq_membershipId rq) grp of
           None \<Rightarrow> (Inl MembershipUnverifiable, [])
         | Some False \<Rightarrow> (Inr (Undecided NotMember (Some st) (Some grp)), [])
         | Some True \<Rightarrow> (case dp_append D of
             None \<Rightarrow> (Inl AuditRefused, [])
           | Some seq \<Rightarrow>
             let audited = Audited (if rq_decision rq = Approve then GATE_APPROVE else GATE_REJECT) (rq_actor rq)
                   (rq_ticket rq) (decide_meta st grp rq) (rq_at rq);
                 parsed = decision_parse (decision_of st grp seq rq)
             in case parsed of
                  None \<Rightarrow> (Inl DecisionInvalid, [audited])
                | Some d \<Rightarrow> (case dp_signal D of
                    None \<Rightarrow> (Inl SignalFailed, [audited])
                  | Some False \<Rightarrow> (Inr (Undecided NotDelivered (Some st) (Some grp)), [audited])
                  | Some True \<Rightarrow> (Inr (Decided st grp seq), [audited, Signalled d]))))))"

text \<open>A decision is signalled only by a verified member of the owner group, at an open approval gate, after its record.\<close>

lemma decideGate_signals:
  assumes "Signalled d \<in> set (snd (decideGate D rq))"
  shows "\<exists>st project grp seq. dp_state D = Some (st, AtGate) \<and> isApprovalGate st \<and>
    projectKeyOf (rq_ticket rq) = Some project \<and> dp_ownerGroup D st project = Some grp \<and> dp_member D (rq_membershipId rq) grp = Some True \<and>
    dp_append D = Some seq \<and> decision_parse (decision_of st grp seq rq) = Some d \<and>
    snd (decideGate D rq) = [Audited (if rq_decision rq = Approve then GATE_APPROVE else GATE_REJECT) (rq_actor rq)
      (rq_ticket rq) (decide_meta st grp rq) (rq_at rq), Signalled d]"
  using assms unfolding decideGate_def Let_def
  by (auto split: option.splits prod.splits bool.splits if_splits)

lemma decideGate_audits:
  assumes "Audited a actor subj meta at' \<in> set (snd (decideGate D rq))"
  shows "\<exists>st grp. meta = decide_meta st grp rq \<and> dp_member D (rq_membershipId rq) grp = Some True"
  using assms unfolding decideGate_def Let_def
  by (auto split: option.splits prod.splits bool.splits if_splits)

subsection \<open>decisions\<close>

record audit_row =
  ar_seq :: nat
  ar_at :: int
  ar_actor :: string
  ar_action :: audit_action
  ar_meta :: "(string \<times> meta_value) list"

definition meta_text :: "audit_row \<Rightarrow> string \<Rightarrow> string option" where
  "meta_text r k = (case map_of (ar_meta r) k of Some (MStr t) \<Rightarrow> Some t | _ \<Rightarrow> None)"

definition parse_step :: "string \<Rightarrow> step_id option" where
  "parse_step s = find (\<lambda>st. step_str st = s) STEP_IDS"

definition parse_source :: "string \<Rightarrow> source option" where
  "parse_source s = (if s = ''jira'' then Some SrcJira else if s = ''studio'' then Some SrcStudio else None)"

text \<open>One row through the schema; \<open>None\<close> is the schema's exception.\<close>

definition row_decision :: "audit_row \<Rightarrow> gate_decision option" where
  "row_decision r =
    (case (Option.bind (meta_text r ''step'') parse_step, meta_text r ''actorGroup'',
           Option.bind (meta_text r ''source'') parse_source, toISOString (ar_at r)) of
       (Some st, Some grp, Some src, Some at') \<Rightarrow>
         decision_parse \<lparr>gd_step = st, gd_decision = (if ar_action r = GATE_APPROVE then Approve else Reject),
               gd_actorUserId = ar_actor r, gd_actorGroup = grp,
               gd_sodVerified = (map_of (ar_meta r) ''sodVerified'' = Some (MBool True)), gd_signatureSeq = ar_seq r,
               gd_source = src, gd_at = at', gd_reason = meta_text r ''reason''\<rparr>
     | _ \<Rightarrow> None)"

definition decision_rows :: "string \<Rightarrow> audit_row list \<Rightarrow> audit_row list" where
  "decision_rows ticket trail = filter (\<lambda>r. ar_action r \<in> {GATE_APPROVE, GATE_REJECT} \<and>
     map_of (ar_meta r) ''ticketKey'' = Some (MStr ticket)) trail"

definition gate_decisions :: "string \<Rightarrow> audit_row list \<Rightarrow> gate_decision list option" where
  "gate_decisions ticket trail = those (map row_decision (decision_rows ticket trail))"

subsection \<open>No record carries the key that is asked for\<close>

fun no_ticketKey :: "string \<times> effect \<times> bool \<Rightarrow> bool" where
  "no_ticketKey (k, EAudit a actor subj meta, b) \<longleftrightarrow> map_of meta ''ticketKey'' = None"
| "no_ticketKey _ \<longleftrightarrow> True"

lemma logs_record [log_intros]: "only_performs no_ticketKey (record_entry env run kind actor title detail key)"
  unfolding record_entry_def by (rule log_intros) simp_all

lemma logs_audit [log_intros]:
  "map_of meta ''ticketKey'' = None \<Longrightarrow> only_performs no_ticketKey (audit_record env run a actor meta key)"
  unfolding audit_record_def by (rule log_intros) simp_all

lemma logs_if [log_intros]: "only_performs P m \<Longrightarrow> only_performs P n \<Longrightarrow> only_performs P (if c then m else n)"
  by simp

lemma logs_cases [log_intros]:
  "(\<And>a b. only_performs P (f2 a b)) \<Longrightarrow> only_performs P (case p of (a, b) \<Rightarrow> f2 a b)"
  "(\<And>e. only_performs P (f3 e)) \<Longrightarrow> (\<And>x. only_performs P (g3 x)) \<Longrightarrow> only_performs P (case r of Inl e \<Rightarrow> f3 e | Inr x \<Rightarrow> g3 x)"
  "(\<And>rp w. only_performs P (f4 rp w)) \<Longrightarrow> (\<And>w. only_performs P (g4 w)) \<Longrightarrow>
     only_performs P (case fin of WithReport rp w \<Rightarrow> f4 rp w | WithoutReport w \<Rightarrow> g4 w)"
  "(\<And>v. only_performs P (f5 v)) \<Longrightarrow> (\<And>w. only_performs P (g5 w)) \<Longrightarrow>
     only_performs P (case res of ResolvedOk v \<Rightarrow> f5 v | ResolvedDegraded w \<Rightarrow> g5 w)"
  "only_performs P a \<Longrightarrow> only_performs P b \<Longrightarrow> only_performs P c \<Longrightarrow> only_performs P d \<Longrightarrow>
     only_performs P (case pst of PrDraft \<Rightarrow> a | PrActive \<Rightarrow> b | PrCompleted \<Rightarrow> c | PrAbandoned \<Rightarrow> d)"
  by (cases p, simp, cases r, simp_all, cases fin, simp_all, cases res, simp_all, cases pst, simp_all)

lemma logs_each [log_intros]: "(\<And>x. only_performs P (f x)) \<Longrightarrow> only_performs P (aeach f xs)"
  by (induction xs) (simp_all add: log_intros)

lemma logs_catch [log_intros]:
  assumes "only_performs P m" "\<And>e. only_performs P (h e)"
  shows "only_performs P (acatch m h)"
  unfolding only_performs_def
proof
  fix s
  obtain r s1 where m: "m s = (r, s1)" by (cases "m s")
  obtain l where l: "performed s1 = performed s @ l" "\<forall>x \<in> set l. P x"
    using assms(1) m unfolding only_performs_def by (metis snd_conv)
  show "\<exists>l. performed (snd (acatch m h s)) = performed s @ l \<and> (\<forall>x \<in> set l. P x)"
  proof (cases r)
    case (Inl e)
    obtain l' where "performed (snd (h e s1)) = performed s1 @ l'" "\<forall>x \<in> set l'. P x"
      using assms(2) unfolding only_performs_def by metis
    then show ?thesis using m l Inl by (auto simp: acatch_def)
  next
    case (Inr x)
    then show ?thesis using m l by (auto simp: acatch_def)
  qed
qed

lemma logs_quiet [log_intros]:
  "only_performs P (end_session r)" "only_performs P (answer x)"
  by (rule logs_nothing; simp add: end_session_def answer_def)+

lemma logs_notify [log_intros]: "only_performs no_ticketKey (notifyEvent env run ev msg params to key)"
  unfolding notifyEvent_def Let_def by (intro log_intros) simp_all

lemma logs_parts [log_intros]:
  "only_performs no_ticketKey (handOver env run reason key)"
  "only_performs no_ticketKey (gates_get env r k)" "only_performs no_ticketKey (markFired env r k ids)"
  "only_performs no_ticketKey (appOf run)" "only_performs no_ticketKey (iso_nat t)"
  "only_performs no_ticketKey (expected_group env st)" "only_performs no_ticketKey (status_note env run pt detail key)"
  unfolding handOver_def gates_get_def markFired_def appOf_def iso_nat_def expected_group_def status_note_def
  by (intro log_intros; simp)+

lemma logs_resolve [log_intros]: "only_performs no_ticketKey (resolveOutcome env run what oc)"
  by (cases oc) (simp_all add: resolveOutcome_def log_intros)

lemma logs_finish [log_intros]: "only_performs no_ticketKey (finishTurn env run oc what)"
  by (cases oc) (simp_all add: finishTurn_def log_intros)

lemma logs_scan [log_intros]: "only_performs P (scan_all env scan tools)"
  by (induction tools) (simp_all add: log_intros)

lemma logs_model [log_intros]: "only_performs no_ticketKey (guardModelCall env run what (answer x))"
  unfolding only_performs_def
proof
  fix s
  have k: "only_performs no_ticketKey (athen (record_entry env run kd ac t d ky) (afail e :: 'a act_io))"
    "only_performs no_ticketKey (athen (handOver env run r ky) (afail e :: 'a act_io))" for kd ac t d ky e r
    by (intro log_intros)+
  show "\<exists>l. performed (snd (guardModelCall env run what (answer x) s)) = performed s @ l \<and> (\<forall>x \<in> set l. no_ticketKey x)"
    using k(1) [unfolded only_performs_def, rule_format, of _ _ _ _ _ _ s] k(2) [unfolded only_performs_def, rule_format, of _ _ _ s]
    by (simp add: guardModelCall_def answer_def Let_def split: sum.split act_error.split)
qed

lemma logs_carry [log_intros]: "only_performs no_ticketKey (carry_out env run st plan)"
  unfolding carry_out_def send_due_def mark_due_def note_delegations_def Let_def by (intro log_intros; simp)

lemma logs_void [log_intros]: "only_performs P m \<Longrightarrow> only_performs P (void m)"
  unfolding void_def by (intro log_intros)

lemma logs_match_meta [simp]: "map_of (match_meta m) ''ticketKey'' = None"
  by (cases m) simp_all

lemma logs_activities [log_intros]:
  "only_performs no_ticketKey (openGate env t st r)"
  "only_performs no_ticketKey (recordGateDecision env t d)"
  "only_performs no_ticketKey (isMasterApprover env u)"
  "only_performs no_ticketKey (escalateGate env t st h)"
  "only_performs no_ticketKey (journal env t kind title detail)"
  "only_performs no_ticketKey (handOverToHuman env t reason)"
  unfolding openGate_def open_for_def recordGateDecision_def isMasterApprover_def escalateGate_def journal_def
    handOverToHuman_def Let_def
  by (intro log_intros; simp)+

lemma logs_handBack [log_intros]: "only_performs no_ticketKey (handBackToReporter env run ticket pt)"
  unfolding handBackToReporter_def Let_def by (intro log_intros; simp)

lemma logs_move_step [log_intros]: "only_performs no_ticketKey (once_with oc k (EMove a b))"
  "only_performs no_ticketKey (once env k (EOpenPr a' b' c' d' e'))"
  unfolding once_def by (rule logs_once_with; simp)+

lemma logs_work [log_intros]:
  "only_performs no_ticketKey (moveTicketStatus env has t mv)"
  "only_performs no_ticketKey (resolveWorkMode env t)"
  "only_performs no_ticketKey (matchApplication env before rules snap m1 t)"
  "only_performs no_ticketKey (runIntake env snap m2 t)"
  "only_performs no_ticketKey (askClarification env t q)"
  "only_performs no_ticketKey (runEngineering env turn t token lap)"
  "only_performs no_ticketKey (runScans env scan t lap)"
  unfolding moveTicketStatus_def board_move_def resolveWorkMode_def matchApplication_def runIntake_def
    askClarification_def runEngineering_def runScans_def Let_def
  by (intro log_intros; simp)+

lemma logs_judges [log_intros]:
  "only_performs no_ticketKey (review env m1 t role lap)"
  "only_performs no_ticketKey (designTests env m2 t lap)"
  "only_performs no_ticketKey (runTests env turn m3 t lap)"
  "only_performs no_ticketKey (openPullRequest env repos t)"
  "only_performs no_ticketKey (activatePullRequest env t pr)"
  "only_performs no_ticketKey (verifyCiOrigin env t sig)"
  "only_performs no_ticketKey (mergePullRequest env prs t pr)"
  "only_performs no_ticketKey (closeTicket env t)"
  unfolding review_def designTests_def runTests_def openPullRequest_def activatePullRequest_def verifyCiOrigin_def
    mergePullRequest_def closeTicket_def Let_def
  by (intro log_intros; simp)+

lemma logs_perform: "only_performs no_ticketKey (perform env c)"
  by (cases c) (simp_all add: log_intros)

lemma run_calls_no_ticketKey:
  "\<forall>x \<in> set (performed s). no_ticketKey x \<Longrightarrow> x \<in> set (performed (run_calls cs s)) \<Longrightarrow> no_ticketKey x"
proof (induction cs s rule: run_calls.induct)
  case (2 env c cs s)
  obtain l where "performed (snd (perform env c s)) = performed s @ l" "\<forall>x \<in> set l. no_ticketKey x"
    using logs_perform unfolding only_performs_def by metis
  then show ?case using 2 by auto
qed auto

end
