(* ===== verification/Run_Rows.thy ===== *)
theory Run_Rows
  imports Contracts
begin

text \<open>
  The rows of the runs: the store the activities read their context from
  (\<open>apps/deploy/src/stores/run-context.ts\<close>), the row a start of a ticket opens
  (\<open>apps/deploy/src/temporal-gateway.ts\<close>), and the pass that copies the engine's verdicts onto the rows
  (\<open>stores/reconcile.ts\<close>). The table keeps its primary key and the partial unique index on live tickets.
\<close>

subsection \<open>The store\<close>

datatype row_status = StRun | StGate | StQueued | StHandover | StDone | StCancelled | StFail

definition TERMINAL_STATUSES :: "row_status list" where
  "TERMINAL_STATUSES = [StDone, StCancelled, StFail]"

record wf_row =
  wr_id :: string
  wr_ticket :: string
  wr_appId :: "string option"
  wr_status :: row_status
  wr_startedAt :: int
  wr_variantId :: string
  wr_templateVersion :: string
  wr_step :: string

datatype store_error = RunNotFoundError string | IncompleteRunContextError string | UnpinnedRunError string string

definition is_live :: "wf_row \<Rightarrow> bool" where
  "is_live r \<longleftrightarrow> wr_status r \<notin> set TERMINAL_STATUSES"

text \<open>\<open>orderBy startedAt desc\<close>, the first.\<close>

fun newest :: "wf_row list \<Rightarrow> wf_row option" where
  "newest [] = None"
| "newest (r # rows) = (case newest rows of None \<Rightarrow> Some r
     | Some m \<Rightarrow> if wr_startedAt r < wr_startedAt m then Some m else Some r)"

definition liveRun :: "wf_row list \<Rightarrow> string \<Rightarrow> wf_row option" where
  "liveRun rows ticket = newest (filter (\<lambda>r. wr_ticket r = ticket \<and> is_live r) rows)"

text \<open>\<open>apps\<close> are the applications that exist: what the join finds.\<close>

definition row_get :: "string set \<Rightarrow> wf_row list \<Rightarrow> string \<Rightarrow> store_error + wf_row" where
  "row_get apps rows ticket = (case liveRun rows ticket of
     None \<Rightarrow> Inl (RunNotFoundError ticket)
   | Some r \<Rightarrow> if \<exists>a. wr_appId r = Some a \<and> a \<notin> apps then Inl (IncompleteRunContextError ticket) else Inr r)"

record new_run =
  nr_runId :: string
  nr_ticket :: string
  nr_appId :: "string option"
  nr_startedAt :: int
  nr_variantId :: string
  nr_templateVersion :: string

definition assertPinned :: "new_run \<Rightarrow> store_error option" where
  "assertPinned n =
    (if trim (nr_variantId n) = [] then Some (UnpinnedRunError (nr_ticket n) ''variantId'')
     else if trim (nr_templateVersion n) = [] then Some (UnpinnedRunError (nr_ticket n) ''templateVersion'')
     else None)"

text \<open>The insert: \<open>None\<close> is the unique violation, of the primary key or of the index on live tickets.\<close>

definition row_insert :: "wf_row \<Rightarrow> wf_row list \<Rightarrow> wf_row list option" where
  "row_insert r rows =
    (if wr_id r \<in> wr_id ` set rows \<or> (\<exists>q \<in> set rows. wr_ticket q = wr_ticket r \<and> is_live q) then None
     else Some (rows @ [r]))"

text \<open>The violation is swallowed: "the row exists".\<close>

definition row_create :: "new_run \<Rightarrow> wf_row list \<Rightarrow> store_error option \<times> wf_row list" where
  "row_create n rows = (case assertPinned n of Some e \<Rightarrow> (Some e, rows)
   | None \<Rightarrow> if liveRun rows (nr_ticket n) \<noteq> None then (None, rows)
     else (case row_insert \<lparr>wr_id = nr_runId n, wr_ticket = nr_ticket n, wr_appId = nr_appId n, wr_status = StRun,
         wr_startedAt = nr_startedAt n, wr_variantId = nr_variantId n,
         wr_templateVersion = nr_templateVersion n, wr_step = ''0''\<rparr> rows of
       Some rows' \<Rightarrow> (None, rows') | None \<Rightarrow> (None, rows)))"

text \<open>Of the columns a patch may write: the step, the status, the two pins.\<close>

record row_changes =
  ch_step :: "string option"
  ch_status :: "row_status option"
  ch_variantId :: "string option"
  ch_templateVersion :: "string option"

definition pinned :: "string option \<Rightarrow> string \<Rightarrow> string" where
  "pinned c old = (case c of Some v \<Rightarrow> if trim v = [] then old else v | None \<Rightarrow> old)"

definition toRunUpdate :: "row_changes \<Rightarrow> wf_row \<Rightarrow> wf_row" where
  "toRunUpdate c r = r\<lparr>wr_step := (case ch_step c of Some t \<Rightarrow> t | None \<Rightarrow> wr_step r),
     wr_status := (case ch_status c of Some t \<Rightarrow> t | None \<Rightarrow> wr_status r),
     wr_variantId := pinned (ch_variantId c) (wr_variantId r),
     wr_templateVersion := pinned (ch_templateVersion c) (wr_templateVersion r)\<rparr>"

definition row_patch :: "string \<Rightarrow> row_changes \<Rightarrow> wf_row list \<Rightarrow> store_error option \<times> wf_row list" where
  "row_patch ticket c rows = (case liveRun rows ticket of
     None \<Rightarrow> (Some (RunNotFoundError ticket), rows)
   | Some r \<Rightarrow> (None, map (\<lambda>q. if wr_id q = wr_id r then toRunUpdate c q else q) rows))"

subsection \<open>The gateway\<close>

definition workflowIdFor :: "string \<Rightarrow> string" where
  "workflowIdFor ticket = ''maestro-'' @ ticket"

text \<open>A start the engine accepted opens the row; a start that joined a live execution opens none.\<close>

definition openRun :: "bool \<Rightarrow> string \<Rightarrow> string option \<Rightarrow> int \<Rightarrow> string \<Rightarrow> string \<Rightarrow> wf_row list \<Rightarrow> store_error option \<times> wf_row list" where
  "openRun started ticket appId now variant template rows =
    (if \<not> started then (None, rows)
     else row_create \<lparr>nr_runId = workflowIdFor ticket, nr_ticket = ticket, nr_appId = appId, nr_startedAt = now,
       nr_variantId = variant, nr_templateVersion = template\<rparr> rows)"

subsection \<open>The reconciler\<close>

datatype execution_status = ExRunning | ExCompleted | ExFailed | ExCancelled | ExTerminated | ExContinued | ExTimedOut

fun DB_STATUS_BY_EXECUTION :: "execution_status \<Rightarrow> row_status option" where
  "DB_STATUS_BY_EXECUTION ExCompleted = Some StDone"
| "DB_STATUS_BY_EXECUTION ExFailed = Some StFail"
| "DB_STATUS_BY_EXECUTION ExCancelled = Some StCancelled"
| "DB_STATUS_BY_EXECUTION ExTerminated = Some StFail"
| "DB_STATUS_BY_EXECUTION ExTimedOut = Some StFail"
| "DB_STATUS_BY_EXECUTION _ = None"

record run_summary =
  su_ticket :: string
  su_status :: execution_status
  su_startedAt :: int   \<comment> \<open>the text of an instant; texts of one form order as their instants\<close>

definition SKIP :: "row_status list" where
  "SKIP = [StDone, StCancelled, StFail, StGate, StQueued, StHandover]"

text \<open>The newest execution of each ticket; of two as new, the first listed.\<close>

definition by_ticket :: "run_summary list \<Rightarrow> string \<Rightarrow> run_summary option" where
  "by_ticket xs ticket = fold (\<lambda>x seen. if su_ticket x \<noteq> ticket then seen
     else case seen of None \<Rightarrow> Some x | Some m \<Rightarrow> if su_startedAt m < su_startedAt x then Some x else seen) xs None"

record pass =
  p_rows :: "wf_row list"
  p_audit :: "(string \<times> row_status) list"   \<comment> \<open>\<open>RUN_CLOSED\<close>: the run and its status\<close>
  p_reconciled :: nat
  p_stillRunning :: nat
  p_unknown :: nat

text \<open>The conditional update moves a row that is still in none of the skipped states.\<close>

definition settle :: "string \<Rightarrow> row_status \<Rightarrow> pass \<Rightarrow> pass" where
  "settle i next' p =
    (if \<exists>r \<in> set (p_rows p). wr_id r = i \<and> wr_status r \<notin> set SKIP
     then p\<lparr>p_rows := map (\<lambda>r. if wr_id r = i \<and> wr_status r \<notin> set SKIP then r\<lparr>wr_status := next'\<rparr> else r) (p_rows p),
       p_audit := p_audit p @ [(i, next')], p_reconciled := Suc (p_reconciled p)\<rparr>
     else p)"

definition reconcile_row :: "run_summary list \<Rightarrow> wf_row \<Rightarrow> pass \<Rightarrow> pass" where
  "reconcile_row xs row p = (case by_ticket xs (wr_ticket row) of
     None \<Rightarrow> p\<lparr>p_unknown := Suc (p_unknown p)\<rparr>
   | Some x \<Rightarrow> (case DB_STATUS_BY_EXECUTION (su_status x) of
       None \<Rightarrow> p\<lparr>p_stillRunning := Suc (p_stillRunning p)\<rparr>
     | Some n \<Rightarrow> settle (wr_id row) n p))"

text \<open>\<open>xs\<close> is what the engine lists.\<close>

definition reconcileRunStatuses :: "run_summary list \<Rightarrow> wf_row list \<Rightarrow> pass" where
  "reconcileRunStatuses xs rows =
    fold (reconcile_row xs) (filter (\<lambda>r. wr_status r \<notin> set SKIP) rows)
      \<lparr>p_rows = rows, p_audit = [], p_reconciled = 0, p_stillRunning = 0, p_unknown = 0\<rparr>"

subsection \<open>The table over time\<close>

datatype row_op =
    Open bool string "string option" int string string
  | Patch string row_changes
  | Reconcile "run_summary list"

fun row_step :: "row_op \<Rightarrow> wf_row list \<Rightarrow> wf_row list" where
  "row_step (Open started t a n v tv) rows = snd (openRun started t a n v tv rows)"
| "row_step (Patch t c) rows = snd (row_patch t c rows)"
| "row_step (Reconcile xs) rows = p_rows (reconcileRunStatuses xs rows)"

definition row_steps :: "row_op list \<Rightarrow> wf_row list \<Rightarrow> wf_row list" where
  "row_steps ops rows = fold row_step ops rows"

text \<open>Every row carries its ticket's id, and no id twice.\<close>

definition rows_ok :: "wf_row list \<Rightarrow> bool" where
  "rows_ok rows \<longleftrightarrow> distinct (map wr_id rows) \<and> (\<forall>r \<in> set rows. wr_id r = workflowIdFor (wr_ticket r))"

text \<open>A change of states and columns that keeps ids, tickets and what is over.\<close>

definition row_kept :: "wf_row \<Rightarrow> wf_row \<Rightarrow> bool" where
  "row_kept r r' \<longleftrightarrow> wr_id r' = wr_id r \<and> wr_ticket r' = wr_ticket r \<and> (\<not> is_live r \<longrightarrow> wr_status r' = wr_status r)"

lemma kept_refl [simp]: "row_kept r r"
  by (simp add: row_kept_def)

lemma kept_rows_ok: "rows_ok rows \<Longrightarrow> (\<And>r. row_kept r (f r)) \<Longrightarrow> rows_ok (map f rows)"
  by (simp add: rows_ok_def row_kept_def o_def)

lemma newest_in: "newest rows = Some r \<Longrightarrow> r \<in> set rows"
  by (induction rows arbitrary: r) (auto split: option.splits if_splits)

lemma newest_None [simp]: "newest rows = None \<longleftrightarrow> rows = []"
  by (cases rows) (auto split: option.splits)

lemma liveRun_None: "liveRun rows t = None \<longleftrightarrow> (\<forall>r \<in> set rows. wr_ticket r = t \<longrightarrow> \<not> is_live r)"
  by (auto simp: liveRun_def filter_empty_conv)

lemma liveRun_in: "liveRun rows t = Some r \<Longrightarrow> r \<in> set rows \<and> wr_ticket r = t \<and> is_live r"
  by (auto simp: liveRun_def dest: newest_in)

subsection \<open>Lemmas\<close>

text \<open>What every step does to a table: some rows change and keep what is over, at most one is added.\<close>

definition row_move :: "wf_row list \<Rightarrow> wf_row list \<Rightarrow> bool" where
  "row_move rows rows' \<longleftrightarrow> (\<exists>f new. rows' = map f rows @ new \<and> (\<forall>r \<in> set rows. row_kept r (f r)) \<and>
     (\<forall>r \<in> set new. wr_id r \<notin> wr_id ` set rows \<and> wr_id r = workflowIdFor (wr_ticket r)) \<and> length new \<le> 1)"

lemma row_move_refl [simp]: "row_move rows rows"
  unfolding row_move_def by (rule exI [of _ id], rule exI [of _ "[]"]) simp

lemma row_move_map: "(\<And>r. r \<in> set rows \<Longrightarrow> row_kept r (f r)) \<Longrightarrow> row_move rows (map f rows)"
  unfolding row_move_def by (rule exI [of _ f], rule exI [of _ "[]"]) simp

lemma row_move_ok:
  assumes "row_move rows rows'" "rows_ok rows"
  shows "rows_ok rows'"
proof -
  obtain f new where m: "rows' = map f rows @ new" "\<forall>r \<in> set rows. row_kept r (f r)" "length new \<le> 1"
      "\<forall>r \<in> set new. wr_id r \<notin> wr_id ` set rows \<and> wr_id r = workflowIdFor (wr_ticket r)"
    using assms(1) unfolding row_move_def by blast
  have ids: "map (wr_id \<circ> f) rows = map wr_id rows" using m(2) by (simp add: row_kept_def)
  have new: "new = [] \<or> (\<exists>n. new = [n])" using m(3) by (cases new) auto
  have "\<forall>r \<in> set rows. wr_id (f r) = workflowIdFor (wr_ticket (f r))"
    using m(2) assms(2) by (simp add: row_kept_def rows_ok_def)
  moreover have "distinct (map wr_id rows')"
  proof -
    have e: "map wr_id rows' = map wr_id rows @ map wr_id new" by (simp add: m(1) ids)
    have d: "distinct (map wr_id rows)" using assms(2) by (simp add: rows_ok_def)
    from new consider "new = []" | a where "new = [a]" by blast
    then show ?thesis
    proof cases
      case 1
      then show ?thesis using d by (simp only: e list.map append_Nil2)
    next
      case (2 a)
      have "a \<in> set new" by (simp add: 2)
      then have "wr_id a \<notin> set (map wr_id rows)" using m(4) unfolding set_map by blast
      then show ?thesis using d by (simp only: e 2 list.map distinct_append distinct.simps list.set) blast
    qed
  qed
  ultimately show ?thesis using m(4) by (auto simp: rows_ok_def m(1))
qed

lemma rows_ok_inj: "rows_ok rows \<Longrightarrow> r \<in> set rows \<Longrightarrow> q \<in> set rows \<Longrightarrow> wr_id r = wr_id q \<Longrightarrow> r = q"
  unfolding rows_ok_def distinct_map by (blast dest: inj_onD)

lemma create_move: "row_move rows (snd (row_create n rows))" if "nr_runId n = workflowIdFor (nr_ticket n)"
proof (cases "\<exists>r. snd (row_create n rows) = rows @ [r] \<and> wr_id r \<notin> wr_id ` set rows \<and> wr_id r = workflowIdFor (wr_ticket r)")
  case True
  then obtain r where "snd (row_create n rows) = rows @ [r]" "wr_id r \<notin> wr_id ` set rows"
    "wr_id r = workflowIdFor (wr_ticket r)" by blast
  then show ?thesis unfolding row_move_def by (intro exI [of _ id] exI [of _ "[r]"]) simp
next
  case False
  then have "snd (row_create n rows) = rows" using that
    by (auto simp: row_create_def row_insert_def split: option.splits if_splits)
  then show ?thesis by simp
qed

lemma patch_move: "rows_ok rows \<Longrightarrow> row_move rows (snd (row_patch t c rows))"
proof (cases "liveRun rows t")
  case None
  then show ?thesis by (simp add: row_patch_def)
next
  case (Some q)
  assume ok: "rows_ok rows"
  have q: "q \<in> set rows" "is_live q" using liveRun_in [OF Some] by auto
  have "is_live r" if "r \<in> set rows" "wr_id r = wr_id q" for r
  proof -
    have "r = q" by (rule rows_ok_inj [OF ok that(1) q(1) that(2)])
    then show ?thesis using q by simp
  qed
  then have "row_move rows (map (\<lambda>r. if wr_id r = wr_id q then toRunUpdate c r else r) rows)"
    by (intro row_move_map) (simp add: row_kept_def toRunUpdate_def)
  then show ?thesis by (simp add: row_patch_def Some)
qed

definition fold_kept :: "wf_row list \<Rightarrow> wf_row list \<Rightarrow> bool" where
  "fold_kept rows rows' \<longleftrightarrow> (\<exists>f. rows' = map f rows \<and> (\<forall>r. row_kept r (f r)))"

lemma kept_trans: "row_kept a b \<Longrightarrow> row_kept b c \<Longrightarrow> row_kept a c"
  by (auto simp: row_kept_def is_live_def)

lemma fold_kept_refl: "fold_kept rows rows"
  unfolding fold_kept_def by (rule exI [of _ id]) simp

lemma fold_kept_trans: "fold_kept a b \<Longrightarrow> fold_kept b c \<Longrightarrow> fold_kept a c"
  unfolding fold_kept_def
proof (elim exE conjE)
  fix f g assume "b = map f a" "\<forall>r. row_kept r (f r)" "c = map g b" "\<forall>r. row_kept r (g r)"
  then show "\<exists>h. c = map h a \<and> (\<forall>r. row_kept r (h r))"
    by (intro exI [of _ "g \<circ> f"]) (auto intro: kept_trans)
qed

lemma settle_kept: "fold_kept (p_rows p) (p_rows (settle i n p))"
proof (cases "\<exists>r \<in> set (p_rows p). wr_id r = i \<and> wr_status r \<notin> set SKIP")
  case True
  then show ?thesis
    unfolding fold_kept_def settle_def
    by (intro exI [of _ "\<lambda>r. if wr_id r = i \<and> wr_status r \<notin> set SKIP then r\<lparr>wr_status := n\<rparr> else r"])
      (auto simp: row_kept_def is_live_def SKIP_def TERMINAL_STATUSES_def)
next
  case False
  then have "settle i n p = p" unfolding settle_def by (rule if_not_P)
  then show ?thesis by (simp add: fold_kept_refl)
qed

lemma reconcile_row_kept: "fold_kept (p_rows p) (p_rows (reconcile_row xs r p))"
  by (simp add: reconcile_row_def settle_kept fold_kept_refl split: option.split)

lemma fold_rows_kept: "fold_kept (p_rows p) (p_rows (fold (reconcile_row xs) rs p))"
  by (induction rs arbitrary: p) (auto intro: fold_kept_refl fold_kept_trans reconcile_row_kept)

lemma reconcile_move: "row_move rows (p_rows (reconcileRunStatuses xs rows))"
proof -
  have "fold_kept rows (p_rows (reconcileRunStatuses xs rows))"
    using fold_rows_kept [of "\<lparr>p_rows = rows, p_audit = [], p_reconciled = 0, p_stillRunning = 0, p_unknown = 0\<rparr>"]
    by (simp add: reconcileRunStatuses_def)
  then obtain f where "p_rows (reconcileRunStatuses xs rows) = map f rows" "\<forall>r. row_kept r (f r)"
    unfolding fold_kept_def by blast
  then show ?thesis by (simp add: row_move_map)
qed

lemma row_step_move: "rows_ok rows \<Longrightarrow> row_move rows (row_step op rows)"
  by (cases op) (simp_all add: openRun_def create_move patch_move reconcile_move)

lemma rows_ok_steps: "rows_ok rows \<Longrightarrow> rows_ok (row_steps ops rows)"
  unfolding row_steps_def
  by (induction ops arbitrary: rows) (auto intro: row_move_ok row_step_move)

text \<open>A ticket whose row is over has no other row, and will have none.\<close>

lemma over_stays:
  assumes "rows_ok rows" "\<exists>r \<in> set rows. wr_ticket r = t \<and> \<not> is_live r"
  shows "\<exists>r \<in> set (row_steps ops rows). wr_ticket r = t \<and> \<not> is_live r"
  using assms unfolding row_steps_def
proof (induction ops arbitrary: rows)
  case (Cons op ops)
  have move: "row_move rows (row_step op rows)" by (rule row_step_move [OF Cons.prems(1)])
  then obtain f new where m: "row_step op rows = map f rows @ new" "\<forall>r \<in> set rows. row_kept r (f r)"
    unfolding row_move_def by blast
  from Cons.prems(2) have "\<exists>r \<in> set (row_step op rows). wr_ticket r = t \<and> \<not> is_live r"
    using m by (fastforce simp: row_kept_def is_live_def)
  then show ?case using Cons.IH [OF row_move_ok [OF move Cons.prems(1)]] by simp
qed simp

lemma over_alone:
  assumes "rows_ok rows" "r \<in> set rows" "\<not> is_live r"
  shows "liveRun rows (wr_ticket r) = None"
  unfolding liveRun_None
proof (intro ballI impI)
  fix q assume q: "q \<in> set rows" "wr_ticket q = wr_ticket r"
  then have "wr_id q = wr_id r" using assms by (simp add: rows_ok_def)
  then have "q = r" by (rule rows_ok_inj [OF assms(1) q(1) assms(2)])
  then show "\<not> is_live q" using assms by simp
qed

subsection \<open>What a pass does, row by row\<close>

text \<open>The engine's verdict on a row: only a running row has one, and only a closed execution gives one.\<close>

definition new_status :: "run_summary list \<Rightarrow> wf_row \<Rightarrow> row_status option" where
  "new_status xs r = (if wr_status r \<in> set SKIP then None
     else case by_ticket xs (wr_ticket r) of None \<Rightarrow> None | Some x \<Rightarrow> DB_STATUS_BY_EXECUTION (su_status x))"

definition verdict :: "run_summary list \<Rightarrow> wf_row \<Rightarrow> wf_row" where
  "verdict xs r = (case new_status xs r of None \<Rightarrow> r | Some n \<Rightarrow> r\<lparr>wr_status := n\<rparr>)"

definition closure :: "run_summary list \<Rightarrow> wf_row \<Rightarrow> (string \<times> row_status) list" where
  "closure xs r = (case new_status xs r of None \<Rightarrow> [] | Some n \<Rightarrow> [(wr_id r, n)])"

lemma verdict_simps [simp]: "wr_id (verdict xs r) = wr_id r" "wr_ticket (verdict xs r) = wr_ticket r"
  by (simp_all add: verdict_def split: option.split)

lemma reconcile_row_exact:
  assumes ok: "rows_ok rows" and r: "r \<in> set rows" "wr_status r \<notin> set SKIP" "r \<notin> A"
    and p: "p_rows p = map (\<lambda>q. if q \<in> A then verdict xs q else q) rows"
  shows "p_rows (reconcile_row xs r p) = map (\<lambda>q. if q \<in> insert r A then verdict xs q else q) rows \<and>
    p_audit (reconcile_row xs r p) = p_audit p @ closure xs r"
proof (cases "new_status xs r")
  case None
  then have "p_rows (reconcile_row xs r p) = p_rows p" "p_audit (reconcile_row xs r p) = p_audit p"
    using r by (auto simp: reconcile_row_def new_status_def split: option.splits)
  moreover have "verdict xs r = r" "closure xs r = []" using None by (simp_all add: verdict_def closure_def)
  ultimately show ?thesis by (auto simp: p)
next
  case (Some n)
  have rec: "reconcile_row xs r p = settle (wr_id r) n p"
    using Some r by (auto simp: reconcile_row_def new_status_def split: option.splits)
  have v: "verdict xs r = r\<lparr>wr_status := n\<rparr>" "closure xs r = [(wr_id r, n)]"
    using Some by (simp_all add: verdict_def closure_def)
  have there: "\<exists>q \<in> set (p_rows p). wr_id q = wr_id r \<and> wr_status q \<notin> set SKIP"
  proof
    show "r \<in> set (p_rows p)" using r by (auto simp: p intro: rev_image_eqI)
  qed (use r in simp)
  have "map (\<lambda>q. if wr_id q = wr_id r \<and> wr_status q \<notin> set SKIP then q\<lparr>wr_status := n\<rparr> else q) (p_rows p)
      = map (\<lambda>q. if q \<in> insert r A then verdict xs q else q) rows"
    unfolding p map_map
  proof (rule map_cong [OF refl])
    fix q assume q: "q \<in> set rows"
    show "((\<lambda>q. if wr_id q = wr_id r \<and> wr_status q \<notin> set SKIP then q\<lparr>wr_status := n\<rparr> else q) \<circ>
        (\<lambda>q. if q \<in> A then verdict xs q else q)) q = (if q \<in> insert r A then verdict xs q else q)"
    proof (cases "q = r")
      case True
      then show ?thesis using r v by simp
    next
      case False
      then have "wr_id q \<noteq> wr_id r" using rows_ok_inj [OF ok q r(1)] by blast
      then show ?thesis using False by simp
    qed
  qed
  then show ?thesis using there by (simp add: rec settle_def v)
qed

lemma fold_exact:
  assumes "rows_ok rows" "set rs \<subseteq> set rows" "distinct rs" "\<forall>r \<in> set rs. wr_status r \<notin> set SKIP" "set rs \<inter> A = {}"
    "p_rows p = map (\<lambda>q. if q \<in> A then verdict xs q else q) rows"
  shows "p_rows (fold (reconcile_row xs) rs p) = map (\<lambda>q. if q \<in> set rs \<union> A then verdict xs q else q) rows \<and>
    p_audit (fold (reconcile_row xs) rs p) = p_audit p @ concat (map (closure xs) rs)"
  using assms(2-)
proof (induction rs arbitrary: p A)
  case (Cons r rs)
  have step: "p_rows (reconcile_row xs r p) = map (\<lambda>q. if q \<in> insert r A then verdict xs q else q) rows \<and>
      p_audit (reconcile_row xs r p) = p_audit p @ closure xs r"
    by (rule reconcile_row_exact [OF assms(1)]) (use Cons.prems in auto)
  have "p_rows (fold (reconcile_row xs) rs (reconcile_row xs r p)) =
      map (\<lambda>q. if q \<in> set rs \<union> insert r A then verdict xs q else q) rows \<and>
    p_audit (fold (reconcile_row xs) rs (reconcile_row xs r p)) =
      p_audit (reconcile_row xs r p) @ concat (map (closure xs) rs)"
    by (rule Cons.IH) (use Cons.prems step in auto)
  then show ?case using step by simp
qed simp

lemma closure_skip: "wr_status r \<in> set SKIP \<Longrightarrow> closure xs r = [] \<and> verdict xs r = r"
  by (simp add: closure_def verdict_def new_status_def)

lemma concat_filter_closure:
  "concat (map (closure xs) (filter (\<lambda>r. wr_status r \<notin> set SKIP) rows)) = concat (map (closure xs) rows)"
  by (induction rows) (auto simp: closure_skip)

lemma reconcile_exact:
  assumes ok: "rows_ok rows"
  shows "p_rows (reconcileRunStatuses xs rows) = map (verdict xs) rows \<and>
    p_audit (reconcileRunStatuses xs rows) = concat (map (closure xs) rows)"
proof -
  let ?rs = "filter (\<lambda>r. wr_status r \<notin> set SKIP) rows"
  let ?p = "\<lparr>p_rows = rows, p_audit = [], p_reconciled = 0, p_stillRunning = 0, p_unknown = 0\<rparr>"
  have d: "distinct ?rs" using ok by (simp add: rows_ok_def distinct_map)
  have f: "p_rows (fold (reconcile_row xs) ?rs ?p) = map (\<lambda>q. if q \<in> set ?rs \<union> {} then verdict xs q else q) rows \<and>
      p_audit (fold (reconcile_row xs) ?rs ?p) = p_audit ?p @ concat (map (closure xs) ?rs)"
    by (rule fold_exact [OF ok _ d]) auto
  have "map (\<lambda>q. if q \<in> set ?rs \<union> {} then verdict xs q else q) rows = map (verdict xs) rows"
    by (auto simp: closure_skip)
  then show ?thesis using f by (simp add: reconcileRunStatuses_def concat_filter_closure)
qed

lemma verdict_settled:
  assumes n: "new_status xs r = Some n"
  shows "new_status xs (verdict xs r) = None"
proof -
  have "\<exists>x :: run_summary. DB_STATUS_BY_EXECUTION (su_status x) = Some n"
    using n by (auto simp: new_status_def split: if_splits option.splits)
  then obtain x :: run_summary where "DB_STATUS_BY_EXECUTION (su_status x) = Some n" by blast
  then have "n \<in> set SKIP" by (cases "su_status x") (auto simp: SKIP_def)
  moreover have "verdict xs r = r\<lparr>wr_status := n\<rparr>" by (simp add: verdict_def n)
  ultimately show ?thesis by (simp add: new_status_def)
qed

lemma verdict_again: "verdict xs (verdict xs r) = verdict xs r \<and> closure xs (verdict xs r) = []"
proof (cases "new_status xs r")
  case None
  then show ?thesis by (simp add: verdict_def closure_def)
next
  case (Some n)
  then have "new_status xs (verdict xs r) = None" by (rule verdict_settled)
  then show ?thesis by (simp add: verdict_def [of xs "verdict xs r"] closure_def)
qed

end
