(* ===== verification/Act_Props.thy ===== *)
theory Act_Props
  imports Gate_Decide Run_Rows
begin

text \<open>
  Properties of the activities, the guard, the gates and the rows of the runs, with the concrete
  situations that show their hypotheses can hold.
\<close>

subsection \<open>A small installation\<close>

definition sample_run :: run_context where
  "sample_run = \<lparr>rc_runId = ''maestro-AB-1'', rc_ticket = ''AB-1'', rc_app = Some (''P'', ''R''), rc_dataClass = Dahili,
     rc_locale = Tr, rc_mode = FullAuto, rc_step = ''0'', rc_status = LifeRunning, rc_workspacePresent = True,
     rc_branch = ''b'', rc_targetBranch = ''main'', rc_risk = None, rc_prId = None, rc_resumeToken = None\<rparr>"

definition sample_state :: act_state where
  "sample_state = \<lparr>claims = \<lambda>_. None, gate_rows = \<lambda>_. None,
     run_rows = (\<lambda>t. if t = ''AB-1'' then Some sample_run else None), performed = [], ended_runs = []\<rparr>"

definition all_work :: env where
  "all_work = \<lparr>outcome = \<lambda>_. Performed VVoid, store_fails = \<lambda>_. False, now_ms = 0, activityId = ''1'', attempt = 1,
     groupForRole = Some, membersOf = \<lambda>g. Some [], verifyMembership = \<lambda>u g. Some True,
     notifyRouting = Some \<lparr>routing_default = [ChSmtp], byEvent = Map.empty\<rparr>, escalationLadder = None,
     reporter = Some None, error_text = \<lambda>_. ''e'', translate = \<lambda>_ k _. k\<rparr>"

lemma sample_guard: "guard_ok sample_state"
  by (simp add: guard_ok_def acked_def key_done_def sample_state_def)

lemma sample_live: "live_run sample_state ''AB-1'' = Some sample_run"
  by (simp add: live_run_def sample_state_def sample_run_def)

lemma epoch_iso: "toISOString 0 = Some ''1970-01-01T00:00:00.000Z''"
  by code_simp

lemma epoch_date: "new_Date ''1970-01-01T00:00:00.000Z'' = Some 0"
  by code_simp

lemmas act_eval = abind_def athen_def aret_def afail_def ask_def astore_def iso_text_of_def run_get_def once_void_def
  once_def once_with_def record_entry_def audit_record_def notifyEvent_def gates_open_def insertIfAbsent_def
  requireGate_def findGate_def put_gate_def log_effect_def set_claim_def live_run_def

lemma sample_opens: "fst (openGate all_work ''AB-1'' S4 ''product-owners'' sample_state) = Inr ''product-owners''"
  by (simp add: openGate_def open_for_def act_eval all_work_def sample_state_def sample_run_def epoch_iso epoch_date)

subsection \<open>The guard\<close>

text \<open>
  C10: Whatever the worker processes do with the table of the guard, in whatever order their statements,
  failures, time-outs and deaths fall, the effect of a key runs to its end at most once, and every call
  that returns for the key returns the result of that one run.
\<close>

theorem effect_completes_once:
  assumes "w = once_run es idem_start"
  shows "distinct (map fst (completed w)) \<and>
    (\<forall>i k v. procs w i = Returned k v \<longrightarrow> (k, v) \<in> set (completed w)) \<and>
    (\<forall>i j k v v'. procs w i = Returned k v \<longrightarrow> procs w j = Returned k v' \<longrightarrow> v = v')"
proof -
  have inv: "idem_inv w" unfolding assms by (rule idem_inv_run)
  note D = idem_invD [OF inv]
  have one: "(k, v) \<in> set (completed w) \<Longrightarrow> (k, v') \<in> set (completed w) \<Longrightarrow> v = v'" for k v v'
    using D(3) by (metis eq_key_imp_eq_value)
  show ?thesis using D(3) D(7) one by blast
qed

theorem effect_completes_once_witness:
  "completed (once_run [(0, Call ''k''), (0, Go), (0, Go), (1, Call ''k''), (1, Go), (1, Go), (0, Returns True), (0, Go), (1, Go)]
     idem_start) = [(''k'', True)] \<and>
   distinct (map fst (completed (once_run [(0, Call ''k''), (0, Go), (0, Go), (1, Call ''k''), (1, Go), (1, Go),
     (0, Returns True), (0, Go), (1, Go)] idem_start)))"
  using effect_completes_once [OF refl, of "[(0, Call ''k''), (0, Go), (0, Go), (1, Call ''k''), (1, Go), (1, Go),
     (0, Returns True), (0, Go), (1, Go)]"]
  by (simp add: idem_start_def set_proc_def set_row_def)

text \<open>
  A worker that dies while it holds the claim of a key leaves the key locked for good: from then on,
  whatever any process does, the row stays \<open>running\<close>, the effect never runs to its end again, and no call
  that had not returned by then ever returns. The header of the file promises a sweep of such rows that
  nothing performs.
\<close>

theorem claim_of_the_dead_stays:
  assumes "w = once_run es idem_start" "holds k (procs w i)"
  shows "let w' = once_move i (procs w i) Dies w in
    table (once_run later w') k = Some RowRunning \<and>
    filter (\<lambda>c. fst c = k) (completed (once_run later w')) = filter (\<lambda>c. fst c = k) (completed w) \<and>
    (\<forall>j v. procs (once_run later w') j = Returned k v \<longrightarrow> procs w j = Returned k v)"
proof -
  have inv: "idem_inv w" unfolding assms(1) by (rule idem_inv_run)
  note D = idem_invD [OF inv]
  let ?w' = "once_move i (procs w i) Dies w"
  have w': "?w' = set_proc i Dead w" using assms(2) by (cases "procs w i") simp_all
  have "orphaned k ?w'"
    using D(1) [OF assms(2)] D(2) [OF assms(2)] by (auto simp: orphaned_def w')
  note o = orphaned_run [OF this, of later]
  then show ?thesis unfolding Let_def by (auto simp: orphaned_def w' split: if_splits)
qed

theorem claim_of_the_dead_stays_witness:
  "let w = once_run [(0, Call ''k''), (0, Go), (0, Go)] (idem_start :: bool idem) in
   table (once_run [(1, Call ''k''), (1, Go), (1, Go), (1, Deadline)] (once_move 0 (procs w 0) Dies w)) ''k'' = Some RowRunning"
proof -
  have "holds ''k'' (procs (once_run [(0, Call ''k''), (0, Go), (0, Go)] (idem_start :: bool idem)) 0)"
    by (simp add: idem_start_def set_proc_def set_row_def)
  from claim_of_the_dead_stays [OF refl this, of "[(1, Call ''k''), (1, Go), (1, Go), (1, Deadline)]"]
  show ?thesis by (simp only: Let_def)
qed

subsection \<open>Opening a gate\<close>

lemma open_finishes:
  "finishes (open_for env ticket st role run) (rc_runId run @ '':audit:open:'' @ step_str st)"
  "finishes (open_for env ticket st role run) (rc_runId run @ '':journal:open:'' @ step_str st)"
  "finishes (open_for env ticket st role run) (rc_runId run @ '':gate-comment:'' @ step_str st)"
proof -
  let ?a = "rc_runId run @ '':audit:'' @ ''open:'' @ step_str st"
  let ?j = "rc_runId run @ '':journal:'' @ ''open:'' @ step_str st"
  let ?c = "rc_runId run @ '':gate-comment:'' @ step_str st"
  have "finishes (open_for env ticket st role run) ?a"
    unfolding open_for_def
    by (intro finishes_later, rule finishes_then_later, rule finishes_then_first, rule finishes_audit [OF refl], intro guard_intros)
  then show "finishes (open_for env ticket st role run) (rc_runId run @ '':audit:open:'' @ step_str st)" by simp
  have "finishes (open_for env ticket st role run) ?j"
    unfolding open_for_def
    by (intro finishes_later, rule finishes_then_later, rule finishes_then_later, rule finishes_then_first,
      rule finishes_record [OF refl], intro guard_intros)
  then show "finishes (open_for env ticket st role run) (rc_runId run @ '':journal:open:'' @ step_str st)" by simp
  show "finishes (open_for env ticket st role run) ?c"
    unfolding open_for_def
    by (intro finishes_later, rule finishes_then_later, rule finishes_then_later, rule finishes_then_later,
      rule finishes_then_first, rule finishes_once_void, intro guard_intros)
qed

lemma open_run:
  assumes "live_run s ticket = Some run" "fst (openGate env ticket st role s) = Inr grp"
  shows "openGate env ticket st role s = open_for env ticket st role run s"
proof -
  have "\<not> store_fails env ''runs.get''" using assms(2) by (auto simp: openGate_def abind_def run_get_def split: if_splits)
  then show ?thesis using assms(1) by (simp add: openGate_def abind_def run_get_def)
qed

text \<open>
  Temporal runs an activity as often as it likes. Once an attempt to open a gate has succeeded, after
  any attempts of any activities before it and whatever attempts follow, each of its records was made and
  acknowledged exactly once: the audit record, the journal entry, the comment on the ticket.
\<close>

theorem gate_opened_exactly_once:
  assumes "guard_ok s" "live_run (run_calls before s) ticket = Some run"
    "fst (openGate env ticket st role (run_calls before s)) = Inr grp"
  shows "\<forall>key \<in> {rc_runId run @ '':audit:open:'' @ step_str st, rc_runId run @ '':journal:open:'' @ step_str st,
      rc_runId run @ '':gate-comment:'' @ step_str st}.
    length (acked (run_calls later (snd (openGate env ticket st role (run_calls before s)))) key) = 1"
proof
  let ?s = "run_calls before s" and ?s' = "snd (openGate env ticket st role (run_calls before s))"
  fix key assume key: "key \<in> {rc_runId run @ '':audit:open:'' @ step_str st, rc_runId run @ '':journal:open:'' @ step_str st,
      rc_runId run @ '':gate-comment:'' @ step_str st}"
  note o = open_run [OF assms(2,3)]
  have "finishes (open_for env ticket st role run) key" using key open_finishes by auto
  then have "key_done ?s' key" using assms(3) unfolding finishes_def o by blast
  then have "key_done (run_calls later ?s') key" by (rule grows_done [OF run_calls_grows])
  moreover have "guard_ok (run_calls later ?s')"
    by (intro run_calls_guard keeps_guardD [OF keeps_openGate] assms(1))
  ultimately show "length (acked (run_calls later ?s') key) = 1" by (intro done_once)
qed

theorem gate_opened_exactly_once_witness:
  "length (acked (snd (openGate all_work ''AB-1'' S4 ''product-owners'' sample_state)) ''maestro-AB-1:audit:open:4'') = 1"
  using gate_opened_exactly_once [of sample_state "[]" "''AB-1''" sample_run all_work S4 "''product-owners''" "''product-owners''" "[]"]
    sample_guard sample_live sample_opens
  by (simp add: sample_run_def)

text \<open>
  The records of an opening are keyed by the step alone, and the row of a gate is never opened again.
  So when a gate is rejected and the flow comes back to it, the second opening does nothing: no record, no
  comment, no notification, the row stays closed; and with a closed row every reminder ends without
  sending anything. Nobody is told that a decision is wanted, and the ladder never starts.
\<close>

theorem reopened_gate_is_silent:
  assumes "live_run s ticket = Some run" "fst (openGate env ticket st role s) = Inr grp"
    "s2 = run_calls cs (snd (openGate env ticket st role s))"
    "live_run s2 ticket = Some run2" "rc_runId run2 = rc_runId run"
    "gate_rows s2 (rc_runId run, step_str st) = Some row" "gr_closedAt row \<noteq> None" "same_answers env env2"
  shows "snd (openGate env2 ticket st role s2) = s2 \<and>
    snd (escalateGate env3 ticket st hours s2) = s2 \<and>
    (\<forall>due. fst (escalateGate env3 ticket st hours s2) = Inr due \<longrightarrow> due = None)"
proof -
  obtain s1 where s1: "open_for env ticket st role run s = (Inr grp, s1)" "s1 = snd (openGate env ticket st role s)"
    using assms(2) unfolding open_run [OF assms(1,2)] by (cases "open_for env ticket st role run s") simp
  have "snd (open_for env2 ticket st role run2 s2) = s2"
    using replays_open [OF assms(8,5)] s1 run_calls_grows assms(3) by (auto simp: replays_def)
  then have "snd (openGate env2 ticket st role s2) = s2"
    using assms(4) by (simp add: openGate_def abind_def run_get_def)
  moreover have "snd (escalateGate env3 ticket st hours s2) = s2 \<and>
      (\<forall>due. fst (escalateGate env3 ticket st hours s2) = Inr due \<longrightarrow> due = None)"
    using assms(4-7)
    by (auto simp: escalateGate_def abind_def athen_def run_get_def gates_get_def astore_def findGate_def aret_def afail_def)
  ultimately show ?thesis by simp
qed

definition sample_rejection :: gate_decision where
  "sample_rejection = \<lparr>gd_step = S4, gd_decision = Reject, gd_actorUserId = ''ada'', gd_actorGroup = ''product-owners'',
     gd_sodVerified = True, gd_signatureSeq = 7, gd_source = SrcStudio, gd_at = ''1970-01-01T00:00:00.000Z'',
     gd_reason = Some ''no''\<rparr>"

lemma dec_7: "dec 7 = ''7''"
  by code_simp

theorem reopened_gate_is_silent_witness:
  "let s2 = run_calls [(all_work, CRecordDecision ''AB-1'' sample_rejection)]
       (snd (openGate all_work ''AB-1'' S4 ''product-owners'' sample_state))
   in snd (openGate all_work ''AB-1'' S4 ''product-owners'' s2) = s2"
proof -
  let ?s2 = "run_calls [(all_work, CRecordDecision ''AB-1'' sample_rejection)]
       (snd (openGate all_work ''AB-1'' S4 ''product-owners'' sample_state))"
  note eval = openGate_def open_for_def act_eval all_work_def sample_state_def sample_run_def epoch_iso epoch_date
    recordGateDecision_def expected_group_def void_def gates_close_def gates_update_def sample_rejection_def
    Let_def dec_7
  have "live_run ?s2 ''AB-1'' = Some sample_run"
    "gate_rows ?s2 (rc_runId sample_run, step_str S4) =
      Some \<lparr>gr_ownerGroup = ''product-owners'', gr_openedAt = 0, gr_fired = [], gr_closedAt = Some 0\<rparr>"
    by (simp_all add: eval)
  then show ?thesis unfolding Let_def
    using reopened_gate_is_silent [OF sample_live sample_opens refl, of "[(all_work, CRecordDecision ''AB-1'' sample_rejection)]"
        sample_run _ all_work all_work 24]
    by (simp add: same_answers_def)
qed

end
