(* ===== verification/Gate_Props.thy ===== *)
theory Gate_Props
  imports Act_Props
begin

text \<open>
  Properties of the decisions of the gates, of reminders, of the verdicts on the work, of refused model
  keys, of routing rules and of the rows of the runs.
\<close>

subsection \<open>Decisions\<close>

lemma decision_run:
  assumes "live_run s ticket = Some run" "fst (recordGateDecision env ticket d s) = Inr v"
  shows "\<not> store_fails env ''runs.get''"
  using assms by (auto simp: recordGateDecision_def abind_def run_get_def split: if_splits)

lemma gate_rows_once [simp]: "gate_rows (snd (once_with oc k e s)) = gate_rows s"
  by (cases "claims s k"; cases oc) (auto simp: once_with_def split: idem_row.split)

lemma gate_rows_record [simp]:
  "gate_rows (snd (once_void env k e s)) = gate_rows s"
  "gate_rows (snd (record_entry env run a b c d key s)) = gate_rows s"
  "gate_rows (snd (audit_record env run x y z key s)) = gate_rows s"
proof -
  show o: "gate_rows (snd (once_void env k e s)) = gate_rows s" for k e s
    using gate_rows_once [of "outcome env k" k e s]
    by (cases "once_with (outcome env k) k e s"; cases "fst (once_with (outcome env k) k e s)")
      (simp_all add: once_void_def once_def athen_def abind_def aret_def)
  show "gate_rows (snd (record_entry env run a b c d key s)) = gate_rows s"
    "gate_rows (snd (audit_record env run x y z key s)) = gate_rows s"
    by (simp_all add: record_entry_def audit_record_def o)
qed

lemma sndI: "m s = (r, s') \<Longrightarrow> snd (m s) = s'"
  by simp

text \<open>What the ports said before a decision was recorded.\<close>

definition decision_verified :: "env \<Rightarrow> gate_decision \<Rightarrow> bool" where
  "decision_verified env d \<longleftrightarrow> verifyMembership env (gd_actorUserId d) (gd_actorGroup d) = Some True \<and>
     (\<forall>role. GATE_OWNER (gd_step d) = Some role \<longrightarrow> groupForRole env role = Some (gd_actorGroup d))"

definition no_gate_audit :: "string \<times> effect \<times> bool \<Rightarrow> bool" where
  "no_gate_audit x \<longleftrightarrow> (\<forall>k a actor subj meta b. x = (k, EAudit a actor subj meta, b) \<longrightarrow> a \<notin> {GATE_APPROVE, GATE_REJECT})"

lemma logs_record_gate: "only_performs no_gate_audit (record_entry env run kind actor title detail key)"
  unfolding record_entry_def by (rule log_intros; simp add: no_gate_audit_def)+

lemma logs_bind_result:
  assumes "only_performs P m" "\<And>x s s'. m s = (Inr x, s') \<Longrightarrow> only_performs P (f x)"
  shows "only_performs P (abind m f)"
  unfolding only_performs_def
proof
  fix s
  obtain r s1 where m: "m s = (r, s1)" by (cases "m s")
  obtain l where l: "performed s1 = performed s @ l" "\<forall>x \<in> set l. P x"
    using assms(1) m unfolding only_performs_def by (metis snd_conv)
  show "\<exists>l. performed (snd (abind m f s)) = performed s @ l \<and> (\<forall>x \<in> set l. P x)"
  proof (cases r)
    case (Inl e)
    then show ?thesis using m l by (auto simp: abind_def)
  next
    case (Inr x)
    then have "only_performs P (f x)" using assms(2) m by blast
    then obtain l' where "performed (snd (f x s1)) = performed s1 @ l'" "\<forall>x \<in> set l'. P x"
      unfolding only_performs_def by metis
    then show ?thesis using m l Inr by (auto simp: abind_def)
  qed
qed

lemma expected_group_Inr:
  "expected_group env st s = (Inr x, s') \<Longrightarrow>
    (\<forall>role. GATE_OWNER st = Some role \<longrightarrow> (\<exists>g. groupForRole env role = Some g \<and> x = Some g)) \<and>
    (GATE_OWNER st = None \<longrightarrow> x = None)"
  by (cases "GATE_OWNER st") (auto simp: expected_group_def elim!: bind_Inr)

text \<open>The test of the source is \<open>decision_verified\<close>.\<close>

lemma verified_test:
  assumes "expected_group env (gd_step d) s = (Inr x, s')"
    "verifyMembership env (gd_actorUserId d) (gd_actorGroup d) = Some member"
  shows "(\<not> member \<or> x \<noteq> None \<and> Some (gd_actorGroup d) \<noteq> x) \<longleftrightarrow> \<not> decision_verified env d"
  using expected_group_Inr [OF assms(1)] assms(2) by (cases "GATE_OWNER (gd_step d)") (auto simp: decision_verified_def)

lemma record_unverified:
  assumes "\<not> decision_verified env d"
  shows "only_performs no_gate_audit (recordGateDecision env ticket d)"
  unfolding recordGateDecision_def Let_def
proof (rule logs_bind, rule logs_basic, rule logs_bind_result, unfold expected_group_def, intro log_intros,
    rule logs_bind_result, rule logs_basic, goal_cases)
  case (1 run x s s' member s1 s1')
  then have "\<not> member \<or> x \<noteq> None \<and> Some (gd_actorGroup d) \<noteq> x"
    using verified_test [of env d s x s' member] assms by (simp add: expected_group_def)
  then show ?case
    unfolding if_P [OF \<open>\<not> member \<or> x \<noteq> None \<and> Some (gd_actorGroup d) \<noteq> x\<close>]
    by (intro logs_then logs_record_gate logs_basic)
qed

lemma close_Inr:
  assumes "gates_close env r k a s = (Inr u, s')"
  shows "\<exists>row c. gate_rows s' (r, k) = Some row \<and> gr_closedAt row = Some c \<and> gr_openedAt row \<le> c"
  using assms unfolding gates_close_def
  by (auto elim!: then_Inr bind_Inr simp: requireGate_def findGate_def gates_update_def put_gate_def
    split: option.splits)

lemma record_rows: "record_entry env run a b c d key s = (r, s') \<Longrightarrow> gate_rows s' = gate_rows s"
  using gate_rows_record(2) [of env run a b c d key s] by simp

lemma record_accepted:
  assumes "recordGateDecision env ticket d s = (Inr Accepted, s')" "live_run s ticket = Some run"
  shows "decision_verified env d \<and> (\<exists>row c. gate_rows s' (rc_runId run, step_str (gd_step d)) = Some row \<and>
      gr_closedAt row = Some c \<and> gr_openedAt row \<le> c)"
proof -
  have run: "run_get env ticket s = (Inr run', s0) \<Longrightarrow> run' = run" for run' s0
    using assms(2) by (simp add: run_get_def split: if_splits)
  show ?thesis
    using assms(1) unfolding recordGateDecision_def Let_def
    apply (elim bind_Inr)
    subgoal for run' s0 x s1 member s2
      using verified_test [of env d s0 x s1 member] run
      by (auto split: if_splits elim!: then_Inr dest!: close_Inr record_rows)
    done
qed

text \<open>
  C9: An approval or a rejection reaches the audit trail only after the directory has confirmed that its
  author belongs to the group the decision names and that group is the one the step's role resolves to;
  and only such a decision is accepted, with the row of the gate closed no earlier than it was opened.
\<close>

theorem decision_needs_a_verified_member:
  assumes "live_run s ticket = Some run" "recordGateDecision env ticket d s = (r, s')"
  shows "(\<exists>l. performed s' = performed s @ l \<and>
      (\<forall>k a actor subj meta b. (k, EAudit a actor subj meta, b) \<in> set l \<longrightarrow> a \<in> {GATE_APPROVE, GATE_REJECT} \<longrightarrow>
         decision_verified env d)) \<and>
    (r = Inr Accepted \<longrightarrow> decision_verified env d \<and>
      (\<exists>row c. gate_rows s' (rc_runId run, step_str (gd_step d)) = Some row \<and> gr_closedAt row = Some c \<and> gr_openedAt row \<le> c))"
proof (intro conjI impI)
  show "\<exists>l. performed s' = performed s @ l \<and>
      (\<forall>k a actor subj meta b. (k, EAudit a actor subj meta, b) \<in> set l \<longrightarrow> a \<in> {GATE_APPROVE, GATE_REJECT} \<longrightarrow>
         decision_verified env d)"
  proof (cases "decision_verified env d")
    case True
    obtain l where "performed s' = performed s @ l"
      using keeps_growsD [OF keeps_decision, of s env ticket d] assms(2) by (auto simp: grows_def)
    then show ?thesis using True by blast
  next
    case False
    obtain l where "performed s' = performed s @ l" "\<forall>x \<in> set l. no_gate_audit x"
      using record_unverified [OF False, of ticket] assms(2) unfolding only_performs_def by (metis snd_conv)
    then show ?thesis unfolding no_gate_audit_def by blast
  qed
qed (use record_accepted assms in blast)+

theorem decision_needs_a_verified_member_witness:
  "let s = snd (openGate all_work ''AB-1'' S4 ''product-owners'' sample_state)
   in fst (recordGateDecision all_work ''AB-1'' sample_rejection s) = Inr Accepted \<and>
      decision_verified all_work sample_rejection"
proof -
  let ?s = "snd (openGate all_work ''AB-1'' S4 ''product-owners'' sample_state)"
  note eval = openGate_def open_for_def act_eval all_work_def sample_state_def sample_run_def epoch_iso epoch_date
    recordGateDecision_def expected_group_def gates_close_def gates_update_def sample_rejection_def Let_def dec_7
  have l: "live_run ?s ''AB-1'' = Some sample_run" by (simp add: eval)
  have a: "fst (recordGateDecision all_work ''AB-1'' sample_rejection ?s) = Inr Accepted" by (simp add: eval)
  have "decision_verified all_work sample_rejection"
    using decision_needs_a_verified_member [OF l prod.collapse [symmetric], of all_work sample_rejection] a by simp
  then show ?thesis using a by (simp add: Let_def)
qed

text \<open>
  The decisions of a run are looked up in the trail by the key \<open>ticketKey\<close> of a record's details. Neither
  the back end, which records a decision as it arrives, nor any activity of the worker writes that key,
  whatever they are asked to do: on a trail they wrote, the list is empty, and the approvals an evidence
  package is to prove are never in it.
\<close>

theorem approvals_are_never_found:
  assumes "\<forall>r \<in> set trail. ar_action r \<in> {GATE_APPROVE, GATE_REJECT} \<longrightarrow>
     (\<exists>D rq subj at'. Audited (ar_action r) (ar_actor r) subj (ar_meta r) at' \<in> set (snd (decideGate D rq))) \<or>
     (\<exists>cs s k subj b. performed s = [] \<and> (k, EAudit (ar_action r) (ar_actor r) subj (ar_meta r), b) \<in> set (performed (run_calls cs s)))"
  shows "gate_decisions ticket trail = Some []"
proof -
  have "map_of (ar_meta r) ''ticketKey'' = None" if r: "r \<in> set trail" "ar_action r \<in> {GATE_APPROVE, GATE_REJECT}" for r
  proof -
    have d: "map_of (decide_meta st grp rq) ''ticketKey'' = None" for st grp rq
      by (simp add: decide_meta_def split: option.split)
    show ?thesis
      using bspec [OF assms r(1)] r(2)
    proof (elim impE disjE exE conjE)
      fix D rq subj at' assume "Audited (ar_action r) (ar_actor r) subj (ar_meta r) at' \<in> set (snd (decideGate D rq))"
      from decideGate_audits [OF this] show ?thesis using d by auto
    next
      fix cs s k subj b
      assume "performed s = []" "(k, EAudit (ar_action r) (ar_actor r) subj (ar_meta r), b) \<in> set (performed (run_calls cs s))"
      from run_calls_no_ticketKey [OF _ this(2)] this(1) show ?thesis by simp
    qed
  qed
  then have "decision_rows ticket trail = []" by (auto simp: decision_rows_def filter_empty_conv)
  then show ?thesis by (simp add: gate_decisions_def)
qed

definition sample_ports :: decide_ports where
  "sample_ports = \<lparr>dp_state = Some (S4, AtGate), dp_ownerGroup = \<lambda>_ _. Some ''po'', dp_member = \<lambda>_ _. Some True,
     dp_append = Some 5, dp_signal = Some True\<rparr>"

definition sample_request :: gate_request where
  "sample_request = \<lparr>rq_ticket = ''AB-1'', rq_decision = Approve, rq_reason = None, rq_actor = ''ada'',
     rq_membershipId = ''ada'', rq_source = SrcJira, rq_at = ''1970-01-01T00:00:00.000Z''\<rparr>"

lemma sample_decided: "snd (decideGate sample_ports sample_request) =
    [Audited GATE_APPROVE ''ada'' ''AB-1'' [(''step'', MStr ''4''), (''group'', MStr ''po''), (''source'', MStr ''jira'')]
      ''1970-01-01T00:00:00.000Z'', Signalled (decision_of S4 ''po'' 5 sample_request)]"
  by code_simp

theorem approvals_are_never_found_witness:
  "gate_decisions ''AB-1'' [\<lparr>ar_seq = 5, ar_at = 0, ar_actor = ''ada'', ar_action = GATE_APPROVE,
     ar_meta = [(''step'', MStr ''4''), (''group'', MStr ''po''), (''source'', MStr ''jira'')]\<rparr>] = Some []"
proof (rule approvals_are_never_found, intro ballI impI disjI1)
  fix r assume "r \<in> set [\<lparr>ar_seq = 5, ar_at = 0, ar_actor = ''ada'', ar_action = GATE_APPROVE,
     ar_meta = [(''step'', MStr ''4''), (''group'', MStr ''po''), (''source'', MStr ''jira'')]\<rparr>]"
  then show "\<exists>D rq subj at'. Audited (ar_action r) (ar_actor r) subj (ar_meta r) at' \<in> set (snd (decideGate D rq))"
    by (intro exI [of _ sample_ports] exI [of _ sample_request] exI [of _ "''AB-1''"] exI [of _ "''1970-01-01T00:00:00.000Z''"])
      (simp add: sample_decided)
qed

subsection \<open>Reminders\<close>

lemma each_Inr:
  "aeach f xs s = (Inr u, s') \<Longrightarrow> x \<in> set xs \<Longrightarrow> (\<And>y. keeps_guard (f y)) \<Longrightarrow> finishes (f x) k \<Longrightarrow> key_done s' k"
proof (induction xs arbitrary: s)
  case (Cons y ys)
  from Cons.prems(1) obtain v s1 where s1: "f y s = (Inr v, s1)" "aeach f ys s1 = (Inr u, s')"
    by (auto elim: then_Inr)
  show ?case
  proof (cases "x = y")
    case True
    then have "key_done s1 k" using Cons.prems(4) s1(1) by (auto simp: finishes_def dest: spec [of _ s])
    moreover have "grows s1 s'" using keeps_growsD [of "aeach f ys" s1] keeps_each [of f ys] Cons.prems(3) s1(2) by simp
    ultimately show ?thesis by (rule grows_done [rotated])
  next
    case False
    then show ?thesis using Cons.IH [OF s1(2)] Cons.prems by simp
  qed
qed simp

lemma each_rows: "(\<And>x s. gate_rows (snd (f x s)) = gate_rows s) \<Longrightarrow> gate_rows (snd (aeach f xs s)) = gate_rows s"
proof (induction xs arbitrary: s)
  case (Cons x xs)
  then show ?case
    by (cases "f x s"; cases "fst (f x s)") (auto simp: athen_def abind_def dest!: sndI)
qed (simp add: aret_def)

lemma markFired_Inr:
  assumes "markFired env r k ids s = (Inr u, s')" "i \<in> set ids"
  shows "\<exists>row. gate_rows s' (r, k) = Some row \<and> i \<in> set (gr_fired row)"
  using assms unfolding markFired_def
  by (auto split: if_splits elim!: then_Inr simp: gates_update_def put_gate_def requireGate_def split: option.splits)

lemma mark_due_Inr:
  assumes "mark_due env run st plan s = (Inr u, s')" "d \<in> set (due (p_decision plan))"
  shows "\<exists>row. gate_rows s' (rc_runId run, step_str st) = Some row \<and> stepId d \<in> set (gr_fired row)"
proof -
  let ?ids = "map stepId (due (p_decision plan))"
  have ne: "?ids \<noteq> []" and d: "stepId d \<in> set ?ids" using assms(2) by auto
  obtain u1 s1 where m: "markFired env (rc_runId run) (step_str st) ?ids s = (Inr u1, s1)"
    and rows: "gate_rows s' = gate_rows s1"
    using assms(1) unfolding mark_due_def Let_def if_not_P [OF ne] by (elim then_Inr) (blast dest: record_rows)
  show ?thesis unfolding rows by (rule markFired_Inr [OF m d])
qed

text \<open>
  The key under which a reminder is sent names its message and channel but neither the step of the
  ladder nor the recipients. Of two steps that fall due together with the same message on the same
  channel for different people, one message is sent; the other is not, though both steps are remembered as
  fired, so it is not sent later either.
\<close>

theorem second_recipients_are_forgotten:
  assumes "guard_ok s" "m \<in> set (notifications plan)" "n \<in> set (notifications plan)" "m \<noteq> n"
    "n_messageKey m = n_messageKey n" "n_at m = n_at n" "n_channel m = n_channel n"
    "carry_out env run st plan s = (Inr (), s')"
  shows "\<exists>e. acked s' (escalate_key run st m) = [e] \<and> acked s' (escalate_key run st n) = [e] \<and>
    (\<forall>d \<in> set (due (p_decision plan)). \<exists>row. gate_rows s' (rc_runId run, step_str st) = Some row \<and> stepId d \<in> set (gr_fired row))"
proof -
  have key: "escalate_key run st m = escalate_key run st n" using assms(5-7) by (simp add: escalate_key_def)
  have ok: "guard_ok s'" using keeps_guardD [OF keeps_carry_out assms(1), of env run st plan] assms(8) by simp
  from assms(8) obtain u1 s1 u2 s2 where a: "send_due env run st plan s = (Inr u1, s1)"
    and b: "mark_due env run st plan s1 = (Inr u2, s2)" and c: "note_delegations env run st plan s2 = (Inr (), s')"
    unfolding carry_out_def by (elim then_Inr) blast
  have "key_done s1 (escalate_key run st m)"
    using a unfolding send_due_def by (rule each_Inr [OF _ assms(2)]) (rule keeps_once_void, rule finishes_once_void)
  moreover have "grows s1 s2" "grows s2 s'"
    using keeps_growsD [OF keeps_carry_parts(2), of s1 env run st plan] b
      keeps_growsD [OF keeps_carry_parts(3), of s2 env run st plan] c by simp_all
  ultimately have "key_done s' (escalate_key run st m)" by (metis grows_done)
  then have "length (acked s' (escalate_key run st m)) = 1" by (rule done_once [OF ok])
  then have "\<exists>e. acked s' (escalate_key run st m) = [e]" by (simp only: One_nat_def length_Suc_conv length_0_conv) blast
  then obtain e where e: "acked s' (escalate_key run st m) = [e]" by blast
  have "gate_rows (snd (note_delegations env run st plan s2)) = gate_rows s2"
    unfolding note_delegations_def by (rule each_rows) (rule gate_rows_record(2))
  then have rows: "gate_rows s' = gate_rows s2" using c by simp
  have "\<exists>row. gate_rows s' (rc_runId run, step_str st) = Some row \<and> stepId d \<in> set (gr_fired row)"
    if "d \<in> set (due (p_decision plan))" for d
    using mark_due_Inr [OF b that] rows by simp
  then show ?thesis using e key by auto
qed

definition sample_step :: "string \<Rightarrow> resolved_step" where
  "sample_step i = resolve \<lparr>afterHours = \<lparr>mantissa = 24, fraction = 0\<rparr>, es_channel = ChSmtp, es_event = EvGateReminder,
     es_id = i, messageKey = None, es_to = None, es_action = ActNotify\<rparr>"

definition sample_message :: "string \<Rightarrow> notification" where
  "sample_message to = \<lparr>n_event = EvGateReminder, n_channel = ChSmtp, n_to = [to], n_locale = Tr,
     n_messageKey = ''notify.gate_reminder'', n_params = [], n_at = ''1970-01-02T00:00:00.000Z''\<rparr>"

definition sample_plan :: escalation_plan where
  "sample_plan = \<lparr>p_decision = \<lparr>due = [sample_step ''a'', sample_step ''b''], next_due = None, elapsedMinutes = 1440\<rparr>,
     notifications = [sample_message ''ada'', sample_message ''bob''], delegations = []\<rparr>"

theorem second_recipients_are_forgotten_witness:
  "let s = snd (openGate all_work ''AB-1'' S4 ''product-owners'' sample_state);
       s' = snd (carry_out all_work sample_run S4 sample_plan s)
   in \<exists>e. acked s' (escalate_key sample_run S4 (sample_message ''bob'')) = [e]"
proof -
  let ?s = "snd (openGate all_work ''AB-1'' S4 ''product-owners'' sample_state)"
  note eval = openGate_def open_for_def act_eval all_work_def sample_state_def sample_run_def epoch_iso epoch_date
    carry_out_def send_due_def mark_due_def note_delegations_def sample_plan_def sample_step_def sample_message_def
    escalate_key_def markFired_def gates_update_def Let_def join_ids_def
  have "guard_ok ?s" by (rule keeps_guardD [OF keeps_openGate sample_guard])
  moreover have "fst (carry_out all_work sample_run S4 sample_plan ?s) = Inr ()" by (simp add: eval)
  then have "carry_out all_work sample_run S4 sample_plan ?s =
      (Inr (), snd (carry_out all_work sample_run S4 sample_plan ?s))" by (metis prod.collapse)
  ultimately show ?thesis unfolding Let_def
    using second_recipients_are_forgotten [of ?s "sample_message ''ada''" sample_plan "sample_message ''bob''" all_work sample_run S4]
    by (auto simp: sample_plan_def sample_message_def)
qed

subsection \<open>Verdicts on the work\<close>

text \<open>
  A test run is reported as passed only when the agent's turn left a report, every command of it ended
  with exit code 0, and no hand over is due: whatever the model that reads the output says.
\<close>

theorem tests_pass_by_exit_codes:
  assumes "fst (runTests env turn model ticket lap s) = Inr r" "tr_passed r"
  shows "\<exists>rp. (turn = Some (TurnOk rp) \<or> (\<exists>reason h. turn = Some (TurnFailed reason rp h) \<and> failure_handover reason rp h = None)) \<and>
    (\<forall>c \<in> set (rp_commands rp). cr_exitCode c = 0)"
proof -
  have run: "runTests env turn model ticket lap s = (Inr r, snd (runTests env turn model ticket lap s))"
    using assms(1) by (metis prod.collapse)
  show ?thesis
    using run assms(2) unfolding runTests_def Let_def
    apply (elim bind_Inr then_Inr)
    subgoal for run' s0 u s1 oc s2 f s3
      using finishTurn_report [of env run' oc "''test-run''" s2 _ _ s3]
      by (cases f) (auto elim!: bind_Inr then_Inr split: prod.splits simp: verificationFailures_def filter_empty_conv)
    done
qed

definition sample_report :: session_report where
  "sample_report = \<lparr>rp_runId = ''maestro-AB-1'', rp_ticketKey = ''AB-1'', rp_resumeToken = ''t'', rp_workspacePath = [],
     rp_finalText = [], rp_changedFiles = [], rp_diff = \<lparr>ds_files = 0, ds_insertions = 0, ds_deletions = 0\<rparr>,
     rp_commands = [\<lparr>cr_name = [], cr_command = [], cr_exitCode = 0, cr_stdoutTail = [], cr_stderrTail = [], cr_durationMs = 1\<rparr>],
     rp_protectedViolations = [], rp_strikes = None, rp_at = 0\<rparr>"

theorem tests_pass_by_exit_codes_witness:
  "\<exists>r rp. fst (runTests all_work (Some (TurnOk sample_report)) (Inr (OcDegraded ''k'' ''d'')) ''AB-1'' 1 sample_state) = Inr r \<and>
     tr_passed r \<and> rp = sample_report \<and> (\<forall>c \<in> set (rp_commands rp). cr_exitCode c = 0)"
proof -
  let ?r = "\<lparr>tr_passed = True, tr_total = 1, tr_failed = 0, tr_coveragePct = 0\<rparr>"
  have r: "fst (runTests all_work (Some (TurnOk sample_report)) (Inr (OcDegraded ''k'' ''d'')) ''AB-1'' 1 sample_state) = Inr ?r"
    by (simp add: runTests_def act_eval all_work_def sample_state_def sample_run_def epoch_iso finishTurn_def
      sample_report_def guardModelCall_def answer_def resolveOutcome_def run_patch_def set_mode_def iso_nat_def
      verificationFailures_def Let_def)
  from tests_pass_by_exit_codes [OF r] have "\<forall>c \<in> set (rp_commands sample_report). cr_exitCode c = 0" by auto
  with r show ?thesis by auto
qed

text \<open>Every tool has a result, an error where it threw; a round is clean only when all of them passed.\<close>

theorem scans_fail_closed:
  assumes "runScans env scan ticket lap s = (Inr res, s')"
  shows "map sr_outcome res = map (\<lambda>t. case scan t of Inr r \<Rightarrow> sr_outcome r | Inl _ \<Rightarrow> ScanError) [Gitleaks, Semgrep, Trivy] \<and>
    (blocking_scans res = [] \<longleftrightarrow> (\<forall>t \<in> {Gitleaks, Semgrep, Trivy}. \<exists>r. scan t = Inr r \<and> sr_outcome r = ScanPass))"
proof -
  have res: "res = map (scan_answer env scan) CORE_SCAN_TOOLS" by (rule runScans_Inr [OF assms])
  have out: "sr_outcome (scan_answer env scan t) = (case scan t of Inr r \<Rightarrow> sr_outcome r | Inl _ \<Rightarrow> ScanError)" for t
    by (simp add: scan_answer_def scannerErrorResult_def split: sum.split)
  have pass: "\<not> isScanBlocking (sr_outcome (scan_answer env scan t)) \<longleftrightarrow> (\<exists>r. scan t = Inr r \<and> sr_outcome r = ScanPass)" for t
    by (simp add: out isScanBlocking_def split: sum.split)
  have "blocking_scans res = [] \<longleftrightarrow> (\<forall>t \<in> {Gitleaks, Semgrep, Trivy}. \<not> isScanBlocking (sr_outcome (scan_answer env scan t)))"
    by (auto simp: res CORE_SCAN_TOOLS_def blocking_scans_def)
  then show ?thesis using pass by (simp add: res CORE_SCAN_TOOLS_def out)
qed

subsection \<open>A refused key\<close>

definition not_auth :: "act_error \<Rightarrow> bool" where
  "not_auth e \<longleftrightarrow> (\<forall>c. e \<noteq> LlmAuthError c) \<and> (\<forall>w. e \<noteq> LlmAuthRejected w)"

lemma only_basic:
  "only_errors not_auth (ask p a)" "only_errors not_auth (run_patch env t f)" "only_errors not_auth (once_void env k e)"
proof -
  show "only_errors not_auth (ask p a)" by (simp add: only_errors_def ask_def afail_def aret_def not_auth_def split: option.split)
  show "only_errors not_auth (run_patch env t f)"
    by (simp add: only_errors_def run_patch_def not_auth_def split: option.split)
  show "only_errors not_auth (once_void env k e)"
    unfolding once_void_def once_def by (intro only_then only_once_with only_ret) (simp_all add: not_auth_def)
qed

lemma only_record: "only_errors not_auth (record_entry env run a b c d k)" "only_errors not_auth (audit_record env run x y z k)"
  unfolding record_entry_def audit_record_def by (rule only_basic)+

lemma only_each: "(\<And>x. only_errors P (f x)) \<Longrightarrow> only_errors P (aeach f xs)"
  by (induction xs) (simp_all add: only_ret only_then)

lemma only_notify: "only_errors not_auth (notifyEvent env run ev msg params to key)"
proof -
  have iso: "only_errors not_auth (case toISOString t of None \<Rightarrow> afail BadDate | Some at' \<Rightarrow> aret at')" for t
    by (simp add: only_errors_def afail_def aret_def not_auth_def split: option.split)
  show ?thesis
    unfolding notifyEvent_def Let_def
    by (intro only_if only_ret only_bind only_basic iso only_prod only_record only_each)
qed

lemma only_handOver: "only_errors not_auth (handOver env run reason key)"
  unfolding handOver_def by (intro only_then only_bind only_basic only_record only_notify)

text \<open>
  A refused model key is retried a bounded number of times: the retryable error leaves the guard only
  below attempt 30, whatever else fails; from then on the activity can only die of something else, and when
  the hand over works it dies of the error that is not retried, with the hand over in the audit trail
  exactly once.
\<close>

theorem auth_retries_are_bounded:
  assumes "guard_ok s"
  shows "(fst (guardModelCall env run what (answer (Inl (LlmAuthError code) :: act_error + 'a)) s) = Inl (LlmAuthError c) \<longrightarrow>
      attempt env < 30) \<and>
    (fst (guardModelCall env run what (answer (Inl (LlmAuthError code) :: act_error + 'a)) s) = Inl (LlmAuthRejected what) \<longrightarrow>
      30 \<le> attempt env \<longrightarrow>
      length (acked (snd (guardModelCall env run what (answer (Inl (LlmAuthError code) :: act_error + 'a)) s))
        (rc_runId run @ '':audit:handover:auth-rejected:'' @ what)) = 1)"
proof (cases "attempt env < 30")
  case True
  then show ?thesis by simp
next
  case False
  let ?m = "guardModelCall env run what (answer (Inl (LlmAuthError code) :: act_error + 'a))"
  obtain reason where m: "?m s = athen (handOver env run reason (''auth-rejected:'' @ what)) (afail (LlmAuthRejected what)) s"
    using False by (simp add: guardModelCall_def answer_def Let_def AUTH_RETRY_MAX_ATTEMPTS_def)
  let ?h = "handOver env run reason (''auth-rejected:'' @ what)"
  show ?thesis
  proof (cases "fst (?h s)")
    case (Inl e)
    then have "not_auth e" using only_handOver unfolding only_errors_def by blast
    moreover have "fst (?m s) = Inl e" using Inl by (cases "?h s") (simp add: m athen_def abind_def)
    ultimately show ?thesis by (auto simp: not_auth_def)
  next
    case (Inr u)
    then have r: "?m s = (Inl (LlmAuthRejected what), snd (?h s))"
      by (cases "?h s") (simp add: m athen_def abind_def afail_def)
    have "finishes ?h (rc_runId run @ '':audit:'' @ ''handover:'' @ ''auth-rejected:'' @ what)"
      unfolding handOver_def
      by (rule finishes_then_later, rule finishes_then_later, rule finishes_then_first, rule finishes_audit [OF refl],
        intro guard_intros)
    then have "key_done (snd (?h s)) (rc_runId run @ '':audit:handover:auth-rejected:'' @ what)"
      using Inr unfolding finishes_def by simp
    then show ?thesis using done_once [OF keeps_guardD [OF keeps_handing_over assms]] by (simp add: r)
  qed
qed

theorem auth_retries_are_bounded_witness:
  "fst (guardModelCall (all_work\<lparr>attempt := 30\<rparr>) sample_run ''intake'' (answer (Inl (LlmAuthError None) :: act_error + nat)) sample_state)
     = Inl (LlmAuthRejected ''intake'') \<and>
   length (acked (snd (guardModelCall (all_work\<lparr>attempt := 30\<rparr>) sample_run ''intake''
     (answer (Inl (LlmAuthError None) :: act_error + nat)) sample_state)) ''maestro-AB-1:audit:handover:auth-rejected:intake'') = 1"
proof -
  have f: "fst (guardModelCall (all_work\<lparr>attempt := 30\<rparr>) sample_run ''intake'' (answer (Inl (LlmAuthError None) :: act_error + nat)) sample_state)
     = Inl (LlmAuthRejected ''intake'')"
    by (simp add: guardModelCall_def answer_def Let_def AUTH_RETRY_MAX_ATTEMPTS_def handOver_def act_eval run_patch_def
      all_work_def sample_state_def sample_run_def)
  then show ?thesis
    using auth_retries_are_bounded [OF sample_guard, of "all_work\<lparr>attempt := 30\<rparr>" sample_run "''intake''" None None, where 'a = nat]
    by (simp add: sample_run_def all_work_def)
qed

subsection \<open>The rule that matches\<close>

lemma least_unique:
  assumes "least_in lt x xs" "least_in lt y ys" "set xs = set ys" "\<And>a b. \<not> (lt a b \<and> lt b a)"
  shows "x = y"
proof -
  have x: "x \<in> set ys" "\<forall>z \<in> set ys. z = x \<or> lt x z" using assms(1,3) by (simp_all add: least_in_def)
  have y: "y \<in> set ys" "\<forall>z \<in> set ys. z = y \<or> lt y z" using assms(2) by (simp_all add: least_in_def)
  show ?thesis using bspec [OF x(2) y(1)] bspec [OF y(2) x(1)] assms(4) [of x y] by blast
qed

text \<open>
  The application of a ticket does not depend on the order in which the rules are read: the rule chosen
  applies, names an application and has the highest priority, as long as \<open>before\<close> orders the ids of the rules.
\<close>

theorem rule_choice_ignores_order:
  assumes "set rules = set rules'"
    and "\<And>a b c. before a b \<Longrightarrow> before b c \<Longrightarrow> before a c" "\<And>a. \<not> before a a"
    and "\<forall>a \<in> set rules. \<forall>b \<in> set rules. a = b \<or> before (ruleId a) (ruleId b) \<or> before (ruleId b) (ruleId a)"
  shows "pickRule before rules t = pickRule before rules' t \<and>
    (\<forall>r. pickRule before rules t = Some r \<longrightarrow> r \<in> set rules \<and> ruleApplies r t \<and> effect_appId r \<noteq> None \<and>
       (\<forall>q \<in> set rules. ruleApplies q t \<and> effect_appId q \<noteq> None \<longrightarrow> priority q \<le> priority r))"
proof -
  let ?f = "\<lambda>rs. filter (\<lambda>r. ruleApplies r t \<and> effect_appId r \<noteq> None) rs"
  let ?lt = "rule_before before"
  have tr: "?lt a b \<Longrightarrow> ?lt b c \<Longrightarrow> ?lt a c" for a b c
    using assms(2) unfolding rule_before_def by force
  have tot: "\<forall>a \<in> set (?f rs). \<forall>b \<in> set (?f rs). a = b \<or> ?lt a b \<or> ?lt b a" if "set rs = set rules" for rs
    using assms(4) that unfolding rule_before_def by (auto simp: not_less_iff_gr_or_eq)
  have pick: "pickRule before rs t = (if ?f rs = [] then None else Some (hd (sort_by ?lt (?f rs))))" for rs
  proof (cases "sort_by ?lt (?f rs)")
    case Nil
    have "set (?f rs) = set (sort_by ?lt (?f rs))" by (rule set_sort_by [symmetric])
    also have "\<dots> = {}" unfolding Nil by simp
    finally have "?f rs = []" by (simp only: set_empty)
    then show ?thesis by (simp add: pickRule_def sort_by_def)
  next
    case (Cons r rest)
    then have "?f rs \<noteq> []" by (auto simp: sort_by_def)
    then show ?thesis using Cons by (simp add: pickRule_def)
  qed
  have asym: "\<not> (?lt a b \<and> ?lt b a)" for a b
    using assms(2,3) unfolding rule_before_def by (metis less_asym less_irrefl)
  have same: "set (?f rules) = set (?f rules')" using assms(1) by auto
  show ?thesis
  proof (cases "?f rules = []")
    case True
    moreover have "?f rules' = []" using same True by (metis set_empty)
    ultimately show ?thesis by (simp add: pick)
  next
    case False
    have ne': "?f rules' \<noteq> []" using same False by (metis set_empty)
    have l: "least_in ?lt (hd (sort_by ?lt (?f rules))) (?f rules)"
      by (rule sort_by_least [OF tr tot [OF refl] False])
    have l': "least_in ?lt (hd (sort_by ?lt (?f rules'))) (?f rules')"
      by (rule sort_by_least [OF tr tot [OF assms(1) [symmetric]] ne'])
    have eq: "hd (sort_by ?lt (?f rules)) = hd (sort_by ?lt (?f rules'))" by (rule least_unique [OF l l' same asym])
    have "priority q \<le> priority (hd (sort_by ?lt (?f rules)))" if "q \<in> set (?f rules)" for q
    proof -
      have "q = hd (sort_by ?lt (?f rules)) \<or> ?lt (hd (sort_by ?lt (?f rules))) q"
        using l that unfolding least_in_def by blast
      then show ?thesis unfolding rule_before_def by fastforce
    qed
    moreover have "hd (sort_by ?lt (?f rules)) \<in> set (?f rules)" using l by (simp add: least_in_def)
    ultimately show ?thesis using False ne' eq by (auto simp: pick)
  qed
qed

subsection \<open>The rows of the runs\<close>

text \<open>
  A ticket's row is named after the ticket, and the row of a run that is over keeps that name. So once a
  run of a ticket is done, cancelled or failed, no later start of the ticket, patch or pass of the
  reconciler gives it a live row: the insert fails on the primary key, the failure is taken for "the row
  exists", and every activity of the new execution ends with \<open>RunNotFoundError\<close>.
\<close>

theorem second_run_is_never_recorded:
  assumes "r \<in> set (row_steps ops [])" "\<not> is_live r"
  shows "row_get apps (row_steps ops2 (row_steps ops [])) (wr_ticket r) = Inl (RunNotFoundError (wr_ticket r))"
proof -
  let ?rows = "row_steps ops []"
  have ok: "rows_ok ?rows" by (rule rows_ok_steps) (simp add: rows_ok_def)
  obtain q where q: "q \<in> set (row_steps ops2 ?rows)" "wr_ticket q = wr_ticket r" "\<not> is_live q"
    using over_stays [OF ok, of "wr_ticket r" ops2] assms by blast
  have "liveRun (row_steps ops2 ?rows) (wr_ticket q) = None"
    by (rule over_alone [OF rows_ok_steps [OF ok] q(1,3)])
  then show ?thesis by (simp add: row_get_def q(2))
qed

theorem second_run_is_never_recorded_witness:
  "row_get {} (row_steps [Open True ''AB-1'' None 9 ''v'' ''t'']
      (row_steps [Open True ''AB-1'' None 1 ''v'' ''t'', Reconcile [\<lparr>su_ticket = ''AB-1'', su_status = ExFailed, su_startedAt = 1\<rparr>]] []))
    ''AB-1'' = Inl (RunNotFoundError ''AB-1'')"
proof -
  let ?r = "\<lparr>wr_id = ''maestro-AB-1'', wr_ticket = ''AB-1'', wr_appId = None, wr_status = StFail, wr_startedAt = 1,
     wr_variantId = ''v'', wr_templateVersion = ''t'', wr_step = ''0''\<rparr>"
  have "row_steps [Open True ''AB-1'' None 1 ''v'' ''t'', Reconcile [\<lparr>su_ticket = ''AB-1'', su_status = ExFailed, su_startedAt = 1\<rparr>]] []
      = [?r]"
    by code_simp
  then show ?thesis
    using second_run_is_never_recorded [of ?r "[Open True ''AB-1'' None 1 ''v'' ''t'',
        Reconcile [\<lparr>su_ticket = ''AB-1'', su_status = ExFailed, su_startedAt = 1\<rparr>]]"]
    by (simp add: is_live_def TERMINAL_STATUSES_def)
qed

text \<open>
  A pass of the reconciler gives exactly the rows that are still running and whose ticket's newest
  execution has closed the state of that execution, leaves every other row as it is, and records each
  closure once; a second pass over the same answer of the engine changes and records nothing.
\<close>

theorem reconciler_copies_verdicts_once:
  assumes "rows_ok rows"
  shows "p_rows (reconcileRunStatuses xs rows) = map (verdict xs) rows \<and>
    p_audit (reconcileRunStatuses xs rows) = concat (map (closure xs) rows) \<and>
    p_rows (reconcileRunStatuses xs (p_rows (reconcileRunStatuses xs rows))) = p_rows (reconcileRunStatuses xs rows) \<and>
    p_audit (reconcileRunStatuses xs (p_rows (reconcileRunStatuses xs rows))) = []"
proof -
  note one = reconcile_exact [OF assms, of xs]
  have "rows_ok (map (verdict xs) rows)" using assms by (simp add: rows_ok_def o_def)
  note two = reconcile_exact [OF this, of xs]
  have "map (verdict xs) (map (verdict xs) rows) = map (verdict xs) rows" "concat (map (closure xs) (map (verdict xs) rows)) = []"
    using verdict_again by (simp_all add: o_def)
  then show ?thesis using one two by simp
qed

theorem reconciler_copies_verdicts_once_witness:
  "p_audit (reconcileRunStatuses [\<lparr>su_ticket = ''AB-1'', su_status = ExCompleted, su_startedAt = 1\<rparr>]
     (row_steps [Open True ''AB-1'' None 1 ''v'' ''t''] [])) = [(''maestro-AB-1'', StDone)]"
proof -
  have "rows_ok (row_steps [Open True ''AB-1'' None 1 ''v'' ''t''] [])"
    by (rule rows_ok_steps) (simp add: rows_ok_def)
  then have "p_audit (reconcileRunStatuses [\<lparr>su_ticket = ''AB-1'', su_status = ExCompleted, su_startedAt = 1\<rparr>]
     (row_steps [Open True ''AB-1'' None 1 ''v'' ''t''] [])) =
    concat (map (closure [\<lparr>su_ticket = ''AB-1'', su_status = ExCompleted, su_startedAt = 1\<rparr>])
      (row_steps [Open True ''AB-1'' None 1 ''v'' ''t''] []))"
    using reconciler_copies_verdicts_once by blast
  also have "\<dots> = [(''maestro-AB-1'', StDone)]" by code_simp
  finally show ?thesis .
qed

end
