(* ===== verification/Spec2Isabelle.thy ===== *)
theory Spec2Isabelle
  imports Workflow_Props Audit_Props Cache_Props Paths_Props Exec_Props Pii_Props Notify_Props Gate_Props
begin

text \<open>
  A verification library for the core of the Maestro platform: the program that takes a ticket through
  analysis, human approval gates, an AI engineering loop, CI and release, with every decision on a
  tamper-evident audit trail. The theories follow the packages of the repository; this header says
  which theory models which file, how a state corresponds to the code's, and what is shown.

  \<^bold>\<open>The parts and how they meet.\<close> \<open>ticketWorkflow\<close> (packages/workflows) is the conductor: one run per
  ticket, suspended at gates, calling activities. Its engineering activity runs an agent turn
  (packages/execution), which checks the working copy against the protected paths, runs the
  repository's own commands and counts strikes; three strikes hand the run to a human. What people and
  agents decided goes to the audit chain (packages/audit). Workers share a Redis-backed lock and a
  leased semaphore (packages/cache). What goes to a model passes the PII boundary (packages/pii). The
  activities (packages/workflows/src/impl) write through an idempotency guard, tell people over
  packages/notify, and keep the run's rows and gates in tables (apps/deploy/src/stores), where the back
  end (apps/bff) records the decisions.

  \<^bold>\<open>Prelude and vocabulary.\<close> \<open>Prelude\<close> has the lemmas on strings, digits, options and result lists the
  components share. \<open>Contracts\<close> is packages/contracts/src: step ids, risk tiers, work modes, the
  analysis document, gate decisions, signals; what Zod checks is a bool-valued predicate.

  \<^bold>\<open>Delivery workflow.\<close> \<open>Gates\<close> is packages/workflows/src/gates.ts. \<open>Runtime\<close> is run-state.ts, signals.ts
  and the activity interface of activities.ts: a run is a function from a \<open>world\<close> (run state, inbox,
  history) to an outcome and a world; an \<open>environment\<close>, which stands for Temporal, the people and the
  activities, answers every call from the history so far, may fail it, and may deliver any signals while
  the run is suspended. \<open>Workflow\<close> is gate-loop.ts, engineering-loop.ts and ticket-workflow.ts, statement
  by statement. Waiting is bounded by \<open>patience\<close>, a field of the environment: a wait that exceeds it ends
  in \<open>Parked\<close>, the state of a run nobody answers, so safety holds for every patience and the liveness
  theorem says which environments never park. \<open>Workflow_Logic\<close> is a program logic for such runs (what a
  statement may add to the history), \<open>Workflow_Safety\<close>, \<open>Workflow_Merge\<close> and \<open>Workflow_Delivery\<close> carry the
  invariant through the phases, \<open>Workflow_Continue\<close> follows a run over its continuations,
  \<open>Workflow_Cost\<close> counts engineering calls, \<open>Workflow_Mode\<close> the work mode, kill switch and decision
  queue, \<open>Workflow_Live\<close> is a total-correctness calculus. \<open>Workflow_Props\<close>: no pull request and no merge
  without everything the flow requires, four eyes, the analysis flow never codes, rejections bound the
  chain of runs and the engineering work, a cooperative environment ends in a delivered ticket.

  \<^bold>\<open>Audit chain.\<close> \<open>Canonical\<close> and \<open>Canonical_Writer\<close> are canonical.ts: text as lists of UTF-16 units, numbers
  by their shortest digits, arrays with their holes, the writer with its errors. \<open>Audit_Event\<close> is actor.ts, actions.ts, fields.ts
  and the event schema, \<open>Audit_Chain\<close> is hash.ts, store.ts, chain.ts and verify.ts; SHA-256 and
  \<open>String.normalize\<close> are parameters \<open>H\<close> and \<open>nfc\<close>. \<open>Audit_Verify\<close> states what a store promises as the
  locale \<open>audit_store\<close>, interpreted on the in-memory store, and relates the verifier to the sound chains.
  \<open>Audit_Props\<close>: the canonical text is the meaning, appending keeps the chain, the verifier accepts exactly
  the sound chains, two chains with one head are equal or show a collision. \<open>Audit_Sample\<close> has the
  concrete chain of the witnesses.

  \<^bold>\<open>Cache.\<close> \<open>Cache_Store\<close> is memory-store.ts, the verbs with expiry on the server's clock; \<open>Cache_Scripts\<close> the
  Lua scripts as lua-sim.ts mirrors them and the client; \<open>Cache_Lock\<close>, \<open>Cache_Semaphore\<close>, \<open>Cache_Values\<close> are
  lock.ts, semaphore.ts and cache.ts. The locale \<open>lock_server\<close> is what a lock needs from its server.
  \<open>Cache_Fleet\<close> lets any processes interleave, each calling the semaphore with a clock of its own that is at
  most \<open>e\<close> off the server's. \<open>Cache_Props\<close>: mutual exclusion, never more permits than capacity beyond that
  \<open>e\<close> (and an execution that shows the bound is needed), refinement of the scripts to a set of leases,
  expiry, fail-open reads.

  \<^bold>\<open>Agent turn.\<close> \<open>Paths_Glob\<close> is protected-paths.ts: a pattern compiles to a list of pieces of the regular
  expression, matched by backtracking; \<open>Paths_Match\<close> gives the pieces a language and shows the two agree.
  \<open>Paths_Git\<close> is git-status.ts and the scan of the changes. \<open>Strikes\<close> is strikes.ts, persistent-strikes.ts
  and the Postgres store of apps/deploy, with the port of the ledgers as the locale \<open>strike_ledger\<close>,
  interpreted on both; \<open>Strikes_Persist\<close> is the simulation between them. \<open>Agent_Turn\<close> is execution.ts,
  collect.ts and verification-runner.ts. \<open>Paths_Props\<close> and \<open>Exec_Props\<close>: a good turn touched nothing
  protected and ran every command to exit code 0, the built-in list cannot be lowered, git's output is
  read back unless git reports copies, hand-over exactly at the limit, a restart forgets nothing, the open
  journals are bounded and keep their data class.

  \<^bold>\<open>PII boundary.\<close> packages/pii masks what leaves for a language model or a sink. \<open>Pii_Check\<close> has the checksums,
  \<open>Pii_Scan\<close> the detectors and collectMatches of mask.ts: regular expressions are terms run in JavaScript's
  backtracking order. \<open>Pii_Token\<close> is reverse-map.ts with the token expressions of types.ts, \<open>Pii_Mask\<close> mask.ts
  and counts.ts: a payload is a \<open>data\<close>, a walk is a state-passing function that keeps the session also
  when it is refused. \<open>Pii_Policy\<close> is policy.ts, regex-safety.ts and the schemas, \<open>Pii_Boundary\<close> boundary.ts,
  masked.ts and result.ts; with a shared session the legs of several calls are a list of steps in any
  order. \<open>Pii_Words\<close> says what the token expressions match, \<open>Pii_Session\<close> that tokens and values stand for
  each other one to one, \<open>Pii_Walk\<close> that detections are covered and that a walk that counts nothing found
  nothing, \<open>Pii_Payload\<close> that a masked payload opens. \<open>Pii_Props\<close>: a call receives nothing a detector finds,
  round trip, tokens keep their meaning under interleaving, the checksums, what the order of the classes
  gives and what not; and the inputs on which detectors and token shapes fail their comments. The Unicode classes, the case
  mappings, the institution's expressions and the nonces are parameters; unbounded repetitions are
  bounded by the length of the text, which they cannot exceed.


  \<^bold>\<open>Notifications.\<close> packages/notify tells people. \<open>Notify_Instant\<close> is the ISO text of an instant,
  \<open>Notify_Calendar\<close> calendar.ts (working minutes of an institution), \<open>Notify_Ladder\<close> escalation.ts: which
  step of a ladder is due at a poll and when the next is; thresholds are the doubles of the source.
  \<open>Notify_Send\<close> is retry.ts and the routing of message.ts, \<open>Notify_Smtp_Wire\<close> smtp-protocol.ts,
  \<open>Notify_Smtp\<close> the session of smtp-client.ts over a socket that is the environment. \<open>Notify_Props\<close>: the
  timer is exact, no step fires twice, the minutes are counted, credentials and body go out only as
  configured, the relay reads back the lines of the message.

  \<^bold>\<open>Activities.\<close> What the workflow calls is packages/workflows/src/impl; Temporal may run an attempt again
  at any time, so every effect is guarded by a key. \<open>Idem_Guard\<close> is the guard of
  apps/deploy/src/stores/idempotency.ts, step by step, for any number of processes on one table.
  \<open>Act_Base\<close> is record.ts with the errors of a port: an activity is a function from a state (claims, gate
  rows, run rows, the log of performed effects) to an error or a result and a state, under an \<open>env\<close> that
  says what each port answers in this attempt and whether an effect is performed, refused, performed
  unanswered, or the end of the worker. \<open>Act_Gate\<close> is gate.ts, outcome.ts and the rows of
  stores/gates.ts, \<open>Act_Status\<close> status-move.ts, \<open>Act_Work\<close> scan.ts and engineering.ts, \<open>Act_Delivery\<close>
  intake.ts and delivery.ts, \<open>Act_Calls\<close> createActivities with lists of attempts. \<open>keeps_guard\<close> (a key is
  finished exactly when one acknowledged effect is logged for it) is the invariant of every activity,
  and \<open>replays\<close> says that a finished activity run again changes nothing. \<open>Act_Props\<close>: an effect completes
  at most once under every interleaving, an opened gate leaves each record once; a claim whose owner died
  stays, a gate opened again is silent.

  \<^bold>\<open>Decisions and run rows.\<close> \<open>Gate_Decide\<close> is decideGate of apps/bff and the decisions query of
  stores/gates.ts, \<open>Run_Rows\<close> stores/run-context.ts, stores/reconcile.ts and the row opened by
  temporal-gateway.ts, on a table with its two unique constraints. \<open>Gate_Props\<close>: decisions of verified
  members only, tests pass by exit codes, scans fail closed, bounded retries of a refused key, the
  reconciler copies each verdict once; and four places where the records do not say what the comments
  promise (the approvals query, the reminder's key, the row of a second run, the gate opened again).
  \<^bold>\<open>Bounds and fuel.\<close> Besides the patience of the environment the model has no fuel: loops are structural
  recursions or have a termination proof (the engineering loop by its attempts, matching by the length
  of pattern and text, polling for the lock by its deadline). Counters and instants are \<open>nat\<close> or \<open>int\<close>
  where the source stays within exact integers; text is UTF-16 in 16-bit words.

  \<^bold>\<open>Not modelled.\<close> What only talks to the outside: the adapters (Jira, Azure DevOps, GitHub, LDAP), Slack
  and Teams, Vault and S3 access, Docker; the analysis activities and the evidence package with the
  rendering of documents (docx, PDF, Confluence); the rest of the applications' wiring (apps), Studio's
  screens, the demo stacks. The token bucket of the cache works on fractional doubles. Temporal,
  SHA-256, Unicode normalisation, Prisma, TLS and the language model are parameters.
\<close>

end
